(* ===== verification/Prelude.thy ===== *)
theory Prelude
  imports Main "HOL-Library.Word"
begin

text \<open>
  Shared vocabulary of the development: the machine types of the Rust sources, the
  saturating and checked integer operations they use, little- and big-endian byte
  strings, the text rendering of numbers, and the lossy UTF-8 conversion of the Rust
  standard library.  The lemmas here are the ones several components need; they are
  collected in \<open>byte_codec\<close> (lengths and inverses of byte encodings) and
  \<open>saturating\<close> (bounds of saturating arithmetic).
\<close>

named_theorems byte_codec \<open>lengths and inverses of fixed width byte encodings\<close>
named_theorems saturating \<open>facts about saturating counters\<close>

type_synonym byte = "8 word"
type_synonym u16 = "16 word"
type_synonym u32 = "32 word"
type_synonym u64 = "64 word"
type_synonym u128 = "128 word"

section \<open>Bounded counters\<close>

text \<open>
  Counters that the sources only ever change with \<open>saturating_add\<close> and
  \<open>saturating_sub\<close> are natural numbers below the bound of their type.
\<close>

definition u64_max :: nat where
  "u64_max = 2 ^ 64 - 1"

definition i64_max :: int where
  "i64_max = 2 ^ 63 - 1"

definition i64_min :: int where
  "i64_min = - (2 ^ 63)"

definition sat_add_u64 :: "nat \<Rightarrow> nat \<Rightarrow> nat" where
  "sat_add_u64 a b = min (a + b) u64_max"

definition sat_mul_u64 :: "nat \<Rightarrow> nat \<Rightarrow> nat" where
  "sat_mul_u64 a b = min (a * b) u64_max"

text \<open>\<open>saturating_sub\<close> on an unsigned type is the truncated subtraction of \<open>nat\<close>.\<close>

definition sat_sub_u64 :: "nat \<Rightarrow> nat \<Rightarrow> nat" where
  "sat_sub_u64 a b = a - b"

definition clamp_i64 :: "int \<Rightarrow> int" where
  "clamp_i64 x = max i64_min (min i64_max x)"

definition sat_sub_i64 :: "int \<Rightarrow> int \<Rightarrow> int" where
  "sat_sub_i64 a b = clamp_i64 (a - b)"

definition sat_add_i64 :: "int \<Rightarrow> int \<Rightarrow> int" where
  "sat_add_i64 a b = clamp_i64 (a + b)"

lemma sat_add_u64_exact [saturating]: "a + b \<le> u64_max \<Longrightarrow> sat_add_u64 a b = a + b"
  by (simp add: sat_add_u64_def)

lemma sat_add_u64_le [saturating]: "sat_add_u64 a b \<le> u64_max"
  by (simp add: sat_add_u64_def)

lemma sat_add_u64_min [saturating]:
  "sat_add_u64 (min a u64_max) (min b u64_max) = min (a + b) u64_max"
  by (simp add: sat_add_u64_def min_def)

lemma sat_add_u64_mono_left [saturating]: "a \<le> u64_max \<Longrightarrow> a \<le> sat_add_u64 a b"
  by (simp add: sat_add_u64_def)

lemma sat_mul_u64_exact [saturating]: "a * b \<le> u64_max \<Longrightarrow> sat_mul_u64 a b = a * b"
  by (simp add: sat_mul_u64_def)

lemma sat_sub_u64_simp [simp]: "sat_sub_u64 a b = a - b"
  by (simp add: sat_sub_u64_def)

lemma clamp_i64_id: "i64_min \<le> x \<Longrightarrow> x \<le> i64_max \<Longrightarrow> clamp_i64 x = x"
  by (simp add: clamp_i64_def)

lemma clamp_i64_bounds: "i64_min \<le> clamp_i64 x \<and> clamp_i64 x \<le> i64_max"
  by (simp add: clamp_i64_def i64_min_def i64_max_def)

definition unwrap_or :: "'a option \<Rightarrow> 'a \<Rightarrow> 'a" where
  "unwrap_or x d = (case x of Some v \<Rightarrow> v | None \<Rightarrow> d)"

lemma unwrap_or_simps [simp]: "unwrap_or (Some v) d = v" "unwrap_or None d = d"
  by (simp_all add: unwrap_or_def)

lemma count_list_length: "count_list xs x \<le> length xs"
  by (induction xs) auto

lemma count_remove1: "count_list (remove1 a xs) b = count_list xs b - (if a = b then 1 else 0)"
  by (induction xs) (auto simp: count_list_0_iff)

section \<open>Byte strings\<close>

text \<open>\<open>to_le_bytes\<close>, \<open>from_le_bytes\<close> and their big-endian twins, at any width.\<close>

fun le_bytes :: "nat \<Rightarrow> nat \<Rightarrow> byte list" where
  "le_bytes 0 x = []"
| "le_bytes (Suc n) x = word_of_nat x # le_bytes n (x div 256)"

fun le_nat :: "byte list \<Rightarrow> nat" where
  "le_nat [] = 0"
| "le_nat (b # bs) = unat b + 256 * le_nat bs"

definition be_bytes :: "nat \<Rightarrow> nat \<Rightarrow> byte list" where
  "be_bytes n x = rev (le_bytes n x)"

definition be_nat :: "byte list \<Rightarrow> nat" where
  "be_nat bs = le_nat (rev bs)"

lemma unat_byte_less [simp]: "unat (b :: byte) < 256"
proof -
  have "unat b < 2 ^ LENGTH(8)"
    by (rule unsigned_less)
  then show ?thesis by simp
qed

lemma length_le_bytes [simp, byte_codec]: "length (le_bytes n x) = n"
  by (induction n arbitrary: x) auto

lemma length_be_bytes [simp, byte_codec]: "length (be_bytes n x) = n"
  by (simp add: be_bytes_def)

lemma le_nat_le_bytes_mod: "le_nat (le_bytes n x) = x mod 256 ^ n"
proof (induction n arbitrary: x)
  case 0
  then show ?case by simp
next
  case (Suc n)
  have "unat (word_of_nat x :: byte) = x mod 256"
    by (simp add: unat_of_nat)
  then show ?case
    using Suc.IH[of "x div 256"] by (simp add: mod_mult2_eq)
qed

lemma le_nat_le_bytes [byte_codec]: "x < 256 ^ n \<Longrightarrow> le_nat (le_bytes n x) = x"
  by (simp add: le_nat_le_bytes_mod)

lemma be_nat_be_bytes [byte_codec]: "x < 256 ^ n \<Longrightarrow> be_nat (be_bytes n x) = x"
  by (simp add: be_nat_def be_bytes_def le_nat_le_bytes)

lemma le_nat_bound: "le_nat bs < 256 ^ length bs"
proof (induction bs)
  case Nil
  then show ?case by simp
next
  case (Cons b bs)
  have "unat b < 256" by simp
  with Cons have "unat b + 256 * le_nat bs < 256 * 256 ^ length bs" by linarith
  then show ?case by simp
qed

lemma be_nat_bound: "be_nat bs < 256 ^ length bs"
  using le_nat_bound[of "rev bs"] by (simp add: be_nat_def)

lemma le_bytes_le_nat: "length bs = n \<Longrightarrow> le_bytes n (le_nat bs) = bs"
proof (induction bs arbitrary: n)
  case Nil
  then show ?case by simp
next
  case (Cons b bs)
  have "unat b < 256"
    by simp
  then have "(unat b + 256 * le_nat bs) div 256 = le_nat bs"
    by simp
  moreover have "(word_of_nat (unat b + 256 * le_nat bs) :: byte) = b"
  proof (rule word_unat_eq_iff[THEN iffD2])
    show "unat (word_of_nat (unat b + 256 * le_nat bs) :: byte) = unat b"
      by (simp only: unat_of_nat) simp
  qed
  ultimately show ?case
    using Cons by auto
qed

lemma take_append_length [simp]: "length xs = n \<Longrightarrow> take n (xs @ ys) = xs"
  by simp

lemma drop_append_length [simp]: "length xs = n \<Longrightarrow> drop n (xs @ ys) = ys"
  by simp

section \<open>Text\<close>

text \<open>
  A Rust \<open>String\<close> is its sequence of UTF-8 bytes; \<open>char\<close> of HOL is an 8-bit code,
  so a \<open>string\<close> of HOL is such a sequence and \<open>length\<close> counts bytes as \<open>str::len\<close> does.
\<close>

definition char_of_byte :: "byte \<Rightarrow> char" where
  "char_of_byte b = char_of (unat b)"

definition byte_of_char :: "char \<Rightarrow> byte" where
  "byte_of_char c = word_of_nat (of_char c)"

definition str_bytes :: "string \<Rightarrow> byte list" where
  "str_bytes s = map byte_of_char s"

definition bytes_str :: "byte list \<Rightarrow> string" where
  "bytes_str bs = map char_of_byte bs"

lemma char_of_byte_of_char [simp]: "char_of_byte (byte_of_char c) = c"
proof -
  have "(of_char c :: nat) < 256"
    using nat_of_char_less_256[of c] by simp
  then show ?thesis
    by (simp add: char_of_byte_def byte_of_char_def unat_of_nat)
qed

lemma byte_of_char_of_byte [simp]: "byte_of_char (char_of_byte b) = b"
proof -
  have "unat b < 256"
    by simp
  then have "(of_char (char_of (unat b) :: char) :: nat) = unat b"
    by simp
  then show ?thesis
    by (simp add: char_of_byte_def byte_of_char_def)
qed

lemma bytes_str_bytes [simp, byte_codec]: "bytes_str (str_bytes s) = s"
  by (simp add: bytes_str_def str_bytes_def comp_def)

lemma str_bytes_str [simp, byte_codec]: "str_bytes (bytes_str bs) = bs"
  by (simp add: bytes_str_def str_bytes_def comp_def)

lemma length_str_bytes [simp, byte_codec]: "length (str_bytes s) = length s"
  by (simp add: str_bytes_def)

lemma length_bytes_str [simp, byte_codec]: "length (bytes_str bs) = length bs"
  by (simp add: bytes_str_def)

subsection \<open>Numbers as text\<close>

definition digit_char :: "nat \<Rightarrow> char" where
  "digit_char d = ''0123456789abcdef'' ! (d mod 16)"

fun show_radix :: "nat \<Rightarrow> nat \<Rightarrow> nat \<Rightarrow> string" where
  "show_radix r 0 n = []"
| "show_radix r (Suc k) n =
     (if n < r then [digit_char n] else show_radix r k (n div r) @ [digit_char (n mod r)])"

text \<open>Decimal and \<open>{:#x}\<close> rendering; \<open>n + 1\<close> digits are always enough.\<close>

definition show_nat :: "nat \<Rightarrow> string" where
  "show_nat n = show_radix 10 (Suc n) n"

definition show_hex :: "nat \<Rightarrow> string" where
  "show_hex n = ''0x'' @ show_radix 16 (Suc n) n"

text \<open>\<open>{:012}\<close>: decimal, padded on the left with zeros to twelve characters.\<close>

definition pad_zeros :: "nat \<Rightarrow> string \<Rightarrow> string" where
  "pad_zeros w s = replicate (w - length s) CHR ''0'' @ s"

definition is_ascii_digit :: "char \<Rightarrow> bool" where
  "is_ascii_digit c = (48 \<le> (of_char c :: nat) \<and> (of_char c :: nat) \<le> 57)"

text \<open>\<open>str::parse::<u64>\<close> on a run of ASCII digits: \<open>None\<close> when the value does not fit.\<close>

fun digits_value :: "nat \<Rightarrow> string \<Rightarrow> nat" where
  "digits_value acc [] = acc"
| "digits_value acc (c # cs) = digits_value (acc * 10 + (of_char c - 48)) cs"

definition parse_u64_digits :: "string \<Rightarrow> nat option" where
  "parse_u64_digits ds = (let v = digits_value 0 ds in if v \<le> u64_max then Some v else None)"

lemma digits_value_append: "digits_value a (xs @ ys) = digits_value (digits_value a xs) ys"
  by (induction xs arbitrary: a) auto

lemma digit_char_props:
  "d < 10 \<Longrightarrow> is_ascii_digit (digit_char d) \<and> (of_char (digit_char d) :: nat) = d + 48"
  by (cases "d = 0 \<or> d = 1 \<or> d = 2 \<or> d = 3 \<or> d = 4 \<or> d = 5 \<or> d = 6 \<or> d = 7 \<or> d = 8 \<or> d = 9")
    (auto simp: digit_char_def is_ascii_digit_def of_char_def)

lemma show_radix_digits:
  "n < k \<Longrightarrow> list_all is_ascii_digit (show_radix 10 k n) \<and> digits_value 0 (show_radix 10 k n) = n"
proof (induction k arbitrary: n)
  case 0
  then show ?case by simp
next
  case (Suc k)
  show ?case
  proof (cases "n < 10")
    case True
    then show ?thesis
      using digit_char_props[of n] by simp
  next
    case False
    with Suc.prems have lt: "n div 10 < k" by linarith
    have d: "is_ascii_digit (digit_char (n mod 10)) \<and> (of_char (digit_char (n mod 10)) :: nat) = n mod 10 + 48"
      by (rule digit_char_props) simp
    have "digits_value 0 (show_radix 10 (Suc k) n) = n div 10 * 10 + n mod 10"
      using False Suc.IH[OF lt] d by (simp add: digits_value_append)
    then show ?thesis
      using False Suc.IH[OF lt] d by simp
  qed
qed

lemma show_nat_digits [simp]: "list_all is_ascii_digit (show_nat n)"
  and digits_value_show_nat [simp]: "digits_value 0 (show_nat n) = n"
  using show_radix_digits[of n "Suc n"] by (simp_all add: show_nat_def)

lemma show_nat_nonempty [simp]: "show_nat n \<noteq> []"
  by (simp add: show_nat_def)

lemma digits_value_zeros: "digits_value 0 (replicate k CHR ''0'' @ s) = digits_value 0 s"
  by (induction k) auto

lemma digits_value_pad [simp]: "digits_value 0 (pad_zeros w (show_nat n)) = n"
  by (simp add: pad_zeros_def digits_value_zeros)

lemma pad_zeros_digits [simp]: "list_all is_ascii_digit (pad_zeros w (show_nat n))"
  by (simp add: pad_zeros_def) (simp add: list_all_iff is_ascii_digit_def)

lemma pad_zeros_nonempty [simp]: "pad_zeros w (show_nat n) \<noteq> []"
  by (simp add: pad_zeros_def)

subsection \<open>Text\<close>

text \<open>
  Operations of \<open>str\<close> on the bytes of a string: \<open>find\<close>, \<open>contains\<close>, \<open>strip_prefix\<close>,
  \<open>strip_suffix\<close>, \<open>replace\<close> with a single byte, and the ASCII classes.
\<close>

fun str_find :: "string \<Rightarrow> string \<Rightarrow> nat option" where
  "str_find pat [] = (if pat = [] then Some 0 else None)"
| "str_find pat (c # cs) =
     (if take (length pat) (c # cs) = pat then Some 0 else map_option Suc (str_find pat cs))"

definition str_contains :: "string \<Rightarrow> string \<Rightarrow> bool" where
  "str_contains s pat = (str_find pat s \<noteq> None)"

definition strip_prefix :: "string \<Rightarrow> string \<Rightarrow> string option" where
  "strip_prefix p s = (if take (length p) s = p then Some (drop (length p) s) else None)"

definition strip_suffix :: "string \<Rightarrow> string \<Rightarrow> string option" where
  "strip_suffix p s = map_option rev (strip_prefix (rev p) (rev s))"

definition to_ascii_lowercase :: "string \<Rightarrow> string" where
  "to_ascii_lowercase s =
     map (\<lambda>c. if of_char c \<in> {65..90 :: nat} then char_of (of_char c + 32 :: nat) else c) s"

definition is_ascii_alphanumeric :: "char \<Rightarrow> bool" where
  "is_ascii_alphanumeric ch =
     (is_ascii_digit ch \<or> of_char ch \<in> {97..122 :: nat} \<or> of_char ch \<in> {65..90 :: nat})"

lemma str_find_bound: "str_find pat s = Some n \<Longrightarrow> n + length pat \<le> length s"
proof (induction s arbitrary: n)
  case (Cons c cs)
  show ?case
  proof (cases "take (length pat) (c # cs) = pat")
    case True
    then have "length pat \<le> length (c # cs)" by (metis nat_le_linear take_all)
    then show ?thesis using Cons.prems True by simp
  next
    case False
    then show ?thesis using Cons by auto
  qed
qed (auto split: if_splits)

end
