(* ===== verification/Utf8.thy ===== *)
theory Utf8
  imports Prelude
begin

text \<open>
  \<open>String::from_utf8_lossy\<close> and \<open>String::from_utf8\<close> of the Rust standard library, on
  byte lists: the scan advances over one well-formed sequence or over one maximal
  ill-formed chunk, which the lossy conversion replaces by U+FFFD.
\<close>

unbundle bit_operations_syntax

definition utf8_char_width :: "byte \<Rightarrow> nat" where
  "utf8_char_width b =
     (if b < 0x80 then 1 else if b < 0xC2 then 0 else if b < 0xE0 then 2
      else if b < 0xF0 then 3 else if b < 0xF5 then 4 else 0)"

definition is_cont :: "byte \<Rightarrow> bool" where
  "is_cont b = (b AND 0xC0 = 0x80)"

definition second_of_3 :: "byte \<Rightarrow> byte \<Rightarrow> bool" where
  "second_of_3 b c =
     (if b = 0xE0 then 0xA0 \<le> c \<and> c \<le> 0xBF
      else if b = 0xED then 0x80 \<le> c \<and> c \<le> 0x9F
      else 0x80 \<le> c \<and> c \<le> 0xBF)"

definition second_of_4 :: "byte \<Rightarrow> byte \<Rightarrow> bool" where
  "second_of_4 b c =
     (if b = 0xF0 then 0x90 \<le> c \<and> c \<le> 0xBF
      else if b = 0xF4 then 0x80 \<le> c \<and> c \<le> 0x8F
      else 0x80 \<le> c \<and> c \<le> 0xBF)"

definition safe_get :: "byte list \<Rightarrow> nat \<Rightarrow> byte" where
  "safe_get s i = (if i < length s then s ! i else 0)"

text \<open>The length of the next chunk of a non-empty input, and whether it is well formed.\<close>

definition utf8_step :: "byte list \<Rightarrow> nat \<times> bool" where
  "utf8_step s =
     (let b = safe_get s 0; w = utf8_char_width b in
      if b < 0x80 then (1, True)
      else if w = 2 then (if is_cont (safe_get s 1) then (2, True) else (1, False))
      else if w = 3 then
        (if second_of_3 b (safe_get s 1)
         then (if is_cont (safe_get s 2) then (3, True) else (2, False))
         else (1, False))
      else if w = 4 then
        (if second_of_4 b (safe_get s 1)
         then (if is_cont (safe_get s 2)
               then (if is_cont (safe_get s 3) then (4, True) else (3, False))
               else (2, False))
         else (1, False))
      else (1, False))"

lemma utf8_step_pos: "0 < fst (utf8_step s)"
  by (simp add: utf8_step_def Let_def)

function utf8_lossy :: "byte list \<Rightarrow> byte list" where
  "utf8_lossy s =
     (if s = [] then []
      else if snd (utf8_step s) then take (fst (utf8_step s)) s @ utf8_lossy (drop (fst (utf8_step s)) s)
      else [0xEF, 0xBF, 0xBD] @ utf8_lossy (drop (fst (utf8_step s)) s))"
  by pat_completeness auto
termination
  by (relation "measure length") (auto simp: utf8_step_pos)

function utf8_valid :: "byte list \<Rightarrow> bool" where
  "utf8_valid s =
     (if s = [] then True
      else if snd (utf8_step s) then utf8_valid (drop (fst (utf8_step s)) s) else False)"
  by pat_completeness auto
termination
  by (relation "measure length") (auto simp: utf8_step_pos)

declare utf8_lossy.simps [simp del] utf8_valid.simps [simp del]

lemma utf8_lossy_Nil [simp]: "utf8_lossy [] = []"
  by (simp add: utf8_lossy.simps)

lemma utf8_lossy_valid [simp]: "utf8_valid s \<Longrightarrow> utf8_lossy s = s"
proof (induction s rule: utf8_lossy.induct)
  case (1 s)
  show ?case
  proof (cases "s = []")
    case True
    then show ?thesis by simp
  next
    case False
    with "1.prems" have ok: "snd (utf8_step s)" "utf8_valid (drop (fst (utf8_step s)) s)"
      by (auto simp: utf8_valid.simps [of s] split: if_splits)
    with False "1.IH" have "utf8_lossy (drop (fst (utf8_step s)) s) = drop (fst (utf8_step s)) s"
      by simp
    with False ok show ?thesis
      by (subst utf8_lossy.simps) simp
  qed
qed

text \<open>The wire names and values the proxy itself looks up are ASCII.\<close>

lemma utf8_valid_ascii: "\<forall>b \<in> set s. b < 0x80 \<Longrightarrow> utf8_valid s"
proof (induction s)
  case Nil
  then show ?case by (simp add: utf8_valid.simps)
next
  case (Cons b s)
  then have "utf8_step (b # s) = (1, True)"
    by (simp add: utf8_step_def safe_get_def Let_def)
  with Cons show ?case
    by (simp add: utf8_valid.simps [of "b # s"])
qed

lemma utf8_valid_str:
  assumes "\<forall>c \<in> set s. of_char c < (128 :: nat)"
  shows "utf8_valid (str_bytes s)"
proof (rule utf8_valid_ascii)
  have "byte_of_char c < 0x80" if "of_char c < (128 :: nat)" for c
    using that by (simp add: byte_of_char_def word_less_nat_alt unat_of_nat)
  then show "\<forall>b \<in> set (str_bytes s). b < 0x80"
    using assms by (auto simp: str_bytes_def)
qed

section \<open>Characters\<close>

text \<open>A string slice as the list of its characters, and \<open>str::trim\<close>.\<close>

function utf8_chars :: "byte list \<Rightarrow> byte list list" where
  "utf8_chars s =
     (if s = [] then [] else take (fst (utf8_step s)) s # utf8_chars (drop (fst (utf8_step s)) s))"
  by pat_completeness auto
termination by (relation "measure length") (auto simp: utf8_step_pos)

declare utf8_chars.simps [simp del]

text \<open>The Unicode property \<open>White_Space\<close>.\<close>

definition char_is_whitespace :: "byte list \<Rightarrow> bool" where
  "char_is_whitespace c =
     (c \<in> {[0x09], [0x0A], [0x0B], [0x0C], [0x0D], [0x20], [0xC2, 0x85], [0xC2, 0xA0],
            [0xE1, 0x9A, 0x80], [0xE2, 0x80, 0xA8], [0xE2, 0x80, 0xA9], [0xE2, 0x80, 0xAF],
            [0xE2, 0x81, 0x9F], [0xE3, 0x80, 0x80]}
      \<or> (length c = 3 \<and> take 2 c = [0xE2, 0x80] \<and> 0x80 \<le> c ! 2 \<and> c ! 2 \<le> 0x8A))"

definition trim :: "byte list \<Rightarrow> byte list" where
  "trim s =
     concat (rev (dropWhile char_is_whitespace (rev (dropWhile char_is_whitespace (utf8_chars s)))))"

definition str_trim :: "string \<Rightarrow> string" where
  "str_trim s = bytes_str (trim (str_bytes s))"

end
