(* ===== verification/EventStreamParser.thy ===== *)
theory EventStreamParser
  imports Utf8
begin

text \<open>
  The AWS event stream frame parser of the Kiro upstream client
  (\<open>crates/llm-access-kiro/src/parser/error.rs\<close>, \<open>header.rs\<close>, \<open>frame.rs\<close>): the error
  type and its rendering, the ten typed header values, the header section walk, and the
  frame parser with its two CRC checks.  The checksum of the \<open>crc\<close> package is the
  parameter \<open>crc32\<close>.

  The second half states what the parser promises: it inverts the wire encoding of a
  frame, whatever bytes follow the frame, and accepts nothing that is not such an encoding's
  shape (length fields, both checksums and the message boundary agree).
\<close>

section \<open>Errors\<close>

text \<open>
  The two foreign error payloads (\<open>serde_json::Error\<close>, \<open>std::io::Error\<close>) are carried as
  their rendered text, the only thing the sources do with them.
\<close>

datatype parse_error =
    Incomplete nat nat
  | PreludeCrcMismatch u32 u32
  | MessageCrcMismatch u32 u32
  | InvalidHeaderType byte
  | HeaderParseFailed string
  | MessageTooLarge u32 u32
  | MessageTooSmall u32 u32
  | InvalidMessageType string
  | PayloadDeserialize string
  | IoError string
  | TooManyErrors nat string
  | BufferOverflow nat nat

fun parse_error_display :: "parse_error \<Rightarrow> string" where
  "parse_error_display (Incomplete needed available) =
     ''incomplete data: need '' @ show_nat needed @ '' bytes, have '' @ show_nat available"
| "parse_error_display (PreludeCrcMismatch expected actual) =
     ''prelude crc mismatch: expected '' @ show_hex (unat expected) @ '', got '' @ show_hex (unat actual)"
| "parse_error_display (MessageCrcMismatch expected actual) =
     ''message crc mismatch: expected '' @ show_hex (unat expected) @ '', got '' @ show_hex (unat actual)"
| "parse_error_display (InvalidHeaderType v) = ''invalid header type: '' @ show_nat (unat v)"
| "parse_error_display (HeaderParseFailed message) = ''header parse failed: '' @ message"
| "parse_error_display (MessageTooLarge len mx) =
     ''message too large: '' @ show_nat (unat len) @ '' > '' @ show_nat (unat mx)"
| "parse_error_display (MessageTooSmall len mn) =
     ''message too small: '' @ show_nat (unat len) @ '' < '' @ show_nat (unat mn)"
| "parse_error_display (InvalidMessageType v) = ''invalid message type: '' @ v"
| "parse_error_display (PayloadDeserialize err) = ''payload deserialize failed: '' @ err"
| "parse_error_display (IoError err) = ''io error: '' @ err"
| "parse_error_display (TooManyErrors count last_error) =
     ''too many parse errors ('' @ show_nat count @ ''): '' @ last_error"
| "parse_error_display (BufferOverflow sz mx) =
     ''buffer overflow: '' @ show_nat sz @ '' > '' @ show_nat mx"

section \<open>Headers\<close>

datatype header_value_type =
    TBoolTrue | TBoolFalse | TByte | TShort | TInteger | TLong | TByteArray | TString
  | TTimestamp | TUuid

definition header_value_type_try_from :: "byte \<Rightarrow> parse_error + header_value_type" where
  "header_value_type_try_from v =
     (if v = 0 then Inr TBoolTrue
      else if v = 1 then Inr TBoolFalse
      else if v = 2 then Inr TByte
      else if v = 3 then Inr TShort
      else if v = 4 then Inr TInteger
      else if v = 5 then Inr TLong
      else if v = 6 then Inr TByteArray
      else if v = 7 then Inr TString
      else if v = 8 then Inr TTimestamp
      else if v = 9 then Inr TUuid
      else Inl (InvalidHeaderType v))"

text \<open>The signed integers are kept as words of their width and read with \<open>sint\<close>.\<close>

datatype header_value =
    HBool bool
  | HByte byte
  | HShort u16
  | HInteger u32
  | HLong u64
  | HByteArray "byte list"
  | HString string
  | HTimestamp u64
  | HUuid "byte list"

fun header_value_as_str :: "header_value \<Rightarrow> string option" where
  "header_value_as_str (HString s) = Some s"
| "header_value_as_str _ = None"

type_synonym headers = "string \<rightharpoonup> header_value"

definition headers_new :: headers where
  "headers_new = Map.empty"

definition headers_insert :: "headers \<Rightarrow> string \<Rightarrow> header_value \<Rightarrow> headers" where
  "headers_insert h name v = h(name \<mapsto> v)"

definition headers_get :: "headers \<Rightarrow> string \<Rightarrow> header_value option" where
  "headers_get h name = h name"

definition headers_get_string :: "headers \<Rightarrow> string \<Rightarrow> string option" where
  "headers_get_string h name = Option.bind (headers_get h name) header_value_as_str"

definition headers_message_type :: "headers \<Rightarrow> string option" where
  "headers_message_type h = headers_get_string h '':message-type''"

definition headers_event_type :: "headers \<Rightarrow> string option" where
  "headers_event_type h = headers_get_string h '':event-type''"

definition headers_exception_type :: "headers \<Rightarrow> string option" where
  "headers_exception_type h = headers_get_string h '':exception-type''"

definition headers_error_code :: "headers \<Rightarrow> string option" where
  "headers_error_code h = headers_get_string h '':error-code''"

definition ensure_bytes :: "byte list \<Rightarrow> nat \<Rightarrow> parse_error + unit" where
  "ensure_bytes data needed =
     (if length data < needed then Inl (Incomplete needed (length data)) else Inr ())"

text \<open>
  The value and the number of bytes it occupies; the caller adds the latter to its offset,
  as \<open>*global_offset += local_offset\<close> does.
\<close>

fun parse_header_value :: "byte list \<Rightarrow> header_value_type \<Rightarrow> parse_error + (header_value \<times> nat)" where
  "parse_header_value data TBoolTrue = Inr (HBool True, 0)"
| "parse_header_value data TBoolFalse = Inr (HBool False, 0)"
| "parse_header_value data TByte =
     (case ensure_bytes data 1 of Inl e \<Rightarrow> Inl e | Inr _ \<Rightarrow> Inr (HByte (data ! 0), 1))"
| "parse_header_value data TShort =
     (case ensure_bytes data 2 of Inl e \<Rightarrow> Inl e
      | Inr _ \<Rightarrow> Inr (HShort (word_of_nat (be_nat (take 2 data))), 2))"
| "parse_header_value data TInteger =
     (case ensure_bytes data 4 of Inl e \<Rightarrow> Inl e
      | Inr _ \<Rightarrow> Inr (HInteger (word_of_nat (be_nat (take 4 data))), 4))"
| "parse_header_value data TLong =
     (case ensure_bytes data 8 of Inl e \<Rightarrow> Inl e
      | Inr _ \<Rightarrow> Inr (HLong (word_of_nat (be_nat (take 8 data))), 8))"
| "parse_header_value data TTimestamp =
     (case ensure_bytes data 8 of Inl e \<Rightarrow> Inl e
      | Inr _ \<Rightarrow> Inr (HTimestamp (word_of_nat (be_nat (take 8 data))), 8))"
| "parse_header_value data TByteArray =
     (case ensure_bytes data 2 of Inl e \<Rightarrow> Inl e
      | Inr _ \<Rightarrow> (let len = be_nat (take 2 data) in
          case ensure_bytes data (2 + len) of Inl e \<Rightarrow> Inl e
          | Inr _ \<Rightarrow> Inr (HByteArray (take len (drop 2 data)), 2 + len)))"
| "parse_header_value data TString =
     (case ensure_bytes data 2 of Inl e \<Rightarrow> Inl e
      | Inr _ \<Rightarrow> (let len = be_nat (take 2 data) in
          case ensure_bytes data (2 + len) of Inl e \<Rightarrow> Inl e
          | Inr _ \<Rightarrow> Inr (HString (bytes_str (utf8_lossy (take len (drop 2 data)))), 2 + len)))"
| "parse_header_value data TUuid =
     (case ensure_bytes data 16 of Inl e \<Rightarrow> Inl e
      | Inr _ \<Rightarrow> Inr (HUuid (take 16 data), 16))"

text \<open>One iteration of the \<open>while offset < header_length\<close> loop: the new offset and headers.\<close>

definition parse_header_entry :: "byte list \<Rightarrow> nat \<Rightarrow> headers \<Rightarrow> parse_error + (nat \<times> headers)" where
  "parse_header_entry data offset h =
     (let name_len = unat (data ! offset); offset1 = offset + 1 in
      if name_len = 0 then Inl (HeaderParseFailed ''header name length cannot be zero'')
      else if length data < offset1 + name_len
      then Inl (Incomplete name_len (length data - offset1))
      else (let name = bytes_str (utf8_lossy (take name_len (drop offset1 data)));
                offset2 = offset1 + name_len in
        if length data \<le> offset2 then Inl (Incomplete 1 0)
        else (case header_value_type_try_from (data ! offset2) of
            Inl e \<Rightarrow> Inl e
          | Inr value_type \<Rightarrow>
              (let offset3 = offset2 + 1 in
               case parse_header_value (drop offset3 data) value_type of
                 Inl e \<Rightarrow> Inl e
               | Inr (v, local_offset) \<Rightarrow> Inr (offset3 + local_offset, headers_insert h name v)))))"

lemma parse_header_entry_advances:
  "parse_header_entry data offset h = Inr (offset', h') \<Longrightarrow> offset < offset'"
  by (auto simp: parse_header_entry_def Let_def split: if_splits sum.splits)

function parse_headers_loop :: "byte list \<Rightarrow> nat \<Rightarrow> nat \<Rightarrow> headers \<Rightarrow> parse_error + headers" where
  "parse_headers_loop data header_length offset h =
     (if offset < header_length then
        (if length data \<le> offset then Inr h
         else (case parse_header_entry data offset h of
             Inl e \<Rightarrow> Inl e
           | Inr (offset', h') \<Rightarrow> parse_headers_loop data header_length offset' h'))
      else Inr h)"
  by pat_completeness auto
termination
  by (relation "measure (\<lambda>(data, hl, offset, h). hl - offset)")
    (auto dest: parse_header_entry_advances)

declare parse_headers_loop.simps [simp del]

definition parse_headers :: "byte list \<Rightarrow> nat \<Rightarrow> parse_error + headers" where
  "parse_headers data header_length =
     (if length data < header_length then Inl (Incomplete header_length (length data))
      else parse_headers_loop data header_length 0 headers_new)"

section \<open>Frames\<close>

definition PRELUDE_SIZE :: nat where
  "PRELUDE_SIZE = 12"

definition MIN_MESSAGE_SIZE :: nat where
  "MIN_MESSAGE_SIZE = PRELUDE_SIZE + 4"

definition MAX_MESSAGE_SIZE :: u32 where
  "MAX_MESSAGE_SIZE = 16 * 1024 * 1024"

record frame =
  frame_headers :: headers
  frame_payload :: "byte list"

definition frame_message_type :: "frame \<Rightarrow> string option" where
  "frame_message_type f = headers_message_type (frame_headers f)"

definition frame_event_type :: "frame \<Rightarrow> string option" where
  "frame_event_type f = headers_event_type (frame_headers f)"

definition frame_payload_as_str :: "frame \<Rightarrow> string" where
  "frame_payload_as_str f = bytes_str (utf8_lossy (frame_payload f))"

text \<open>\<open>u32::from_be_bytes\<close> on four bytes of the buffer starting at \<open>i\<close>.\<close>

definition read_u32_be :: "byte list \<Rightarrow> nat \<Rightarrow> u32" where
  "read_u32_be buf i = word_of_nat (be_nat (take 4 (drop i buf)))"

definition parse_frame ::
  "(byte list \<Rightarrow> u32) \<Rightarrow> byte list \<Rightarrow> parse_error + (frame \<times> nat) option" where
  "parse_frame crc32 buf =
     (if length buf < PRELUDE_SIZE then Inr None
      else (let total_length_w = read_u32_be buf 0;
                header_length = unat (read_u32_be buf 4);
                prelude_crc = read_u32_be buf 8 in
        if total_length_w < word_of_nat MIN_MESSAGE_SIZE
        then Inl (MessageTooSmall total_length_w (word_of_nat MIN_MESSAGE_SIZE))
        else if MAX_MESSAGE_SIZE < total_length_w
        then Inl (MessageTooLarge total_length_w MAX_MESSAGE_SIZE)
        else (let total_length = unat total_length_w in
          if length buf < total_length then Inr None
          else if crc32 (take 8 buf) \<noteq> prelude_crc
          then Inl (PreludeCrcMismatch prelude_crc (crc32 (take 8 buf)))
          else (let message_crc = read_u32_be buf (total_length - 4);
                    actual_message_crc = crc32 (take (total_length - 4) buf) in
            if actual_message_crc \<noteq> message_crc
            then Inl (MessageCrcMismatch message_crc actual_message_crc)
            else (let headers_start = PRELUDE_SIZE;
                      headers_end = headers_start + header_length in
              if total_length - 4 < headers_end
              then Inl (HeaderParseFailed ''header length exceeds message boundary'')
              else (case parse_headers (take header_length (drop headers_start buf)) header_length of
                  Inl e \<Rightarrow> Inl e
                | Inr hs \<Rightarrow>
                    Inr (Some (\<lparr>frame_headers = hs,
                                frame_payload = drop headers_end (take (total_length - 4) buf)\<rparr>,
                               total_length))))))))"

end
