(* ===== verification/EventStreamCodec.thy ===== *)
theory EventStreamCodec
  imports EventStreamParser
begin

text \<open>
  The wire format the frame parser reads, as an abstract encoder, and the parser's
  correctness against it: the header section walk inverts the encoding of a header list,
  \<open>parse_frame\<close> inverts the encoding of a frame whatever follows it, waits for exactly the
  missing bytes of a frame that is still incomplete, and accepts only buffers whose length
  fields and checksums agree.
\<close>

section \<open>The wire encoding\<close>

fun header_value_code :: "header_value \<Rightarrow> byte" where
  "header_value_code (HBool True) = 0"
| "header_value_code (HBool False) = 1"
| "header_value_code (HByte _) = 2"
| "header_value_code (HShort _) = 3"
| "header_value_code (HInteger _) = 4"
| "header_value_code (HLong _) = 5"
| "header_value_code (HByteArray _) = 6"
| "header_value_code (HString _) = 7"
| "header_value_code (HTimestamp _) = 8"
| "header_value_code (HUuid _) = 9"

fun header_value_bytes :: "header_value \<Rightarrow> byte list" where
  "header_value_bytes (HBool _) = []"
| "header_value_bytes (HByte b) = [b]"
| "header_value_bytes (HShort w) = be_bytes 2 (unat w)"
| "header_value_bytes (HInteger w) = be_bytes 4 (unat w)"
| "header_value_bytes (HLong w) = be_bytes 8 (unat w)"
| "header_value_bytes (HByteArray bs) = be_bytes 2 (length bs) @ bs"
| "header_value_bytes (HString s) = be_bytes 2 (length s) @ str_bytes s"
| "header_value_bytes (HTimestamp w) = be_bytes 8 (unat w)"
| "header_value_bytes (HUuid bs) = bs"

definition encode_header :: "string \<times> header_value \<Rightarrow> byte list" where
  "encode_header nv = word_of_nat (length (fst nv)) # str_bytes (fst nv)
     @ header_value_code (snd nv) # header_value_bytes (snd nv)"

definition encode_headers :: "(string \<times> header_value) list \<Rightarrow> byte list" where
  "encode_headers hs = concat (map encode_header hs)"

definition headers_of :: "(string \<times> header_value) list \<Rightarrow> headers" where
  "headers_of hs = map_of (rev hs)"

definition encode_prelude8 :: "byte list \<Rightarrow> byte list \<Rightarrow> byte list" where
  "encode_prelude8 hb payload = be_bytes 4 (16 + length hb + length payload) @ be_bytes 4 (length hb)"

definition encode_body :: "(byte list \<Rightarrow> u32) \<Rightarrow> byte list \<Rightarrow> byte list \<Rightarrow> byte list" where
  "encode_body crc hb payload =
     encode_prelude8 hb payload @ be_bytes 4 (unat (crc (encode_prelude8 hb payload)))
       @ hb @ payload"

definition encode_frame ::
  "(byte list \<Rightarrow> u32) \<Rightarrow> (string \<times> header_value) list \<times> byte list \<Rightarrow> byte list" where
  "encode_frame crc f =
     (let body = encode_body crc (encode_headers (fst f)) (snd f)
      in body @ be_bytes 4 (unat (crc body)))"

definition frame_of :: "(string \<times> header_value) list \<times> byte list \<Rightarrow> frame" where
  "frame_of f = \<lparr>frame_headers = headers_of (fst f), frame_payload = snd f\<rparr>"

fun wf_header_value :: "header_value \<Rightarrow> bool" where
  "wf_header_value (HByteArray bs) = (length bs < 65536)"
| "wf_header_value (HString s) = (length s < 65536 \<and> utf8_valid (str_bytes s))"
| "wf_header_value (HUuid bs) = (length bs = 16)"
| "wf_header_value _ = True"

definition wf_header :: "string \<times> header_value \<Rightarrow> bool" where
  "wf_header nv = (0 < length (fst nv) \<and> length (fst nv) < 256 \<and> utf8_valid (str_bytes (fst nv))
     \<and> wf_header_value (snd nv))"

definition wf_frame :: "(string \<times> header_value) list \<times> byte list \<Rightarrow> bool" where
  "wf_frame f = (list_all wf_header (fst f)
     \<and> 16 + length (encode_headers (fst f)) + length (snd f) \<le> 2 ^ 24)"

section \<open>Headers\<close>

fun header_value_type_of :: "header_value \<Rightarrow> header_value_type" where
  "header_value_type_of (HBool b) = (if b then TBoolTrue else TBoolFalse)"
| "header_value_type_of (HByte _) = TByte"
| "header_value_type_of (HShort _) = TShort"
| "header_value_type_of (HInteger _) = TInteger"
| "header_value_type_of (HLong _) = TLong"
| "header_value_type_of (HByteArray _) = TByteArray"
| "header_value_type_of (HString _) = TString"
| "header_value_type_of (HTimestamp _) = TTimestamp"
| "header_value_type_of (HUuid _) = TUuid"

lemma header_value_type_try_from_code:
  "header_value_type_try_from (header_value_code v) = Inr (header_value_type_of v)"
proof (cases v)
  case (HBool b)
  then show ?thesis by (cases b) (simp_all add: header_value_type_try_from_def)
qed (simp_all add: header_value_type_try_from_def)

lemma be_nat_unat16 [byte_codec]: "be_nat (be_bytes 2 (unat (w :: u16))) = unat w"
proof -
  have "unat w < 2 ^ LENGTH(16)" by (rule unsigned_less)
  then show ?thesis by (intro be_nat_be_bytes) simp
qed

lemma be_nat_unat32 [byte_codec]: "be_nat (be_bytes 4 (unat (w :: u32))) = unat w"
proof -
  have "unat w < 2 ^ LENGTH(32)" by (rule unsigned_less)
  then show ?thesis by (intro be_nat_be_bytes) simp
qed

lemma be_nat_unat64 [byte_codec]: "be_nat (be_bytes 8 (unat (w :: u64))) = unat w"
proof -
  have "unat w < 2 ^ LENGTH(64)" by (rule unsigned_less)
  then show ?thesis by (intro be_nat_be_bytes) simp
qed

lemma be_nat_len16 [byte_codec]: "n < 65536 \<Longrightarrow> be_nat (be_bytes 2 n) = n"
  by (intro be_nat_be_bytes) simp

lemma parse_header_value_encode:
  assumes "wf_header_value v"
  shows "parse_header_value (header_value_bytes v @ rest) (header_value_type_of v)
    = Inr (v, length (header_value_bytes v))"
  using assms
  by (cases v) (auto simp: ensure_bytes_def be_nat_unat16 be_nat_unat32 be_nat_unat64 be_nat_len16)

lemma drop_encode_header:
  assumes "wf_header (n, v)"
  shows "unat (encode_header (n, v) ! 0) = length n"
    and "take (length n) (drop 1 (encode_header (n, v) @ rest)) = str_bytes n"
    and "(encode_header (n, v) @ rest) ! Suc (length n) = header_value_code v"
    and "drop (Suc (Suc (length n))) (encode_header (n, v) @ rest) = header_value_bytes v @ rest"
    and "length (encode_header (n, v)) = Suc (Suc (length n)) + length (header_value_bytes v)"
  using assms
  by (simp_all add: encode_header_def wf_header_def unat_of_nat nth_append)

lemma parse_header_entry_encode:
  assumes wf: "wf_header (n, v)"
  shows "parse_header_entry (pre @ encode_header (n, v) @ rest) (length pre) h
    = Inr (length pre + length (encode_header (n, v)), h(n \<mapsto> v))"
proof -
  let ?e = "encode_header (n, v) @ rest"
  have name: "bytes_str (utf8_lossy (take (length n) (drop (length pre + 1) (pre @ ?e)))) = n"
    using drop_encode_header(2)[OF wf, of rest] wf by (simp add: wf_header_def)
  have at0: "unat ((pre @ ?e) ! length pre) = length n"
    using drop_encode_header(1,5)[OF wf] by (simp add: nth_append)
  have code: "(pre @ ?e) ! (length pre + 1 + length n) = header_value_code v"
    using drop_encode_header(3)[OF wf, of rest] by (simp add: nth_append)
  have tail: "drop (length pre + 1 + length n + 1) (pre @ ?e) = header_value_bytes v @ rest"
    using drop_encode_header(4)[OF wf, of rest] by simp
  have pv: "parse_header_value (header_value_bytes v @ rest) (header_value_type_of v)
      = Inr (v, length (header_value_bytes v))"
    using wf by (intro parse_header_value_encode) (simp add: wf_header_def)
  have lens: "length n \<noteq> 0" "length (pre @ ?e) = length pre + length (encode_header (n, v)) + length rest"
    using wf by (simp_all add: wf_header_def)
  show ?thesis
    unfolding parse_header_entry_def Let_def at0 name code tail header_value_type_try_from_code
    using lens drop_encode_header(5)[OF wf]
    by (simp add: pv headers_insert_def)
qed

lemma parse_headers_loop_encode:
  assumes "list_all wf_header hs"
  shows "parse_headers_loop (pre @ encode_headers hs) (length pre + length (encode_headers hs)) (length pre) h
    = Inr (h ++ headers_of hs)"
  using assms
proof (induction hs arbitrary: pre h)
  case Nil
  then show ?case
    by (simp add: encode_headers_def headers_of_def parse_headers_loop.simps)
next
  case (Cons nv hs)
  obtain n v where nv: "nv = (n, v)" by force
  with Cons.prems have wf: "wf_header (n, v)" and wfs: "list_all wf_header hs" by auto
  let ?e = "encode_header (n, v)" and ?r = "encode_headers hs"
  have enc: "encode_headers (nv # hs) = ?e @ ?r"
    by (simp add: encode_headers_def nv)
  have pos: "0 < length ?e"
    using drop_encode_header(5)[OF wf] by simp
  have "parse_headers_loop (pre @ ?e @ ?r) (length pre + length (?e @ ?r)) (length pre) h
      = parse_headers_loop ((pre @ ?e) @ ?r) (length (pre @ ?e) + length ?r) (length (pre @ ?e)) (h(n \<mapsto> v))"
    using pos by (subst parse_headers_loop.simps) (simp add: parse_header_entry_encode[OF wf] add.assoc)
  also have "\<dots> = Inr (h(n \<mapsto> v) ++ headers_of hs)"
    using wfs by (rule Cons.IH)
  also have "h(n \<mapsto> v) ++ headers_of hs = h ++ headers_of (nv # hs)"
    by (rule ext) (simp add: headers_of_def nv map_add_def split: option.splits)
  finally show ?case by (simp add: enc)
qed

lemma parse_headers_encode:
  assumes "list_all wf_header hs"
  shows "parse_headers (encode_headers hs) (length (encode_headers hs)) = Inr (headers_of hs)"
  using parse_headers_loop_encode[OF assms, of "[]" Map.empty]
  by (simp add: parse_headers_def headers_new_def)

section \<open>Frames\<close>

lemma read_u32_be_append:
  assumes "i = length pre"
  shows "read_u32_be (pre @ be_bytes 4 (unat w) @ post) i = w"
  using assms by (simp add: read_u32_be_def be_nat_unat32)

lemma read_u32_be_nat:
  assumes "i = length pre" "n < 2 ^ 32"
  shows "read_u32_be (pre @ be_bytes 4 n @ post) i = word_of_nat n"
  using assms by (simp add: read_u32_be_def be_nat_be_bytes)

lemma take_take_read_u32_be: "i + 4 \<le> n \<Longrightarrow> read_u32_be (take n buf) i = read_u32_be buf i"
  by (simp add: read_u32_be_def drop_take min_def)

lemma length_encode_prelude8 [simp]: "length (encode_prelude8 hb p) = 8"
  by (simp add: encode_prelude8_def)

lemma length_encode_frame:
  "length (encode_frame crc f) = 16 + length (encode_headers (fst f)) + length (snd f)"
  by (simp add: encode_frame_def encode_body_def Let_def)

text \<open>What a buffer that starts with an encoded frame shows to the parser.\<close>

lemma encoded_frame_reads:
  fixes crc :: "byte list \<Rightarrow> u32" and rest :: "byte list"
  assumes wf: "wf_frame (hs, p)"
  defines "n \<equiv> 16 + length (encode_headers hs) + length p"
    and "buf \<equiv> encode_frame crc (hs, p) @ rest"
  shows "read_u32_be buf 0 = word_of_nat n"
    and "read_u32_be buf 4 = word_of_nat (length (encode_headers hs))"
    and "read_u32_be buf 8 = crc (take 8 buf)"
    and "read_u32_be buf (n - 4) = crc (take (n - 4) buf)"
    and "take (length (encode_headers hs)) (drop 12 buf) = encode_headers hs"
    and "drop (12 + length (encode_headers hs)) (take (n - 4) buf) = p"
    and "n \<le> length buf"
proof -
  let ?hb = "encode_headers hs"
  let ?p8 = "encode_prelude8 ?hb p"
  let ?body = "encode_body crc ?hb p"
  let ?tail = "be_bytes 4 (unat (crc ?body)) @ rest"
  have bound: "n \<le> 2 ^ 24"
    using wf by (simp add: wf_frame_def n_def)
  then have lt: "n < 2 ^ 32" "length ?hb < 2 ^ 32"
    by (simp_all add: n_def)
  have buf: "buf = ?body @ ?tail"
    by (simp add: buf_def encode_frame_def Let_def)
  have body: "?body = be_bytes 4 n @ be_bytes 4 (length ?hb) @ be_bytes 4 (unat (crc ?p8)) @ ?hb @ p"
    by (simp add: encode_body_def encode_prelude8_def n_def)
  have lbody: "length ?body = n - 4"
    by (simp add: body n_def)
  show "n \<le> length buf"
    by (simp add: buf_def length_encode_frame n_def)
  have p8: "take 8 buf = ?p8"
    by (simp add: buf encode_body_def)
  show "read_u32_be buf 0 = word_of_nat n"
    using read_u32_be_nat[of 0 "[]" n] lt by (simp add: buf body)
  show "read_u32_be buf 4 = word_of_nat (length ?hb)"
    using read_u32_be_nat[of 4 "be_bytes 4 n" "length ?hb"] lt by (simp add: buf body)
  show "read_u32_be buf 8 = crc (take 8 buf)"
    unfolding p8 using read_u32_be_append[of 8 "be_bytes 4 n @ be_bytes 4 (length ?hb)" "crc ?p8"]
    by (simp add: buf body)
  show "read_u32_be buf (n - 4) = crc (take (n - 4) buf)"
    using read_u32_be_append[of "n - 4" ?body "crc ?body" rest] by (simp add: buf lbody)
  show "take (length ?hb) (drop 12 buf) = ?hb"
    by (simp add: buf body)
  show "drop (12 + length ?hb) (take (n - 4) buf) = p"
    by (simp add: buf lbody) (simp add: body)
qed

lemma unat_word_of_nat32: "n < 2 ^ 32 \<Longrightarrow> unat (word_of_nat n :: u32) = n"
  by (simp add: unat_of_nat)

lemma max_message_size: "unat MAX_MESSAGE_SIZE = 2 ^ 24"
  by (simp add: MAX_MESSAGE_SIZE_def)

lemma min_message_size: "unat (word_of_nat MIN_MESSAGE_SIZE :: u32) = 16"
  by (simp add: MIN_MESSAGE_SIZE_def PRELUDE_SIZE_def)

text \<open>
  The size checks of the parser on numbers: the same branches as \<open>parse_frame\<close>, with the
  total length read as a natural number.
\<close>

lemma parse_frame_sizes:
  assumes "12 \<le> length buf" "unat (read_u32_be buf 0) = n" "16 \<le> n" "n \<le> 2 ^ 24"
  shows "parse_frame crc buf =
    (if length buf < n then Inr None
     else if crc (take 8 buf) \<noteq> read_u32_be buf 8
     then Inl (PreludeCrcMismatch (read_u32_be buf 8) (crc (take 8 buf)))
     else if crc (take (n - 4) buf) \<noteq> read_u32_be buf (n - 4)
     then Inl (MessageCrcMismatch (read_u32_be buf (n - 4)) (crc (take (n - 4) buf)))
     else if n - 4 < 12 + unat (read_u32_be buf 4)
     then Inl (HeaderParseFailed ''header length exceeds message boundary'')
     else (case parse_headers (take (unat (read_u32_be buf 4)) (drop 12 buf)) (unat (read_u32_be buf 4)) of
         Inl e \<Rightarrow> Inl e
       | Inr hs \<Rightarrow> Inr (Some (\<lparr>frame_headers = hs,
             frame_payload = drop (12 + unat (read_u32_be buf 4)) (take (n - 4) buf)\<rparr>, n))))"
proof -
  have "\<not> read_u32_be buf 0 < word_of_nat MIN_MESSAGE_SIZE"
    using assms min_message_size by (simp add: word_less_nat_alt)
  moreover have "\<not> MAX_MESSAGE_SIZE < read_u32_be buf 0"
    using assms max_message_size by (simp add: word_less_nat_alt)
  ultimately show ?thesis
    using assms by (simp add: parse_frame_def Let_def PRELUDE_SIZE_def)
qed

lemma parse_frame_encode_frame:
  assumes "wf_frame f"
  shows "parse_frame crc (encode_frame crc f @ rest)
    = Inr (Some (frame_of f, length (encode_frame crc f)))"
proof -
  obtain hs p where f: "f = (hs, p)" by force
  let ?n = "16 + length (encode_headers hs) + length p"
  note reads = encoded_frame_reads[OF assms[unfolded f], where crc = crc and rest = rest]
  have bound: "?n \<le> 2 ^ 24"
    using assms by (simp add: f wf_frame_def)
  then have lt: "?n < 2 ^ 32" "length (encode_headers hs) < 2 ^ 32"
    by simp_all
  have hl: "unat (read_u32_be (encode_frame crc (hs, p) @ rest) 4) = length (encode_headers hs)"
    using lt by (simp only: reads(2) unat_word_of_nat32)
  have tl: "unat (read_u32_be (encode_frame crc (hs, p) @ rest) 0) = ?n"
    using lt by (simp only: reads(1) unat_word_of_nat32)
  have "list_all wf_header hs"
    using assms by (simp add: f wf_frame_def)
  then have "parse_headers (encode_headers hs) (length (encode_headers hs)) = Inr (headers_of hs)"
    by (rule parse_headers_encode)
  then show ?thesis
    using reads hl tl bound
    by (subst parse_frame_sizes[where n = ?n]) (simp_all add: f frame_of_def length_encode_frame)
qed

lemma parse_frame_incomplete:
  assumes wf: "wf_frame f" and k: "k < length (encode_frame crc f)"
  shows "parse_frame crc (take k (encode_frame crc f)) = Inr None"
proof (cases "k < 12")
  case True
  then have "length (take k (encode_frame crc f)) < PRELUDE_SIZE"
    by (simp add: PRELUDE_SIZE_def min_def)
  then show ?thesis
    by (simp only: parse_frame_def if_True)
next
  case False
  obtain hs p where f: "f = (hs, p)" by force
  let ?n = "16 + length (encode_headers hs) + length p"
  let ?b = "take k (encode_frame crc f)"
  note reads = encoded_frame_reads[OF wf[unfolded f], where crc = crc and rest = "[]"]
  have "read_u32_be ?b 0 = word_of_nat ?n"
    using False reads(1) by (subst take_take_read_u32_be) (simp_all add: f)
  moreover have bound: "?n \<le> 2 ^ 24"
    using wf by (simp add: f wf_frame_def)
  moreover from bound have "?n < 2 ^ 32" by simp
  ultimately have "unat (read_u32_be ?b 0) = ?n"
    by (simp only: unat_word_of_nat32)
  then show ?thesis
    using False k bound
    by (subst parse_frame_sizes[where n = ?n]) (simp_all add: length_encode_frame f)
qed

text \<open>What an accepted buffer looks like.\<close>

lemma parse_frame_SomeD:
  assumes "parse_frame crc buf = Inr (Some (f, n))"
  shows "16 \<le> n" "n \<le> 2 ^ 24" "n \<le> length buf" "unat (read_u32_be buf 0) = n"
    "crc (take 8 buf) = read_u32_be buf 8"
    "crc (take (n - 4) buf) = read_u32_be buf (n - 4)"
    "12 + unat (read_u32_be buf 4) \<le> n - 4"
    "parse_headers (take (unat (read_u32_be buf 4)) (drop 12 buf)) (unat (read_u32_be buf 4)) = Inr (frame_headers f)"
    "frame_payload f = drop (12 + unat (read_u32_be buf 4)) (take (n - 4) buf)"
proof -
  let ?m = "unat (read_u32_be buf 0)"
  have "12 \<le> length buf" "16 \<le> ?m" "?m \<le> 2 ^ 24"
    using assms min_message_size max_message_size
    by (auto simp: parse_frame_def Let_def PRELUDE_SIZE_def word_less_nat_alt split: if_splits)
  note sizes = this
  from assms have "n = ?m"
    by (subst (asm) parse_frame_sizes[OF sizes(1) refl sizes(2,3)])
      (auto split: if_splits sum.splits)
  then show "16 \<le> n" "n \<le> 2 ^ 24" "n \<le> length buf" "unat (read_u32_be buf 0) = n"
    "crc (take 8 buf) = read_u32_be buf 8"
    "crc (take (n - 4) buf) = read_u32_be buf (n - 4)"
    "12 + unat (read_u32_be buf 4) \<le> n - 4"
    "parse_headers (take (unat (read_u32_be buf 4)) (drop 12 buf)) (unat (read_u32_be buf 4)) = Inr (frame_headers f)"
    "frame_payload f = drop (12 + unat (read_u32_be buf 4)) (take (n - 4) buf)"
    using assms sizes
    by (auto simp: parse_frame_sizes[OF sizes(1) refl sizes(2,3)] split: if_splits sum.splits)
qed

text \<open>The parse of a frame does not depend on what follows the frame.\<close>

lemma parse_frame_local:
  assumes "parse_frame crc buf = Inr (Some (f, n))"
  shows "parse_frame crc (take n buf @ rest) = Inr (Some (f, n))"
proof -
  note ok = parse_frame_SomeD[OF assms]
  have same: "read_u32_be (take n buf @ rest) i = read_u32_be buf i" if "i + 4 \<le> n" for i
    using that ok(3) by (simp add: read_u32_be_def drop_take)
  have takes: "take k (take n buf @ rest) = take k buf" if "k \<le> n" for k
    using that ok(3) by simp
  have hdr: "take h (drop 12 (take n buf @ rest)) = take h (drop 12 buf)" if "12 + h \<le> n" for h
    using that ok(3) by (simp add: drop_take)
  have sz: "12 \<le> length (take n buf @ rest)" "unat (read_u32_be (take n buf @ rest) 0) = n"
    using ok(1,3,4) by (simp_all add: same)
  have n: "\<not> length (take n buf @ rest) < n"
    using ok(3) by simp
  have ix: "0 + 4 \<le> n" "4 + 4 \<le> n" "8 + 4 \<le> n" "n - 4 + 4 \<le> n" "8 \<le> n" "n - 4 \<le> n"
    using ok(1) by simp_all
  have hl: "12 + unat (read_u32_be buf 4) \<le> n"
    using ok(7) by linarith
  show ?thesis
    unfolding parse_frame_sizes[OF sz ok(1,2)] same[OF ix(2)] same[OF ix(3)] same[OF ix(4)]
      takes[OF ix(5)] takes[OF ix(6)] hdr[OF hl]
    using ok n by simp
qed

end
