(* ===== verification/EventStreamTheorems.thy ===== *)
theory EventStreamTheorems
  imports EventStreamDecoder
begin

text \<open>
  The decoder's guarantees.  Inside \<open>frame_source\<close>: the state invariant, the accounting of
  every byte, completeness of a drained iteration.  Inside \<open>framing\<close>: a stream of encoded
  frames is decoded to those frames however it is cut into chunks, and peeking at a stream
  before relaying it loses nothing.  The properties at the end are these facts for
  \<open>parse_frame\<close>.
\<close>

section \<open>Interfaces\<close>

definition decoder_ok :: "decoder \<Rightarrow> bool" where
  "decoder_ok d = (length (buffer d) \<le> max_buffer_size d \<and> 0 < max_errors d
     \<and> (dec_state d = Stopped \<longleftrightarrow> max_errors d \<le> error_count d) \<and> dec_state d \<noteq> Parsing)"

locale frame_source =
  fixes parse :: "byte list \<Rightarrow> parse_error + ('f \<times> nat) option"
  assumes parse_consumes: "parse buf = Inr (Some (f, n)) \<Longrightarrow> 0 < n \<and> n \<le> length buf"

locale framing = frame_source +
  fixes enc :: "'x \<Rightarrow> byte list" and val :: "'x \<Rightarrow> 'f" and ok :: "'x \<Rightarrow> bool"
  assumes parse_enc: "ok x \<Longrightarrow> parse (enc x @ rest) = Inr (Some (val x, length (enc x)))"
    and parse_short: "ok x \<Longrightarrow> k < length (enc x) \<Longrightarrow> parse (take k (enc x)) = Inr None"

section \<open>Recovery\<close>

lemma skip_bytes_frame [simp]:
  "dec_state (skip_bytes n d) = dec_state d" "error_count (skip_bytes n d) = error_count d"
  "max_errors (skip_bytes n d) = max_errors d" "max_buffer_size (skip_bytes n d) = max_buffer_size d"
  by (simp_all add: skip_bytes_def)

lemma skip_message_is_skip:
  assumes "buffer d \<noteq> []"
  shows "\<exists>n. skip_message d = skip_bytes n d \<and> 0 < n \<and> n \<le> length (buffer d)"
proof -
  have one: "\<exists>n. skip_bytes 1 d = skip_bytes n d \<and> 0 < n \<and> n \<le> length (buffer d)"
    using assms by (intro exI[of _ 1]) (cases "buffer d"; simp)
  let ?t = "unat (read_u32_be (buffer d) 0)"
  have "\<exists>n. skip_bytes ?t d = skip_bytes n d \<and> 0 < n \<and> n \<le> length (buffer d)"
    if "16 \<le> ?t" "?t \<le> length (buffer d)"
    using that by (intro exI[of _ ?t]) simp
  with one show ?thesis by (simp add: skip_message_def Let_def)
qed

text \<open>Recovery on a non-empty buffer always drops at least one byte and accounts for it.\<close>

lemma try_recover_is_skip:
  assumes "buffer d \<noteq> []"
  shows "\<exists>n. try_recover d err = skip_bytes n d \<and> 0 < n \<and> n \<le> length (buffer d)"
proof -
  have "\<exists>n. skip_bytes 1 d = skip_bytes n d \<and> 0 < n \<and> n \<le> length (buffer d)"
    using assms by (intro exI[of _ 1]) (cases "buffer d"; simp)
  then show ?thesis
    using assms skip_message_is_skip[OF assms] by (cases err) simp_all
qed

declare try_recover.simps [simp del]

context frame_source
begin

lemma decode_result:
  assumes "dec_state d \<noteq> Stopped" "buffer d \<noteq> []"
  shows "decode parse d =
    (case parse (buffer d) of
       Inr (Some (f, n)) \<Rightarrow>
         (Inr (Some f), d\<lparr>buffer := drop n (buffer d), dec_state := Ready, error_count := 0\<rparr>)
     | Inr None \<Rightarrow> (Inr None, d\<lparr>dec_state := Ready\<rparr>)
     | Inl e \<Rightarrow>
         (if max_errors d \<le> Suc (error_count d)
          then (Inl (TooManyErrors (Suc (error_count d)) (parse_error_display e)),
                d\<lparr>error_count := Suc (error_count d), dec_state := Stopped\<rparr>)
          else (Inl e, (try_recover (d\<lparr>dec_state := Parsing, error_count := Suc (error_count d)\<rparr>) e)
                  \<lparr>dec_state := Recovering\<rparr>)))"
  using assms by (simp add: decode_def Let_def split: sum.split option.split prod.split)

text \<open>One call of \<open>decode\<close>, by outcome.\<close>

lemma decode_cases:
  assumes "decoder_ok d"
  obtains (stopped) "dec_state d = Stopped" "snd (decode parse d) = d"
      "\<exists>e. fst (decode parse d) = Inl e"
  | (frame) f n where "dec_state d \<noteq> Stopped" "fst (decode parse d) = Inr (Some f)"
      "snd (decode parse d) = d\<lparr>buffer := drop n (buffer d), dec_state := Ready, error_count := 0\<rparr>"
      "0 < n" "n \<le> length (buffer d)" "parse (buffer d) = Inr (Some (f, n))"
  | (incomplete) "dec_state d \<noteq> Stopped" "fst (decode parse d) = Inr None"
      "snd (decode parse d) = d\<lparr>dec_state := Ready\<rparr>"
  | (gave_up) e where "dec_state d \<noteq> Stopped" "fst (decode parse d) = Inl e"
      "max_errors d \<le> Suc (error_count d)"
      "snd (decode parse d) = d\<lparr>error_count := Suc (error_count d), dec_state := Stopped\<rparr>"
  | (recovered) e n where "dec_state d \<noteq> Stopped" "fst (decode parse d) = Inl e"
      "Suc (error_count d) < max_errors d" "0 < n" "n \<le> length (buffer d)"
      "snd (decode parse d) = d\<lparr>buffer := drop n (buffer d), bytes_skipped := bytes_skipped d + n,
         error_count := Suc (error_count d), dec_state := Recovering\<rparr>"
proof (cases "dec_state d = Stopped")
  case True
  then show ?thesis using stopped by (simp add: decode_def)
next
  case False
  note running = this
  show ?thesis
  proof (cases "buffer d = []")
    case True
    then show ?thesis using running incomplete by (simp add: decode_def)
  next
    case False
    note res = decode_result[OF running False]
    show ?thesis
    proof (cases "parse (buffer d)")
      case (Inr r)
      show ?thesis
      proof (cases r)
        case None
        then show ?thesis using Inr res running incomplete by simp
      next
        case (Some fn)
        obtain f n where "fn = (f, n)" by force
        then show ?thesis
          using Some Inr res running frame parse_consumes[of "buffer d" f n] by simp
      qed
    next
      case (Inl e)
      let ?d = "d\<lparr>dec_state := Parsing, error_count := Suc (error_count d)\<rparr>"
      obtain n where "try_recover ?d e = skip_bytes n ?d" "0 < n" "n \<le> length (buffer ?d)"
        using False try_recover_is_skip[of ?d e] by auto
      note rec = this
      show ?thesis
      proof (cases "max_errors d \<le> Suc (error_count d)")
        case True
        then show ?thesis using Inl res running
          by (intro gave_up[of "TooManyErrors (Suc (error_count d)) (parse_error_display e)"]) simp_all
      next
        case False
        then show ?thesis using Inl res running rec by (intro recovered[of e n]) (simp_all add: skip_bytes_def)
      qed
    qed
  qed
qed

lemma decode_keeps_ok:
  assumes "decoder_ok d"
  shows "decoder_ok (snd (decode parse d))"
  using assms by (cases rule: decode_cases) (use assms in \<open>auto simp: decoder_ok_def\<close>)

lemma decode_iter_next_keeps_ok: "decoder_ok d \<Longrightarrow> decoder_ok (snd (decode_iter_next parse d))"
  using decode_keeps_ok[of d]
  by (auto simp: decode_iter_next_def split: prod.split sum.split option.split)

lemma decode_iter_run_keeps_ok: "decoder_ok d \<Longrightarrow> decoder_ok (snd (decode_iter_run parse fuel d))"
proof (induction fuel arbitrary: d)
  case 0
  then show ?case by simp
next
  case (Suc fuel)
  have "decoder_ok (snd (decode_iter_next parse d))"
    using Suc.prems by (rule decode_iter_next_keeps_ok)
  then show ?case
    using Suc.IH[of "snd (decode_iter_next parse d)"]
    by (auto simp: Let_def split: prod.splits option.splits)
qed

text \<open>Every byte of the buffer is either kept, part of a decoded frame, or counted as skipped.\<close>

lemma decode_suffix:
  assumes "decoder_ok d"
  obtains n where "buffer (snd (decode parse d)) = drop n (buffer d)" "n \<le> length (buffer d)"
    "\<forall>f. fst (decode parse d) \<noteq> Inr (Some f)
       \<Longrightarrow> bytes_skipped (snd (decode parse d)) = bytes_skipped d + n"
    "\<And>f. fst (decode parse d) = Inr (Some f)
       \<Longrightarrow> bytes_skipped (snd (decode parse d)) = bytes_skipped d \<and> parse (buffer d) = Inr (Some (f, n))"
  using assms
proof (cases rule: decode_cases)
  case stopped
  then show ?thesis using that[of 0] by auto
next
  case (frame f n)
  then show ?thesis using that[of n] by auto
next
  case incomplete
  then show ?thesis using that[of 0] by auto
next
  case (gave_up e)
  then show ?thesis using that[of 0] by auto
next
  case (recovered e n)
  then show ?thesis using that[of n] by auto
qed

text \<open>An item ends the iteration or shrinks the buffer, so the fuel of \<open>decode_iter\<close> is enough.\<close>

definition iter_left :: "decoder \<Rightarrow> nat" where
  "iter_left d = (if dec_state d = Stopped \<or> dec_state d = Recovering then 0
     else Suc (length (buffer d)))"

lemma decode_iter_next_progress:
  assumes "decoder_ok d" "decode_iter_next parse d = (Some item, d')"
  shows "iter_left d' < iter_left d"
proof -
  have run: "\<not> (dec_state d = Stopped \<or> dec_state d = Recovering)"
    using assms(2) by (auto simp: decode_iter_next_def)
  then have d': "d' = snd (decode parse d)" and some: "fst (decode parse d) \<noteq> Inr None"
    using assms(2)
    by (auto simp: decode_iter_next_def split: prod.splits sum.splits option.splits)
  from assms(1) show ?thesis
    by (cases rule: decode_cases) (use run d' some in \<open>auto simp: iter_left_def\<close>)
qed

lemma decode_iter_run_complete:
  assumes "decoder_ok d" "iter_left d < fuel"
  shows "fst (decode_iter_next parse (snd (decode_iter_run parse fuel d))) = None"
  using assms
proof (induction fuel arbitrary: d)
  case 0
  then show ?case by simp
next
  case (Suc fuel)
  obtain r d1 where next1: "decode_iter_next parse d = (r, d1)" by force
  show ?case
  proof (cases r)
    case None
    have "fst (decode_iter_next parse d1) = None"
    proof (cases "dec_state d = Stopped \<or> dec_state d = Recovering")
      case True
      then have "d1 = d" using next1 by (auto simp: decode_iter_next_def)
      with next1 None show ?thesis by simp
    next
      case False
      then have dec: "decode parse d = (Inr None, d1)"
        using next1 None
        by (auto simp: decode_iter_next_def split: prod.splits sum.splits option.splits)
      from Suc.prems(1) have "d1 = d\<lparr>dec_state := Ready\<rparr>"
        by (cases rule: decode_cases) (use dec in auto)
      then show ?thesis
        using dec False by (auto simp: decode_iter_next_def decode_def Let_def
            split: prod.splits sum.splits option.splits if_splits)
    qed
    then show ?thesis using next1 None by simp
  next
    case (Some item)
    have "decoder_ok d1" "iter_left d1 < fuel"
      using Suc.prems decode_iter_next_keeps_ok[of d] decode_iter_next_progress[of d item d1]
      by (auto simp: next1 Some)
    then have "fst (decode_iter_next parse (snd (decode_iter_run parse fuel d1))) = None"
      by (rule Suc.IH)
    then show ?thesis by (simp add: next1 Some Let_def split_beta)
  qed
qed

lemma decode_iter_complete:
  assumes "decoder_ok d"
  shows "fst (decode_iter_next parse (snd (decode_iter parse d))) = None"
  unfolding decode_iter_def
  by (rule decode_iter_run_complete[OF assms]) (simp add: iter_left_def)

end

section \<open>Streams of encoded frames\<close>

context framing
begin

lemma enc_nonempty: "ok x \<Longrightarrow> enc x \<noteq> []"
  using parse_enc[of x "[]"] parse_consumes[of "enc x" "val x" "length (enc x)"] by auto

lemma decode_iter_next_frame:
  assumes "ok x" "dec_state d = Ready" "buffer d = enc x @ rest"
  shows "decode_iter_next parse d = (Some (Inr (val x)), d\<lparr>buffer := rest, error_count := 0\<rparr>)"
  using assms enc_nonempty[of x]
  by (simp add: decode_iter_next_def decode_result parse_enc)

lemma decode_iter_next_short:
  assumes "ok x" "k < length (enc x)" "dec_state d = Ready" "buffer d = take k (enc x)"
  shows "decode_iter_next parse d = (None, d)"
proof (cases "buffer d = []")
  case True
  then show ?thesis using assms by (simp add: decode_iter_next_def decode_def)
next
  case False
  then show ?thesis
    using assms parse_short[of x k] by (simp add: decode_iter_next_def decode_result)
qed

text \<open>A drained iteration returns the complete frames and leaves the incomplete one.\<close>

lemma decode_iter_run_frames:
  assumes "list_all ok xs" "ok y" "k < length (enc y)" "dec_state d = Ready" "error_count d = 0"
    and "buffer d = concat (map enc xs) @ take k (enc y)" "length xs < fuel"
  shows "decode_iter_run parse fuel d
    = (map (\<lambda>x. Inr (val x)) xs, d\<lparr>buffer := take k (enc y)\<rparr>)"
  using assms
proof (induction fuel arbitrary: d xs)
  case 0
  then show ?case by simp
next
  case (Suc fuel)
  show ?case
  proof (cases xs)
    case Nil
    with Suc.prems show ?thesis by (simp add: decode_iter_next_short)
  next
    case (Cons x xs')
    let ?d = "d\<lparr>buffer := concat (map enc xs') @ take k (enc y), error_count := 0\<rparr>"
    have "decode_iter_next parse d = (Some (Inr (val x)), ?d)"
      using Suc.prems Cons by (intro decode_iter_next_frame) auto
    moreover have "decode_iter_run parse fuel ?d
        = (map (\<lambda>x. Inr (val x)) xs', ?d\<lparr>buffer := take k (enc y)\<rparr>)"
      using Suc.prems Cons by (intro Suc.IH) auto
    ultimately show ?thesis using Cons Suc.prems by simp
  qed
qed

lemma length_le_concat_enc: "list_all ok xs \<Longrightarrow> length xs \<le> length (concat (map enc xs))"
proof (induction xs)
  case Nil
  then show ?case by simp
next
  case (Cons x xs)
  then have "Suc 0 \<le> length (enc x)"
    using enc_nonempty[of x] by (cases "enc x") auto
  with Cons show ?case by simp
qed

lemma decode_iter_frames:
  assumes "list_all ok xs" "ok y" "k < length (enc y)" "dec_state d = Ready" "error_count d = 0"
    and "buffer d = concat (map enc xs) @ take k (enc y)"
  shows "decode_iter parse d = (map (\<lambda>x. Inr (val x)) xs, d\<lparr>buffer := take k (enc y)\<rparr>)"
  unfolding decode_iter_def
  by (rule decode_iter_run_frames[OF assms])
    (use assms(1,6) length_le_concat_enc[of xs] in simp)

text \<open>Where a cut of a stream of frames falls: after some frames, inside the next one.\<close>

lemma cut_stream:
  assumes "a @ b = concat (map enc xs) @ take k (enc y)" "k < length (enc y)"
  shows "\<exists>ys zs j. xs = ys @ zs \<and> j < length (enc (hd (zs @ [y])))
    \<and> a = concat (map enc ys) @ take j (enc (hd (zs @ [y])))"
  using assms
proof (induction xs arbitrary: a)
  case Nil
  then have "a = take (length a) (take k (enc y))"
    by (metis append_Nil append_eq_conv_conj concat.simps(1) list.map(1))
  moreover from this have "length a \<le> k"
    by (metis length_take min.bounded_iff min.cobounded1 nle_le)
  ultimately have "a = take (length a) (enc y)" by (simp add: min.absorb1)
  with \<open>length a \<le> k\<close> Nil.prems(2) show ?case
    by (intro exI[of _ "[]"] exI[of _ "length a"]) auto
next
  case (Cons x xs)
  show ?case
  proof (cases "length a < length (enc x)")
    case True
    have "a = take (length a) (a @ b)" by simp
    also have "\<dots> = take (length a) (enc x)"
      using Cons.prems(1) True by simp
    finally show ?thesis
      using True by (intro exI[of _ "[]"] exI[of _ "x # xs"] exI[of _ "length a"]) auto
  next
    case False
    then obtain a' where a': "a = enc x @ a'"
      using Cons.prems(1)
      by (metis append_eq_append_conv_if append_eq_conv_conj append_assoc concat.simps(2)
          list.simps(9) append_take_drop_id linorder_not_less)
    then have "a' @ b = concat (map enc xs) @ take k (enc y)"
      using Cons.prems(1) by simp
    then obtain ys zs j where "xs = ys @ zs" "j < length (enc (hd (zs @ [y])))"
        "a' = concat (map enc ys) @ take j (enc (hd (zs @ [y])))"
      using Cons.IH[of a'] Cons.prems(2) by blast
    then show ?thesis
      using a' by (intro exI[of _ "x # ys"] exI[of _ zs] exI[of _ j]) auto
  qed
qed

lemma ok_hd: "list_all ok zs \<Longrightarrow> ok y \<Longrightarrow> ok (hd (zs @ [y]))"
  by (cases zs) auto

lemma first_error_frames [simp]: "first_error (map (\<lambda>x. Inr (val x)) xs) = None"
  by (induction xs) auto

lemma frames_until_error_frames [simp]:
  "frames_until_error (map (\<lambda>x. Inr (val x)) xs) = map val xs"
  by (induction xs) auto

text \<open>One receive step: what is fed completes some frames and leaves an incomplete one.\<close>

lemma receive_step:
  assumes "list_all ok xs" "ok y" "k < length (enc y)" "dec_state d = Ready" "error_count d = 0"
    and "buffer d @ chunk @ rest = concat (map enc xs) @ take k (enc y)"
    and "length (buffer d) + length chunk \<le> max_buffer_size d"
  obtains ys zs j where "xs = ys @ zs" "j < length (enc (hd (zs @ [y])))"
    "feed d chunk = (Inr (), d\<lparr>buffer := buffer d @ chunk\<rparr>)"
    "decode_iter parse (d\<lparr>buffer := buffer d @ chunk\<rparr>)
       = (map (\<lambda>x. Inr (val x)) ys, d\<lparr>buffer := take j (enc (hd (zs @ [y])))\<rparr>)"
    "take j (enc (hd (zs @ [y]))) @ rest = concat (map enc zs) @ take k (enc y)"
    "buffer d @ chunk = concat (map enc ys) @ take j (enc (hd (zs @ [y])))"
proof -
  have "(buffer d @ chunk) @ rest = concat (map enc xs) @ take k (enc y)"
    using assms(6) by simp
  from cut_stream[OF this assms(3)] obtain ys zs j where
    cut: "xs = ys @ zs" "j < length (enc (hd (zs @ [y])))"
      "buffer d @ chunk = concat (map enc ys) @ take j (enc (hd (zs @ [y])))"
    by blast
  have "feed d chunk = (Inr (), d\<lparr>buffer := buffer d @ chunk\<rparr>)"
    using assms(4,7) by (simp add: feed_def)
  moreover have "decode_iter parse (d\<lparr>buffer := buffer d @ chunk\<rparr>)
       = (map (\<lambda>x. Inr (val x)) ys, d\<lparr>buffer := take j (enc (hd (zs @ [y])))\<rparr>)"
    using decode_iter_frames[of ys "hd (zs @ [y])" j "d\<lparr>buffer := buffer d @ chunk\<rparr>"]
      cut assms ok_hd[of zs y] by simp
  moreover have "take j (enc (hd (zs @ [y]))) @ rest = concat (map enc zs) @ take k (enc y)"
  proof -
    have "(buffer d @ chunk) @ rest = concat (map enc xs) @ take k (enc y)"
      using assms(6) by simp
    then show ?thesis unfolding cut(1,3) by simp
  qed
  ultimately show ?thesis using that[of ys zs j] cut by blast
qed

lemma relay_loop_frames:
  assumes "list_all ok xs" "ok y" "k < length (enc y)" "dec_state d = Ready" "error_count d = 0"
    and "j < length (enc (hd (xs @ [y])))" "buffer d = take j (enc (hd (xs @ [y])))"
    and "buffer d @ concat chunks = concat (map enc xs) @ take k (enc y)"
    and "\<forall>c \<in> set chunks. \<forall>x \<in> set (xs @ [y]).
           length c + length (enc x) \<le> Suc (max_buffer_size d)"
  shows "relay_loop parse d (map Inr chunks :: ('e + byte list) list) = (map val xs, RelayDone)"
  using assms
proof (induction chunks arbitrary: d xs j)
  case Nil
  have "xs = []"
  proof (cases xs)
    case (Cons x xs')
    have "length (buffer d) = length (concat (map enc xs) @ take k (enc y))"
      using Nil.prems(8) by (metis append_Nil2 concat.simps(1))
    then show ?thesis using Nil.prems(6,7) Cons by simp
  qed simp
  then show ?case by simp
next
  case (Cons chunk chunks)
  let ?x = "hd (xs @ [y])"
  have "?x \<in> set (xs @ [y])" by (cases xs) auto
  then have "length chunk + length (enc ?x) \<le> Suc (max_buffer_size d)"
    using Cons.prems(9) by auto
  then have fits: "length (buffer d) + length chunk \<le> max_buffer_size d"
    using Cons.prems(6,7) by simp
  have stream: "buffer d @ chunk @ concat chunks = concat (map enc xs) @ take k (enc y)"
    using Cons.prems(8) by simp
  from receive_step[OF Cons.prems(1-5) stream fits] obtain ys zs j' where
    step: "xs = ys @ zs" "j' < length (enc (hd (zs @ [y])))"
      "feed d chunk = (Inr (), d\<lparr>buffer := buffer d @ chunk\<rparr>)"
      "decode_iter parse (d\<lparr>buffer := buffer d @ chunk\<rparr>)
         = (map (\<lambda>x. Inr (val x)) ys, d\<lparr>buffer := take j' (enc (hd (zs @ [y])))\<rparr>)"
      "take j' (enc (hd (zs @ [y]))) @ concat chunks = concat (map enc zs) @ take k (enc y)"
    by blast
  have "relay_loop parse (d\<lparr>buffer := take j' (enc (hd (zs @ [y])))\<rparr>)
        (map Inr chunks :: ('e + byte list) list)
      = (map val zs, RelayDone)"
  proof (rule Cons.IH[where j = j'])
    show "list_all ok zs" using Cons.prems(1) step(1) by simp
    show "\<forall>c \<in> set chunks. \<forall>x \<in> set (zs @ [y]). length c + length (enc x)
        \<le> Suc (max_buffer_size (d\<lparr>buffer := take j' (enc (hd (zs @ [y])))\<rparr>))"
      using Cons.prems(9) step(1) by simp
  qed (use Cons.prems(2-5) step(2,5) in simp_all)
  then show ?case using step by simp
qed

text \<open>
  The decoder of \<open>peek_kiro_stream\<close> still holds everything read so far while it has seen no
  frame, so the prefix it hands over fits the buffer of the relay's decoder.
\<close>

lemma peek_loop_frames:
  assumes "list_all ok xs" "xs \<noteq> []" "ok y" "k < length (enc y)" "dec_state d = Ready"
    "error_count d = 0"
    and "j < length (enc (hd (xs @ [y])))" "buffer d = take j (enc (hd (xs @ [y])))"
    and "buffer d @ concat chunks = concat (map enc xs) @ take k (enc y)"
    and "\<forall>c \<in> set chunks. \<forall>x \<in> set (xs @ [y]).
           length c + length (enc x) \<le> Suc (max_buffer_size d)"
  shows "\<exists>read rest. chunks = read @ rest
    \<and> length (buffer d @ concat read) \<le> max_buffer_size d
    \<and> peek_loop parse d (buffer d) (map Inr chunks :: ('e + byte list) list)
        = Inr (buffer d @ concat read, map Inr rest)"
  using assms
proof (induction chunks arbitrary: d j)
  case Nil
  have "length (buffer d) = length (concat (map enc xs) @ take k (enc y))"
    using Nil.prems(9) by (metis append_Nil2 concat.simps(1))
  then have False using Nil.prems(2,7,8) by (cases xs) auto
  then show ?case ..
next
  case (Cons chunk chunks)
  show ?case
  proof (cases "chunk = []")
    case True
    have "buffer d @ concat chunks = concat (map enc xs) @ take k (enc y)"
      using Cons.prems(9) True by simp
    with Cons.IH[OF Cons.prems(1-8)] Cons.prems(10)
    obtain read rest where "chunks = read @ rest"
      "length (buffer d @ concat read) \<le> max_buffer_size d"
      "peek_loop parse d (buffer d) (map Inr chunks :: ('e + byte list) list)
        = Inr (buffer d @ concat read, map Inr rest)"
      by auto
    then show ?thesis
      using True by (intro exI[of _ "[] # read"] exI[of _ rest]) simp
  next
    case False
    let ?x = "hd (xs @ [y])"
    have "?x \<in> set (xs @ [y])" by (cases xs) auto
    then have "length chunk + length (enc ?x) \<le> Suc (max_buffer_size d)"
      using Cons.prems(10) by auto
    then have fits: "length (buffer d) + length chunk \<le> max_buffer_size d"
      using Cons.prems(7,8) by simp
    have stream: "buffer d @ chunk @ concat chunks = concat (map enc xs) @ take k (enc y)"
      using Cons.prems(9) by simp
    from receive_step[OF Cons.prems(1,3,4,5,6) stream fits] obtain ys zs j' where
      step: "xs = ys @ zs" "j' < length (enc (hd (zs @ [y])))"
        "feed d chunk = (Inr (), d\<lparr>buffer := buffer d @ chunk\<rparr>)"
        "decode_iter parse (d\<lparr>buffer := buffer d @ chunk\<rparr>)
           = (map (\<lambda>x. Inr (val x)) ys, d\<lparr>buffer := take j' (enc (hd (zs @ [y])))\<rparr>)"
        "take j' (enc (hd (zs @ [y]))) @ concat chunks = concat (map enc zs) @ take k (enc y)"
        "buffer d @ chunk = concat (map enc ys) @ take j' (enc (hd (zs @ [y])))"
      by blast
    show ?thesis
    proof (cases "ys = []")
      case True
      let ?d = "d\<lparr>buffer := buffer d @ chunk\<rparr>"
      have eq: "take j' (enc (hd (zs @ [y]))) = buffer d @ chunk" "zs = xs"
        using step(1,6) True by simp_all
      have "\<exists>read rest. chunks = read @ rest
          \<and> length (buffer ?d @ concat read) \<le> max_buffer_size ?d
          \<and> peek_loop parse ?d (buffer ?d) (map Inr chunks :: ('e + byte list) list)
              = Inr (buffer ?d @ concat read, map Inr rest)"
      proof (rule Cons.IH[where j = j'])
        show "\<forall>c \<in> set chunks. \<forall>x \<in> set (xs @ [y]). length c + length (enc x)
            \<le> Suc (max_buffer_size ?d)"
          using Cons.prems(10) by simp
      qed (use Cons.prems(1-6) step(2,5) eq in simp_all)
      then obtain read rest where "chunks = read @ rest"
        "length (buffer d @ chunk @ concat read) \<le> max_buffer_size d"
        "peek_loop parse ?d (buffer d @ chunk) (map Inr chunks :: ('e + byte list) list)
          = Inr (buffer d @ chunk @ concat read, map Inr rest)"
        by auto
      then show ?thesis
        using False step(3,4) eq(1) True
        by (intro exI[of _ "chunk # read"] exI[of _ rest]) simp
    next
      case nonempty: False
      then show ?thesis
        using False step(3,4) fits
        by (intro exI[of _ "[chunk]"] exI[of _ chunks]) simp
    qed
  qed
qed

lemma peeked_relay_frames:
  assumes "list_all ok xs" "xs \<noteq> []" "ok y" "k < length (enc y)"
    and "concat chunks = concat (map enc xs) @ take k (enc y)"
    and "\<forall>c \<in> set chunks. \<forall>x \<in> set (xs @ [y]).
           length c + length (enc x) \<le> Suc DEFAULT_MAX_BUFFER_SIZE"
  shows "\<exists>peeked. peek_kiro_stream parse (map Inr chunks :: ('e + byte list) list) = Inr peeked
    \<and> relay_kiro_frames parse peeked = (map val xs, RelayDone)"
proof -
  have new: "dec_state decoder_new = Ready" "error_count decoder_new = 0" "buffer decoder_new = []"
      "max_buffer_size decoder_new = DEFAULT_MAX_BUFFER_SIZE"
    by (simp_all add: decoder_new_def)
  have pos: "0 < length (enc (hd (xs @ [y])))"
    using enc_nonempty[OF ok_hd[OF assms(1,3)]] by simp
  have start: "buffer decoder_new = take 0 (enc (hd (xs @ [y])))"
      "buffer decoder_new @ concat chunks = concat (map enc xs) @ take k (enc y)"
    using assms(5) new by simp_all
  have fit: "\<forall>c \<in> set chunks. \<forall>x \<in> set (xs @ [y]).
      length c + length (enc x) \<le> Suc (max_buffer_size decoder_new)"
    using assms(6) new(4) by simp
  from peek_loop_frames[OF assms(1-4) new(1,2) pos start fit, unfolded new append_Nil]
  obtain read rest where got: "chunks = read @ rest"
      "length (concat read) \<le> DEFAULT_MAX_BUFFER_SIZE"
      "peek_loop parse decoder_new [] (map Inr chunks :: ('e + byte list) list)
        = Inr (concat read, map Inr rest)"
    by blast
  have stream: "buffer decoder_new @ concat read @ concat rest
      = concat (map enc xs) @ take k (enc y)"
    using assms(5) got(1) new by simp
  have fits: "length (buffer decoder_new) + length (concat read) \<le> max_buffer_size decoder_new"
    using got(2) new by simp
  from receive_step[OF assms(1,3,4) new(1,2) stream fits, unfolded new append_Nil] obtain ys zs j where
    step: "xs = ys @ zs" "j < length (enc (hd (zs @ [y])))"
      "feed decoder_new (concat read) = (Inr (), decoder_new\<lparr>buffer := concat read\<rparr>)"
      "decode_iter parse (decoder_new\<lparr>buffer := concat read\<rparr>)
         = (map (\<lambda>x. Inr (val x)) ys, decoder_new\<lparr>buffer := take j (enc (hd (zs @ [y])))\<rparr>)"
      "take j (enc (hd (zs @ [y]))) @ concat rest = concat (map enc zs) @ take k (enc y)"
    by blast
  have "relay_loop parse (decoder_new\<lparr>buffer := take j (enc (hd (zs @ [y])))\<rparr>)
      (map Inr rest :: ('e + byte list) list) = (map val zs, RelayDone)"
  proof (rule relay_loop_frames[where j = j])
    show "\<forall>c \<in> set rest. \<forall>x \<in> set (zs @ [y]). length c + length (enc x)
        \<le> Suc (max_buffer_size (decoder_new\<lparr>buffer := take j (enc (hd (zs @ [y])))\<rparr>))"
      using fit got(1) step(1) by simp
  qed (use assms step new in simp_all)
  then have "relay_kiro_frames parse (concat read, map Inr rest :: ('e + byte list) list)
      = (map val xs, RelayDone)"
    using step by (simp add: relay_kiro_frames_def)
  then show ?thesis
    using got(3) by (intro exI[of _ "(concat read, map Inr rest)"]) (simp add: peek_kiro_stream_def)
qed

end

text \<open>Peeking reads a prefix of the chunks and gives back all the bytes it read.\<close>

lemma peek_loop_lossless:
  "peek_loop parse d prefix chunks = Inr (got, rest)
    \<Longrightarrow> \<exists>read. chunks = map Inr read @ rest \<and> got = prefix @ concat read"
proof (induction parse d prefix chunks rule: peek_loop.induct)
  case (3 parse d prefix chunk chunks)
  show ?case
  proof (cases "chunk = []")
    case True
    with 3 obtain read where "chunks = map Inr read @ rest" "got = prefix @ concat read"
      by auto
    with True show ?thesis by (intro exI[of _ "chunk # read"]) auto
  next
    case False
    obtain d1 where feed1: "feed d chunk = (Inr (), d1)"
      using 3 False by (auto split: prod.splits sum.splits)
    obtain items d2 where it: "decode_iter parse d1 = (items, d2)" by force
    have noerr: "first_error items = None"
      using 3 False feed1 it by (auto split: option.splits)
    show ?thesis
    proof (cases "items = []")
      case True
      have "peek_loop parse d2 (prefix @ chunk) chunks = Inr (got, rest)"
        using "3.prems" False feed1 it noerr True by simp
      then obtain read where "chunks = map Inr read @ rest" "got = (prefix @ chunk) @ concat read"
        using "3.IH"(2)[OF False feed1[symmetric] refl it[symmetric] noerr] True by auto
      then show ?thesis by (intro exI[of _ "chunk # read"]) auto
    next
      case nonempty: False
      then show ?thesis
        using "3.prems" False feed1 it noerr by (intro exI[of _ "[chunk]"]) auto
    qed
  qed
qed (auto split: if_splits)

section \<open>The parser as an instance\<close>

interpretation kiro_frames: framing "parse_frame crc" "encode_frame crc" frame_of wf_frame
  for crc :: "byte list \<Rightarrow> u32"
proof unfold_locales
  show "0 < n \<and> n \<le> length buf" if "parse_frame crc buf = Inr (Some (f, n))" for buf f n
    using parse_frame_SomeD(1,3)[OF that] by simp
qed (simp_all add: parse_frame_encode_frame parse_frame_incomplete)

section \<open>Runs of the decoder\<close>

text \<open>
  What a caller can do to a decoder, with the bytes it accepted and the number of bytes of
  the frames it returned.
\<close>

inductive decoder_reach ::
  "(byte list \<Rightarrow> parse_error + ('f \<times> nat) option) \<Rightarrow> decoder \<Rightarrow> byte list \<Rightarrow> nat \<Rightarrow> bool"
  for parse where
  reach_new: "decoder_reach parse decoder_new [] 0"
| reach_feed: "decoder_reach parse d s n \<Longrightarrow> feed d c = (Inr (), d') \<Longrightarrow> decoder_reach parse d' (s @ c) n"
| reach_overflow: "decoder_reach parse d s n \<Longrightarrow> feed d c = (Inl e, d') \<Longrightarrow> decoder_reach parse d' s n"
| reach_frame: "decoder_reach parse d s n \<Longrightarrow> decode parse d = (Inr (Some f), d')
    \<Longrightarrow> decoder_reach parse d' s (n + (length (buffer d) - length (buffer d')))"
| reach_none: "decoder_reach parse d s n \<Longrightarrow> decode parse d = (Inr None, d') \<Longrightarrow> decoder_reach parse d' s n"
| reach_error: "decoder_reach parse d s n \<Longrightarrow> decode parse d = (Inl e, d') \<Longrightarrow> decoder_reach parse d' s n"

definition accounted :: "decoder \<Rightarrow> byte list \<Rightarrow> nat \<Rightarrow> bool" where
  "accounted d s n = (decoder_ok d \<and> n + bytes_skipped d + length (buffer d) = length s
     \<and> buffer d = drop (n + bytes_skipped d) s)"

lemma feed_keeps_ok: "decoder_ok d \<Longrightarrow> decoder_ok (snd (feed d c))"
  by (auto simp: feed_def Let_def decoder_ok_def)

lemma feed_ok_iff:
  "feed d c = (Inr (), d') \<longleftrightarrow> length (buffer d) + length c \<le> max_buffer_size d
    \<and> d' = d\<lparr>buffer := buffer d @ c,
         dec_state := (if dec_state d = Recovering then Ready else dec_state d)\<rparr>"
  by (auto simp: feed_def Let_def)

lemma feed_err_unchanged: "feed d c = (Inl e, d') \<Longrightarrow> d' = d"
  by (auto simp: feed_def Let_def split: if_splits)

context frame_source
begin

lemma accounted_decode:
  assumes "accounted d s n" "decode parse d = (r, d')"
  shows "accounted d' s (n + (case r of
    Inr (Some f) \<Rightarrow> length (buffer d) - length (buffer d') | _ \<Rightarrow> 0))"
proof -
  have ok: "decoder_ok d" using assms(1) by (simp add: accounted_def)
  have ok': "decoder_ok d'" using decode_keeps_ok[OF ok] assms(2) by simp
  from ok show ?thesis
    by (cases rule: decode_cases)
      (use assms ok' in \<open>auto simp: accounted_def ac_simps\<close>)
qed

lemma decoder_reach_accounted: "decoder_reach parse d s n \<Longrightarrow> accounted d s n"
proof (induction rule: decoder_reach.induct)
  case reach_new
  show ?case
    by (simp add: accounted_def decoder_ok_def decoder_new_def DEFAULT_MAX_ERRORS_def)
next
  case (reach_feed d s n c d')
  then have "decoder_ok d'" using feed_keeps_ok[of d c] by (simp add: accounted_def)
  with reach_feed show ?case by (auto simp: accounted_def feed_ok_iff)
next
  case (reach_overflow d s n c e d')
  then show ?case using feed_err_unchanged[of d c e d'] by simp
next
  case (reach_frame d s n f d')
  then show ?case using accounted_decode[of d s n "Inr (Some f)" d'] by simp
next
  case (reach_none d s n d')
  then show ?case using accounted_decode[of d s n "Inr None" d'] by simp
next
  case (reach_error d s n e d')
  then show ?case using accounted_decode[of d s n "Inl e" d'] by simp
qed

lemma decoder_reach_limits:
  "decoder_reach parse d s n
    \<Longrightarrow> max_buffer_size d = DEFAULT_MAX_BUFFER_SIZE \<and> max_errors d = DEFAULT_MAX_ERRORS"
proof (induction rule: decoder_reach.induct)
  case reach_new
  then show ?case by (simp add: decoder_new_def)
next
  case (reach_feed d s n c d')
  then show ?case by (simp add: feed_ok_iff)
next
  case (reach_overflow d s n c e d')
  then show ?case by (auto dest: feed_err_unchanged)
next
  case (reach_frame d s n f d')
  then have "decoder_ok d" using decoder_reach_accounted by (auto simp: accounted_def)
  then show ?case by (cases rule: decode_cases) (use reach_frame in auto)
next
  case (reach_none d s n d')
  then have "decoder_ok d" using decoder_reach_accounted by (auto simp: accounted_def)
  then show ?case by (cases rule: decode_cases) (use reach_none in auto)
next
  case (reach_error d s n e d')
  then have "decoder_ok d" using decoder_reach_accounted by (auto simp: accounted_def)
  then show ?case by (cases rule: decode_cases) (use reach_error in auto)
qed

lemma decode_error_state:
  assumes "decode parse d = (Inl e, d')"
  shows "dec_state d' = Stopped \<or> dec_state d' = Recovering"
  using assms by (auto simp: decode_def Let_def split: if_splits sum.splits option.splits prod.splits)

lemma decode_iter_next_after_error:
  assumes "decode_iter_next parse d = (Some (Inl e), d')"
  shows "decode_iter_next parse d' = (None, d')"
proof -
  have "decode parse d = (Inl e, d')"
    using assms by (auto simp: decode_iter_next_def split: prod.splits sum.splits option.splits if_splits)
  then show ?thesis using decode_error_state by (auto simp: decode_iter_next_def)
qed

lemma decode_iter_run_one_error:
  "\<exists>fs. map Inr fs = fst (decode_iter_run parse fuel d)
    \<or> (\<exists>e. map Inr fs @ [Inl e] = fst (decode_iter_run parse fuel d))"
proof (induction fuel arbitrary: d)
  case 0
  then show ?case by auto
next
  case (Suc fuel)
  obtain r d1 where next1: "decode_iter_next parse d = (r, d1)" by force
  show ?case
  proof (cases r)
    case None
    then show ?thesis using next1 by (intro exI[of _ "[]"]) simp
  next
    case (Some item)
    show ?thesis
    proof (cases item)
      case (Inl e)
      then have "fst (decode_iter_run parse fuel d1) = []"
        using decode_iter_next_after_error[of d e d1] next1 Some by (cases fuel) auto
      then show ?thesis using next1 Some Inl
        by (intro exI[of _ "[]"]) (simp add: split_beta Let_def)
    next
      case (Inr f)
      obtain fs where "map Inr fs = fst (decode_iter_run parse fuel d1)
          \<or> (\<exists>e. map Inr fs @ [Inl e] = fst (decode_iter_run parse fuel d1))"
        using Suc.IH by blast
      then show ?thesis using next1 Some Inr
        by (intro exI[of _ "f # fs"]) (auto simp: split_beta Let_def)
    qed
  qed
qed

end

end
