(* ===== verification/EventStreamProperties.thy ===== *)
theory EventStreamProperties
  imports EventStreamTheorems
begin

text \<open>
  The guarantees of the Kiro event stream: the frame parser, the incremental decoder and
  the two streaming callers, for every checksum function.
\<close>

text \<open>
  C1.  The event stream of a response survives its transport.  Let the upstream send the
  frames \<open>fs\<close> (at least one), possibly followed by a part of one more frame, and let the
  transport cut these bytes into chunks in any way (empty chunks included), a chunk and a
  frame together fitting the decoder's 16 MiB buffer.  Then \<open>peek_kiro_stream\<close> succeeds,
  and relaying the prefix it buffered followed by the remaining chunks delivers exactly the
  frames \<open>fs\<close>, in order, and ends without an error; the incomplete last frame is dropped.
\<close>

theorem peeked_stream_is_relayed:
  assumes "list_all wf_frame fs" "fs \<noteq> []" "wf_frame g" "k < length (encode_frame crc g)"
    and "concat chunks = concat (map (encode_frame crc) fs) @ take k (encode_frame crc g)"
    and "\<forall>c \<in> set chunks. \<forall>f \<in> set (fs @ [g]).
           length c + length (encode_frame crc f) \<le> Suc DEFAULT_MAX_BUFFER_SIZE"
  shows "\<exists>peeked. peek_kiro_stream (parse_frame crc) (map Inr chunks :: ('e + byte list) list) = Inr peeked
    \<and> relay_kiro_frames (parse_frame crc) peeked = (map frame_of fs, RelayDone)"
  by (rule kiro_frames.peeked_relay_frames[OF assms])

lemma peeked_stream_is_relayed_witness:
  "\<exists>peeked. peek_kiro_stream (parse_frame (\<lambda>b. word_of_nat (length b)))
      [Inr (take 7 (encode_frame (\<lambda>b. word_of_nat (length b)) ([(''a'', HBool True)], [1, 2]))),
       Inr [] :: string + byte list,
       Inr (drop 7 (encode_frame (\<lambda>b. word_of_nat (length b)) ([(''a'', HBool True)], [1, 2])))]
      = Inr peeked
    \<and> relay_kiro_frames (parse_frame (\<lambda>b. word_of_nat (length b))) peeked
      = ([frame_of ([(''a'', HBool True)], [1, 2])], RelayDone)"
proof -
  let ?f = "([(''a'', HBool True)], [1, 2]) :: (string \<times> header_value) list \<times> byte list"
  let ?e = "encode_frame (\<lambda>b. word_of_nat (length b)) ?f"
  have len: "length ?e = 21"
    by (simp add: length_encode_frame encode_headers_def encode_header_def)
  have "wf_frame ?f"
    by (simp add: wf_frame_def wf_header_def encode_headers_def encode_header_def utf8_valid_str)
  then show ?thesis
    using peeked_stream_is_relayed[of "[?f]" ?f 0 "\<lambda>b. word_of_nat (length b)" "[take 7 ?e, [], drop 7 ?e]"]
    by (simp add: len DEFAULT_MAX_BUFFER_SIZE_def)
qed

text \<open>
  C2.  Every frame the sender can express is parsed back, whatever follows it in the buffer,
  and the parser consumes exactly its bytes; a proper prefix of it is reported as incomplete
  and never as an error.
\<close>

theorem parse_frame_roundtrip:
  assumes "wf_frame f"
  shows "parse_frame crc (encode_frame crc f @ rest)
      = Inr (Some (frame_of f, length (encode_frame crc f)))
    \<and> (\<forall>k. k < length (encode_frame crc f)
          \<longrightarrow> parse_frame crc (take k (encode_frame crc f)) = Inr None)"
  using assms parse_frame_encode_frame parse_frame_incomplete by blast

lemma parse_frame_roundtrip_witness:
  "parse_frame (\<lambda>_. 7) (encode_frame (\<lambda>_. 7) ([(''x'', HInteger 5), (''x'', HByte 9)], [65]) @ [1, 2, 3])
      = Inr (Some (frame_of ([(''x'', HInteger 5), (''x'', HByte 9)], [65]),
               length (encode_frame (\<lambda>_. 7) ([(''x'', HInteger 5), (''x'', HByte 9)], [65]))))"
proof -
  have "wf_frame ([(''x'', HInteger 5), (''x'', HByte 9)], [65])"
    by (simp add: wf_frame_def wf_header_def encode_headers_def encode_header_def utf8_valid_str)
  then show ?thesis using parse_frame_roundtrip by blast
qed

text \<open>
  C3.  Nothing else is accepted.  A frame is only returned when the length field counts the
  bytes consumed, these are between 16 bytes and 16 MiB and all there, both checksums match,
  the header block ends before the message checksum, the headers are those of the header
  block and the payload is what is left; and the verdict depends on these bytes alone.
\<close>

theorem parse_frame_accepts_only:
  assumes "parse_frame crc buf = Inr (Some (f, n))"
  shows "n = unat (read_u32_be buf 0) \<and> MIN_MESSAGE_SIZE \<le> n \<and> n \<le> unat MAX_MESSAGE_SIZE
    \<and> n \<le> length buf
    \<and> crc (take 8 buf) = read_u32_be buf 8
    \<and> crc (take (n - 4) buf) = read_u32_be buf (n - 4)
    \<and> (let h = unat (read_u32_be buf 4) in
         PRELUDE_SIZE + h + 4 \<le> n
         \<and> parse_headers (take h (drop PRELUDE_SIZE buf)) h = Inr (frame_headers f)
         \<and> frame_payload f = drop (PRELUDE_SIZE + h) (take (n - 4) buf))
    \<and> (\<forall>rest. parse_frame crc (take n buf @ rest) = Inr (Some (f, n)))"
  using parse_frame_SomeD[OF assms] parse_frame_local[OF assms]
  by (simp add: Let_def PRELUDE_SIZE_def MIN_MESSAGE_SIZE_def MAX_MESSAGE_SIZE_def)

lemma parse_frame_accepts_only_witness:
  "\<forall>rest. parse_frame (\<lambda>_. 0) (take 16 (encode_frame (\<lambda>_. 0) ([], [])) @ rest)
     = Inr (Some (frame_of ([], []), 16))"
proof -
  have "wf_frame ([], [])" and len: "length (encode_frame (\<lambda>_. 0) ([], [])) = 16"
    by (simp_all add: wf_frame_def length_encode_frame encode_headers_def)
  then have "parse_frame (\<lambda>_. 0) (encode_frame (\<lambda>_. 0) ([], []) @ [])
      = Inr (Some (frame_of ([], []), 16))"
    using parse_frame_encode_frame by metis
  from parse_frame_accepts_only[OF this] show ?thesis by (simp add: Let_def)
qed

text \<open>
  C4.  However a caller interleaves feeding and decoding, the decoder loses no byte: every
  byte it accepted is part of a returned frame, counted in \<open>bytes_skipped\<close> or still in the
  buffer, and the buffer is the unread end of the input.  Its buffer never exceeds 16 MiB,
  and it is stopped exactly when five consecutive errors have been counted.
\<close>

theorem decoder_accounts_for_every_byte:
  assumes "decoder_reach (parse_frame crc) d accepted framed"
  shows "framed + bytes_skipped d + length (buffer d) = length accepted
    \<and> buffer d = drop (framed + bytes_skipped d) accepted
    \<and> length (buffer d) \<le> DEFAULT_MAX_BUFFER_SIZE
    \<and> (dec_state d = Stopped \<longleftrightarrow> DEFAULT_MAX_ERRORS \<le> error_count d)"
  using kiro_frames.decoder_reach_accounted[OF assms] kiro_frames.decoder_reach_limits[OF assms]
  unfolding accounted_def decoder_ok_def by metis

lemma decoder_accounts_for_every_byte_witness:
  "bytes_skipped (snd (decode (parse_frame (\<lambda>_. 0)) (snd (feed decoder_new [0,0,0,0,0,0,0,0,0,0,0,0]))))
    + length (buffer (snd (decode (parse_frame (\<lambda>_. 0))
        (snd (feed decoder_new [0,0,0,0,0,0,0,0,0,0,0,0]))))) = 12"
proof -
  let ?d = "snd (feed decoder_new [0,0,0,0,0,0,0,0,0,0,0,0])"
  let ?r = "decode (parse_frame (\<lambda>_. 0)) ?d"
  have feed1: "feed decoder_new [0,0,0,0,0,0,0,0,0,0,0,0] = (Inr (), ?d)"
    by (simp add: feed_def decoder_new_def DEFAULT_MAX_BUFFER_SIZE_def)
  have "fst ?r = Inl (MessageTooSmall 0 16)"
    by (simp add: decode_def feed_def decoder_new_def DEFAULT_MAX_BUFFER_SIZE_def
        DEFAULT_MAX_ERRORS_def parse_frame_def PRELUDE_SIZE_def MIN_MESSAGE_SIZE_def
        read_u32_be_def be_nat_def Let_def drop_Cons' take_Cons')
  then have err: "?r = (Inl (MessageTooSmall 0 16), snd ?r)"
    by (metis prod.collapse)
  have "decoder_reach (parse_frame (\<lambda>_. 0)) ?d ([] @ [0,0,0,0,0,0,0,0,0,0,0,0]) 0"
    by (rule reach_feed[OF reach_new feed1])
  from reach_error[OF this err] have reached:
    "decoder_reach (parse_frame (\<lambda>_. 0)) (snd ?r) ([] @ [0,0,0,0,0,0,0,0,0,0,0,0]) 0" .
  from decoder_accounts_for_every_byte[OF reached] show ?thesis by simp
qed

text \<open>
  C5.  Draining the decoder terminates and is complete: a \<open>for\<close> loop over \<open>decode_iter\<close>
  yields the frames of the buffer, then at most one error which is its last item, and
  afterwards the iterator has nothing more to give.
\<close>

theorem decode_iter_drains:
  assumes "decoder_reach (parse_frame crc) d accepted framed"
  shows "fst (decode_iter_next (parse_frame crc) (snd (decode_iter (parse_frame crc) d))) = None
    \<and> (\<exists>fs. map Inr fs = fst (decode_iter (parse_frame crc) d)
          \<or> (\<exists>e. map Inr fs @ [Inl e] = fst (decode_iter (parse_frame crc) d)))"
proof -
  have "decoder_ok d"
    using kiro_frames.decoder_reach_accounted[OF assms] by (simp add: accounted_def)
  then show ?thesis
    using kiro_frames.decode_iter_complete[of d crc]
      kiro_frames.decode_iter_run_one_error[of crc "length (buffer d) + 2" d]
    unfolding decode_iter_def by blast
qed

lemma decode_iter_drains_witness:
  "fst (decode_iter_next (parse_frame (\<lambda>_. 0))
     (snd (decode_iter (parse_frame (\<lambda>_. 0)) (snd (feed decoder_new [1, 2, 3]))))) = None"
proof -
  have "feed decoder_new [1, 2, 3] = (Inr (), snd (feed decoder_new [1, 2, 3]))"
    by (simp add: feed_def decoder_new_def DEFAULT_MAX_BUFFER_SIZE_def)
  from reach_feed[OF reach_new this] decode_iter_drains show ?thesis by blast
qed

text \<open>
  C6.  The decoder resynchronises after a corrupted message: when the payload checksum of a
  message is wrong, \<open>decode\<close> reports it, drops exactly that message, and the next input
  lets the following frame through and clears the error count.
\<close>

theorem decoder_resynchronises:
  assumes "wf_frame f" "wf_frame g" "bad \<noteq> crc (take (n - 4) (encode_frame crc f))"
    and "n = length (encode_frame crc f)"
    and "dec_state d = Ready" "Suc (error_count d) < max_errors d"
    and "buffer d = take (n - 4) (encode_frame crc f) @ be_bytes 4 (unat bad) @ encode_frame crc g"
    and "length (buffer d) + length chunk \<le> max_buffer_size d"
  shows "\<exists>d1 d2. decode (parse_frame crc) d
        = (Inl (MessageCrcMismatch bad (crc (take (n - 4) (encode_frame crc f)))), d1)
      \<and> dec_state d1 = Recovering \<and> buffer d1 = encode_frame crc g
      \<and> feed d1 chunk = (Inr (), d2)
      \<and> fst (decode (parse_frame crc) d2) = Inr (Some (frame_of g))
      \<and> error_count (snd (decode (parse_frame crc) d2)) = 0"
proof -
  let ?e = "encode_frame crc f" and ?bad = "buffer d"
  obtain hs p where f: "f = (hs, p)" by force
  have n: "n = 16 + length (encode_headers hs) + length p" "16 \<le> n" "n \<le> 2 ^ 24"
    using assms(1,4) by (simp_all add: length_encode_frame f wf_frame_def)
  note reads = encoded_frame_reads[OF assms(1)[unfolded f], where crc = crc and rest = "[]",
      folded n(1), unfolded append_Nil2, folded f]
  have take_bad: "take k ?bad = take k ?e" if "k \<le> n - 4" for k
    using that assms(4,7) by (simp add: take_append)
  have read_bad: "read_u32_be ?bad i = read_u32_be ?e i" if "i + 4 \<le> n - 4" for i
    using take_bad[of "n - 4"] that
    by (metis order_refl take_take_read_u32_be)
  have len: "length ?bad = n + length (encode_frame crc g)"
    using assms(4,7) n(2) by simp
  have ix: "0 + 4 \<le> n - 4"
    using n(2) by simp
  have "n < 2 ^ 32"
    using n(3) by simp
  then have total: "unat (read_u32_be ?bad 0) = n"
    unfolding read_bad[OF ix] reads(1) by (rule unat_word_of_nat32)
  have crc_read: "read_u32_be ?bad (n - 4) = bad"
    unfolding assms(7) using assms(4) by (intro read_u32_be_append) simp
  have pre: "crc (take 8 ?bad) = read_u32_be ?bad 8"
    using read_bad[of 8] take_bad[of 8] reads(3) n(2) by simp
  have parsed: "parse_frame crc ?bad = Inl (MessageCrcMismatch bad (crc (take (n - 4) ?e)))"
    using parse_frame_sizes[of ?bad n crc] total len n pre crc_read assms(3) take_bad[of "n - 4"]
    by simp
  let ?d = "d\<lparr>dec_state := Parsing, error_count := Suc (error_count d)\<rparr>"
  let ?d1 = "(skip_bytes n ?d)\<lparr>dec_state := Recovering\<rparr>"
  have "12 \<le> length ?bad" "?bad \<noteq> []"
    using len n(2) by auto
  then have "try_recover ?d (MessageCrcMismatch bad (crc (take (n - 4) ?e))) = skip_bytes n ?d"
    using total len n(2) by (simp add: try_recover.simps skip_message_def Let_def PRELUDE_SIZE_def)
  then have dec: "decode (parse_frame crc) d
      = (Inl (MessageCrcMismatch bad (crc (take (n - 4) ?e))), ?d1)"
    using kiro_frames.decode_result[of d crc] parsed assms(5,6) \<open>?bad \<noteq> []\<close> by simp
  have rest: "drop n ?bad = encode_frame crc g"
    using assms(4,7) n(2) by simp
  let ?d2 = "?d1\<lparr>buffer := encode_frame crc g @ chunk, dec_state := Ready\<rparr>"
  have fed: "feed ?d1 chunk = (Inr (), ?d2)"
    using assms(8) len rest by (simp add: feed_ok_iff skip_bytes_def)
  have "decode (parse_frame crc) ?d2
      = (Inr (Some (frame_of g)), ?d2\<lparr>buffer := chunk, error_count := 0\<rparr>)"
    using kiro_frames.decode_result[of ?d2 crc] parse_frame_encode_frame[OF assms(2)]
      kiro_frames.enc_nonempty[OF assms(2), of crc] by simp
  then show ?thesis
    using dec fed rest by (intro exI[of _ ?d1] exI[of _ ?d2]) (simp add: skip_bytes_def)
qed

lemma decoder_resynchronises_witness:
  "\<exists>d1 d2. decode (parse_frame (\<lambda>_. 0)) (decoder_new\<lparr>buffer :=
          take 12 (encode_frame (\<lambda>_. 0) ([], [])) @ be_bytes 4 (unat (3 :: u32))
            @ encode_frame (\<lambda>_. 0) ([], [9])\<rparr>)
        = (Inl (MessageCrcMismatch 3 0), d1)
      \<and> feed d1 [1] = (Inr (), d2)
      \<and> fst (decode (parse_frame (\<lambda>_. 0)) d2) = Inr (Some (frame_of ([], [9])))"
proof -
  have wf: "wf_frame ([], [])" "wf_frame ([], [9])"
    by (simp_all add: wf_frame_def encode_headers_def)
  have len: "length (encode_frame (\<lambda>_. 0) ([], [])) = 16"
      "length (encode_frame (\<lambda>_. 0) ([], [9])) = 17"
    by (simp_all add: length_encode_frame encode_headers_def)
  let ?e = "encode_frame (\<lambda>_. 0 :: u32) ([], [])" and ?g = "encode_frame (\<lambda>_. 0 :: u32) ([], [9])"
  let ?d = "decoder_new\<lparr>buffer := take 12 ?e @ be_bytes 4 (unat (3 :: u32)) @ ?g\<rparr>"
  have "\<exists>d1 d2. decode (parse_frame (\<lambda>_. 0)) ?d = (Inl (MessageCrcMismatch 3 0), d1)
      \<and> dec_state d1 = Recovering \<and> buffer d1 = ?g \<and> feed d1 [1] = (Inr (), d2)
      \<and> fst (decode (parse_frame (\<lambda>_. 0)) d2) = Inr (Some (frame_of ([], [9])))
      \<and> error_count (snd (decode (parse_frame (\<lambda>_. 0)) d2)) = 0"
    by (rule decoder_resynchronises[OF wf, of 3 "\<lambda>_. 0" 16])
      (simp_all add: len decoder_new_def DEFAULT_MAX_ERRORS_def DEFAULT_MAX_BUFFER_SIZE_def)
  then show ?thesis by blast
qed

end
