(* ===== verification/CachePages.thy ===== *)
theory CachePages
  imports Prelude
begin

text \<open>
  Token pages, the unit of prefix matching, and the clock of the Kiro cache simulation
  (\<open>crates/llm-access-kiro/src/cache_sim/projection.rs\<close>).  An \<open>Instant\<close> is a number of
  nanoseconds on a monotonic clock and a \<open>Duration\<close> a natural number of nanoseconds.
\<close>

definition PREFIX_CACHE_PAGE_SIZE :: nat where
  "PREFIX_CACHE_PAGE_SIZE = 64"

record canonical_token_page =
  page_key :: u128
  page_tokens :: u16

type_synonym instant = int
type_synonym duration = nat

text \<open>\<open>duration_since\<close> and \<open>saturating_duration_since\<close>: zero when the clock went back.\<close>

definition duration_since :: "instant \<Rightarrow> instant \<Rightarrow> duration" where
  "duration_since now earlier = nat (now - earlier)"

definition nanos_per_sec :: nat where
  "nanos_per_sec = 10 ^ 9"

definition as_secs :: "duration \<Rightarrow> nat" where
  "as_secs d = d div nanos_per_sec"

text \<open>
  \<open>now.checked_sub(Duration::from_secs(secs))\<close>: the seconds of an instant are an \<open>i64\<close>, and
  the subtraction fails when they would leave its range.
\<close>

definition instant_checked_sub_secs :: "instant \<Rightarrow> nat \<Rightarrow> instant option" where
  "instant_checked_sub_secs now secs =
     (let t = now - int secs * int nanos_per_sec in
      if t div int nanos_per_sec < i64_min then None else Some t)"

definition instant_minus_secs :: "instant \<Rightarrow> nat \<Rightarrow> instant" where
  "instant_minus_secs now secs =
     (case instant_checked_sub_secs now secs of Some t \<Rightarrow> t | None \<Rightarrow> now)"

definition prefix_pages_token_count :: "canonical_token_page list \<Rightarrow> nat" where
  "prefix_pages_token_count ps = sum_list (map (\<lambda>p. unat (page_tokens p)) ps)"

definition page_keys :: "canonical_token_page list \<Rightarrow> u128 list" where
  "page_keys ps = map page_key ps"

lemma prefix_pages_token_count_append [simp]:
  "prefix_pages_token_count (xs @ ys) = prefix_pages_token_count xs + prefix_pages_token_count ys"
  by (simp add: prefix_pages_token_count_def)

lemma prefix_pages_token_count_Nil [simp]: "prefix_pages_token_count [] = 0"
  by (simp add: prefix_pages_token_count_def)

lemma prefix_pages_token_count_Cons [simp]:
  "prefix_pages_token_count (p # ps) = unat (page_tokens p) + prefix_pages_token_count ps"
  by (simp add: prefix_pages_token_count_def)

lemma prefix_pages_token_count_take_drop:
  "prefix_pages_token_count (take n ps) + prefix_pages_token_count (drop n ps)
    = prefix_pages_token_count ps"
  by (metis append_take_drop_id prefix_pages_token_count_append)

lemma page_keys_simps [simp]:
  "page_keys [] = []" "page_keys (p # ps) = page_key p # page_keys ps"
  "page_keys (xs @ ys) = page_keys xs @ page_keys ys"
  "length (page_keys ps) = length ps"
  "take n (page_keys ps) = page_keys (take n ps)" "drop n (page_keys ps) = page_keys (drop n ps)"
  "page_keys ps = [] \<longleftrightarrow> ps = []"
  by (simp_all add: page_keys_def take_map drop_map)

end
