(* ===== verification/PrefixTree.thy ===== *)
theory PrefixTree
  imports CachePages
begin

text \<open>
  The radix trie of \<open>crates/llm-access-kiro/src/cache_sim/prefix_tree.rs\<close>: shared stable
  prefixes as edges of token pages, matching, insertion, expiry and eviction of the coldest
  leaf.  The source walks with explicit stacks, to bound the thread stack; the walks are
  recursions here.
\<close>

section \<open>Data\<close>

definition PREFIX_CHILD_SORT_THRESHOLD :: nat where
  "PREFIX_CHILD_SORT_THRESHOLD = 16"

record prefix_cache_match =
  matched_pages :: nat
  matched_tokens :: nat

definition prefix_cache_match_default :: prefix_cache_match where
  "prefix_cache_match_default = \<lparr>matched_pages = 0, matched_tokens = 0\<rparr>"

datatype prefix_node =
    PrefixNode (children: "prefix_edge list") (children_sorted: bool)
and prefix_edge =
    PrefixEdge (edge_pages: "canonical_token_page list") (edge_tokens: nat)
      (touched: instant) (edge_child: prefix_node)

record prefix_tree =
  root :: prefix_node
  resident_tokens :: nat

definition prefix_node_default :: prefix_node where
  "prefix_node_default = PrefixNode [] False"

definition prefix_tree_default :: prefix_tree where
  "prefix_tree_default = \<lparr>root = prefix_node_default, resident_tokens = 0\<rparr>"

definition prefix_edge_new :: "canonical_token_page list \<Rightarrow> instant \<Rightarrow> prefix_edge" where
  "prefix_edge_new pages now =
     PrefixEdge pages (prefix_pages_token_count pages) now prefix_node_default"

text \<open>\<open>pages[0].key\<close>; no edge has an empty page list (\<open>wf_edges\<close>).\<close>

definition first_page_key :: "prefix_edge \<Rightarrow> u128" where
  "first_page_key e = page_key (hd (edge_pages e))"

section \<open>Children\<close>

fun set_child :: "prefix_node \<Rightarrow> nat \<Rightarrow> prefix_edge \<Rightarrow> prefix_node" where
  "set_child (PrefixNode es s) i e = PrefixNode (es[i := e]) s"

fun push_child_edge :: "prefix_node \<Rightarrow> prefix_edge \<Rightarrow> prefix_node" where
  "push_child_edge (PrefixNode es s) e = PrefixNode (es @ [e]) False"

fun position :: "('a \<Rightarrow> bool) \<Rightarrow> 'a list \<Rightarrow> nat option" where
  "position P [] = None"
| "position P (x # xs) = (if P x then Some 0 else map_option Suc (position P xs))"

definition find_child_edge_index_linear :: "prefix_edge list \<Rightarrow> u128 \<Rightarrow> nat option" where
  "find_child_edge_index_linear es k = position (\<lambda>e. first_page_key e = k) es"

text \<open>\<open>binary_search_by_key\<close> of the standard library, on the keys of positions \<open>lo\<close> to \<open>hi\<close>.\<close>

function binary_search :: "(nat \<Rightarrow> 'k :: linorder) \<Rightarrow> 'k \<Rightarrow> nat \<Rightarrow> nat \<Rightarrow> nat option" where
  "binary_search f k lo hi =
     (if hi \<le> lo then None
      else (let mid = lo + (hi - lo) div 2 in
        if f mid = k then Some mid
        else if f mid < k then binary_search f k (mid + 1) hi
        else binary_search f k lo mid))"
  by pat_completeness auto
termination by (relation "measure (\<lambda>(f, k, lo, hi). hi - lo)") auto

declare binary_search.simps [simp del]

fun find_child_edge_index :: "prefix_node \<Rightarrow> u128 \<Rightarrow> nat option \<times> prefix_node" where
  "find_child_edge_index (PrefixNode es s) k =
     (if length es < PREFIX_CHILD_SORT_THRESHOLD
      then (find_child_edge_index_linear es k, PrefixNode es s)
      else (let es' = (if s then es else sort_key first_page_key es) in
        (binary_search (\<lambda>i. first_page_key (es' ! i)) k 0 (length es'), PrefixNode es' True)))"

definition common_prefix_len ::
  "canonical_token_page list \<Rightarrow> canonical_token_page list \<Rightarrow> nat" where
  "common_prefix_len left right =
     length (takeWhile (\<lambda>(l, r). page_key l = page_key r) (zip left right))"

fun split_edge_at :: "prefix_edge \<Rightarrow> nat \<Rightarrow> instant \<Rightarrow> prefix_edge" where
  "split_edge_at (PrefixEdge ps t old c) n now =
     PrefixEdge (take n ps) (prefix_pages_token_count (take n ps)) now
       (PrefixNode [PrefixEdge (drop n ps) (prefix_pages_token_count (drop n ps)) old c] False)"

fun touch_edge :: "prefix_edge \<Rightarrow> instant \<Rightarrow> prefix_edge" where
  "touch_edge (PrefixEdge ps t old c) now = PrefixEdge ps t now c"

fun set_edge_child :: "prefix_edge \<Rightarrow> prefix_node \<Rightarrow> prefix_edge" where
  "set_edge_child (PrefixEdge ps t old c) c' = PrefixEdge ps t old c'"

section \<open>Matching and insertion\<close>

lemma drop_common_less: "n \<noteq> 0 \<Longrightarrow> pages = p # rest \<Longrightarrow> length (drop n pages) < length pages"
  by simp

text \<open>The loop of \<open>match_prefix\<close>, below the current node.\<close>

function match_walk ::
  "prefix_node \<Rightarrow> canonical_token_page list \<Rightarrow> instant \<Rightarrow> prefix_cache_match
     \<Rightarrow> prefix_cache_match \<times> prefix_node" where
  "match_walk node pages now matched =
     (case pages of
        [] \<Rightarrow> (matched, node)
      | p # _ \<Rightarrow>
          (case find_child_edge_index node (page_key p) of
             (None, node') \<Rightarrow> (matched, node')
           | (Some i, node') \<Rightarrow>
               (let edge = children node' ! i;
                    common = common_prefix_len (edge_pages edge) pages in
                if common = 0 then (matched, node')
                else (let matched' = \<lparr>matched_pages = matched_pages matched + common,
                        matched_tokens = sat_add_u64 (matched_tokens matched)
                          (prefix_pages_token_count (take common (edge_pages edge)))\<rparr> in
                  if common < length (edge_pages edge)
                  then (matched', set_child node' i (split_edge_at edge common now))
                  else (case match_walk (edge_child edge) (drop common pages) now matched' of
                      (matched'', c') \<Rightarrow>
                        (matched'', set_child node' i (set_edge_child (touch_edge edge now) c')))))))"
  by pat_completeness auto
termination
  by (relation "measure (\<lambda>(node, pages, now, matched). length pages)") auto

declare match_walk.simps [simp del]

text \<open>\<open>insert_prefix_path\<close>: the tokens added and the new node.\<close>

function insert_prefix_path ::
  "prefix_node \<Rightarrow> canonical_token_page list \<Rightarrow> instant \<Rightarrow> nat \<times> prefix_node" where
  "insert_prefix_path node pages now =
     (case pages of
        [] \<Rightarrow> (0, node)
      | p # _ \<Rightarrow>
          (let new_edge = prefix_edge_new pages now in
           case find_child_edge_index node (page_key p) of
             (None, node') \<Rightarrow> (sat_add_u64 0 (edge_tokens new_edge), push_child_edge node' new_edge)
           | (Some i, node') \<Rightarrow>
               (let edge = children node' ! i;
                    common = common_prefix_len (edge_pages edge) pages in
                if common = 0
                then (sat_add_u64 0 (edge_tokens new_edge), push_child_edge node' new_edge)
                else (let edge' = (if common < length (edge_pages edge)
                                   then split_edge_at edge common now else touch_edge edge now) in
                  if length pages \<le> common then (0, set_child node' i edge')
                  else (case insert_prefix_path (edge_child edge') (drop common pages) now of
                      (added, c') \<Rightarrow> (added, set_child node' i (set_edge_child edge' c')))))))"
  by pat_completeness auto
termination
  by (relation "measure (\<lambda>(node, pages, now). length pages)") auto

declare insert_prefix_path.simps [simp del]

section \<open>Walks\<close>

text \<open>\<open>compute_resident_tokens\<close> and \<open>subtree_token_count_edge\<close>.\<close>

fun node_tokens :: "prefix_node \<Rightarrow> nat" and edges_tokens :: "prefix_edge list \<Rightarrow> nat" where
  "node_tokens (PrefixNode es s) = edges_tokens es"
| "edges_tokens [] = 0"
| "edges_tokens (PrefixEdge ps t u c # es) =
     sat_add_u64 (sat_add_u64 t (node_tokens c)) (edges_tokens es)"

definition subtree_token_count_edge :: "prefix_edge \<Rightarrow> nat" where
  "subtree_token_count_edge e = sat_add_u64 (edge_tokens e) (node_tokens (edge_child e))"

text \<open>
  \<open>prune_expired_children\<close>: the children of every child first, then the expired edges of
  this node.  The tokens removed and the node left.
\<close>

fun prune_node :: "instant \<Rightarrow> duration \<Rightarrow> prefix_node \<Rightarrow> nat \<times> prefix_node"
  and prune_edges :: "instant \<Rightarrow> duration \<Rightarrow> prefix_edge list \<Rightarrow> nat \<times> prefix_edge list" where
  "prune_node now ttl (PrefixNode es s) =
     (case prune_edges now ttl es of (removed, es') \<Rightarrow> (removed, PrefixNode es' s))"
| "prune_edges now ttl [] = (0, [])"
| "prune_edges now ttl (PrefixEdge ps t u c # es) =
     (case prune_node now ttl c of (below, c') \<Rightarrow>
      case prune_edges now ttl es of (after, es') \<Rightarrow>
        if ttl < duration_since now u
        then (sat_add_u64 (sat_add_u64 below (subtree_token_count_edge (PrefixEdge ps t u c'))) after, es')
        else (sat_add_u64 below after, PrefixEdge ps t u c' # es'))"

text \<open>
  \<open>find_coldest_leaf_path\<close>: depth first, the first leaf with the oldest touch.  The walk
  carries the touch of the edge it came in by, the path and the best leaf so far.
\<close>

fun coldest_node ::
    "prefix_node \<Rightarrow> instant option \<Rightarrow> nat list \<Rightarrow> (instant \<times> nat list) option
       \<Rightarrow> (instant \<times> nat list) option"
  and coldest_edges ::
    "prefix_edge list \<Rightarrow> nat \<Rightarrow> nat list \<Rightarrow> (instant \<times> nat list) option
       \<Rightarrow> (instant \<times> nat list) option" where
  "coldest_node (PrefixNode es s) incoming path best =
     (if es = []
      then (case incoming of
          None \<Rightarrow> best
        | Some t \<Rightarrow>
            (case best of
               Some (oldest, _) \<Rightarrow> (if oldest \<le> t then best else Some (t, path))
             | None \<Rightarrow> Some (t, path)))
      else coldest_edges es 0 path best)"
| "coldest_edges [] i path best = best"
| "coldest_edges (PrefixEdge ps t u c # es) i path best =
     coldest_edges es (Suc i) path (coldest_node c (Some u) (path @ [i]) best)"

definition find_coldest_leaf_path :: "prefix_node \<Rightarrow> nat list option" where
  "find_coldest_leaf_path node = map_option snd (coldest_node node None [] None)"

text \<open>
  \<open>remove_leaf_path\<close>: the leaf edge at the end of the path is removed, then every ancestor
  edge that is left without children.  The result \<open>0\<close> stands for the early returns of the
  source, after which no ancestor is touched.
\<close>

fun remove_child :: "prefix_node \<Rightarrow> nat \<Rightarrow> prefix_node" where
  "remove_child (PrefixNode es s) i = PrefixNode (take i es @ drop (Suc i) es) s"

fun remove_leaf_path :: "prefix_node \<Rightarrow> nat list \<Rightarrow> nat \<times> prefix_node" where
  "remove_leaf_path node [] = (0, node)"
| "remove_leaf_path node [i] =
     (if length (children node) \<le> i then (0, node)
      else (subtree_token_count_edge (children node ! i), remove_child node i))"
| "remove_leaf_path node (i # j # rest) =
     (if length (children node) \<le> i then (0, node)
      else (let edge = children node ! i in
        case remove_leaf_path (edge_child edge) (j # rest) of (removed, c') \<Rightarrow>
          if removed = 0 then (0, set_child node i (set_edge_child edge c'))
          else if children c' \<noteq> [] then (removed, set_child node i (set_edge_child edge c'))
          else (sat_add_u64 removed (edge_tokens edge), remove_child node i)))"

text \<open>Counts of the tree; every removal of a leaf path shrinks \<open>node_edges\<close>.\<close>

fun node_edges :: "prefix_node \<Rightarrow> nat" and edges_edges :: "prefix_edge list \<Rightarrow> nat" where
  "node_edges (PrefixNode es s) = edges_edges es"
| "edges_edges [] = 0"
| "edges_edges (PrefixEdge ps t u c # es) = Suc (node_edges c + edges_edges es)"

lemma edges_edges_append [simp]: "edges_edges (xs @ ys) = edges_edges xs + edges_edges ys"
proof (induction xs)
  case (Cons e xs)
  then show ?case by (cases e) simp
qed simp

lemma edges_edges_nth:
  assumes "i < length es"
  shows "edges_edges es = edges_edges (take i es) + Suc (node_edges (edge_child (es ! i)))
    + edges_edges (drop (Suc i) es)"
proof -
  have "edges_edges es = edges_edges (take i es @ es ! i # drop (Suc i) es)"
    using assms by (simp add: id_take_nth_drop[symmetric])
  then show ?thesis by (cases "es ! i") simp
qed

lemma edges_edges_update:
  "i < length es \<Longrightarrow> edges_edges (es[i := e]) + node_edges (edge_child (es ! i))
    = edges_edges es + node_edges (edge_child e)"
  by (cases e) (simp add: upd_conv_take_nth_drop edges_edges_nth)

lemma edge_child_set [simp]: "edge_child (set_edge_child e c) = c"
  by (cases e) simp

lemma remove_leaf_path_shrinks:
  "remove_leaf_path node path = (removed, node') \<Longrightarrow> removed \<noteq> 0
    \<Longrightarrow> node_edges node' < node_edges node"
proof (induction node path arbitrary: removed node' rule: remove_leaf_path.induct)
  case (1 node)
  then show ?case by simp
next
  case (2 node i)
  then show ?case
    using edges_edges_nth[of i "children node"] by (cases node) (auto split: if_splits)
next
  case (3 node i j rest)
  obtain es s where node: "node = PrefixNode es s" by (cases node)
  have i: "i < length es" using "3.prems" node by (auto split: if_splits)
  obtain r c' where sub: "remove_leaf_path (edge_child (es ! i)) (j # rest) = (r, c')" by force
  have r: "r \<noteq> 0" using "3.prems" i node sub by (auto simp: Let_def split: if_splits)
  then have less: "node_edges c' < node_edges (edge_child (es ! i))"
    using "3.IH" i node sub by simp
  show ?case
    using "3.prems" i node sub r less
      edges_edges_update[OF i, of "set_edge_child (es ! i) c'"] edges_edges_nth[OF i]
    by (auto simp: Let_def split: if_splits)
qed

function enforce_token_budget :: "prefix_tree \<Rightarrow> nat \<Rightarrow> prefix_tree" where
  "enforce_token_budget tree max_tokens =
     (if resident_tokens tree \<le> max_tokens then tree
      else (case find_coldest_leaf_path (root tree) of
          None \<Rightarrow> tree
        | Some path \<Rightarrow>
            (let (removed, root') = remove_leaf_path (root tree) path in
             if removed = 0 then tree\<lparr>root := root'\<rparr>
             else enforce_token_budget
               (tree\<lparr>root := root', resident_tokens := sat_sub_u64 (resident_tokens tree) removed\<rparr>)
               max_tokens)))"
  by pat_completeness auto
termination
  by (relation "measure (\<lambda>(tree, m). node_edges (root tree))")
    (auto dest!: remove_leaf_path_shrinks[OF sym])

declare enforce_token_budget.simps [simp del]

section \<open>The operations of the tree\<close>

definition prune_expired :: "prefix_tree \<Rightarrow> instant \<Rightarrow> duration \<Rightarrow> prefix_tree" where
  "prune_expired tree now ttl =
     (case prune_node now ttl (root tree) of (removed, root') \<Rightarrow>
        tree\<lparr>root := root', resident_tokens := sat_sub_u64 (resident_tokens tree) removed\<rparr>)"

definition match_prefix ::
  "prefix_tree \<Rightarrow> canonical_token_page list \<Rightarrow> instant \<Rightarrow> duration
     \<Rightarrow> prefix_cache_match \<times> prefix_tree" where
  "match_prefix tree pages now ttl =
     (let tree' = prune_expired tree now ttl in
      case match_walk (root tree') pages now prefix_cache_match_default of (matched, root') \<Rightarrow>
        (matched, tree'\<lparr>root := root'\<rparr>))"

definition insert_pages ::
  "prefix_tree \<Rightarrow> canonical_token_page list \<Rightarrow> instant \<Rightarrow> duration \<Rightarrow> nat \<Rightarrow> prefix_tree" where
  "insert_pages tree pages now ttl max_tokens =
     (let tree' = prune_expired tree now ttl in
      case insert_prefix_path (root tree') pages now of (added, root') \<Rightarrow>
        enforce_token_budget
          (tree'\<lparr>root := root', resident_tokens := sat_add_u64 (resident_tokens tree') added\<rparr>)
          max_tokens)"

text \<open>
  \<open>snapshot_stats\<close>.  The capacity of a vector is decided by the allocator; it and the sizes
  of the structures are arguments.
\<close>

record prefix_tree_runtime_stats =
  st_resident_tokens :: nat
  st_max_tokens :: nat
  st_node_count :: nat
  st_leaf_count :: nat
  st_edge_count :: nat
  st_child_capacity :: nat
  st_estimated_memory_bytes :: nat

fun node_leaves :: "bool \<Rightarrow> prefix_node \<Rightarrow> nat" and edges_leaves :: "prefix_edge list \<Rightarrow> nat" where
  "node_leaves is_root (PrefixNode es s) =
     (if es = [] \<and> \<not> is_root then 1 else edges_leaves es)"
| "edges_leaves [] = 0"
| "edges_leaves (PrefixEdge ps t u c # es) = node_leaves False c + edges_leaves es"

fun node_nodes :: "prefix_node \<Rightarrow> nat" and edges_nodes :: "prefix_edge list \<Rightarrow> nat" where
  "node_nodes (PrefixNode es s) = Suc (edges_nodes es)"
| "edges_nodes [] = 0"
| "edges_nodes (PrefixEdge ps t u c # es) = node_nodes c + edges_nodes es"

fun node_capacity :: "(prefix_node \<Rightarrow> nat) \<Rightarrow> prefix_node \<Rightarrow> nat"
  and edges_capacity :: "(prefix_node \<Rightarrow> nat) \<Rightarrow> prefix_edge list \<Rightarrow> nat" where
  "node_capacity cap (PrefixNode es s) = cap (PrefixNode es s) + edges_capacity cap es"
| "edges_capacity cap [] = 0"
| "edges_capacity cap (PrefixEdge ps t u c # es) = node_capacity cap c + edges_capacity cap es"

fun node_pages :: "prefix_node \<Rightarrow> nat" and edges_page_count :: "prefix_edge list \<Rightarrow> nat" where
  "node_pages (PrefixNode es s) = edges_page_count es"
| "edges_page_count [] = 0"
| "edges_page_count (PrefixEdge ps t u c # es) = length ps + node_pages c + edges_page_count es"

definition estimate_prefix_tree_memory_bytes :: "nat \<Rightarrow> nat \<Rightarrow> nat \<Rightarrow> nat \<Rightarrow> nat \<Rightarrow> nat" where
  "estimate_prefix_tree_memory_bytes node_sz edge_sz page_sz child_capacity page_count =
     sat_add_u64 (sat_add_u64 node_sz (sat_mul_u64 child_capacity edge_sz))
       (sat_mul_u64 page_count page_sz)"

definition snapshot_stats ::
  "(prefix_node \<Rightarrow> nat) \<Rightarrow> nat \<Rightarrow> nat \<Rightarrow> nat \<Rightarrow> prefix_tree \<Rightarrow> nat \<Rightarrow> prefix_tree_runtime_stats" where
  "snapshot_stats cap node_sz edge_sz page_sz tree max_tokens =
     \<lparr>st_resident_tokens = resident_tokens tree, st_max_tokens = max_tokens,
      st_node_count = node_nodes (root tree), st_leaf_count = node_leaves True (root tree),
      st_edge_count = node_edges (root tree), st_child_capacity = node_capacity cap (root tree),
      st_estimated_memory_bytes = estimate_prefix_tree_memory_bytes node_sz edge_sz page_sz
        (node_capacity cap (root tree)) (node_pages (root tree))\<rparr>"

end
