(* ===== verification/PrefixTreeSpec.thy ===== *)
theory PrefixTreeSpec
  imports PrefixTree "HOL-Library.Sublist" "HOL-Library.Multiset"
begin

text \<open>
  What a prefix trie promises.  Seen from outside it is a map that gives every stored
  sequence of page keys the instant it was last touched; the domain is closed under
  prefixes.  This theory has that abstraction (\<open>last_touch\<close>), the well-formedness of the
  representation, and the lemmas on single edges and on the children of one node.
\<close>

section \<open>Abstraction and invariant\<close>

fun last_touch :: "prefix_node \<Rightarrow> u128 list \<Rightarrow> instant option"
  and touch_in :: "prefix_edge list \<Rightarrow> u128 list \<Rightarrow> instant option" where
  "last_touch (PrefixNode es s) ks = touch_in es ks"
| "touch_in [] ks = None"
| "touch_in (PrefixEdge ps t u c # es) ks =
     (if ks \<noteq> [] \<and> prefix ks (page_keys ps) then Some u
      else if prefix (page_keys ps) ks then last_touch c (drop (length ps) ks)
      else touch_in es ks)"

definition edge_touch :: "prefix_edge \<Rightarrow> u128 list \<Rightarrow> instant option" where
  "edge_touch e ks =
     (if ks \<noteq> [] \<and> prefix ks (page_keys (edge_pages e)) then Some (touched e)
      else if prefix (page_keys (edge_pages e)) ks
      then last_touch (edge_child e) (drop (length (edge_pages e)) ks) else None)"

fun wf_node :: "prefix_node \<Rightarrow> bool" and wf_edges :: "prefix_edge list \<Rightarrow> bool" where
  "wf_node (PrefixNode es s) =
     (distinct (map first_page_key es) \<and> (s \<longrightarrow> sorted (map first_page_key es)) \<and> wf_edges es)"
| "wf_edges [] = True"
| "wf_edges (PrefixEdge ps t u c # es) =
     (ps \<noteq> [] \<and> list_all (\<lambda>p. page_tokens p \<noteq> 0) ps \<and> t = prefix_pages_token_count ps
      \<and> wf_node c \<and> wf_edges es)"

text \<open>No edge was touched after its parent, or after \<open>b\<close>.\<close>

fun heap_node :: "instant \<Rightarrow> prefix_node \<Rightarrow> bool"
  and heap_edges :: "instant \<Rightarrow> prefix_edge list \<Rightarrow> bool" where
  "heap_node b (PrefixNode es s) = heap_edges b es"
| "heap_edges b [] = True"
| "heap_edges b (PrefixEdge ps t u c # es) = (u \<le> b \<and> heap_node u c \<and> heap_edges b es)"

fun node_total :: "prefix_node \<Rightarrow> nat" and edges_total :: "prefix_edge list \<Rightarrow> nat" where
  "node_total (PrefixNode es s) = edges_total es"
| "edges_total [] = 0"
| "edges_total (PrefixEdge ps t u c # es) = t + node_total c + edges_total es"

definition wf_edge :: "prefix_edge \<Rightarrow> bool" where
  "wf_edge e = (edge_pages e \<noteq> [] \<and> list_all (\<lambda>p. page_tokens p \<noteq> 0) (edge_pages e)
     \<and> edge_tokens e = prefix_pages_token_count (edge_pages e) \<and> wf_node (edge_child e))"

definition heap_edge :: "instant \<Rightarrow> prefix_edge \<Rightarrow> bool" where
  "heap_edge b e = (touched e \<le> b \<and> heap_node (touched e) (edge_child e))"

definition edge_total :: "prefix_edge \<Rightarrow> nat" where
  "edge_total e = edge_tokens e + node_total (edge_child e)"

lemma wf_edges_iff: "wf_edges es \<longleftrightarrow> (\<forall>e \<in> set es. wf_edge e)"
proof (induction es)
  case (Cons e es)
  then show ?case by (cases e) (auto simp: wf_edge_def)
qed simp

lemma heap_edges_iff: "heap_edges b es \<longleftrightarrow> (\<forall>e \<in> set es. heap_edge b e)"
proof (induction es)
  case (Cons e es)
  then show ?case by (cases e) (auto simp: heap_edge_def)
qed simp

lemma edges_total_sum: "edges_total es = sum_list (map edge_total es)"
proof (induction es)
  case (Cons e es)
  then show ?case by (cases e) (auto simp: edge_total_def)
qed simp

lemma touch_in_Cons:
  "touch_in (e # es) ks =
     (if ks \<noteq> [] \<and> prefix ks (page_keys (edge_pages e)) \<or> prefix (page_keys (edge_pages e)) ks
      then edge_touch e ks else touch_in es ks)"
  by (cases e) (auto simp: edge_touch_def)

lemma node_tokens_total:
  "node_tokens n = min (node_total n) u64_max" "edges_tokens es = min (edges_total es) u64_max"
  by (induction n and es rule: node_tokens_edges_tokens.induct) (auto simp: sat_add_u64_def)

lemma subtree_token_count_total:
  "subtree_token_count_edge e = min (edge_total e) u64_max"
  by (simp add: subtree_token_count_edge_def node_tokens_total sat_add_u64_def edge_total_def)

lemma heap_node_mono: "heap_node b n \<Longrightarrow> b \<le> b' \<Longrightarrow> heap_node b' n"
  by (cases n) (auto simp: heap_edges_iff heap_edge_def)

lemma heap_edge_mono: "heap_edge b e \<Longrightarrow> b \<le> b' \<Longrightarrow> heap_edge b' e"
  by (auto simp: heap_edge_def)

section \<open>Lookup among the children\<close>

lemma first_page_key_hd: "edge_pages e \<noteq> [] \<Longrightarrow> hd (page_keys (edge_pages e)) = first_page_key e"
  by (cases "edge_pages e") (auto simp: first_page_key_def)

lemma prefix_hd: "prefix xs ys \<Longrightarrow> xs \<noteq> [] \<Longrightarrow> hd ys = hd xs"
  by (auto simp: prefix_def)

lemma edge_touch_other:
  assumes "edge_pages e \<noteq> []" "ks \<noteq> []" "hd ks \<noteq> first_page_key e"
  shows "\<not> prefix ks (page_keys (edge_pages e))" "\<not> prefix (page_keys (edge_pages e)) ks"
  using assms prefix_hd[of ks "page_keys (edge_pages e)"]
    prefix_hd[of "page_keys (edge_pages e)" ks] first_page_key_hd[of e] by auto

lemma touch_in_absent:
  assumes "\<forall>e \<in> set es. edge_pages e \<noteq> []" "hd ks \<notin> first_page_key ` set es"
  shows "touch_in es ks = None"
proof (cases "ks = []")
  case True
  have "touch_in es [] = None"
    using assms(1) by (induction es) (auto simp: touch_in_Cons)
  then show ?thesis using True by simp
next
  case False
  from assms show ?thesis
    by (induction es) (auto simp: touch_in_Cons edge_touch_other[OF _ False])
qed

lemma touch_in_present:
  assumes "\<forall>e \<in> set es. edge_pages e \<noteq> []" "distinct (map first_page_key es)" "e \<in> set es"
    and "ks \<noteq> []" "hd ks = first_page_key e"
  shows "touch_in es ks = edge_touch e ks"
  using assms(1-3)
proof (induction es)
  case Nil
  then show ?case by simp
next
  case (Cons e' es)
  show ?case
  proof (cases "e' = e")
    case True
    have "touch_in es ks = None"
      using Cons.prems True assms(5) by (intro touch_in_absent) auto
    then show ?thesis using True by (auto simp: touch_in_Cons edge_touch_def)
  next
    case False
    then have "e \<in> set es" using Cons.prems by simp
    then have "first_page_key e' \<noteq> first_page_key e" using Cons.prems(2) by force
    then show ?thesis
      using Cons \<open>e \<in> set es\<close> edge_touch_other[of e' ks] assms(4,5) by (simp add: touch_in_Cons)
  qed
qed

lemma touch_in_Nil: "\<forall>e \<in> set es. edge_pages e \<noteq> [] \<Longrightarrow> touch_in es [] = None"
  by (induction es) (auto simp: touch_in_Cons)

text \<open>Two lists of well-formed children with the same edges are the same map.\<close>

lemma touch_in_perm:
  assumes "\<forall>e \<in> set es. edge_pages e \<noteq> []" "distinct (map first_page_key es)" "mset es = mset es'"
  shows "touch_in es' = touch_in es"
proof
  fix ks
  have set: "set es' = set es" using assms(3) mset_eq_setD by metis
  have "mset (map first_page_key es) = mset (map first_page_key es')" using assms(3) by simp
  then have dist: "distinct (map first_page_key es')" using assms(2) mset_eq_imp_distinct_iff by blast
  show "touch_in es' ks = touch_in es ks"
  proof (cases "ks \<noteq> [] \<and> hd ks \<in> first_page_key ` set es")
    case True
    then obtain e where "e \<in> set es" "hd ks = first_page_key e" by blast
    then show ?thesis
      using touch_in_present[of es e ks] touch_in_present[of es' e ks] assms dist set True by simp
  next
    case False
    then show ?thesis
      using touch_in_absent[of es ks] touch_in_absent[of es' ks] touch_in_Nil assms(1) set by auto
  qed
qed

lemma position_Some: "position P xs = Some i \<Longrightarrow> i < length xs \<and> P (xs ! i)"
  by (induction xs arbitrary: i) (auto split: if_splits)

lemma position_None: "position P xs = None \<Longrightarrow> x \<in> set xs \<Longrightarrow> \<not> P x"
  by (induction xs) (auto split: if_splits)

lemma binary_search_Some: "binary_search f k lo hi = Some i \<Longrightarrow> lo \<le> i \<and> i < hi \<and> f i = k"
proof (induction f k lo hi rule: binary_search.induct)
  case (1 f k lo hi)
  then show ?case
    by (subst (asm) (3) binary_search.simps) (fastforce simp: Let_def split: if_splits)
qed

lemma binary_search_None:
  assumes "binary_search f k lo hi = None" "\<And>i j. i \<le> j \<Longrightarrow> j < hi \<Longrightarrow> f i \<le> f j"
    and "lo \<le> i" "i < hi"
  shows "f i \<noteq> k"
  using assms
proof (induction f k lo hi rule: binary_search.induct)
  case (1 f k lo hi)
  let ?mid = "lo + (hi - lo) div 2"
  have mid: "?mid < hi" using "1.prems"(3,4) by simp
  show ?case
  proof (cases "f ?mid < k")
    case True
    then have none: "binary_search f k (?mid + 1) hi = None"
      using "1.prems"(1,3,4) by (subst (asm) binary_search.simps) (auto simp: Let_def split: if_splits)
    show ?thesis
    proof (cases "?mid + 1 \<le> i")
      case gt: True
      then show ?thesis
        using "1.IH"(1)[OF _ refl] none "1.prems" True by auto
    next
      case False
      then have "f i \<le> f ?mid" using mid "1.prems"(2) by simp
      then show ?thesis using True by auto
    qed
  next
    case False
    then have ne: "f ?mid \<noteq> k" and none: "binary_search f k lo ?mid = None"
      using "1.prems"(1,3,4)
      by (subst (asm) binary_search.simps; auto simp: Let_def split: if_splits)+
    show ?thesis
    proof (cases "i < ?mid")
      case True
      then show ?thesis
        using "1.IH"(2)[OF _ refl] none ne False "1.prems" mid by auto
    next
      case ge: False
      then have "f ?mid \<le> f i" using "1.prems"(2,4) by simp
      then show ?thesis using False ne by auto
    qed
  qed
qed

text \<open>
  Both lookups, linear and by binary search over lazily sorted children, find the edge that
  starts with the key exactly when there is one; at most the order of the children changes.
\<close>

lemma find_child_edge_index_mset:
  "find_child_edge_index node k = (r, node') \<Longrightarrow> mset (children node') = mset (children node)"
  by (cases node) (auto simp: Let_def split: if_splits)

lemma find_child_edge_index_spec:
  assumes "wf_node node" "find_child_edge_index node k = (r, node')"
  shows "wf_node node'"
    and "r = None \<Longrightarrow> k \<notin> first_page_key ` set (children node)"
    and "r = Some i \<Longrightarrow> i < length (children node') \<and> first_page_key (children node' ! i) = k"
proof -
  obtain es s where node: "node = PrefixNode es s" by (cases node)
  let ?es = "if s then es else sort_key first_page_key es"
  have sorted: "sorted (map first_page_key ?es)" using assms(1) node by simp
  have mono: "first_page_key (?es ! i) \<le> first_page_key (?es ! j)" if "i \<le> j" "j < length ?es" for i j
    using sorted_nth_mono[OF sorted that(1)] that by simp
  have set: "set ?es = set es" by simp
  have "wf_edges ?es" using assms(1) node set by (simp add: wf_edges_iff)
  moreover have "distinct (map first_page_key ?es)"
    using assms(1) node by (simp add: distinct_map)
  ultimately show "wf_node node'"
    using assms node sorted by (auto simp: Let_def split: if_splits)
  show "r = None \<Longrightarrow> k \<notin> first_page_key ` set (children node)"
  proof
    assume "r = None" "k \<in> first_page_key ` set (children node)"
    then obtain e where e: "e \<in> set es" "first_page_key e = k" using node by auto
    show False
    proof (cases "length es < PREFIX_CHILD_SORT_THRESHOLD")
      case True
      then have "position (\<lambda>e. first_page_key e = k) es = None"
        using assms(2) node \<open>r = None\<close> by (simp add: find_child_edge_index_linear_def)
      then show ?thesis using position_None[of _ es e] e by auto
    next
      case False
      obtain j where j: "j < length ?es" "?es ! j = e"
        using e(1) set by (metis in_set_conv_nth)
      have "binary_search (\<lambda>i. first_page_key (?es ! i)) k 0 (length ?es) = None"
        using assms(2) node \<open>r = None\<close> False by (auto simp: Let_def split: if_splits)
      from binary_search_None[OF this, of j] show False
        using mono j e by blast
    qed
  qed
  show "r = Some i \<Longrightarrow> i < length (children node') \<and> first_page_key (children node' ! i) = k"
    using assms(2) node
    by (auto simp: Let_def find_child_edge_index_linear_def split: if_splits
        dest: position_Some binary_search_Some)
qed

section \<open>Edges\<close>

lemma common_prefix_len_simps [simp]:
  "common_prefix_len [] r = 0" "common_prefix_len l [] = 0"
  "common_prefix_len (a # l) (b # r) =
     (if page_key a = page_key b then Suc (common_prefix_len l r) else 0)"
  by (simp_all add: common_prefix_len_def)

lemma common_prefix_len_le:
  "common_prefix_len l r \<le> length l" "common_prefix_len l r \<le> length r"
  by (induction l r rule: list_induct2') auto

lemma common_prefix_len_take:
  "page_keys (take (common_prefix_len l r) l) = page_keys (take (common_prefix_len l r) r)"
  by (induction l r rule: list_induct2') auto

lemma common_prefix_len_stops:
  "common_prefix_len l r < length l \<Longrightarrow> common_prefix_len l r < length r
    \<Longrightarrow> page_key (l ! common_prefix_len l r) \<noteq> page_key (r ! common_prefix_len l r)"
  by (induction l r rule: list_induct2') auto

lemma common_prefix_len_pos:
  "l \<noteq> [] \<Longrightarrow> r \<noteq> [] \<Longrightarrow> page_key (hd l) = page_key (hd r) \<Longrightarrow> common_prefix_len l r \<noteq> 0"
  by (cases l; cases r) auto

lemma prefix_split_left:
  "(ks \<noteq> [] \<and> prefix ks (a @ b)) \<longleftrightarrow>
     (ks \<noteq> [] \<and> prefix ks a) \<or> (prefix a ks \<and> drop (length a) ks \<noteq> [] \<and> prefix (drop (length a) ks) b)"
  by (auto simp: prefix_append elim: prefixE)

lemma prefix_split_right:
  "prefix (a @ b) ks \<longleftrightarrow> prefix a ks \<and> prefix b (drop (length a) ks)"
  by (auto simp: prefix_def)

lemma split_edge_at_touch:
  assumes "n < length (edge_pages e)"
  shows "edge_touch (split_edge_at e n now) ks =
    (if ks \<noteq> [] \<and> prefix ks (page_keys (take n (edge_pages e))) then Some now else edge_touch e ks)"
proof -
  obtain ps t u c where e: "e = PrefixEdge ps t u c" by (cases e)
  let ?a = "page_keys (take n ps)" and ?b = "page_keys (drop n ps)"
  have ab: "page_keys ps = ?a @ ?b" by (metis append_take_drop_id page_keys_simps(3))
  have len: "length ?a = n" "length ps = n + length (drop n ps)" using assms e by simp_all
  let ?tail = "last_touch c (drop (length (drop n ps)) (drop n ks))"
  have old: "edge_touch e ks =
      (if ks \<noteq> [] \<and> prefix ks (?a @ ?b) then Some u
       else if prefix (?a @ ?b) ks then ?tail else None)"
    unfolding ab[symmetric] using assms e by (simp add: edge_touch_def)
  have new: "edge_touch (split_edge_at e n now) ks =
      (if ks \<noteq> [] \<and> prefix ks ?a then Some now
       else if prefix ?a ks
       then (if drop n ks \<noteq> [] \<and> prefix (drop n ks) ?b then Some u
             else if prefix ?b (drop n ks) then ?tail else None) else None)"
    using assms by (simp add: edge_touch_def e min_def)
  show ?thesis
    unfolding old new prefix_split_left[of ks ?a ?b] prefix_split_right[of ?a ?b ks] len(1)
    by (cases "ks = []"; cases "prefix ks ?a"; cases "prefix ?a ks") (use e in auto)
qed

lemma split_edge_at_wf:
  assumes "wf_edge e" "0 < n" "n < length (edge_pages e)"
  shows "wf_edge (split_edge_at e n now)"
  using assms by (cases e) (auto simp: wf_edge_def list_all_iff dest: in_set_takeD in_set_dropD)

lemma split_edge_at_heap: "heap_edge now e \<Longrightarrow> heap_edge now (split_edge_at e n now)"
  by (cases e) (auto simp: heap_edge_def)

lemma split_edge_at_total:
  "wf_edge e \<Longrightarrow> edge_total (split_edge_at e n now) = edge_total e"
  by (cases e) (simp add: edge_total_def wf_edge_def prefix_pages_token_count_take_drop
      flip: add.assoc)

lemma split_edge_at_fields [simp]:
  "edge_pages (split_edge_at e n now) = take n (edge_pages e)"
  "touched (split_edge_at e n now) = now"
  by (cases e; simp)+

lemma touch_edge_fields [simp]:
  "edge_pages (touch_edge e now) = edge_pages e" "edge_tokens (touch_edge e now) = edge_tokens e"
  "touched (touch_edge e now) = now" "edge_child (touch_edge e now) = edge_child e"
  by (cases e; simp)+

lemma set_edge_child_fields [simp]:
  "edge_pages (set_edge_child e c) = edge_pages e" "edge_tokens (set_edge_child e c) = edge_tokens e"
  "touched (set_edge_child e c) = touched e"
  by (cases e; simp)+

lemma prefix_edge_new_fields [simp]:
  "edge_pages (prefix_edge_new ps now) = ps"
  "edge_tokens (prefix_edge_new ps now) = prefix_pages_token_count ps"
  "touched (prefix_edge_new ps now) = now"
  "edge_child (prefix_edge_new ps now) = prefix_node_default"
  by (simp_all add: prefix_edge_new_def)

lemma prefix_node_default_simps [simp]:
  "wf_node prefix_node_default" "heap_node b prefix_node_default"
  "node_total prefix_node_default = 0" "last_touch prefix_node_default ks = None"
  "children prefix_node_default = []"
  by (simp_all add: prefix_node_default_def)

section \<open>Replacing and adding one child\<close>

lemma set_child_wf:
  assumes "wf_node node" "i < length (children node)" "wf_edge e"
    and "first_page_key e = first_page_key (children node ! i)"
  shows "wf_node (set_child node i e)"
proof -
  obtain es s where node: "node = PrefixNode es s" by (cases node)
  have "map first_page_key (es[i := e]) = map first_page_key es"
    using assms(2,4) node by (simp add: map_update list_update_same_conv)
  then show ?thesis
    using assms node set_update_subset_insert[of es i e] by (auto simp: wf_edges_iff)
qed

lemma set_child_heap:
  assumes "heap_node b node" "heap_edge b e"
  shows "heap_node b (set_child node i e)"
  using assms set_update_subset_insert[of "children node" i e]
  by (cases node) (auto simp: heap_edges_iff)

lemma sum_list_update_add:
  "i < length xs \<Longrightarrow> sum_list (xs[i := x]) + xs ! i = sum_list xs + (x :: nat)"
  by (simp add: sum_list_update) (metis elem_le_sum_list le_add1 le_add_diff_inverse2 trans_le_add2
      add.commute ordered_cancel_comm_monoid_diff_class.diff_add_assoc2)

lemma set_child_total:
  assumes "i < length (children node)"
  shows "node_total (set_child node i e) + edge_total (children node ! i)
    = node_total node + edge_total e"
proof -
  obtain es s where node: "node = PrefixNode es s" by (cases node)
  have "sum_list ((map edge_total es)[i := edge_total e]) + map edge_total es ! i
      = sum_list (map edge_total es) + edge_total e"
    using assms node by (intro sum_list_update_add) simp
  then show ?thesis using assms node by (simp add: edges_total_sum map_update)
qed

lemma last_touch_set_child:
  assumes "wf_node node" "i < length (children node)" "edge_pages e \<noteq> []"
    and "first_page_key e = first_page_key (children node ! i)"
  shows "last_touch (set_child node i e) ks =
    (if ks \<noteq> [] \<and> hd ks = first_page_key e then edge_touch e ks else last_touch node ks)"
proof -
  obtain es s where node: "node = PrefixNode es s" by (cases node)
  have ne: "\<forall>e \<in> set es. edge_pages e \<noteq> []" using assms(1) node by (simp add: wf_edges_iff wf_edge_def)
  then have ne': "\<forall>x \<in> set (es[i := e]). edge_pages x \<noteq> []"
    using assms(3) set_update_subset_insert[of es i e] by auto
  have keys: "map first_page_key (es[i := e]) = map first_page_key es"
    using assms(2,4) node by (simp add: map_update list_update_same_conv)
  have dist: "distinct (map first_page_key es)" using assms(1) node by simp
  have mem: "e \<in> set (es[i := e])" using assms(2) node by (simp add: set_update_memI)
  show ?thesis
  proof (cases "ks \<noteq> [] \<and> hd ks = first_page_key e")
    case True
    then show ?thesis
      using touch_in_present[OF ne' _ mem, of ks] dist keys node by simp
  next
    case other: False
    show ?thesis
    proof (cases "ks \<noteq> [] \<and> hd ks \<in> first_page_key ` set es")
      case True
      then obtain x where x: "x \<in> set es" "hd ks = first_page_key x" by blast
      then have "x \<in> set (es[i := e])"
        using other assms(2,4) node True
        by (metis in_set_conv_nth length_list_update nth_list_update_neq prefix_node.sel(1))
      then show ?thesis
        using touch_in_present[OF ne' _ _, of x ks] touch_in_present[OF ne dist x(1), of ks]
          x dist keys node True other by simp
    next
      case False
      have "first_page_key ` set (es[i := e]) = first_page_key ` set es"
        using keys by (metis set_map)
      with False show ?thesis
        using touch_in_absent[OF ne, of ks] touch_in_absent[OF ne', of ks]
          touch_in_Nil[OF ne] touch_in_Nil[OF ne'] node other by auto
    qed
  qed
qed

lemma push_child_wf:
  assumes "wf_node node" "wf_edge e" "first_page_key e \<notin> first_page_key ` set (children node)"
  shows "wf_node (push_child_edge node e)"
  using assms by (cases node) (auto simp: wf_edges_iff)

lemma push_child_heap: "heap_node b node \<Longrightarrow> heap_edge b e \<Longrightarrow> heap_node b (push_child_edge node e)"
  by (cases node) (auto simp: heap_edges_iff)

lemma push_child_total: "node_total (push_child_edge node e) = node_total node + edge_total e"
  by (cases node) (simp add: edges_total_sum)

lemma last_touch_push_child:
  assumes "wf_node node" "edge_pages e \<noteq> []"
    and "first_page_key e \<notin> first_page_key ` set (children node)"
  shows "last_touch (push_child_edge node e) ks =
    (if ks \<noteq> [] \<and> hd ks = first_page_key e then edge_touch e ks else last_touch node ks)"
proof -
  obtain es s where node: "node = PrefixNode es s" by (cases node)
  have ne: "\<forall>e \<in> set es. edge_pages e \<noteq> []" using assms(1) node by (simp add: wf_edges_iff wf_edge_def)
  have "touch_in (es @ [e]) = touch_in (e # es)"
    using assms node ne by (intro touch_in_perm) auto
  moreover have "touch_in es ks = None" if "hd ks = first_page_key e"
    using that assms(3) node by (intro touch_in_absent[OF ne]) simp
  ultimately show ?thesis
    using node assms(2) edge_touch_other[of e ks] touch_in_Nil[OF ne]
    by (auto simp: touch_in_Cons edge_touch_def)
qed

end
