(* ===== verification/PrefixTreeTheorems.thy ===== *)
theory PrefixTreeTheorems
  imports PrefixTreeSpec
begin

text \<open>
  The operations of the trie refine operations on the map \<open>last_touch\<close>: a lookup touches
  the longest stored prefix, an insertion adds and touches every prefix of the pages,
  expiry removes exactly what is older than the time to live, and eviction only removes.
  All of them keep the representation well formed, the touches heap ordered, and the
  resident token count equal to the tokens of the tree.
\<close>

section \<open>One step down\<close>

definition advance_edge :: "prefix_edge \<Rightarrow> nat \<Rightarrow> instant \<Rightarrow> prefix_edge" where
  "advance_edge e n now = (if n < length (edge_pages e) then split_edge_at e n now else touch_edge e now)"

lemma advance_edge_facts:
  assumes "wf_edge e" "0 < n" "n \<le> length (edge_pages e)"
  shows "edge_pages (advance_edge e n now) = take n (edge_pages e)"
    and "touched (advance_edge e n now) = now"
    and "wf_edge (advance_edge e n now)"
    and "edge_total (advance_edge e n now) = edge_total e"
    and "heap_edge now e \<Longrightarrow> heap_edge now (advance_edge e n now)"
    and "edge_touch (advance_edge e n now) ks =
      (if ks \<noteq> [] \<and> prefix ks (page_keys (take n (edge_pages e))) then Some now else edge_touch e ks)"
proof -
  show "wf_edge (advance_edge e n now)"
    using assms split_edge_at_wf by (auto simp: advance_edge_def wf_edge_def)
  show "edge_total (advance_edge e n now) = edge_total e"
    using assms(1) split_edge_at_total by (auto simp: advance_edge_def edge_total_def)
  show "heap_edge now e \<Longrightarrow> heap_edge now (advance_edge e n now)"
    using split_edge_at_heap heap_node_mono by (auto simp: advance_edge_def heap_edge_def)
  show "edge_touch (advance_edge e n now) ks =
      (if ks \<noteq> [] \<and> prefix ks (page_keys (take n (edge_pages e))) then Some now else edge_touch e ks)"
  proof (cases "n < length (edge_pages e)")
    case True
    then show ?thesis by (simp add: advance_edge_def split_edge_at_touch)
  next
    case False
    then show ?thesis using assms(3) by (simp add: advance_edge_def edge_touch_def)
  qed
qed (use assms in \<open>auto simp: advance_edge_def\<close>)

lemma first_page_key_take: "0 < n \<Longrightarrow> edge_pages e' = take n (edge_pages e) \<Longrightarrow> edge_pages e \<noteq> []
    \<Longrightarrow> first_page_key e' = first_page_key e"
  by (simp add: first_page_key_def)

text \<open>Changing the child of an edge touched now.\<close>

lemma set_edge_child_touch:
  assumes "touched e = now"
    and "\<And>ks. last_touch c ks =
      (if ks \<noteq> [] \<and> prefix ks path then Some now else last_touch (edge_child e) ks)"
  shows "edge_touch (set_edge_child e c) ks =
    (if ks \<noteq> [] \<and> prefix ks (page_keys (edge_pages e) @ path) then Some now else edge_touch e ks)"
proof -
  have "length (page_keys (edge_pages e)) = length (edge_pages e)" by simp
  then show ?thesis
    unfolding prefix_split_left[of ks "page_keys (edge_pages e)" path]
    using assms by (auto simp: edge_touch_def)
qed

lemma set_edge_child_inv:
  "wf_edge e \<Longrightarrow> wf_node c \<Longrightarrow> wf_edge (set_edge_child e c)"
  "heap_edge b e \<Longrightarrow> heap_node (touched e) c \<Longrightarrow> heap_edge b (set_edge_child e c)"
  "edge_total (set_edge_child e c) + node_total (edge_child e) = edge_total e + node_total c"
  by (auto simp: wf_edge_def heap_edge_def edge_total_def)

text \<open>The map after the child of a node on the way of \<open>pages\<close> has been replaced.\<close>

lemma last_touch_step:
  assumes "wf_node node" "i < length (children node)" "edge_pages e \<noteq> []"
    and "first_page_key (children node ! i) = page_key (hd pages)"
    and "first_page_key e = page_key (hd pages)" "pages \<noteq> []" "0 < n"
    and "edge_touch e ks = (if ks \<noteq> [] \<and> prefix ks (page_keys (take n pages)) then Some now
           else edge_touch (children node ! i) ks)"
  shows "last_touch (set_child node i e) ks =
    (if ks \<noteq> [] \<and> prefix ks (page_keys (take n pages)) then Some now else last_touch node ks)"
proof (cases "ks \<noteq> [] \<and> hd ks = page_key (hd pages)")
  case True
  obtain es s where node: "node = PrefixNode es s" by (cases node)
  have "last_touch node ks = edge_touch (children node ! i) ks"
    using touch_in_present[of es "es ! i" ks] assms(1,2,4) node True
    by (auto simp: wf_edges_iff wf_edge_def)
  then show ?thesis
    using last_touch_set_child[OF assms(1-3), of ks] assms True by simp
next
  case False
  have "hd (page_keys (take n pages)) = page_key (hd pages)"
    using assms(6,7) by (cases pages; cases n) auto
  then have "\<not> (ks \<noteq> [] \<and> prefix ks (page_keys (take n pages)))"
    using False prefix_hd[of ks "page_keys (take n pages)"] by auto
  then show ?thesis
    using last_touch_set_child[OF assms(1-3), of ks] assms False by auto
qed

lemma same_children_same_map:
  assumes "wf_node node" "wf_node node'" "mset (children node') = mset (children node)"
  shows "last_touch node' ks = last_touch node ks" "heap_node b node' = heap_node b node"
    "node_total node' = node_total node" "set (children node') = set (children node)"
proof -
  obtain es s es' s' where node: "node = PrefixNode es s" "node' = PrefixNode es' s'"
    by (cases node, cases node') blast
  have m: "mset es' = mset es" using assms(3) node by simp
  then have set: "set es' = set es" by (rule mset_eq_setD)
  then show "set (children node') = set (children node)" using node by simp
  show "last_touch node' ks = last_touch node ks"
    using touch_in_perm[of es es'] assms(1) m node by (auto simp: wf_edges_iff wf_edge_def)
  show "heap_node b node' = heap_node b node"
    using set node by (simp add: heap_edges_iff)
  show "node_total node' = node_total node"
    using m node by (simp add: edges_total_sum) (metis mset_map sum_mset_sum_list)
qed

text \<open>What the common prefix of an edge and the pages says about the map.\<close>

lemma common_touch:
  assumes "wf_edge e" "pages \<noteq> []" "first_page_key e = page_key (hd pages)"
  defines "n \<equiv> common_prefix_len (edge_pages e) pages"
  shows "0 < n" "n \<le> length (edge_pages e)" "n \<le> length pages"
    and "page_keys (take n (edge_pages e)) = page_keys (take n pages)"
    and "edge_touch e (page_keys (take n pages)) = Some (touched e)"
    and "n < length (edge_pages e) \<Longrightarrow> n < length pages
           \<Longrightarrow> edge_touch e (page_keys (take (Suc n) pages)) = None"
proof -
  show pos: "0 < n"
    using common_prefix_len_pos[of "edge_pages e" pages] assms
    by (auto simp: wf_edge_def first_page_key_def n_def)
  show le: "n \<le> length (edge_pages e)" "n \<le> length pages"
    by (simp_all add: n_def common_prefix_len_le)
  show same: "page_keys (take n (edge_pages e)) = page_keys (take n pages)"
    by (simp add: n_def common_prefix_len_take)
  have "take n pages \<noteq> []" using pos assms(2) by simp
  moreover have "prefix (page_keys (take n pages)) (page_keys (edge_pages e))"
    unfolding same[symmetric] by (metis page_keys_simps(5) take_is_prefix)
  ultimately show "edge_touch e (page_keys (take n pages)) = Some (touched e)"
    by (simp add: edge_touch_def)
  show "edge_touch e (page_keys (take (Suc n) pages)) = None"
    if lt: "n < length (edge_pages e)" "n < length pages"
  proof -
    let ?l = "page_keys (edge_pages e)" and ?r = "page_keys (take (Suc n) pages)"
    have ne: "?l ! n \<noteq> ?r ! n"
      using common_prefix_len_stops[of "edge_pages e" pages] lt
      by (simp add: n_def[symmetric] page_keys_def)
    have len: "length ?r = Suc n" "n < length ?l" using lt by simp_all
    have "\<not> prefix ?r ?l"
      using ne len by (metis prefix_def nth_append lessI)
    moreover have "\<not> prefix ?l ?r"
      using ne len by (metis prefix_def nth_append)
    ultimately show ?thesis by (simp add: edge_touch_def)
  qed
qed

lemma edge_touch_below:
  assumes "edge_pages e \<noteq> []" "page_keys (edge_pages e) = page_keys (take n pages)"
    and "n \<le> length pages" "drop n pages \<noteq> []" "0 < k"
  shows "edge_touch e (page_keys (take (n + k) pages))
    = last_touch (edge_child e) (page_keys (take k (drop n pages)))"
proof -
  let ?a = "page_keys (edge_pages e)" and ?b = "page_keys (take k (drop n pages))"
  have "page_keys (take (n + k) pages) = ?a @ ?b"
    using assms(2) by (metis page_keys_simps(3) take_add)
  moreover have "?b \<noteq> []" using assms(4,5) by simp
  moreover have "length ?a = length (edge_pages e)" by simp
  ultimately show ?thesis by (auto simp: edge_touch_def prefix_def)
qed

section \<open>Matching\<close>

definition longest_match :: "prefix_node \<Rightarrow> canonical_token_page list \<Rightarrow> nat \<Rightarrow> bool" where
  "longest_match node pages n = (n \<le> length pages
     \<and> (0 < n \<longrightarrow> last_touch node (page_keys (take n pages)) \<noteq> None)
     \<and> (n < length pages \<longrightarrow> last_touch node (page_keys (take (Suc n) pages)) = None))"

definition touch_path ::
  "prefix_node \<Rightarrow> u128 list \<Rightarrow> instant \<Rightarrow> u128 list \<Rightarrow> instant option" where
  "touch_path node path now ks =
     (if ks \<noteq> [] \<and> prefix ks path then Some now else last_touch node ks)"

lemma last_touch_Nil: "wf_node node \<Longrightarrow> last_touch node [] = None"
  by (cases node) (auto simp: wf_edges_iff wf_edge_def intro!: touch_in_Nil)

lemma match_walk_refines:
  assumes "wf_node node" "heap_node now node" "match_walk node pages now acc = (m, node')"
  shows "\<exists>n. longest_match node pages n \<and> matched_pages m = matched_pages acc + n
    \<and> wf_node node' \<and> heap_node now node' \<and> node_total node' = node_total node
    \<and> (\<forall>ks. last_touch node' ks = touch_path node (page_keys (take n pages)) now ks)"
  using assms
proof (induction node pages now acc arbitrary: m node' rule: match_walk.induct)
  case (1 node pages now acc)
  show ?case
  proof (cases pages)
    case Nil
    then show ?thesis
      using "1.prems" by (auto simp: match_walk.simps longest_match_def touch_path_def)
  next
    case (Cons p rest)
    obtain r node1 where find: "find_child_edge_index node (page_key p) = (r, node1)" by force
    note spec = find_child_edge_index_spec[OF "1.prems"(1) find]
    note same = same_children_same_map[OF "1.prems"(1) spec(1) find_child_edge_index_mset[OF find]]
    have heap1: "heap_node now node1" using same(2) "1.prems"(2) by simp
    show ?thesis
    proof (cases r)
      case None
      obtain es s where node: "node = PrefixNode es s" by (cases node)
      have "last_touch node (page_keys (take (Suc 0) pages)) = None"
        using spec(2)[OF None] "1.prems"(1) node Cons
        by (auto simp: wf_edges_iff wf_edge_def intro!: touch_in_absent)
      moreover have "m = acc" "node' = node1"
        using "1.prems"(3) Cons find None by (simp_all add: match_walk.simps[of node])
      ultimately show ?thesis
        using spec(1) same heap1 Cons
        by (intro exI[of _ 0]) (auto simp: longest_match_def touch_path_def)
    next
      case (Some i)
      let ?e = "children node1 ! i"
      note i = spec(3)[OF Some]
      have mem: "?e \<in> set (children node1)" using i by simp
      have e: "wf_edge ?e" "heap_edge now ?e"
        using mem spec(1) heap1 by (cases node1; auto simp: wf_edges_iff heap_edges_iff)+
      have key: "first_page_key ?e = page_key (hd pages)" using i Cons by simp
      have ne: "pages \<noteq> []" using Cons by simp
      let ?n = "common_prefix_len (edge_pages ?e) pages"
      note common = common_touch[OF e(1) ne key]
      let ?acc = "\<lparr>matched_pages = matched_pages acc + ?n, matched_tokens =
        sat_add_u64 (matched_tokens acc) (prefix_pages_token_count (take ?n (edge_pages ?e)))\<rparr>"
      have below: "last_touch node (page_keys (take k pages)) = edge_touch ?e (page_keys (take k pages))"
        if "0 < k" for k
      proof -
        have "hd (page_keys (take k pages)) = first_page_key ?e" "page_keys (take k pages) \<noteq> []"
          using that Cons i by (cases k; simp)+
        then show ?thesis
          using touch_in_present[of "children node1" ?e "page_keys (take k pages)"] spec(1) mem
            same(1)[of "page_keys (take k pages)"]
          by (cases node1) (auto simp: wf_edges_iff wf_edge_def)
      qed
      show ?thesis
      proof (cases "?n < length (edge_pages ?e)")
        case True
        have res: "m = ?acc" "node' = set_child node1 i (advance_edge ?e ?n now)"
          using "1.prems"(3) Cons find Some common(1) True
          by (simp_all add: match_walk.simps[of node] Let_def advance_edge_def)
        let ?e' = "advance_edge ?e ?n now"
        note adv = advance_edge_facts[OF e(1) common(1,2), of now]
        have key': "first_page_key ?e' = page_key (hd pages)"
          using first_page_key_take[OF common(1) adv(1)] e(1) key by (simp add: wf_edge_def)
        have "longest_match node pages ?n"
          using common below[of ?n] below[of "Suc ?n"] True by (simp add: longest_match_def)
        moreover have "wf_node node'"
          unfolding res using i key key' by (intro set_child_wf[OF spec(1) _ adv(3)]) simp_all
        moreover have "heap_node now node'"
          unfolding res using adv(5)[OF e(2)] by (intro set_child_heap heap1)
        moreover have "node_total node' = node_total node"
          using set_child_total[of i node1 ?e'] i adv(4) same(3) by (simp add: res)
        moreover have "last_touch node' ks = touch_path node (page_keys (take ?n pages)) now ks" for ks
          unfolding res touch_path_def same(1)[symmetric]
          by (rule last_touch_step) (use spec(1) i key key' ne common adv(1,6) e(1) in
              \<open>simp_all add: wf_edge_def\<close>)
        ultimately show ?thesis using res by (intro exI[of _ ?n]) simp
      next
        case False
        then have full: "?n = length (edge_pages ?e)" using common(2) by simp
        obtain m1 c' where rec: "match_walk (edge_child ?e) (drop ?n pages) now ?acc = (m1, c')" by force
        let ?e1 = "advance_edge ?e ?n now"
        let ?e' = "set_edge_child ?e1 c'"
        have touch: "?e1 = touch_edge ?e now" using full by (simp add: advance_edge_def)
        have res: "m = m1" "node' = set_child node1 i ?e'"
          unfolding touch using "1.prems"(3) Cons find Some common(1) False rec
          by (simp_all add: match_walk.simps[of node] Let_def)
        have child: "wf_node (edge_child ?e)" "heap_node now (edge_child ?e)"
          using e heap_node_mono by (auto simp: wf_edge_def heap_edge_def)
        obtain k where k: "longest_match (edge_child ?e) (drop ?n pages) k"
          "matched_pages m1 = matched_pages acc + ?n + k" "wf_node c'" "heap_node now c'"
          "node_total c' = node_total (edge_child ?e)"
          "\<And>ks. last_touch c' ks = touch_path (edge_child ?e) (page_keys (take k (drop ?n pages))) now ks"
          using "1.IH"[OF Cons find[symmetric] Some refl refl _ refl False child rec] common(1) by auto
        note adv = advance_edge_facts[OF e(1) common(1,2), of now]
        have keys: "page_keys (edge_pages ?e) = page_keys (take ?n pages)"
          using common(4) full by simp
        have longest: "longest_match node pages (?n + k)"
        proof -
          have "last_touch node (page_keys (take (?n + j) pages))
              = last_touch (edge_child ?e) (page_keys (take j (drop ?n pages)))"
            if "0 < j" "drop ?n pages \<noteq> []" for j
            using below[of "?n + j"] edge_touch_below[OF _ keys common(3) that(2,1)] common(1) e(1)
            by (simp add: wf_edge_def)
          note down = this
          show ?thesis
            using k(1) common(3) common(5) below[of ?n] common(1) down[of k] down[of "Suc k"]
            by (cases "k = 0"; cases "drop ?n pages = []") (auto simp: longest_match_def)
        qed
        have key': "first_page_key ?e' = page_key (hd pages)"
          unfolding touch using key by (simp add: first_page_key_def)
        have "wf_edge ?e'" "heap_edge now ?e'"
          using set_edge_child_inv(1)[OF adv(3) k(3)] set_edge_child_inv(2)[OF adv(5)[OF e(2)]] k(4) adv(2)
          by simp_all
        moreover from this have "wf_node node'" "heap_node now node'"
          unfolding res using i key key' spec(1) heap1 by (simp_all add: set_child_wf set_child_heap)
        moreover have "node_total node' = node_total node"
          using set_child_total[of i node1 ?e'] set_edge_child_inv(3)[of ?e1 c'] i adv(4) same(3) k(5)
          by (simp add: res touch)
        moreover have "last_touch node' ks = touch_path node (page_keys (take (?n + k) pages)) now ks" for ks
        proof -
          have "edge_touch ?e' ks =
              (if ks \<noteq> [] \<and> prefix ks (page_keys (edge_pages ?e1) @ page_keys (take k (drop ?n pages)))
               then Some now else edge_touch ?e1 ks)"
            by (rule set_edge_child_touch) (simp_all add: adv(2) k(6) touch_path_def touch)
          moreover have "page_keys (edge_pages ?e1) @ page_keys (take k (drop ?n pages))
              = page_keys (take (?n + k) pages)"
            using keys adv(1) full by (metis page_keys_simps(3) take_add take_all order_refl)
          moreover have "prefix ks (page_keys (take ?n (edge_pages ?e)))
              \<Longrightarrow> prefix ks (page_keys (take (?n + k) pages))"
            using common(4) by (metis page_keys_simps(3) prefix_prefix take_add)
          ultimately have "edge_touch ?e' ks =
              (if ks \<noteq> [] \<and> prefix ks (page_keys (take (?n + k) pages)) then Some now
               else edge_touch ?e ks)"
            unfolding adv(6) by auto
          then show ?thesis
            unfolding res touch_path_def same(1)[symmetric]
            by (intro last_touch_step) (use spec(1) i key key' ne common(1) e(1) touch in
                \<open>simp_all add: wf_edge_def\<close>)
        qed
        ultimately show ?thesis using longest k(2) res by (intro exI[of _ "?n + k"]) simp
      qed
    qed
  qed
qed

end
