(* ===== verification/PrefixTreeInsert.thy ===== *)
theory PrefixTreeInsert
  imports PrefixTreeTheorems
begin

text \<open>
  Insertion and expiry of the trie on the map \<open>last_touch\<close>, and the token counts of a match.
\<close>

section \<open>Insertion\<close>

lemma insert_prefix_path_refines:
  assumes "wf_node node" "heap_node now node" "list_all (\<lambda>p. page_tokens p \<noteq> 0) pages"
    and "insert_prefix_path node pages now = (added, node')"
  shows "wf_node node' \<and> heap_node now node'
    \<and> (\<exists>a. added = min a u64_max \<and> node_total node' = node_total node + a
          \<and> a \<le> prefix_pages_token_count pages)
    \<and> (\<forall>ks. last_touch node' ks = touch_path node (page_keys pages) now ks)"
  using assms
proof (induction node pages now arbitrary: added node' rule: insert_prefix_path.induct)
  case (1 node pages now)
  show ?case
  proof (cases pages)
    case Nil
    then show ?thesis
      using "1.prems" by (auto simp: insert_prefix_path.simps touch_path_def)
  next
    case (Cons p rest)
    obtain r node1 where find: "find_child_edge_index node (page_key p) = (r, node1)" by force
    note spec = find_child_edge_index_spec[OF "1.prems"(1) find]
    note same = same_children_same_map[OF "1.prems"(1) spec(1) find_child_edge_index_mset[OF find]]
    have heap1: "heap_node now node1" using same(2) "1.prems"(2) by simp
    have ne: "pages \<noteq> []" using Cons by simp
    show ?thesis
    proof (cases r)
      case None
      let ?e = "prefix_edge_new pages now"
      have res: "added = min (edge_total ?e) u64_max" "node' = push_child_edge node1 ?e"
        using "1.prems"(4) Cons find None
        by (simp_all add: insert_prefix_path.simps[of node] sat_add_u64_def edge_total_def)
      have e: "wf_edge ?e" "heap_edge now ?e"
        using ne "1.prems"(3) by (auto simp: wf_edge_def heap_edge_def)
      have key: "first_page_key ?e \<notin> first_page_key ` set (children node1)"
        using spec(2)[OF None] same(4) Cons by (simp add: first_page_key_def)
      have absent: "last_touch node1 ks = None" if "hd ks = first_page_key ?e" for ks
      proof -
        obtain es s where "node1 = PrefixNode es s" by (cases node1)
        then show ?thesis
          using touch_in_absent[of es ks] spec(1) key that by (simp add: wf_edges_iff wf_edge_def)
      qed
      have "last_touch node' ks = touch_path node (page_keys pages) now ks" for ks
      proof (cases "ks \<noteq> [] \<and> hd ks = first_page_key ?e")
        case True
        then show ?thesis
          using last_touch_push_child[OF spec(1) _ key, of ks] ne absent[of ks] same(1)[of ks]
          by (simp add: res touch_path_def edge_touch_def)
      next
        case False
        then show ?thesis
          using last_touch_push_child[OF spec(1) _ key, of ks] ne same(1)[of ks]
            prefix_hd[of ks "page_keys pages"] first_page_key_hd[of ?e]
          by (auto simp: res touch_path_def)
      qed
      then show ?thesis
        using push_child_wf[OF spec(1) e(1) key] push_child_heap[OF heap1 e(2)]
          push_child_total[of node1 ?e] same(3) res by (auto simp: edge_total_def)
    next
      case (Some i)
      let ?e = "children node1 ! i"
      note i = spec(3)[OF Some]
      have mem: "?e \<in> set (children node1)" using i by simp
      have e: "wf_edge ?e" "heap_edge now ?e"
        using mem spec(1) heap1 by (cases node1; auto simp: wf_edges_iff heap_edges_iff)+
      have key: "first_page_key ?e = page_key (hd pages)" using i Cons by simp
      let ?n = "common_prefix_len (edge_pages ?e) pages"
      note common = common_touch[OF e(1) ne key]
      let ?e1 = "advance_edge ?e ?n now"
      note adv = advance_edge_facts[OF e(1) common(1,2), of now]
      have key1: "first_page_key ?e1 = page_key (hd pages)"
        using first_page_key_take[OF common(1) adv(1)] e(1) key by (simp add: wf_edge_def)
      have ne1: "edge_pages ?e1 \<noteq> []" using adv(3) by (simp add: wf_edge_def)
      show ?thesis
      proof (cases "length pages \<le> ?n")
        case True
        then have all: "?n = length pages" using common(3) by simp
        have res: "added = 0" "node' = set_child node1 i ?e1"
          using "1.prems"(4) Cons find Some common(1) True
          by (simp_all add: insert_prefix_path.simps[of node] Let_def advance_edge_def)
        have "last_touch node' ks = touch_path node (page_keys pages) now ks" for ks
          unfolding res touch_path_def same(1)[symmetric]
          using last_touch_step[OF spec(1) _ ne1, of i pages ?n ks now] i key key1 ne common(1)
            adv(6)[of ks] common(4) all by simp
        moreover have "wf_node node'" "heap_node now node'" "node_total node' = node_total node"
          using set_child_wf[OF spec(1) _ adv(3)] set_child_heap[OF heap1 adv(5)[OF e(2)]]
            set_child_total[of i node1 ?e1] i key key1 adv(4) same(3) by (simp_all add: res)
        ultimately show ?thesis using res by (auto intro!: exI[of _ 0])
      next
        case False
        obtain a c' where rec: "insert_prefix_path (edge_child ?e1) (drop ?n pages) now = (a, c')" by force
        let ?e' = "set_edge_child ?e1 c'"
        have res: "added = a" "node' = set_child node1 i ?e'"
          using "1.prems"(4) Cons find Some common(1) False rec
          by (simp_all add: insert_prefix_path.simps[of node] Let_def advance_edge_def split: if_splits)
        have child: "wf_node (edge_child ?e1)" "heap_node now (edge_child ?e1)"
          using adv(3) adv(5)[OF e(2)] adv(2) by (simp_all add: wf_edge_def heap_edge_def)
        have toks: "list_all (\<lambda>p. page_tokens p \<noteq> 0) (drop ?n pages)"
          using "1.prems"(3) by (auto simp: list_all_iff dest: in_set_dropD)
        have IH: "wf_node c' \<and> heap_node now c'
            \<and> (\<exists>b. a = min b u64_max \<and> node_total c' = node_total (edge_child ?e1) + b
                  \<and> b \<le> prefix_pages_token_count (drop ?n pages))
            \<and> (\<forall>ks. last_touch c' ks = touch_path (edge_child ?e1) (page_keys (drop ?n pages)) now ks)"
          using "1.IH"[OF Cons refl find[symmetric] Some refl refl _ refl _ , folded advance_edge_def,
              OF _ _ child toks rec] common(1) False by simp
        then obtain b where b: "a = min b u64_max" "node_total c' = node_total (edge_child ?e1) + b"
          "b \<le> prefix_pages_token_count (drop ?n pages)"
          by blast
        have "b \<le> prefix_pages_token_count pages"
          using prefix_pages_token_count_take_drop[of ?n pages] b(3) by simp
        note b = b(1,2) this
        have key': "first_page_key ?e' = page_key (hd pages)" and ne': "edge_pages ?e' \<noteq> []"
          using key1 ne1 by (simp_all add: first_page_key_def)
        have inv: "wf_edge ?e'" "heap_edge now ?e'"
          using set_edge_child_inv(1)[OF adv(3)] set_edge_child_inv(2)[OF adv(5)[OF e(2)]] IH adv(2)
          by simp_all
        have total: "edge_total ?e' = edge_total ?e + b"
          using set_edge_child_inv(3)[of ?e1 c'] b(2) adv(4) by simp
        have joined: "page_keys (edge_pages ?e1) @ page_keys (drop ?n pages) = page_keys pages"
          using adv(1) common(4) by (metis append_take_drop_id page_keys_simps(3))
        have "edge_touch ?e' ks = (if ks \<noteq> [] \<and> prefix ks (page_keys pages) then Some now
              else edge_touch ?e ks)" for ks
        proof -
          have "edge_touch ?e' ks = (if ks \<noteq> [] \<and> prefix ks (page_keys (edge_pages ?e1) @
              page_keys (drop ?n pages)) then Some now else edge_touch ?e1 ks)"
            using IH adv(2) by (intro set_edge_child_touch) (simp_all add: touch_path_def)
          moreover have "prefix ks (page_keys (take ?n (edge_pages ?e))) \<Longrightarrow> prefix ks (page_keys pages)"
            using joined adv(1) by (metis prefix_prefix)
          ultimately show ?thesis unfolding joined adv(6) by auto
        qed
        then have "last_touch node' ks = touch_path node (page_keys pages) now ks" for ks
          unfolding res touch_path_def same(1)[symmetric]
          using last_touch_step[OF spec(1) _ ne', of i pages "length pages" ks now] i key key' ne by simp
        moreover have "wf_node node'" "heap_node now node'" "node_total node' = node_total node + b"
          using set_child_wf[OF spec(1) _ inv(1)] set_child_heap[OF heap1 inv(2)]
            set_child_total[of i node1 ?e'] i key key' total same(3) by (simp_all add: res)
        ultimately show ?thesis using res b by auto
      qed
    qed
  qed
qed

section \<open>Expiry\<close>

lemma heap_last_touch:
  "heap_node b n \<Longrightarrow> last_touch n ks = Some t \<Longrightarrow> t \<le> b"
  "heap_edges b es \<Longrightarrow> touch_in es ks = Some t \<Longrightarrow> t \<le> b"
proof (induction n ks and es ks arbitrary: b t and b t rule: last_touch_touch_in.induct)
  case (3 ps u' u c es ks)
  then show ?case by (fastforce split: if_splits)
qed auto

lemma heap_edge_touch: "heap_edge b e \<Longrightarrow> edge_touch e ks = Some t \<Longrightarrow> t \<le> touched e"
  using heap_last_touch(1)[of "touched e" "edge_child e" "drop (length (edge_pages e)) ks" t]
  by (auto simp: edge_touch_def heap_edge_def split: if_splits)

definition fresh_touch :: "instant \<Rightarrow> duration \<Rightarrow> instant option \<Rightarrow> instant option" where
  "fresh_touch now ttl t =
     (case t of Some u \<Rightarrow> if ttl < duration_since now u then None else Some u | None \<Rightarrow> None)"

lemma fresh_touch_simps [simp]: "fresh_touch now ttl None = None"
  by (simp add: fresh_touch_def)

lemma subseq_set: "subseq xs ys \<Longrightarrow> set xs \<subseteq> set ys"
  by (induction rule: list_emb.induct) auto

lemma subseq_distinct: "subseq xs ys \<Longrightarrow> distinct ys \<Longrightarrow> distinct xs"
  by (induction rule: list_emb.induct) (auto dest: subseq_set)

lemma subseq_sorted: "subseq xs ys \<Longrightarrow> sorted ys \<Longrightarrow> sorted xs"
  by (induction rule: list_emb.induct) (auto dest: subseq_set)

lemma duration_since_antimono: "a \<le> b \<Longrightarrow> duration_since now b \<le> duration_since now a"
  by (simp add: duration_since_def)

lemma prune_refines:
  "prune_node now ttl n = (r, n') \<Longrightarrow> wf_node n \<Longrightarrow> heap_node b n \<Longrightarrow>
     wf_node n' \<and> heap_node b n' \<and> (\<exists>k. r = min k u64_max \<and> node_total n = node_total n' + k)
     \<and> (\<forall>ks. last_touch n' ks = fresh_touch now ttl (last_touch n ks))"
  "prune_edges now ttl es = (r, es') \<Longrightarrow> wf_edges es \<Longrightarrow> distinct (map first_page_key es)
     \<Longrightarrow> heap_edges b es \<Longrightarrow>
     wf_edges es' \<and> heap_edges b es' \<and> (\<exists>k. r = min k u64_max \<and> edges_total es = edges_total es' + k)
     \<and> subseq (map first_page_key es') (map first_page_key es)
     \<and> (\<forall>ks. touch_in es' ks = fresh_touch now ttl (touch_in es ks))"
proof (induction now ttl n and now ttl es arbitrary: r n' b and r es' b
    rule: prune_node_prune_edges.induct)
  case (1 now ttl es s)
  obtain es1 where es1: "prune_edges now ttl es = (r, es1)" "n' = PrefixNode es1 s"
    using "1.prems"(1) by (auto split: prod.splits)
  have "wf_edges es" "distinct (map first_page_key es)" "heap_edges b es"
    using "1.prems" by simp_all
  note IH = "1.IH"[OF es1(1) this]
  have "distinct (map first_page_key es1)"
    using IH \<open>distinct (map first_page_key es)\<close> subseq_distinct by blast
  moreover have "s \<longrightarrow> sorted (map first_page_key es1)"
    using IH "1.prems"(2) by (auto intro: subseq_sorted)
  ultimately show ?case using IH es1(2) by auto
next
  case (2 now ttl)
  then show ?case by auto
next
  case (3 now ttl ps t u c es)
  let ?e = "PrefixEdge ps t u c"
  obtain r1 c' where c': "prune_node now ttl c = (r1, c')" by force
  obtain r2 es2 where es2: "prune_edges now ttl es = (r2, es2)" by force
  have wf: "wf_node c" "wf_edges es" "distinct (map first_page_key es)" "heap_node u c" "heap_edges b es"
    using "3.prems" by auto
  note IH1 = "3.IH"(1)[OF c' wf(1,4)]
  note IH2 = "3.IH"(2)[OF c'[symmetric] es2 wf(2,3,5)]
  obtain k1 where k1: "r1 = min k1 u64_max" "node_total c = node_total c' + k1" using IH1 by blast
  obtain k2 where k2: "r2 = min k2 u64_max" "edges_total es = edges_total es2 + k2" using IH2 by blast
  have ne: "\<forall>x \<in> set es. edge_pages x \<noteq> []" using wf(2) by (auto simp: wf_edges_iff wf_edge_def)
  have e_ne: "edge_pages ?e \<noteq> []" using "3.prems"(2) by simp
  have absent: "touch_in es ks = None" if "hd ks = first_page_key ?e" for ks
    using that "3.prems"(3) by (intro touch_in_absent[OF ne]) auto
  have split_ks: "touch_in (?e # es) ks =
      (if ks \<noteq> [] \<and> hd ks = first_page_key ?e then edge_touch ?e ks else touch_in es ks)" for ks
    using edge_touch_other[OF e_ne, of ks] absent[of ks] touch_in_Nil[OF ne] e_ne
    by (auto simp: touch_in_Cons edge_touch_def)
  show ?case
  proof (cases "ttl < duration_since now u")
    case True
    have res: "r = min (k1 + (t + node_total c') + k2) u64_max" "es' = es2"
      using "3.prems"(1) c' es2 True k1(1) k2(1)
      by (auto simp: subtree_token_count_total edge_total_def sat_add_u64_min)
    have expired: "fresh_touch now ttl (edge_touch ?e ks) = None" for ks
    proof (cases "edge_touch ?e ks")
      case (Some t')
      have "heap_edge b ?e" using "3.prems"(4) by (simp add: heap_edge_def)
      from heap_edge_touch[OF this Some] have "t' \<le> u" by simp
      then have "ttl < duration_since now t'"
        using True duration_since_antimono[of t' u now] by simp
      then show ?thesis using Some by (simp add: fresh_touch_def)
    qed simp
    have "touch_in es' ks = fresh_touch now ttl (touch_in (?e # es) ks)" for ks
      using IH2 split_ks[of ks] expired[of ks] absent[of ks] res(2) by (auto simp del: touch_in.simps)
    moreover have "subseq (map first_page_key es2) (map first_page_key (?e # es))"
      using IH2 by auto
    ultimately show ?thesis
      using IH2 res k1(2) k2(2) by (auto simp del: touch_in.simps)
  next
    case False
    let ?e' = "PrefixEdge ps t u c'"
    have res: "r = min (k1 + k2) u64_max" "es' = ?e' # es2"
      using "3.prems"(1) c' es2 False k1(1) k2(1) by (auto simp: sat_add_u64_min)
    have e': "edge_touch ?e' ks = fresh_touch now ttl (edge_touch ?e ks)" for ks
      using IH1 False by (auto simp: edge_touch_def fresh_touch_def)
    have key: "first_page_key ?e' = first_page_key ?e" by (simp add: first_page_key_def)
    have "touch_in es' ks = fresh_touch now ttl (touch_in (?e # es) ks)" for ks
    proof (cases "ks \<noteq> [] \<and> hd ks = first_page_key ?e")
      case True
      have "touch_in es2 ks = None" using IH2 absent[of ks] True by simp
      then show ?thesis
        using True split_ks[of ks] e'[of ks] res(2)
        by (simp add: touch_in_Cons del: touch_in.simps) (auto simp: edge_touch_def)
    next
      case other: False
      have "touch_in es' ks = touch_in es2 ks"
      proof (cases "ks = []")
        case True
        then show ?thesis using res(2) e_ne by simp
      next
        case False
        then show ?thesis
          using edge_touch_other[of ?e' ks] other e_ne key res(2) by (simp add: touch_in_Cons del: touch_in.simps)
      qed
      then show ?thesis using IH2 split_ks[of ks] other by (auto simp del: touch_in.simps)
    qed
    then show ?thesis
      using IH1 IH2 res k1(2) k2(2) "3.prems" key by (auto simp del: touch_in.simps)
  qed
qed

end
