(* ===== verification/PrefixTreeEviction.thy ===== *)
theory PrefixTreeEviction
  imports PrefixTreeInsert
begin

text \<open>
  Eviction: the path found leads to a leaf that no stored edge is older than, removing it
  only removes, and enforcing a budget ends with the resident tokens inside it.
\<close>

section \<open>Leaves\<close>

fun leaf_touch :: "prefix_node \<Rightarrow> nat list \<Rightarrow> instant option" where
  "leaf_touch node [] = None"
| "leaf_touch node [i] =
     (if i < length (children node) \<and> children (edge_child (children node ! i)) = []
      then Some (touched (children node ! i)) else None)"
| "leaf_touch node (i # j # path) =
     (if i < length (children node) then leaf_touch (edge_child (children node ! i)) (j # path) else None)"

definition edge_leaf :: "prefix_edge \<Rightarrow> nat list \<Rightarrow> instant option" where
  "edge_leaf e path =
     (if path = [] then (if children (edge_child e) = [] then Some (touched e) else None)
      else leaf_touch (edge_child e) path)"

lemma leaf_touch_Cons:
  "leaf_touch node (i # path) =
     (if i < length (children node) then edge_leaf (children node ! i) path else None)"
  by (cases path) (auto simp: edge_leaf_def)

lemma leaf_touch_no_children: "children node = [] \<Longrightarrow> leaf_touch node path = None"
  by (cases path) (auto simp: leaf_touch_Cons)

text \<open>The result of the search: the best so far or a leaf, and not younger than any of them.\<close>

definition coldest_ok ::
  "(instant \<times> nat list) option \<Rightarrow> (instant \<times> nat list) option
     \<Rightarrow> nat list \<Rightarrow> (nat list \<Rightarrow> instant option) \<Rightarrow> bool" where
  "coldest_ok res best path leaf =
     ((\<forall>t p. res = Some (t, p) \<longrightarrow> best = Some (t, p) \<or> (\<exists>q. p = path @ q \<and> leaf q = Some t))
      \<and> (\<forall>q u. leaf q = Some u \<longrightarrow> (\<exists>t p. res = Some (t, p) \<and> t \<le> u))
      \<and> (\<forall>u p'. best = Some (u, p') \<longrightarrow> (\<exists>t p. res = Some (t, p) \<and> t \<le> u)))"

definition edges_leaf :: "prefix_edge list \<Rightarrow> nat \<Rightarrow> nat list \<Rightarrow> instant option" where
  "edges_leaf es i q = (case q of [] \<Rightarrow> None
     | j # q' \<Rightarrow> if i \<le> j \<and> j < i + length es then edge_leaf (es ! (j - i)) q' else None)"

lemma edges_leaf_children: "edges_leaf (children node) 0 q = leaf_touch node q"
  by (cases q) (auto simp: edges_leaf_def leaf_touch_Cons)

lemma edges_leaf_Cons:
  "edges_leaf (e # es) i q = (case q of [] \<Rightarrow> None
     | j # q' \<Rightarrow> if j = i then edge_leaf e q' else edges_leaf es (Suc i) q)"
  by (auto simp: edges_leaf_def nth_Cons' split: list.splits)

lemma coldest_ok_first:
  "coldest_ok (coldest_node (PrefixNode [] s) (Some t) path best) best path
     (\<lambda>q. if q = [] then Some t else None)"
  by (auto simp: coldest_ok_def split: option.splits)

lemma coldest_ok_trans:
  assumes "coldest_ok r1 best (path @ [i]) (edge_leaf e)" "coldest_ok r2 r1 path (edges_leaf es (Suc i))"
  shows "coldest_ok r2 best path (edges_leaf (e # es) i)"
proof -
  have older: "\<exists>t' p'. r2 = Some (t', p') \<and> t' \<le> u" if "r1 = Some (t, p)" "t \<le> u" for t p u
    using assms(2) that unfolding coldest_ok_def by (blast intro: order_trans)
  show ?thesis
  unfolding coldest_ok_def
proof (intro conjI allI impI)
  fix t p assume "r2 = Some (t, p)"
  then consider "r1 = Some (t, p)" | q where "p = path @ q" "edges_leaf es (Suc i) q = Some t"
    using assms(2) by (auto simp: coldest_ok_def)
  then show "best = Some (t, p) \<or> (\<exists>q. p = path @ q \<and> edges_leaf (e # es) i q = Some t)"
  proof cases
    case 1
    then consider "best = Some (t, p)" | q where "p = path @ i # q" "edge_leaf e q = Some t"
      using assms(1) by (auto simp: coldest_ok_def)
    then show ?thesis
      by cases (auto simp: edges_leaf_Cons intro!: exI[of _ "i # q" for q])
  next
    case 2
    then have "edges_leaf (e # es) i q = Some t"
      by (auto simp: edges_leaf_Cons edges_leaf_def split: list.splits if_splits)
    with 2 show ?thesis by blast
  qed
next
  fix q u assume leaf: "edges_leaf (e # es) i q = Some u"
  then consider q' where "q = i # q'" "edge_leaf e q' = Some u" | "edges_leaf es (Suc i) q = Some u"
    by (auto simp: edges_leaf_Cons split: list.splits if_splits)
  then show "\<exists>t p. r2 = Some (t, p) \<and> t \<le> u"
  proof cases
    case 1
    then obtain t p where "r1 = Some (t, p)" "t \<le> u"
      using assms(1) unfolding coldest_ok_def by blast
    then show ?thesis by (rule older)
  next
    case 2
    then show ?thesis using assms(2) by (auto simp: coldest_ok_def)
  qed
next
  fix u p' assume "best = Some (u, p')"
  then obtain t p where "r1 = Some (t, p)" "t \<le> u" using assms(1) by (auto simp: coldest_ok_def)
  then show "\<exists>t p. r2 = Some (t, p) \<and> t \<le> u" by (rule older)
qed
qed

lemma coldest_correct:
  "incoming = None \<or> (\<exists>t. incoming = Some t) \<Longrightarrow>
   coldest_ok (coldest_node n incoming path best) best path
     (case incoming of None \<Rightarrow> leaf_touch n
      | Some t \<Rightarrow> (\<lambda>q. if q = [] then (if children n = [] then Some t else None) else leaf_touch n q))"
  "coldest_ok (coldest_edges es i path best) best path (edges_leaf es i)"
proof (induction n incoming path best and es i path best rule: coldest_node_coldest_edges.induct)
  case (1 es s incoming path best)
  show ?case
  proof (cases "es = []")
    case True
    have "leaf_touch (PrefixNode [] s) q = None" for q
      by (simp add: leaf_touch_no_children)
    then show ?thesis
      using True coldest_ok_first[of s _ path best]
      by (cases incoming) (auto simp: coldest_ok_def split: option.splits)
  next
    case False
    have "coldest_ok (coldest_edges es 0 path best) best path (edges_leaf es 0)"
      using "1.IH"[OF False] .
    moreover have "edges_leaf es 0 = leaf_touch (PrefixNode es s)"
      using edges_leaf_children[of "PrefixNode es s"] by (intro ext) simp
    moreover have "(\<lambda>q. if q = [] then None else leaf_touch (PrefixNode es s) q)
        = leaf_touch (PrefixNode es s)"
      by (rule ext) simp
    ultimately show ?thesis
      using False by (cases incoming) simp_all
  qed
next
  case (2 i path best)
  then show ?case by (auto simp: coldest_ok_def edges_leaf_def split: list.splits)
next
  case (3 ps t u c es i path best)
  have "edge_leaf (PrefixEdge ps t u c) = (\<lambda>q. if q = [] then (if children c = [] then Some u else None)
      else leaf_touch c q)"
    by (rule ext) (simp add: edge_leaf_def)
  then have "coldest_ok (coldest_node c (Some u) (path @ [i]) best) best (path @ [i])
      (edge_leaf (PrefixEdge ps t u c))"
    using "3.IH"(1) by simp
  from coldest_ok_trans[OF this "3.IH"(2)] show ?case by simp
qed

section \<open>Heap order and leaves\<close>

text \<open>Below every edge there is a leaf, and it is not younger.\<close>

lemma leaf_below:
  "heap_node b n \<Longrightarrow> children n \<noteq> [] \<Longrightarrow> \<exists>q u. leaf_touch n q = Some u"
  "heap_edges b es \<Longrightarrow> \<forall>e \<in> set es. \<exists>q u. edge_leaf e q = Some u \<and> u \<le> touched e"
proof (induction b n and b es rule: heap_node_heap_edges.induct)
  case (1 b es s)
  then obtain q u where "edge_leaf (es ! 0) q = Some u" by (cases es) auto
  then show ?case using "1.prems" by (intro exI[of _ "0 # q"]) (auto simp: leaf_touch_Cons)
next
  case (2 b)
  then show ?case by simp
next
  case (3 b ps t u c es)
  have "\<exists>q v. edge_leaf (PrefixEdge ps t u c) q = Some v \<and> v \<le> u"
  proof (cases "children c = []")
    case True
    then show ?thesis by (intro exI[of _ "[]"]) (auto simp: edge_leaf_def)
  next
    case False
    obtain q v where q: "leaf_touch c q = Some v" using "3.IH"(1) "3.prems" False by auto
    have bound: "w \<le> b'" if "heap_node b' n" "leaf_touch n q = Some w" for b' n q w
      using that
    proof (induction n q arbitrary: b' rule: leaf_touch.induct)
      case (2 node i)
      then have "children node ! i \<in> set (children node)" by (auto split: if_splits)
      then show ?case
        using 2 by (cases node) (auto simp: heap_edges_iff heap_edge_def split: if_splits)
    next
      case (3 node i j path)
      then have mem: "children node ! i \<in> set (children node)" by (auto split: if_splits)
      then have "heap_edge b' (children node ! i)"
        using "3.prems"(1) by (cases node) (auto simp: heap_edges_iff)
      then show ?case
        using 3 heap_node_mono by (fastforce simp: heap_edge_def split: if_splits)
    qed simp
    have "q \<noteq> []" using q by (cases q) auto
    then show ?thesis
      using q bound[of u c q v] "3.prems" by (intro exI[of _ q]) (auto simp: edge_leaf_def)
  qed
  then show ?case using "3.IH"(2) "3.prems" by auto
qed

lemma coldest_below_touch:
  "wf_node n \<Longrightarrow> heap_node b n \<Longrightarrow> last_touch n ks = Some t \<Longrightarrow> (\<And>q u. leaf_touch n q = Some u \<Longrightarrow> v \<le> u) \<Longrightarrow> v \<le> t"
proof (induction "length ks" arbitrary: b n ks rule: less_induct)
  case less
  obtain es s where n: "n = PrefixNode es s" by (cases n)
  have all: "\<exists>e \<in> set es. edge_touch e ks = Some t" if "touch_in es ks = Some t"
    using that by (induction es) (auto simp: touch_in_Cons split: if_splits)
  then obtain e where e: "e \<in> set es" "edge_touch e ks = Some t" using less.prems(3) n by auto
  obtain i where i: "i < length es" "es ! i = e" using e(1) by (metis in_set_conv_nth)
  have he: "heap_edges b es" "heap_edge b e" using less.prems(2) n e(1) by (auto simp: heap_edges_iff)
  have leaf: "edge_leaf e q = Some u \<Longrightarrow> v \<le> u" for q u
    using less.prems(4)[of "i # q" u] i n by (simp add: leaf_touch_Cons)
  have root: "v \<le> touched e"
    using leaf_below(2)[OF he(1)] e(1) leaf by (meson order_trans)
  show ?case
  proof (cases "ks \<noteq> [] \<and> prefix ks (page_keys (edge_pages e))")
    case True
    then show ?thesis using root e(2) by (simp add: edge_touch_def)
  next
    case False
    then have below: "prefix (page_keys (edge_pages e)) ks"
      "last_touch (edge_child e) (drop (length (edge_pages e)) ks) = Some t"
      using e(2) by (auto simp: edge_touch_def split: if_splits)
    have wf: "edge_pages e \<noteq> []" "wf_node (edge_child e)"
      using less.prems(1) n e(1) by (auto simp: wf_edges_iff wf_edge_def)
    have "ks \<noteq> []" using less.prems(1,3) last_touch_Nil by auto
    then have shorter: "length (drop (length (edge_pages e)) ks) < length ks" using wf(1) by simp
    have leaf': "v \<le> u" if "leaf_touch (edge_child e) q = Some u" for q u
      using leaf[of q u] that by (cases q) (auto simp: edge_leaf_def)
    have "heap_node (touched e) (edge_child e)" using he(2) by (simp add: heap_edge_def)
    from less.hyps[OF shorter wf(2) this below(2) leaf'] show ?thesis .
  qed
qed

text \<open>The path that is evicted: a leaf, and no stored sequence was touched before it.\<close>

lemma find_coldest_leaf_path_Some:
  assumes "wf_node n" "heap_node b n" "find_coldest_leaf_path n = Some path"
  shows "\<exists>u. leaf_touch n path = Some u \<and> (\<forall>ks t. last_touch n ks = Some t \<longrightarrow> u \<le> t)"
proof -
  obtain u where u: "coldest_node n None [] None = Some (u, path)"
    using assms(3) by (auto simp: find_coldest_leaf_path_def)
  have ok: "coldest_ok (coldest_node n None [] None) None [] (leaf_touch n)"
    using coldest_correct(1)[of None n "[]" None] by simp
  have "leaf_touch n path = Some u" using ok u by (auto simp: coldest_ok_def)
  moreover have "u \<le> v" if "leaf_touch n q = Some v" for q v
    using ok u that by (auto simp: coldest_ok_def)
  ultimately show ?thesis using coldest_below_touch[OF assms(1,2)] by blast
qed

lemma find_coldest_leaf_path_None:
  assumes "heap_node b n" "find_coldest_leaf_path n = None"
  shows "children n = []"
proof (rule ccontr)
  assume "children n \<noteq> []"
  then obtain q u where "leaf_touch n q = Some u" using leaf_below(1)[OF assms(1)] by blast
  moreover have "coldest_ok (coldest_node n None [] None) None [] (leaf_touch n)"
    using coldest_correct(1)[of None n "[]" None] by simp
  ultimately show False
    using assms(2) by (auto simp: coldest_ok_def find_coldest_leaf_path_def)
qed

section \<open>Removal\<close>

lemma wf_edge_total_pos: "wf_edge e \<Longrightarrow> 0 < edge_total e"
  by (cases "edge_pages e")
    (auto simp: wf_edge_def edge_total_def unat_gt_0)

lemma remove_child_facts:
  assumes "wf_node n" "i < length (children n)"
  shows "wf_node (remove_child n i)" "heap_node b n \<Longrightarrow> heap_node b (remove_child n i)"
    and "node_total n = node_total (remove_child n i) + edge_total (children n ! i)"
    and "last_touch (remove_child n i) ks = (if ks \<noteq> [] \<and> hd ks = first_page_key (children n ! i)
           then None else last_touch n ks)"
proof -
  obtain es s where n: "n = PrefixNode es s" by (cases n)
  let ?e = "es ! i" and ?es = "take i es @ drop (Suc i) es"
  have split: "es = take i es @ ?e # drop (Suc i) es"
    using assms(2) n by (simp add: id_take_nth_drop)
  have ms: "mset es = mset (?e # ?es)" by (subst split) simp
  then have set: "set es = insert ?e (set ?es)" by (metis mset_eq_setD list.simps(15))
  have sub: "subseq ?es es"
  proof -
    have "subseq ?es (take i es @ ?e # drop (Suc i) es)"
      by (rule list_emb_append_mono) auto
    then show ?thesis using split by simp
  qed
  have ne: "\<forall>x \<in> set es. edge_pages x \<noteq> []"
    using assms(1) n by (auto simp: wf_edges_iff wf_edge_def)
  have dist: "distinct (map first_page_key es)" using assms(1) n by simp
  have subk: "subseq (map first_page_key ?es) (map first_page_key es)" using sub by (rule subseq_map)
  show "wf_node (remove_child n i)"
    using assms(1) n set subseq_distinct[OF subk] subseq_sorted[OF subk]
    by (auto simp: wf_edges_iff simp flip: map_append)
  show "heap_node b n \<Longrightarrow> heap_node b (remove_child n i)"
    using n set by (auto simp: heap_edges_iff)
  show "node_total n = node_total (remove_child n i) + edge_total (children n ! i)"
    using n by (subst (1) n, subst split) (simp add: edges_total_sum)
  have "mset (map first_page_key es) = mset (map first_page_key (?e # ?es))" using ms by simp
  then have dist': "distinct (map first_page_key (?e # ?es))"
    using dist mset_eq_imp_distinct_iff by blast
  have perm: "touch_in es = touch_in (?e # ?es)"
    using touch_in_perm[OF ne dist ms] by simp
  have absent: "touch_in ?es ks = None" if "hd ks = first_page_key ?e"
    using that dist' ne set by (intro touch_in_absent) auto
  show "last_touch (remove_child n i) ks = (if ks \<noteq> [] \<and> hd ks = first_page_key (children n ! i)
           then None else last_touch n ks)"
  proof (cases "ks = []")
    case True
    have "\<forall>x \<in> set ?es. edge_pages x \<noteq> []" using ne set by blast
    then show ?thesis using True n touch_in_Nil[OF ne] touch_in_Nil[of ?es] by simp
  next
    case False
    have "edge_pages ?e \<noteq> []" using ne set by blast
    then show ?thesis
      using False n perm absent edge_touch_other[of ?e ks] by (auto simp: touch_in_Cons)
  qed
qed

lemma remove_leaf_path_refines:
  "remove_leaf_path n path = (r, n') \<Longrightarrow> wf_node n \<Longrightarrow> heap_node b n \<Longrightarrow>
     wf_node n' \<and> heap_node b n'
     \<and> (\<exists>k. r = min k u64_max \<and> node_total n = node_total n' + k)
     \<and> (\<forall>ks. last_touch n' ks = None \<or> last_touch n' ks = last_touch n ks)
     \<and> (leaf_touch n path \<noteq> None \<longrightarrow> r \<noteq> 0)"
proof (induction n path arbitrary: r n' b rule: remove_leaf_path.induct)
  case (1 node)
  then show ?case by (auto intro: exI[of _ 0])
next
  case (2 node i)
  show ?case
  proof (cases "i < length (children node)")
    case False
    then show ?thesis using "2.prems" by (auto intro: exI[of _ 0])
  next
    case True
    have "wf_edge (children node ! i)"
      using "2.prems"(2) True by (cases node) (auto simp: wf_edges_iff)
    from wf_edge_total_pos[OF this] show ?thesis
      using "2.prems" True remove_child_facts[OF "2.prems"(2) True]
      by (auto simp: subtree_token_count_total u64_max_def)
  qed
next
  case (3 node i j rest)
  show ?case
  proof (cases "i < length (children node)")
    case False
    then show ?thesis using "3.prems" by (auto intro: exI[of _ 0])
  next
    case True
    let ?e = "children node ! i"
    obtain q c' where sub: "remove_leaf_path (edge_child ?e) (j # rest) = (q, c')" by force
    have mem: "?e \<in> set (children node)" using True by simp
    have e: "wf_edge ?e" "heap_edge b ?e"
      using "3.prems"(2,3) mem by (cases node; auto simp: wf_edges_iff heap_edges_iff)+
    have IH: "wf_node c' \<and> heap_node (touched ?e) c'
        \<and> (\<exists>k. q = min k u64_max \<and> node_total (edge_child ?e) = node_total c' + k)
        \<and> (\<forall>ks. last_touch c' ks = None \<or> last_touch c' ks = last_touch (edge_child ?e) ks)
        \<and> (leaf_touch (edge_child ?e) (j # rest) \<noteq> None \<longrightarrow> q \<noteq> 0)"
      using "3.IH"[of ?e q c' "touched ?e"] True sub e by (simp add: wf_edge_def heap_edge_def)
    then obtain k where k: "q = min k u64_max" "node_total (edge_child ?e) = node_total c' + k" by blast
    have leaf: "leaf_touch node (i # j # rest) \<noteq> None \<longrightarrow> q \<noteq> 0"
      using IH True by simp
    show ?thesis
    proof (cases "q \<noteq> 0 \<and> children c' = []")
      case False
      let ?e' = "set_edge_child ?e c'"
      have res: "r = q" "n' = set_child node i ?e'"
        using "3.prems"(1) True sub False by (auto simp: Let_def split: if_splits)
      have e': "wf_edge ?e'" "heap_edge b ?e'" "edge_total ?e = edge_total ?e' + k"
        using set_edge_child_inv(1)[OF e(1)] set_edge_child_inv(2)[OF e(2)] IH
          set_edge_child_inv(3)[of ?e c'] k(2) by simp_all
      have key: "first_page_key ?e' = first_page_key ?e" by (simp add: first_page_key_def)
      have ne: "edge_pages ?e' \<noteq> []" using e(1) by (simp add: wf_edge_def)
      have "edge_touch ?e' ks = None \<or> edge_touch ?e' ks = edge_touch ?e ks" for ks
        using IH by (auto simp: edge_touch_def)
      moreover have "last_touch node ks = edge_touch ?e ks" if "ks \<noteq> []" "hd ks = first_page_key ?e" for ks
        using that touch_in_present[of "children node" ?e ks] mem "3.prems"(2)
        by (cases node) (auto simp: wf_edges_iff wf_edge_def)
      ultimately have "last_touch n' ks = None \<or> last_touch n' ks = last_touch node ks" for ks
        using last_touch_set_child[OF "3.prems"(2) True ne key, of ks] key by (auto simp: res)
      moreover have "wf_node n'" "heap_node b n'" "node_total node = node_total n' + k"
        using set_child_wf[OF "3.prems"(2) True e'(1) key] set_child_heap[OF "3.prems"(3) e'(2)]
          set_child_total[OF True, of ?e'] e'(3) by (simp_all add: res)
      ultimately show ?thesis using res(1) k(1) leaf by auto
    next
      case True': True
      have res: "r = sat_add_u64 q (edge_tokens ?e)" "n' = remove_child node i"
        using "3.prems"(1) True sub True' by (auto simp: Let_def split: if_splits)
      have "node_total c' = 0" using True' by (cases c') simp
      then have "edge_total ?e = k + edge_tokens ?e" using k(2) by (simp add: edge_total_def)
      moreover have "r = min (k + edge_tokens ?e) u64_max"
        using res(1) k(1) by (simp add: sat_add_u64_def)
      moreover have "r \<noteq> 0"
        using res(1) True' by (simp add: sat_add_u64_def u64_max_def)
      ultimately show ?thesis
        using remove_child_facts[OF "3.prems"(2) True] "3.prems"(3) res(2) by auto
    qed
  qed
qed

section \<open>The token budget\<close>

definition tree_ok :: "instant \<Rightarrow> prefix_tree \<Rightarrow> bool" where
  "tree_ok now tree = (wf_node (root tree) \<and> heap_node now (root tree)
     \<and> resident_tokens tree = node_total (root tree) \<and> resident_tokens tree \<le> u64_max)"

definition tree_touch :: "prefix_tree \<Rightarrow> u128 list \<Rightarrow> instant option" where
  "tree_touch tree = last_touch (root tree)"

lemma enforce_token_budget_refines:
  "tree_ok now tree \<Longrightarrow>
     tree_ok now (enforce_token_budget tree m)
     \<and> resident_tokens (enforce_token_budget tree m) \<le> m
     \<and> (\<forall>ks. tree_touch (enforce_token_budget tree m) ks = None
          \<or> tree_touch (enforce_token_budget tree m) ks = tree_touch tree ks)
     \<and> (resident_tokens tree \<le> m \<longrightarrow> enforce_token_budget tree m = tree)"
proof (induction tree m rule: enforce_token_budget.induct)
  case (1 tree m)
  show ?case
  proof (cases "resident_tokens tree \<le> m")
    case True
    then show ?thesis using "1.prems" by (simp add: enforce_token_budget.simps[of tree])
  next
    case False
    note ok = "1.prems"[unfolded tree_ok_def]
    show ?thesis
    proof (cases "find_coldest_leaf_path (root tree)")
      case None
      then have "children (root tree) = []" using find_coldest_leaf_path_None ok by blast
      then have "node_total (root tree) = 0" by (cases "root tree") simp
      then show ?thesis using False ok by simp
    next
      case (Some path)
      obtain r root' where rm: "remove_leaf_path (root tree) path = (r, root')" by force
      have "leaf_touch (root tree) path \<noteq> None"
        using find_coldest_leaf_path_Some Some ok by blast
      then obtain k where k: "wf_node root'" "heap_node now root'" "r = min k u64_max"
          "node_total (root tree) = node_total root' + k" "r \<noteq> 0"
          "\<And>ks. last_touch root' ks = None \<or> last_touch root' ks = last_touch (root tree) ks"
        using remove_leaf_path_refines[OF rm, of now] ok by blast
      have "r = k" using k(3,4) ok by simp
      let ?tree = "tree\<lparr>root := root', resident_tokens := sat_sub_u64 (resident_tokens tree) r\<rparr>"
      have step: "enforce_token_budget tree m = enforce_token_budget ?tree m"
        using False Some rm k(5) by (simp add: enforce_token_budget.simps[of tree])
      have "tree_ok now ?tree"
        using k ok \<open>r = k\<close> by (simp add: tree_ok_def)
      then have IH: "tree_ok now (enforce_token_budget ?tree m)
          \<and> resident_tokens (enforce_token_budget ?tree m) \<le> m
          \<and> (\<forall>ks. tree_touch (enforce_token_budget ?tree m) ks = None
            \<or> tree_touch (enforce_token_budget ?tree m) ks = tree_touch ?tree ks)"
        using "1.IH"[OF False Some rm[symmetric] refl k(5)] by blast
      have "tree_touch ?tree ks = None \<or> tree_touch ?tree ks = tree_touch tree ks" for ks
        using k(6)[of ks] by (simp add: tree_touch_def)
      then show ?thesis unfolding step using IH False by metis
    qed
  qed
qed

end
