(* ===== verification/SnapshotWire.thy ===== *)
theory SnapshotWire
  imports CachePages
begin

text \<open>
  The snapshot codec of \<open>crates/llm-access-kiro/src/cache_sim/snapshot.rs\<close>: the
  bounds-checked reader, LEB128 varints with zigzag for signed values, the header and the
  compressed frame.  A reader is the bytes it has left.  \<open>u64\<close> values are natural numbers
  below \<open>2 ^ 64\<close>, with the shift of the source as \<open>take_bit 64 (push_bit s x)\<close>.
\<close>

datatype snapshot_error =
    Incompatible
  | Malformed
  | ChecksumMismatch
  | Compression string

type_synonym snapshot_reader = "byte list"

section \<open>The reader\<close>

definition reader_remaining :: "snapshot_reader \<Rightarrow> nat" where
  "reader_remaining r = length r"

definition read_bytes :: "nat \<Rightarrow> snapshot_reader \<Rightarrow> snapshot_error + (byte list \<times> snapshot_reader)" where
  "read_bytes n r = (if n \<le> length r then Inr (take n r, drop n r) else Inl Malformed)"

definition read_u8 :: "snapshot_reader \<Rightarrow> snapshot_error + (byte \<times> snapshot_reader)" where
  "read_u8 r = (case read_bytes 1 r of Inl e \<Rightarrow> Inl e | Inr (bs, r') \<Rightarrow> Inr (bs ! 0, r'))"

definition read_u128_le :: "snapshot_reader \<Rightarrow> snapshot_error + (u128 \<times> snapshot_reader)" where
  "read_u128_le r =
     (case read_bytes 16 r of Inl e \<Rightarrow> Inl e | Inr (bs, r') \<Rightarrow> Inr (word_of_nat (le_nat bs), r'))"

lemma read_u8_Cons: "read_u8 (b # r) = Inr (b, r)"
  by (simp add: read_u8_def read_bytes_def)

lemma read_u8_Nil: "read_u8 [] = Inl Malformed"
  by (simp add: read_u8_def read_bytes_def)

lemma read_u8_shorter: "read_u8 r = Inr (b, r') \<Longrightarrow> length r' < length r"
  by (cases r) (auto simp: read_u8_Cons read_u8_Nil)

lemma read_bytes_append: "length bs = n \<Longrightarrow> read_bytes n (bs @ r) = Inr (bs, r)"
  by (simp add: read_bytes_def)

section \<open>Varints\<close>

text \<open>The loop of \<open>read_varint\<close>, with the value and the shift reached so far.\<close>

function read_varint_loop ::
  "nat \<Rightarrow> nat \<Rightarrow> snapshot_reader \<Rightarrow> snapshot_error + (nat \<times> snapshot_reader)" where
  "read_varint_loop value shift r =
     (case read_u8 r of
        Inl e \<Rightarrow> Inl e
      | Inr (b, r') \<Rightarrow>
          (if 64 \<le> shift then Inl Malformed
           else (let chunk = unat b mod 128; shifted = take_bit 64 (push_bit shift chunk) in
             if drop_bit shift shifted \<noteq> chunk then Inl Malformed
             else (let value' = or value shifted in
               if unat b < 128 then Inr (value', r')
               else read_varint_loop value' (shift + 7) r'))))"
  by pat_completeness auto
termination
  by (relation "measure (\<lambda>(v, s, r). length r)") (auto dest: read_u8_shorter)

declare read_varint_loop.simps [simp del]

definition read_varint :: "snapshot_reader \<Rightarrow> snapshot_error + (nat \<times> snapshot_reader)" where
  "read_varint r = read_varint_loop 0 0 r"

function write_varint :: "nat \<Rightarrow> byte list" where
  "write_varint value =
     (if value div 128 = 0 then [word_of_nat (value mod 128)]
      else word_of_nat (value mod 128 + 128) # write_varint (value div 128))"
  by pat_completeness auto
termination by (relation "measure (\<lambda>v. v)") auto

declare write_varint.simps [simp del]

definition zigzag_encode :: "64 word \<Rightarrow> 64 word" where
  "zigzag_encode v = xor (push_bit 1 v) (signed_drop_bit 63 v)"

definition zigzag_decode :: "64 word \<Rightarrow> 64 word" where
  "zigzag_decode v = xor (drop_bit 1 v) (- (and v 1))"

definition write_zigzag :: "64 word \<Rightarrow> byte list" where
  "write_zigzag v = write_varint (unat (zigzag_encode v))"

definition read_zigzag :: "snapshot_reader \<Rightarrow> snapshot_error + (64 word \<times> snapshot_reader)" where
  "read_zigzag r =
     (case read_varint r of Inl e \<Rightarrow> Inl e | Inr (v, r') \<Rightarrow> Inr (zigzag_decode (word_of_nat v), r'))"

lemma read_varint_loop_shorter:
  "read_varint_loop v s r = Inr (x, r') \<Longrightarrow> length r' < length r"
proof (induction v s r rule: read_varint_loop.induct)
  case (1 v s r)
  then show ?case
    by (subst (asm) (2) read_varint_loop.simps)
      (fastforce simp: Let_def dest: read_u8_shorter split: sum.splits if_splits prod.splits)
qed

lemma read_varint_shorter: "read_varint r = Inr (x, r') \<Longrightarrow> length r' < length r"
  by (auto simp: read_varint_def intro: read_varint_loop_shorter)

lemma or_disjoint_add: "(v :: nat) < 2 ^ s \<Longrightarrow> or v (push_bit s c) = v + push_bit s c"
proof -
  assume v: "v < 2 ^ s"
  have "\<not> (bit v n \<and> bit (push_bit s c) n)" for n
  proof
    assume b: "bit v n \<and> bit (push_bit s c) n"
    then have "s \<le> n" by (simp add: bit_push_bit_iff)
    then have "v < 2 ^ n" using v by (meson less_le_trans one_le_numeral power_increasing)
    then show False using b by (simp add: bit_iff_odd)
  qed
  then show ?thesis
    by (intro disjunctive_add_eq_or[symmetric] bit_eqI) (auto simp: bit_and_iff)
qed

lemma drop_push_bit [simp]: "drop_bit s (push_bit s (c :: nat)) = c"
  by (simp add: push_bit_eq_mult drop_bit_eq_div)

lemma read_varint_loop_write:
  assumes "v < 2 ^ s" "v + n * 2 ^ s < 2 ^ 64" "s < 64"
  shows "read_varint_loop v s (write_varint n @ r) = Inr (v + n * 2 ^ s, r)"
  using assms
proof (induction n arbitrary: v s rule: write_varint.induct)
  case (1 n)
  have chunk_le: "(n mod 128) * 2 ^ s \<le> n * 2 ^ s" by simp
  then have fits: "(n mod 128) * 2 ^ s < 2 ^ 64" using "1.prems"(2) by linarith
  then have shifted: "take_bit 64 (push_bit s (n mod 128)) = push_bit s (n mod 128)"
    by (simp add: take_bit_nat_eq_self push_bit_eq_mult)
  have or_add: "or v (push_bit s (n mod 128)) = v + (n mod 128) * 2 ^ s"
    using or_disjoint_add[OF "1.prems"(1)] by (simp add: push_bit_eq_mult)
  show ?case
  proof (cases "n div 128 = 0")
    case True
    then have small: "n < 128" by simp
    then have b: "unat (word_of_nat n :: byte) = n" by (simp add: unat_of_nat)
    have "read_varint_loop v s (word_of_nat n # r) = Inr (v + n * 2 ^ s, r)"
      using "1.prems"(3) shifted or_add small b
      by (subst read_varint_loop.simps) (simp add: read_u8_Cons Let_def)
    then show ?thesis using True small by (simp add: write_varint.simps[of n])
  next
    case False
    let ?b = "word_of_nat (n mod 128 + 128) :: byte"
    have b: "unat ?b = n mod 128 + 128"
      by (simp only: unat_of_nat) (simp add: mod_less)
    have n: "n = n div 128 * 128 + n mod 128" by simp
    have pos: "1 \<le> n div 128" using False by simp
    have eq: "v + n * 2 ^ s = v + (n mod 128) * 2 ^ s + (n div 128) * 2 ^ (s + 7)"
    proof -
      have "n * 2 ^ s = (n mod 128) * 2 ^ s + (n div 128 * 128) * 2 ^ s"
        using n by (metis add.commute distrib_right)
      then show ?thesis by (simp add: power_add)
    qed
    have "2 ^ (s + 7) \<le> (n div 128) * (2 :: nat) ^ (s + 7)" using pos by simp
    then have "(2 :: nat) ^ (s + 7) < 2 ^ 64" using eq "1.prems"(2) by linarith
    then have s: "s + 7 < 64" by (simp only: power_strict_increasing_iff)
    have v': "v + (n mod 128) * 2 ^ s < 2 ^ (s + 7)"
    proof -
      have "(n mod 128) * 2 ^ s \<le> 127 * 2 ^ s" by simp
      then have "v + (n mod 128) * 2 ^ s < 128 * 2 ^ s" using "1.prems"(1) by linarith
      then show ?thesis by (simp add: power_add)
    qed
    have rec: "read_varint_loop (v + (n mod 128) * 2 ^ s) (s + 7) (write_varint (n div 128) @ r)
        = Inr (v + (n mod 128) * 2 ^ s + (n div 128) * 2 ^ (s + 7), r)"
      using "1.IH"[OF False v' _ s] "1.prems"(2) eq by simp
    have "read_varint_loop v s (?b # write_varint (n div 128) @ r)
        = read_varint_loop (v + (n mod 128) * 2 ^ s) (s + 7) (write_varint (n div 128) @ r)"
      using "1.prems"(3) shifted or_add b
      by (subst read_varint_loop.simps) (simp add: read_u8_Cons Let_def)
    then show ?thesis using False rec eq by (simp add: write_varint.simps[of n])
  qed
qed

lemma read_write_varint [byte_codec]:
  "n < 2 ^ 64 \<Longrightarrow> read_varint (write_varint n @ r) = Inr (n, r)"
  using read_varint_loop_write[of 0 0 n r] by (simp add: read_varint_def)

lemma signed_drop_63: "signed_drop_bit 63 v = (if bit v 63 then - 1 else 0)" for v :: "64 word"
  by (rule bit_word_eqI) (auto simp: bit_signed_drop_bit_iff min_def not_less Suc_le_eq)

lemma and_one_bit: "and w 1 = (if bit w 0 then 1 else 0)" for w :: "64 word"
  by (simp add: and_one_eq mod_2_eq_odd bit_0)

lemma bit_shift_one: "bit (push_bit 1 v) n \<longleftrightarrow> 1 \<le> n \<and> n < 64 \<and> bit v (n - 1)" for v :: "64 word"
  unfolding bit_push_bit_iff by (auto dest: bit_imp_le_length)

lemma zigzag_round [byte_codec]: "zigzag_decode (zigzag_encode v) = v"
proof (rule bit_word_eqI)
  fix n assume n: "n < LENGTH(64)"
  define w where "w = push_bit 1 v"
  have w: "bit w n \<longleftrightarrow> 1 \<le> n \<and> n < 64 \<and> bit v (n - 1)" for n
    unfolding w_def by (rule bit_shift_one)
  show "bit (zigzag_decode (zigzag_encode v)) n = bit v n"
    unfolding zigzag_decode_def zigzag_encode_def signed_drop_63 and_one_bit w_def[symmetric]
    using n by (cases "n = 63") (auto simp: bit_xor_iff bit_drop_bit_eq bit_minus_1_iff w)
qed

lemma read_write_zigzag [byte_codec]: "read_zigzag (write_zigzag v @ r) = Inr (v, r)"
proof -
  have "unat (zigzag_encode v) < 2 ^ LENGTH(64)" by (rule unsigned_less)
  then show ?thesis
    by (simp add: read_zigzag_def write_zigzag_def read_write_varint zigzag_round)
qed

section \<open>Header and frame\<close>

definition MAGIC :: "byte list" where
  "MAGIC = str_bytes ''KCS1''"

definition FORMAT_VERSION :: nat where
  "FORMAT_VERSION = 1"

definition HEADER_LEN :: nat where
  "HEADER_LEN = 24"

definition MAX_COMPRESSED_SNAPSHOT_BYTES :: nat where
  "MAX_COMPRESSED_SNAPSHOT_BYTES = 64 * 1024 * 1024"

definition MAX_DECOMPRESSED_SNAPSHOT_BYTES :: nat where
  "MAX_DECOMPRESSED_SNAPSHOT_BYTES = 128 * 1024 * 1024"

record snapshot_header =
  snapshot_unix_ms :: "64 word"
  header_resident_tokens :: "64 word"

definition header_write :: "snapshot_header \<Rightarrow> byte list" where
  "header_write h = MAGIC @ le_bytes 2 FORMAT_VERSION @ le_bytes 2 PREFIX_CACHE_PAGE_SIZE
     @ le_bytes 8 (unat (snapshot_unix_ms h)) @ le_bytes 8 (unat (header_resident_tokens h))"

definition slice :: "nat \<Rightarrow> nat \<Rightarrow> 'a list \<Rightarrow> 'a list" where
  "slice a b xs = take (b - a) (drop a xs)"

definition header_parse :: "byte list \<Rightarrow> snapshot_error + snapshot_header" where
  "header_parse bytes =
     (if length bytes < HEADER_LEN then Inl Malformed
      else if slice 0 4 bytes \<noteq> MAGIC then Inl Incompatible
      else if le_nat (slice 4 6 bytes) \<noteq> FORMAT_VERSION
           \<or> le_nat (slice 6 8 bytes) \<noteq> PREFIX_CACHE_PAGE_SIZE then Inl Incompatible
      else Inr \<lparr>snapshot_unix_ms = word_of_nat (le_nat (slice 8 16 bytes)),
                header_resident_tokens = word_of_nat (le_nat (slice 16 24 bytes))\<rparr>)"

text \<open>
  Gzip and CRC-32 are third-party: the compressor and the decompressor are arguments, as is
  the checksum.  The decompressor is asked for at most one byte more than the bound, as
  \<open>take(limit)\<close> does.
\<close>

definition gzip_decompress ::
  "(nat \<Rightarrow> byte list \<Rightarrow> string + byte list) \<Rightarrow> byte list \<Rightarrow> nat \<Rightarrow> snapshot_error + byte list" where
  "gzip_decompress gunzip_limit blob max_decompressed =
     (case gunzip_limit (sat_add_u64 max_decompressed 1) blob of
        Inl msg \<Rightarrow> Inl (Compression msg)
      | Inr out \<Rightarrow> (if max_decompressed < length out then Inl Malformed else Inr out))"

definition gzip_compress :: "(byte list \<Rightarrow> string + byte list) \<Rightarrow> byte list \<Rightarrow> snapshot_error + byte list" where
  "gzip_compress gzip raw = (case gzip raw of Inl msg \<Rightarrow> Inl (Compression msg) | Inr blob \<Rightarrow> Inr blob)"

definition finalize_frame ::
  "(byte list \<Rightarrow> u32) \<Rightarrow> (byte list \<Rightarrow> string + byte list) \<Rightarrow> byte list \<Rightarrow> snapshot_error + byte list" where
  "finalize_frame crc gzip raw = gzip_compress gzip (raw @ le_bytes 4 (unat (crc raw)))"

record decoded_frame =
  df_header :: snapshot_header
  df_sections :: "byte list"

definition decode_frame ::
  "(byte list \<Rightarrow> u32) \<Rightarrow> (nat \<Rightarrow> byte list \<Rightarrow> string + byte list) \<Rightarrow> byte list
     \<Rightarrow> snapshot_error + decoded_frame" where
  "decode_frame crc gunzip_limit blob =
     (if MAX_COMPRESSED_SNAPSHOT_BYTES < length blob then Inl Malformed
      else (case gzip_decompress gunzip_limit blob MAX_DECOMPRESSED_SNAPSHOT_BYTES of
          Inl e \<Rightarrow> Inl e
        | Inr raw \<Rightarrow>
            (if length raw < HEADER_LEN + 4 then Inl Malformed
             else (let body_len = length raw - 4;
                       stored_crc = word_of_nat (le_nat (drop body_len raw)) in
               if crc (take body_len raw) \<noteq> stored_crc then Inl ChecksumMismatch
               else (case header_parse (take HEADER_LEN raw) of
                   Inl e \<Rightarrow> Inl e
                 | Inr h \<Rightarrow> Inr \<lparr>df_header = h, df_sections = slice HEADER_LEN body_len raw\<rparr>)))))"

definition peek_header ::
  "(byte list \<Rightarrow> u32) \<Rightarrow> (nat \<Rightarrow> byte list \<Rightarrow> string + byte list) \<Rightarrow> byte list
     \<Rightarrow> snapshot_error + snapshot_header" where
  "peek_header crc gunzip_limit blob =
     (case decode_frame crc gunzip_limit blob of Inl e \<Rightarrow> Inl e | Inr f \<Rightarrow> Inr (df_header f))"

lemma length_header_write [simp, byte_codec]: "length (header_write h) = HEADER_LEN"
  by (simp add: header_write_def MAGIC_def HEADER_LEN_def)

lemma le_nat_unat [byte_codec]:
  "le_nat (le_bytes 8 (unat (w :: 64 word))) = unat w"
  "le_nat (le_bytes 4 (unat (x :: 32 word))) = unat x"
proof -
  have "unat w < 2 ^ LENGTH(64)" "unat x < 2 ^ LENGTH(32)" by (rule unsigned_less)+
  then show "le_nat (le_bytes 8 (unat w)) = unat w" "le_nat (le_bytes 4 (unat x)) = unat x"
    by (simp_all add: le_nat_le_bytes)
qed

lemma header_round [byte_codec]: "header_parse (header_write h) = Inr h"
proof -
  have "length MAGIC = 4" by (simp add: MAGIC_def)
  moreover have "le_nat (le_bytes 2 FORMAT_VERSION) = FORMAT_VERSION"
    "le_nat (le_bytes 2 PREFIX_CACHE_PAGE_SIZE) = PREFIX_CACHE_PAGE_SIZE"
    by (simp_all add: le_nat_le_bytes FORMAT_VERSION_def PREFIX_CACHE_PAGE_SIZE_def)
  ultimately show ?thesis
    by (simp add: header_parse_def slice_def) (simp add: header_write_def le_nat_unat)
qed

text \<open>The documented contract of the compression library.\<close>

definition gzip_contract ::
  "(byte list \<Rightarrow> string + byte list) \<Rightarrow> (nat \<Rightarrow> byte list \<Rightarrow> string + byte list) \<Rightarrow> bool" where
  "gzip_contract gzip gunzip_limit =
     (\<forall>raw blob limit. gzip raw = Inr blob \<longrightarrow> gunzip_limit limit blob = Inr (take limit raw))"

lemma finalize_frame_round:
  assumes "gzip_contract gzip gunzip" "finalize_frame crc gzip (header_write h @ sections) = Inr blob"
    and "length blob \<le> MAX_COMPRESSED_SNAPSHOT_BYTES"
    and "length sections + HEADER_LEN + 4 \<le> MAX_DECOMPRESSED_SNAPSHOT_BYTES"
  shows "decode_frame crc gunzip blob = Inr \<lparr>df_header = h, df_sections = sections\<rparr>"
proof -
  let ?raw = "header_write h @ sections" and ?crc = "le_bytes 4 (unat (crc (header_write h @ sections)))"
  have "gzip (?raw @ ?crc) = Inr blob"
    using assms(2) by (auto simp: finalize_frame_def gzip_compress_def split: sum.splits)
  then have "gunzip (sat_add_u64 MAX_DECOMPRESSED_SNAPSHOT_BYTES 1) blob
      = Inr (take (sat_add_u64 MAX_DECOMPRESSED_SNAPSHOT_BYTES 1) (?raw @ ?crc))"
    using assms(1) by (simp add: gzip_contract_def)
  moreover have "sat_add_u64 MAX_DECOMPRESSED_SNAPSHOT_BYTES 1 = Suc MAX_DECOMPRESSED_SNAPSHOT_BYTES"
    by (simp add: sat_add_u64_def u64_max_def MAX_DECOMPRESSED_SNAPSHOT_BYTES_def)
  moreover have len: "length (?raw @ ?crc) \<le> MAX_DECOMPRESSED_SNAPSHOT_BYTES"
    using assms(4) by simp
  ultimately have "gzip_decompress gunzip blob MAX_DECOMPRESSED_SNAPSHOT_BYTES = Inr (?raw @ ?crc)"
    by (simp add: gzip_decompress_def)
  then show ?thesis
    using assms(3) by (simp add: decode_frame_def Let_def le_nat_unat header_round slice_def)
qed

end
