(* ===== verification/PrefixTreeCodec.thy ===== *)
theory PrefixTreeCodec
  imports PrefixTreeEviction SnapshotWire
begin

text \<open>
  The prefix section of a snapshot (\<open>encode_section\<close>, \<open>decode_section\<close> and
  \<open>skip_prefix_section\<close> of \<open>prefix_tree.rs\<close>): a pre-order walk of the trie.  The decoder
  reads untrusted bytes with an explicit stack of frames and is modelled with that stack,
  the top first.
\<close>

section \<open>Encoding\<close>

definition PREFIX_PAGE_WIRE_LEN :: nat where
  "PREFIX_PAGE_WIRE_LEN = 17"

definition encode_page :: "canonical_token_page \<Rightarrow> byte list" where
  "encode_page p = le_bytes 16 (unat (page_key p)) @ [word_of_nat (unat (page_tokens p))]"

definition write_edge_pages ::
  "canonical_token_page list \<Rightarrow> instant \<Rightarrow> instant \<Rightarrow> byte list" where
  "write_edge_pages pages last_touched_at now =
     write_varint (length pages) @ concat (map encode_page pages)
       @ write_varint (as_secs (duration_since now last_touched_at))"

fun encode_node :: "instant \<Rightarrow> prefix_node \<Rightarrow> byte list"
  and encode_edges :: "instant \<Rightarrow> prefix_edge list \<Rightarrow> byte list" where
  "encode_node now (PrefixNode es s) = write_varint (length es) @ encode_edges now es"
| "encode_edges now [] = []"
| "encode_edges now (PrefixEdge ps t u c # es) =
     write_edge_pages ps u now @ encode_node now c @ encode_edges now es"

definition encode_full :: "prefix_tree \<Rightarrow> instant \<Rightarrow> byte list" where
  "encode_full tree now = encode_node now (root tree)"

text \<open>
  \<open>encode_capped\<close>: hottest edges first; an edge that fits the budget is kept with its
  subtree under the budget left, of one that does not the leading pages that fit are kept
  as a leaf.  The number of edges kept, their bytes and the budget left.
\<close>

definition hottest_first :: "prefix_edge list \<Rightarrow> prefix_edge list" where
  "hottest_first es = sort_key (\<lambda>e. - touched e) es"

fun fit_pages :: "canonical_token_page list \<Rightarrow> nat \<Rightarrow> nat \<Rightarrow> nat \<times> nat" where
  "fit_pages [] budget fit_tokens = (0, fit_tokens)"
| "fit_pages (p # ps) budget fit_tokens =
     (let next_tokens = sat_add_u64 fit_tokens (unat (page_tokens p)) in
      if budget < next_tokens then (0, fit_tokens)
      else (case fit_pages ps budget next_tokens of (n, tokens) \<Rightarrow> (Suc n, tokens)))"

lemma edges_edges_sum: "edges_edges es = sum_list (map (\<lambda>e. Suc (node_edges (edge_child e))) es)"
proof (induction es)
  case (Cons e es)
  then show ?case by (cases e) simp
qed simp

lemma sum_list_sort_key: "sum_list (map f (sort_key k es)) = (sum_list (map f es) :: nat)"
  by (metis mset_map mset_sort sum_mset_sum_list)

lemma edges_edges_hottest [simp]: "edges_edges (hottest_first es) = edges_edges es"
  by (simp add: edges_edges_sum hottest_first_def sum_list_sort_key)

lemma edges_edges_children [simp]: "edges_edges (children c) = node_edges c"
  by (cases c) simp

function capped_edges ::
  "instant \<Rightarrow> prefix_edge list \<Rightarrow> nat \<Rightarrow> nat \<times> byte list \<times> nat" where
  "capped_edges now [] budget = (0, [], budget)"
| "capped_edges now (PrefixEdge ps t u c # es) budget =
     (if t \<le> budget then
        (case capped_edges now (hottest_first (children c)) (budget - t) of
          (kept_below, body_below, budget1) \<Rightarrow>
         case capped_edges now es budget1 of (kept, body, budget2) \<Rightarrow>
          (Suc kept, (write_edge_pages ps u now @ write_varint kept_below @ body_below) @ body, budget2))
      else (case fit_pages ps budget 0 of (fit, fit_tokens) \<Rightarrow>
        if 0 < fit then
          (case capped_edges now es (budget - fit_tokens) of (kept, body, budget2) \<Rightarrow>
            (Suc kept, (write_edge_pages (take fit ps) u now @ write_varint 0) @ body, budget2))
        else capped_edges now es budget))"
  by pat_completeness auto

termination by (relation "measure (\<lambda>(now, es, b). edges_edges es)") auto

definition encode_capped :: "prefix_tree \<Rightarrow> instant \<Rightarrow> nat \<Rightarrow> byte list" where
  "encode_capped tree now cap =
     (case capped_edges now (hottest_first (children (root tree))) cap of
        (kept, body, _) \<Rightarrow> write_varint kept @ body)"

definition encode_section :: "prefix_tree \<Rightarrow> instant \<Rightarrow> nat option \<Rightarrow> byte list" where
  "encode_section tree now cap_tokens =
     (case cap_tokens of
        Some cap \<Rightarrow> (if cap < resident_tokens tree then encode_capped tree now cap
                     else encode_full tree now)
      | None \<Rightarrow> encode_full tree now)"

section \<open>Decoding\<close>

definition effective_age_secs :: "int \<Rightarrow> int \<Rightarrow> nat \<Rightarrow> nat" where
  "effective_age_secs snap_ms now_ms age_secs =
     (let stop_gap_secs = nat (max 0 (sat_sub_i64 now_ms snap_ms)) div 1000 in
      sat_add_u64 stop_gap_secs age_secs)"

fun read_pages :: "nat \<Rightarrow> snapshot_reader \<Rightarrow> snapshot_error + (canonical_token_page list \<times> snapshot_reader)" where
  "read_pages 0 r = Inr ([], r)"
| "read_pages (Suc n) r =
     (case read_u128_le r of
        Inl e \<Rightarrow> Inl e
      | Inr (key, r1) \<Rightarrow>
          (case read_u8 r1 of
             Inl e \<Rightarrow> Inl e
           | Inr (tok, r2) \<Rightarrow>
               (if unat tok = 0 \<or> PREFIX_CACHE_PAGE_SIZE < unat tok then Inl Malformed
                else (case read_pages n r2 of
                    Inl e \<Rightarrow> Inl e
                  | Inr (ps, r3) \<Rightarrow>
                      Inr (\<lparr>page_key = key, page_tokens = word_of_nat (unat tok)\<rparr> # ps, r3)))))"

definition read_page_count :: "snapshot_reader \<Rightarrow> snapshot_error + (nat \<times> snapshot_reader)" where
  "read_page_count r =
     (case read_varint r of
        Inl e \<Rightarrow> Inl e
      | Inr (page_count, r1) \<Rightarrow>
          (if 2 ^ 64 \<le> page_count * PREFIX_PAGE_WIRE_LEN then Inl Malformed
           else if page_count = 0 \<or> reader_remaining r1 < page_count * PREFIX_PAGE_WIRE_LEN
           then Inl Malformed else Inr (page_count, r1)))"

text \<open>One edge: its pages, its age, the number of its children, and the pages read so far.\<close>

definition read_edge ::
  "nat \<Rightarrow> nat \<Rightarrow> snapshot_reader
     \<Rightarrow> snapshot_error + (canonical_token_page list \<times> nat \<times> nat \<times> nat \<times> snapshot_reader)" where
  "read_edge max_pages total_pages r =
     (case read_page_count r of
        Inl e \<Rightarrow> Inl e
      | Inr (page_count, r1) \<Rightarrow>
          (let page_total = total_pages + page_count in
           if 2 ^ 64 \<le> page_total then Inl Malformed
           else if max_pages < page_total then Inl Malformed
           else (case read_pages page_count r1 of
               Inl e \<Rightarrow> Inl e
             | Inr (pages, r2) \<Rightarrow>
                 (case read_varint r2 of
                    Inl e \<Rightarrow> Inl e
                  | Inr (age_secs, r3) \<Rightarrow>
                      (case read_varint r3 of
                         Inl e \<Rightarrow> Inl e
                       | Inr (child_count, r4) \<Rightarrow> Inr (pages, age_secs, child_count, page_total, r4))))))"

datatype decode_stack_frame =
  StackFrame (frame_node: prefix_node) (frame_remaining: nat)
    (frame_pending: "(prefix_edge \<times> bool) option")

record restore_clock =
  rc_snapshot_ms :: int
  rc_now :: instant
  rc_now_ms :: int
  rc_ttl :: duration

definition restored_edge :: "restore_clock \<Rightarrow> canonical_token_page list \<Rightarrow> nat \<Rightarrow> prefix_edge \<times> bool" where
  "restored_edge rc pages age_secs =
     (let eff_age = effective_age_secs (rc_snapshot_ms rc) (rc_now_ms rc) age_secs in
      (PrefixEdge pages (prefix_pages_token_count pages) (instant_minus_secs (rc_now rc) eff_age)
         prefix_node_default,
       eff_age \<le> as_secs (rc_ttl rc)))"

text \<open>\<open>parent.node.children.push(edge)\<close>, when the edge is kept.\<close>

fun attach_child :: "decode_stack_frame \<Rightarrow> prefix_edge \<Rightarrow> bool \<Rightarrow> prefix_node \<Rightarrow> decode_stack_frame" where
  "attach_child (StackFrame (PrefixNode es s) remaining pending) edge keep finished =
     StackFrame (PrefixNode (if keep then es @ [set_edge_child edge finished] else es) s)
       (remaining - 1) None"

lemma read_pages_length: "read_pages n r = Inr (ps, r') \<Longrightarrow> length r' \<le> length r"
proof (induction n arbitrary: r ps r')
  case (Suc n)
  then show ?case
    by (fastforce simp: read_u128_le_def read_bytes_def dest: read_u8_shorter
        split: sum.splits if_splits prod.splits)
qed simp

lemma read_edge_shorter: "read_edge m t r = Inr (ps, a, c, t', r') \<Longrightarrow> length r' < length r"
  by (fastforce simp: read_edge_def read_page_count_def Let_def dest: read_varint_shorter read_pages_length
      split: sum.splits if_splits prod.splits)

function decode_loop ::
  "restore_clock \<Rightarrow> nat \<Rightarrow> decode_stack_frame list \<Rightarrow> nat \<Rightarrow> snapshot_reader
     \<Rightarrow> snapshot_error + (prefix_tree \<times> snapshot_reader)" where
  "decode_loop rc max_pages stack total_pages r =
     (case stack of
        [] \<Rightarrow> Inl Malformed
      | frame # rest \<Rightarrow>
          (if frame_remaining frame = 0 then
             (case rest of
                [] \<Rightarrow> Inr (\<lparr>root = frame_node frame, resident_tokens = node_tokens (frame_node frame)\<rparr>, r)
              | parent # rest' \<Rightarrow>
                  (case frame_pending parent of
                     None \<Rightarrow> Inl Malformed
                   | Some (edge, keep) \<Rightarrow>
                       decode_loop rc max_pages
                         (attach_child parent edge keep (frame_node frame) # rest') total_pages r))
           else (case read_edge max_pages total_pages r of
               Inl e \<Rightarrow> Inl e
             | Inr (pages, age_secs, child_count, page_total, r') \<Rightarrow>
                 decode_loop rc max_pages
                   (StackFrame prefix_node_default child_count None
                     # StackFrame (frame_node frame) (frame_remaining frame) (Some (restored_edge rc pages age_secs))
                     # rest) page_total r')))"
  by pat_completeness auto
termination
  by (relation "measure (\<lambda>(rc, m, stack, t, r). 2 * length r + length stack)")
    (auto dest: read_edge_shorter)

declare decode_loop.simps [simp del]

definition decode_section ::
  "restore_clock \<Rightarrow> nat \<Rightarrow> snapshot_reader \<Rightarrow> snapshot_error + (prefix_tree \<times> snapshot_reader)" where
  "decode_section rc max_pages r =
     (case read_varint r of
        Inl e \<Rightarrow> Inl e
      | Inr (root_count, r') \<Rightarrow>
          decode_loop rc max_pages [StackFrame prefix_node_default root_count None] 0 r')"

lemma read_page_count_shorter: "read_page_count r = Inr (n, r') \<Longrightarrow> length r' < length r"
  by (auto simp: read_page_count_def dest: read_varint_shorter split: sum.splits if_splits)

lemma read_bytes_length: "read_bytes n r = Inr (bs, r') \<Longrightarrow> length r' \<le> length r"
  by (auto simp: read_bytes_def split: if_splits)

function skip_loop :: "nat list \<Rightarrow> snapshot_reader \<Rightarrow> snapshot_error + snapshot_reader" where
  "skip_loop stack r =
     (case stack of
        [] \<Rightarrow> Inr r
      | remaining # rest \<Rightarrow>
          (if remaining = 0
           then skip_loop (case rest of [] \<Rightarrow> [] | parent # rest' \<Rightarrow> (parent - 1) # rest') r
           else (case read_page_count r of
               Inl e \<Rightarrow> Inl e
             | Inr (page_count, r1) \<Rightarrow>
                 (case read_bytes (page_count * PREFIX_PAGE_WIRE_LEN) r1 of
                    Inl e \<Rightarrow> Inl e
                  | Inr (_, r2) \<Rightarrow>
                      (case read_varint r2 of
                         Inl e \<Rightarrow> Inl e
                       | Inr (_, r3) \<Rightarrow>
                           (case read_varint r3 of
                              Inl e \<Rightarrow> Inl e
                            | Inr (child_count, r4) \<Rightarrow> skip_loop (child_count # stack) r4))))))"
  by pat_completeness auto

termination
proof (relation "measure (\<lambda>(stack, r). 2 * length r + length stack)", goal_cases)
  case (3 stack r remaining rest a n r1 b c r2 d e r3 f child_count r4)
  then show ?case
    using read_page_count_shorter[of r n r1] read_bytes_length[of _ r1 c r2]
      read_varint_shorter[of r2 e r3] read_varint_shorter[of r3 child_count r4] by force
qed (auto split: list.splits)

declare skip_loop.simps [simp del]

definition skip_prefix_section :: "snapshot_reader \<Rightarrow> snapshot_error + snapshot_reader" where
  "skip_prefix_section r =
     (case read_varint r of
        Inl e \<Rightarrow> Inl e
      | Inr (root_count, r') \<Rightarrow> skip_loop [root_count] r')"

end
