(* ===== verification/AnchorUnion.thy ===== *)
theory AnchorUnion
  imports PrefixTreeCodec "HOL-Library.List_Lexorder" "HOL-Library.Char_ord"
    "HOL-Library.Product_Lexorder"
begin

text \<open>
  The cross-node union of conversation anchors (\<open>AnchorUnion\<close> of
  \<open>crates/llm-access-kiro/src/cache_sim/snapshot.rs\<close>).  The hash map of candidates is an
  association list with distinct keys; its order never shows, because every read sorts by
  touch and then by hash.  Strings are compared bytewise.
\<close>

record anchor_token_counts =
  real_input_tokens :: "32 word"
  local_input_tokens :: "32 word"

record decoded_anchor =
  da_hex :: string
  da_conversation_id :: string
  da_token_counts :: "anchor_token_counts option"
  da_age_secs :: nat
  da_snapshot_unix_ms :: int

record rebuild_row =
  rr_hex :: string
  rr_conversation_id :: string
  rr_token_counts :: "anchor_token_counts option"
  rr_eff_age_secs :: nat

record anchor_candidate =
  ac_conversation_id :: string
  ac_token_counts :: "anchor_token_counts option"
  ac_touched_ms :: int

type_synonym anchor_entry = "string \<times> anchor_candidate"

record anchor_union =
  au_best :: "anchor_entry list"
  au_now_unix_ms :: int
  au_ttl :: duration
  au_max_entries :: nat

definition anchor_union_new :: "int \<Rightarrow> duration \<Rightarrow> nat \<Rightarrow> anchor_union" where
  "anchor_union_new now_ms ttl max_entries =
     \<lparr>au_best = [], au_now_unix_ms = now_ms, au_ttl = ttl, au_max_entries = max_entries\<rparr>"

text \<open>The age of a row in milliseconds: an age that does not fit an \<open>i64\<close> counts as its maximum.\<close>

definition anchor_age_ms :: "nat \<Rightarrow> int" where
  "anchor_age_ms age_secs =
     (let ms = int (sat_mul_u64 age_secs 1000) in if i64_max < ms then i64_max else ms)"

definition anchor_candidate_of :: "decoded_anchor \<Rightarrow> anchor_candidate" where
  "anchor_candidate_of row =
     \<lparr>ac_conversation_id = da_conversation_id row, ac_token_counts = da_token_counts row,
      ac_touched_ms = sat_sub_i64 (da_snapshot_unix_ms row) (anchor_age_ms (da_age_secs row))\<rparr>"

definition keeps_existing :: "anchor_candidate \<Rightarrow> anchor_candidate \<Rightarrow> bool" where
  "keeps_existing existing cand =
     (ac_touched_ms cand < ac_touched_ms existing
      \<or> ac_touched_ms existing = ac_touched_ms cand
        \<and> ac_conversation_id cand \<le> ac_conversation_id existing)"

definition insert_candidate :: "anchor_entry list \<Rightarrow> string \<times> anchor_candidate \<Rightarrow> anchor_entry list" where
  "insert_candidate best row =
     (case map_of best (fst row) of
        Some existing \<Rightarrow>
          (if keeps_existing existing (snd row) then best
           else row # filter (\<lambda>e. fst e \<noteq> fst row) best)
      | None \<Rightarrow> row # best)"

definition anchor_rank :: "anchor_entry \<Rightarrow> int \<times> string" where
  "anchor_rank e = (ac_touched_ms (snd e), fst e)"

definition sorted_oldest_first :: "anchor_entry list \<Rightarrow> anchor_entry list" where
  "sorted_oldest_first best = sort_key anchor_rank best"

definition trim_entries :: "nat \<Rightarrow> anchor_entry list \<Rightarrow> anchor_entry list" where
  "trim_entries max_entries best =
     (if max_entries = 0 \<or> length best \<le> max_entries then best
      else drop (length best - max_entries) (sorted_oldest_first best))"

definition anchor_union_fold :: "anchor_union \<Rightarrow> decoded_anchor list \<Rightarrow> anchor_union" where
  "anchor_union_fold u rows =
     (let best = foldl insert_candidate (au_best u)
        (map (\<lambda>row. (da_hex row, anchor_candidate_of row)) rows) in
      u\<lparr>au_best := trim_entries (au_max_entries u) best\<rparr>)"

definition rebuild_row_of :: "int \<Rightarrow> duration \<Rightarrow> anchor_entry \<Rightarrow> rebuild_row option" where
  "rebuild_row_of now_ms ttl e =
     (let eff_age_ms = max 0 (sat_sub_i64 now_ms (ac_touched_ms (snd e)));
          eff_age_secs = nat eff_age_ms div 1000 in
      if as_secs ttl < eff_age_secs then None
      else Some \<lparr>rr_hex = fst e, rr_conversation_id = ac_conversation_id (snd e),
                 rr_token_counts = ac_token_counts (snd e), rr_eff_age_secs = eff_age_secs\<rparr>)"

definition anchor_union_finish :: "anchor_union \<Rightarrow> rebuild_row list" where
  "anchor_union_finish u =
     List.map_filter (rebuild_row_of (au_now_unix_ms u) (au_ttl u))
       (sorted_oldest_first (trim_entries (au_max_entries u) (au_best u)))"

section \<open>The newest entries of a set\<close>

text \<open>\<open>newest K A\<close>: the entries of \<open>A\<close> with fewer than \<open>K\<close> entries above them.\<close>

definition newest :: "nat \<Rightarrow> anchor_entry set \<Rightarrow> anchor_entry set" where
  "newest K A = {a \<in> A. card {b \<in> A. anchor_rank a < anchor_rank b} < K}"

definition functional :: "anchor_entry set \<Rightarrow> bool" where
  "functional A = (finite A \<and> inj_on fst A)"

lemma functional_rank_inj: "functional A \<Longrightarrow> inj_on anchor_rank A"
proof (rule inj_onI)
  fix x y assume "functional A" "x \<in> A" "y \<in> A" "anchor_rank x = anchor_rank y"
  then show "x = y" unfolding functional_def anchor_rank_def by (auto dest: inj_onD)
qed

lemma functional_subset: "functional A \<Longrightarrow> B \<subseteq> A \<Longrightarrow> functional B"
  by (auto simp: functional_def intro: finite_subset inj_on_subset)

lemma newest_subset: "newest K A \<subseteq> A"
  by (auto simp: newest_def)

lemma newest_reduce:
  assumes "finite A" "B \<subseteq> A"
    and "\<And>y. y \<in> A - B \<Longrightarrow> K \<le> card {x \<in> B. anchor_rank y < anchor_rank x}"
  shows "newest K A = newest K B"
proof (rule set_eqI, rule iffI)
  fix a assume a: "a \<in> newest K A"
  have "a \<in> B"
  proof (rule ccontr)
    assume "a \<notin> B"
    then have "K \<le> card {x \<in> B. anchor_rank a < anchor_rank x}"
      using a assms(3) by (simp add: newest_def)
    also have "\<dots> \<le> card {x \<in> A. anchor_rank a < anchor_rank x}"
      using assms(1,2) by (intro card_mono) auto
    finally show False using a by (simp add: newest_def)
  qed
  moreover have "card {x \<in> B. anchor_rank a < anchor_rank x} \<le> card {x \<in> A. anchor_rank a < anchor_rank x}"
    using assms(1,2) by (intro card_mono) auto
  ultimately show "a \<in> newest K B" using a by (simp add: newest_def)
next
  fix a assume a: "a \<in> newest K B"
  have "{x \<in> A. anchor_rank a < anchor_rank x} = {x \<in> B. anchor_rank a < anchor_rank x}"
  proof (rule ccontr)
    assume "\<not> ?thesis"
    then obtain y where y: "y \<in> A - B" "anchor_rank a < anchor_rank y" using assms(2) by blast
    have "K \<le> card {x \<in> B. anchor_rank y < anchor_rank x}" using assms(3) y(1) by simp
    also have "\<dots> \<le> card {x \<in> B. anchor_rank a < anchor_rank x}"
      using assms(1,2) y(2) by (intro card_mono) (auto intro: finite_subset)
    finally show False using a by (simp add: newest_def)
  qed
  then show "a \<in> newest K A" using a assms(2) by (auto simp: newest_def)
qed

lemma sorted_rank_above:
  assumes "sorted (map anchor_rank l)" "inj_on anchor_rank (set l)" "distinct l" "i < length l"
  shows "card {b \<in> set l. anchor_rank (l ! i) < anchor_rank b} = length l - Suc i"
proof -
  have strict: "anchor_rank (l ! i) < anchor_rank (l ! j) \<longleftrightarrow> i < j" if "j < length l" for j
  proof (cases "i < j")
    case True
    then have "anchor_rank (l ! i) \<le> anchor_rank (l ! j)"
      using sorted_nth_mono[OF assms(1), of i j] that by simp
    moreover have "anchor_rank (l ! i) \<noteq> anchor_rank (l ! j)"
      using True assms(3,4) that inj_on_eq_iff[OF assms(2), of "l ! i" "l ! j"]
      by (simp add: nth_eq_iff_index_eq)
    ultimately show ?thesis using True by simp
  next
    case False
    then have "anchor_rank (l ! j) \<le> anchor_rank (l ! i)"
      using sorted_nth_mono[OF assms(1), of j i] assms(4) by simp
    then show ?thesis using False by (simp add: not_less)
  qed
  have "{b \<in> set l. anchor_rank (l ! i) < anchor_rank b} = (!) l ` {Suc i..<length l}"
  proof (rule set_eqI, rule iffI)
    fix b assume "b \<in> {b \<in> set l. anchor_rank (l ! i) < anchor_rank b}"
    then obtain j where "j < length l" "b = l ! j" "anchor_rank (l ! i) < anchor_rank b"
      by (auto simp: in_set_conv_nth)
    then show "b \<in> (!) l ` {Suc i..<length l}" using strict[of j] by simp
  qed (use strict in auto)
  moreover have "inj_on ((!) l) {Suc i..<length l}"
    using assms(3) by (auto simp: inj_on_def nth_eq_iff_index_eq)
  ultimately show ?thesis by (simp add: card_image)
qed

lemma drop_is_newest:
  assumes "distinct (map fst best)"
  shows "set (drop (length best - K) (sorted_oldest_first best)) = newest K (set best)"
proof -
  let ?l = "sorted_oldest_first best"
  have l: "set ?l = set best" "length ?l = length best" "distinct ?l" "sorted (map anchor_rank ?l)"
    using assms by (simp_all add: sorted_oldest_first_def distinct_map)
  have inj: "inj_on anchor_rank (set ?l)"
    using functional_rank_inj[of "set best"] assms l(1) by (simp add: functional_def distinct_map)
  have "a \<in> set (drop (length best - K) ?l) \<longleftrightarrow> a \<in> newest K (set best)" for a
  proof
    assume "a \<in> set (drop (length best - K) ?l)"
    then obtain i where i: "length best - K \<le> i" "i < length ?l" "a = ?l ! i"
      by (auto simp: in_set_conv_nth l(2)) (metis add.commute le_add2 less_diff_conv)
    then show "a \<in> newest K (set best)"
      using sorted_rank_above[OF l(4) inj l(3) i(2)] l(1,2) nth_mem[OF i(2)]
      by (auto simp: newest_def)
  next
    assume a: "a \<in> newest K (set best)"
    then obtain i where i: "i < length ?l" "a = ?l ! i"
      using l(1) newest_subset by (metis in_set_conv_nth subsetD)
    then have "length best - Suc i < K"
      using a sorted_rank_above[OF l(4) inj l(3) i(1)] l(1,2) by (simp add: newest_def)
    then have "drop (length best - K) ?l ! (i - (length best - K)) = a"
      "i - (length best - K) < length (drop (length best - K) ?l)"
      using i l(2) by simp_all
    then show "a \<in> set (drop (length best - K) ?l)" by (metis nth_mem)
  qed
  then show ?thesis by blast
qed

lemma newest_all:
  assumes "finite A" "card A \<le> K"
  shows "newest K A = A"
proof -
  have "card {b \<in> A. anchor_rank a < anchor_rank b} < card A" if "a \<in> A" for a
    using assms(1) that by (intro psubset_card_mono) auto
  then show ?thesis using assms(2) by (auto simp: newest_def) (meson less_le_trans)
qed

definition keep_newest :: "nat \<Rightarrow> anchor_entry set \<Rightarrow> anchor_entry set" where
  "keep_newest K A = (if K = 0 then A else newest K A)"

lemma set_trim_entries:
  assumes "distinct (map fst best)"
  shows "set (trim_entries K best) = keep_newest K (set best)"
    "distinct (map fst (trim_entries K best))"
proof -
  have "card (set best) = length best" using assms by (simp add: distinct_card distinct_map)
  then show "set (trim_entries K best) = keep_newest K (set best)"
    using drop_is_newest[OF assms, of K] newest_all[of "set best" K]
    by (auto simp: trim_entries_def keep_newest_def)
  have "distinct (map fst (sorted_oldest_first best))"
    using assms by (simp add: sorted_oldest_first_def distinct_map)
  then show "distinct (map fst (trim_entries K best))"
    using assms by (simp add: trim_entries_def drop_map[symmetric])
qed

section \<open>Merging one row\<close>

definition merge_row :: "anchor_entry set \<Rightarrow> anchor_entry \<Rightarrow> anchor_entry set" where
  "merge_row A row =
     (if \<exists>c. (fst row, c) \<in> A \<and> keeps_existing c (snd row) then A
      else insert row {e \<in> A. fst e \<noteq> fst row})"

lemma set_insert_candidate:
  assumes "distinct (map fst best)"
  shows "set (insert_candidate best row) = merge_row (set best) row"
    "distinct (map fst (insert_candidate best row))"
proof -
  have look: "map_of best (fst row) = Some c \<longleftrightarrow> (fst row, c) \<in> set best" for c
    using assms by (simp add: map_of_eq_Some_iff)
  show "set (insert_candidate best row) = merge_row (set best) row"
  proof (cases "map_of best (fst row)")
    case None
    then have "\<forall>e \<in> set best. fst e \<noteq> fst row" by (metis map_of_eq_None_iff image_eqI)
    then have "{e \<in> set best. fst e \<noteq> fst row} = set best" by blast
    moreover have "\<not> (\<exists>c. (fst row, c) \<in> set best)"
      using None look by (simp only: option.simps) blast
    ultimately show ?thesis using None by (simp add: insert_candidate_def merge_row_def)
  next
    case (Some c)
    then have "(\<exists>c'. (fst row, c') \<in> set best \<and> keeps_existing c' (snd row))
        \<longleftrightarrow> keeps_existing c (snd row)"
    proof -
      have "(fst row, c') \<in> set best \<longleftrightarrow> c' = c" for c'
        using look[of c'] Some by auto
      then show ?thesis by simp
    qed
    then show ?thesis using Some by (auto simp: insert_candidate_def merge_row_def)
  qed
  show "distinct (map fst (insert_candidate best row))"
    using assms
    by (auto simp: insert_candidate_def distinct_map_filter map_of_eq_None_iff split: option.split)
qed

lemma functional_merge_row: "functional A \<Longrightarrow> functional (merge_row A row)"
  by (auto simp: functional_def merge_row_def inj_on_def)

lemma not_keeps_rank_le:
  "\<not> keeps_existing c (snd row) \<Longrightarrow> anchor_rank (fst row, c) \<le> anchor_rank row"
  by (auto simp: keeps_existing_def anchor_rank_def)

lemma keeps_rank_le:
  "keeps_existing c (snd row) \<Longrightarrow> anchor_rank row \<le> anchor_rank (fst row, c)"
  by (auto simp: keeps_existing_def anchor_rank_def)

lemma newest_above:
  assumes "functional A" "y \<in> A - newest K A"
  shows "K \<le> card {x \<in> newest K A. anchor_rank y < anchor_rank x}"
proof (rule ccontr)
  assume few: "\<not> ?thesis"
  let ?above = "\<lambda>y. {x \<in> A. anchor_rank y < anchor_rank x}"
  have fin: "finite A" using assms(1) by (simp add: functional_def)
  have many: "K \<le> card (?above y)" using assms(2) by (auto simp: newest_def)
  have "\<exists>w. w \<in> A \<and> anchor_rank y < anchor_rank w \<and> w \<notin> newest K A"
  proof (rule ccontr)
    assume "\<nexists>w. w \<in> A \<and> anchor_rank y < anchor_rank w \<and> w \<notin> newest K A"
    then have "?above y \<subseteq> {x \<in> newest K A. anchor_rank y < anchor_rank x}" by blast
    then have "card (?above y) \<le> card {x \<in> newest K A. anchor_rank y < anchor_rank x}"
      using finite_subset[OF newest_subset[of K A] fin] by (intro card_mono) simp_all
    then show False using many few by linarith
  qed
  then have ne: "{x \<in> ?above y. x \<notin> newest K A} \<noteq> {}" by blast
  let ?R = "anchor_rank ` {x \<in> ?above y. x \<notin> newest K A}"
  have finR: "finite ?R" using fin by simp
  have "?R \<noteq> {}" using ne by simp
  with finR have "Max ?R \<in> ?R" by (rule Max_in)
  then obtain z where zD: "z \<in> {x \<in> ?above y. x \<notin> newest K A}" and zmax: "Max ?R = anchor_rank z"
    by (rule imageE)
  have z: "z \<in> ?above y" "z \<notin> newest K A" "anchor_rank z = Max ?R" using zD zmax by simp_all
  have "?above z \<subseteq> {x \<in> newest K A. anchor_rank y < anchor_rank x}"
  proof
    fix x assume x: "x \<in> ?above z"
    then have "x \<in> ?above y" using z(1) by auto
    moreover have "x \<in> newest K A"
    proof (rule ccontr)
      assume "x \<notin> newest K A"
      then have "anchor_rank x \<le> Max ?R" using \<open>x \<in> ?above y\<close> by (intro Max_ge[OF finR] imageI) simp
      then show False using x z(3) by auto
    qed
    ultimately show "x \<in> {x \<in> newest K A. anchor_rank y < anchor_rank x}" by simp
  qed
  then have "card (?above z) \<le> card {x \<in> newest K A. anchor_rank y < anchor_rank x}"
    using finite_subset[OF newest_subset fin] by (intro card_mono) simp_all
  then have "card (?above z) < K" using few by simp
  then show False using z(1,2) by (simp add: newest_def)
qed

lemma newest_idem: "functional A \<Longrightarrow> newest K (newest K A) = newest K A"
  using newest_reduce[OF _ newest_subset newest_above] by (metis functional_def)

text \<open>Trimming before a row is merged does not change what is left after trimming.\<close>

lemma newest_merge_row:
  assumes A: "functional A"
  shows "newest K (merge_row (newest K A) row) = newest K (merge_row A row)"
proof -
  let ?T = "newest K A"
  have fin: "finite A" "finite ?T"
    using A newest_subset by (auto simp: functional_def intro: finite_subset)
  have same: "c = c'" if "(fst row, c) \<in> A" "(fst row, c') \<in> A" for c c'
    using A that inj_onD[of fst A "(fst row, c)" "(fst row, c')"] by (simp add: functional_def)
  show ?thesis
  proof (cases "\<exists>c. (fst row, c) \<in> A \<and> keeps_existing c (snd row)")
    case True
    then obtain c where c: "(fst row, c) \<in> A" "keeps_existing c (snd row)" by blast
    show ?thesis
    proof (cases "(fst row, c) \<in> ?T")
      case True
      then have "merge_row ?T row = ?T" "merge_row A row = A"
        using c by (auto simp: merge_row_def)
      then show ?thesis by (simp add: newest_idem[OF A])
    next
      case False
      then have absent: "fst e \<noteq> fst row" if "e \<in> ?T" for e
        using that same c(1) newest_subset by (metis prod.collapse subsetD)
      then have "\<not> (\<exists>c. (fst row, c) \<in> ?T)" by force
      moreover have "{e \<in> ?T. fst e \<noteq> fst row} = ?T" using absent by blast
      ultimately have T: "merge_row ?T row = insert row ?T" by (simp add: merge_row_def)
      have "K \<le> card {x \<in> ?T. anchor_rank (fst row, c) < anchor_rank x}"
        using newest_above[OF A] c(1) False by blast
      also have "\<dots> \<le> card {x \<in> ?T. anchor_rank row < anchor_rank x}"
        using keeps_rank_le[OF c(2)] fin(2) by (intro card_mono) auto
      finally have "newest K (insert row ?T) = newest K ?T"
        using fin(2) by (intro newest_reduce) auto
      then show ?thesis
        using c T newest_idem[OF A] by (auto simp: merge_row_def)
    qed
  next
    case False
    then have A': "merge_row A row = insert row {e \<in> A. fst e \<noteq> fst row}" by (auto simp: merge_row_def)
    have T': "merge_row ?T row = insert row {e \<in> ?T. fst e \<noteq> fst row}"
      using False newest_subset by (auto simp: merge_row_def)
    have "K \<le> card {x \<in> insert row {e \<in> ?T. fst e \<noteq> fst row}. anchor_rank y < anchor_rank x}"
      if y: "y \<in> A" "y \<notin> ?T" for y
    proof -
      let ?f = "\<lambda>x. if fst x = fst row then row else x"
      let ?S = "{x \<in> ?T. anchor_rank y < anchor_rank x}"
      have inj: "inj_on ?f ?S"
      proof (rule inj_onI)
        fix a b assume ab: "a \<in> ?S" "b \<in> ?S" "?f a = ?f b"
        then have "fst a = fst b" by (auto split: if_splits)
        moreover have "a \<in> A" "b \<in> A" using ab newest_subset by auto
        ultimately show "a = b" using A by (auto simp: functional_def dest: inj_onD)
      qed
      have image: "?f ` ?S \<subseteq> {x \<in> insert row {e \<in> ?T. fst e \<noteq> fst row}. anchor_rank y < anchor_rank x}"
      proof
        fix z assume "z \<in> ?f ` ?S"
        then obtain x where x: "x \<in> ?T" "anchor_rank y < anchor_rank x" "z = ?f x" by blast
        show "z \<in> {x \<in> insert row {e \<in> ?T. fst e \<noteq> fst row}. anchor_rank y < anchor_rank x}"
        proof (cases "fst x = fst row")
          case True
          then have "(fst row, snd x) \<in> A" using x(1) newest_subset by (metis prod.collapse subsetD)
          then have "\<not> keeps_existing (snd x) (snd row)" using False by blast
          then have "anchor_rank x \<le> anchor_rank row"
            using not_keeps_rank_le True by (metis prod.collapse)
          then show ?thesis using True x(2,3) by auto
        qed (use x in simp)
      qed
      have "K \<le> card ?S" using newest_above[OF A] y by blast
      also have "\<dots> = card (?f ` ?S)" by (rule card_image[OF inj, symmetric])
      also have "\<dots> \<le> card {x \<in> insert row {e \<in> ?T. fst e \<noteq> fst row}. anchor_rank y < anchor_rank x}"
        using image fin(2) by (intro card_mono) auto
      finally show ?thesis .
    qed
    then have "newest K (merge_row A row) = newest K (merge_row ?T row)"
      unfolding A' T' using fin(1) newest_subset[of K A] by (intro newest_reduce) auto
    then show ?thesis ..
  qed
qed

lemma keep_newest_merge:
  "functional A \<Longrightarrow> keep_newest K (merge_row (keep_newest K A) row) = keep_newest K (merge_row A row)"
  using newest_merge_row by (simp add: keep_newest_def)

lemma functional_keep: "functional A \<Longrightarrow> functional (keep_newest K A)"
  using functional_subset[OF _ newest_subset] by (simp add: keep_newest_def)

lemma keep_newest_foldl:
  "functional A \<Longrightarrow>
    keep_newest K (foldl merge_row (keep_newest K A) rows) = keep_newest K (foldl merge_row A rows)"
proof (induction rows arbitrary: A)
  case Nil
  then show ?case using newest_idem by (simp add: keep_newest_def)
next
  case (Cons row rows)
  have "keep_newest K (foldl merge_row (merge_row (keep_newest K A) row) rows)
      = keep_newest K (foldl merge_row (keep_newest K (merge_row (keep_newest K A) row)) rows)"
    using Cons.IH[of "merge_row (keep_newest K A) row"] Cons.prems functional_keep functional_merge_row
    by metis
  also have "\<dots> = keep_newest K (foldl merge_row (keep_newest K (merge_row A row)) rows)"
    using keep_newest_merge[OF Cons.prems] by simp
  also have "\<dots> = keep_newest K (foldl merge_row (merge_row A row) rows)"
    using Cons.IH Cons.prems functional_merge_row by metis
  finally show ?case by simp
qed

lemma set_foldl_insert:
  "distinct (map fst best) \<Longrightarrow>
    set (foldl insert_candidate best rows) = foldl merge_row (set best) rows
    \<and> distinct (map fst (foldl insert_candidate best rows))"
  by (induction rows arbitrary: best) (simp_all add: set_insert_candidate)

section \<open>Folding frames\<close>

definition union_entries :: "decoded_anchor list \<Rightarrow> anchor_entry list" where
  "union_entries rows = map (\<lambda>row. (da_hex row, anchor_candidate_of row)) rows"

definition union_ok :: "anchor_union \<Rightarrow> bool" where
  "union_ok u = distinct (map fst (au_best u))"

lemma functional_set: "distinct (map fst best) \<Longrightarrow> functional (set best)"
  by (simp add: functional_def distinct_map)

lemma fold_set:
  assumes "union_ok u"
  shows "set (au_best (anchor_union_fold u rows))
      = keep_newest (au_max_entries u) (foldl merge_row (set (au_best u)) (union_entries rows))"
    "union_ok (anchor_union_fold u rows)"
  using assms set_trim_entries set_foldl_insert[of "au_best u"]
  by (simp_all add: anchor_union_fold_def union_ok_def union_entries_def Let_def)

lemma functional_foldl: "functional A \<Longrightarrow> functional (foldl merge_row A rows)"
  by (induction rows arbitrary: A) (simp_all add: functional_merge_row)

lemma sorted_unique:
  assumes "set xs = set ys" "distinct (map fst xs)" "distinct (map fst ys)"
  shows "sorted_oldest_first xs = sorted_oldest_first ys"
proof -
  have inj: "inj_on anchor_rank (set xs)" using functional_rank_inj functional_set assms(2) by blast
  have "mset xs = mset ys" using assms by (simp add: distinct_map set_eq_iff_mset_eq_distinct)
  then show ?thesis
    unfolding sorted_oldest_first_def
    using inj by (intro sort_key_inj_key_eq) simp_all
qed

end
