(* ===== verification/LruCache.thy ===== *)
theory LruCache
  imports Prelude
begin

text \<open>
  The cache of the \<open>lru\<close> crate with string keys: its operations (\<open>lru_ops\<close>), what its
  documentation promises of them (\<open>lru_contract\<close>), and a list as an instance.
\<close>

text \<open>
  The operations of the cache.  \<open>get_mut\<close> gives the entry and the cache in which the entry,
  now the most recently used, has a new value; \<open>iter\<close> lists the most recently used first.
\<close>

record ('c, 'v) lru_ops =
  lru_new :: "nat \<Rightarrow> 'c"
  lru_cap :: "'c \<Rightarrow> nat"
  lru_len :: "'c \<Rightarrow> nat"
  lru_peek :: "'c \<Rightarrow> string \<Rightarrow> 'v option"
  lru_get_mut :: "'c \<Rightarrow> string \<Rightarrow> ('v \<times> ('v \<Rightarrow> 'c)) option"
  lru_put :: "'c \<Rightarrow> string \<Rightarrow> 'v \<Rightarrow> 'c"
  lru_pop :: "'c \<Rightarrow> string \<Rightarrow> 'c"
  lru_pop_lru :: "'c \<Rightarrow> ((string \<times> 'v) \<times> 'c) option"
  lru_peek_lru :: "'c \<Rightarrow> (string \<times> 'v) option"
  lru_iter :: "'c \<Rightarrow> (string \<times> 'v) list"
  lru_clear :: "'c \<Rightarrow> 'c"

section \<open>The documented contract of the LRU cache\<close>

definition lru_contract :: "('c, 'v) lru_ops \<Rightarrow> bool" where
  "lru_contract ops =
     ((\<forall>n. lru_iter ops (lru_new ops n) = [] \<and> lru_cap ops (lru_new ops n) = n)
    \<and> (\<forall>c. lru_len ops c = length (lru_iter ops c))
    \<and> (\<forall>c k. lru_peek ops c k = map_of (lru_iter ops c) k)
    \<and> (\<forall>c k. (case lru_get_mut ops c k of
          None \<Rightarrow> map_of (lru_iter ops c) k = None
        | Some (entry, update) \<Rightarrow> map_of (lru_iter ops c) k = Some entry
            \<and> (\<forall>entry'. lru_iter ops (update entry') = (k, entry') # filter (\<lambda>r. fst r \<noteq> k) (lru_iter ops c)
                \<and> lru_cap ops (update entry') = lru_cap ops c)))
    \<and> (\<forall>c k v. lru_iter ops (lru_put ops c k v)
          = take (lru_cap ops c) ((k, v) # filter (\<lambda>r. fst r \<noteq> k) (lru_iter ops c))
        \<and> lru_cap ops (lru_put ops c k v) = lru_cap ops c)
    \<and> (\<forall>c k. lru_iter ops (lru_pop ops c k) = filter (\<lambda>r. fst r \<noteq> k) (lru_iter ops c)
        \<and> lru_cap ops (lru_pop ops c k) = lru_cap ops c)
    \<and> (\<forall>c. case lru_pop_lru ops c of
          None \<Rightarrow> lru_iter ops c = []
        | Some (row, c') \<Rightarrow> lru_iter ops c = lru_iter ops c' @ [row] \<and> lru_cap ops c' = lru_cap ops c)
    \<and> (\<forall>c. lru_peek_lru ops c = (if lru_iter ops c = [] then None else Some (List.last (lru_iter ops c))))
    \<and> (\<forall>c. lru_iter ops (lru_clear ops c) = [] \<and> lru_cap ops (lru_clear ops c) = lru_cap ops c))"

text \<open>An instance, for the witnesses: the capacity and the list of rows.\<close>

definition list_lru :: "(nat \<times> (string \<times> 'v) list, 'v) lru_ops" where
  "list_lru =
     \<lparr>lru_new = (\<lambda>n. (n, [])),
      lru_cap = fst,
      lru_len = (\<lambda>c. length (snd c)),
      lru_peek = (\<lambda>c k. map_of (snd c) k),
      lru_get_mut = (\<lambda>c k. map_option
        (\<lambda>entry. (entry, \<lambda>entry'. (fst c, (k, entry') # filter (\<lambda>r. fst r \<noteq> k) (snd c)))) (map_of (snd c) k)),
      lru_put = (\<lambda>c k v. (fst c, take (fst c) ((k, v) # filter (\<lambda>r. fst r \<noteq> k) (snd c)))),
      lru_pop = (\<lambda>c k. (fst c, filter (\<lambda>r. fst r \<noteq> k) (snd c))),
      lru_pop_lru = (\<lambda>c. if snd c = [] then None else Some (List.last (snd c), (fst c, butlast (snd c)))),
      lru_peek_lru = (\<lambda>c. if snd c = [] then None else Some (List.last (snd c))),
      lru_iter = snd,
      lru_clear = (\<lambda>c. (fst c, []))\<rparr>"

lemma list_lru_contract: "lru_contract list_lru"
  by (auto simp: lru_contract_def list_lru_def split: option.split)

lemma lru_simps:
  assumes "lru_contract ops"
  shows "lru_iter ops (lru_new ops n) = []" "lru_cap ops (lru_new ops n) = n"
    "lru_len ops c = length (lru_iter ops c)"
    "lru_peek ops c k = map_of (lru_iter ops c) k"
    "lru_iter ops (lru_put ops c k v)
       = take (lru_cap ops c) ((k, v) # filter (\<lambda>r. fst r \<noteq> k) (lru_iter ops c))"
    "lru_cap ops (lru_put ops c k v) = lru_cap ops c"
    "lru_iter ops (lru_pop ops c k) = filter (\<lambda>r. fst r \<noteq> k) (lru_iter ops c)"
    "lru_cap ops (lru_pop ops c k) = lru_cap ops c"
    "lru_peek_lru ops c = (if lru_iter ops c = [] then None else Some (List.last (lru_iter ops c)))"
    "lru_iter ops (lru_clear ops c) = []" "lru_cap ops (lru_clear ops c) = lru_cap ops c"
  using assms by (simp_all add: lru_contract_def)

lemma lru_get_mut_cases:
  assumes "lru_contract ops"
  obtains (absent) "lru_get_mut ops c k = None" "map_of (lru_iter ops c) k = None"
  | (present) entry update where "lru_get_mut ops c k = Some (entry, update)"
      "map_of (lru_iter ops c) k = Some entry"
      "\<And>e. lru_iter ops (update e) = (k, e) # filter (\<lambda>r. fst r \<noteq> k) (lru_iter ops c)"
      "\<And>e. lru_cap ops (update e) = lru_cap ops c"
proof -
  have "case lru_get_mut ops c k of
          None \<Rightarrow> map_of (lru_iter ops c) k = None
        | Some (entry, update) \<Rightarrow> map_of (lru_iter ops c) k = Some entry
            \<and> (\<forall>entry'. lru_iter ops (update entry') = (k, entry') # filter (\<lambda>r. fst r \<noteq> k) (lru_iter ops c)
                \<and> lru_cap ops (update entry') = lru_cap ops c)"
    using assms by (simp add: lru_contract_def)
  then show thesis using that by (cases "lru_get_mut ops c k") auto
qed

lemma lru_pop_lru_snoc:
  assumes "lru_contract ops" "lru_iter ops c = rows @ [row]"
  obtains c' where "lru_pop_lru ops c = Some (row, c')" "lru_iter ops c' = rows"
    "lru_cap ops c' = lru_cap ops c"
proof -
  have "case lru_pop_lru ops c of
          None \<Rightarrow> lru_iter ops c = []
        | Some (row, c') \<Rightarrow> lru_iter ops c = lru_iter ops c' @ [row] \<and> lru_cap ops c' = lru_cap ops c"
    using assms by (simp add: lru_contract_def)
  then show thesis using that assms(2) by (cases "lru_pop_lru ops c") auto
qed

end
