(* ===== verification/AnchorIndex.thy ===== *)
theory AnchorIndex
  imports AnchorUnion Utf8 LruCache
begin

text \<open>
  The conversation-anchor recovery index
  (\<open>crates/llm-access-kiro/src/cache_sim/anchor_index.rs\<close>): a time-bounded LRU from anchor
  hashes to conversation ids.  The LRU cache itself is the \<open>lru\<close> crate and the hexadecimal
  conversion the \<open>hex\<close> crate: their operations are arguments (\<open>lru_ops\<close>, \<open>hex_ops\<close>) and
  what their documentation promises is the hypothesis \<open>lru_contract\<close> or \<open>hex_contract\<close>.
\<close>

definition MIN_ANCHOR_ROW_WIRE_BYTES :: nat where
  "MIN_ANCHOR_ROW_WIRE_BYTES = 35"

definition MAX_ANCHOR_CONVERSATION_ID_BYTES :: nat where
  "MAX_ANCHOR_CONVERSATION_ID_BYTES = 1024"

record conversation_anchor_entry =
  ce_conversation_id :: string
  ce_token_counts :: "anchor_token_counts option"
  ce_last_touched_at :: instant

type_synonym anchor_row = "string \<times> conversation_anchor_entry"

type_synonym 'c anchor_index = "'c option"

definition anchor_index_default :: "'c anchor_index" where
  "anchor_index_default = None"

definition entry_expired :: "instant \<Rightarrow> duration \<Rightarrow> conversation_anchor_entry \<Rightarrow> bool" where
  "entry_expired now ttl entry = (ttl < duration_since now (ce_last_touched_at entry))"

text \<open>\<open>while let Some((key, value)) = cache.pop_lru()\<close>, at most as often as there are entries.\<close>

fun refill :: "('c, conversation_anchor_entry) lru_ops \<Rightarrow> nat \<Rightarrow> 'c \<Rightarrow> 'c \<Rightarrow> 'c" where
  "refill ops 0 cache replacement = replacement"
| "refill ops (Suc n) cache replacement =
     (case lru_pop_lru ops cache of
        Some ((key, value), cache') \<Rightarrow> refill ops n cache' (lru_put ops replacement key value)
      | None \<Rightarrow> replacement)"

definition ensure_capacity :: "('c, conversation_anchor_entry) lru_ops \<Rightarrow> 'c anchor_index \<Rightarrow> nat \<Rightarrow> 'c anchor_index" where
  "ensure_capacity ops index max_entries =
     (let capacity = max max_entries 1 in
      case index of
        Some cache \<Rightarrow>
          (if lru_cap ops cache = capacity then Some cache
           else Some (refill ops (lru_len ops cache) cache (lru_new ops capacity)))
      | None \<Rightarrow> Some (lru_new ops capacity))"

fun pop_expired :: "('c, conversation_anchor_entry) lru_ops \<Rightarrow> nat \<Rightarrow> instant \<Rightarrow> duration \<Rightarrow> 'c \<Rightarrow> 'c" where
  "pop_expired ops 0 now ttl cache = cache"
| "pop_expired ops (Suc n) now ttl cache =
     (case lru_peek_lru ops cache of
        Some (key, entry) \<Rightarrow>
          (if entry_expired now ttl entry then
             (case lru_pop_lru ops cache of
                Some (row, cache') \<Rightarrow> pop_expired ops n now ttl cache'
              | None \<Rightarrow> pop_expired ops n now ttl cache)
           else cache)
      | None \<Rightarrow> cache)"

definition remove_expired :: "('c, conversation_anchor_entry) lru_ops \<Rightarrow> 'c anchor_index \<Rightarrow> instant \<Rightarrow> duration \<Rightarrow> 'c anchor_index" where
  "remove_expired ops index now ttl =
     (case index of
        None \<Rightarrow> None
      | Some cache \<Rightarrow> Some (pop_expired ops (lru_len ops cache) now ttl cache))"

definition anchor_get ::
  "('c, conversation_anchor_entry) lru_ops \<Rightarrow> 'c anchor_index \<Rightarrow> string \<Rightarrow> instant \<Rightarrow> duration \<Rightarrow> nat
     \<Rightarrow> string option \<times> 'c anchor_index" where
  "anchor_get ops index0 anchor now ttl max_entries =
     (let index = ensure_capacity ops index0 max_entries;
          expired = (case Option.bind index (\<lambda>cache. lru_peek ops cache anchor) of
                       Some entry \<Rightarrow> entry_expired now ttl entry | None \<Rightarrow> False) in
      if expired then (None, map_option (\<lambda>cache. lru_pop ops cache anchor) index)
      else (case index of
          None \<Rightarrow> (None, index)
        | Some cache \<Rightarrow>
            (case lru_get_mut ops cache anchor of
               None \<Rightarrow> (None, index)
             | Some (entry, update) \<Rightarrow>
                 (Some (ce_conversation_id entry), Some (update (entry\<lparr>ce_last_touched_at := now\<rparr>))))))"

definition recover_token_counts ::
  "('c, conversation_anchor_entry) lru_ops \<Rightarrow> 'c anchor_index \<Rightarrow> string \<Rightarrow> instant \<Rightarrow> duration
     \<Rightarrow> anchor_token_counts option \<times> 'c anchor_index" where
  "recover_token_counts ops index anchor now ttl =
     (case index of
        None \<Rightarrow> (None, None)
      | Some cache \<Rightarrow>
          (case lru_peek ops cache anchor of
             None \<Rightarrow> (None, index)
           | Some entry \<Rightarrow>
               (if entry_expired now ttl entry then (None, Some (lru_pop ops cache anchor))
                else (ce_token_counts entry, index))))"

definition anchor_insert ::
  "('c, conversation_anchor_entry) lru_ops \<Rightarrow> 'c anchor_index \<Rightarrow> string \<Rightarrow> string \<Rightarrow> anchor_token_counts option \<Rightarrow> instant
     \<Rightarrow> duration \<Rightarrow> nat \<Rightarrow> 'c anchor_index" where
  "anchor_insert ops index anchor conversation token_counts now ttl max_entries =
     map_option
       (\<lambda>cache. lru_put ops cache anchor
          \<lparr>ce_conversation_id = conversation, ce_token_counts = token_counts, ce_last_touched_at = now\<rparr>)
       (remove_expired ops (ensure_capacity ops index max_entries) now ttl)"

definition anchor_len :: "('c, conversation_anchor_entry) lru_ops \<Rightarrow> 'c anchor_index \<Rightarrow> nat" where
  "anchor_len ops index = (case index of None \<Rightarrow> 0 | Some cache \<Rightarrow> lru_len ops cache)"

definition anchor_is_empty :: "('c, conversation_anchor_entry) lru_ops \<Rightarrow> 'c anchor_index \<Rightarrow> bool" where
  "anchor_is_empty ops index = (case index of None \<Rightarrow> True | Some cache \<Rightarrow> lru_len ops cache = 0)"

record conversation_anchor_runtime_stats =
  as_entries :: nat
  as_max_entries :: nat
  as_estimated_memory_bytes :: nat

text \<open>\<open>size_of\<close> is the compiler's: the two sizes are arguments.\<close>

definition estimate_anchor_index_memory_bytes :: "nat \<Rightarrow> nat \<Rightarrow> nat \<Rightarrow> nat" where
  "estimate_anchor_index_memory_bytes entry_bytes key_bytes entries =
     sat_mul_u64 entries (sat_add_u64 entry_bytes key_bytes)"

definition anchor_snapshot_stats ::
  "('c, conversation_anchor_entry) lru_ops \<Rightarrow> nat \<Rightarrow> nat \<Rightarrow> 'c anchor_index \<Rightarrow> nat \<Rightarrow> conversation_anchor_runtime_stats" where
  "anchor_snapshot_stats ops entry_bytes key_bytes index max_entries =
     \<lparr>as_entries = anchor_len ops index, as_max_entries = max max_entries 1,
      as_estimated_memory_bytes =
        estimate_anchor_index_memory_bytes entry_bytes key_bytes (anchor_len ops index)\<rparr>"

section \<open>The anchor section of a snapshot\<close>

record hex_ops =
  hex_encode :: "byte list \<Rightarrow> string"
  hex_decode :: "string \<Rightarrow> byte list option"

definition encode_token_counts :: "anchor_token_counts option \<Rightarrow> byte list" where
  "encode_token_counts tc =
     (case tc of
        Some counts \<Rightarrow>
          [1] @ write_zigzag (scast (real_input_tokens counts))
            @ write_zigzag (scast (local_input_tokens counts))
      | None \<Rightarrow> [0])"

definition encode_anchor_row :: "instant \<Rightarrow> byte list \<Rightarrow> conversation_anchor_entry \<Rightarrow> byte list" where
  "encode_anchor_row now raw entry =
     raw @ write_varint (length (ce_conversation_id entry)) @ str_bytes (ce_conversation_id entry)
       @ encode_token_counts (ce_token_counts entry)
       @ write_varint (as_secs (duration_since now (ce_last_touched_at entry)))"

fun encode_anchor_rows ::
  "hex_ops \<Rightarrow> instant \<Rightarrow> nat option \<Rightarrow> nat \<Rightarrow> anchor_row list \<Rightarrow> nat \<times> byte list" where
  "encode_anchor_rows hex now cap row_count [] = (row_count, [])"
| "encode_anchor_rows hex now cap row_count ((hex_key, entry) # rows) =
     (if (case cap of Some m \<Rightarrow> m \<le> row_count | None \<Rightarrow> False) then (row_count, [])
      else (case hex_decode hex hex_key of
          None \<Rightarrow> encode_anchor_rows hex now cap row_count rows
        | Some raw \<Rightarrow>
            (if length raw \<noteq> 32 then encode_anchor_rows hex now cap row_count rows
             else (case encode_anchor_rows hex now cap (Suc row_count) rows of
                 (n, body) \<Rightarrow> (n, encode_anchor_row now raw entry @ body)))))"

definition encode_anchor_section ::
  "('c, conversation_anchor_entry) lru_ops \<Rightarrow> hex_ops \<Rightarrow> 'c anchor_index \<Rightarrow> instant \<Rightarrow> nat option \<Rightarrow> byte list" where
  "encode_anchor_section ops hex index now cap_entries =
     (case encode_anchor_rows hex now cap_entries 0
          (case index of None \<Rightarrow> [] | Some cache \<Rightarrow> lru_iter ops cache) of
        (row_count, rows) \<Rightarrow> write_varint row_count @ rows)"

definition read_i32 :: "snapshot_reader \<Rightarrow> snapshot_error + (32 word \<times> snapshot_reader)" where
  "read_i32 r =
     (case read_zigzag r of
        Inl e \<Rightarrow> Inl e
      | Inr (v, r1) \<Rightarrow>
          (if sint v < - (2 ^ 31) \<or> 2 ^ 31 \<le> sint v then Inl Malformed else Inr (scast v, r1)))"

definition read_token_counts ::
  "snapshot_reader \<Rightarrow> snapshot_error + (anchor_token_counts option \<times> snapshot_reader)" where
  "read_token_counts r =
     (case read_u8 r of
        Inl e \<Rightarrow> Inl e
      | Inr (flag, r1) \<Rightarrow>
          (if flag = 1 then
             (case read_i32 r1 of
                Inl e \<Rightarrow> Inl e
              | Inr (real_tokens, r2) \<Rightarrow>
                  (case read_i32 r2 of
                     Inl e \<Rightarrow> Inl e
                   | Inr (local_tokens, r3) \<Rightarrow>
                       Inr (Some \<lparr>real_input_tokens = real_tokens, local_input_tokens = local_tokens\<rparr>, r3)))
           else Inr (None, r1)))"

definition read_conversation_id :: "snapshot_reader \<Rightarrow> snapshot_error + (string \<times> snapshot_reader)" where
  "read_conversation_id r =
     (case read_varint r of
        Inl e \<Rightarrow> Inl e
      | Inr (conv_len, r1) \<Rightarrow>
          (if MAX_ANCHOR_CONVERSATION_ID_BYTES < conv_len then Inl Malformed
           else (case read_bytes conv_len r1 of
               Inl e \<Rightarrow> Inl e
             | Inr (conv_bytes, r2) \<Rightarrow>
                 (if utf8_valid conv_bytes then Inr (bytes_str conv_bytes, r2) else Inl Malformed))))"

definition read_anchor_row ::
  "hex_ops \<Rightarrow> int \<Rightarrow> snapshot_reader \<Rightarrow> snapshot_error + (decoded_anchor \<times> snapshot_reader)" where
  "read_anchor_row hex snap_ms r =
     (case read_bytes 32 r of
        Inl e \<Rightarrow> Inl e
      | Inr (raw, r1) \<Rightarrow>
          (case read_conversation_id r1 of
             Inl e \<Rightarrow> Inl e
           | Inr (conv, r2) \<Rightarrow>
               (case read_token_counts r2 of
                  Inl e \<Rightarrow> Inl e
                | Inr (tc, r3) \<Rightarrow>
                    (case read_varint r3 of
                       Inl e \<Rightarrow> Inl e
                     | Inr (age_secs, r4) \<Rightarrow>
                         Inr (\<lparr>da_hex = hex_encode hex raw, da_conversation_id = conv,
                               da_token_counts = tc, da_age_secs = age_secs,
                               da_snapshot_unix_ms = snap_ms\<rparr>, r4)))))"

text \<open>\<open>budget\<close> is how many more rows the ceiling \<open>max_rows\<close> allows.\<close>

fun read_anchor_rows ::
  "hex_ops \<Rightarrow> int \<Rightarrow> nat \<Rightarrow> nat \<Rightarrow> snapshot_reader
     \<Rightarrow> snapshot_error + (decoded_anchor list \<times> snapshot_reader)" where
  "read_anchor_rows hex snap_ms 0 budget r = Inr ([], r)"
| "read_anchor_rows hex snap_ms (Suc row_count) budget r =
     (if budget = 0 then Inr ([], r)
      else (case read_anchor_row hex snap_ms r of
          Inl e \<Rightarrow> Inl e
        | Inr (row, r1) \<Rightarrow>
            (case read_anchor_rows hex snap_ms row_count (budget - 1) r1 of
               Inl e \<Rightarrow> Inl e
             | Inr (rows, r2) \<Rightarrow> Inr (row # rows, r2))))"

definition decode_anchor_section ::
  "hex_ops \<Rightarrow> int \<Rightarrow> nat \<Rightarrow> snapshot_reader
     \<Rightarrow> snapshot_error + (decoded_anchor list \<times> snapshot_reader)" where
  "decode_anchor_section hex snap_ms max_rows r =
     (case read_varint r of
        Inl e \<Rightarrow> Inl e
      | Inr (row_count, r1) \<Rightarrow> read_anchor_rows hex snap_ms row_count max_rows r1)"

definition rebuild_entry :: "instant \<Rightarrow> rebuild_row \<Rightarrow> conversation_anchor_entry" where
  "rebuild_entry now row =
     \<lparr>ce_conversation_id = rr_conversation_id row, ce_token_counts = rr_token_counts row,
      ce_last_touched_at =
        (case instant_checked_sub_secs now (rr_eff_age_secs row) of Some t \<Rightarrow> t | None \<Rightarrow> now)\<rparr>"

definition rebuild_from_rows ::
  "('c, conversation_anchor_entry) lru_ops \<Rightarrow> 'c anchor_index \<Rightarrow> rebuild_row list \<Rightarrow> instant \<Rightarrow> duration \<Rightarrow> nat \<Rightarrow> 'c anchor_index" where
  "rebuild_from_rows ops index0 rows now ttl max_entries =
     (let index = map_option (lru_clear ops) (ensure_capacity ops index0 max_entries) in
      remove_expired ops
        (foldl (\<lambda>index row. map_option (\<lambda>cache. lru_put ops cache (rr_hex row) (rebuild_entry now row)) index)
          index rows)
        now ttl)"

end
