(* ===== verification/JsonValue.thy ===== *)
theory JsonValue
  imports Prelude "HOL-Library.Multiset" "HOL-Library.List_Lexorder" "HOL-Library.Char_ord"
begin

text \<open>
  JSON values as \<open>serde_json::Value\<close> has them, and the canonical form of
  \<open>crates/llm-access-kiro/src/cache_sim/projection.rs\<close>.  An object is the list of its entries
  in the order of iteration, a number its literal.  A \<open>BTreeMap\<close> keyed by strings is a list
  of entries sorted by key.
\<close>

datatype json =
    JNull
  | JBool bool
  | JNumber string
  | JString string
  | JArray "json list"
  | JObject "(string \<times> json) list"

text \<open>The accessors of a value.  An integer literal is a number that fits 64 bits.\<close>

definition json_get :: "json \<Rightarrow> string \<Rightarrow> json option" where
  "json_get value key = (case value of JObject es \<Rightarrow> map_of es key | _ \<Rightarrow> None)"

definition json_as_str :: "json \<Rightarrow> string option" where
  "json_as_str value = (case value of JString s \<Rightarrow> Some s | _ \<Rightarrow> None)"

definition json_as_bool :: "json \<Rightarrow> bool option" where
  "json_as_bool value = (case value of JBool b \<Rightarrow> Some b | _ \<Rightarrow> None)"

definition json_as_array :: "json \<Rightarrow> json list option" where
  "json_as_array value = (case value of JArray items \<Rightarrow> Some items | _ \<Rightarrow> None)"

definition literal_nat :: "string \<Rightarrow> nat option" where
  "literal_nat s =
     (if s \<noteq> [] \<and> list_all (\<lambda>c. of_char c \<in> {48..57 :: nat}) s
      then Some (foldl (\<lambda>n c. 10 * n + (of_char c - 48)) 0 s) else None)"

definition json_as_u64 :: "json \<Rightarrow> nat option" where
  "json_as_u64 value =
     (case value of
        JNumber s \<Rightarrow> (case literal_nat s of Some n \<Rightarrow> if n < 2 ^ 64 then Some n else None | None \<Rightarrow> None)
      | _ \<Rightarrow> None)"

definition json_as_i64 :: "json \<Rightarrow> int option" where
  "json_as_i64 value =
     (case value of
        JNumber s \<Rightarrow>
          (case s of
             [] \<Rightarrow> None
           | c # digits \<Rightarrow>
               (if c = CHR ''-''
                then (case literal_nat digits of
                        Some n \<Rightarrow> if 0 < n \<and> n \<le> 2 ^ 63 then Some (- int n) else None
                      | None \<Rightarrow> None)
                else (case literal_nat s of
                        Some n \<Rightarrow> if n < 2 ^ 63 then Some (int n) else None
                      | None \<Rightarrow> None)))
      | _ \<Rightarrow> None)"

fun btree_insert :: "'k :: linorder \<Rightarrow> 'v \<Rightarrow> ('k \<times> 'v) list \<Rightarrow> ('k \<times> 'v) list" where
  "btree_insert k v [] = [(k, v)]"
| "btree_insert k v ((k', v') # es) =
     (if k < k' then (k, v) # (k', v') # es
      else if k = k' then (k, v) # es
      else (k', v') # btree_insert k v es)"

definition btree_collect :: "('k :: linorder \<times> 'v) list \<Rightarrow> ('k \<times> 'v) list" where
  "btree_collect es = foldl (\<lambda>m (k, v). btree_insert k v m) [] es"

lemma json_entry_size [termination_simp]: "(k, v) \<in> set es \<Longrightarrow> size v < Suc (size_list (size_prod (\<lambda>_. 0) size) es)"
  by (induction es) auto

lemma json_entry_size_snd [termination_simp]:
  "e \<in> set es \<Longrightarrow> size (snd e) < Suc (size_list (size_prod (\<lambda>_. 0) size) es)"
  by (cases e) (simp add: json_entry_size)

fun canonicalize_json :: "json \<Rightarrow> json" where
  "canonicalize_json (JArray items) = JArray (map canonicalize_json items)"
| "canonicalize_json (JObject es) =
     JObject (btree_collect (map (\<lambda>e. (fst e, canonicalize_json (snd e))) es))"
| "canonicalize_json JNull = JNull"
| "canonicalize_json (JBool b) = JBool b"
| "canonicalize_json (JNumber n) = JNumber n"
| "canonicalize_json (JString s) = JString s"

section \<open>Sorted entry lists\<close>

lemma keys_btree_insert [simp]: "fst ` set (btree_insert k v es) = insert k (fst ` set es)"
  by (induction es rule: btree_insert.induct) auto

lemma sorted_btree_insert:
  "sorted_wrt (<) (map fst es) \<Longrightarrow> sorted_wrt (<) (map fst (btree_insert k v es))"
proof (induction k v es rule: btree_insert.induct)
  case (2 k v k' v' es)
  have keys: "\<forall>x \<in> fst ` set es. k' < x" using "2.prems" by simp
  show ?case
  proof (cases "k < k' \<or> k = k'")
    case True
    then show ?thesis using "2.prems" keys by (auto intro: less_trans)
  next
    case False
    then have "\<forall>x \<in> fst ` set (btree_insert k v es). k' < x" using keys by auto
    then show ?thesis using False 2 by simp
  qed
qed simp

lemma mset_btree_insert:
  "k \<notin> fst ` set es \<Longrightarrow> mset (btree_insert k v es) = add_mset (k, v) (mset es)"
  by (induction k v es rule: btree_insert.induct) auto

lemma btree_collect_sorted: "sorted_wrt (<) (map fst (btree_collect es))"
proof -
  have "sorted_wrt (<) (map fst m) \<Longrightarrow>
      sorted_wrt (<) (map fst (foldl (\<lambda>m (k, v). btree_insert k v m) m es))" for m :: "('a \<times> 'b) list"
    by (induction es arbitrary: m) (auto simp: sorted_btree_insert)
  then show ?thesis by (simp add: btree_collect_def)
qed

lemma mset_btree_collect:
  assumes "distinct (map fst es)"
  shows "mset (btree_collect es) = mset es"
proof -
  have "distinct (map fst es) \<Longrightarrow> fst ` set m \<inter> fst ` set es = {} \<Longrightarrow>
      mset (foldl (\<lambda>m (k, v). btree_insert k v m) m es) = mset m + mset es"
    for m :: "('a \<times> 'b) list"
    by (induction es arbitrary: m) (auto simp: mset_btree_insert)
  from this[of "[]"] show ?thesis using assms by (simp add: btree_collect_def)
qed

lemma sorted_keys_unique:
  fixes xs ys :: "('k :: linorder \<times> 'v) list"
  assumes "sorted_wrt (<) (map fst xs)" "sorted_wrt (<) (map fst ys)" "mset xs = mset ys"
  shows "xs = ys"
  using assms
proof (induction xs arbitrary: ys)
  case (Cons x xs)
  then obtain y ys' where ys: "ys = y # ys'" by (cases ys) auto
  have "x = y"
  proof (rule ccontr)
    assume "x \<noteq> y"
    then have "x \<in> set ys'" "y \<in> set xs"
      using Cons.prems(3) ys by (metis list.set_intros(1) set_ConsD set_mset_mset)+
    then show False using Cons.prems(1,2) ys by fastforce
  qed
  then show ?case using Cons ys by simp
qed simp

lemma btree_collect_perm:
  "distinct (map fst es) \<Longrightarrow> mset es = mset es' \<Longrightarrow> btree_collect es = btree_collect es'"
  by (intro sorted_keys_unique btree_collect_sorted)
    (metis mset_btree_collect mset_map distinct_count_atmost_1 set_mset_mset)

lemma btree_collect_id: "sorted_wrt (<) (map fst es) \<Longrightarrow> btree_collect es = es"
  by (rule sorted_keys_unique[OF btree_collect_sorted])
    (auto simp: strict_sorted_iff mset_btree_collect)

section \<open>Equality up to the order of keys\<close>

fun json_wf :: "json \<Rightarrow> bool" where
  "json_wf (JArray items) = (\<forall>v \<in> set items. json_wf v)"
| "json_wf (JObject es) = (distinct (map fst es) \<and> (\<forall>e \<in> set es. json_wf (snd e)))"
| "json_wf _ = True"

inductive json_equiv :: "json \<Rightarrow> json \<Rightarrow> bool" where
  equiv_null: "json_equiv JNull JNull"
| equiv_bool: "json_equiv (JBool b) (JBool b)"
| equiv_number: "json_equiv (JNumber n) (JNumber n)"
| equiv_string: "json_equiv (JString s) (JString s)"
| equiv_array: "list_all2 json_equiv xs ys \<Longrightarrow> json_equiv (JArray xs) (JArray ys)"
| equiv_object: "mset zs = mset ys
    \<Longrightarrow> list_all2 (\<lambda>a b. fst a = fst b \<and> json_equiv (snd a) (snd b)) xs zs
    \<Longrightarrow> json_equiv (JObject xs) (JObject ys)"

inductive_simps json_equiv_simps:
  "json_equiv JNull v" "json_equiv (JBool b) v" "json_equiv (JNumber n) v" "json_equiv (JString s) v"
  "json_equiv (JArray xs) v" "json_equiv (JObject xs) v"

lemma canonical_map_keys [simp]: "map fst (map (\<lambda>e. (fst e, canonicalize_json (snd e))) es) = map fst es"
  by simp

lemma canonicalize_equiv: "json_equiv a b \<Longrightarrow> json_wf b \<Longrightarrow> canonicalize_json a = canonicalize_json b"
proof (induction rule: json_equiv.induct)
  case (equiv_array xs ys)
  then show ?case by (auto simp: list_all2_conv_all_nth intro!: nth_equalityI)
next
  case (equiv_object zs ys xs)
  let ?c = "\<lambda>e. (fst e, canonicalize_json (snd e))"
  have wf: "\<forall>e \<in> set zs. json_wf (snd e)" "distinct (map fst ys)"
    using equiv_object.prems mset_eq_setD[OF equiv_object.hyps(1)] by simp_all
  have "map ?c xs = map ?c zs"
    using equiv_object.IH wf(1) by (auto simp: list_all2_conv_all_nth intro!: nth_equalityI)
  moreover have "mset (map ?c zs) = mset (map ?c ys)" using equiv_object.hyps(1) by simp
  moreover have "distinct (map fst (map ?c ys))" using wf(2) by (simp add: comp_def)
  ultimately show ?case using btree_collect_perm[of "map ?c ys" "map ?c zs"] by simp
qed simp_all

lemma canonicalize_self: "json_wf v \<Longrightarrow> json_equiv v (canonicalize_json v) \<and> json_wf (canonicalize_json v)"
proof (induction v rule: canonicalize_json.induct)
  case (1 items)
  then show ?case by (auto simp: json_equiv_simps list_all2_conv_all_nth)
next
  case (2 es)
  let ?c = "map (\<lambda>e. (fst e, canonicalize_json (snd e))) es"
  have d: "distinct (map fst ?c)" using "2.prems" by (simp add: comp_def)
  have eq: "mset ?c = mset (btree_collect ?c)" by (rule mset_btree_collect[OF d, symmetric])
  have "list_all2 (\<lambda>a b. fst a = fst b \<and> json_equiv (snd a) (snd b)) es ?c"
    using 2 by (auto simp: list_all2_conv_all_nth)
  then have "json_equiv (JObject es) (JObject (btree_collect ?c))" using equiv_object[OF eq] by blast
  moreover have "json_wf (JObject (btree_collect ?c))"
  proof -
    have "\<forall>e \<in> set ?c. json_wf (snd e)" using 2 by auto
    then have "\<forall>e \<in> set (btree_collect ?c). json_wf (snd e)" unfolding mset_eq_setD[OF eq] .
    then show ?thesis using btree_collect_sorted[of ?c] by (simp add: strict_sorted_iff)
  qed
  ultimately show ?case by simp
qed (simp_all add: json_equiv_simps)

lemma json_equiv_refl: "json_equiv v v"
proof (induction v rule: canonicalize_json.induct)
  case (2 es)
  then have "list_all2 (\<lambda>a b. fst a = fst b \<and> json_equiv (snd a) (snd b)) es es"
    by (auto simp: list_all2_same)
  then show ?case using equiv_object[OF refl] by blast
qed (auto simp: json_equiv_simps list_all2_same)

lemma json_equiv_sym: "json_equiv a b \<Longrightarrow> json_equiv b a"
proof (induction rule: json_equiv.induct)
  case (equiv_array xs ys)
  then show ?case by (auto simp: json_equiv_simps list_all2_conv_all_nth)
next
  case (equiv_object zs ys xs)
  let ?R = "\<lambda>a b. fst a = fst b \<and> json_equiv (snd a) (snd b)"
  have "list_all2 ?R zs xs" using equiv_object.IH by (auto simp: list_all2_conv_all_nth)
  then obtain ws where "list_all2 ?R ys ws" "mset ws = mset xs"
    using list_all2_reorder_left_invariance[of ?R zs xs ys] equiv_object.hyps(1) by auto
  then show ?case by (auto simp: json_equiv_simps)
qed (simp_all add: json_equiv_simps)

lemma json_equiv_trans: "json_equiv a b \<Longrightarrow> json_equiv b c \<Longrightarrow> json_equiv a c"
proof (induction arbitrary: c rule: json_equiv.induct)
  case (equiv_array xs ys)
  then show ?case by (auto simp: json_equiv_simps list_all2_conv_all_nth)
next
  case (equiv_object zs ys xs)
  let ?R = "\<lambda>a b. fst a = fst b \<and> json_equiv (snd a) (snd b)"
  obtain ws vs where c: "c = JObject vs" "mset ws = mset vs" "list_all2 ?R ys ws"
    using equiv_object.prems by (auto simp: json_equiv_simps)
  obtain us where us: "list_all2 ?R zs us" "mset us = mset ws"
    using list_all2_reorder_left_invariance[OF c(3) equiv_object.hyps(1)] by auto
  have "list_all2 ?R xs us"
    using equiv_object.IH us(1) by (auto simp: list_all2_conv_all_nth)
  then show ?case using c us(2) by (auto simp: json_equiv_simps)
qed (simp_all add: json_equiv_simps)

end
