(* ===== verification/Projection.thy ===== *)
theory Projection
  imports CachePages Utf8 JsonValue
begin

text \<open>
  The canonical prompt projection (\<open>crates/llm-access-kiro/src/cache_sim/projection.rs\<close>) of a
  conversation (\<open>crates/llm-access-kiro/src/wire.rs\<close>).  The hash functions and the JSON text
  of a value are library code and arguments of the model (\<open>canon_ops\<close>); an incremental SHA-256
  hasher is the list of the bytes it was fed.
\<close>

section \<open>Conversations\<close>

record kiro_image =
  image_format :: string
  image_source_bytes :: string

record kiro_document =
  document_name :: string
  document_format :: string
  document_source_bytes :: string

record tool_result =
  tr_tool_use_id :: string
  tr_content :: "(string \<times> json) list list"
  tr_status :: "string option"
  tr_is_error :: bool

record tool_use_entry =
  tu_tool_use_id :: string
  tu_name :: string
  tu_input :: json

record kiro_tool =
  tool_name :: string
  tool_description :: string
  tool_input_schema :: json

record user_input_message_context =
  ctx_tool_results :: "tool_result list"
  ctx_tools :: "kiro_tool list"

record user_message =
  um_content :: string
  um_model_id :: string
  um_origin :: "string option"
  um_images :: "kiro_image list"
  um_documents :: "kiro_document list"
  um_context :: user_input_message_context

record user_input_message =
  uim_context :: user_input_message_context
  uim_content :: string
  uim_model_id :: string
  uim_images :: "kiro_image list"
  uim_documents :: "kiro_document list"
  uim_origin :: "string option"

record assistant_message =
  am_content :: string
  am_tool_uses :: "tool_use_entry list option"

datatype message =
    User user_message
  | Assistant assistant_message

record conversation_state =
  cs_agent_continuation_id :: "string option"
  cs_agent_task_type :: "string option"
  cs_chat_trigger_type :: "string option"
  cs_current_message :: user_input_message
  cs_conversation_id :: string
  cs_history :: "message list"

record canon_ops =
  xxh3_64 :: "byte list \<Rightarrow> u64"
  xxh3_128 :: "byte list \<Rightarrow> u128"
  sha256 :: "byte list \<Rightarrow> string"
  json_text :: "json \<Rightarrow> string"

section \<open>Text\<close>

definition char_is_word :: "byte list \<Rightarrow> bool" where
  "char_is_word c =
     (length c = 1 \<and>
      (0x30 \<le> c ! 0 \<and> c ! 0 \<le> 0x39 \<or> 0x41 \<le> c ! 0 \<and> c ! 0 \<le> 0x5A
       \<or> 0x61 \<le> c ! 0 \<and> c ! 0 \<le> 0x7A \<or> c ! 0 = 0x5F))"

fun replace_crlf :: "byte list \<Rightarrow> byte list" where
  "replace_crlf (a # b # s) =
     (if a = 0x0D \<and> b = 0x0A then 0x0A # replace_crlf s else a # replace_crlf (b # s))"
| "replace_crlf s = s"

definition normalize_text :: "string \<Rightarrow> string" where
  "normalize_text raw = bytes_str (trim (replace_crlf (str_bytes raw)))"

definition hash_token_atom :: "canon_ops \<Rightarrow> byte list \<Rightarrow> u64" where
  "hash_token_atom ops text = xxh3_64 ops text"

text \<open>
  The scan of \<open>tokenize_text_atoms\<close>: the ASCII word that is open holds the characters from
  its first to its last, which are the slice the source cuts out.
\<close>

fun token_atoms_loop :: "canon_ops \<Rightarrow> byte list option \<Rightarrow> byte list list \<Rightarrow> u64 list" where
  "token_atoms_loop ops word [] =
     (case word of Some w \<Rightarrow> [hash_token_atom ops w] | None \<Rightarrow> [])"
| "token_atoms_loop ops word (ch # chars) =
     (if char_is_word ch
      then token_atoms_loop ops (Some ((case word of Some w \<Rightarrow> w | None \<Rightarrow> []) @ ch)) chars
      else (case word of Some w \<Rightarrow> [hash_token_atom ops w] | None \<Rightarrow> [])
        @ (if char_is_whitespace ch then [] else [hash_token_atom ops ch])
        @ token_atoms_loop ops None chars)"

definition tokenize_text_atoms :: "canon_ops \<Rightarrow> string \<Rightarrow> u64 list" where
  "tokenize_text_atoms ops text =
     (let atoms = token_atoms_loop ops None (utf8_chars (str_bytes text)) in
      if atoms = [] \<and> text \<noteq> [] then [hash_token_atom ops (str_bytes text)] else atoms)"

section \<open>Canonical segments\<close>

datatype canonical_segment =
    CanonicalText string string
  | CanonicalImage string string string
  | CanonicalDocument string string string string
  | CanonicalToolResult string string string bool json
  | CanonicalToolUse string string string json
  | CanonicalToolDefinition string string string json

fun segment_json :: "canonical_segment \<Rightarrow> json" where
  "segment_json (CanonicalText kind text) = JObject [(''kind'', JString kind), (''text'', JString text)]"
| "segment_json (CanonicalImage kind format digest) =
     JObject [(''kind'', JString kind), (''format'', JString format), (''digest'', JString digest)]"
| "segment_json (CanonicalDocument kind name format digest) =
     JObject [(''kind'', JString kind), (''name'', JString name), (''format'', JString format),
              (''digest'', JString digest)]"
| "segment_json (CanonicalToolResult kind tool_use_id status is_error content) =
     JObject [(''kind'', JString kind), (''tool_use_id'', JString tool_use_id),
              (''status'', JString status), (''is_error'', JBool is_error), (''content'', content)]"
| "segment_json (CanonicalToolUse kind tool_use_id name input) =
     JObject [(''kind'', JString kind), (''tool_use_id'', JString tool_use_id),
              (''name'', JString name), (''input'', input)]"
| "segment_json (CanonicalToolDefinition kind name description input_schema) =
     JObject [(''kind'', JString kind), (''name'', JString name),
              (''description'', JString description), (''input_schema'', input_schema)]"

definition serialize_canonical_segment :: "canon_ops \<Rightarrow> canonical_segment \<Rightarrow> string" where
  "serialize_canonical_segment ops segment = json_text ops (segment_json segment)"

record canonical_input_unit =
  unit_key :: string
  unit_token_atoms :: "u64 list"

definition sha256_hex :: "canon_ops \<Rightarrow> string \<Rightarrow> string" where
  "sha256_hex ops bytes = sha256 ops (str_bytes bytes)"

definition text_units :: "canon_ops \<Rightarrow> string \<Rightarrow> string \<Rightarrow> canonical_input_unit list" where
  "text_units ops kind_prefix content =
     (let normalized_content = normalize_text content in
      if normalized_content = [] then []
      else [\<lparr>unit_key = serialize_canonical_segment ops
               (CanonicalText (kind_prefix @ ''_text'') normalized_content),
             unit_token_atoms = tokenize_text_atoms ops normalized_content\<rparr>])"

definition image_unit :: "canon_ops \<Rightarrow> string \<Rightarrow> kiro_image \<Rightarrow> canonical_input_unit" where
  "image_unit ops kind_prefix img =
     \<lparr>unit_key = serialize_canonical_segment ops
        (CanonicalImage (kind_prefix @ ''_image'') (normalize_text (image_format img))
           (sha256_hex ops (image_source_bytes img))),
      unit_token_atoms = []\<rparr>"

definition document_unit :: "canon_ops \<Rightarrow> string \<Rightarrow> kiro_document \<Rightarrow> canonical_input_unit" where
  "document_unit ops kind_prefix document =
     \<lparr>unit_key = serialize_canonical_segment ops
        (CanonicalDocument (kind_prefix @ ''_document'') (normalize_text (document_name document))
           (normalize_text (document_format document)) (sha256_hex ops (document_source_bytes document))),
      unit_token_atoms = []\<rparr>"

definition canonical_tool_result_content :: "(string \<times> json) list list \<Rightarrow> json" where
  "canonical_tool_result_content content = JArray (map (\<lambda>item. canonicalize_json (JObject item)) content)"

definition tool_result_unit :: "canon_ops \<Rightarrow> string \<Rightarrow> tool_result \<Rightarrow> canonical_input_unit" where
  "tool_result_unit ops kind_prefix result =
     (let canonical_content = canonical_tool_result_content (tr_content result);
          token_source = tr_tool_use_id result @ [CHR 0x0A]
            @ (case tr_status result of Some s \<Rightarrow> s | None \<Rightarrow> []) @ [CHR 0x0A]
            @ json_text ops canonical_content in
      \<lparr>unit_key = serialize_canonical_segment ops
         (CanonicalToolResult (kind_prefix @ ''_tool_result'') (normalize_text (tr_tool_use_id result))
            (case tr_status result of Some s \<Rightarrow> normalize_text s | None \<Rightarrow> [])
            (tr_is_error result) canonical_content),
       unit_token_atoms = tokenize_text_atoms ops token_source\<rparr>)"

text \<open>The four parts of a user message, current or past.\<close>

record user_message_parts =
  ump_content :: string
  ump_images :: "kiro_image list"
  ump_documents :: "kiro_document list"
  ump_context :: user_input_message_context

definition canonicalize_user_message_parts ::
  "canon_ops \<Rightarrow> string \<Rightarrow> user_message_parts \<Rightarrow> canonical_input_unit list" where
  "canonicalize_user_message_parts ops kind_prefix parts =
     text_units ops kind_prefix (ump_content parts)
       @ map (image_unit ops kind_prefix) (ump_images parts)
       @ map (document_unit ops kind_prefix) (ump_documents parts)
       @ map (tool_result_unit ops kind_prefix) (ctx_tool_results (ump_context parts))"

definition canonicalize_user_message ::
  "canon_ops \<Rightarrow> string \<Rightarrow> user_message \<Rightarrow> canonical_input_unit list" where
  "canonicalize_user_message ops kind_prefix m =
     canonicalize_user_message_parts ops kind_prefix
       \<lparr>ump_content = um_content m, ump_images = um_images m, ump_documents = um_documents m,
        ump_context = um_context m\<rparr>"

definition canonicalize_user_input_message ::
  "canon_ops \<Rightarrow> string \<Rightarrow> user_input_message \<Rightarrow> canonical_input_unit list" where
  "canonicalize_user_input_message ops kind_prefix m =
     canonicalize_user_message_parts ops kind_prefix
       \<lparr>ump_content = uim_content m, ump_images = uim_images m, ump_documents = uim_documents m,
        ump_context = uim_context m\<rparr>"

definition tool_use_unit :: "canon_ops \<Rightarrow> string \<Rightarrow> tool_use_entry \<Rightarrow> canonical_input_unit" where
  "tool_use_unit ops kind_prefix tool_use =
     (let canonical_input = canonicalize_json (tu_input tool_use);
          token_source = tu_tool_use_id tool_use @ [CHR 0x0A] @ tu_name tool_use @ [CHR 0x0A]
            @ json_text ops canonical_input in
      \<lparr>unit_key = serialize_canonical_segment ops
         (CanonicalToolUse (kind_prefix @ ''_tool_use'') (normalize_text (tu_tool_use_id tool_use))
            (normalize_text (tu_name tool_use)) canonical_input),
       unit_token_atoms = tokenize_text_atoms ops token_source\<rparr>)"

definition canonicalize_assistant_segments ::
  "canon_ops \<Rightarrow> string \<Rightarrow> assistant_message \<Rightarrow> canonical_input_unit list" where
  "canonicalize_assistant_segments ops kind_prefix m =
     text_units ops kind_prefix (am_content m)
       @ map (tool_use_unit ops kind_prefix) (case am_tool_uses m of Some us \<Rightarrow> us | None \<Rightarrow> [])"

definition canonicalize_assistant_message :: "canon_ops \<Rightarrow> assistant_message \<Rightarrow> string list" where
  "canonicalize_assistant_message ops m =
     map unit_key (canonicalize_assistant_segments ops ''history_assistant'' m)"

definition tool_definition_unit :: "canon_ops \<Rightarrow> kiro_tool \<Rightarrow> canonical_input_unit" where
  "tool_definition_unit ops tool =
     (let name = normalize_text (tool_name tool); description = normalize_text (tool_description tool);
          canonical_schema = canonicalize_json (tool_input_schema tool);
          token_source = name @ [CHR 0x0A] @ description @ [CHR 0x0A] @ json_text ops canonical_schema in
      \<lparr>unit_key = serialize_canonical_segment ops
         (CanonicalToolDefinition ''stable_tool_definition'' name description canonical_schema),
       unit_token_atoms = tokenize_text_atoms ops token_source\<rparr>)"

definition canonicalize_tools :: "canon_ops \<Rightarrow> kiro_tool list \<Rightarrow> canonical_input_unit list" where
  "canonicalize_tools ops tools = map (tool_definition_unit ops) tools"

fun canonicalize_history_message :: "canon_ops \<Rightarrow> message \<Rightarrow> canonical_input_unit list" where
  "canonicalize_history_message ops (User m) = canonicalize_user_message ops ''history_user'' m"
| "canonicalize_history_message ops (Assistant m) = canonicalize_assistant_segments ops ''history_assistant'' m"

definition canonicalize_history :: "canon_ops \<Rightarrow> message list \<Rightarrow> canonical_input_unit list" where
  "canonicalize_history ops history = concat (map (canonicalize_history_message ops) history)"

definition canonicalize_current_turn_as_history :: "canon_ops \<Rightarrow> user_input_message \<Rightarrow> string list" where
  "canonicalize_current_turn_as_history ops m =
     map unit_key (canonicalize_user_input_message ops ''history_user'' m)"

definition canonicalize_current_turn_for_input ::
  "canon_ops \<Rightarrow> user_input_message \<Rightarrow> canonical_input_unit list" where
  "canonicalize_current_turn_for_input ops m = canonicalize_user_input_message ops ''current_user'' m"

section \<open>Hashes of segments\<close>

type_synonym hasher = "byte list"

definition update_hash_segment :: "hasher \<Rightarrow> string \<Rightarrow> hasher" where
  "update_hash_segment hasher segment = (hasher @ le_bytes 8 (length segment)) @ str_bytes segment"

definition update_hash_segments :: "hasher \<Rightarrow> string list \<Rightarrow> hasher" where
  "update_hash_segments hasher segments = foldl update_hash_segment hasher segments"

definition hash_segments :: "canon_ops \<Rightarrow> string list \<Rightarrow> string" where
  "hash_segments ops segments = sha256 ops (update_hash_segments [] segments)"

section \<open>Token pages\<close>

definition build_token_page :: "canon_ops \<Rightarrow> u64 list \<Rightarrow> canonical_token_page" where
  "build_token_page ops atoms =
     \<lparr>page_key = xxh3_128 ops (concat (map (\<lambda>atom. le_bytes 8 (unat atom)) atoms)),
      page_tokens = word_of_nat (length atoms)\<rparr>"

record token_page_builder =
  tpb_pages :: "canonical_token_page list"
  tpb_current :: "u64 list"

definition page_builder_new :: token_page_builder where
  "page_builder_new = \<lparr>tpb_pages = [], tpb_current = []\<rparr>"

definition push_atom :: "canon_ops \<Rightarrow> token_page_builder \<Rightarrow> u64 \<Rightarrow> token_page_builder" where
  "push_atom ops b atom =
     (let current = tpb_current b @ [atom] in
      if length current = PREFIX_CACHE_PAGE_SIZE
      then \<lparr>tpb_pages = tpb_pages b @ [build_token_page ops current], tpb_current = []\<rparr>
      else b\<lparr>tpb_current := current\<rparr>)"

definition push_atoms :: "canon_ops \<Rightarrow> token_page_builder \<Rightarrow> u64 list \<Rightarrow> token_page_builder" where
  "push_atoms ops b atoms = foldl (push_atom ops) b atoms"

definition page_builder_finish :: "canon_ops \<Rightarrow> token_page_builder \<Rightarrow> canonical_token_page list" where
  "page_builder_finish ops b =
     (if tpb_current b \<noteq> [] then tpb_pages b @ [build_token_page ops (tpb_current b)] else tpb_pages b)"

text \<open>\<open>build_token_pages\<close> packs the atoms of all units with a loop of its own.\<close>

fun pack_pages :: "canon_ops \<Rightarrow> canonical_token_page list \<Rightarrow> u64 list \<Rightarrow> u64 list \<Rightarrow> canonical_token_page list" where
  "pack_pages ops pages current [] =
     (if current \<noteq> [] then pages @ [build_token_page ops current] else pages)"
| "pack_pages ops pages current (atom # atoms) =
     (if length (current @ [atom]) = PREFIX_CACHE_PAGE_SIZE
      then pack_pages ops (pages @ [build_token_page ops (current @ [atom])]) [] atoms
      else pack_pages ops pages (current @ [atom]) atoms)"

definition build_token_pages :: "canon_ops \<Rightarrow> canonical_input_unit list \<Rightarrow> canonical_token_page list" where
  "build_token_pages ops units = pack_pages ops [] [] (concat (map unit_token_atoms units))"

section \<open>The two projections\<close>

record prompt_projection =
  pp_lookup_anchor_hash :: string
  pp_stable_prefix_pages :: "canonical_token_page list"
  pp_projected_input_token_count :: nat
  pp_stable_prefix_segment_keys :: "string list"
  pp_history_anchor_segments :: "string list"
  pp_current_turn_history_segments :: "string list"

definition atom_count :: "canonical_input_unit list \<Rightarrow> nat" where
  "atom_count units = sum_list (map (\<lambda>u. length (unit_token_atoms u)) units)"

definition prompt_projection_of :: "canon_ops \<Rightarrow> conversation_state \<Rightarrow> prompt_projection" where
  "prompt_projection_of ops state =
     (let current = cs_current_message state;
          history_units = canonicalize_history ops (cs_history state);
          history_anchor_segments = map unit_key history_units;
          stable_prefix_units = history_units @ canonicalize_tools ops (ctx_tools (uim_context current));
          current_turn_input_units = canonicalize_current_turn_for_input ops current in
      \<lparr>pp_lookup_anchor_hash = hash_segments ops history_anchor_segments,
       pp_stable_prefix_pages = build_token_pages ops stable_prefix_units,
       pp_projected_input_token_count = atom_count (stable_prefix_units @ current_turn_input_units),
       pp_stable_prefix_segment_keys = map unit_key stable_prefix_units,
       pp_history_anchor_segments = history_anchor_segments,
       pp_current_turn_history_segments = canonicalize_current_turn_as_history ops current\<rparr>)"

definition build_resume_anchor_hash :: "canon_ops \<Rightarrow> prompt_projection \<Rightarrow> assistant_message \<Rightarrow> string" where
  "build_resume_anchor_hash ops p m =
     sha256 ops (update_hash_segments []
       (pp_history_anchor_segments p @ pp_current_turn_history_segments p
          @ canonicalize_assistant_message ops m))"

definition stable_prefix_token_count :: "prompt_projection \<Rightarrow> nat" where
  "stable_prefix_token_count p = prefix_pages_token_count (pp_stable_prefix_pages p)"

record runtime_prompt_projection =
  rp_lookup_anchor_hash :: string
  rp_stable_prefix_pages :: "canonical_token_page list"
  rp_projected_input_token_count :: nat
  rp_resume_anchor_hasher :: hasher

definition into_runtime_projection :: "prompt_projection \<Rightarrow> runtime_prompt_projection" where
  "into_runtime_projection p =
     \<lparr>rp_lookup_anchor_hash = pp_lookup_anchor_hash p,
      rp_stable_prefix_pages = pp_stable_prefix_pages p,
      rp_projected_input_token_count = pp_projected_input_token_count p,
      rp_resume_anchor_hasher =
        update_hash_segments [] (pp_history_anchor_segments p @ pp_current_turn_history_segments p)\<rparr>"

definition runtime_resume_anchor_hash ::
  "canon_ops \<Rightarrow> runtime_prompt_projection \<Rightarrow> assistant_message \<Rightarrow> string" where
  "runtime_resume_anchor_hash ops p m =
     sha256 ops (update_hash_segments (rp_resume_anchor_hasher p) (canonicalize_assistant_message ops m))"

record runtime_builder =
  rb_lookup_anchor_hasher :: hasher
  rb_resume_anchor_hasher :: hasher
  rb_stable_prefix_pages :: token_page_builder
  rb_projected_input_token_count :: nat

definition runtime_builder_new :: runtime_builder where
  "runtime_builder_new =
     \<lparr>rb_lookup_anchor_hasher = [], rb_resume_anchor_hasher = [],
      rb_stable_prefix_pages = page_builder_new, rb_projected_input_token_count = 0\<rparr>"

definition add_stable_unit :: "canon_ops \<Rightarrow> runtime_builder \<Rightarrow> canonical_input_unit \<Rightarrow> runtime_builder" where
  "add_stable_unit ops b u =
     b\<lparr>rb_projected_input_token_count :=
         sat_add_u64 (rb_projected_input_token_count b) (length (unit_token_atoms u)),
       rb_stable_prefix_pages := push_atoms ops (rb_stable_prefix_pages b) (unit_token_atoms u)\<rparr>"

definition add_stable_units :: "canon_ops \<Rightarrow> runtime_builder \<Rightarrow> canonical_input_unit list \<Rightarrow> runtime_builder" where
  "add_stable_units ops b units = foldl (add_stable_unit ops) b units"

definition add_history_units :: "canon_ops \<Rightarrow> runtime_builder \<Rightarrow> canonical_input_unit list \<Rightarrow> runtime_builder" where
  "add_history_units ops b units =
     foldl (\<lambda>b u. add_stable_unit ops
         (b\<lparr>rb_lookup_anchor_hasher := update_hash_segment (rb_lookup_anchor_hasher b) (unit_key u),
            rb_resume_anchor_hasher := update_hash_segment (rb_resume_anchor_hasher b) (unit_key u)\<rparr>) u)
       b units"

definition add_current_input_units :: "runtime_builder \<Rightarrow> canonical_input_unit list \<Rightarrow> runtime_builder" where
  "add_current_input_units b units =
     foldl (\<lambda>b u. b\<lparr>rb_projected_input_token_count :=
         sat_add_u64 (rb_projected_input_token_count b) (length (unit_token_atoms u))\<rparr>) b units"

definition add_current_history_units :: "runtime_builder \<Rightarrow> string list \<Rightarrow> runtime_builder" where
  "add_current_history_units b units =
     foldl (\<lambda>b u. b\<lparr>rb_resume_anchor_hasher := update_hash_segment (rb_resume_anchor_hasher b) u\<rparr>) b units"

definition runtime_builder_finish :: "canon_ops \<Rightarrow> runtime_builder \<Rightarrow> runtime_prompt_projection" where
  "runtime_builder_finish ops b =
     \<lparr>rp_lookup_anchor_hash = sha256 ops (rb_lookup_anchor_hasher b),
      rp_stable_prefix_pages = page_builder_finish ops (rb_stable_prefix_pages b),
      rp_projected_input_token_count = rb_projected_input_token_count b,
      rp_resume_anchor_hasher = rb_resume_anchor_hasher b\<rparr>"

definition build_runtime_prompt_projection ::
  "canon_ops \<Rightarrow> conversation_state \<Rightarrow> runtime_prompt_projection" where
  "build_runtime_prompt_projection ops state =
     (let current = cs_current_message state;
          b0 = foldl (\<lambda>b m. add_history_units ops b (canonicalize_history_message ops m))
                 runtime_builder_new (cs_history state);
          b1 = add_stable_units ops b0 (canonicalize_tools ops (ctx_tools (uim_context current)));
          b2 = add_current_input_units b1 (canonicalize_current_turn_for_input ops current);
          b3 = add_current_history_units b2 (canonicalize_current_turn_as_history ops current) in
      runtime_builder_finish ops b3)"

end
