(* ===== verification/Simulator.thy ===== *)
theory Simulator
  imports PrefixTreeCodec AnchorIndex Projection
begin

text \<open>
  \<open>KiroCacheSimulator\<close> (\<open>crates/llm-access-kiro/src/cache_sim/simulator.rs\<close>): the prefix tree
  and the anchor index behind their locks, driven by prompt projections, and their snapshots.
  Each method holds one lock at a time; a method is the sequence of its locked sections.  The
  library operations are bundled in \<open>sim_ops\<close>; the monotonic and the wall clock are read by
  the caller (\<open>Utc::now\<close> is the argument \<open>now_ms\<close>).
\<close>

datatype cache_simulation_mode =
    Formula
  | PrefixTreeMode

definition mode_from_runtime_value :: "string \<Rightarrow> cache_simulation_mode" where
  "mode_from_runtime_value value = (if value = ''prefix_tree'' then PrefixTreeMode else Formula)"

record cache_simulation_config =
  cfg_mode :: cache_simulation_mode
  cfg_prefix_cache_max_tokens :: nat
  cfg_prefix_cache_entry_ttl :: duration
  cfg_anchor_max_entries :: nat
  cfg_anchor_ttl :: duration

record snapshot_caps =
  caps_max_tokens :: "nat option"
  caps_max_anchor_entries :: "nat option"

record import_outcome =
  io_prefix_from_own :: bool
  io_prefix_from_peer :: bool
  io_prefix_resident_tokens :: nat
  io_anchor_entries :: nat
  io_decode_errors :: nat

definition import_outcome_default :: import_outcome where
  "import_outcome_default =
     \<lparr>io_prefix_from_own = False, io_prefix_from_peer = False, io_prefix_resident_tokens = 0,
      io_anchor_entries = 0, io_decode_errors = 0\<rparr>"

record 'c cache_simulator =
  sim_prefix_tree :: prefix_tree
  sim_anchor_index :: "'c anchor_index"

definition cache_simulator_default :: "'c cache_simulator" where
  "cache_simulator_default = \<lparr>sim_prefix_tree = prefix_tree_default, sim_anchor_index = anchor_index_default\<rparr>"

record 'c sim_ops =
  so_lru :: "('c, conversation_anchor_entry) lru_ops"
  so_hex :: hex_ops
  so_canon :: canon_ops
  so_crc :: "byte list \<Rightarrow> u32"
  so_gzip :: "byte list \<Rightarrow> string + byte list"
  so_gunzip :: "nat \<Rightarrow> byte list \<Rightarrow> string + byte list"

section \<open>Requests\<close>

definition sim_match_pages ::
  "'c cache_simulator \<Rightarrow> canonical_token_page list \<Rightarrow> cache_simulation_config \<Rightarrow> instant
     \<Rightarrow> prefix_cache_match \<times> 'c cache_simulator" where
  "sim_match_pages sim pages config now =
     (if cfg_mode config = Formula then (prefix_cache_match_default, sim)
      else (case match_prefix (sim_prefix_tree sim) pages now (cfg_prefix_cache_entry_ttl config) of
          (matched, tree) \<Rightarrow> (matched, sim\<lparr>sim_prefix_tree := tree\<rparr>)))"

definition sim_match_prefix ::
  "'c cache_simulator \<Rightarrow> prompt_projection \<Rightarrow> cache_simulation_config \<Rightarrow> instant
     \<Rightarrow> prefix_cache_match \<times> 'c cache_simulator" where
  "sim_match_prefix sim projection config now =
     sim_match_pages sim (pp_stable_prefix_pages projection) config now"

definition sim_match_prefix_runtime ::
  "'c cache_simulator \<Rightarrow> runtime_prompt_projection \<Rightarrow> cache_simulation_config \<Rightarrow> instant
     \<Rightarrow> prefix_cache_match \<times> 'c cache_simulator" where
  "sim_match_prefix_runtime sim projection config now =
     sim_match_pages sim (rp_stable_prefix_pages projection) config now"

definition recover_conversation_id ::
  "'c sim_ops \<Rightarrow> 'c cache_simulator \<Rightarrow> string \<Rightarrow> cache_simulation_config \<Rightarrow> instant
     \<Rightarrow> string option \<times> 'c cache_simulator" where
  "recover_conversation_id ops sim lookup_anchor_hash config now =
     (case anchor_get (so_lru ops) (sim_anchor_index sim) lookup_anchor_hash now
             (cfg_anchor_ttl config) (cfg_anchor_max_entries config) of
        (conversation, index) \<Rightarrow> (conversation, sim\<lparr>sim_anchor_index := index\<rparr>))"

definition sim_recover_token_counts ::
  "'c sim_ops \<Rightarrow> 'c cache_simulator \<Rightarrow> runtime_prompt_projection \<Rightarrow> cache_simulation_config \<Rightarrow> instant
     \<Rightarrow> anchor_token_counts option \<times> 'c cache_simulator" where
  "sim_recover_token_counts ops sim projection config now =
     (case recover_token_counts (so_lru ops) (sim_anchor_index sim) (rp_lookup_anchor_hash projection) now
             (cfg_anchor_ttl config) of
        (counts, index) \<Rightarrow> (counts, sim\<lparr>sim_anchor_index := index\<rparr>))"

definition record_pages ::
  "'c cache_simulator \<Rightarrow> canonical_token_page list \<Rightarrow> bool \<Rightarrow> cache_simulation_config \<Rightarrow> instant
     \<Rightarrow> 'c cache_simulator" where
  "record_pages sim pages record_prefix_tree config now =
     (if record_prefix_tree \<and> cfg_mode config = PrefixTreeMode
      then sim\<lparr>sim_prefix_tree := insert_pages (sim_prefix_tree sim) pages now
             (cfg_prefix_cache_entry_ttl config) (cfg_prefix_cache_max_tokens config)\<rparr>
      else sim)"

definition record_anchor ::
  "'c sim_ops \<Rightarrow> 'c cache_simulator \<Rightarrow> string \<Rightarrow> string \<Rightarrow> anchor_token_counts option
     \<Rightarrow> cache_simulation_config \<Rightarrow> instant \<Rightarrow> 'c cache_simulator" where
  "record_anchor ops sim anchor conversation counts config now =
     sim\<lparr>sim_anchor_index := anchor_insert (so_lru ops) (sim_anchor_index sim) anchor conversation counts now
            (cfg_anchor_ttl config) (cfg_anchor_max_entries config)\<rparr>"

definition record_success ::
  "'c sim_ops \<Rightarrow> 'c cache_simulator \<Rightarrow> prompt_projection \<Rightarrow> assistant_message \<Rightarrow> string \<Rightarrow> bool
     \<Rightarrow> cache_simulation_config \<Rightarrow> instant \<Rightarrow> 'c cache_simulator" where
  "record_success ops sim projection assistant conversation record_prefix_tree config now =
     record_anchor ops
       (record_pages sim (pp_stable_prefix_pages projection) record_prefix_tree config now)
       (build_resume_anchor_hash (so_canon ops) projection assistant) conversation None config now"

definition record_success_runtime ::
  "'c sim_ops \<Rightarrow> 'c cache_simulator \<Rightarrow> runtime_prompt_projection \<Rightarrow> assistant_message \<Rightarrow> string
     \<Rightarrow> anchor_token_counts option \<Rightarrow> bool \<Rightarrow> cache_simulation_config \<Rightarrow> instant \<Rightarrow> 'c cache_simulator" where
  "record_success_runtime ops sim projection assistant conversation counts record_prefix_tree config now =
     record_anchor ops
       (record_pages sim (rp_stable_prefix_pages projection) record_prefix_tree config now)
       (runtime_resume_anchor_hash (so_canon ops) projection assistant) conversation counts config now"

section \<open>Statistics\<close>

record cache_runtime_stats =
  crs_mode :: cache_simulation_mode
  crs_page_size_tokens :: nat
  crs_prefix_tree :: prefix_tree_runtime_stats
  crs_conversation_anchors :: conversation_anchor_runtime_stats

record size_ops =
  sz_child_capacity :: "prefix_node \<Rightarrow> nat"
  sz_node :: nat
  sz_edge :: nat
  sz_page :: nat
  sz_anchor_entry :: nat
  sz_string :: nat

definition sim_snapshot_stats ::
  "'c sim_ops \<Rightarrow> size_ops \<Rightarrow> 'c cache_simulator \<Rightarrow> cache_simulation_config \<Rightarrow> instant
     \<Rightarrow> cache_runtime_stats \<times> 'c cache_simulator" where
  "sim_snapshot_stats ops sz sim config now =
     (let tree = prune_expired (sim_prefix_tree sim) now (cfg_prefix_cache_entry_ttl config);
          index = remove_expired (so_lru ops)
            (ensure_capacity (so_lru ops) (sim_anchor_index sim) (cfg_anchor_max_entries config))
            now (cfg_anchor_ttl config) in
      (\<lparr>crs_mode = cfg_mode config, crs_page_size_tokens = PREFIX_CACHE_PAGE_SIZE,
        crs_prefix_tree = snapshot_stats (sz_child_capacity sz) (sz_node sz) (sz_edge sz) (sz_page sz)
          tree (cfg_prefix_cache_max_tokens config),
        crs_conversation_anchors = anchor_snapshot_stats (so_lru ops) (sz_anchor_entry sz) (sz_string sz)
          index (cfg_anchor_max_entries config)\<rparr>,
       sim\<lparr>sim_prefix_tree := tree, sim_anchor_index := index\<rparr>))"

section \<open>Snapshots\<close>

definition export_snapshot ::
  "'c sim_ops \<Rightarrow> 'c cache_simulator \<Rightarrow> cache_simulation_config \<Rightarrow> snapshot_caps \<Rightarrow> instant \<Rightarrow> 64 word
     \<Rightarrow> byte list option \<times> 'c cache_simulator" where
  "export_snapshot ops sim config caps now now_ms =
     (let tree = prune_expired (sim_prefix_tree sim) now (cfg_prefix_cache_entry_ttl config);
          prefix_section = (if cfg_mode config = PrefixTreeMode then encode_section tree now (caps_max_tokens caps)
                            else write_varint 0);
          resident = (if cfg_mode config = PrefixTreeMode then resident_tokens tree else 0);
          index = remove_expired (so_lru ops) (sim_anchor_index sim) now (cfg_anchor_ttl config);
          anchor_section = encode_anchor_section (so_lru ops) (so_hex ops) index now (caps_max_anchor_entries caps);
          sim' = sim\<lparr>sim_prefix_tree := tree, sim_anchor_index := index\<rparr> in
      if resident = 0 \<and> anchor_is_empty (so_lru ops) index then (None, sim')
      else (case finalize_frame (so_crc ops) (so_gzip ops)
               (header_write \<lparr>snapshot_unix_ms = now_ms, header_resident_tokens = word_of_nat resident\<rparr>
                  @ prefix_section @ anchor_section) of
          Inr blob \<Rightarrow> (Some blob, sim')
        | Inl _ \<Rightarrow> (None, sim')))"

record restore_ctx =
  ctx_now :: instant
  ctx_now_unix_ms :: int
  ctx_ttl :: duration
  ctx_anchor_ttl :: duration
  ctx_max_tokens :: nat
  ctx_max_pages :: nat
  ctx_max_anchor_entries :: nat

record prefix_candidate =
  pc_tree :: prefix_tree
  pc_from_own :: bool
  pc_snapshot_unix_ms :: int

definition prefix_candidate_wins :: "prefix_candidate option \<Rightarrow> bool \<Rightarrow> int \<Rightarrow> bool" where
  "prefix_candidate_wins best from_own snap_ms =
     (case best of
        None \<Rightarrow> True
      | Some existing \<Rightarrow>
          (if pc_from_own existing then False
           else if from_own then True
           else pc_snapshot_unix_ms existing < snap_ms))"

definition restore_tree :: "restore_ctx \<Rightarrow> decoded_frame \<Rightarrow> prefix_tree option" where
  "restore_tree ctx frame =
     (case decode_section
         \<lparr>rc_snapshot_ms = sint (snapshot_unix_ms (df_header frame)), rc_now = ctx_now ctx,
          rc_now_ms = ctx_now_unix_ms ctx, rc_ttl = ctx_ttl ctx\<rparr>
         (ctx_max_pages ctx) (df_sections frame) of
        Inr (tree, _) \<Rightarrow> Some (enforce_token_budget tree (ctx_max_tokens ctx))
      | Inl _ \<Rightarrow> None)"

definition fold_prefix ::
  "restore_ctx \<Rightarrow> decoded_frame \<Rightarrow> bool \<Rightarrow> prefix_candidate option \<Rightarrow> prefix_candidate option" where
  "fold_prefix ctx frame from_own best =
     (case restore_tree ctx frame of
        None \<Rightarrow> best
      | Some tree \<Rightarrow>
          (if 0 < resident_tokens tree
              \<and> prefix_candidate_wins best from_own (sint (snapshot_unix_ms (df_header frame)))
           then Some \<lparr>pc_tree = tree, pc_from_own = from_own,
                      pc_snapshot_unix_ms = sint (snapshot_unix_ms (df_header frame))\<rparr>
           else best))"

definition frame_anchors :: "hex_ops \<Rightarrow> restore_ctx \<Rightarrow> decoded_frame \<Rightarrow> decoded_anchor list option" where
  "frame_anchors hex ctx frame =
     (case skip_prefix_section (df_sections frame) of
        Inl _ \<Rightarrow> None
      | Inr anchor_reader \<Rightarrow>
          (case decode_anchor_section hex (sint (snapshot_unix_ms (df_header frame)))
                  (ctx_max_anchor_entries ctx) anchor_reader of
             Inr (decoded, _) \<Rightarrow> Some decoded
           | Inl _ \<Rightarrow> None))"

definition fold_restore_frame ::
  "hex_ops \<Rightarrow> restore_ctx \<Rightarrow> decoded_frame \<Rightarrow> bool \<Rightarrow> prefix_candidate option \<times> anchor_union
     \<Rightarrow> prefix_candidate option \<times> anchor_union" where
  "fold_restore_frame hex ctx frame from_own st =
     (case st of (best, anchors) \<Rightarrow>
       (fold_prefix ctx frame from_own best,
        case frame_anchors hex ctx frame of
          Some decoded \<Rightarrow> anchor_union_fold anchors decoded
        | None \<Rightarrow> anchors))"

definition decode_blob ::
  "'c sim_ops \<Rightarrow> byte list option \<Rightarrow> nat \<Rightarrow> decoded_frame option \<times> nat" where
  "decode_blob ops blob errors =
     (case blob of
        None \<Rightarrow> (None, errors)
      | Some bytes \<Rightarrow>
          (case decode_frame (so_crc ops) (so_gunzip ops) bytes of
             Inr frame \<Rightarrow> (Some frame, errors)
           | Inl _ \<Rightarrow> (None, errors + 1)))"

text \<open>One iteration of the streaming loop: decode a blob, fold its frame, drop it.\<close>

definition restore_blob ::
  "'c sim_ops \<Rightarrow> restore_ctx \<Rightarrow> bool \<Rightarrow> byte list option
     \<Rightarrow> (prefix_candidate option \<times> anchor_union) \<times> nat \<Rightarrow> (prefix_candidate option \<times> anchor_union) \<times> nat" where
  "restore_blob ops ctx from_own blob st =
     (case st of (folded, errors) \<Rightarrow>
       (case decode_blob ops blob errors of
          (Some frame, errors') \<Rightarrow> (fold_restore_frame (so_hex ops) ctx frame from_own folded, errors')
        | (None, errors') \<Rightarrow> (folded, errors')))"

definition restore_ctx_of ::
  "cache_simulation_config \<Rightarrow> snapshot_caps \<Rightarrow> instant \<Rightarrow> int \<Rightarrow> restore_ctx" where
  "restore_ctx_of config caps now now_ms =
     (let max_tokens = (case caps_max_tokens caps of Some n \<Rightarrow> n | None \<Rightarrow> cfg_prefix_cache_max_tokens config);
          max_anchor_entries = (case caps_max_anchor_entries caps of Some n \<Rightarrow> n
                                | None \<Rightarrow> cfg_anchor_max_entries config) in
      \<lparr>ctx_now = now, ctx_now_unix_ms = now_ms, ctx_ttl = cfg_prefix_cache_entry_ttl config,
       ctx_anchor_ttl = cfg_anchor_ttl config, ctx_max_tokens = max_tokens, ctx_max_pages = max_tokens,
       ctx_max_anchor_entries = max_anchor_entries\<rparr>)"

definition import_snapshot ::
  "'c sim_ops \<Rightarrow> 'c cache_simulator \<Rightarrow> byte list option \<Rightarrow> byte list list \<Rightarrow> cache_simulation_config
     \<Rightarrow> snapshot_caps \<Rightarrow> instant \<Rightarrow> int \<Rightarrow> import_outcome \<times> 'c cache_simulator" where
  "import_snapshot ops sim own peers config caps now now_ms =
     (let ctx = restore_ctx_of config caps now now_ms;
          anchors0 = anchor_union_new (ctx_now_unix_ms ctx) (ctx_anchor_ttl ctx) (ctx_max_anchor_entries ctx);
          st1 = restore_blob ops ctx True own ((None, anchors0), 0);
          st2 = foldl (\<lambda>st peer. restore_blob ops ctx False (Some peer) st) st1 peers in
      case st2 of ((best, anchors), errors) \<Rightarrow>
        (let outcome = import_outcome_default\<lparr>io_decode_errors := errors\<rparr>;
             restored = (case best of
               None \<Rightarrow> (outcome, sim)
             | Some candidate \<Rightarrow>
                 (outcome\<lparr>io_prefix_resident_tokens := resident_tokens (pc_tree candidate),
                          io_prefix_from_own := pc_from_own candidate,
                          io_prefix_from_peer := \<not> pc_from_own candidate\<rparr>,
                  sim\<lparr>sim_prefix_tree := pc_tree candidate\<rparr>));
             index = rebuild_from_rows (so_lru ops) (sim_anchor_index (snd restored))
               (anchor_union_finish anchors) (ctx_now ctx) (ctx_anchor_ttl ctx) (ctx_max_anchor_entries ctx) in
         ((fst restored)\<lparr>io_anchor_entries := anchor_len (so_lru ops) index\<rparr>,
          (snd restored)\<lparr>sim_anchor_index := index\<rparr>)))"

end
