(* ===== verification/AnchorIndexTheorems.thy ===== *)
theory AnchorIndexTheorems
  imports AnchorIndex
begin

text \<open>
  The anchor index against its abstract state: the list of its rows, the most recently used
  first.  The loops of the source empty the old cache or pop its cold end; on the list they
  are \<open>take\<close> and \<open>takeWhile\<close>, and under a clock that does not go back \<open>takeWhile\<close> keeps
  exactly the rows within the time to live.
\<close>

section \<open>The loops on the list of rows\<close>

definition anchor_rows :: "('c, conversation_anchor_entry) lru_ops \<Rightarrow> 'c anchor_index \<Rightarrow> anchor_row list" where
  "anchor_rows ops index = (case index of None \<Rightarrow> [] | Some cache \<Rightarrow> lru_iter ops cache)"

definition put_row :: "nat \<Rightarrow> anchor_row list \<Rightarrow> anchor_row \<Rightarrow> anchor_row list" where
  "put_row cap rows row = take cap (row # filter (\<lambda>r. fst r \<noteq> fst row) rows)"

lemma rows_simps [simp]: "anchor_rows ops (Some c) = lru_iter ops c" "anchor_rows ops None = []"
  by (simp_all add: anchor_rows_def)

lemma lru_put_row:
  assumes "lru_contract ops"
  shows "lru_iter ops (lru_put ops c k v) = put_row (lru_cap ops c) (lru_iter ops c) (k, v)"
  by (simp add: lru_simps[OF assms] put_row_def)

lemma put_row_new:
  "fst row \<notin> fst ` set rows \<Longrightarrow> put_row cap rows row = take cap (row # rows)"
  by (simp add: put_row_def) (metis (mono_tags, lifting) filter_True image_eqI)

lemma refill_rows:
  assumes ops: "lru_contract ops"
  shows "lru_iter ops old = rows \<Longrightarrow> n = length rows \<Longrightarrow> distinct (map fst (rows @ lru_iter ops new))
    \<Longrightarrow> length (lru_iter ops new) \<le> lru_cap ops new
    \<Longrightarrow> lru_iter ops (refill ops n old new) = take (lru_cap ops new) (rows @ lru_iter ops new)
      \<and> lru_cap ops (refill ops n old new) = lru_cap ops new"
proof (induction rows arbitrary: n old new rule: rev_induct)
  case Nil
  then show ?case by simp
next
  case (snoc row rows)
  obtain old' where old': "lru_pop_lru ops old = Some (row, old')" "lru_iter ops old' = rows"
    using lru_pop_lru_snoc[OF ops snoc.prems(1)] by metis
  obtain k v where row: "row = (k, v)" by (cases row)
  let ?new = "lru_put ops new k v"
  have fresh: "k \<notin> fst ` set (lru_iter ops new)" using snoc.prems(3) row by auto
  have new: "lru_iter ops ?new = take (lru_cap ops new) (row # lru_iter ops new)"
    using put_row_new[of row "lru_iter ops new"] fresh row by (simp add: lru_put_row[OF ops])
  have cap: "lru_cap ops ?new = lru_cap ops new" by (simp add: lru_simps[OF ops])
  have d: "distinct (map fst (rows @ lru_iter ops ?new))"
  proof -
    have "distinct (map fst rows)" "distinct (map fst (row # lru_iter ops new))"
      "set (map fst rows) \<inter> set (map fst (row # lru_iter ops new)) = {}"
      using snoc.prems(3) by auto
    moreover have "set (take (lru_cap ops new) (map fst (row # lru_iter ops new)))
        \<subseteq> set (map fst (row # lru_iter ops new))" by (rule set_take_subset)
    ultimately show ?thesis
      unfolding new map_append distinct_append take_map[symmetric] by (meson disjoint_iff distinct_take subsetD)
  qed
  have "lru_iter ops (refill ops (length rows) old' ?new)
        = take (lru_cap ops new) (rows @ take (lru_cap ops new) (row # lru_iter ops new))
      \<and> lru_cap ops (refill ops (length rows) old' ?new) = lru_cap ops new"
    using snoc.IH[OF old'(2) refl d] new cap by simp
  then show ?case
    using snoc.prems(2) old'(1) row by (auto simp: take_take min_def)
qed

lemma ensure_capacity_rows:
  assumes ops: "lru_contract ops" and d: "distinct (map fst (anchor_rows ops index))"
    and len: "\<And>c. index = Some c \<Longrightarrow> length (lru_iter ops c) \<le> lru_cap ops c"
  shows "\<exists>c. ensure_capacity ops index m = Some c
    \<and> lru_iter ops c = take (max m 1) (anchor_rows ops index) \<and> lru_cap ops c = max m 1"
proof (cases index)
  case None
  then show ?thesis by (simp add: ensure_capacity_def lru_simps[OF ops])
next
  case (Some c)
  then show ?thesis
    using d len[OF Some] refill_rows[OF ops refl, of "lru_len ops c" c "lru_new ops (max m 1)"]
    by (auto simp: ensure_capacity_def Let_def lru_simps[OF ops])
qed

lemma pop_expired_rows:
  assumes ops: "lru_contract ops"
  shows "lru_iter ops c = rows \<Longrightarrow> n = length rows \<Longrightarrow>
    lru_iter ops (pop_expired ops n now ttl c)
      = rev (dropWhile (\<lambda>r. entry_expired now ttl (snd r)) (rev rows))
    \<and> lru_cap ops (pop_expired ops n now ttl c) = lru_cap ops c"
proof (induction rows arbitrary: n c rule: rev_induct)
  case Nil
  then show ?case by simp
next
  case (snoc row rows)
  obtain c' where c': "lru_pop_lru ops c = Some (row, c')" "lru_iter ops c' = rows"
      "lru_cap ops c' = lru_cap ops c"
    using lru_pop_lru_snoc[OF ops snoc.prems(1)] by metis
  show ?case
    using snoc.IH[OF c'(2) refl] snoc.prems c'
    by (cases row) (auto simp: lru_simps[OF ops])
qed

section \<open>Recency is touch order\<close>

definition recent_rows :: "instant \<Rightarrow> anchor_row list \<Rightarrow> bool" where
  "recent_rows now rows =
     (distinct (map fst rows)
      \<and> sorted_wrt (\<lambda>a b. ce_last_touched_at (snd b) \<le> ce_last_touched_at (snd a)) rows
      \<and> (\<forall>r \<in> set rows. ce_last_touched_at (snd r) \<le> now))"

definition live_rows :: "instant \<Rightarrow> duration \<Rightarrow> anchor_row list \<Rightarrow> anchor_row list" where
  "live_rows now ttl rows = filter (\<lambda>r. \<not> entry_expired now ttl (snd r)) rows"

lemma expired_mono:
  "ce_last_touched_at b \<le> ce_last_touched_at a \<Longrightarrow> entry_expired now ttl a \<Longrightarrow> entry_expired now ttl b"
  by (auto simp: entry_expired_def duration_since_def)

lemma drop_expired_eq_filter:
  "sorted_wrt (\<lambda>a b. ce_last_touched_at (snd b) \<le> ce_last_touched_at (snd a)) rows \<Longrightarrow>
    rev (dropWhile (\<lambda>r. entry_expired now ttl (snd r)) (rev rows)) = live_rows now ttl rows"
proof (induction rows rule: rev_induct)
  case (snoc row rows)
  show ?case
  proof (cases "entry_expired now ttl (snd row)")
    case True
    then show ?thesis using snoc by (simp add: live_rows_def sorted_wrt_append)
  next
    case False
    then have "\<forall>r \<in> set rows. \<not> entry_expired now ttl (snd r)"
      using snoc.prems expired_mono by (auto simp: sorted_wrt_append)
    then show ?thesis using False by (simp add: live_rows_def)
  qed
qed (simp add: live_rows_def)

lemma recent_take: "recent_rows now rows \<Longrightarrow> recent_rows now (take n rows)"
  by (auto simp: recent_rows_def take_map[symmetric] sorted_wrt_take dest: in_set_takeD)

lemma recent_filter: "recent_rows now rows \<Longrightarrow> recent_rows now (filter P rows)"
  by (auto simp: recent_rows_def distinct_map_filter sorted_wrt_filter)

lemma recent_later: "recent_rows t rows \<Longrightarrow> t \<le> now \<Longrightarrow> recent_rows now rows"
  by (auto simp: recent_rows_def)

lemma recent_front:
  "recent_rows t rows \<Longrightarrow> t \<le> now \<Longrightarrow> ce_last_touched_at e = now
    \<Longrightarrow> recent_rows now ((k, e) # filter (\<lambda>r. fst r \<noteq> k) rows)"
  using recent_filter[of t rows "\<lambda>r. fst r \<noteq> k"] by (fastforce simp: recent_rows_def)

lemma recent_put:
  "recent_rows t rows \<Longrightarrow> t \<le> now \<Longrightarrow> ce_last_touched_at (snd row) = now
    \<Longrightarrow> recent_rows now (put_row cap rows row)"
  using recent_take[OF recent_front[of t rows now "snd row" "fst row"]] by (simp add: put_row_def)

section \<open>The operations on the list of rows\<close>

definition anchor_ok :: "('c, conversation_anchor_entry) lru_ops \<Rightarrow> instant \<Rightarrow> 'c anchor_index \<Rightarrow> bool" where
  "anchor_ok ops now index =
     (recent_rows now (anchor_rows ops index)
      \<and> (\<forall>c. index = Some c \<longrightarrow> length (lru_iter ops c) \<le> lru_cap ops c))"

lemma anchor_ok_later: "anchor_ok ops t index \<Longrightarrow> t \<le> now \<Longrightarrow> anchor_ok ops now index"
  by (auto simp: anchor_ok_def intro: recent_later)

lemma anchor_ok_ensure:
  assumes "lru_contract ops" "anchor_ok ops t index"
  obtains c where "ensure_capacity ops index m = Some c"
    "lru_iter ops c = take (max m 1) (anchor_rows ops index)" "lru_cap ops c = max m 1"
    "recent_rows t (lru_iter ops c)"
proof -
  have r: "recent_rows t (anchor_rows ops index)" using assms(2) by (simp add: anchor_ok_def)
  then obtain c where "ensure_capacity ops index m = Some c"
      "lru_iter ops c = take (max m 1) (anchor_rows ops index)" "lru_cap ops c = max m 1"
    using ensure_capacity_rows[OF assms(1), of index m] assms(2)
    unfolding anchor_ok_def recent_rows_def by blast
  with that[of c] recent_take[OF r, of "max m 1"] show thesis by simp
qed

lemma pop_expired_live:
  assumes "lru_contract ops" "recent_rows t (lru_iter ops c)"
  shows "lru_iter ops (pop_expired ops (lru_len ops c) now ttl c) = live_rows now ttl (lru_iter ops c)"
    "lru_cap ops (pop_expired ops (lru_len ops c) now ttl c) = lru_cap ops c"
  using pop_expired_rows[OF assms(1) refl, of "lru_len ops c" c now ttl] assms(2)
  by (simp_all add: lru_simps[OF assms(1)] drop_expired_eq_filter recent_rows_def)

lemma insert_rows:
  assumes ops: "lru_contract ops" and ok: "anchor_ok ops t index" and t: "t \<le> now"
  shows "anchor_rows ops (anchor_insert ops index a conv tc now ttl m)
      = put_row (max m 1) (live_rows now ttl (take (max m 1) (anchor_rows ops index)))
          (a, \<lparr>ce_conversation_id = conv, ce_token_counts = tc, ce_last_touched_at = now\<rparr>)"
    "anchor_ok ops now (anchor_insert ops index a conv tc now ttl m)"
proof -
  obtain c where c: "ensure_capacity ops index m = Some c"
      "lru_iter ops c = take (max m 1) (anchor_rows ops index)" "lru_cap ops c = max m 1"
      "recent_rows t (lru_iter ops c)"
    using anchor_ok_ensure[OF ops ok] by metis
  note pop = pop_expired_live[OF ops c(4), of now ttl]
  show rows: "anchor_rows ops (anchor_insert ops index a conv tc now ttl m)
      = put_row (max m 1) (live_rows now ttl (take (max m 1) (anchor_rows ops index)))
          (a, \<lparr>ce_conversation_id = conv, ce_token_counts = tc, ce_last_touched_at = now\<rparr>)"
    using c pop by (simp add: anchor_insert_def remove_expired_def lru_put_row[OF ops])
  show "anchor_ok ops now (anchor_insert ops index a conv tc now ttl m)"
  proof -
    have "recent_rows t (live_rows now ttl (take (max m 1) (anchor_rows ops index)))"
      using recent_filter[OF c(4)] c(2) by (simp add: live_rows_def)
    then have "recent_rows now (anchor_rows ops (anchor_insert ops index a conv tc now ttl m))"
      unfolding rows using t by (intro recent_put) simp_all
    then show ?thesis
      using c pop by (auto simp: anchor_ok_def anchor_insert_def remove_expired_def lru_simps[OF ops])
  qed
qed

definition touch_row :: "instant \<Rightarrow> anchor_row list \<Rightarrow> string \<Rightarrow> anchor_row list" where
  "touch_row now rows a =
     (case map_of rows a of
        None \<Rightarrow> rows
      | Some e \<Rightarrow> (a, e\<lparr>ce_last_touched_at := now\<rparr>) # filter (\<lambda>r. fst r \<noteq> a) rows)"

text \<open>Dropping the anchor that is looked up, when it has expired.\<close>

definition drop_stale :: "instant \<Rightarrow> duration \<Rightarrow> string \<Rightarrow> anchor_row list \<Rightarrow> anchor_row list" where
  "drop_stale now ttl a rows = filter (\<lambda>r. fst r = a \<longrightarrow> \<not> entry_expired now ttl (snd r)) rows"

lemma map_of_filter_key: "distinct (map fst rows) \<Longrightarrow>
    map_of (filter (\<lambda>r. P (snd r)) rows) a
      = (case map_of rows a of Some e \<Rightarrow> if P e then Some e else None | None \<Rightarrow> None)"
proof (induction rows)
  case (Cons r rows)
  have "map_of rows (fst r) = None" using Cons.prems by (simp add: map_of_eq_None_iff)
  then show ?case using Cons by (cases r) auto
qed simp

lemma map_of_live:
  "distinct (map fst rows) \<Longrightarrow>
    map_of (live_rows now ttl rows) a
      = (case map_of rows a of
           Some e \<Rightarrow> if entry_expired now ttl e then None else Some e | None \<Rightarrow> None)"
  using map_of_filter_key[of rows "\<lambda>e. \<not> entry_expired now ttl e" a]
  by (simp add: live_rows_def split: option.splits)

lemma drop_stale_cases:
  assumes "distinct (map fst rows)"
  shows "drop_stale now ttl a rows =
    (case map_of rows a of
       Some e \<Rightarrow> if entry_expired now ttl e then filter (\<lambda>r. fst r \<noteq> a) rows else rows
     | None \<Rightarrow> rows)"
proof -
  have same: "(a, e') \<in> set rows \<Longrightarrow> map_of rows a = Some e'" for e'
    using assms by (simp add: map_of_eq_Some_iff)
  show ?thesis
  proof (cases "map_of rows a")
    case None
    then have "fst r \<noteq> a" if "r \<in> set rows" for r using that same by (cases r) auto
    then show ?thesis using None by (simp add: drop_stale_def filter_id_conv)
  next
    case (Some e)
    then have "snd r = e" if "r \<in> set rows" "fst r = a" for r using that same by (cases r) auto
    then show ?thesis using Some by (auto simp: drop_stale_def filter_id_conv intro!: filter_cong)
  qed
qed

lemma get_rows:
  assumes ops: "lru_contract ops" and ok: "anchor_ok ops t index" and t: "t \<le> now"
    and rows_def: "rows = take (max m 1) (anchor_rows ops index)"
  shows "fst (anchor_get ops index a now ttl m) = map_option ce_conversation_id (map_of (live_rows now ttl rows) a)"
    "anchor_rows ops (snd (anchor_get ops index a now ttl m))
       = touch_row now (drop_stale now ttl a rows) a"
    "anchor_ok ops now (snd (anchor_get ops index a now ttl m))"
proof -
  obtain c where c: "ensure_capacity ops index m = Some c" "lru_iter ops c = rows"
      "lru_cap ops c = max m 1" "recent_rows t rows"
    using anchor_ok_ensure[OF ops ok] by (metis rows_def)
  have d: "distinct (map fst rows)" using c(4) by (simp add: recent_rows_def)
  note simps = anchor_get_def c(1,2) lru_simps[OF ops] Let_def drop_stale_cases[OF d] map_of_live[OF d]
  have short: "length rows \<le> max m 1" by (simp add: rows_def)
  have "fst (anchor_get ops index a now ttl m) = map_option ce_conversation_id (map_of (live_rows now ttl rows) a)
    \<and> anchor_rows ops (snd (anchor_get ops index a now ttl m)) = touch_row now (drop_stale now ttl a rows) a
    \<and> anchor_ok ops now (snd (anchor_get ops index a now ttl m))"
  proof (cases "map_of rows a")
    case None
    then have "lru_get_mut ops c a = None" using c(2) by (cases rule: lru_get_mut_cases[OF ops, of c a]) auto
    then show ?thesis
      using None c(2-4) short recent_later[OF _ t] by (simp add: simps touch_row_def anchor_ok_def)
  next
    case (Some e)
    then have ex: "a \<in> fst ` set rows" by (force dest: map_of_SomeD)
    have len: "length (filter (\<lambda>r. fst r \<noteq> a) rows) < length rows"
      using ex by (auto intro!: length_filter_less)
    show ?thesis
    proof (cases "entry_expired now ttl e")
      case True
      have "map_of (filter (\<lambda>r. fst r \<noteq> a) rows) a = None" by (auto simp: map_of_eq_None_iff)
      then show ?thesis
        using True Some c(2-4) len short recent_later[OF recent_filter t]
        by (simp add: simps touch_row_def anchor_ok_def)
    next
      case False
      obtain update where u: "lru_get_mut ops c a = Some (e, update)"
          "\<And>e'. lru_iter ops (update e') = (a, e') # filter (\<lambda>r. fst r \<noteq> a) rows"
          "\<And>e'. lru_cap ops (update e') = max m 1"
        using Some c(2,3) by (cases rule: lru_get_mut_cases[OF ops, of c a]) auto
      have "recent_rows now ((a, e\<lparr>ce_last_touched_at := now\<rparr>) # filter (\<lambda>r. fst r \<noteq> a) rows)"
        using recent_front[OF c(4) t] by simp
      then show ?thesis
        using False Some u len short by (simp add: simps touch_row_def anchor_ok_def)
    qed
  qed
  then show "fst (anchor_get ops index a now ttl m) = map_option ce_conversation_id (map_of (live_rows now ttl rows) a)"
    "anchor_rows ops (snd (anchor_get ops index a now ttl m)) = touch_row now (drop_stale now ttl a rows) a"
    "anchor_ok ops now (snd (anchor_get ops index a now ttl m))" by simp_all
qed

lemma recover_rows:
  assumes ops: "lru_contract ops" and ok: "anchor_ok ops t index" and t: "t \<le> now"
  shows "fst (recover_token_counts ops index a now ttl)
      = Option.bind (map_of (live_rows now ttl (anchor_rows ops index)) a) ce_token_counts"
    "anchor_rows ops (snd (recover_token_counts ops index a now ttl))
      = drop_stale now ttl a (anchor_rows ops index)"
    "anchor_ok ops now (snd (recover_token_counts ops index a now ttl))"
proof -
  have d: "distinct (map fst (anchor_rows ops index))" using ok by (simp add: anchor_ok_def recent_rows_def)
  have later: "anchor_ok ops now index" using anchor_ok_later[OF ok t] .
  have drop: "anchor_ok ops now (Some (lru_pop ops c a))" if "index = Some c" for c
    using later that recent_filter
    by (auto simp: anchor_ok_def lru_simps[OF ops] intro: order_trans[OF length_filter_le])
  show "fst (recover_token_counts ops index a now ttl)
      = Option.bind (map_of (live_rows now ttl (anchor_rows ops index)) a) ce_token_counts"
    "anchor_rows ops (snd (recover_token_counts ops index a now ttl))
      = drop_stale now ttl a (anchor_rows ops index)"
    "anchor_ok ops now (snd (recover_token_counts ops index a now ttl))"
    using d later drop
    by (auto simp: recover_token_counts_def lru_simps[OF ops] map_of_live drop_stale_cases
        split: option.split)
qed

end
