(* ===== verification/AnchorSnapshot.thy ===== *)
theory AnchorSnapshot
  imports AnchorIndexTheorems
begin

text \<open>
  The anchor section of a snapshot: what the decoder makes of the rows the encoder wrote, and
  the index rebuilt from the rows of the union.
\<close>

section \<open>The section round trip\<close>

definition wire_row :: "hex_ops \<Rightarrow> instant \<Rightarrow> int \<Rightarrow> anchor_row \<Rightarrow> decoded_anchor option" where
  "wire_row hex now snap_ms row =
     (case hex_decode hex (fst row) of
        None \<Rightarrow> None
      | Some raw \<Rightarrow>
          (if length raw \<noteq> 32 then None
           else Some \<lparr>da_hex = hex_encode hex raw, da_conversation_id = ce_conversation_id (snd row),
                      da_token_counts = ce_token_counts (snd row),
                      da_age_secs = as_secs (duration_since now (ce_last_touched_at (snd row))),
                      da_snapshot_unix_ms = snap_ms\<rparr>))"

definition row_encodable :: "instant \<Rightarrow> anchor_row \<Rightarrow> bool" where
  "row_encodable now row =
     (length (ce_conversation_id (snd row)) \<le> MAX_ANCHOR_CONVERSATION_ID_BYTES
      \<and> utf8_valid (str_bytes (ce_conversation_id (snd row)))
      \<and> as_secs (duration_since now (ce_last_touched_at (snd row))) < 2 ^ 64)"

lemma scast_round: "scast (scast (x :: 32 word) :: 64 word) = x"
  by (rule scast_up_scast_id) (simp add: is_up)

lemma sint_scast: "sint (scast (x :: 32 word) :: 64 word) = sint x"
  by (rule sint_up_scast) (simp add: is_up)

lemma sint_i32: "- (2 ^ 31) \<le> sint (x :: 32 word)" "sint (x :: 32 word) < 2 ^ 31"
  using sint_ge[of x] sint_lt[of x] by simp_all

lemma read_i32_write [byte_codec]: "read_i32 (write_zigzag (scast x) @ r) = Inr (x, r)"
  using sint_i32[of x] by (simp add: read_i32_def read_write_zigzag sint_scast scast_round not_less)

lemma read_token_counts_write [byte_codec]: "read_token_counts (encode_token_counts tc @ r) = Inr (tc, r)"
  by (cases tc) (simp_all add: read_token_counts_def encode_token_counts_def read_u8_Cons read_i32_write)

lemma read_conversation_write [byte_codec]:
  assumes "length s \<le> MAX_ANCHOR_CONVERSATION_ID_BYTES" "utf8_valid (str_bytes s)"
  shows "read_conversation_id (write_varint (length s) @ str_bytes s @ r) = Inr (s, r)"
proof -
  have "length s < 2 ^ 64" using assms(1) by (simp add: MAX_ANCHOR_CONVERSATION_ID_BYTES_def)
  then show ?thesis
    using assms read_bytes_append[of "str_bytes s" "length s" r]
    by (simp add: read_conversation_id_def read_write_varint)
qed

lemma read_anchor_row_write:
  assumes "row_encodable now row" "hex_decode hex (fst row) = Some raw" "length raw = 32"
    and "wire_row hex now snap_ms row = Some d"
  shows "read_anchor_row hex snap_ms (encode_anchor_row now raw (snd row) @ r) = Inr (d, r)"
  using assms
  by (auto simp: read_anchor_row_def encode_anchor_row_def row_encodable_def wire_row_def
      read_bytes_append read_conversation_write read_token_counts_write read_write_varint)

definition under_cap :: "nat option \<Rightarrow> nat \<Rightarrow> 'a list \<Rightarrow> 'a list" where
  "under_cap cap n xs = (case cap of None \<Rightarrow> xs | Some m \<Rightarrow> take (m - n) xs)"

lemma encode_rows_read:
  assumes "\<forall>row \<in> set rows. row_encodable now row"
  shows "\<exists>body. encode_anchor_rows hex now cap n rows
      = (n + length (under_cap cap n (List.map_filter (wire_row hex now snap_ms) rows)), body)
    \<and> (\<forall>budget r. \<exists>r'. read_anchor_rows hex snap_ms
          (length (under_cap cap n (List.map_filter (wire_row hex now snap_ms) rows))) budget (body @ r)
        = Inr (take budget (under_cap cap n (List.map_filter (wire_row hex now snap_ms) rows)), r')
        \<and> (length (under_cap cap n (List.map_filter (wire_row hex now snap_ms) rows)) \<le> budget \<longrightarrow> r' = r))"
  using assms
proof (induction rows arbitrary: n)
  case Nil
  then show ?case by (simp add: under_cap_def List.map_filter_simps split: option.split)
next
  case (Cons row rows)
  obtain k e where row: "row = (k, e)" by (cases row)
  let ?w = "wire_row hex now snap_ms"
  have enc: "row_encodable now row" "\<forall>row \<in> set rows. row_encodable now row" using Cons.prems by simp_all
  show ?case
  proof (cases "\<exists>m. cap = Some m \<and> m \<le> n")
    case True
    then show ?thesis by (auto simp: row under_cap_def)
  next
    case room: False
    then have step: "encode_anchor_rows hex now cap n (row # rows) =
        (case hex_decode hex k of
          None \<Rightarrow> encode_anchor_rows hex now cap n rows
        | Some raw \<Rightarrow>
            (if length raw \<noteq> 32 then encode_anchor_rows hex now cap n rows
             else (case encode_anchor_rows hex now cap (Suc n) rows of
                 (n, body) \<Rightarrow> (n, encode_anchor_row now raw e @ body))))"
      by (auto simp: row split: option.split)
    show ?thesis
    proof (cases "?w row")
      case None
      then have skip: "encode_anchor_rows hex now cap n (row # rows) = encode_anchor_rows hex now cap n rows"
        unfolding step by (auto simp: wire_row_def row split: option.splits if_splits)
      have "List.map_filter ?w (row # rows) = List.map_filter ?w rows"
        using None by (simp add: List.map_filter_simps)
      then show ?thesis unfolding skip using Cons.IH[OF enc(2), of n] by simp
    next
      case (Some d)
      then obtain raw where raw: "hex_decode hex (fst row) = Some raw" "length raw = 32"
        by (auto simp: wire_row_def split: option.splits if_splits)
      let ?tail = "under_cap cap (Suc n) (List.map_filter ?w rows)"
      have list: "under_cap cap n (List.map_filter ?w (row # rows)) = d # ?tail"
        using Some room by (cases cap) (auto simp: under_cap_def List.map_filter_simps take_Cons' Suc_diff_Suc)
      obtain body where body: "encode_anchor_rows hex now cap (Suc n) rows = (Suc n + length ?tail, body)"
        "\<forall>budget r. \<exists>r'. read_anchor_rows hex snap_ms (length ?tail) budget (body @ r)
            = Inr (take budget ?tail, r') \<and> (length ?tail \<le> budget \<longrightarrow> r' = r)"
        using Cons.IH[OF enc(2), of "Suc n"] by blast
      have one: "read_anchor_row hex snap_ms (encode_anchor_row now raw e @ r) = Inr (d, r)" for r
        using read_anchor_row_write[OF enc(1) raw Some] row by simp
      have "\<exists>r'. read_anchor_rows hex snap_ms (length (d # ?tail)) budget ((encode_anchor_row now raw e @ body) @ r)
          = Inr (take budget (d # ?tail), r') \<and> (length (d # ?tail) \<le> budget \<longrightarrow> r' = r)" for budget r
      proof (cases budget)
        case (Suc b)
        obtain r' where "read_anchor_rows hex snap_ms (length ?tail) b (body @ r) = Inr (take b ?tail, r')"
            "length ?tail \<le> b \<longrightarrow> r' = r"
          using body(2) by blast
        then show ?thesis using Suc one[of "body @ r"] by auto
      qed simp
      then show ?thesis
        unfolding list step using raw body(1) row
        by (intro exI[of _ "encode_anchor_row now raw e @ body"] conjI) (simp_all del: read_anchor_rows.simps)
    qed
  qed
qed

section \<open>Rebuilding the index from the union\<close>

lemma put_rows_fresh:
  assumes "distinct (map fst (rev rows @ old))" "length old \<le> cap"
  shows "foldl (put_row cap) old rows = take cap (rev rows @ old)"
  using assms
proof (induction rows arbitrary: old)
  case (Cons row rows)
  have put: "put_row cap old row = take cap (row # old)"
    using Cons.prems(1) by (intro put_row_new) auto
  have "distinct (map fst (rev rows @ take cap (row # old)))"
  proof -
    have "distinct (map fst (rev rows))" "distinct (map fst (row # old))"
      "set (map fst (rev rows)) \<inter> set (map fst (row # old)) = {}"
      using Cons.prems(1) by auto
    moreover have "set (take cap (map fst (row # old))) \<subseteq> set (map fst (row # old))"
      by (rule set_take_subset)
    ultimately show ?thesis
      unfolding map_append distinct_append take_map[symmetric] by (meson disjoint_iff distinct_take subsetD)
  qed
  then have "foldl (put_row cap) (take cap (row # old)) rows = take cap (rev rows @ take cap (row # old))"
    by (intro Cons.IH) simp_all
  then show ?case using put by (auto simp: take_take min_def)
qed simp

definition rebuilt_row :: "instant \<Rightarrow> rebuild_row \<Rightarrow> anchor_row" where
  "rebuilt_row now row = (rr_hex row, rebuild_entry now row)"

lemma rebuild_put:
  assumes ops: "lru_contract ops"
  shows "foldl (\<lambda>index row. map_option (\<lambda>cache. lru_put ops cache (rr_hex row) (rebuild_entry now row)) index)
        (Some c) rows = Some c' \<Longrightarrow>
      lru_iter ops c' = foldl (put_row (lru_cap ops c)) (lru_iter ops c) (map (rebuilt_row now) rows)
      \<and> lru_cap ops c' = lru_cap ops c"
  by (induction rows arbitrary: c) (simp_all add: lru_put_row[OF ops] lru_simps(6)[OF ops] rebuilt_row_def)

lemma rebuild_put_Some:
  "\<exists>c'. foldl (\<lambda>index row. map_option (\<lambda>cache. lru_put ops cache (rr_hex row) (rebuild_entry now row)) index)
      (Some c) rows = Some c'"
  by (induction rows arbitrary: c) simp_all

definition rebuildable :: "instant \<Rightarrow> duration \<Rightarrow> rebuild_row list \<Rightarrow> bool" where
  "rebuildable now ttl rows =
     (distinct (map rr_hex rows)
      \<and> sorted_wrt (\<lambda>a b. rr_eff_age_secs b \<le> rr_eff_age_secs a) rows
      \<and> (\<forall>row \<in> set rows. rr_eff_age_secs row \<le> as_secs ttl)
      \<and> instant_checked_sub_secs now (as_secs ttl) \<noteq> None)"

lemma rebuild_touch:
  assumes "rebuildable now ttl rows" "row \<in> set rows"
  shows "ce_last_touched_at (rebuild_entry now row) = now - int (rr_eff_age_secs row) * int nanos_per_sec"
proof -
  have "int (rr_eff_age_secs row) * int nanos_per_sec \<le> int (as_secs ttl) * int nanos_per_sec"
    using assms by (intro mult_right_mono) (simp_all add: rebuildable_def)
  then have "(now - int (as_secs ttl) * int nanos_per_sec) div int nanos_per_sec
      \<le> (now - int (rr_eff_age_secs row) * int nanos_per_sec) div int nanos_per_sec"
    by (intro zdiv_mono1) (simp_all add: nanos_per_sec_def)
  then show ?thesis
    using assms(1) by (auto simp: rebuildable_def rebuild_entry_def instant_checked_sub_secs_def Let_def
        split: if_splits)
qed

lemma rebuild_live:
  assumes "rebuildable now ttl rows" "row \<in> set rows"
  shows "\<not> entry_expired now ttl (rebuild_entry now row)"
proof -
  have "rr_eff_age_secs row \<le> ttl div nanos_per_sec"
    using assms by (simp add: rebuildable_def as_secs_def)
  then have "rr_eff_age_secs row * nanos_per_sec \<le> ttl"
    by (simp add: nanos_per_sec_def less_eq_div_iff_mult_less_eq)
  then have "int (rr_eff_age_secs row) * int nanos_per_sec \<le> int ttl"
    by (metis of_nat_mono of_nat_mult)
  then show ?thesis
    using rebuild_touch[OF assms] by (simp add: entry_expired_def duration_since_def nat_le_iff)
qed

lemma rebuilt_recent:
  assumes "rebuildable now ttl rows"
  shows "recent_rows now (rev (map (rebuilt_row now) rows))"
proof -
  have touch: "ce_last_touched_at (snd (rebuilt_row now row)) = now - int (rr_eff_age_secs row) * int nanos_per_sec"
    if "row \<in> set rows" for row
    using rebuild_touch[OF assms that] by (simp add: rebuilt_row_def)
  have "sorted_wrt (\<lambda>a b. ce_last_touched_at (snd (rebuilt_row now a)) \<le> ce_last_touched_at (snd (rebuilt_row now b))) rows"
  proof (rule sorted_wrt_mono_rel)
    show "sorted_wrt (\<lambda>a b. rr_eff_age_secs b \<le> rr_eff_age_secs a) rows"
      using assms by (simp add: rebuildable_def)
  next
    fix a b assume ab: "a \<in> set rows" "b \<in> set rows" "rr_eff_age_secs b \<le> rr_eff_age_secs a"
    then have "int (rr_eff_age_secs b) * int nanos_per_sec \<le> int (rr_eff_age_secs a) * int nanos_per_sec"
      by (intro mult_right_mono) simp_all
    then show "ce_last_touched_at (snd (rebuilt_row now a)) \<le> ce_last_touched_at (snd (rebuilt_row now b))"
      using touch ab by simp
  qed
  then have "sorted_wrt (\<lambda>a b. ce_last_touched_at (snd b) \<le> ce_last_touched_at (snd a)) (rev (map (rebuilt_row now) rows))"
    by (simp add: sorted_wrt_rev sorted_wrt_map)
  moreover have "distinct (map fst (rev (map (rebuilt_row now) rows)))"
    using assms by (simp add: rebuildable_def rebuilt_row_def comp_def flip: rev_map)
  moreover have "ce_last_touched_at (snd r) \<le> now" if "r \<in> set (rev (map (rebuilt_row now) rows))" for r
    using that touch by (auto simp: nanos_per_sec_def)
  ultimately show ?thesis by (simp add: recent_rows_def)
qed

lemma rebuild_rows:
  assumes ops: "lru_contract ops" and ok: "anchor_ok ops t index" and rows: "rebuildable now ttl rows"
  shows "anchor_rows ops (rebuild_from_rows ops index rows now ttl m)
      = take (max m 1) (rev (map (rebuilt_row now) rows))"
    "anchor_ok ops now (rebuild_from_rows ops index rows now ttl m)"
    "anchor_len ops (rebuild_from_rows ops index rows now ttl m) = min (max m 1) (length rows)"
proof -
  obtain c where c: "ensure_capacity ops index m = Some c" "lru_cap ops c = max m 1"
    using anchor_ok_ensure[OF ops ok] by metis
  let ?all = "rev (map (rebuilt_row now) rows)"
  obtain c' where c': "foldl (\<lambda>index row. map_option (\<lambda>cache. lru_put ops cache (rr_hex row) (rebuild_entry now row)) index)
        (Some (lru_clear ops c)) rows = Some c'"
    using rebuild_put_Some[of ops now "lru_clear ops c" rows] by metis
  have recent: "recent_rows now (take (max m 1) ?all)"
    using rebuilt_recent[OF rows] by (rule recent_take)
  have d: "distinct (map fst ?all)" using rebuilt_recent[OF rows] by (simp add: recent_rows_def)
  have it: "lru_iter ops c' = take (max m 1) ?all" "lru_cap ops c' = max m 1"
    using rebuild_put[OF ops c'] c(2) put_rows_fresh[of "map (rebuilt_row now) rows" "[]" "max m 1"] d
    by (simp_all add: lru_simps[OF ops])
  have "live_rows now ttl (take (max m 1) ?all) = take (max m 1) ?all"
    using rebuild_live[OF rows]
    by (auto simp: live_rows_def filter_id_conv rebuilt_row_def dest!: in_set_takeD)
  then have all: "rebuild_from_rows ops index rows now ttl m = Some (pop_expired ops (lru_len ops c') now ttl c')"
    "lru_iter ops (pop_expired ops (lru_len ops c') now ttl c') = take (max m 1) ?all"
    "lru_cap ops (pop_expired ops (lru_len ops c') now ttl c') = max m 1"
    using c(1) c' pop_expired_live[OF ops, of now c' now ttl] recent it
    by (simp_all add: rebuild_from_rows_def remove_expired_def)
  show "anchor_rows ops (rebuild_from_rows ops index rows now ttl m) = take (max m 1) ?all"
    "anchor_ok ops now (rebuild_from_rows ops index rows now ttl m)"
    "anchor_len ops (rebuild_from_rows ops index rows now ttl m) = min (max m 1) (length rows)"
    using all recent by (simp_all add: anchor_ok_def anchor_len_def lru_simps[OF ops] min.commute)
qed

section \<open>What the union hands over\<close>

lemma rebuild_row_of_hex: "rebuild_row_of now_ms ttl e = Some row \<Longrightarrow>
    rr_hex row = fst e \<and> rr_eff_age_secs row \<le> as_secs ttl
    \<and> rr_eff_age_secs row = nat (max 0 (sat_sub_i64 now_ms (ac_touched_ms (snd e)))) div 1000"
  by (auto simp: rebuild_row_of_def Let_def split: if_splits)

lemma sat_sub_i64_mono: "a \<le> b \<Longrightarrow> sat_sub_i64 n b \<le> sat_sub_i64 n a"
  by (auto simp: sat_sub_i64_def clamp_i64_def)

lemma finish_sorted_distinct:
  assumes "sorted (map anchor_rank es)" "distinct (map fst es)"
  shows "sorted_wrt (\<lambda>a b. rr_eff_age_secs b \<le> rr_eff_age_secs a) (List.map_filter (rebuild_row_of now_ms ttl) es)
    \<and> distinct (map rr_hex (List.map_filter (rebuild_row_of now_ms ttl) es))
    \<and> rr_hex ` set (List.map_filter (rebuild_row_of now_ms ttl) es) \<subseteq> fst ` set es
    \<and> (\<forall>row \<in> set (List.map_filter (rebuild_row_of now_ms ttl) es). rr_eff_age_secs row \<le> as_secs ttl)"
  using assms
proof (induction es)
  case Nil
  then show ?case by (simp add: List.map_filter_simps)
next
  case (Cons e es)
  note IH = Cons.IH
  show ?case
  proof (cases "rebuild_row_of now_ms ttl e")
    case None
    then show ?thesis using Cons by (auto simp: List.map_filter_simps)
  next
    case (Some row)
    note row = rebuild_row_of_hex[OF Some]
    have "rr_eff_age_secs b \<le> rr_eff_age_secs row"
      if b: "b \<in> set (List.map_filter (rebuild_row_of now_ms ttl) es)" for b
    proof -
      obtain e' where e': "e' \<in> set es" "rebuild_row_of now_ms ttl e' = Some b"
        using b by (auto simp: List.map_filter_def)
      have "anchor_rank e \<le> anchor_rank e'" using Cons.prems(1) e'(1) by simp
      then have "ac_touched_ms (snd e) \<le> ac_touched_ms (snd e')" by (auto simp: anchor_rank_def)
      then have "nat (max 0 (sat_sub_i64 now_ms (ac_touched_ms (snd e')))) div 1000
          \<le> nat (max 0 (sat_sub_i64 now_ms (ac_touched_ms (snd e)))) div 1000"
        using sat_sub_i64_mono by (intro div_le_mono nat_mono max.mono) simp_all
      then show ?thesis using row rebuild_row_of_hex[OF e'(2)] by simp
    qed
    then show ?thesis using Some Cons row by (auto simp: List.map_filter_simps)
  qed
qed

lemma finish_rebuildable:
  assumes "union_ok u" "instant_checked_sub_secs now (as_secs (au_ttl u)) \<noteq> None"
  shows "rebuildable now (au_ttl u) (anchor_union_finish u)"
proof -
  let ?es = "sorted_oldest_first (trim_entries (au_max_entries u) (au_best u))"
  have "distinct (map fst (trim_entries (au_max_entries u) (au_best u)))"
    using assms(1) set_trim_entries(2) by (simp add: union_ok_def)
  then have "sorted (map anchor_rank ?es)" "distinct (map fst ?es)"
    by (simp_all add: sorted_oldest_first_def distinct_map)
  from finish_sorted_distinct[OF this] show ?thesis
    using assms(2) by (simp add: rebuildable_def anchor_union_finish_def)
qed

end
