(* ===== verification/AnchorProperties.thy ===== *)
theory AnchorProperties
  imports AnchorSnapshot
begin

text \<open>
  The guarantees of the anchor index and of the union that restores it from the snapshots of
  several nodes.
\<close>

section \<open>The union\<close>

lemma fold_all_set:
  assumes "union_ok u"
  shows "union_ok (foldl anchor_union_fold u frames)
    \<and> set (trim_entries (au_max_entries u) (au_best (foldl anchor_union_fold u frames)))
      = keep_newest (au_max_entries u) (foldl merge_row (set (au_best u)) (union_entries (concat frames)))
    \<and> au_max_entries (foldl anchor_union_fold u frames) = au_max_entries u
    \<and> au_ttl (foldl anchor_union_fold u frames) = au_ttl u
    \<and> au_now_unix_ms (foldl anchor_union_fold u frames) = au_now_unix_ms u"
  using assms
proof (induction frames arbitrary: u)
  case Nil
  then show ?case using set_trim_entries by (simp add: union_ok_def union_entries_def)
next
  case (Cons rows frames)
  let ?u = "anchor_union_fold u rows"
  have same: "au_max_entries ?u = au_max_entries u" "au_ttl ?u = au_ttl u"
      "au_now_unix_ms ?u = au_now_unix_ms u"
    by (simp_all add: anchor_union_fold_def Let_def)
  note fold = fold_set[OF Cons.prems, of rows]
  let ?A = "foldl merge_row (set (au_best u)) (union_entries rows)"
  have "functional ?A" using functional_foldl functional_set Cons.prems by (simp add: union_ok_def)
  then have "keep_newest (au_max_entries u) (foldl merge_row (keep_newest (au_max_entries u) ?A) (union_entries (concat frames)))
      = keep_newest (au_max_entries u) (foldl merge_row ?A (union_entries (concat frames)))"
    by (rule keep_newest_foldl)
  then show ?case
    using Cons.IH[OF fold(2)] same fold(1) by (simp add: union_entries_def)
qed

lemma finish_eq:
  assumes "union_ok u" "union_ok v" "au_max_entries u = au_max_entries v" "au_ttl u = au_ttl v"
    "au_now_unix_ms u = au_now_unix_ms v"
    "set (trim_entries (au_max_entries u) (au_best u)) = set (trim_entries (au_max_entries v) (au_best v))"
  shows "anchor_union_finish u = anchor_union_finish v"
proof -
  have "sorted_oldest_first (trim_entries (au_max_entries u) (au_best u))
      = sorted_oldest_first (trim_entries (au_max_entries v) (au_best v))"
    using assms(1,2,6) by (intro sorted_unique) (simp_all add: union_ok_def set_trim_entries)
  then show ?thesis using assms(3-5) by (simp add: anchor_union_finish_def)
qed

lemma anchor_union_new_ok: "union_ok (anchor_union_new now_ms ttl K)"
  by (simp add: union_ok_def anchor_union_new_def)

lemma union_fold_concat:
  "anchor_union_finish (foldl anchor_union_fold (anchor_union_new now_ms ttl K) frames)
    = anchor_union_finish (anchor_union_fold (anchor_union_new now_ms ttl K) (concat frames))"
  using fold_all_set[OF anchor_union_new_ok, of now_ms ttl K frames]
    fold_all_set[OF anchor_union_new_ok, of now_ms ttl K "[concat frames]"]
  by (intro finish_eq) simp_all

lemma length_map_filter: "length (List.map_filter f xs) \<le> length xs"
  by (induction xs) (simp_all add: List.map_filter_simps split: option.split)

lemma length_trim: "0 < K \<Longrightarrow> length (trim_entries K best) \<le> K"
  by (simp add: trim_entries_def sorted_oldest_first_def)

lemma length_finish: "0 < au_max_entries u \<Longrightarrow> length (anchor_union_finish u) \<le> au_max_entries u"
  using length_map_filter[of "rebuild_row_of (au_now_unix_ms u) (au_ttl u)"
      "sorted_oldest_first (trim_entries (au_max_entries u) (au_best u))"]
    length_trim[of "au_max_entries u" "au_best u"]
  by (simp add: anchor_union_finish_def sorted_oldest_first_def)

text \<open>
  C16.  Trimming after every frame loses nothing.  Folding the frames one at a time, cut to
  \<open>max_entries\<close> after each, ends with the rows that folding all their rows at once gives;
  they are at most \<open>max_entries\<close>, the oldest first, one for each anchor and none past its time
  to live; and no more than \<open>max_entries\<close> candidates are held between frames.
\<close>

theorem anchor_union_is_composable:
  fixes now_ms :: int and ttl :: duration and K :: nat and frames :: "decoded_anchor list list"
  defines "u \<equiv> anchor_union_new now_ms ttl K"
  shows "anchor_union_finish (foldl anchor_union_fold u frames)
      = anchor_union_finish (anchor_union_fold u (concat frames))
    \<and> (0 < K \<longrightarrow> length (anchor_union_finish (foldl anchor_union_fold u frames)) \<le> K
        \<and> length (au_best (foldl anchor_union_fold u frames)) \<le> K)
    \<and> (\<forall>row \<in> set (anchor_union_finish (foldl anchor_union_fold u frames)). rr_eff_age_secs row \<le> as_secs ttl)
    \<and> sorted_wrt (\<lambda>a b. rr_eff_age_secs b \<le> rr_eff_age_secs a) (anchor_union_finish (foldl anchor_union_fold u frames))
    \<and> distinct (map rr_hex (anchor_union_finish (foldl anchor_union_fold u frames)))"
proof -
  have u: "union_ok u" "au_max_entries u = K" "au_ttl u = ttl"
    by (simp_all add: u_def union_ok_def anchor_union_new_def)
  note many = fold_all_set[OF u(1), of frames]
  have "anchor_union_finish (foldl anchor_union_fold u frames)
      = anchor_union_finish (anchor_union_fold u (concat frames))"
    unfolding u_def by (rule union_fold_concat)
  moreover have "length (au_best (foldl anchor_union_fold u frames)) \<le> K" if "0 < K"
  proof (cases frames rule: rev_cases)
    case Nil
    then show ?thesis by (simp add: u_def anchor_union_new_def)
  next
    case (snoc ys y)
    have "au_max_entries (foldl anchor_union_fold u ys) = K" using fold_all_set[OF u(1), of ys] u(2) by simp
    then show ?thesis using snoc length_trim[OF that] by (simp add: anchor_union_fold_def Let_def)
  qed
  moreover have "rebuildable (int (as_secs ttl) * int nanos_per_sec) ttl (anchor_union_finish (foldl anchor_union_fold u frames))"
    using finish_rebuildable[of "foldl anchor_union_fold u frames" "int (as_secs ttl) * int nanos_per_sec"] many u(3)
    by (simp add: instant_checked_sub_secs_def i64_min_def)
  ultimately show ?thesis
    using length_finish[of "foldl anchor_union_fold u frames"] many u(2) by (simp add: rebuildable_def)
qed

lemma anchor_union_is_composable_witness:
  "length (anchor_union_finish (foldl anchor_union_fold (anchor_union_new 5000 (10 ^ 10) 1)
      [[\<lparr>da_hex = ''a'', da_conversation_id = ''x'', da_token_counts = None, da_age_secs = 2,
         da_snapshot_unix_ms = 4000\<rparr>],
       [\<lparr>da_hex = ''b'', da_conversation_id = ''y'', da_token_counts = None, da_age_secs = 1,
         da_snapshot_unix_ms = 4000\<rparr>]])) \<le> 1"
  using anchor_union_is_composable[where now_ms = 5000 and ttl = "10 ^ 10" and K = 1 and frames =
      "[[\<lparr>da_hex = ''a'', da_conversation_id = ''x'', da_token_counts = None, da_age_secs = 2,
         da_snapshot_unix_ms = 4000\<rparr>],
       [\<lparr>da_hex = ''b'', da_conversation_id = ''y'', da_token_counts = None, da_age_secs = 1,
         da_snapshot_unix_ms = 4000\<rparr>]]", THEN conjunct2, THEN conjunct1]
  by simp

section \<open>The index\<close>

text \<open>
  The histories of an index, under a clock that does not go back: the last instant it was used
  at and its state.
\<close>

inductive anchor_reach :: "('c, conversation_anchor_entry) lru_ops \<Rightarrow> instant \<Rightarrow> 'c anchor_index \<Rightarrow> bool" for ops where
  reach_default: "anchor_reach ops now anchor_index_default"
| reach_insert: "anchor_reach ops t index \<Longrightarrow> t \<le> now
    \<Longrightarrow> anchor_reach ops now (anchor_insert ops index a conv tc now ttl m)"
| reach_get: "anchor_reach ops t index \<Longrightarrow> t \<le> now
    \<Longrightarrow> anchor_reach ops now (snd (anchor_get ops index a now ttl m))"
| reach_recover: "anchor_reach ops t index \<Longrightarrow> t \<le> now
    \<Longrightarrow> anchor_reach ops now (snd (recover_token_counts ops index a now ttl))"
| reach_capacity: "anchor_reach ops t index \<Longrightarrow> anchor_reach ops t (ensure_capacity ops index m)"
| reach_expire: "anchor_reach ops t index \<Longrightarrow> t \<le> now
    \<Longrightarrow> anchor_reach ops now (remove_expired ops index now ttl)"
| reach_rebuild: "anchor_reach ops t index \<Longrightarrow> t \<le> now \<Longrightarrow> union_ok u
    \<Longrightarrow> instant_checked_sub_secs now (as_secs (au_ttl u)) \<noteq> None
    \<Longrightarrow> anchor_reach ops now (rebuild_from_rows ops index (anchor_union_finish u) now (au_ttl u) m)"

lemma anchor_ok_capacity:
  assumes "lru_contract ops" "anchor_ok ops t index"
  shows "anchor_ok ops t (ensure_capacity ops index m)"
proof -
  obtain c where "ensure_capacity ops index m = Some c"
    "lru_iter ops c = take (max m 1) (anchor_rows ops index)" "lru_cap ops c = max m 1"
    "recent_rows t (lru_iter ops c)"
    using anchor_ok_ensure[OF assms] by metis
  then show ?thesis by (simp add: anchor_ok_def)
qed

lemma expire_rows:
  assumes ops: "lru_contract ops" and ok: "anchor_ok ops t index" and t: "t \<le> now"
  shows "anchor_rows ops (remove_expired ops index now ttl) = live_rows now ttl (anchor_rows ops index)
    \<and> anchor_ok ops now (remove_expired ops index now ttl)"
proof (cases index)
  case (Some c)
  then have r: "recent_rows t (lru_iter ops c)" using ok by (simp add: anchor_ok_def)
  have "recent_rows now (live_rows now ttl (lru_iter ops c))"
    using recent_later[OF recent_filter[OF r] t] by (simp add: live_rows_def)
  moreover have "length (live_rows now ttl (lru_iter ops c)) \<le> lru_cap ops c"
    unfolding live_rows_def
    by (rule order_trans[OF length_filter_le]) (use ok Some in \<open>simp add: anchor_ok_def\<close>)
  ultimately show ?thesis
    using pop_expired_live[OF ops r, of now ttl] Some by (simp add: remove_expired_def anchor_ok_def)
qed (use ok t in \<open>simp add: remove_expired_def live_rows_def anchor_ok_def recent_rows_def\<close>)

lemma anchor_reach_ok: "anchor_reach ops t index \<Longrightarrow> lru_contract ops \<Longrightarrow> anchor_ok ops t index"
proof (induction rule: anchor_reach.induct)
  case (reach_default now)
  then show ?case by (simp add: anchor_ok_def anchor_index_default_def recent_rows_def)
next
  case (reach_rebuild t index now u m)
  then show ?case using rebuild_rows(2) finish_rebuildable by blast
qed (auto simp: insert_rows get_rows recover_rows anchor_ok_capacity expire_rows)

text \<open>
  C17.  The index is a bounded, time-limited map of the most recent anchors.  In every
  reachable state, with any implementation of the LRU cache that keeps its contract: a lookup
  gives the conversation of the anchor's row if it is there within the time to live, makes
  that row the most recent one with a new touch, and drops an expired one; the stored token
  counts are read under the same condition without changing the recency; and recording an
  anchor leaves the live rows, its own first, cut to the capacity.
\<close>

theorem anchor_index_refines_rows:
  assumes "lru_contract ops" "anchor_reach ops t index" "t \<le> now"
  defines "rows \<equiv> anchor_rows ops index"
  shows "fst (anchor_get ops index a now ttl m)
      = map_option ce_conversation_id (map_of (live_rows now ttl (take (max m 1) rows)) a)
    \<and> anchor_rows ops (snd (anchor_get ops index a now ttl m))
      = touch_row now (drop_stale now ttl a (take (max m 1) rows)) a
    \<and> fst (recover_token_counts ops index a now ttl)
      = Option.bind (map_of (live_rows now ttl rows) a) ce_token_counts
    \<and> anchor_rows ops (snd (recover_token_counts ops index a now ttl)) = drop_stale now ttl a rows
    \<and> anchor_rows ops (anchor_insert ops index a conv tc now ttl m)
      = put_row (max m 1) (live_rows now ttl (take (max m 1) rows))
          (a, \<lparr>ce_conversation_id = conv, ce_token_counts = tc, ce_last_touched_at = now\<rparr>)
    \<and> anchor_rows ops (remove_expired ops index now ttl) = live_rows now ttl rows
    \<and> recent_rows t rows"
proof -
  note ok = anchor_reach_ok[OF assms(2,1)]
  show ?thesis
    unfolding rows_def
    using get_rows(1,2)[OF assms(1) ok assms(3) refl, of a ttl m] recover_rows(1,2)[OF assms(1) ok assms(3), of a ttl]
      insert_rows(1)[OF assms(1) ok assms(3), of a conv tc ttl m] expire_rows[OF assms(1) ok assms(3), of ttl] ok
    by (simp add: anchor_ok_def)
qed

lemma anchor_index_refines_rows_witness:
  "fst (anchor_get list_lru
      (anchor_insert list_lru anchor_index_default ''k'' ''conv'' None 10 100 4) ''k'' 50 100 4) = Some ''conv''"
proof -
  have reach: "anchor_reach list_lru 10 (anchor_insert list_lru anchor_index_default ''k'' ''conv'' None 10 100 4)"
    by (rule reach_insert[OF reach_default[of list_lru 10]]) simp
  have "anchor_rows list_lru (anchor_insert list_lru anchor_index_default ''k'' ''conv'' None 10 100 4)
      = [(''k'', \<lparr>ce_conversation_id = ''conv'', ce_token_counts = None, ce_last_touched_at = 10\<rparr>)]"
    by (simp add: anchor_insert_def ensure_capacity_def remove_expired_def list_lru_def
        anchor_index_default_def anchor_rows_def)
  then show ?thesis
    using anchor_index_refines_rows[OF list_lru_contract reach, of 50 "''k''" 100 4]
    by (simp add: live_rows_def entry_expired_def duration_since_def)
qed

lemma anchor_section_read:
  assumes "\<forall>row \<in> set (anchor_rows ops index). row_encodable now row"
    and "length (anchor_rows ops index) < 2 ^ 64"
  shows "\<exists>rest'. decode_anchor_section hex snap_ms max_rows (encode_anchor_section ops hex index now cap @ rest)
      = Inr (take max_rows (under_cap cap 0 (List.map_filter (wire_row hex now snap_ms) (anchor_rows ops index))), rest')
    \<and> (length (under_cap cap 0 (List.map_filter (wire_row hex now snap_ms) (anchor_rows ops index))) \<le> max_rows
        \<longrightarrow> rest' = rest)"
proof -
  let ?wire = "under_cap cap 0 (List.map_filter (wire_row hex now snap_ms) (anchor_rows ops index))"
  obtain body where enc: "encode_anchor_rows hex now cap 0 (anchor_rows ops index) = (length ?wire, body)"
    and dec: "\<forall>budget r. \<exists>r'. read_anchor_rows hex snap_ms (length ?wire) budget (body @ r) = Inr (take budget ?wire, r')
        \<and> (length ?wire \<le> budget \<longrightarrow> r' = r)"
    using encode_rows_read[OF assms(1), of hex cap 0 snap_ms] by auto
  have "length ?wire \<le> length (anchor_rows ops index)"
    using length_map_filter[of "wire_row hex now snap_ms" "anchor_rows ops index"]
    by (auto simp: under_cap_def split: option.split)
  then have "read_varint (write_varint (length ?wire) @ body @ rest) = Inr (length ?wire, body @ rest)"
    using assms(2) by (intro read_write_varint) linarith
  moreover have "encode_anchor_section ops hex index now cap = write_varint (length ?wire) @ body"
    using enc by (simp add: encode_anchor_section_def anchor_rows_def)
  ultimately show ?thesis using dec by (simp add: decode_anchor_section_def)
qed

text \<open>
  C18.  The anchor section round trips.  The rows whose key is the hexadecimal form of 32 bytes
  are written, the most recent first and at most \<open>cap\<close> of them, and are read back with their
  conversation id, token counts and age, up to the reader's own ceiling; when the ceiling
  allows all of them the reader stands exactly after the section.
\<close>

theorem anchor_section_roundtrip:
  assumes "\<forall>row \<in> set (anchor_rows ops index). row_encodable now row"
    and "length (anchor_rows ops index) < 2 ^ 64"
  shows "\<exists>rest'. decode_anchor_section hex snap_ms max_rows (encode_anchor_section ops hex index now cap @ rest)
      = Inr (take max_rows (under_cap cap 0 (List.map_filter (wire_row hex now snap_ms) (anchor_rows ops index))), rest')
    \<and> (length (under_cap cap 0 (List.map_filter (wire_row hex now snap_ms) (anchor_rows ops index))) \<le> max_rows
        \<longrightarrow> rest' = rest)"
  using assms by (rule anchor_section_read)

lemma anchor_section_roundtrip_witness:
  "\<exists>rest'. decode_anchor_section \<lparr>hex_encode = bytes_str, hex_decode = Some \<circ> str_bytes\<rparr> 7 9
     (encode_anchor_section list_lru \<lparr>hex_encode = bytes_str, hex_decode = Some \<circ> str_bytes\<rparr>
        (Some (4, [(replicate 32 CHR ''a'',
           \<lparr>ce_conversation_id = ''c'', ce_token_counts = None, ce_last_touched_at = 0\<rparr>)])) 0 None @ [3])
   = Inr ([\<lparr>da_hex = replicate 32 CHR ''a'', da_conversation_id = ''c'', da_token_counts = None,
            da_age_secs = 0, da_snapshot_unix_ms = 7\<rparr>], rest') \<and> rest' = [3]"
proof -
  let ?row = "(replicate 32 CHR ''a'', \<lparr>ce_conversation_id = ''c'', ce_token_counts = None, ce_last_touched_at = 0\<rparr>)"
  let ?hex = "\<lparr>hex_encode = bytes_str, hex_decode = Some \<circ> str_bytes\<rparr>"
  have "utf8_valid (str_bytes ''c'')"
    by (rule utf8_valid_ascii) (simp add: str_bytes_def byte_of_char_def of_char_def)
  then have "row_encodable 0 ?row"
    by (simp add: row_encodable_def MAX_ANCHOR_CONVERSATION_ID_BYTES_def duration_since_def as_secs_def)
  moreover have "wire_row ?hex 0 7 ?row = Some \<lparr>da_hex = replicate 32 CHR ''a'', da_conversation_id = ''c'',
      da_token_counts = None, da_age_secs = 0, da_snapshot_unix_ms = 7\<rparr>"
    by (simp add: wire_row_def duration_since_def as_secs_def del: replicate.simps)
  moreover have "anchor_rows list_lru (Some (4, [?row])) = [?row]" by (simp add: list_lru_def)
  ultimately show ?thesis
    using anchor_section_roundtrip[of list_lru "Some (4, [?row])" 0 ?hex 7 9 None "[3]"]
    by (auto simp: under_cap_def List.map_filter_simps)
qed

end
