(* ===== verification/ProjectionProperties.thy ===== *)
theory ProjectionProperties
  imports Projection
begin

text \<open>
  The guarantees of the prompt projection: the incremental builder computes the projection,
  the anchor a finished turn leaves is the one its continuation looks up, pages are packed
  full, and what is hashed determines the segments.
\<close>

section \<open>Packing\<close>

lemma finish_push_atoms:
  "page_builder_finish ops (push_atoms ops b atoms) = pack_pages ops (tpb_pages b) (tpb_current b) atoms"
proof (induction atoms arbitrary: b)
  case (Cons atom atoms)
  have "push_atoms ops b (atom # atoms) = push_atoms ops (push_atom ops b atom) atoms"
    by (simp add: push_atoms_def)
  then show ?case using Cons by (simp add: push_atom_def Let_def)
qed (simp add: push_atoms_def page_builder_finish_def)

lemma push_atoms_append: "push_atoms ops (push_atoms ops b xs) ys = push_atoms ops b (xs @ ys)"
  by (simp add: push_atoms_def)

text \<open>The reference: pages of sixty-four atoms, the last one shorter.\<close>

function page_chunks :: "'a list \<Rightarrow> 'a list list" where
  "page_chunks xs =
     (if xs = [] then [] else take PREFIX_CACHE_PAGE_SIZE xs # page_chunks (drop PREFIX_CACHE_PAGE_SIZE xs))"
  by pat_completeness auto
termination by (relation "measure length") (auto simp: PREFIX_CACHE_PAGE_SIZE_def)

declare page_chunks.simps [simp del]

lemma page_chunks_Nil [simp]: "page_chunks [] = []"
  by (simp add: page_chunks.simps)

lemma page_chunks_step:
  "length c = PREFIX_CACHE_PAGE_SIZE \<Longrightarrow> page_chunks (c @ xs) = c # page_chunks xs"
  by (subst page_chunks.simps) (auto simp: PREFIX_CACHE_PAGE_SIZE_def)

lemma page_chunks_short:
  "c \<noteq> [] \<Longrightarrow> length c \<le> PREFIX_CACHE_PAGE_SIZE \<Longrightarrow> page_chunks c = [c]"
  by (subst page_chunks.simps) simp

lemma pack_pages_chunks:
  "length current < PREFIX_CACHE_PAGE_SIZE \<Longrightarrow>
    pack_pages ops pages current atoms = pages @ map (build_token_page ops) (page_chunks (current @ atoms))"
proof (induction atoms arbitrary: pages current)
  case Nil
  then show ?case by (simp add: page_chunks_short)
next
  case (Cons atom atoms)
  show ?case
  proof (cases "length (current @ [atom]) = PREFIX_CACHE_PAGE_SIZE")
    case True
    have "page_chunks ((current @ [atom]) @ atoms) = (current @ [atom]) # page_chunks atoms"
      using True by (rule page_chunks_step)
    then show ?thesis
      using True Cons.IH[of "[]" "pages @ [build_token_page ops (current @ [atom])]"]
      by (simp add: PREFIX_CACHE_PAGE_SIZE_def)
  next
    case False
    then show ?thesis using Cons by simp
  qed
qed

lemma build_token_pages_chunks:
  "build_token_pages ops units = map (build_token_page ops) (page_chunks (concat (map unit_token_atoms units)))"
  by (simp add: build_token_pages_def pack_pages_chunks PREFIX_CACHE_PAGE_SIZE_def)

lemma length_page_chunks:
  "length (page_chunks xs) = (length xs + PREFIX_CACHE_PAGE_SIZE - 1) div PREFIX_CACHE_PAGE_SIZE"
proof (induction xs rule: page_chunks.induct)
  case (1 xs)
  show ?case
  proof (cases "length xs \<le> PREFIX_CACHE_PAGE_SIZE")
    case True
    then show ?thesis
    proof (cases "xs = []")
      case False
      then have "(length xs + 64 - 1) div 64 = 1"
      proof -
        have "1 \<le> length xs" using False by (simp add: Suc_le_eq)
        moreover have "length xs \<le> 64" using True by (simp add: PREFIX_CACHE_PAGE_SIZE_def)
        ultimately show ?thesis by (intro div_nat_eqI) simp_all
      qed
      then show ?thesis using True False by (simp add: page_chunks_short PREFIX_CACHE_PAGE_SIZE_def)
    qed (simp add: PREFIX_CACHE_PAGE_SIZE_def)
  next
    case False
    then have "xs \<noteq> []" by auto
    then show ?thesis
      using False 1 by (subst page_chunks.simps) (simp add: PREFIX_CACHE_PAGE_SIZE_def)
  qed
qed

lemma page_chunks_sizes:
  "c \<in> set (page_chunks xs) \<Longrightarrow> c \<noteq> [] \<and> length c \<le> PREFIX_CACHE_PAGE_SIZE"
proof (induction xs rule: page_chunks.induct)
  case (1 xs)
  then show ?case
    by (subst (asm) (2) page_chunks.simps) (auto simp: PREFIX_CACHE_PAGE_SIZE_def split: if_splits)
qed

lemma concat_page_chunks [simp]: "concat (page_chunks xs) = xs"
proof (induction xs rule: page_chunks.induct)
  case (1 xs)
  then show ?case by (subst page_chunks.simps) simp
qed

lemma full_page_chunks:
  "k \<le> length xs div PREFIX_CACHE_PAGE_SIZE \<Longrightarrow> take k (page_chunks (xs @ ys)) = take k (page_chunks xs)
    \<and> (\<forall>c \<in> set (take k (page_chunks xs)). length c = PREFIX_CACHE_PAGE_SIZE)"
proof (induction k arbitrary: xs)
  case (Suc k)
  have long: "PREFIX_CACHE_PAGE_SIZE \<le> length xs"
    using Suc.prems by (cases "length xs < PREFIX_CACHE_PAGE_SIZE") simp_all
  then obtain c r where cr: "xs = c @ r" "length c = PREFIX_CACHE_PAGE_SIZE"
    by (metis append_take_drop_id length_take min_absorb2)
  have chunks: "page_chunks (xs @ ys) = c # page_chunks (r @ ys)" "page_chunks xs = c # page_chunks r"
    using page_chunks_step[OF cr(2)] by (simp_all add: cr(1))
  have "k \<le> length r div PREFIX_CACHE_PAGE_SIZE"
    using Suc.prems cr by (simp add: PREFIX_CACHE_PAGE_SIZE_def)
  from Suc.IH[OF this] show ?case using cr(2) by (simp add: chunks)
qed simp

lemma build_page_tokens:
  "length atoms \<le> PREFIX_CACHE_PAGE_SIZE \<Longrightarrow> unat (page_tokens (build_token_page ops atoms)) = length atoms"
  by (simp add: build_token_page_def unat_of_nat PREFIX_CACHE_PAGE_SIZE_def)

section \<open>The incremental builder\<close>

lemma add_stable_units_effect:
  "add_stable_units ops b units =
     b\<lparr>rb_projected_input_token_count := foldl sat_add_u64 (rb_projected_input_token_count b)
          (map (\<lambda>u. length (unit_token_atoms u)) units),
       rb_stable_prefix_pages := push_atoms ops (rb_stable_prefix_pages b) (concat (map unit_token_atoms units))\<rparr>"
proof (induction units arbitrary: b)
  case Nil
  then show ?case by (simp add: add_stable_units_def push_atoms_def)
next
  case (Cons u units)
  have "add_stable_units ops b (u # units) = add_stable_units ops (add_stable_unit ops b u) units"
    by (simp add: add_stable_units_def)
  then show ?case using Cons by (simp add: add_stable_unit_def push_atoms_append)
qed

lemma add_history_units_effect:
  "add_history_units ops b units =
     b\<lparr>rb_lookup_anchor_hasher := update_hash_segments (rb_lookup_anchor_hasher b) (map unit_key units),
       rb_resume_anchor_hasher := update_hash_segments (rb_resume_anchor_hasher b) (map unit_key units),
       rb_projected_input_token_count := foldl sat_add_u64 (rb_projected_input_token_count b)
          (map (\<lambda>u. length (unit_token_atoms u)) units),
       rb_stable_prefix_pages := push_atoms ops (rb_stable_prefix_pages b) (concat (map unit_token_atoms units))\<rparr>"
proof (induction units arbitrary: b)
  case Nil
  then show ?case by (simp add: add_history_units_def push_atoms_def update_hash_segments_def)
next
  case (Cons u units)
  let ?b = "add_stable_unit ops
       (b\<lparr>rb_lookup_anchor_hasher := update_hash_segment (rb_lookup_anchor_hasher b) (unit_key u),
          rb_resume_anchor_hasher := update_hash_segment (rb_resume_anchor_hasher b) (unit_key u)\<rparr>) u"
  have "add_history_units ops b (u # units) = add_history_units ops ?b units"
    by (simp add: add_history_units_def)
  then show ?case
    using Cons[of ?b] by (simp add: add_stable_unit_def push_atoms_append update_hash_segments_def)
qed

lemma add_history_concat:
  "foldl (\<lambda>b m. add_history_units ops b (f m)) b ms = add_history_units ops b (concat (map f ms))"
  by (induction ms arbitrary: b) (simp_all add: add_history_units_def)

lemma add_current_input_effect:
  "add_current_input_units b units =
     b\<lparr>rb_projected_input_token_count := foldl sat_add_u64 (rb_projected_input_token_count b)
          (map (\<lambda>u. length (unit_token_atoms u)) units)\<rparr>"
  by (induction units arbitrary: b) (simp_all add: add_current_input_units_def)

lemma add_current_history_effect:
  "add_current_history_units b units =
     b\<lparr>rb_resume_anchor_hasher := update_hash_segments (rb_resume_anchor_hasher b) units\<rparr>"
  by (induction units arbitrary: b) (simp_all add: add_current_history_units_def update_hash_segments_def)

lemma foldl_sat_add: "a + sum_list ns \<le> u64_max \<Longrightarrow> foldl sat_add_u64 a ns = a + sum_list ns"
  by (induction ns arbitrary: a) (simp_all add: sat_add_u64_exact ac_simps)

lemma update_segments_append:
  "update_hash_segments (update_hash_segments h xs) ys = update_hash_segments h (xs @ ys)"
  by (simp add: update_hash_segments_def)

lemma runtime_builder_projection:
  assumes "pp_projected_input_token_count (prompt_projection_of ops state) \<le> u64_max"
  shows "build_runtime_prompt_projection ops state = into_runtime_projection (prompt_projection_of ops state)"
    "runtime_resume_anchor_hash ops (build_runtime_prompt_projection ops state) m
      = build_resume_anchor_hash ops (prompt_projection_of ops state) m"
proof -
  let ?current = "cs_current_message state"
  let ?history = "canonicalize_history ops (cs_history state)"
  let ?tools = "canonicalize_tools ops (ctx_tools (uim_context ?current))"
  let ?input = "canonicalize_current_turn_for_input ops ?current"
  have count: "foldl sat_add_u64 (foldl sat_add_u64 (foldl sat_add_u64 0
        (map (\<lambda>u. length (unit_token_atoms u)) ?history)) (map (\<lambda>u. length (unit_token_atoms u)) ?tools))
        (map (\<lambda>u. length (unit_token_atoms u)) ?input) = atom_count (?history @ ?tools @ ?input)"
    unfolding foldl_append[symmetric]
    using assms by (subst foldl_sat_add) (simp_all add: prompt_projection_of_def atom_count_def Let_def)
  have pages: "page_builder_finish ops (push_atoms ops page_builder_new xs) = pack_pages ops [] [] xs" for xs
    by (simp add: finish_push_atoms page_builder_new_def)
  have history: "foldl (\<lambda>b m. add_history_units ops b (canonicalize_history_message ops m)) b (cs_history state)
      = add_history_units ops b ?history" for b
    by (simp add: add_history_concat canonicalize_history_def)
  have same: "build_runtime_prompt_projection ops state
      = into_runtime_projection (prompt_projection_of ops state)"
    using count
    unfolding build_runtime_prompt_projection_def Let_def history
    by (simp add: Let_def add_history_units_effect
        add_stable_units_effect add_current_input_effect add_current_history_effect
        runtime_builder_finish_def runtime_builder_new_def into_runtime_projection_def
        prompt_projection_of_def hash_segments_def update_segments_append push_atoms_append pages
        build_token_pages_def)
  then show "build_runtime_prompt_projection ops state = into_runtime_projection (prompt_projection_of ops state)"
    "runtime_resume_anchor_hash ops (build_runtime_prompt_projection ops state) m
      = build_resume_anchor_hash ops (prompt_projection_of ops state) m"
    by (simp_all add: runtime_resume_anchor_hash_def build_resume_anchor_hash_def into_runtime_projection_def
        update_segments_append)
qed

text \<open>
  C19.  The incremental builder computes the projection.  For a conversation whose atoms can be
  counted in 64 bits, the one pass of the runtime builder gives the same lookup anchor, the
  same pages and the same token count as the projection built in full, and for every answer of
  the assistant the same resume anchor.
\<close>

theorem runtime_projection_agrees:
  assumes "pp_projected_input_token_count (prompt_projection_of ops state) \<le> u64_max"
  shows "build_runtime_prompt_projection ops state = into_runtime_projection (prompt_projection_of ops state)
    \<and> runtime_resume_anchor_hash ops (build_runtime_prompt_projection ops state) m
      = build_resume_anchor_hash ops (prompt_projection_of ops state) m"
  using runtime_builder_projection[OF assms] by simp

lemma runtime_projection_agrees_witness:
  "\<exists>p. build_runtime_prompt_projection
      \<lparr>xxh3_64 = (\<lambda>_. 1), xxh3_128 = (\<lambda>_. 2), sha256 = bytes_str, json_text = (\<lambda>_. ''j'')\<rparr>
      \<lparr>cs_agent_continuation_id = None, cs_agent_task_type = None, cs_chat_trigger_type = None,
       cs_current_message = \<lparr>uim_context = \<lparr>ctx_tool_results = [], ctx_tools = []\<rparr>, uim_content = [],
         uim_model_id = [], uim_images = [], uim_documents = [], uim_origin = None\<rparr>,
       cs_conversation_id = ''c'', cs_history = [User \<lparr>um_content = [], um_model_id = [], um_origin = None,
         um_images = [\<lparr>image_format = [], image_source_bytes = []\<rparr>], um_documents = [],
         um_context = \<lparr>ctx_tool_results = [], ctx_tools = []\<rparr>\<rparr>]\<rparr> = into_runtime_projection p"
proof -
  let ?ops = "\<lparr>xxh3_64 = (\<lambda>_. 1), xxh3_128 = (\<lambda>_. 2), sha256 = bytes_str, json_text = (\<lambda>_. ''j'')\<rparr>"
  let ?state = "\<lparr>cs_agent_continuation_id = None, cs_agent_task_type = None, cs_chat_trigger_type = None,
       cs_current_message = \<lparr>uim_context = \<lparr>ctx_tool_results = [], ctx_tools = []\<rparr>, uim_content = [],
         uim_model_id = [], uim_images = [], uim_documents = [], uim_origin = None\<rparr>,
       cs_conversation_id = ''c'', cs_history = [User \<lparr>um_content = [], um_model_id = [], um_origin = None,
         um_images = [\<lparr>image_format = [], image_source_bytes = []\<rparr>], um_documents = [],
         um_context = \<lparr>ctx_tool_results = [], ctx_tools = []\<rparr>\<rparr>]\<rparr>"
  have "normalize_text [] = []"
    by (simp add: normalize_text_def trim_def utf8_chars.simps str_bytes_def bytes_str_def)
  then have "pp_projected_input_token_count (prompt_projection_of ?ops ?state) = 0"
    by (simp add: prompt_projection_of_def Let_def atom_count_def canonicalize_history_def
        canonicalize_user_message_def canonicalize_user_message_parts_def canonicalize_tools_def
        canonicalize_current_turn_for_input_def canonicalize_user_input_message_def text_units_def image_unit_def)
  then show ?thesis using runtime_projection_agrees[of ?ops ?state] by auto
qed

lemma resume_then_lookup:
  assumes "cs_history next = cs_history state @ [User turn, Assistant answer]"
    and "um_content turn = uim_content (cs_current_message state)"
    and "um_images turn = uim_images (cs_current_message state)"
    and "um_documents turn = uim_documents (cs_current_message state)"
    and "ctx_tool_results (um_context turn) = ctx_tool_results (uim_context (cs_current_message state))"
  shows "pp_lookup_anchor_hash (prompt_projection_of ops next)
    = build_resume_anchor_hash ops (prompt_projection_of ops state) answer"
  using assms
  by (simp add: prompt_projection_of_def Let_def build_resume_anchor_hash_def hash_segments_def
      canonicalize_history_def canonicalize_current_turn_as_history_def canonicalize_assistant_message_def
      canonicalize_user_message_def canonicalize_user_input_message_def canonicalize_user_message_parts_def)

text \<open>
  C20.  The anchor a finished turn leaves is the anchor its continuation looks up: when the next
  request's history is this one's with the current message and the assistant's answer appended,
  its lookup anchor is the resume anchor of this turn, whatever its own current message, tools
  and model are.
\<close>

theorem resume_anchor_is_next_lookup:
  assumes "cs_history next = cs_history state @ [User turn, Assistant answer]"
    and "um_content turn = uim_content (cs_current_message state)"
    and "um_images turn = uim_images (cs_current_message state)"
    and "um_documents turn = uim_documents (cs_current_message state)"
    and "ctx_tool_results (um_context turn) = ctx_tool_results (uim_context (cs_current_message state))"
  shows "pp_lookup_anchor_hash (prompt_projection_of ops next)
    = build_resume_anchor_hash ops (prompt_projection_of ops state) answer"
  using assms by (rule resume_then_lookup)

lemma resume_anchor_is_next_lookup_witness:
  "\<exists>state turn ops. cs_history (state\<lparr>cs_history := [User turn, Assistant \<lparr>am_content = ''hi'', am_tool_uses = None\<rparr>]\<rparr>) \<noteq> []
    \<and> pp_lookup_anchor_hash (prompt_projection_of ops
        (state\<lparr>cs_history := [User turn, Assistant \<lparr>am_content = ''hi'', am_tool_uses = None\<rparr>]\<rparr>))
      = build_resume_anchor_hash ops (prompt_projection_of ops state) \<lparr>am_content = ''hi'', am_tool_uses = None\<rparr>"
proof -
  let ?ctx = "\<lparr>ctx_tool_results = [], ctx_tools = []\<rparr>"
  let ?state = "\<lparr>cs_agent_continuation_id = None, cs_agent_task_type = None, cs_chat_trigger_type = None,
       cs_current_message = \<lparr>uim_context = ?ctx, uim_content = ''q'', uim_model_id = [],
         uim_images = [], uim_documents = [], uim_origin = None\<rparr>,
       cs_conversation_id = ''c'', cs_history = []\<rparr>"
  let ?turn = "\<lparr>um_content = ''q'', um_model_id = ''m'', um_origin = None, um_images = [],
       um_documents = [], um_context = ?ctx\<rparr>"
  let ?answer = "\<lparr>am_content = ''hi'', am_tool_uses = None\<rparr>"
  let ?ops = "\<lparr>xxh3_64 = (\<lambda>_. 1), xxh3_128 = (\<lambda>_. 2), sha256 = bytes_str, json_text = (\<lambda>_. ''j'')\<rparr>"
  show ?thesis
    using resume_anchor_is_next_lookup[of "?state\<lparr>cs_history := [User ?turn, Assistant ?answer]\<rparr>" ?state ?turn ?answer ?ops]
    by (intro exI[of _ ?state] exI[of _ ?turn] exI[of _ ?ops]) simp
qed

text \<open>
  C21.  Pages are packed full and grow at the end only.  Every page holds between one and
  sixty-four tokens and all but the last sixty-four; together they hold exactly the atoms of
  the stable prefix; and units appended to a conversation leave every full page as it was, so
  that a longer prompt can match the pages of a shorter one.
\<close>

theorem token_pages_are_stable:
  "(\<forall>p \<in> set (build_token_pages ops units).
      1 \<le> unat (page_tokens p) \<and> unat (page_tokens p) \<le> PREFIX_CACHE_PAGE_SIZE)
    \<and> (\<forall>p \<in> set (take (atom_count units div PREFIX_CACHE_PAGE_SIZE) (build_token_pages ops units)).
        unat (page_tokens p) = PREFIX_CACHE_PAGE_SIZE)
    \<and> prefix_pages_token_count (build_token_pages ops units) = atom_count units
    \<and> length (build_token_pages ops units)
      = (atom_count units + PREFIX_CACHE_PAGE_SIZE - 1) div PREFIX_CACHE_PAGE_SIZE
    \<and> take (atom_count units div PREFIX_CACHE_PAGE_SIZE) (build_token_pages ops (units @ units'))
      = take (atom_count units div PREFIX_CACHE_PAGE_SIZE) (build_token_pages ops units)"
proof -
  let ?atoms = "concat (map unit_token_atoms units)"
  have len: "length ?atoms = atom_count units" by (simp add: atom_count_def length_concat comp_def)
  have tokens: "unat (page_tokens (build_token_page ops c)) = length c" "c \<noteq> []"
      "length c \<le> PREFIX_CACHE_PAGE_SIZE"
    if "c \<in> set (page_chunks ?atoms)" for c
    using page_chunks_sizes[OF that] build_page_tokens by simp_all
  have "prefix_pages_token_count (build_token_pages ops units) = sum_list (map length (page_chunks ?atoms))"
    using tokens(1) by (simp add: prefix_pages_token_count_def build_token_pages_chunks comp_def cong: map_cong)
  also have "\<dots> = atom_count units" using len by (metis concat_page_chunks length_concat)
  finally have total: "prefix_pages_token_count (build_token_pages ops units) = atom_count units" .
  have "1 \<le> unat (page_tokens p) \<and> unat (page_tokens p) \<le> PREFIX_CACHE_PAGE_SIZE"
    if p: "p \<in> set (build_token_pages ops units)" for p
  proof -
    obtain c where c: "c \<in> set (page_chunks ?atoms)" "p = build_token_page ops c"
      using p by (auto simp: build_token_pages_chunks)
    then show ?thesis using tokens[OF c(1)] by (simp add: Suc_le_eq)
  qed
  moreover have "unat (page_tokens p) = PREFIX_CACHE_PAGE_SIZE"
    if p: "p \<in> set (take (atom_count units div PREFIX_CACHE_PAGE_SIZE) (build_token_pages ops units))" for p
  proof -
    obtain c where c: "c \<in> set (take (atom_count units div PREFIX_CACHE_PAGE_SIZE) (page_chunks ?atoms))"
        "p = build_token_page ops c"
      using p by (auto simp: build_token_pages_chunks take_map)
    have "length c = PREFIX_CACHE_PAGE_SIZE" 
      using c(1) full_page_chunks[of "atom_count units div PREFIX_CACHE_PAGE_SIZE" ?atoms "[]"] len by simp
    moreover have "c \<in> set (page_chunks ?atoms)" using c(1) by (rule in_set_takeD)
    ultimately show ?thesis using c(2) tokens(1) by simp
  qed
  ultimately show ?thesis
    using total full_page_chunks[of "atom_count units div PREFIX_CACHE_PAGE_SIZE" ?atoms "concat (map unit_token_atoms units')"]
      length_page_chunks[of ?atoms] len
    by (simp add: build_token_pages_chunks take_map)
qed

lemma token_pages_are_stable_witness:
  "\<forall>ops. prefix_pages_token_count (build_token_pages ops [\<lparr>unit_key = ''k'', unit_token_atoms = [1, 2, 3]\<rparr>]) = 3"
proof
  fix ops
  show "prefix_pages_token_count (build_token_pages ops [\<lparr>unit_key = ''k'', unit_token_atoms = [1, 2, 3]\<rparr>]) = 3"
    using token_pages_are_stable[of ops "[\<lparr>unit_key = ''k'', unit_token_atoms = [1, 2, 3]\<rparr>]" "[]"]
    by (simp add: atom_count_def)
qed








text \<open>
  C23.  Canonical JSON decides equality up to the order of keys: two values have the same
  canonical form exactly when one is the other with the entries of its objects reordered, at
  any depth; a canonical form is its own; and so tools whose schemas differ in key order are
  the same unit of the stable prefix.
\<close>

theorem canonical_json_is_normal_form:
  assumes "json_wf a" "json_wf b"
  shows "(canonicalize_json a = canonicalize_json b) = json_equiv a b
    \<and> canonicalize_json (canonicalize_json a) = canonicalize_json a
    \<and> (json_equiv a b \<longrightarrow> tool_definition_unit ops (tool\<lparr>tool_input_schema := a\<rparr>)
        = tool_definition_unit ops (tool\<lparr>tool_input_schema := b\<rparr>))"
proof -
  have trans: "json_equiv a b" if "canonicalize_json a = canonicalize_json b"
    using that canonicalize_self[OF assms(1)] canonicalize_self[OF assms(2)]
    by (metis json_equiv_sym json_equiv_trans)
  then show ?thesis
    using canonicalize_equiv[OF _ assms(2), of a] canonicalize_self[OF assms(1)]
      canonicalize_equiv[OF json_equiv_sym, of a "canonicalize_json a"] assms(1)
    by (auto simp: tool_definition_unit_def Let_def)
qed

lemma canonical_json_is_normal_form_witness:
  "canonicalize_json (JObject [(''b'', JNull), (''a'', JBool True)])
    = canonicalize_json (JObject [(''a'', JBool True), (''b'', JNull)])"
proof -
  let ?es = "[(''a'', JBool True), (''b'', JNull)]"
  have "json_equiv (JObject [(''b'', JNull), (''a'', JBool True)]) (JObject ?es)"
    by (rule equiv_object[of "[(''b'', JNull), (''a'', JBool True)]"]) (simp_all add: json_equiv_simps)
  then show ?thesis
    using canonical_json_is_normal_form[of "JObject [(''b'', JNull), (''a'', JBool True)]" "JObject ?es"] by simp
qed

end
