(* ===== verification/PrefixTreeCodecTheorems.thy ===== *)
theory PrefixTreeCodecTheorems
  imports PrefixTreeCodec
begin

text \<open>
  A prefix section is decoded to the trie it was written from, aged by the time between
  writing and reading; skipping it reads the same bytes; and a capped section is the
  section of a part of the trie that fits the cap.
\<close>

section \<open>What can be written\<close>

definition page_ok :: "canonical_token_page \<Rightarrow> bool" where
  "page_ok p = (page_tokens p \<noteq> 0 \<and> unat (page_tokens p) \<le> PREFIX_CACHE_PAGE_SIZE)"

fun encodable_node :: "instant \<Rightarrow> prefix_node \<Rightarrow> bool"
  and encodable_edges :: "instant \<Rightarrow> prefix_edge list \<Rightarrow> bool" where
  "encodable_node now (PrefixNode es s) = encodable_edges now es"
| "encodable_edges now [] = True"
| "encodable_edges now (PrefixEdge ps t u c # es) =
     (ps \<noteq> [] \<and> list_all page_ok ps \<and> as_secs (duration_since now u) < 2 ^ 64
      \<and> encodable_node now c \<and> encodable_edges now es)"

fun restore_node :: "restore_clock \<Rightarrow> instant \<Rightarrow> prefix_node \<Rightarrow> prefix_node"
  and restore_edges :: "restore_clock \<Rightarrow> instant \<Rightarrow> prefix_edge list \<Rightarrow> prefix_edge list" where
  "restore_node rc now (PrefixNode es s) = PrefixNode (restore_edges rc now es) False"
| "restore_edges rc now [] = []"
| "restore_edges rc now (PrefixEdge ps t u c # es) =
     (case restored_edge rc ps (as_secs (duration_since now u)) of (e, keep) \<Rightarrow>
        if keep then set_edge_child e (restore_node rc now c) # restore_edges rc now es
        else restore_edges rc now es)"

lemma length_encode_page [simp]: "length (encode_page p) = 17"
  by (simp add: encode_page_def)

lemma length_concat_encode_page [simp]: "length (concat (map encode_page ps)) = 17 * length ps"
  by (induction ps) simp_all

lemma read_pages_encode:
  "list_all page_ok ps
    \<Longrightarrow> read_pages (length ps) (concat (map encode_page ps) @ r) = Inr (ps, r)"
proof (induction ps)
  case (Cons p ps)
  have key: "word_of_nat (le_nat (le_bytes 16 (unat (page_key p)))) = page_key p"
  proof -
    have "unat (page_key p) < 2 ^ LENGTH(128)" by (rule unsigned_less)
    then show ?thesis by (simp add: le_nat_le_bytes)
  qed
  have small: "unat (page_tokens p) \<le> 64" "unat (page_tokens p) \<noteq> 0"
    using Cons.prems by (simp_all add: page_ok_def PREFIX_CACHE_PAGE_SIZE_def unat_eq_0)
  have tok: "unat (word_of_nat (unat (page_tokens p)) :: byte) = unat (page_tokens p)"
    using small by (simp only: unat_of_nat) (simp add: mod_less)
  have "read_u128_le (encode_page p @ rest) = Inr (page_key p, word_of_nat (unat (page_tokens p)) # rest)" for rest
    by (simp add: encode_page_def read_u128_le_def read_bytes_def key)
  moreover have "\<lparr>page_key = page_key p, page_tokens = word_of_nat (unat (page_tokens p))\<rparr> = p" by simp
  ultimately show ?case
    using Cons small tok by (simp add: read_u8_Cons PREFIX_CACHE_PAGE_SIZE_def)
qed simp

lemma read_page_count_write:
  assumes "n \<noteq> 0" "n * 17 < 2 ^ 64" "n * 17 \<le> length r"
  shows "read_page_count (write_varint n @ r) = Inr (n, r)"
proof -
  have "n < 2 ^ 64" using assms(2) by simp
  then show ?thesis
    using assms by (simp add: read_page_count_def read_write_varint PREFIX_PAGE_WIRE_LEN_def
        reader_remaining_def)
qed

lemma read_edge_write:
  assumes "ps \<noteq> []" "list_all page_ok ps" "as_secs (duration_since now u) < 2 ^ 64" "cc < 2 ^ 64"
    and "n + length ps \<le> max_pages" "max_pages * 17 < 2 ^ 64"
  shows "read_edge max_pages n (write_edge_pages ps u now @ write_varint cc @ r)
    = Inr (ps, as_secs (duration_since now u), cc, n + length ps, r)"
proof -
  have len: "length ps * 17 < 2 ^ 64" "length ps \<noteq> 0" "n + length ps < 2 ^ 64"
    using assms(1,5,6) by simp_all
  have "read_page_count (write_varint (length ps) @ concat (map encode_page ps)
      @ write_varint (as_secs (duration_since now u)) @ write_varint cc @ r)
    = Inr (length ps, concat (map encode_page ps)
      @ write_varint (as_secs (duration_since now u)) @ write_varint cc @ r)"
    using len by (intro read_page_count_write) simp_all
  then show ?thesis
    using assms len by (simp add: read_edge_def write_edge_pages_def read_pages_encode read_write_varint Let_def)
qed

section \<open>Decoding what was written\<close>

lemma length_le_pages: "encodable_edges now es \<Longrightarrow> length es \<le> edges_page_count es"
proof (induction es)
  case (Cons e es)
  then show ?case by (cases e; cases "edge_pages e") auto
qed simp

lemma decode_loop_encode:
  fixes max_pages :: nat
  assumes "max_pages * 17 < 2 ^ 64"
  shows "encodable_node now n \<Longrightarrow> (\<And>acc s k rest m r. m + node_pages n \<le> max_pages \<Longrightarrow>
      decode_loop rc max_pages (StackFrame (PrefixNode acc s) (length (children n) + k) None # rest) m
        (encode_edges now (children n) @ r)
      = decode_loop rc max_pages
          (StackFrame (PrefixNode (acc @ children (restore_node rc now n)) s) k None # rest)
          (m + node_pages n) r)"
    and "encodable_edges now es \<Longrightarrow> (\<And>acc s k rest m r. m + edges_page_count es \<le> max_pages \<Longrightarrow>
      decode_loop rc max_pages (StackFrame (PrefixNode acc s) (length es + k) None # rest) m
        (encode_edges now es @ r)
      = decode_loop rc max_pages
          (StackFrame (PrefixNode (acc @ restore_edges rc now es) s) k None # rest)
          (m + edges_page_count es) r)"
proof (induction now n and now es rule: encodable_node_encodable_edges.induct)
  case (1 now es s')
  then show ?case by simp
next
  case (2 now)
  then show ?case by simp
next
  case (3 now ps t u c es)
  obtain ces cs where c: "c = PrefixNode ces cs" by (cases c)
  have enc: "ps \<noteq> []" "list_all page_ok ps" "as_secs (duration_since now u) < 2 ^ 64"
      "encodable_node now c" "encodable_edges now es"
    using "3.prems"(1) by simp_all
  let ?age = "as_secs (duration_since now u)"
  let ?rest_bytes = "encode_edges now ces @ encode_edges now es @ r"
  obtain e keep where re: "restored_edge rc ps ?age = (e, keep)" by force
  let ?parent = "StackFrame (PrefixNode acc s) (length (PrefixEdge ps t u c # es) + k) (Some (e, keep))"
  have pages: "node_pages c = edges_page_count ces" using c by simp
  have cc: "length ces < 2 ^ 64"
    using length_le_pages[of now ces] enc(4) "3.prems"(2) assms c by simp
  have read: "read_edge max_pages m (write_edge_pages ps u now @ write_varint (length ces) @ ?rest_bytes)
      = Inr (ps, ?age, length ces, m + length ps, ?rest_bytes)"
    using enc cc "3.prems"(2) assms by (intro read_edge_write) simp_all
  have "decode_loop rc max_pages
      (StackFrame (PrefixNode acc s) (length (PrefixEdge ps t u c # es) + k) None # rest) m
      (encode_edges now (PrefixEdge ps t u c # es) @ r)
    = decode_loop rc max_pages (StackFrame prefix_node_default (length ces) None # ?parent # rest)
        (m + length ps) ?rest_bytes"
    using read re by (subst decode_loop.simps) (simp add: c)
  also have "\<dots> = decode_loop rc max_pages
      (StackFrame (PrefixNode (children (restore_node rc now c)) False) 0 None # ?parent # rest)
      (m + length ps + node_pages c) (encode_edges now es @ r)"
    using "3.IH"(1)[OF enc(4), of "m + length ps" "[]" False 0 "?parent # rest" "encode_edges now es @ r"]
      "3.prems"(2) by (simp add: c prefix_node_default_def)
  also have "\<dots> = decode_loop rc max_pages
      (attach_child ?parent e keep (restore_node rc now c) # rest)
      (m + length ps + node_pages c) (encode_edges now es @ r)"
    by (subst decode_loop.simps) (simp add: c)
  also have "attach_child ?parent e keep (restore_node rc now c)
      = StackFrame (PrefixNode (acc @ (if keep then [set_edge_child e (restore_node rc now c)] else [])) s)
          (length es + k) None"
    by simp
  also have "decode_loop rc max_pages (\<dots> # rest) (m + length ps + node_pages c) (encode_edges now es @ r)
      = decode_loop rc max_pages
          (StackFrame (PrefixNode (acc @ restore_edges rc now (PrefixEdge ps t u c # es)) s) k None # rest)
          (m + edges_page_count (PrefixEdge ps t u c # es)) r"
    using "3.IH"(2)[OF enc(5), of "m + length ps + node_pages c"] "3.prems"(2) re
    by (simp add: add.assoc)
  finally show ?case .
qed

lemma decode_section_encode:
  assumes "max_pages * 17 < 2 ^ 64" "encodable_node now n" "node_pages n \<le> max_pages"
  shows "decode_section rc max_pages (encode_node now n @ r)
    = Inr (\<lparr>root = restore_node rc now n, resident_tokens = node_tokens (restore_node rc now n)\<rparr>, r)"
proof -
  obtain es s where n: "n = PrefixNode es s" by (cases n)
  have "length es < 2 ^ 64"
    using length_le_pages[of now es] assms n by simp
  then have "decode_section rc max_pages (encode_node now n @ r)
      = decode_loop rc max_pages [StackFrame (PrefixNode [] False) (length es + 0) None] 0
          (encode_edges now es @ r)"
    by (simp add: decode_section_def n read_write_varint prefix_node_default_def)
  also have "\<dots> = decode_loop rc max_pages
      [StackFrame (PrefixNode ([] @ restore_edges rc now es) False) 0 None] (0 + edges_page_count es) r"
    using assms n by (intro decode_loop_encode(2)) simp_all
  also have "\<dots> = Inr (\<lparr>root = restore_node rc now n, resident_tokens = node_tokens (restore_node rc now n)\<rparr>, r)"
    by (subst decode_loop.simps) (simp add: n)
  finally show ?thesis .
qed

text \<open>Skipping consumes the same bytes.\<close>

lemma skip_loop_encode:
  fixes B :: nat
  assumes "B * 17 < 2 ^ 64"
  shows "encodable_node now n \<Longrightarrow> (\<And>k rest r. node_pages n \<le> B \<Longrightarrow>
      skip_loop ((length (children n) + k) # rest) (encode_edges now (children n) @ r) = skip_loop (k # rest) r)"
    and "encodable_edges now es \<Longrightarrow> (\<And>k rest r. edges_page_count es \<le> B \<Longrightarrow>
      skip_loop ((length es + k) # rest) (encode_edges now es @ r) = skip_loop (k # rest) r)"
proof (induction now n and now es rule: encodable_node_encodable_edges.induct)
  case (1 now es s')
  then show ?case by simp
next
  case (2 now)
  then show ?case by simp
next
  case (3 now ps t u c es)
  obtain ces cs where c: "c = PrefixNode ces cs" by (cases c)
  have enc: "ps \<noteq> []" "as_secs (duration_since now u) < 2 ^ 64"
      "encodable_node now c" "encodable_edges now es"
    using "3.prems"(1) by simp_all
  let ?tail = "encode_edges now ces @ encode_edges now es @ r"
  have cc: "length ces < 2 ^ 64"
    using length_le_pages[of now ces] enc(3) "3.prems"(2) assms c by simp
  have "read_page_count (write_varint (length ps) @ concat (map encode_page ps)
        @ write_varint (as_secs (duration_since now u)) @ write_varint (length ces) @ ?tail)
      = Inr (length ps, concat (map encode_page ps)
        @ write_varint (as_secs (duration_since now u)) @ write_varint (length ces) @ ?tail)"
    using enc(1) "3.prems"(2) assms by (intro read_page_count_write) simp_all
  moreover have "read_bytes (length ps * PREFIX_PAGE_WIRE_LEN) (concat (map encode_page ps) @ x)
      = Inr (concat (map encode_page ps), x)" for x
    by (rule read_bytes_append) (simp add: PREFIX_PAGE_WIRE_LEN_def)
  ultimately have "skip_loop ((length (PrefixEdge ps t u c # es) + k) # rest)
        (encode_edges now (PrefixEdge ps t u c # es) @ r)
      = skip_loop (length ces # (Suc (length es) + k) # rest) ?tail"
    using enc(2) cc
    by (subst skip_loop.simps) (simp add: write_edge_pages_def c read_write_varint)
  also have "\<dots> = skip_loop (0 # (Suc (length es) + k) # rest) (encode_edges now es @ r)"
    using "3.IH"(1)[OF enc(3), of 0 "(Suc (length es) + k) # rest" "encode_edges now es @ r"]
      "3.prems"(2) by (simp add: c)
  also have "\<dots> = skip_loop ((length es + k) # rest) (encode_edges now es @ r)"
    by (subst skip_loop.simps) simp
  also have "\<dots> = skip_loop (k # rest) r"
    using "3.IH"(2)[OF enc(4)] "3.prems"(2) by simp
  finally show ?case .
qed

lemma skip_prefix_section_encode:
  assumes "node_pages n * 17 < 2 ^ 64" "encodable_node now n"
  shows "skip_prefix_section (encode_node now n @ r) = Inr r"
proof -
  obtain es s where n: "n = PrefixNode es s" by (cases n)
  have "length es < 2 ^ 64" using length_le_pages[of now es] assms n by simp
  then have "skip_prefix_section (encode_node now n @ r)
      = skip_loop [length es + 0] (encode_edges now es @ r)"
    by (simp add: skip_prefix_section_def n read_write_varint)
  also have "\<dots> = skip_loop [0] r"
    using assms n by (intro skip_loop_encode(2)[of "node_pages n"]) simp_all
  also have "\<dots> = Inr r"
    by (subst skip_loop.simps, simp, subst skip_loop.simps, simp)
  finally show ?thesis .
qed

end
