(* ===== verification/PrefixTreeCap.thy ===== *)
theory PrefixTreeCap
  imports PrefixTreeCodecTheorems
begin

text \<open>
  The capped prefix section: the trie it is the section of, which is a part of the trie it
  was taken from and holds no more tokens than the cap.
\<close>

function cap_edges :: "prefix_edge list \<Rightarrow> nat \<Rightarrow> prefix_edge list \<times> nat" where
  "cap_edges [] budget = ([], budget)"
| "cap_edges (PrefixEdge ps t u c # es) budget =
     (if t \<le> budget then
        (case cap_edges (hottest_first (children c)) (budget - t) of (below, budget1) \<Rightarrow>
         case cap_edges es budget1 of (es', budget2) \<Rightarrow>
           (PrefixEdge ps t u (PrefixNode below False) # es', budget2))
      else (case fit_pages ps budget 0 of (n, tokens) \<Rightarrow>
        if 0 < n then (case cap_edges es (budget - tokens) of (es', budget2) \<Rightarrow>
            (PrefixEdge (take n ps) tokens u prefix_node_default # es', budget2))
        else cap_edges es budget))"
  by pat_completeness auto
termination by (relation "measure (\<lambda>(es, b). edges_edges es)") auto

definition cap_node :: "prefix_node \<Rightarrow> nat \<Rightarrow> prefix_node" where
  "cap_node n cap = PrefixNode (fst (cap_edges (hottest_first (children n)) cap)) False"

lemma capped_edges_encode:
  "cap_edges es budget = (es', b) \<Longrightarrow>
     capped_edges now es budget = (length es', encode_edges now es', b)"
proof (induction es budget arbitrary: es' b rule: cap_edges.induct)
  case (2 ps t u c es budget)
  show ?case
  proof (cases "t \<le> budget")
    case True
    obtain below b1 where below: "cap_edges (hottest_first (children c)) (budget - t) = (below, b1)" by force
    obtain rest b2 where rest: "cap_edges es b1 = (rest, b2)" by force
    show ?thesis
      using "2.prems" True below rest "2.IH"(1)[OF True below] "2.IH"(2)[OF True below[symmetric] rest]
      by auto
  next
    case False
    obtain n tok where fit: "fit_pages ps budget 0 = (n, tok)" by force
    show ?thesis
    proof (cases "0 < n")
      case True
      obtain rest b2 where rest: "cap_edges es (budget - tok) = (rest, b2)" by force
      show ?thesis
        using "2.prems" False fit True rest "2.IH"(3)[OF False fit[symmetric] True rest]
        by (auto simp: prefix_node_default_def)
    next
      case none: False
      then show ?thesis using "2.prems" False fit "2.IH"(4)[OF False fit[symmetric] none] by auto
    qed
  qed
qed auto

lemma encode_capped_eq: "encode_capped tree now cap = encode_node now (cap_node (root tree) cap)"
proof -
  obtain es' b where "cap_edges (hottest_first (children (root tree))) cap = (es', b)" by force
  then show ?thesis
    using capped_edges_encode[of _ cap es' b now] by (simp add: encode_capped_def cap_node_def)
qed

lemma fit_pages_spec:
  "fit_pages ps budget tokens = (n, tok) \<Longrightarrow> budget < u64_max \<Longrightarrow> tokens \<le> budget \<Longrightarrow>
     n \<le> length ps \<and> tok = tokens + prefix_pages_token_count (take n ps) \<and> tok \<le> budget
     \<and> (n < length ps \<longrightarrow> budget < tok + unat (page_tokens (ps ! n)))"
proof (induction ps arbitrary: tokens n tok)
  case Nil
  then show ?case by simp
next
  case (Cons p ps)
  let ?next = "sat_add_u64 tokens (unat (page_tokens p))"
  show ?case
  proof (cases "budget < ?next")
    case True
    then show ?thesis using Cons.prems by (auto simp: sat_add_u64_def)
  next
    case False
    then have exact: "?next = tokens + unat (page_tokens p)" "?next \<le> budget"
      using Cons.prems(2) by (auto simp: sat_add_u64_def min_def split: if_splits)
    obtain n1 tok1 where fit: "fit_pages ps budget ?next = (n1, tok1)" by force
    show ?thesis
      using Cons.IH[OF fit Cons.prems(2) exact(2)] Cons.prems(1) False fit exact by auto
  qed
qed

lemma hottest_first_perm: "mset (hottest_first es) = mset es"
  by (simp add: hottest_first_def)

lemma wf_children_perm:
  assumes "wf_edges es" "distinct (map first_page_key es)" "mset es' = mset es"
  shows "wf_edges es'" "distinct (map first_page_key es')" "touch_in es' = touch_in es"
    "edges_total es' = edges_total es"
proof -
  have set: "set es' = set es" using assms(3) by (rule mset_eq_setD)
  then show "wf_edges es'" using assms(1) by (simp add: wf_edges_iff)
  have "mset (map first_page_key es') = mset (map first_page_key es)" using assms(3) by simp
  then show "distinct (map first_page_key es')" using assms(2) mset_eq_imp_distinct_iff by blast
  show "touch_in es' = touch_in es"
    using touch_in_perm[of es es'] assms by (auto simp: wf_edges_iff wf_edge_def)
  show "edges_total es' = edges_total es"
    using assms(3) by (metis edges_total_sum mset_map sum_mset_sum_list)
qed

text \<open>A truncated or thinned edge stores no more than the edge did.\<close>

lemma edge_touch_truncate:
  assumes "0 < n" "edge_touch (PrefixEdge (take n ps) t' u prefix_node_default) ks = Some v"
  shows "edge_touch (PrefixEdge ps t u c) ks = Some v"
proof -
  have "ks \<noteq> []" "prefix ks (page_keys (take n ps))" "v = u"
    using assms(2) by (auto simp: edge_touch_def split: if_splits)
  moreover have "prefix (page_keys (take n ps)) (page_keys ps)"
    by (metis page_keys_simps(5) take_is_prefix)
  ultimately show ?thesis
    using prefix_order.trans by (auto simp: edge_touch_def)
qed

lemma touch_in_Cons_sub:
  assumes "\<And>v. edge_touch e' ks = Some v \<Longrightarrow> edge_touch e ks = Some v"
    and "\<And>v. touch_in es' ks = Some v \<Longrightarrow> touch_in es ks = Some v"
    and "edge_pages e \<noteq> []" "first_page_key e \<notin> first_page_key ` set es" "\<forall>x \<in> set es. edge_pages x \<noteq> []"
    and "touch_in (e' # es') ks = Some v"
  shows "touch_in (e # es) ks = Some v"
proof -
  have "edge_touch e' ks = Some v \<or> touch_in es' ks = Some v"
    using assms(6) by (auto simp: touch_in_Cons split: if_splits)
  then show ?thesis
  proof
    assume "edge_touch e' ks = Some v"
    then show ?thesis
      using assms(1) by (auto simp: touch_in_Cons edge_touch_def split: if_splits)
  next
    assume "touch_in es' ks = Some v"
    then have t: "touch_in es ks = Some v" using assms(2) by simp
    have ks: "ks \<noteq> []" using t touch_in_Nil[OF assms(5)] by auto
    have "hd ks \<in> first_page_key ` set es" using t touch_in_absent[OF assms(5), of ks] by auto
    then have "hd ks \<noteq> first_page_key e" using assms(4) by auto
    then show ?thesis
      using t edge_touch_other[OF assms(3) ks] by (simp add: touch_in_Cons)
  qed
qed

lemma cap_edges_spec:
  "cap_edges es budget = (es', b) \<Longrightarrow> wf_edges es \<Longrightarrow> distinct (map first_page_key es)
     \<Longrightarrow> budget < u64_max \<Longrightarrow> heap_edges h es \<Longrightarrow>
     edges_total es' + b = budget \<and> (\<forall>ks v. touch_in es' ks = Some v \<longrightarrow> touch_in es ks = Some v)
     \<and> wf_edges es' \<and> distinct (map first_page_key es') \<and> heap_edges h es'
     \<and> first_page_key ` set es' \<subseteq> first_page_key ` set es"
proof (induction es budget arbitrary: es' b h rule: cap_edges.induct)
  case (1 budget)
  then show ?case by auto
next
  case (2 ps t u c es budget)
  let ?e = "PrefixEdge ps t u c"
  have wf: "ps \<noteq> []" "t = prefix_pages_token_count ps" "wf_node c" "wf_edges es"
      "distinct (map first_page_key es)" "first_page_key ?e \<notin> first_page_key ` set es"
      "heap_node u c" "heap_edges h es" "u \<le> h" "list_all (\<lambda>p. page_tokens p \<noteq> 0) ps"
    using "2.prems"(2,3,5) by auto
  have ne: "edge_pages ?e \<noteq> []" "\<forall>x \<in> set es. edge_pages x \<noteq> []"
    using wf(1,4) by (auto simp: wf_edges_iff wf_edge_def)
  show ?case
  proof (cases "t \<le> budget")
    case True
    obtain ces cs where c: "c = PrefixNode ces cs" by (cases c)
    have cwf: "wf_edges ces" "distinct (map first_page_key ces)" using wf(3) c by simp_all
    note perm = wf_children_perm[OF cwf hottest_first_perm]
    have "set (hottest_first ces) = set ces" using hottest_first_perm mset_eq_setD by blast
    then have heap: "heap_edges u (hottest_first (children c))"
      using wf(7) c by (simp add: heap_edges_iff)
    obtain below b1 where below: "cap_edges (hottest_first (children c)) (budget - t) = (below, b1)" by force
    obtain rest b2 where rest: "cap_edges es b1 = (rest, b2)" by force
    have IH1: "edges_total below + b1 = budget - t
        \<and> (\<forall>ks v. touch_in below ks = Some v \<longrightarrow> touch_in (hottest_first (children c)) ks = Some v)
        \<and> wf_edges below \<and> distinct (map first_page_key below) \<and> heap_edges u below"
      using "2.IH"(1)[OF True below _ _ _ heap] perm "2.prems"(4) c by simp
    then have "b1 < u64_max" using "2.prems"(4) by linarith
    note IH2 = "2.IH"(2)[OF True below[symmetric] rest wf(4,5) this wf(8)]
    let ?e' = "PrefixEdge ps t u (PrefixNode below False)"
    have res: "es' = ?e' # rest" "b = b2" using "2.prems"(1) True below rest by auto
    have "edge_touch ?e' ks = Some v \<Longrightarrow> edge_touch ?e ks = Some v" for ks v
      using IH1 perm(3) c by (auto simp: edge_touch_def split: if_splits)
    then have "touch_in es' ks = Some v \<Longrightarrow> touch_in (?e # es) ks = Some v" for ks v
      unfolding res using touch_in_Cons_sub[of ?e' ks ?e rest es v] IH2 ne wf(6) by blast
    note touch = this
    have key: "first_page_key ?e' = first_page_key ?e" by (simp add: first_page_key_def)
    have "wf_edges es'" "heap_edges h es'"
      unfolding res using IH1 IH2 wf by simp_all
    moreover have "edges_total below + b1 = budget - t" "edges_total rest + b2 = b1"
      using IH1 IH2 by blast+
    then have "edges_total es' + b = budget"
      using True by (simp add: res)
    moreover have "distinct (map first_page_key es')"
        "first_page_key ` set es' \<subseteq> first_page_key ` set (?e # es)"
      unfolding res using IH2 key wf(6) by auto
    ultimately show ?thesis using touch by blast
  next
    case False
    obtain n tok where fit: "fit_pages ps budget 0 = (n, tok)" by force
    note spec = fit_pages_spec[OF fit "2.prems"(4)]
    show ?thesis
    proof (cases "0 < n")
      case True
      obtain rest b2 where rest: "cap_edges es (budget - tok) = (rest, b2)" by force
      have "budget - tok < u64_max" using "2.prems"(4) by simp
      note IH = "2.IH"(3)[OF False fit[symmetric] True rest wf(4,5) this wf(8)]
      let ?e' = "PrefixEdge (take n ps) tok u prefix_node_default"
      have res: "es' = ?e' # rest" "b = b2" using "2.prems"(1) False fit True rest by auto
      have "edge_touch ?e' ks = Some v \<Longrightarrow> edge_touch ?e ks = Some v" for ks v
        by (rule edge_touch_truncate[OF True])
      then have "touch_in es' ks = Some v \<Longrightarrow> touch_in (?e # es) ks = Some v" for ks v
        unfolding res using touch_in_Cons_sub[of ?e' ks ?e rest es v] IH ne wf(6) by blast
      note touch = this
      have key: "first_page_key ?e' = first_page_key ?e"
        using True wf(1) by (simp add: first_page_key_def)
      have ps: "list_all (\<lambda>p. page_tokens p \<noteq> 0) (take n ps)" "take n ps \<noteq> []"
        using wf(1,10) True by (auto simp: list_all_iff dest: in_set_takeD)
      have "wf_edges es'" "heap_edges h es'"
        unfolding res using IH spec wf(9) ps by simp_all
      moreover have "edges_total rest + b2 = budget - tok" "tok \<le> budget"
        using IH spec by blast+
      then have "edges_total es' + b = budget"
        by (simp add: res)
      moreover have "distinct (map first_page_key es')"
          "first_page_key ` set es' \<subseteq> first_page_key ` set (?e # es)"
        unfolding res using IH key wf(6) by auto
      ultimately show ?thesis using touch by blast
    next
      case none: False
      have res: "cap_edges es budget = (es', b)" using "2.prems"(1) False fit none by simp
      note IH = "2.IH"(4)[OF False fit[symmetric] none res wf(4,5) "2.prems"(4) wf(8)]
      have "touch_in (?e # es) ks = Some v" if "touch_in es ks = Some v" for ks v
      proof -
        have ks: "ks \<noteq> []" using that touch_in_Nil[OF ne(2)] by auto
        have "hd ks \<noteq> first_page_key ?e" using that touch_in_absent[OF ne(2), of ks] wf(6) by auto
        then show ?thesis
          using that edge_touch_other[OF ne(1) ks] by (simp add: touch_in_Cons del: touch_in.simps)
      qed
      then show ?thesis using IH by (auto simp del: touch_in.simps)
    qed
  qed
qed

lemma cap_node_spec:
  assumes "wf_node n" "heap_node h n" "cap < u64_max"
  shows "node_total (cap_node n cap) \<le> cap" "wf_node (cap_node n cap)" "heap_node h (cap_node n cap)"
    "last_touch (cap_node n cap) ks = Some v \<Longrightarrow> last_touch n ks = Some v"
proof -
  obtain es s where n: "n = PrefixNode es s" by (cases n)
  have wf: "wf_edges es" "distinct (map first_page_key es)" using assms(1) n by simp_all
  note perm = wf_children_perm[OF wf hottest_first_perm]
  have "set (hottest_first es) = set es" using hottest_first_perm mset_eq_setD by blast
  then have heap: "heap_edges h (hottest_first es)" using assms(2) n by (simp add: heap_edges_iff)
  obtain es' b where cap: "cap_edges (hottest_first es) cap = (es', b)" by force
  note spec = cap_edges_spec[OF cap perm(1,2) assms(3) heap]
  show "node_total (cap_node n cap) \<le> cap" "wf_node (cap_node n cap)" "heap_node h (cap_node n cap)"
    using spec cap n by (auto simp: cap_node_def)
  show "last_touch (cap_node n cap) ks = Some v \<Longrightarrow> last_touch n ks = Some v"
    using spec cap n perm(3) by (simp add: cap_node_def)
qed

lemma encodable_edges_iff: "encodable_edges now es \<longleftrightarrow> (\<forall>e \<in> set es. edge_pages e \<noteq> []
    \<and> list_all page_ok (edge_pages e) \<and> as_secs (duration_since now (touched e)) < 2 ^ 64
    \<and> encodable_node now (edge_child e))"
proof (induction es)
  case (Cons e es)
  then show ?case by (cases e) auto
qed simp

lemma edges_page_count_sum:
  "edges_page_count es = sum_list (map (\<lambda>e. length (edge_pages e) + node_pages (edge_child e)) es)"
proof (induction es)
  case (Cons e es)
  then show ?case by (cases e) simp
qed simp

lemma cap_edges_encodable:
  "cap_edges es budget = (es', b) \<Longrightarrow> encodable_edges now es
     \<Longrightarrow> encodable_edges now es' \<and> edges_page_count es' \<le> edges_page_count es"
proof (induction es budget arbitrary: es' b rule: cap_edges.induct)
  case (1 budget)
  then show ?case by auto
next
  case (2 ps t u c es budget)
  show ?case
  proof (cases "t \<le> budget")
    case True
    obtain below b1 where below: "cap_edges (hottest_first (children c)) (budget - t) = (below, b1)" by force
    obtain rest b2 where rest: "cap_edges es b1 = (rest, b2)" by force
    obtain ces cs where c: "c = PrefixNode ces cs" by (cases c)
    have "set (hottest_first ces) = set ces" using hottest_first_perm mset_eq_setD by blast
    then have enc: "encodable_edges now (hottest_first (children c))"
      using "2.prems"(2) c by (simp add: encodable_edges_iff)
    have "edges_page_count (hottest_first ces) = edges_page_count ces"
      by (simp add: edges_page_count_sum hottest_first_def sum_list_sort_key)
    then show ?thesis
      using "2.prems" True below rest c "2.IH"(1)[OF True below enc]
        "2.IH"(2)[OF True below[symmetric] rest] by auto
  next
    case False
    obtain n tok where fit: "fit_pages ps budget 0 = (n, tok)" by force
    show ?thesis
    proof (cases "0 < n")
      case True
      obtain rest b2 where rest: "cap_edges es (budget - tok) = (rest, b2)" by force
      have "list_all page_ok (take n ps)" "take n ps \<noteq> []"
        using "2.prems"(2) True by (auto simp: list_all_iff dest: in_set_takeD)
      then show ?thesis
        using "2.prems" False fit True rest "2.IH"(3)[OF False fit[symmetric] True rest]
        by (auto simp: prefix_node_default_def)
    next
      case none: False
      then show ?thesis
        using "2.prems" False fit "2.IH"(4)[OF False fit[symmetric] none] by auto
    qed
  qed
qed

lemma cap_node_encodable:
  assumes "encodable_node now n"
  shows "encodable_node now (cap_node n cap)" "node_pages (cap_node n cap) \<le> node_pages n"
proof -
  obtain es s where n: "n = PrefixNode es s" by (cases n)
  obtain es' b where cap: "cap_edges (hottest_first es) cap = (es', b)" by force
  have "set (hottest_first es) = set es" using hottest_first_perm mset_eq_setD by blast
  then have "encodable_edges now (hottest_first es)" using assms n by (simp add: encodable_edges_iff)
  moreover have "edges_page_count (hottest_first es) = edges_page_count es"
    by (simp add: edges_page_count_sum hottest_first_def sum_list_sort_key)
  ultimately show "encodable_node now (cap_node n cap)" "node_pages (cap_node n cap) \<le> node_pages n"
    using cap_edges_encodable[OF cap] cap n by (simp_all add: cap_node_def)
qed

section \<open>Restoring\<close>

text \<open>The touch an edge gets when it is restored.\<close>

definition restored_touch :: "restore_clock \<Rightarrow> instant \<Rightarrow> instant \<Rightarrow> instant option" where
  "restored_touch rc now u =
     (let eff = effective_age_secs (rc_snapshot_ms rc) (rc_now_ms rc) (as_secs (duration_since now u)) in
      if eff \<le> as_secs (rc_ttl rc) then Some (instant_minus_secs (rc_now rc) eff) else None)"

definition restorable :: "restore_clock \<Rightarrow> bool" where
  "restorable rc = (instant_checked_sub_secs (rc_now rc) (as_secs (rc_ttl rc)) \<noteq> None)"

lemma instant_minus_secs_antimono:
  assumes "restorable rc" "a \<le> b" "b \<le> as_secs (rc_ttl rc)"
  shows "instant_minus_secs (rc_now rc) b \<le> instant_minus_secs (rc_now rc) a"
    "instant_minus_secs (rc_now rc) a \<le> rc_now rc"
proof -
  let ?n = "int nanos_per_sec" and ?now = "rc_now rc"
  have pos: "0 < ?n" by (simp add: nanos_per_sec_def)
  have some: "instant_minus_secs ?now c = ?now - int c * ?n" if "c \<le> as_secs (rc_ttl rc)" for c
  proof -
    have "int c * ?n \<le> int (as_secs (rc_ttl rc)) * ?n"
      using that pos by (intro mult_right_mono) simp_all
    then have "(?now - int (as_secs (rc_ttl rc)) * ?n) div ?n \<le> (?now - int c * ?n) div ?n"
      using pos by (intro zdiv_mono1) simp_all
    then show ?thesis
      using assms(1) by (auto simp: restorable_def instant_minus_secs_def
          instant_checked_sub_secs_def Let_def split: if_splits)
  qed
  have "int a * ?n \<le> int b * ?n" using assms(2) pos by (intro mult_right_mono) simp_all
  then show "instant_minus_secs ?now b \<le> instant_minus_secs ?now a" "instant_minus_secs ?now a \<le> ?now"
    using some[of a] some[of b] assms(2,3) by simp_all
qed

lemma effective_age_mono:
  "u \<le> v \<Longrightarrow> effective_age_secs s n (as_secs (duration_since now v))
    \<le> effective_age_secs s n (as_secs (duration_since now u))"
  using div_le_mono[OF duration_since_antimono[of u v now], of nanos_per_sec]
  by (auto simp: effective_age_secs_def Let_def sat_add_u64_def as_secs_def)

lemma restore_refines:
  assumes "restorable rc"
  shows "wf_node n \<Longrightarrow> heap_node b n \<Longrightarrow>
     wf_node (restore_node rc now n) \<and> node_total (restore_node rc now n) \<le> node_total n
     \<and> (\<forall>e. effective_age_secs (rc_snapshot_ms rc) (rc_now_ms rc) (as_secs (duration_since now b)) = e
          \<longrightarrow> e \<le> as_secs (rc_ttl rc) \<longrightarrow> heap_node (instant_minus_secs (rc_now rc) e) (restore_node rc now n))
     \<and> heap_node (rc_now rc) (restore_node rc now n)
     \<and> (\<forall>ks. last_touch (restore_node rc now n) ks = Option.bind (last_touch n ks) (restored_touch rc now))"
   and "wf_edges es \<Longrightarrow> distinct (map first_page_key es) \<Longrightarrow> heap_edges b es \<Longrightarrow>
     wf_edges (restore_edges rc now es) \<and> edges_total (restore_edges rc now es) \<le> edges_total es
     \<and> (\<forall>e. effective_age_secs (rc_snapshot_ms rc) (rc_now_ms rc) (as_secs (duration_since now b)) = e
          \<longrightarrow> e \<le> as_secs (rc_ttl rc) \<longrightarrow> heap_edges (instant_minus_secs (rc_now rc) e) (restore_edges rc now es))
     \<and> heap_edges (rc_now rc) (restore_edges rc now es)
     \<and> subseq (map first_page_key (restore_edges rc now es)) (map first_page_key es)
     \<and> (\<forall>ks. touch_in (restore_edges rc now es) ks = Option.bind (touch_in es ks) (restored_touch rc now))"
proof (induction n and es arbitrary: b and b rule: node_total_edges_total.induct)
  case (1 es s)
  have "wf_edges es" "distinct (map first_page_key es)" "heap_edges b es" using "1.prems" by simp_all
  note IH = "1.IH"[OF this]
  then have "distinct (map first_page_key (restore_edges rc now es))"
    using \<open>distinct (map first_page_key es)\<close> subseq_distinct by blast
  with IH show ?case by simp
next
  case 2
  then show ?case by simp
next
  case (3 ps t u c es)
  let ?e = "PrefixEdge ps t u c"
  let ?eff = "effective_age_secs (rc_snapshot_ms rc) (rc_now_ms rc) (as_secs (duration_since now u))"
  have wf: "wf_node c" "heap_node u c" "wf_edges es" "distinct (map first_page_key es)" "heap_edges b es"
      "u \<le> b" "ps \<noteq> []" "first_page_key ?e \<notin> first_page_key ` set es" "t = prefix_pages_token_count ps"
    using "3.prems" by auto
  note IH1 = "3.IH"(1)[OF wf(1,2)] and IH2 = "3.IH"(2)[OF wf(3-5)]
  let ?es' = "restore_edges rc now es"
  have ne: "\<forall>x \<in> set es. edge_pages x \<noteq> []" using wf(3) by (auto simp: wf_edges_iff wf_edge_def)
  have absent: "touch_in es ks = None" if "hd ks = first_page_key ?e" for ks
    using that wf(8) by (intro touch_in_absent[OF ne]) simp
  have split_ks: "touch_in (?e # es) ks =
      (if ks \<noteq> [] \<and> hd ks = first_page_key ?e then edge_touch ?e ks else touch_in es ks)" for ks
    using edge_touch_other[of ?e ks] absent[of ks] touch_in_Nil[OF ne] wf(7)
    by (auto simp: touch_in_Cons edge_touch_def)
  have older: "?eff \<le> effective_age_secs (rc_snapshot_ms rc) (rc_now_ms rc) (as_secs (duration_since now v))"
    if "v \<le> u" for v using effective_age_mono[OF that] .
  have he: "heap_edge b ?e" using "3.prems"(3) by (simp add: heap_edge_def)
  show ?case
  proof (cases "?eff \<le> as_secs (rc_ttl rc)")
    case False
    have res: "restore_edges rc now (?e # es) = ?es'"
      using False by (simp add: restored_edge_def Let_def)
    have "Option.bind (edge_touch ?e ks) (restored_touch rc now) = None" for ks
    proof (cases "edge_touch ?e ks")
      case (Some v)
      then have "v \<le> u" using heap_edge_touch[OF he Some] by simp
      then show ?thesis using older[of v] False Some by (simp add: restored_touch_def)
    qed simp
    then have "touch_in ?es' ks = Option.bind (touch_in (?e # es) ks) (restored_touch rc now)" for ks
      using IH2 split_ks[of ks] absent[of ks] by (auto simp del: touch_in.simps)
    then show ?thesis using IH2 res by (auto simp del: touch_in.simps)
  next
    case True
    let ?u = "instant_minus_secs (rc_now rc) ?eff"
    let ?c = "restore_node rc now c"
    let ?e' = "PrefixEdge ps (prefix_pages_token_count ps) ?u ?c"
    have res: "restore_edges rc now (?e # es) = ?e' # ?es'"
      using True by (simp add: restored_edge_def Let_def)
    have c': "wf_node ?c" "heap_node ?u ?c" "node_total ?c \<le> node_total c"
        "\<And>ks. last_touch ?c ks = Option.bind (last_touch c ks) (restored_touch rc now)"
      using IH1 True by blast+
    have key: "first_page_key ?e' = first_page_key ?e" by (simp add: first_page_key_def)
    have touch_e: "edge_touch ?e' ks = Option.bind (edge_touch ?e ks) (restored_touch rc now)" for ks
      using c'(4) True by (auto simp: edge_touch_def restored_touch_def)
    have "touch_in (?e' # ?es') ks = Option.bind (touch_in (?e # es) ks) (restored_touch rc now)" for ks
    proof (cases "ks \<noteq> [] \<and> hd ks = first_page_key ?e")
      case True
      have "touch_in ?es' ks = None" using IH2 absent[of ks] True by simp
      then have "touch_in (?e' # ?es') ks = edge_touch ?e' ks"
        by (simp add: touch_in_Cons del: touch_in.simps) (auto simp: edge_touch_def)
      then show ?thesis using True split_ks[of ks] touch_e[of ks] by simp
    next
      case False
      have "touch_in (?e' # ?es') ks = touch_in ?es' ks"
      proof (cases "ks = []")
        case True
        then show ?thesis using wf(7) by simp
      next
        case nonempty: False
        then show ?thesis
          using edge_touch_other[of ?e' ks] False wf(7) key by (simp add: touch_in_Cons del: touch_in.simps)
      qed
      then show ?thesis using False split_ks[of ks] IH2 by (auto simp del: touch_in.simps)
    qed
    moreover have "?u \<le> instant_minus_secs (rc_now rc) e"
      if "effective_age_secs (rc_snapshot_ms rc) (rc_now_ms rc) (as_secs (duration_since now b)) = e" for e
      using instant_minus_secs_antimono(1)[OF assms _ True] effective_age_mono[OF wf(6)] that by blast
    moreover have "?u \<le> rc_now rc" using instant_minus_secs_antimono(2)[OF assms order_refl True] .
    ultimately show ?thesis
      unfolding res using IH2 c' wf(7,9) "3.prems"(1) key by (auto simp del: touch_in.simps)
  qed
qed

end
