(* ===== verification/PrefixCacheInterface.thy ===== *)
theory PrefixCacheInterface
  imports PrefixTreeEviction
begin

text \<open>
  The contract the cache simulator relies on, as a locale over any prefix cache, with the
  facts a client gets from it; the trie is an instance.
\<close>

definition touch_all ::
  "(u128 list \<Rightarrow> instant option) \<Rightarrow> instant \<Rightarrow> duration \<Rightarrow> u128 list \<Rightarrow> u128 list \<Rightarrow> instant option" where
  "touch_all old now ttl path ks =
     (if ks \<noteq> [] \<and> prefix ks path then Some now else fresh_touch now ttl (old ks))"

locale prefix_cache =
  fixes ok :: "instant \<Rightarrow> 's \<Rightarrow> bool" and touch :: "'s \<Rightarrow> u128 list \<Rightarrow> instant option"
    and resident :: "'s \<Rightarrow> nat"
    and lookup :: "'s \<Rightarrow> canonical_token_page list \<Rightarrow> instant \<Rightarrow> duration \<Rightarrow> prefix_cache_match \<times> 's"
    and insert :: "'s \<Rightarrow> canonical_token_page list \<Rightarrow> instant \<Rightarrow> duration \<Rightarrow> nat \<Rightarrow> 's"
  assumes touch_closed: "ok now s \<Longrightarrow> touch s ks = Some t \<Longrightarrow> prefix ks' ks \<Longrightarrow> ks' \<noteq> []
      \<Longrightarrow> \<exists>t'. touch s ks' = Some t' \<and> t \<le> t'"
    and ok_later: "ok now s \<Longrightarrow> now \<le> now' \<Longrightarrow> ok now' s"
    and lookup_ok: "ok now s \<Longrightarrow> lookup s pages now ttl = (m, s') \<Longrightarrow> ok now s'"
    and lookup_bound: "ok now s \<Longrightarrow> lookup s pages now ttl = (m, s') \<Longrightarrow> matched_pages m \<le> length pages"
    and lookup_hit: "ok now s \<Longrightarrow> lookup s pages now ttl = (m, s') \<Longrightarrow> 0 < matched_pages m
      \<Longrightarrow> fresh_touch now ttl (touch s (page_keys (take (matched_pages m) pages))) \<noteq> None"
    and lookup_longest: "ok now s \<Longrightarrow> lookup s pages now ttl = (m, s') \<Longrightarrow> matched_pages m < length pages
      \<Longrightarrow> fresh_touch now ttl (touch s (page_keys (take (Suc (matched_pages m)) pages))) = None"
    and lookup_touch: "ok now s \<Longrightarrow> lookup s pages now ttl = (m, s')
      \<Longrightarrow> touch s' = touch_all (touch s) now ttl (page_keys (take (matched_pages m) pages))"
    and insert_ok: "ok now s \<Longrightarrow> list_all (\<lambda>p. page_tokens p \<noteq> 0) pages
      \<Longrightarrow> resident s + prefix_pages_token_count pages \<le> u64_max
      \<Longrightarrow> ok now (insert s pages now ttl max_tokens)
        \<and> resident (insert s pages now ttl max_tokens) \<le> max_tokens"
    and insert_touch: "ok now s \<Longrightarrow> list_all (\<lambda>p. page_tokens p \<noteq> 0) pages
      \<Longrightarrow> resident s + prefix_pages_token_count pages \<le> max_tokens \<Longrightarrow> max_tokens \<le> u64_max
      \<Longrightarrow> touch (insert s pages now ttl max_tokens) = touch_all (touch s) now ttl (page_keys pages)"

context prefix_cache
begin

lemma fresh_now: "fresh_touch now ttl (Some t) \<noteq> None \<longleftrightarrow> duration_since now t \<le> ttl"
  by (auto simp: fresh_touch_def)

text \<open>What was inserted is found again, as far as it goes, while it is fresh.\<close>

lemma inserted_is_found:
  assumes "ok now s" "list_all (\<lambda>p. page_tokens p \<noteq> 0) pages"
    and "resident s + prefix_pages_token_count pages \<le> max_tokens" "max_tokens \<le> u64_max"
    and "now \<le> later" "duration_since later now \<le> ttl'"
    and "lookup (insert s pages now ttl max_tokens) (take k pages @ more_pages) later ttl' = (m, s')"
  shows "min k (length pages) \<le> matched_pages m"
proof (rule ccontr)
  let ?s = "insert s pages now ttl max_tokens"
  assume short: "\<not> min k (length pages) \<le> matched_pages m"
  have "resident s + prefix_pages_token_count pages \<le> u64_max" using assms(3,4) by simp
  then have ok: "ok later ?s" using insert_ok[OF assms(1,2)] ok_later[OF _ assms(5)] by blast
  let ?ks = "page_keys (take (Suc (matched_pages m)) (take k pages @ more_pages))"
  let ?path = "page_keys (take (Suc (matched_pages m)) pages)"
  have lt: "Suc (matched_pages m) \<le> k" "Suc (matched_pages m) \<le> length pages"
    using short by simp_all
  then have "?ks = ?path" by (simp add: min_absorb1)
  moreover have "fresh_touch later ttl' (touch ?s ?ks) = None"
    using lookup_longest[OF ok assms(7)] short by simp
  ultimately have "fresh_touch later ttl' (touch ?s ?path) = None" by simp
  moreover have "touch ?s ?path = Some now"
  proof -
    have "prefix ?path (page_keys pages)"
      by (metis page_keys_simps(5) take_is_prefix)
    moreover have "?path \<noteq> []" using lt(2) by auto
    ultimately show ?thesis
      using insert_touch[OF assms(1-4), of ttl] by (simp add: touch_all_def)
  qed
  ultimately show False using assms(6) by (simp add: fresh_touch_def)
qed

text \<open>A lookup is idempotent: repeated at once it finds the same pages.\<close>

lemma lookup_twice:
  assumes "ok now s" "lookup s pages now ttl = (m, s')" "lookup s' pages now ttl = (m', s'')"
  shows "matched_pages m' = matched_pages m"
proof -
  note ok' = lookup_ok[OF assms(1,2)]
  note t = lookup_touch[OF assms(1,2)]
  have fresh: "fresh_touch now ttl (touch s' ks)
      = (if ks \<noteq> [] \<and> prefix ks (page_keys (take (matched_pages m) pages)) then Some now
         else fresh_touch now ttl (touch s ks))" for ks
    unfolding t touch_all_def by (auto simp: fresh_touch_def duration_since_def split: option.splits)
  have le: "matched_pages m \<le> length pages" "matched_pages m' \<le> length pages"
    using lookup_bound[OF assms(1,2)] lookup_bound[OF ok' assms(3)] by simp_all
  have is_prefix: "prefix (page_keys (take a pages)) (page_keys (take b pages)) \<longleftrightarrow> a \<le> b"
    if "a \<le> length pages" "b \<le> length pages" for a b
  proof
    show "prefix (page_keys (take a pages)) (page_keys (take b pages)) \<Longrightarrow> a \<le> b"
      using that prefix_length_le[of "page_keys (take a pages)" "page_keys (take b pages)"] by simp
    show "a \<le> b \<Longrightarrow> prefix (page_keys (take a pages)) (page_keys (take b pages))"
      using take_is_prefix[of a "page_keys (take b pages)"] by (simp add: min_absorb1)
  qed
  show ?thesis
  proof (rule antisym)
    show "matched_pages m' \<le> matched_pages m"
    proof (rule ccontr)
      assume gt: "\<not> matched_pages m' \<le> matched_pages m"
      let ?ks = "page_keys (take (matched_pages m') pages)"
      let ?ks' = "page_keys (take (Suc (matched_pages m)) pages)"
      have none: "fresh_touch now ttl (touch s ?ks') = None"
        using lookup_longest[OF assms(1,2)] gt le by simp
      have "fresh_touch now ttl (touch s' ?ks) \<noteq> None"
        using lookup_hit[OF ok' assms(3)] gt by simp
      then have "fresh_touch now ttl (touch s ?ks) \<noteq> None"
        using fresh is_prefix[of "matched_pages m'" "matched_pages m"] le gt by simp
      then obtain t where t: "touch s ?ks = Some t" "duration_since now t \<le> ttl"
        by (auto simp: fresh_touch_def split: option.splits if_splits)
      have "?ks' \<noteq> []" using gt le by auto
      moreover have "prefix ?ks' ?ks"
        using is_prefix[of "Suc (matched_pages m)" "matched_pages m'"] gt le by simp
      ultimately obtain t' where "touch s ?ks' = Some t'" "t \<le> t'"
        using touch_closed[OF assms(1) t(1)] by blast
      then show False
        using none t(2) duration_since_antimono[of t t' now] by (auto simp: fresh_touch_def split: if_splits)
    qed
    show "matched_pages m \<le> matched_pages m'"
    proof (rule ccontr)
      assume lt: "\<not> matched_pages m \<le> matched_pages m'"
      then have "fresh_touch now ttl (touch s' (page_keys (take (Suc (matched_pages m')) pages))) = None"
        using lookup_longest[OF ok' assms(3)] le by simp
      moreover have "page_keys (take (Suc (matched_pages m')) pages) \<noteq> []" using lt le by auto
      ultimately show False using fresh is_prefix[of "Suc (matched_pages m')" "matched_pages m"] lt le by simp
    qed
  qed
qed

end

section \<open>The trie as a prefix cache\<close>

lemma last_touch_closed:
  "wf_node n \<Longrightarrow> heap_node b n \<Longrightarrow> last_touch n ks = Some t \<Longrightarrow> prefix ks' ks \<Longrightarrow> ks' \<noteq> []
    \<Longrightarrow> \<exists>t'. last_touch n ks' = Some t' \<and> t \<le> t'"
proof (induction "length ks" arbitrary: b n ks ks' rule: less_induct)
  case less
  obtain es s where n: "n = PrefixNode es s" by (cases n)
  have ne: "\<forall>e \<in> set es. edge_pages e \<noteq> []" and dist: "distinct (map first_page_key es)"
    using less.prems(1) n by (auto simp: wf_edges_iff wf_edge_def)
  have ks: "ks \<noteq> []" using less.prems(4,5) by auto
  have "hd ks \<in> first_page_key ` set es"
    using touch_in_absent[OF ne, of ks] less.prems(3) n by auto
  then obtain e where e: "e \<in> set es" "hd ks = first_page_key e" by blast
  have "hd ks' = hd ks" using prefix_hd[OF less.prems(4,5)] by simp
  then have touch: "last_touch n ks = edge_touch e ks" "last_touch n ks' = edge_touch e ks'"
    using touch_in_present[OF ne dist e(1)] e(2) ks less.prems(5) n by simp_all
  have he: "heap_edge b e" and we: "wf_edge e"
    using less.prems(1,2) n e(1) by (auto simp: heap_edges_iff wf_edges_iff)
  let ?ps = "page_keys (edge_pages e)"
  show ?case
  proof (cases "prefix ks' ?ps")
    case True
    then show ?thesis
      using touch heap_edge_touch[OF he, of ks t] less.prems(3,5) by (simp add: edge_touch_def)
  next
    case False
    then have nk: "\<not> prefix ks ?ps" using less.prems(4) prefix_order.trans by blast
    then have down: "prefix ?ps ks" "last_touch (edge_child e) (drop (length ?ps) ks) = Some t"
      using touch(1) less.prems(3) by (auto simp: edge_touch_def split: if_splits)
    have "prefix ?ps ks'" using False down(1) less.prems(4) prefix_same_cases by blast
    then obtain r r' where r: "ks' = ?ps @ r" "ks = ?ps @ r @ r'"
      using less.prems(4) by (auto simp: prefix_def)
    have "length (r @ r') < length ks" using r(2) we by (simp add: wf_edge_def)
    moreover have "r \<noteq> []" using False r(1) by auto
    moreover have "wf_node (edge_child e)" "heap_node (touched e) (edge_child e)"
      using he we by (simp_all add: heap_edge_def wf_edge_def)
    ultimately obtain t' where "last_touch (edge_child e) r = Some t'" "t \<le> t'"
      using less.hyps[of "r @ r'" "edge_child e" "touched e" r] down(2) r(2) by auto
    then show ?thesis using touch(2) False r(1) by (simp add: edge_touch_def)
  qed
qed

lemma tree_ok_later: "tree_ok now tree \<Longrightarrow> now \<le> now' \<Longrightarrow> tree_ok now' tree"
  using heap_node_mono by (auto simp: tree_ok_def)

lemma prune_expired_refines:
  assumes "tree_ok now tree"
  shows "tree_ok now (prune_expired tree now ttl)"
    "tree_touch (prune_expired tree now ttl) ks = fresh_touch now ttl (tree_touch tree ks)"
    "resident_tokens (prune_expired tree now ttl) \<le> resident_tokens tree"
proof -
  obtain r root' where p: "prune_node now ttl (root tree) = (r, root')" by force
  note ok = assms[unfolded tree_ok_def]
  from prune_refines(1)[OF p] ok obtain k where k: "wf_node root'" "heap_node now root'"
      "r = min k u64_max" "node_total (root tree) = node_total root' + k"
      "\<And>ks. last_touch root' ks = fresh_touch now ttl (last_touch (root tree) ks)"
    by blast
  then show "tree_ok now (prune_expired tree now ttl)"
    "tree_touch (prune_expired tree now ttl) ks = fresh_touch now ttl (tree_touch tree ks)"
    "resident_tokens (prune_expired tree now ttl) \<le> resident_tokens tree"
    using ok p by (simp_all add: prune_expired_def tree_ok_def tree_touch_def)
qed

lemma match_prefix_refines:
  assumes "tree_ok now tree" "match_prefix tree pages now ttl = (m, tree')"
  shows "tree_ok now tree'" "resident_tokens tree' \<le> resident_tokens tree"
    "longest_match (root (prune_expired tree now ttl)) pages (matched_pages m)"
    "tree_touch tree' = touch_all (tree_touch tree) now ttl (page_keys (take (matched_pages m) pages))"
proof -
  let ?t = "prune_expired tree now ttl"
  note pruned = prune_expired_refines[OF assms(1), where ttl = ttl]
  obtain root' where w: "match_walk (root ?t) pages now prefix_cache_match_default = (m, root')"
      and tree': "tree' = ?t\<lparr>root := root'\<rparr>"
    using assms(2) by (auto simp: match_prefix_def Let_def split: prod.splits)
  have "wf_node (root ?t)" "heap_node now (root ?t)" using pruned(1) by (simp_all add: tree_ok_def)
  from match_walk_refines[OF this w] obtain n where n: "longest_match (root ?t) pages n"
      "matched_pages m = n" "wf_node root'" "heap_node now root'"
      "node_total root' = node_total (root ?t)"
      "\<And>ks. last_touch root' ks = touch_path (root ?t) (page_keys (take n pages)) now ks"
    by (auto simp: prefix_cache_match_default_def)
  show "tree_ok now tree'" "resident_tokens tree' \<le> resident_tokens tree"
    using n pruned(1,3) tree' by (simp_all add: tree_ok_def)
  show "longest_match (root (prune_expired tree now ttl)) pages (matched_pages m)" using n by simp
  show "tree_touch tree' = touch_all (tree_touch tree) now ttl (page_keys (take (matched_pages m) pages))"
    using n pruned(2) by (auto simp: tree' tree_touch_def touch_path_def touch_all_def)
qed

lemma insert_pages_refines:
  assumes "tree_ok now tree" "list_all (\<lambda>p. page_tokens p \<noteq> 0) pages"
    and "resident_tokens tree + prefix_pages_token_count pages \<le> u64_max"
  shows "tree_ok now (insert_pages tree pages now ttl m)"
    "resident_tokens (insert_pages tree pages now ttl m) \<le> m"
    "tree_touch (insert_pages tree pages now ttl m) ks = None
      \<or> tree_touch (insert_pages tree pages now ttl m) ks
        = touch_all (tree_touch tree) now ttl (page_keys pages) ks"
    "resident_tokens tree + prefix_pages_token_count pages \<le> m
      \<Longrightarrow> tree_touch (insert_pages tree pages now ttl m)
        = touch_all (tree_touch tree) now ttl (page_keys pages)"
proof -
  let ?t = "prune_expired tree now ttl"
  note pruned = prune_expired_refines[OF assms(1), where ttl = ttl]
  obtain added root' where ins: "insert_prefix_path (root ?t) pages now = (added, root')" by force
  have wf: "wf_node (root ?t)" "heap_node now (root ?t)" using pruned(1) by (simp_all add: tree_ok_def)
  from insert_prefix_path_refines[OF wf assms(2) ins] obtain a where
    a: "wf_node root'" "heap_node now root'" "added = min a u64_max"
      "node_total root' = node_total (root ?t) + a"
      "\<And>ks. last_touch root' ks = touch_path (root ?t) (page_keys pages) now ks"
      and le: "a \<le> prefix_pages_token_count pages"
    by blast
  
  let ?i = "?t\<lparr>root := root', resident_tokens := sat_add_u64 (resident_tokens ?t) added\<rparr>"
  have bound: "resident_tokens ?t + a \<le> u64_max" using pruned(3) le assms(3) by simp
  have ok: "tree_ok now ?i"
    using a bound pruned(1) by (simp add: tree_ok_def sat_add_u64_def)
  have res: "insert_pages tree pages now ttl m = enforce_token_budget ?i m"
    using ins by (simp add: insert_pages_def Let_def)
  have touch: "tree_touch ?i ks = touch_all (tree_touch tree) now ttl (page_keys pages) ks" for ks
    using a(5) pruned(2) by (simp add: tree_touch_def touch_path_def touch_all_def)
  note enf = enforce_token_budget_refines[OF ok, of m]
  show "tree_ok now (insert_pages tree pages now ttl m)"
    "resident_tokens (insert_pages tree pages now ttl m) \<le> m"
    "tree_touch (insert_pages tree pages now ttl m) ks = None
      \<or> tree_touch (insert_pages tree pages now ttl m) ks
        = touch_all (tree_touch tree) now ttl (page_keys pages) ks"
    unfolding res using enf touch by metis+
  assume fits: "resident_tokens tree + prefix_pages_token_count pages \<le> m"
  have "resident_tokens ?i \<le> m"
    using fits pruned(3) le bound a(3) by (simp add: sat_add_u64_def)
  then show "tree_touch (insert_pages tree pages now ttl m)
        = touch_all (tree_touch tree) now ttl (page_keys pages)"
    unfolding res using enf touch by (intro ext) simp
qed

end
