(* ===== verification/PrefixTreeProperties.thy ===== *)
theory PrefixTreeProperties
  imports PrefixCacheInterface
begin

text \<open>
  The trie interpreted as a prefix cache, its reachable states, and the properties of the
  prefix-cache simulation.
\<close>

interpretation trie: prefix_cache tree_ok tree_touch resident_tokens match_prefix insert_pages
proof unfold_locales
  fix now :: instant and s s' :: prefix_tree and ks ks' :: "u128 list" and t :: instant
    and pages :: "canonical_token_page list" and ttl max_tokens :: nat and m :: prefix_cache_match
  show "tree_ok now s \<Longrightarrow> tree_touch s ks = Some t \<Longrightarrow> prefix ks' ks \<Longrightarrow> ks' \<noteq> []
      \<Longrightarrow> \<exists>t'. tree_touch s ks' = Some t' \<and> t \<le> t'"
    using last_touch_closed by (auto simp: tree_ok_def tree_touch_def)
  show "tree_ok now s \<Longrightarrow> now \<le> now' \<Longrightarrow> tree_ok now' s" for now'
    by (rule tree_ok_later)
  assume ok: "tree_ok now s"
  have pruned: "last_touch (root (prune_expired s now ttl)) ks = fresh_touch now ttl (tree_touch s ks)" for ks
    using prune_expired_refines(2)[OF ok] by (simp add: tree_touch_def)
  {
    assume match: "match_prefix s pages now ttl = (m, s')"
    show "tree_ok now s'" by (rule match_prefix_refines(1)[OF ok match])
    show "matched_pages m \<le> length pages"
      using match_prefix_refines(3)[OF ok match] by (simp add: longest_match_def)
    show "0 < matched_pages m \<Longrightarrow> fresh_touch now ttl
        (tree_touch s (page_keys (take (matched_pages m) pages))) \<noteq> None"
      using match_prefix_refines(3)[OF ok match] pruned by (simp add: longest_match_def)
    show "matched_pages m < length pages \<Longrightarrow> fresh_touch now ttl
        (tree_touch s (page_keys (take (Suc (matched_pages m)) pages))) = None"
      using match_prefix_refines(3)[OF ok match] pruned by (simp add: longest_match_def)
    show "tree_touch s' = touch_all (tree_touch s) now ttl (page_keys (take (matched_pages m) pages))"
      by (rule match_prefix_refines(4)[OF ok match])
  }
  assume toks: "list_all (\<lambda>p. page_tokens p \<noteq> 0) pages"
  show "tree_ok now (insert_pages s pages now ttl max_tokens)
      \<and> resident_tokens (insert_pages s pages now ttl max_tokens) \<le> max_tokens"
    if "resident_tokens s + prefix_pages_token_count pages \<le> u64_max"
    using insert_pages_refines(1,2)[OF ok toks that] by blast
  show "tree_touch (insert_pages s pages now ttl max_tokens)
      = touch_all (tree_touch s) now ttl (page_keys pages)"
    if "resident_tokens s + prefix_pages_token_count pages \<le> max_tokens" "max_tokens \<le> u64_max"
    using insert_pages_refines(4)[OF ok toks] that by simp
qed

section \<open>Reachable tries\<close>

text \<open>The clock is monotonic, pages hold at least one token, and the tokens fit a \<open>u64\<close>.\<close>

inductive tree_reach :: "instant \<Rightarrow> prefix_tree \<Rightarrow> bool" where
  reach_default: "tree_reach now prefix_tree_default"
| reach_match: "tree_reach prev tree \<Longrightarrow> prev \<le> now
    \<Longrightarrow> tree_reach now (snd (match_prefix tree pages now ttl))"
| reach_insert: "tree_reach prev tree \<Longrightarrow> prev \<le> now \<Longrightarrow> list_all (\<lambda>p. page_tokens p \<noteq> 0) pages
    \<Longrightarrow> resident_tokens tree + prefix_pages_token_count pages \<le> u64_max
    \<Longrightarrow> tree_reach now (insert_pages tree pages now ttl max_tokens)"
| reach_prune: "tree_reach prev tree \<Longrightarrow> prev \<le> now \<Longrightarrow> tree_reach now (prune_expired tree now ttl)"
| reach_enforce: "tree_reach prev tree \<Longrightarrow> prev \<le> now
    \<Longrightarrow> tree_reach now (enforce_token_budget tree max_tokens)"

lemma tree_reach_ok: "tree_reach now tree \<Longrightarrow> tree_ok now tree"
proof (induction rule: tree_reach.induct)
  case (reach_default now)
  then show ?case by (simp add: tree_ok_def prefix_tree_default_def)
next
  case (reach_match prev tree now pages ttl)
  then show ?case
    using trie.lookup_ok[of now tree pages ttl] tree_ok_later by (metis prod.collapse)
next
  case (reach_insert prev tree now pages ttl max_tokens)
  then show ?case using trie.insert_ok tree_ok_later by blast
next
  case (reach_prune prev tree now ttl)
  then show ?case using prune_expired_refines(1) tree_ok_later by blast
next
  case (reach_enforce prev tree now max_tokens)
  then show ?case using enforce_token_budget_refines tree_ok_later by blast
qed

section \<open>Properties\<close>

text \<open>
  C7.  \<open>match_prefix\<close> reports exactly the fresh cached prefix: the first \<open>k\<close> pages are covered
  by the match if and only if that page sequence is stored and was touched within the time
  to live.  Its effect on the cache is to expire what is stale and to touch exactly the
  prefixes it matched; splitting an edge on the way changes nothing else.
\<close>

theorem match_prefix_exact:
  assumes "tree_reach prev tree" "prev \<le> now" "match_prefix tree pages now ttl = (m, tree')"
  shows "matched_pages m \<le> length pages
    \<and> (\<forall>k. 0 < k \<and> k \<le> length pages \<longrightarrow>
         (k \<le> matched_pages m
          \<longleftrightarrow> fresh_touch now ttl (tree_touch tree (page_keys (take k pages))) \<noteq> None))
    \<and> tree_touch tree' = touch_all (tree_touch tree) now ttl (page_keys (take (matched_pages m) pages))"
proof -
  have ok: "tree_ok now tree" using tree_reach_ok assms(1,2) tree_ok_later by blast
  note hit = trie.lookup_hit[OF ok assms(3)]
  note longest = trie.lookup_longest[OF ok assms(3)]
  have closed: "fresh_touch now ttl (tree_touch tree (page_keys (take j pages))) \<noteq> None"
    if "fresh_touch now ttl (tree_touch tree (page_keys (take k pages))) \<noteq> None" "0 < j" "j \<le> k"
      "k \<le> length pages" for j k
  proof -
    note fresh = that(1)
    have "prefix (page_keys (take j pages)) (page_keys (take k pages))"
      using take_is_prefix[of j "page_keys (take k pages)"] that(3) by (simp add: min_absorb1)
    moreover have "page_keys (take j pages) \<noteq> []" using that(2-4) by auto
    moreover obtain t where t: "tree_touch tree (page_keys (take k pages)) = Some t"
        "duration_since now t \<le> ttl"
      using fresh by (auto simp: fresh_touch_def split: option.splits if_splits)
    ultimately obtain t' where "tree_touch tree (page_keys (take j pages)) = Some t'" "t \<le> t'"
      using trie.touch_closed[OF ok] by blast
    then show ?thesis
      using t(2) duration_since_antimono[of t t' now] by (simp add: fresh_touch_def)
  qed
  have "k \<le> matched_pages m \<longleftrightarrow>
      fresh_touch now ttl (tree_touch tree (page_keys (take k pages))) \<noteq> None"
    if "0 < k" "k \<le> length pages" for k
    using hit longest closed[of "matched_pages m" k] closed[of k "Suc (matched_pages m)"] that
      trie.lookup_bound[OF ok assms(3)] by (cases "k \<le> matched_pages m") (auto simp del: not_None_eq)
  then show ?thesis
    using trie.lookup_bound[OF ok assms(3)] trie.lookup_touch[OF ok assms(3)] by blast
qed

lemma match_prefix_exact_witness:
  "matched_pages (fst (match_prefix prefix_tree_default
     [\<lparr>page_key = 7, page_tokens = 64\<rparr>] 5 100)) = 0"
proof -
  let ?r = "match_prefix prefix_tree_default [\<lparr>page_key = 7, page_tokens = 64\<rparr>] 5 100"
  have "\<forall>k. 0 < k \<and> k \<le> (1 :: nat) \<longrightarrow> (k \<le> matched_pages (fst ?r)
      \<longleftrightarrow> fresh_touch 5 100 (tree_touch prefix_tree_default
            (page_keys (take k [\<lparr>page_key = 7, page_tokens = 64\<rparr>]))) \<noteq> None)"
    using match_prefix_exact[OF reach_default, of 0 5 "[\<lparr>page_key = 7, page_tokens = 64\<rparr>]" 100
        "fst ?r" "snd ?r"] by simp
  then show ?thesis
    by (auto simp: tree_touch_def prefix_tree_default_def)
qed

text \<open>
  C8.  \<open>insert\<close> adds and touches exactly the prefixes of the inserted pages and expires what
  is stale, when the budget has room for them; whatever the budget, it ends with at most
  \<open>max_tokens\<close> resident tokens and only forgets, never invents, stored prefixes.
\<close>

theorem insert_refines_cache:
  assumes "tree_reach prev tree" "prev \<le> now" "list_all (\<lambda>p. page_tokens p \<noteq> 0) pages"
    and "resident_tokens tree + prefix_pages_token_count pages \<le> u64_max"
  shows "resident_tokens (insert_pages tree pages now ttl max_tokens) \<le> max_tokens
    \<and> (\<forall>ks. tree_touch (insert_pages tree pages now ttl max_tokens) ks = None
          \<or> tree_touch (insert_pages tree pages now ttl max_tokens) ks
            = touch_all (tree_touch tree) now ttl (page_keys pages) ks)
    \<and> (resident_tokens tree + prefix_pages_token_count pages \<le> max_tokens
       \<longrightarrow> tree_touch (insert_pages tree pages now ttl max_tokens)
            = touch_all (tree_touch tree) now ttl (page_keys pages))"
proof -
  have "tree_ok now tree" using tree_reach_ok assms(1,2) tree_ok_later by blast
  from insert_pages_refines[OF this assms(3,4)] show ?thesis by blast
qed

lemma insert_refines_cache_witness:
  "resident_tokens (insert_pages prefix_tree_default
      [\<lparr>page_key = 7, page_tokens = 64\<rparr>, \<lparr>page_key = 8, page_tokens = 3\<rparr>] 5 100 70) \<le> 70
   \<and> tree_touch (insert_pages prefix_tree_default
      [\<lparr>page_key = 7, page_tokens = 64\<rparr>, \<lparr>page_key = 8, page_tokens = 3\<rparr>] 5 100 70) [7] = Some 5"
  using insert_refines_cache[OF reach_default, of 0 5
      "[\<lparr>page_key = 7, page_tokens = 64\<rparr>, \<lparr>page_key = 8, page_tokens = 3\<rparr>]" 100 70]
  by (simp add: prefix_tree_default_def u64_max_def touch_all_def)

text \<open>
  C9.  Every reachable trie is well formed: the children of a node start with different pages
  and are sorted when they are marked so, edges are not empty, no edge is younger than its
  parent, and the resident token count is the sum of the tokens on the edges.
\<close>

theorem prefix_tree_invariant:
  assumes "tree_reach now tree"
  shows "wf_node (root tree) \<and> heap_node now (root tree)
    \<and> resident_tokens tree = node_total (root tree)"
  using tree_reach_ok[OF assms] by (simp add: tree_ok_def)

lemma prefix_tree_invariant_witness:
  "wf_node (root (prune_expired (insert_pages prefix_tree_default [\<lparr>page_key = 1, page_tokens = 2\<rparr>] 3 9 5) 4 9))"
proof -
  have "tree_reach 3 (insert_pages prefix_tree_default [\<lparr>page_key = 1, page_tokens = 2\<rparr>] 3 9 5)"
    by (rule reach_insert[OF reach_default[of 0]]) (simp_all add: prefix_tree_default_def u64_max_def)
  from prefix_tree_invariant[OF reach_prune[OF this]] show ?thesis by simp
qed

text \<open>
  C10.  What was cached is found: pages inserted with room in the budget are matched by any
  later request that starts with them, as long as the time to live has not passed.
\<close>

theorem inserted_pages_are_matched:
  assumes "tree_reach prev tree" "prev \<le> now" "list_all (\<lambda>p. page_tokens p \<noteq> 0) pages"
    and "resident_tokens tree + prefix_pages_token_count pages \<le> max_tokens" "max_tokens \<le> u64_max"
    and "now \<le> later" "duration_since later now \<le> ttl'"
    and "match_prefix (insert_pages tree pages now ttl max_tokens) (take k pages @ suffix_pages) later ttl'
           = (m, tree')"
  shows "min k (length pages) \<le> matched_pages m"
proof -
  have "tree_ok now tree" using tree_reach_ok assms(1,2) tree_ok_later by blast
  from trie.inserted_is_found[OF this assms(3-8)] show ?thesis .
qed

lemma inserted_pages_are_matched_witness:
  "2 \<le> matched_pages (fst (match_prefix (insert_pages prefix_tree_default
      [\<lparr>page_key = 7, page_tokens = 64\<rparr>, \<lparr>page_key = 8, page_tokens = 3\<rparr>] 5 100 70)
      [\<lparr>page_key = 7, page_tokens = 64\<rparr>, \<lparr>page_key = 8, page_tokens = 3\<rparr>, \<lparr>page_key = 9, page_tokens = 1\<rparr>]
      60 100))"
proof -
  let ?pages = "[\<lparr>page_key = 7, page_tokens = 64\<rparr>, \<lparr>page_key = 8, page_tokens = 3\<rparr>]
    :: canonical_token_page list"
  let ?r = "match_prefix (insert_pages prefix_tree_default ?pages 5 100 70)
    (take 2 ?pages @ [\<lparr>page_key = 9, page_tokens = 1\<rparr>]) 60 100"
  have "min 2 (length ?pages) \<le> matched_pages (fst ?r)"
    by (rule inserted_pages_are_matched[OF reach_default, where now = 5 and ttl = 100
          and max_tokens = 70 and later = 60 and ttl' = 100 and tree' = "snd ?r" and prev = 0])
      (simp_all add: prefix_tree_default_def u64_max_def duration_since_def)
  then show ?thesis by simp
qed

text \<open>
  C11.  The victim of an eviction is the coldest: the path found leads to a leaf edge, and no
  stored page sequence was touched before that leaf.
\<close>

theorem coldest_leaf_is_evicted:
  assumes "tree_reach now tree" "find_coldest_leaf_path (root tree) = Some path"
  shows "\<exists>u. leaf_touch (root tree) path = Some u
    \<and> (\<forall>ks t. tree_touch tree ks = Some t \<longrightarrow> u \<le> t)"
  using find_coldest_leaf_path_Some[OF _ _ assms(2)] tree_reach_ok[OF assms(1)]
  unfolding tree_ok_def tree_touch_def by blast

lemma coldest_leaf_is_evicted_witness:
  "\<exists>path u. leaf_touch (root (insert_pages prefix_tree_default [\<lparr>page_key = 1, page_tokens = 2\<rparr>] 3 9 5)) path
     = Some u"
proof -
  let ?t = "insert_pages prefix_tree_default [\<lparr>page_key = 1, page_tokens = 2\<rparr>] 3 9 5"
  have reach: "tree_reach 3 ?t"
    by (rule reach_insert[OF reach_default[of 0]]) (simp_all add: prefix_tree_default_def u64_max_def)
  have "tree_touch ?t = touch_all (tree_touch prefix_tree_default) 3 9 [1]"
    using insert_pages_refines(4)[OF tree_reach_ok[OF reach_default[of 3]], of "[\<lparr>page_key = 1, page_tokens = 2\<rparr>]" 5 9]
    by (simp add: prefix_tree_default_def u64_max_def)
  then have "tree_touch ?t [1] = Some 3" by (simp add: touch_all_def)
  then have "children (root ?t) \<noteq> []"
    by (cases "root ?t") (auto simp: tree_touch_def)
  moreover have "heap_node 3 (root ?t)" using tree_reach_ok[OF reach] by (simp add: tree_ok_def)
  ultimately obtain path where "find_coldest_leaf_path (root ?t) = Some path"
    using find_coldest_leaf_path_None by (cases "find_coldest_leaf_path (root ?t)") auto
  from coldest_leaf_is_evicted[OF reach this] show ?thesis by blast
qed

text \<open>
  Looking up a child by the lazily sorted binary search finds what the linear search
  finds: an edge that starts with the key, exactly when there is one, and it leaves the
  same edges.
\<close>

theorem child_lookup_correct:
  assumes "wf_node node" "find_child_edge_index node k = (r, node')"
  shows "wf_node node' \<and> mset (children node') = mset (children node)
    \<and> (case r of None \<Rightarrow> k \<notin> first_page_key ` set (children node)
       | Some i \<Rightarrow> i < length (children node') \<and> first_page_key (children node' ! i) = k)"
  using find_child_edge_index_spec[OF assms] find_child_edge_index_mset[OF assms(2)]
  by (auto split: option.split)

lemma child_lookup_correct_witness:
  "fst (find_child_edge_index (PrefixNode [prefix_edge_new [\<lparr>page_key = 4, page_tokens = 1\<rparr>] 0] False) 4) \<noteq> None"
proof -
  let ?n = "PrefixNode [prefix_edge_new [\<lparr>page_key = 4, page_tokens = 1\<rparr>] 0] False"
  obtain r n' where find: "find_child_edge_index ?n 4 = (r, n')" by force
  have "wf_node ?n" by (simp add: prefix_edge_new_def)
  from child_lookup_correct[OF this find] have "r \<noteq> None"
    by (auto simp: first_page_key_def split: option.splits)
  then show ?thesis by (simp only: find fst_conv not_False_eq_True)
qed

text \<open>
  An eviction takes the parent along.  When the evicted leaf was the only child of its
  parent, the parent edge is removed too, however recently it was touched and even when
  removing the leaf alone would have met the budget.
\<close>

lemma eviction_takes_only_parent:
  assumes "i < length (children node)"
    and "children node ! i = PrefixEdge ps t u (PrefixNode [PrefixEdge ps' t' u' (PrefixNode [] s')] s)"
    and "0 < t'" "t + t' \<le> u64_max"
  shows "remove_leaf_path node [i, 0] = (t' + t, remove_child node i)"
  using assms by (simp add: Let_def subtree_token_count_edge_def sat_add_u64_def)

end
