(* ===== verification/SnapshotProperties.thy ===== *)
theory SnapshotProperties
  imports PrefixTreeCap PrefixTreeProperties
begin

text \<open>
  The guarantees of the snapshot codec: integers are never truncated, a frame that was
  written is read back exactly, and a prefix section restores the trie it was written from.
\<close>

fun leb_value :: "byte list \<Rightarrow> nat" where
  "leb_value [] = 0"
| "leb_value (b # bs) = unat b mod 128 + 128 * leb_value bs"

lemma shift_back:
  assumes "drop_bit s (take_bit 64 (push_bit s c)) = (c :: nat)"
  shows "take_bit 64 (push_bit s c) = c * 2 ^ s" "c * 2 ^ s < 2 ^ 64"
proof -
  let ?x = "take_bit 64 (push_bit s c)"
  have "?x \<le> c * 2 ^ s" by (simp add: take_bit_eq_mod push_bit_eq_mult)
  moreover have "?x div 2 ^ s = c" using assms by (simp add: drop_bit_eq_div)
  then have "c * 2 ^ s \<le> ?x" by (metis div_times_less_eq_dividend)
  ultimately show eq: "?x = c * 2 ^ s" by simp
  have "?x < 2 ^ 64" by (rule take_bit_nat_less_exp)
  then show "c * 2 ^ s < 2 ^ 64" using eq by simp
qed

lemma read_varint_loop_value:
  assumes "v < 2 ^ s" "read_varint_loop v s r = Inr (x, r')"
  shows "\<exists>bs. r = bs @ r' \<and> x = v + leb_value bs * 2 ^ s \<and> x < 2 ^ 64"
  using assms
proof (induction v s r rule: read_varint_loop.induct)
  case (1 v s r)
  obtain b r1 where r: "r = b # r1"
    using "1.prems"(2) by (cases r) (simp_all add: read_varint_loop.simps read_u8_Nil)
  let ?c = "unat b mod 128"
  have u8: "read_u8 r = Inr (b, r1)" by (simp add: r read_u8_Cons)
  have ok: "s < 64" "drop_bit s (take_bit 64 (push_bit s ?c)) = ?c"
    using "1.prems"(2) u8 by (auto simp: read_varint_loop.simps Let_def split: if_splits)
  note exact = shift_back[OF ok(2)]
  have or_add: "or v (take_bit 64 (push_bit s ?c)) = v + ?c * 2 ^ s"
    using or_disjoint_add[OF "1.prems"(1), of ?c] exact(1) by (simp add: push_bit_eq_mult)
  have bound: "v + ?c * 2 ^ s < 2 ^ 64"
  proof -
    have pow: "(2 :: nat) ^ 64 = 2 ^ (64 - s) * 2 ^ s" using ok(1) by (simp flip: power_add)
    then have "?c < 2 ^ (64 - s)" using exact(2) by (metis mult_less_cancel2)
    then have "Suc ?c * 2 ^ s \<le> 2 ^ (64 - s) * 2 ^ s" by (intro mult_le_mono1) simp
    then show ?thesis using "1.prems"(1) pow by simp
  qed
  show ?case
  proof (cases "unat b < 128")
    case True
    then show ?thesis
      using "1.prems"(2) u8 ok or_add bound r
      by (intro exI[of _ "[b]"]) (auto simp: read_varint_loop.simps Let_def split: if_splits)
  next
    case False
    have rec: "read_varint_loop (v + ?c * 2 ^ s) (s + 7) r1 = Inr (x, r')"
      using "1.prems"(2) u8 ok or_add False
      by (subst (asm) read_varint_loop.simps) (simp add: Let_def split: if_splits)
    have "Suc ?c * 2 ^ s \<le> 128 * 2 ^ s" by (intro mult_le_mono1) (simp add: Suc_leI)
    then have "?c * 2 ^ s + 2 ^ s \<le> 128 * 2 ^ s" by simp
    then have "v + ?c * 2 ^ s < 128 * 2 ^ s" using "1.prems"(1) by linarith
    then have "v + ?c * 2 ^ s < 2 ^ (s + 7)" by (simp add: power_add)
    then obtain bs where "r1 = bs @ r'"
        "x = v + ?c * 2 ^ s + leb_value bs * 2 ^ (s + 7)" "x < 2 ^ 64"
      using "1.IH"[OF u8 refl _ refl refl _ refl False] ok rec or_add by auto
    then show ?thesis
      using r by (intro exI[of _ "b # bs"]) (simp add: algebra_simps power_add)
  qed
qed

text \<open>
  Varints are exact.  Every \<open>u64\<close> is read back from its encoding, whatever follows;
  and whatever bytes \<open>read_varint\<close> accepts, its result is their full LEB128 value: a value
  that does not fit 64 bits is rejected, never truncated.  Signed values survive the
  zigzag encoding.
\<close>

theorem varint_exact:
  "(n < 2 ^ 64 \<longrightarrow> read_varint (write_varint n @ rest) = Inr (n, rest))
    \<and> (\<forall>x rest'. read_varint rest = Inr (x, rest')
         \<longrightarrow> (\<exists>bs. rest = bs @ rest' \<and> x = leb_value bs \<and> x < 2 ^ 64))
    \<and> read_zigzag (write_zigzag v @ rest) = Inr (v, rest)"
  using read_write_varint read_varint_loop_value[of 0 0] read_write_zigzag
  by (fastforce simp: read_varint_def)

lemma varint_exact_witness:
  "read_varint (write_varint 300 @ [5]) = Inr (300, [5])
    \<and> read_zigzag (write_zigzag (- 3) @ [7]) = Inr (- 3, [7])"
  using varint_exact[of 300 "[5]" 0] varint_exact[of 0 "[7]" "- 3"] by simp

text \<open>
  C14.  A snapshot frame is read back as written: when the compression library restores what it
  compressed, a header and sections written by \<open>finalize_frame\<close> within the size limits
  pass every check of \<open>decode_frame\<close> and come back unchanged, and \<open>peek_header\<close> sees the
  same header.
\<close>

theorem snapshot_frame_roundtrip:
  assumes "gzip_contract gzip gunzip" "finalize_frame crc gzip (header_write h @ sections) = Inr blob"
    and "length blob \<le> MAX_COMPRESSED_SNAPSHOT_BYTES"
    and "length sections + HEADER_LEN + 4 \<le> MAX_DECOMPRESSED_SNAPSHOT_BYTES"
  shows "decode_frame crc gunzip blob = Inr \<lparr>df_header = h, df_sections = sections\<rparr>
    \<and> peek_header crc gunzip blob = Inr h"
  using finalize_frame_round[OF assms] by (simp add: peek_header_def)

lemma snapshot_frame_roundtrip_witness:
  "decode_frame (\<lambda>_. 7) (\<lambda>limit blob. Inr (take limit blob))
     (header_write \<lparr>snapshot_unix_ms = 3, header_resident_tokens = 4\<rparr> @ [1, 2] @ [7, 0, 0, 0])
   = Inr \<lparr>df_header = \<lparr>snapshot_unix_ms = 3, header_resident_tokens = 4\<rparr>, df_sections = [1, 2]\<rparr>"
proof -
  let ?h = "\<lparr>snapshot_unix_ms = 3, header_resident_tokens = 4\<rparr> :: snapshot_header"
  have "gzip_contract Inr (\<lambda>limit blob. Inr (take limit blob))" by (simp add: gzip_contract_def)
  moreover have "le_bytes 4 7 = [7, 0, 0, 0]"
  proof -
    have four: "4 = Suc (Suc (Suc (Suc 0)))" by simp
    show ?thesis unfolding four by simp
  qed
  then have "finalize_frame (\<lambda>_. 7) Inr (header_write ?h @ [1, 2])
      = Inr (header_write ?h @ [1, 2] @ [7, 0, 0, 0])"
    by (simp add: finalize_frame_def gzip_compress_def)
  ultimately show ?thesis
    using snapshot_frame_roundtrip[of Inr "\<lambda>limit blob. Inr (take limit blob)" "\<lambda>_. 7" ?h "[1, 2]"]
    by (simp add: HEADER_LEN_def MAX_COMPRESSED_SNAPSHOT_BYTES_def MAX_DECOMPRESSED_SNAPSHOT_BYTES_def)
qed

lemma restored_part:
  fixes rc :: restore_clock and now :: instant and n :: prefix_node
  assumes rc: "restorable rc" and max: "max_pages * 17 < 2 ^ 64"
    and n: "wf_node n" "heap_node now n" "encodable_node now n" "node_pages n \<le> max_pages" "node_total n \<le> u64_max"
  shows "\<exists>tree. decode_section rc max_pages (encode_node now n @ rest) = Inr (tree, rest)
    \<and> tree_ok (rc_now rc) tree \<and> resident_tokens tree \<le> node_total n
    \<and> (\<forall>ks. tree_touch tree ks = Option.bind (last_touch n ks) (restored_touch rc now))
    \<and> skip_prefix_section (encode_node now n @ rest) = Inr rest"
proof -
  note r = restore_refines(1)[OF rc n(1,2), of now]
  have "node_tokens (restore_node rc now n) = node_total (restore_node rc now n)"
    using r n(5) by (simp add: node_tokens_total)
  moreover have "node_pages n * 17 < 2 ^ 64" using n(4) max by linarith
  ultimately show ?thesis
    using decode_section_encode[OF max n(3,4), of rc rest] r n(5)
      skip_prefix_section_encode[of n now rest] n(3)
    by (simp add: tree_ok_def tree_touch_def)
qed

text \<open>
  C15.  A restored trie is the saved one, aged.  Decoding the prefix section of a trie gives
  a well-formed trie and leaves the bytes after the section; without a cap, a page sequence
  is stored in it exactly when it was stored and its age, the time the node was down
  included, is within the time to live, and its touch is that age before the restoring
  clock; with a cap it holds at most that many tokens and nothing that was not saved.
  Skipping the section consumes the same bytes.
\<close>

theorem prefix_section_roundtrip:
  assumes "tree_reach now tree" "encodable_node now (root tree)" "restorable rc"
    and "node_pages (root tree) \<le> max_pages" "max_pages * 17 < 2 ^ 64"
    and "cap < u64_max"
  shows "\<exists>full capped.
      decode_section rc max_pages (encode_section tree now None @ rest) = Inr (full, rest)
    \<and> tree_ok (rc_now rc) full
    \<and> (\<forall>ks. tree_touch full ks = Option.bind (tree_touch tree ks) (restored_touch rc now))
    \<and> decode_section rc max_pages (encode_section tree now (Some cap) @ rest) = Inr (capped, rest)
    \<and> tree_ok (rc_now rc) capped \<and> resident_tokens capped \<le> cap
    \<and> (\<forall>ks v. tree_touch capped ks = Some v \<longrightarrow> tree_touch full ks = Some v)
    \<and> skip_prefix_section (encode_section tree now (Some cap) @ rest) = Inr rest"
proof -
  have ok: "wf_node (root tree)" "heap_node now (root tree)"
      "resident_tokens tree = node_total (root tree)" "node_total (root tree) \<le> u64_max"
    using tree_reach_ok[OF assms(1)] by (simp_all add: tree_ok_def)
  note part = restored_part[OF assms(3,5)]
  obtain full where full: "decode_section rc max_pages (encode_node now (root tree) @ rest) = Inr (full, rest)"
      "tree_ok (rc_now rc) full" "resident_tokens full \<le> node_total (root tree)"
      "\<forall>ks. tree_touch full ks = Option.bind (last_touch (root tree) ks) (restored_touch rc now)"
      "skip_prefix_section (encode_node now (root tree) @ rest) = Inr rest"
    using part[OF ok(1,2) assms(2,4) ok(4), of rest] by blast
  show ?thesis
  proof (cases "cap < resident_tokens tree")
    case True
    let ?c = "cap_node (root tree) cap"
    note spec = cap_node_spec[OF ok(1,2) assms(6)]
    note enc = cap_node_encodable[OF assms(2), of cap]
    have "node_total ?c \<le> u64_max" "node_pages ?c \<le> max_pages"
      using spec(1) assms(6) enc(2) assms(4) by simp_all
    from part[OF spec(2,3) enc(1) this(2,1), of rest] obtain capped where capped:
        "decode_section rc max_pages (encode_node now ?c @ rest) = Inr (capped, rest)"
        "tree_ok (rc_now rc) capped" "resident_tokens capped \<le> node_total ?c"
        "\<forall>ks. tree_touch capped ks = Option.bind (last_touch ?c ks) (restored_touch rc now)"
        "skip_prefix_section (encode_node now ?c @ rest) = Inr rest"
      by blast
    have "tree_touch capped ks = Some v \<Longrightarrow> tree_touch full ks = Some v" for ks v
      using capped full spec(4)[of ks] by (auto simp: bind_eq_Some_conv)
    then show ?thesis
      using full capped spec(1) True
      by (intro exI[of _ full] exI[of _ capped])
        (auto simp: encode_section_def encode_full_def encode_capped_eq tree_touch_def)
  next
    case False
    then show ?thesis
      using full ok(3)
      by (intro exI[of _ full] exI[of _ full])
        (auto simp: encode_section_def encode_full_def tree_touch_def)
  qed
qed

lemma prefix_section_roundtrip_witness:
  "\<exists>full. decode_section \<lparr>rc_snapshot_ms = 0, rc_now = 0, rc_now_ms = 0, rc_ttl = 10 ^ 10\<rparr> 8
      (encode_section prefix_tree_default 3 None @ [9]) = Inr (full, [9])"
proof -
  let ?rc = "\<lparr>rc_snapshot_ms = 0, rc_now = 0, rc_now_ms = 0, rc_ttl = 10 ^ 10\<rparr>"
  have "restorable ?rc"
    by (simp add: restorable_def instant_checked_sub_secs_def as_secs_def nanos_per_sec_def
        i64_min_def Let_def)
  moreover have "encodable_node 3 (root prefix_tree_default)" "node_pages (root prefix_tree_default) \<le> 8"
    by (simp_all add: prefix_tree_default_def prefix_node_default_def)
  ultimately show ?thesis
    using prefix_section_roundtrip[OF reach_default[of 3], of ?rc 8 0 "[9]"]
    by (auto simp: u64_max_def)
qed

end
