(* ===== verification/SimulatorProperties.thy ===== *)
theory SimulatorProperties
  imports Simulator AnchorProperties ProjectionProperties SnapshotProperties
begin

text \<open>
  The guarantees of the cache simulator: which snapshot a restore takes its tree from, and what
  a recorded turn gives the conversation's next request.
\<close>

section \<open>Restoring from several nodes\<close>

definition blob_frame :: "'c sim_ops \<Rightarrow> byte list \<Rightarrow> decoded_frame option" where
  "blob_frame ops blob =
     (case decode_frame (so_crc ops) (so_gunzip ops) blob of Inr f \<Rightarrow> Some f | Inl _ \<Rightarrow> None)"

text \<open>The non-empty tree a blob offers, with the time of its snapshot.\<close>

definition offered_tree :: "'c sim_ops \<Rightarrow> restore_ctx \<Rightarrow> byte list \<Rightarrow> (prefix_tree \<times> int) option" where
  "offered_tree ops ctx blob =
     Option.bind (blob_frame ops blob) (\<lambda>frame.
       Option.bind (restore_tree ctx frame) (\<lambda>tree.
         if 0 < resident_tokens tree then Some (tree, sint (snapshot_unix_ms (df_header frame))) else None))"

definition blob_rows :: "'c sim_ops \<Rightarrow> restore_ctx \<Rightarrow> byte list \<Rightarrow> decoded_anchor list option" where
  "blob_rows ops ctx blob = Option.bind (blob_frame ops blob) (frame_anchors (so_hex ops) ctx)"

definition take_offer :: "bool \<Rightarrow> prefix_candidate option \<Rightarrow> prefix_tree \<times> int \<Rightarrow> prefix_candidate option" where
  "take_offer from_own best offer =
     (if prefix_candidate_wins best from_own (snd offer)
      then Some \<lparr>pc_tree = fst offer, pc_from_own = from_own, pc_snapshot_unix_ms = snd offer\<rparr> else best)"

lemma restore_blob_effect:
  "restore_blob ops ctx from_own (Some blob) ((best, anchors), errors) =
     ((case offered_tree ops ctx blob of None \<Rightarrow> best | Some offer \<Rightarrow> take_offer from_own best offer,
       case blob_rows ops ctx blob of None \<Rightarrow> anchors | Some rows \<Rightarrow> anchor_union_fold anchors rows),
      errors + (if blob_frame ops blob = None then 1 else 0))"
  by (cases "decode_frame (so_crc ops) (so_gunzip ops) blob")
    (auto simp: restore_blob_def decode_blob_def fold_restore_frame_def fold_prefix_def offered_tree_def
      blob_rows_def blob_frame_def take_offer_def split: option.splits)

lemma restore_peers_effect:
  "foldl (\<lambda>st peer. restore_blob ops ctx False (Some peer) st) ((best, anchors), errors) peers =
     ((foldl (take_offer False) best (List.map_filter (offered_tree ops ctx) peers),
       foldl anchor_union_fold anchors (List.map_filter (blob_rows ops ctx) peers)),
      errors + length (filter (\<lambda>b. blob_frame ops b = None) peers))"
  by (induction peers arbitrary: best anchors errors)
    (simp_all add: restore_blob_effect List.map_filter_simps split: option.split)

lemma own_is_kept:
  "pc_from_own c \<Longrightarrow> foldl (take_offer False) (Some c) offers = Some c"
  by (induction offers) (simp_all add: take_offer_def prefix_candidate_wins_def)

lemma newest_offer:
  "\<not> pc_from_own c \<Longrightarrow> \<exists>c'. foldl (take_offer False) (Some c) offers = Some c' \<and> \<not> pc_from_own c'
    \<and> pc_snapshot_unix_ms c \<le> pc_snapshot_unix_ms c'
    \<and> (\<forall>o' \<in> set offers. snd o' \<le> pc_snapshot_unix_ms c')
    \<and> (c' = c \<or> (\<exists>i < length offers. offers ! i = (pc_tree c', pc_snapshot_unix_ms c')
        \<and> pc_snapshot_unix_ms c < pc_snapshot_unix_ms c'
        \<and> (\<forall>j < i. snd (offers ! j) < pc_snapshot_unix_ms c')))"
proof (induction offers arbitrary: c)
  case Nil
  then show ?case by simp
next
  case (Cons offer offers)
  show ?case
  proof (cases "pc_snapshot_unix_ms c < snd offer")
    case True
    let ?c = "\<lparr>pc_tree = fst offer, pc_from_own = False, pc_snapshot_unix_ms = snd offer\<rparr>"
    have step: "take_offer False (Some c) offer = Some ?c"
      using True Cons.prems by (simp add: take_offer_def prefix_candidate_wins_def)
    obtain c' where c': "foldl (take_offer False) (Some ?c) offers = Some c'" "\<not> pc_from_own c'"
        "snd offer \<le> pc_snapshot_unix_ms c'" "\<forall>o' \<in> set offers. snd o' \<le> pc_snapshot_unix_ms c'"
        "c' = ?c \<or> (\<exists>i < length offers. offers ! i = (pc_tree c', pc_snapshot_unix_ms c')
          \<and> snd offer < pc_snapshot_unix_ms c' \<and> (\<forall>j < i. snd (offers ! j) < pc_snapshot_unix_ms c'))"
      using Cons.IH[of ?c] by auto
    from c'(5) have "\<exists>i < length (offer # offers). (offer # offers) ! i = (pc_tree c', pc_snapshot_unix_ms c')
        \<and> (\<forall>j < i. snd ((offer # offers) ! j) < pc_snapshot_unix_ms c')"
    proof
      assume "c' = ?c"
      then show ?thesis by (intro exI[of _ 0]) simp
    next
      assume "\<exists>i < length offers. offers ! i = (pc_tree c', pc_snapshot_unix_ms c')
          \<and> snd offer < pc_snapshot_unix_ms c' \<and> (\<forall>j < i. snd (offers ! j) < pc_snapshot_unix_ms c')"
      then obtain i where "i < length offers" "offers ! i = (pc_tree c', pc_snapshot_unix_ms c')"
          "snd offer < pc_snapshot_unix_ms c'" "\<forall>j < i. snd (offers ! j) < pc_snapshot_unix_ms c'" by blast
      then show ?thesis by (intro exI[of _ "Suc i"]) (auto simp: nth_Cons split: nat.splits)
    qed
    then show ?thesis using step c' True by auto
  next
    case False
    have step: "take_offer False (Some c) offer = Some c"
      using False Cons.prems by (simp add: take_offer_def prefix_candidate_wins_def)
    obtain c' where c': "foldl (take_offer False) (Some c) offers = Some c'" "\<not> pc_from_own c'"
        "pc_snapshot_unix_ms c \<le> pc_snapshot_unix_ms c'" "\<forall>o' \<in> set offers. snd o' \<le> pc_snapshot_unix_ms c'"
        "c' = c \<or> (\<exists>i < length offers. offers ! i = (pc_tree c', pc_snapshot_unix_ms c')
          \<and> pc_snapshot_unix_ms c < pc_snapshot_unix_ms c' \<and> (\<forall>j < i. snd (offers ! j) < pc_snapshot_unix_ms c'))"
      using Cons.IH[OF Cons.prems] by auto
    from c'(5) have "c' = c \<or> (\<exists>i < length (offer # offers). (offer # offers) ! i = (pc_tree c', pc_snapshot_unix_ms c')
        \<and> pc_snapshot_unix_ms c < pc_snapshot_unix_ms c' \<and> (\<forall>j < i. snd ((offer # offers) ! j) < pc_snapshot_unix_ms c'))"
    proof
      assume "\<exists>i < length offers. offers ! i = (pc_tree c', pc_snapshot_unix_ms c')
          \<and> pc_snapshot_unix_ms c < pc_snapshot_unix_ms c' \<and> (\<forall>j < i. snd (offers ! j) < pc_snapshot_unix_ms c')"
      then obtain i where "i < length offers" "offers ! i = (pc_tree c', pc_snapshot_unix_ms c')"
          "pc_snapshot_unix_ms c < pc_snapshot_unix_ms c'" "\<forall>j < i. snd (offers ! j) < pc_snapshot_unix_ms c'" by blast
      then show ?thesis using False by (intro disjI2 exI[of _ "Suc i"]) (auto simp: nth_Cons split: nat.splits)
    qed simp
    then show ?thesis using step c' False by auto
  qed
qed

lemma first_offer:
  assumes "offers \<noteq> []"
  shows "\<exists>c' i. foldl (take_offer False) None offers = Some c' \<and> \<not> pc_from_own c'
    \<and> i < length offers \<and> offers ! i = (pc_tree c', pc_snapshot_unix_ms c')
    \<and> (\<forall>o' \<in> set offers. snd o' \<le> pc_snapshot_unix_ms c')
    \<and> (\<forall>j < i. snd (offers ! j) < pc_snapshot_unix_ms c')"
proof -
  obtain offer rest where offers: "offers = offer # rest" using assms by (cases offers) auto
  let ?c = "\<lparr>pc_tree = fst offer, pc_from_own = False, pc_snapshot_unix_ms = snd offer\<rparr>"
  have step: "take_offer False None offer = Some ?c"
    by (simp add: take_offer_def prefix_candidate_wins_def)
  obtain c' where c': "foldl (take_offer False) (Some ?c) rest = Some c'" "\<not> pc_from_own c'"
      "snd offer \<le> pc_snapshot_unix_ms c'" "\<forall>o' \<in> set rest. snd o' \<le> pc_snapshot_unix_ms c'"
      "c' = ?c \<or> (\<exists>i < length rest. rest ! i = (pc_tree c', pc_snapshot_unix_ms c')
        \<and> snd offer < pc_snapshot_unix_ms c' \<and> (\<forall>j < i. snd (rest ! j) < pc_snapshot_unix_ms c'))"
    using newest_offer[of ?c rest] by auto
  have "\<exists>i < length offers. offers ! i = (pc_tree c', pc_snapshot_unix_ms c')
      \<and> (\<forall>j < i. snd (offers ! j) < pc_snapshot_unix_ms c')"
  proof (cases "c' = ?c")
    case True
    then show ?thesis by (intro exI[of _ 0]) (simp add: offers)
  next
    case False
    then obtain i where "i < length rest" "rest ! i = (pc_tree c', pc_snapshot_unix_ms c')"
        "snd offer < pc_snapshot_unix_ms c'" "\<forall>j < i. snd (rest ! j) < pc_snapshot_unix_ms c'"
      using c'(5) by blast
    then show ?thesis by (intro exI[of _ "Suc i"]) (auto simp: offers nth_Cons split: nat.splits)
  qed
  then show ?thesis using step c' offers by auto
qed

text \<open>The rows of all frames, in the order the frames are read.\<close>

definition restored_rows :: "'c sim_ops \<Rightarrow> restore_ctx \<Rightarrow> byte list list \<Rightarrow> decoded_anchor list" where
  "restored_rows ops ctx blobs = concat (List.map_filter (blob_rows ops ctx) blobs)"

text \<open>
  C24.  A restore takes the local tree if it has one and otherwise the newest peer's.  The
  node's own snapshot wins whenever it decodes to a tree that is not empty after aging; among
  the peers the first of the newest snapshots wins; with no usable tree the simulator keeps the
  one it has.  Blobs that do not decode are counted and change nothing else, and the anchors
  are rebuilt from the rows of every frame together.
\<close>

theorem restore_prefers_own_then_newest:
  assumes "import_snapshot ops sim own peers config caps now now_ms = (outcome, sim')"
  defines "ctx \<equiv> restore_ctx_of config caps now now_ms"
  defines "blobs \<equiv> (case own of Some b \<Rightarrow> [b] | None \<Rightarrow> []) @ peers"
    and "offers \<equiv> List.map_filter (offered_tree ops ctx) peers"
  shows "(case Option.bind own (offered_tree ops ctx) of
        Some (tree, ms) \<Rightarrow> sim_prefix_tree sim' = tree \<and> io_prefix_from_own outcome \<and> \<not> io_prefix_from_peer outcome
      | None \<Rightarrow> \<not> io_prefix_from_own outcome \<and>
          (if offers = [] then sim_prefix_tree sim' = sim_prefix_tree sim \<and> \<not> io_prefix_from_peer outcome
           else io_prefix_from_peer outcome \<and>
             (\<exists>i < length offers. sim_prefix_tree sim' = fst (offers ! i)
               \<and> (\<forall>j < length offers. snd (offers ! j) \<le> snd (offers ! i))
               \<and> (\<forall>j < i. snd (offers ! j) < snd (offers ! i)))))
    \<and> io_decode_errors outcome = length (filter (\<lambda>b. blob_frame ops b = None) blobs)
    \<and> sim_anchor_index sim' = rebuild_from_rows (so_lru ops) (sim_anchor_index sim)
        (anchor_union_finish (anchor_union_fold
          (anchor_union_new now_ms (cfg_anchor_ttl config) (ctx_max_anchor_entries ctx))
          (restored_rows ops ctx blobs)))
        now (cfg_anchor_ttl config) (ctx_max_anchor_entries ctx)"
proof -
  have ctx: "ctx_now ctx = now" "ctx_now_unix_ms ctx = now_ms" "ctx_anchor_ttl ctx = cfg_anchor_ttl config"
    by (simp_all add: ctx_def restore_ctx_of_def Let_def)
  let ?u = "anchor_union_new now_ms (cfg_anchor_ttl config) (ctx_max_anchor_entries ctx)"
  define best0 where "best0 = (case Option.bind own (offered_tree ops ctx) of
      None \<Rightarrow> None | Some offer \<Rightarrow> take_offer True None offer)"
  define best where "best = foldl (take_offer False) best0 offers"
  define u where "u = foldl anchor_union_fold ?u (List.map_filter (blob_rows ops ctx) blobs)"
  define errors where "errors = length (filter (\<lambda>b. blob_frame ops b = None) blobs)"
  have folded: "foldl (\<lambda>st peer. restore_blob ops ctx False (Some peer) st)
      (restore_blob ops ctx True own ((None, ?u), 0)) peers = ((best, u), errors)"
  proof (cases own)
    case None
    then have "restore_blob ops ctx True own ((None, ?u), 0) = ((None, ?u), 0)"
      by (simp add: restore_blob_def decode_blob_def)
    then show ?thesis
      by (simp add: None restore_peers_effect best_def best0_def u_def errors_def blobs_def offers_def)
  next
    case (Some b)
    then show ?thesis
      by (simp add: restore_blob_effect restore_peers_effect best_def best0_def u_def errors_def blobs_def
          offers_def List.map_filter_simps split: option.split)
  qed
  have union: "anchor_union_finish u
      = anchor_union_finish (anchor_union_fold ?u (restored_rows ops ctx blobs))"
    unfolding u_def restored_rows_def by (rule union_fold_concat)
  have result: "sim_prefix_tree sim' = (case best of None \<Rightarrow> sim_prefix_tree sim | Some c \<Rightarrow> pc_tree c)"
    "sim_anchor_index sim' = rebuild_from_rows (so_lru ops) (sim_anchor_index sim) (anchor_union_finish u)
        now (cfg_anchor_ttl config) (ctx_max_anchor_entries ctx)"
    "io_decode_errors outcome = errors"
    "io_prefix_from_own outcome = (case best of None \<Rightarrow> False | Some c \<Rightarrow> pc_from_own c)"
    "io_prefix_from_peer outcome = (case best of None \<Rightarrow> False | Some c \<Rightarrow> \<not> pc_from_own c)"
    using assms(1) folded ctx
    by (auto simp: import_snapshot_def Let_def import_outcome_default_def simp flip: ctx_def split: option.splits)
  show ?thesis
  proof (cases "Option.bind own (offered_tree ops ctx)")
    case (Some offer)
    let ?c = "\<lparr>pc_tree = fst offer, pc_from_own = True, pc_snapshot_unix_ms = snd offer\<rparr>"
    have "best = Some ?c"
      using Some own_is_kept[of ?c offers]
      by (simp add: best_def best0_def take_offer_def prefix_candidate_wins_def)
    then show ?thesis using Some result union errors_def by (simp split: prod.split)
  next
    case None
    then have best: "best = foldl (take_offer False) None offers" by (simp add: best_def best0_def)
    show ?thesis
    proof (cases "offers = []")
      case True
      then show ?thesis using None best result union errors_def by simp
    next
      case False
      from first_offer[OF False] obtain c' i where c': "best = Some c'" "\<not> pc_from_own c'" "i < length offers"
          "offers ! i = (pc_tree c', pc_snapshot_unix_ms c')"
          "\<forall>o' \<in> set offers. snd o' \<le> pc_snapshot_unix_ms c'"
          "\<forall>j < i. snd (offers ! j) < pc_snapshot_unix_ms c'"
        using best by auto
      have "\<forall>j < length offers. snd (offers ! j) \<le> snd (offers ! i)"
        using c'(4,5) by simp
      then show ?thesis
        using None False c' result union errors_def by (auto intro!: exI[of _ i])
    qed
  qed
qed

text \<open>A library in which nothing decompresses, for the witness.\<close>

definition broken_ops :: "(nat \<times> anchor_row list) sim_ops" where
  "broken_ops =
     \<lparr>so_lru = list_lru, so_hex = \<lparr>hex_encode = bytes_str, hex_decode = Some \<circ> str_bytes\<rparr>,
      so_canon = \<lparr>xxh3_64 = (\<lambda>_. 1), xxh3_128 = (\<lambda>_. 2), sha256 = bytes_str, json_text = (\<lambda>_. ''j'')\<rparr>,
      so_crc = (\<lambda>_. 0), so_gzip = (\<lambda>_. Inl ''no''), so_gunzip = (\<lambda>_ _. Inl ''no'')\<rparr>"

lemma restore_prefers_own_then_newest_witness:
  "io_decode_errors (fst (import_snapshot broken_ops cache_simulator_default (Some [1]) [[2], [3]]
      \<lparr>cfg_mode = PrefixTreeMode, cfg_prefix_cache_max_tokens = 9, cfg_prefix_cache_entry_ttl = 8,
       cfg_anchor_max_entries = 7, cfg_anchor_ttl = 6\<rparr>
      \<lparr>caps_max_tokens = None, caps_max_anchor_entries = None\<rparr> 5 4)) = 3"
proof -
  have bad: "blob_frame broken_ops b = None" for b
    by (simp add: blob_frame_def broken_ops_def decode_frame_def gzip_decompress_def)
  show ?thesis
    using restore_prefers_own_then_newest[of broken_ops cache_simulator_default "Some [1]" "[[2], [3]]"
        "\<lparr>cfg_mode = PrefixTreeMode, cfg_prefix_cache_max_tokens = 9, cfg_prefix_cache_entry_ttl = 8,
          cfg_anchor_max_entries = 7, cfg_anchor_ttl = 6\<rparr>"
        "\<lparr>caps_max_tokens = None, caps_max_anchor_entries = None\<rparr>" 5 4, OF prod.collapse[symmetric]]
    by (simp add: bad)
qed

section \<open>From one turn to the next\<close>

lemma prompt_pages_nonzero:
  "list_all (\<lambda>p. page_tokens p \<noteq> 0) (build_token_pages ops units)"
proof -
  have "page_tokens (build_token_page ops c) \<noteq> 0" if "c \<in> set (page_chunks xs)" for c xs
  proof -
    have "unat (page_tokens (build_token_page ops c)) \<noteq> 0"
      using page_chunks_sizes[OF that] build_page_tokens[of c ops] by simp
    then show ?thesis by (metis unat_0)
  qed
  then show ?thesis by (simp add: build_token_pages_chunks list_all_iff)
qed

lemma history_pages:
  fixes ops :: canon_ops and state :: conversation_state
  defines "n \<equiv> atom_count (canonicalize_history ops (cs_history state)) div PREFIX_CACHE_PAGE_SIZE"
  assumes "cs_history later_state = cs_history state @ turns"
  shows "take n (pp_stable_prefix_pages (prompt_projection_of ops later_state))
      = take n (pp_stable_prefix_pages (prompt_projection_of ops state))"
    "n \<le> length (pp_stable_prefix_pages (prompt_projection_of ops state))"
proof -
  let ?h = "canonicalize_history ops (cs_history state)"
  have atoms: "length (concat (map unit_token_atoms ?h)) = atom_count ?h"
    by (simp add: atom_count_def length_concat comp_def)
  have common: "take n (build_token_pages ops (?h @ more_units)) = take n (build_token_pages ops ?h)" for more_units
    using full_page_chunks[of n "concat (map unit_token_atoms ?h)" "concat (map unit_token_atoms more_units)"] atoms
    by (simp add: n_def build_token_pages_chunks take_map)
  show "take n (pp_stable_prefix_pages (prompt_projection_of ops later_state))
      = take n (pp_stable_prefix_pages (prompt_projection_of ops state))"
    using assms(2) common by (simp add: prompt_projection_of_def Let_def canonicalize_history_def)
  show "n \<le> length (pp_stable_prefix_pages (prompt_projection_of ops state))"
    by (simp add: prompt_projection_of_def Let_def build_token_pages_chunks length_page_chunks n_def
        atom_count_def length_concat comp_def PREFIX_CACHE_PAGE_SIZE_def)
qed

text \<open>
  C25.  A recorded turn serves the next one.  After a request's success is recorded, a later
  request that continues the conversation (this history, this turn, the answer, and anything
  as its own current message) within the times to live recovers the recorded conversation id
  and token counts from its lookup anchor, and every full page of the shared history is
  matched in the prefix tree when the budget had room for the pages.
\<close>

theorem recorded_turn_serves_the_next:
  fixes ops :: "'c sim_ops" and state next_state :: conversation_state and conv :: string
    and counts :: "anchor_token_counts option"
  assumes "lru_contract (so_lru ops)" "anchor_reach (so_lru ops) t (sim_anchor_index sim)"
    and "tree_reach t (sim_prefix_tree sim)" "t \<le> now" "now \<le> later"
    and "cfg_mode config = PrefixTreeMode" "cfg_prefix_cache_max_tokens config \<le> u64_max"
    and "pp_projected_input_token_count (prompt_projection_of (so_canon ops) state) \<le> u64_max"
    and "pp_projected_input_token_count (prompt_projection_of (so_canon ops) next_state) \<le> u64_max"
    and "resident_tokens (sim_prefix_tree sim)
        + stable_prefix_token_count (prompt_projection_of (so_canon ops) state) \<le> cfg_prefix_cache_max_tokens config"
    and "duration_since later now \<le> cfg_prefix_cache_entry_ttl config" "duration_since later now \<le> cfg_anchor_ttl config"
    and "cs_history next_state = cs_history state @ [User turn, Assistant answer]"
    and "um_content turn = uim_content (cs_current_message state)"
    and "um_images turn = uim_images (cs_current_message state)"
    and "um_documents turn = uim_documents (cs_current_message state)"
    and "ctx_tool_results (um_context turn) = ctx_tool_results (uim_context (cs_current_message state))"
  defines "sim' \<equiv> record_success_runtime ops sim (build_runtime_prompt_projection (so_canon ops) state)
      answer conv counts True config now"
    and "request \<equiv> build_runtime_prompt_projection (so_canon ops) next_state"
  shows "fst (recover_conversation_id ops sim' (rp_lookup_anchor_hash request) config later) = Some conv
    \<and> fst (sim_recover_token_counts ops sim' request config later) = counts
    \<and> atom_count (canonicalize_history (so_canon ops) (cs_history state)) div PREFIX_CACHE_PAGE_SIZE
      \<le> matched_pages (fst (sim_match_prefix_runtime sim' request config later))"
proof -
  let ?canon = "so_canon ops" and ?lru = "so_lru ops"
  let ?p = "prompt_projection_of ?canon state" and ?next = "prompt_projection_of ?canon next_state"
  note this_turn = runtime_builder_projection[OF assms(8)]
  note next_turn = runtime_builder_projection(1)[OF assms(9)]
  have anchor: "pp_lookup_anchor_hash ?next = build_resume_anchor_hash ?canon ?p answer"
    by (rule resume_then_lookup) fact+
  let ?a = "pp_lookup_anchor_hash ?next"
  let ?e = "\<lparr>ce_conversation_id = conv, ce_token_counts = counts, ce_last_touched_at = now\<rparr>"
  let ?index = "anchor_insert ?lru (sim_anchor_index sim) ?a conv counts now (cfg_anchor_ttl config)
      (cfg_anchor_max_entries config)"
  have index: "sim_anchor_index sim' = ?index"
    by (simp add: sim'_def record_success_runtime_def record_anchor_def record_pages_def this_turn(2) anchor)
  have tree: "sim_prefix_tree sim' = insert_pages (sim_prefix_tree sim) (pp_stable_prefix_pages ?p) now
      (cfg_prefix_cache_entry_ttl config) (cfg_prefix_cache_max_tokens config)"
    by (simp add: sim'_def record_success_runtime_def record_anchor_def record_pages_def this_turn(1)
        into_runtime_projection_def assms(6))
  note ok = anchor_reach_ok[OF assms(2,1)]
  note rows = insert_rows[OF assms(1) ok assms(4), of ?a conv counts "cfg_anchor_ttl config" "cfg_anchor_max_entries config"]
  let ?cap = "max (cfg_anchor_max_entries config) 1"
  have first: "\<exists>rest. anchor_rows ?lru ?index = (?a, ?e) # rest" "length (anchor_rows ?lru ?index) \<le> ?cap"
    unfolding rows(1) put_row_def by (cases ?cap; simp)+
  have live: "\<not> entry_expired later (cfg_anchor_ttl config) ?e"
    using assms(12) by (simp add: entry_expired_def)
  have found: "map_of (live_rows later (cfg_anchor_ttl config) (anchor_rows ?lru ?index)) ?a = Some ?e"
    using first(1) live by (auto simp: live_rows_def)
  have "fst (recover_conversation_id ops sim' ?a config later) = Some conv"
    using get_rows(1)[OF assms(1) rows(2) assms(5) refl, of ?a "cfg_anchor_ttl config" "cfg_anchor_max_entries config"]
      found first(2) index
    by (simp add: recover_conversation_id_def case_prod_beta)
  moreover have "fst (sim_recover_token_counts ops sim' request config later) = counts"
    using recover_rows(1)[OF assms(1) rows(2) assms(5), of ?a "cfg_anchor_ttl config"] found index
    by (simp add: sim_recover_token_counts_def request_def next_turn into_runtime_projection_def case_prod_beta)
  moreover
  let ?n = "atom_count (canonicalize_history ?canon (cs_history state)) div PREFIX_CACHE_PAGE_SIZE"
  note hist = history_pages[of next_state state _ ?canon, OF assms(13)]
  have ok': "tree_ok now (sim_prefix_tree sim)" using tree_reach_ok[OF assms(3)] assms(4) tree_ok_later by blast
  have pages: "pp_stable_prefix_pages ?next
      = take ?n (pp_stable_prefix_pages ?p) @ drop ?n (pp_stable_prefix_pages ?next)"
    using hist(1) by (metis append_take_drop_id)
  have "min ?n (length (pp_stable_prefix_pages ?p)) \<le> matched_pages (fst (match_prefix (sim_prefix_tree sim')
      (pp_stable_prefix_pages ?next) later (cfg_prefix_cache_entry_ttl config)))"
  proof (rule trie.inserted_is_found[OF ok' _ _ assms(7,5,11)])
    show "list_all (\<lambda>p. page_tokens p \<noteq> 0) (pp_stable_prefix_pages ?p)"
      using prompt_pages_nonzero by (simp add: prompt_projection_of_def Let_def)
    show "resident_tokens (sim_prefix_tree sim) + prefix_pages_token_count (pp_stable_prefix_pages ?p)
        \<le> cfg_prefix_cache_max_tokens config"
      using assms(10) by (simp add: stable_prefix_token_count_def)
    show "match_prefix (insert_pages (sim_prefix_tree sim) (pp_stable_prefix_pages ?p) now
          (cfg_prefix_cache_entry_ttl config) (cfg_prefix_cache_max_tokens config))
        (take ?n (pp_stable_prefix_pages ?p) @ drop ?n (pp_stable_prefix_pages ?next)) later
        (cfg_prefix_cache_entry_ttl config)
      = (fst (match_prefix (sim_prefix_tree sim') (pp_stable_prefix_pages ?next) later (cfg_prefix_cache_entry_ttl config)),
         snd (match_prefix (sim_prefix_tree sim') (pp_stable_prefix_pages ?next) later (cfg_prefix_cache_entry_ttl config)))"
      unfolding pages[symmetric] tree by simp
  qed
  then have "?n \<le> matched_pages (fst (sim_match_prefix_runtime sim' request config later))"
    using hist(2) assms(6)
    by (simp add: sim_match_prefix_runtime_def sim_match_pages_def request_def next_turn into_runtime_projection_def
        case_prod_beta)
  ultimately show ?thesis by (simp add: request_def next_turn into_runtime_projection_def)
qed

lemma recorded_turn_serves_the_next_witness:
  "\<exists>sim config anchor. fst (recover_conversation_id broken_ops sim anchor config 60) = Some ''conv''"
proof -
  let ?config = "\<lparr>cfg_mode = PrefixTreeMode, cfg_prefix_cache_max_tokens = 9, cfg_prefix_cache_entry_ttl = 80,
    cfg_anchor_max_entries = 7, cfg_anchor_ttl = 70\<rparr>"
  let ?ctx = "\<lparr>ctx_tool_results = [], ctx_tools = []\<rparr>"
  let ?image = "\<lparr>image_format = ''png'', image_source_bytes = ''data''\<rparr>"
  let ?message = "\<lparr>uim_context = ?ctx, uim_content = [], uim_model_id = ''m'', uim_images = [?image],
      uim_documents = [], uim_origin = None\<rparr>"
  let ?turn = "\<lparr>um_content = [], um_model_id = ''m'', um_origin = None, um_images = [?image], um_documents = [],
      um_context = ?ctx\<rparr>"
  let ?answer = "\<lparr>am_content = [], am_tool_uses = None\<rparr>"
  let ?state = "\<lparr>cs_agent_continuation_id = None, cs_agent_task_type = None, cs_chat_trigger_type = None,
      cs_current_message = ?message, cs_conversation_id = ''c'', cs_history = []\<rparr>"
  let ?next = "?state\<lparr>cs_history := [User ?turn, Assistant ?answer]\<rparr>"
  let ?canon = "so_canon broken_ops"
  have empty: "normalize_text [] = []"
    by (simp add: normalize_text_def trim_def utf8_chars.simps str_bytes_def bytes_str_def)
  note simps = prompt_projection_of_def Let_def atom_count_def canonicalize_history_def
    canonicalize_user_message_def canonicalize_user_message_parts_def canonicalize_tools_def
    canonicalize_current_turn_for_input_def canonicalize_user_input_message_def text_units_def image_unit_def
    canonicalize_assistant_segments_def empty
  have counts: "pp_projected_input_token_count (prompt_projection_of ?canon ?state) \<le> u64_max"
    "pp_projected_input_token_count (prompt_projection_of ?canon ?next) \<le> u64_max"
    "stable_prefix_token_count (prompt_projection_of ?canon ?state) = 0"
    by (simp_all add: simps stable_prefix_token_count_def build_token_pages_def prefix_pages_token_count_def)
  have "lru_contract (so_lru broken_ops)" by (simp add: broken_ops_def list_lru_contract)
  then have "fst (recover_conversation_id broken_ops
      (record_success_runtime broken_ops cache_simulator_default (build_runtime_prompt_projection ?canon ?state)
        ?answer ''conv'' None True ?config 10)
      (rp_lookup_anchor_hash (build_runtime_prompt_projection ?canon ?next)) ?config 60) = Some ''conv''"
    using recorded_turn_serves_the_next[of broken_ops 10 cache_simulator_default 10 60 ?config ?state ?next ?turn
        ?answer "''conv''" None] counts anchor_reach.reach_default[of "so_lru broken_ops" 10] tree_reach.reach_default[of 10]
    by (simp add: cache_simulator_default_def prefix_tree_default_def u64_max_def duration_since_def)
  then show ?thesis by blast
qed

section \<open>Across a restart\<close>

lemma no_tokens_no_touch:
  assumes "tree_ok now tree" "resident_tokens tree = 0"
  shows "tree_touch tree ks = None"
proof -
  obtain es s where r: "root tree = PrefixNode es s" by (cases "root tree")
  have "es = []"
  proof (cases es)
    case (Cons e es')
    have e: "wf_edge e" using assms(1) r Cons by (simp add: tree_ok_def wf_edges_iff del: wf_edges.simps)
    then obtain p ps where ps: "edge_pages e = p # ps" by (cases "edge_pages e") (auto simp: wf_edge_def)
    have "edge_total e = 0" using assms r Cons by (simp add: tree_ok_def edges_total_sum del: edges_total.simps)
    then have "unat (page_tokens p) = 0"
      using e ps by (simp add: edge_total_def wf_edge_def prefix_pages_token_count_def)
    moreover have "page_tokens p \<noteq> 0" using e ps by (simp add: wf_edge_def)
    ultimately show ?thesis by (simp add: unat_eq_0)
  qed simp
  then show ?thesis by (simp add: tree_touch_def r)
qed

lemma insert_fresh_candidates:
  "distinct (map fst (rev rows @ best)) \<Longrightarrow> foldl insert_candidate best rows = rev rows @ best"
proof (induction rows arbitrary: best)
  case (Cons row rows)
  have "map_of best (fst row) = None" using Cons.prems by (auto simp: map_of_eq_None_iff)
  then have "insert_candidate best row = row # best" by (simp add: insert_candidate_def)
  then show ?case using Cons by simp
qed simp

lemma finish_all_rows:
  assumes "distinct (map da_hex rows)" "length rows \<le> K" "row \<in> set rows"
    and "rebuild_row_of now_ms ttl (da_hex row, anchor_candidate_of row) = Some r"
  shows "r \<in> set (anchor_union_finish (anchor_union_fold (anchor_union_new now_ms ttl K) rows))"
proof -
  let ?best = "rev (union_entries rows)"
  have d: "distinct (map fst ?best)" using assms(1) by (simp add: union_entries_def comp_def rev_map[symmetric])
  then have best: "foldl insert_candidate [] (union_entries rows) = ?best"
    using insert_fresh_candidates[of "union_entries rows" "[]"] by simp
  have short: "trim_entries K ?best = ?best"
    using assms(2) by (simp add: trim_entries_def union_entries_def)
  have "anchor_union_fold (anchor_union_new now_ms ttl K) rows = (anchor_union_new now_ms ttl K)\<lparr>au_best := ?best\<rparr>"
    using best short by (simp add: anchor_union_fold_def anchor_union_new_def union_entries_def Let_def)
  then have "anchor_union_finish (anchor_union_fold (anchor_union_new now_ms ttl K) rows)
      = List.map_filter (rebuild_row_of now_ms ttl) (sorted_oldest_first ?best)"
    using short by (simp add: anchor_union_finish_def anchor_union_new_def)
  moreover have "(da_hex row, anchor_candidate_of row) \<in> set (sorted_oldest_first ?best)"
    using assms(3) by (simp add: sorted_oldest_first_def union_entries_def)
  ultimately show ?thesis using assms(4) by (force simp: List.map_filter_def)
qed

text \<open>Whether an anchor row, aged by the downtime, is still within the time to live.\<close>

definition survives_restart :: "instant \<Rightarrow> int \<Rightarrow> int \<Rightarrow> duration \<Rightarrow> conversation_anchor_entry \<Rightarrow> bool" where
  "survives_restart now snap_ms now_ms ttl e =
     (nat (max 0 (sat_sub_i64 now_ms (sat_sub_i64 snap_ms
        (anchor_age_ms (as_secs (duration_since now (ce_last_touched_at e))))))) div 1000 \<le> as_secs ttl)"

definition hex_key :: "hex_ops \<Rightarrow> string \<Rightarrow> bool" where
  "hex_key hex k = (\<exists>raw. k = hex_encode hex raw \<and> hex_decode hex k = Some raw \<and> length raw = 32)"

lemma hex_wire_rows:
  assumes "\<forall>row \<in> set rows. hex_key hex (fst row)"
  shows "List.map_filter (wire_row hex now snap_ms) rows
    = map (\<lambda>row. \<lparr>da_hex = fst row, da_conversation_id = ce_conversation_id (snd row),
        da_token_counts = ce_token_counts (snd row),
        da_age_secs = as_secs (duration_since now (ce_last_touched_at (snd row))),
        da_snapshot_unix_ms = snap_ms\<rparr>) rows"
  using assms
  by (induction rows) (auto simp: List.map_filter_simps wire_row_def hex_key_def)

lemma rebuilt_anchor_found:
  assumes ops: "lru_contract ops" and rows: "rebuildable now ttl rows" "length rows \<le> max m 1"
    and r: "r \<in> set rows"
  shows "fst (anchor_get ops (rebuild_from_rows ops anchor_index_default rows now ttl m) (rr_hex r) now ttl m)
    = Some (rr_conversation_id r)"
proof -
  let ?index = "rebuild_from_rows ops anchor_index_default rows now ttl m"
  have ok0: "anchor_ok ops now anchor_index_default"
    by (simp add: anchor_ok_def anchor_index_default_def recent_rows_def)
  note rebuilt = rebuild_rows[OF ops ok0 rows(1), of m]
  have all: "anchor_rows ops ?index = rev (map (rebuilt_row now) rows)" using rebuilt(1) rows(2) by simp
  have live: "live_rows now ttl (anchor_rows ops ?index) = anchor_rows ops ?index"
    using rebuild_live[OF rows(1)] by (auto simp: all live_rows_def filter_id_conv rebuilt_row_def)
  have "distinct (map fst (anchor_rows ops ?index))" using rebuilt(2) by (simp add: anchor_ok_def recent_rows_def)
  moreover have "(rr_hex r, rebuild_entry now r) \<in> set (anchor_rows ops ?index)"
    using r by (auto simp: all rebuilt_row_def)
  ultimately have "map_of (anchor_rows ops ?index) (rr_hex r) = Some (rebuild_entry now r)" by simp
  moreover have "take (max m 1) (anchor_rows ops ?index) = anchor_rows ops ?index"
    using rows(2) by (simp add: all)
  ultimately show ?thesis
    using get_rows(1)[OF ops rebuilt(2) order_refl refl, of "rr_hex r" ttl m] live
    by (simp add: rebuild_entry_def)
qed

lemma exported_snapshot:
  assumes "export_snapshot ops sim config \<lparr>caps_max_tokens = None, caps_max_anchor_entries = None\<rparr> now snap_ms
      = (Some blob, saved)"
    and "cfg_mode config = PrefixTreeMode" "lru_contract (so_lru ops)"
    and "tree_reach t (sim_prefix_tree sim)" "anchor_reach (so_lru ops) t (sim_anchor_index sim)" "t \<le> now"
  shows "tree_ok now (sim_prefix_tree saved)" "anchor_ok (so_lru ops) now (sim_anchor_index saved)"
    "\<exists>h. snapshot_unix_ms h = snap_ms \<and> finalize_frame (so_crc ops) (so_gzip ops)
       (header_write h @ encode_section (sim_prefix_tree saved) now None
          @ encode_anchor_section (so_lru ops) (so_hex ops) (sim_anchor_index saved) now None) = Inr blob"
proof -
  let ?tree = "prune_expired (sim_prefix_tree sim) now (cfg_prefix_cache_entry_ttl config)"
  let ?index = "remove_expired (so_lru ops) (sim_anchor_index sim) now (cfg_anchor_ttl config)"
  have saved: "sim_prefix_tree saved = ?tree" "sim_anchor_index saved = ?index"
    using assms(1) by (auto simp: export_snapshot_def Let_def split: if_splits sum.splits)
  have "tree_ok now (sim_prefix_tree sim)"
    using tree_ok_later[OF tree_reach_ok[OF assms(4)] assms(6)] .
  then show "tree_ok now (sim_prefix_tree saved)" unfolding saved by (rule prune_expired_refines(1))
  show "anchor_ok (so_lru ops) now (sim_anchor_index saved)"
    using expire_rows[OF assms(3) anchor_reach_ok[OF assms(5,3)] assms(6)] by (simp add: saved)
  show "\<exists>h. snapshot_unix_ms h = snap_ms \<and> finalize_frame (so_crc ops) (so_gzip ops)
       (header_write h @ encode_section (sim_prefix_tree saved) now None
          @ encode_anchor_section (so_lru ops) (so_hex ops) (sim_anchor_index saved) now None) = Inr blob"
    using assms(1,2)
    by (intro exI[of _ "\<lparr>snapshot_unix_ms = snap_ms, header_resident_tokens = word_of_nat (resident_tokens ?tree)\<rparr>"])
      (auto simp: export_snapshot_def Let_def saved split: if_splits sum.splits)
qed

lemma imported_snapshot:
  assumes "import_snapshot ops sim (Some blob) [] config caps now now_ms = (outcome, restored)"
    and "decode_frame (so_crc ops) (so_gunzip ops) blob = Inr frame"
    and "restore_tree (restore_ctx_of config caps now now_ms) frame = Some tree"
    and "frame_anchors (so_hex ops) (restore_ctx_of config caps now now_ms) frame = Some rows"
  shows "io_decode_errors outcome = 0"
    "sim_prefix_tree restored = (if 0 < resident_tokens tree then tree else sim_prefix_tree sim)"
    "sim_anchor_index restored = rebuild_from_rows (so_lru ops) (sim_anchor_index sim)
       (anchor_union_finish (anchor_union_fold (anchor_union_new now_ms (cfg_anchor_ttl config)
          (ctx_max_anchor_entries (restore_ctx_of config caps now now_ms))) rows))
       now (cfg_anchor_ttl config) (ctx_max_anchor_entries (restore_ctx_of config caps now now_ms))"
  using assms
  by (auto simp: import_snapshot_def Let_def restore_blob_def decode_blob_def fold_restore_frame_def
      fold_prefix_def prefix_candidate_wins_def import_outcome_default_def restore_ctx_of_def split: if_splits)

lemma decoded_anchors:
  assumes "\<forall>row \<in> set (anchor_rows ops index). row_encodable now row"
    and "length (anchor_rows ops index) < 2 ^ 64" "length (anchor_rows ops index) \<le> K"
  shows "decode_anchor_section hex snap_ms K (encode_anchor_section ops hex index now None)
    = Inr (List.map_filter (wire_row hex now snap_ms) (anchor_rows ops index), [])"
  using anchor_section_read[OF assms(1,2), of hex snap_ms K None "[]"]
    length_map_filter[of "wire_row hex now snap_ms" "anchor_rows ops index"] assms(3)
  by (auto simp: under_cap_def)

text \<open>
  C26.  State survives a restart.  A snapshot exported by a node and imported by a fresh one
  restores the simulator, aged by the time the node was down: a page sequence is in the new
  tree exactly when it was in the saved one and is still within the time to live, with its
  touch moved to the new clock; and every saved anchor that is still within its time to live
  recovers its conversation.
\<close>

theorem snapshot_survives_restart:
  fixes ops :: "'c sim_ops" and sim saved restored :: "'c cache_simulator" and now_ms snap_ms :: "64 word"
  defines "caps \<equiv> \<lparr>caps_max_tokens = None, caps_max_anchor_entries = None\<rparr>"
  assumes "lru_contract (so_lru ops)" "gzip_contract (so_gzip ops) (so_gunzip ops)"
    and "tree_reach t (sim_prefix_tree sim)" "anchor_reach (so_lru ops) t (sim_anchor_index sim)" "t \<le> now"
    and "cfg_mode config = PrefixTreeMode"
    and "export_snapshot ops sim config caps now snap_ms = (Some blob, saved)"
    and "length blob \<le> MAX_COMPRESSED_SNAPSHOT_BYTES"
    and "length (encode_section (sim_prefix_tree saved) now None)
        + length (encode_anchor_section (so_lru ops) (so_hex ops) (sim_anchor_index saved) now None)
        + HEADER_LEN + 4 \<le> MAX_DECOMPRESSED_SNAPSHOT_BYTES"
    and "encodable_node now (root (sim_prefix_tree saved))"
    and "node_pages (root (sim_prefix_tree saved)) \<le> cfg_prefix_cache_max_tokens config"
    and "resident_tokens (sim_prefix_tree saved) \<le> cfg_prefix_cache_max_tokens config"
    and "cfg_prefix_cache_max_tokens config * 17 < 2 ^ 64"
    and "\<forall>row \<in> set (anchor_rows (so_lru ops) (sim_anchor_index saved)).
        row_encodable now row \<and> hex_key (so_hex ops) (fst row)"
    and "length (anchor_rows (so_lru ops) (sim_anchor_index saved)) \<le> cfg_anchor_max_entries config"
    and "cfg_anchor_max_entries config < 2 ^ 64"
    and "instant_checked_sub_secs now' (as_secs (cfg_prefix_cache_entry_ttl config)) \<noteq> None"
    and "instant_checked_sub_secs now' (as_secs (cfg_anchor_ttl config)) \<noteq> None"
    and "import_snapshot ops cache_simulator_default (Some blob) [] config caps now' (sint now_ms) = (outcome, restored)"
  shows "io_decode_errors outcome = 0
    \<and> (\<forall>ks. tree_touch (sim_prefix_tree restored) ks
        = Option.bind (tree_touch (sim_prefix_tree saved) ks)
            (restored_touch \<lparr>rc_snapshot_ms = sint snap_ms, rc_now = now', rc_now_ms = sint now_ms,
               rc_ttl = cfg_prefix_cache_entry_ttl config\<rparr> now))
    \<and> (\<forall>(k, e) \<in> set (anchor_rows (so_lru ops) (sim_anchor_index saved)).
        survives_restart now (sint snap_ms) (sint now_ms) (cfg_anchor_ttl config) e
        \<longrightarrow> fst (recover_conversation_id ops restored k config now') = Some (ce_conversation_id e))"
proof -
  let ?lru = "so_lru ops" and ?hex = "so_hex ops"
  let ?ttl = "cfg_prefix_cache_entry_ttl config" and ?attl = "cfg_anchor_ttl config"
  let ?K = "cfg_anchor_max_entries config" and ?T = "cfg_prefix_cache_max_tokens config"
  let ?rows = "anchor_rows ?lru (sim_anchor_index saved)"
  let ?rc = "\<lparr>rc_snapshot_ms = sint snap_ms, rc_now = now', rc_now_ms = sint now_ms, rc_ttl = ?ttl\<rparr>"
  let ?sections = "encode_section (sim_prefix_tree saved) now None
      @ encode_anchor_section ?lru ?hex (sim_anchor_index saved) now None"
  note export = exported_snapshot[OF assms(8)[unfolded caps_def] assms(7,2,4,5,6)]
  obtain h where h: "snapshot_unix_ms h = snap_ms"
      "finalize_frame (so_crc ops) (so_gzip ops) (header_write h @ ?sections) = Inr blob"
    using export(3) by auto
  have frame: "decode_frame (so_crc ops) (so_gunzip ops) blob = Inr \<lparr>df_header = h, df_sections = ?sections\<rparr>"
    using assms(10) by (intro finalize_frame_round[OF assms(3) h(2) assms(9)]) simp
  have full: "encode_section (sim_prefix_tree saved) now None = encode_node now (root (sim_prefix_tree saved))"
    by (simp add: encode_section_def encode_full_def)
  have tree_ok: "wf_node (root (sim_prefix_tree saved))" "heap_node now (root (sim_prefix_tree saved))"
      "node_total (root (sim_prefix_tree saved)) \<le> u64_max"
      "node_total (root (sim_prefix_tree saved)) = resident_tokens (sim_prefix_tree saved)"
    using export(1) by (simp_all add: tree_ok_def)
  have "restorable ?rc" using assms(18) by (simp add: restorable_def)
  from restored_part[OF this assms(14) tree_ok(1,2) assms(11,12) tree_ok(3),
      of "encode_anchor_section ?lru ?hex (sim_anchor_index saved) now None"]
  obtain tree where tree: "decode_section ?rc ?T ?sections
        = Inr (tree, encode_anchor_section ?lru ?hex (sim_anchor_index saved) now None)"
      "tree_ok now' tree" "resident_tokens tree \<le> resident_tokens (sim_prefix_tree saved)"
      "\<forall>ks. tree_touch tree ks = Option.bind (tree_touch (sim_prefix_tree saved) ks) (restored_touch ?rc now)"
      "skip_prefix_section ?sections = Inr (encode_anchor_section ?lru ?hex (sim_anchor_index saved) now None)"
    unfolding full using tree_ok(4) by (auto simp: tree_touch_def)
  have "enforce_token_budget tree ?T = tree"
    using enforce_token_budget_refines[OF tree(2), of ?T] tree(3) assms(13) by simp
  then have offered: "restore_tree (restore_ctx_of config caps now' (sint now_ms)) \<lparr>df_header = h, df_sections = ?sections\<rparr>
      = Some tree"
    using tree(1) h(1) by (simp add: restore_tree_def restore_ctx_of_def Let_def caps_def)
  let ?decoded = "List.map_filter (wire_row ?hex now (sint snap_ms)) ?rows"
  have "length ?rows < 2 ^ 64" using assms(16,17) by linarith
  then have anchors: "frame_anchors ?hex (restore_ctx_of config caps now' (sint now_ms)) \<lparr>df_header = h, df_sections = ?sections\<rparr>
      = Some ?decoded"
    using decoded_anchors[of ?lru "sim_anchor_index saved" now ?K ?hex "sint snap_ms"] tree(5) assms(15,16) h(1)
    by (simp add: frame_anchors_def restore_ctx_of_def Let_def caps_def)
  note import = imported_snapshot[OF assms(20) frame offered anchors]
  have touch: "tree_touch (sim_prefix_tree restored) ks = tree_touch tree ks" for ks
    using import(2) no_tokens_no_touch[OF tree(2), of ks]
    by (auto simp: cache_simulator_default_def tree_touch_def prefix_tree_default_def prefix_node_default_def)
  let ?u = "anchor_union_fold (anchor_union_new (sint now_ms) ?attl ?K) ?decoded"
  have index: "sim_anchor_index restored
      = rebuild_from_rows ?lru anchor_index_default (anchor_union_finish ?u) now' ?attl ?K"
    using import(3) by (simp add: cache_simulator_default_def restore_ctx_of_def Let_def caps_def)
  have u: "union_ok ?u" using fold_set(2)[OF anchor_union_new_ok] .
  have u_ttl: "au_ttl ?u = ?attl" "au_max_entries ?u = ?K"
    by (simp_all add: anchor_union_fold_def anchor_union_new_def Let_def)
  have rebuildable: "rebuildable now' ?attl (anchor_union_finish ?u)"
    using finish_rebuildable[OF u, of now'] assms(19) u_ttl by simp
  have "fst (recover_conversation_id ops restored k config now') = Some (ce_conversation_id e)"
    if row: "(k, e) \<in> set ?rows" and live: "survives_restart now (sint snap_ms) (sint now_ms) ?attl e" for k e
  proof -
    have wire: "?decoded = map (\<lambda>row. \<lparr>da_hex = fst row, da_conversation_id = ce_conversation_id (snd row),
        da_token_counts = ce_token_counts (snd row),
        da_age_secs = as_secs (duration_since now (ce_last_touched_at (snd row))),
        da_snapshot_unix_ms = sint snap_ms\<rparr>) ?rows"
      using assms(15) by (intro hex_wire_rows) blast
    have "map da_hex ?decoded = map fst ?rows" "length ?decoded = length ?rows"
      unfolding wire by simp_all
    then have d: "distinct (map da_hex ?decoded)" "length ?decoded \<le> ?K"
      using export(2) assms(16) by (simp_all add: anchor_ok_def recent_rows_def)
    have "0 < ?K" using row assms(16) by (cases ?rows) auto
    then have short: "length (anchor_union_finish ?u) \<le> max ?K 1"
      using length_finish[of ?u] unfolding u_ttl by simp
    let ?d = "\<lparr>da_hex = k, da_conversation_id = ce_conversation_id e, da_token_counts = ce_token_counts e,
        da_age_secs = as_secs (duration_since now (ce_last_touched_at e)), da_snapshot_unix_ms = sint snap_ms\<rparr>"
    obtain r where r: "rebuild_row_of (sint now_ms) ?attl (da_hex ?d, anchor_candidate_of ?d) = Some r"
        "rr_hex r = k" "rr_conversation_id r = ce_conversation_id e"
      using live by (auto simp: rebuild_row_of_def anchor_candidate_of_def survives_restart_def Let_def)
    have "?d \<in> set ?decoded" using row by (force simp: wire)
    from finish_all_rows[OF d this r(1)] have "r \<in> set (anchor_union_finish ?u)" .
    from rebuilt_anchor_found[OF assms(2) rebuildable short this] show ?thesis
      using r(2,3) index by (simp add: recover_conversation_id_def case_prod_beta)
  qed
  then show ?thesis using import(1) touch tree(4) by auto
qed

text \<open>A library that stores what it is told to compress, for the witness.\<close>

definition copy_ops :: "(nat \<times> anchor_row list) sim_ops" where
  "copy_ops = broken_ops\<lparr>so_gzip := Inr, so_gunzip := (\<lambda>limit blob. Inr (take limit blob))\<rparr>"

lemma copy_ops_simps [simp]:
  "so_lru copy_ops = list_lru" "so_hex copy_ops = \<lparr>hex_encode = bytes_str, hex_decode = Some \<circ> str_bytes\<rparr>"
  "so_crc copy_ops = (\<lambda>_. 0)" "so_gzip copy_ops = Inr" "so_gunzip copy_ops = (\<lambda>limit blob. Inr (take limit blob))"
  by (simp_all add: copy_ops_def broken_ops_def)

lemma snapshot_survives_restart_witness:
  "\<exists>blob saved outcome restored.
     export_snapshot copy_ops \<lparr>sim_prefix_tree = prefix_tree_default, sim_anchor_index =
         anchor_insert list_lru anchor_index_default (replicate 32 CHR ''a'') ''conv'' None 0 (10 ^ 12) 4\<rparr>
       \<lparr>cfg_mode = PrefixTreeMode, cfg_prefix_cache_max_tokens = 9, cfg_prefix_cache_entry_ttl = 10 ^ 12,
        cfg_anchor_max_entries = 4, cfg_anchor_ttl = 10 ^ 12\<rparr>
       \<lparr>caps_max_tokens = None, caps_max_anchor_entries = None\<rparr> 5 1000 = (Some blob, saved)
     \<and> import_snapshot copy_ops cache_simulator_default (Some blob) []
       \<lparr>cfg_mode = PrefixTreeMode, cfg_prefix_cache_max_tokens = 9, cfg_prefix_cache_entry_ttl = 10 ^ 12,
        cfg_anchor_max_entries = 4, cfg_anchor_ttl = 10 ^ 12\<rparr>
       \<lparr>caps_max_tokens = None, caps_max_anchor_entries = None\<rparr> 20 (sint (1500 :: 64 word)) = (outcome, restored)
     \<and> fst (recover_conversation_id copy_ops restored (replicate 32 CHR ''a'')
       \<lparr>cfg_mode = PrefixTreeMode, cfg_prefix_cache_max_tokens = 9, cfg_prefix_cache_entry_ttl = 10 ^ 12,
        cfg_anchor_max_entries = 4, cfg_anchor_ttl = 10 ^ 12\<rparr> 20) = Some ''conv''"
proof -
  let ?key = "replicate 32 CHR ''a''"
  let ?config = "\<lparr>cfg_mode = PrefixTreeMode, cfg_prefix_cache_max_tokens = 9, cfg_prefix_cache_entry_ttl = 10 ^ 12,
      cfg_anchor_max_entries = 4, cfg_anchor_ttl = 10 ^ 12\<rparr>"
  let ?caps = "\<lparr>caps_max_tokens = None, caps_max_anchor_entries = None\<rparr>"
  let ?e = "\<lparr>ce_conversation_id = ''conv'', ce_token_counts = None, ce_last_touched_at = 0\<rparr>"
  let ?index = "anchor_insert list_lru anchor_index_default ?key ''conv'' None 0 (10 ^ 12) 4"
  let ?sim = "\<lparr>sim_prefix_tree = prefix_tree_default, sim_anchor_index = ?index\<rparr>"
  have index: "?index = Some (4, [(?key, ?e)])"
    by (simp add: anchor_insert_def ensure_capacity_def remove_expired_def list_lru_def
        anchor_index_default_def del: replicate.simps)
  have keep: "remove_expired list_lru ?index 5 (10 ^ 12) = ?index"
    unfolding index by (simp add: remove_expired_def list_lru_def entry_expired_def duration_since_def
        del: replicate.simps)
  have prune: "prune_expired prefix_tree_default 5 (10 ^ 12) = prefix_tree_default"
    by (simp add: prune_expired_def prefix_tree_default_def prefix_node_default_def)
  have nonempty: "\<not> anchor_is_empty list_lru ?index" "resident_tokens prefix_tree_default = 0"
    unfolding index by (simp_all add: anchor_is_empty_def list_lru_def prefix_tree_default_def)
  have lens: "length (encode_section prefix_tree_default 5 None) = 1"
    "length (encode_anchor_section list_lru (so_hex copy_ops) ?index 5 None) = 40"
    unfolding index
    by (simp_all add: encode_section_def encode_full_def prefix_tree_default_def prefix_node_default_def
        write_varint.simps encode_anchor_section_def list_lru_def encode_anchor_row_def encode_token_counts_def
        as_secs_def duration_since_def nanos_per_sec_def del: replicate.simps)
  obtain blob where export: "export_snapshot copy_ops ?sim ?config ?caps 5 1000 = (Some blob, ?sim)"
      and blob: "length blob \<le> 100"
  proof -
    have "export_snapshot copy_ops ?sim ?config ?caps 5 1000
        = (Some ((header_write \<lparr>snapshot_unix_ms = 1000, header_resident_tokens = 0\<rparr>
            @ encode_section prefix_tree_default 5 None
            @ encode_anchor_section list_lru (so_hex copy_ops) ?index 5 None) @ le_bytes 4 0), ?sim)"
      using keep prune nonempty
      by (simp add: export_snapshot_def Let_def finalize_frame_def gzip_compress_def del: replicate.simps)
    moreover have "length ((header_write \<lparr>snapshot_unix_ms = 1000, header_resident_tokens = 0\<rparr>
            @ encode_section prefix_tree_default 5 None
            @ encode_anchor_section list_lru (so_hex copy_ops) ?index 5 None) @ le_bytes 4 0) \<le> 100"
      using lens by (simp add: HEADER_LEN_def)
    ultimately show thesis by (rule that)
  qed
  obtain outcome restored where import: "import_snapshot copy_ops cache_simulator_default (Some blob) [] ?config ?caps 20
      (sint (1500 :: 64 word)) = (outcome, restored)" by fastforce
  have rows: "anchor_rows list_lru ?index = [(?key, ?e)]" unfolding index by (simp add: list_lru_def)
  have reach: "anchor_reach list_lru 0 ?index"
    by (rule anchor_reach.reach_insert[OF anchor_reach.reach_default[of list_lru 0]]) simp
  have utf8: "utf8_valid (str_bytes ''conv'')"
    by (rule utf8_valid_ascii) (simp add: str_bytes_def byte_of_char_def of_char_def)
  have encodable: "row_encodable 5 (?key, ?e)" "hex_key (so_hex copy_ops) ?key"
    using utf8 by (simp_all add: row_encodable_def MAX_ANCHOR_CONVERSATION_ID_BYTES_def duration_since_def as_secs_def
        nanos_per_sec_def hex_key_def del: replicate.simps)
  have live: "survives_restart 5 (sint (1000 :: 64 word)) (sint (1500 :: 64 word)) (10 ^ 12) ?e"
    by (simp add: survives_restart_def anchor_age_ms_def as_secs_def duration_since_def nanos_per_sec_def
        sat_sub_i64_def clamp_i64_def i64_max_def i64_min_def sat_mul_u64_def Let_def)
  have lru: "lru_contract (so_lru copy_ops)" by (simp add: list_lru_contract)
  have gzip: "gzip_contract Inr (\<lambda>limit blob. Inr (take limit blob))" by (simp add: gzip_contract_def)
  have "fst (recover_conversation_id copy_ops restored ?key ?config 20) = Some ''conv''"
    using snapshot_survives_restart[where ops = copy_ops and sim = ?sim and saved = ?sim and t = 0 and now = 5
        and config = ?config and blob = blob and snap_ms = 1000 and now' = 20 and now_ms = 1500
        and outcome = outcome and restored = restored]
      lru gzip tree_reach.reach_default[of 0] reach export import blob lens rows encodable live
    by (simp add: MAX_COMPRESSED_SNAPSHOT_BYTES_def MAX_DECOMPRESSED_SNAPSHOT_BYTES_def HEADER_LEN_def
        prefix_tree_default_def prefix_node_default_def instant_checked_sub_secs_def as_secs_def nanos_per_sec_def
        i64_min_def Let_def del: replicate.simps)
  then show ?thesis using export import by blast
qed

end
