(* ===== verification/HashMapModel.thy ===== *)
theory HashMapModel
  imports Prelude
begin

text \<open>
  \<open>std::collections::HashMap\<close> as a list of entries with distinct keys.  The order of the list
  stands for the unspecified order of iteration: what the sources compute from an iteration
  does not depend on it.
\<close>

definition hm_insert :: "'k \<Rightarrow> 'v \<Rightarrow> ('k \<times> 'v) list \<Rightarrow> ('k \<times> 'v) list" where
  "hm_insert k v m = (k, v) # filter (\<lambda>e. fst e \<noteq> k) m"

definition hm_remove :: "'k \<Rightarrow> ('k \<times> 'v) list \<Rightarrow> ('k \<times> 'v) list" where
  "hm_remove k m = filter (\<lambda>e. fst e \<noteq> k) m"

definition hm_retain :: "('k \<Rightarrow> 'v \<Rightarrow> bool) \<Rightarrow> ('k \<times> 'v) list \<Rightarrow> ('k \<times> 'v) list" where
  "hm_retain P m = filter (\<lambda>(k, v). P k v) m"

definition hm_ok :: "('k \<times> 'v) list \<Rightarrow> bool" where
  "hm_ok m = distinct (map fst m)"

lemma hm_get_insert [simp]: "map_of (hm_insert k v m) k' = (if k' = k then Some v else map_of m k')"
  by (induction m) (auto simp: hm_insert_def)

lemma hm_get_remove [simp]: "map_of (hm_remove k m) k' = (if k' = k then None else map_of m k')"
  by (induction m) (auto simp: hm_remove_def)

lemma hm_get_retain:
  "hm_ok m \<Longrightarrow> map_of (hm_retain P m) k
    = (case map_of m k of Some v \<Rightarrow> if P k v then Some v else None | None \<Rightarrow> None)"
proof (induction m)
  case (Cons e m)
  obtain k' v where e: "e = (k', v)" by (cases e)
  have "map_of m k' = None" using Cons.prems by (simp add: hm_ok_def e map_of_eq_None_iff)
  then show ?case using Cons by (auto simp: hm_ok_def hm_retain_def e)
qed (simp add: hm_retain_def)

lemma hm_ok_simps [simp]: "hm_ok []" "hm_ok m \<Longrightarrow> hm_ok (hm_insert k v m)" "hm_ok m \<Longrightarrow> hm_ok (hm_remove k m)"
  "hm_ok m \<Longrightarrow> hm_ok (hm_retain P m)"
  by (auto simp: hm_ok_def hm_insert_def hm_remove_def hm_retain_def distinct_map_filter)

lemma hm_entry: "hm_ok m \<Longrightarrow> (k, v) \<in> set m \<longleftrightarrow> map_of m k = Some v"
  by (simp add: hm_ok_def)

end
