(* ===== verification/Scheduler.thy ===== *)
theory Scheduler
  imports HashMapModel CachePages
begin

text \<open>
  The account-scoped request scheduler (\<open>crates/llm-access-kiro/src/scheduler.rs\<close>): local
  concurrency and pacing per account, upstream cooldowns per account and per proxy.  The clock
  is read before the lock is taken, so every operation has its reading as an argument.  Adding
  a duration to an instant is assumed not to leave the range of the platform's clock.
\<close>

record account_scheduler_state =
  acc_in_flight :: nat
  acc_next_start_at :: instant

record account_cooldown_entry =
  cd_until :: instant
  cd_reason :: string

record account_cooldown =
  ac_remaining :: duration
  ac_reason :: string

record account_local_throttle =
  th_wait :: "duration option"
  th_reason :: string
  th_in_flight :: nat
  th_max_concurrency :: nat
  th_min_start_interval_ms :: nat

text \<open>The wake-ups sent to the waiters (\<open>Notify::notify_waiters\<close>) are counted.\<close>

record kiro_request_scheduler =
  ks_states :: "(string \<times> account_scheduler_state) list"
  ks_cooldowns :: "(string \<times> account_cooldown_entry) list"
  ks_proxy_cooldowns :: "(string \<times> account_cooldown_entry) list"
  ks_last_started_at :: "(string \<times> instant) list"
  ks_notified :: nat

record kiro_request_lease =
  ls_account_name :: string
  ls_released :: bool
  ls_waited_ms :: nat

definition scheduler_new :: kiro_request_scheduler where
  "scheduler_new =
     \<lparr>ks_states = [], ks_cooldowns = [], ks_proxy_cooldowns = [], ks_last_started_at = [], ks_notified = 0\<rparr>"

definition nanos_per_milli :: nat where
  "nanos_per_milli = 10 ^ 6"

definition from_millis :: "nat \<Rightarrow> duration" where
  "from_millis ms = ms * nanos_per_milli"

definition as_millis :: "duration \<Rightarrow> nat" where
  "as_millis d = d div nanos_per_milli"

definition instant_plus :: "instant \<Rightarrow> duration \<Rightarrow> instant" where
  "instant_plus t d = t + int d"

definition notify_waiters :: "kiro_request_scheduler \<Rightarrow> kiro_request_scheduler" where
  "notify_waiters s = s\<lparr>ks_notified := Suc (ks_notified s)\<rparr>"

text \<open>
  \<open>now\<close> is the reading before the lock, \<open>granted_at\<close> the one behind \<open>queued_at.elapsed()\<close>.
\<close>

definition try_acquire ::
  "kiro_request_scheduler \<Rightarrow> string \<Rightarrow> nat \<Rightarrow> nat \<Rightarrow> instant \<Rightarrow> instant \<Rightarrow> instant
     \<Rightarrow> (account_local_throttle + kiro_request_lease) \<times> kiro_request_scheduler" where
  "try_acquire s account max_conc min_start_interval_ms queued_at now granted_at =
     (let max_concurrency = max max_conc 1;
          state = (case map_of (ks_states s) account of
                     Some st \<Rightarrow> st
                   | None \<Rightarrow> \<lparr>acc_in_flight = 0, acc_next_start_at = now\<rparr>);
          s1 = s\<lparr>ks_states := hm_insert account state (ks_states s)\<rparr> in
      if max_concurrency \<le> acc_in_flight state then
        (Inl \<lparr>th_wait = None, th_reason = ''local_concurrency_limit'', th_in_flight = acc_in_flight state,
              th_max_concurrency = max_concurrency, th_min_start_interval_ms = min_start_interval_ms\<rparr>, s1)
      else if now < acc_next_start_at state then
        (Inl \<lparr>th_wait = Some (duration_since (acc_next_start_at state) now),
              th_reason = ''local_start_interval'', th_in_flight = acc_in_flight state,
              th_max_concurrency = max_concurrency, th_min_start_interval_ms = min_start_interval_ms\<rparr>, s1)
      else
        (let next_start_at = (if min_start_interval_ms = 0 then now
                              else instant_plus now (from_millis min_start_interval_ms)) in
         (Inr \<lparr>ls_account_name = account, ls_released = False,
               ls_waited_ms = as_millis (duration_since granted_at queued_at) mod 2 ^ 64\<rparr>,
          s1\<lparr>ks_states := hm_insert account
                 \<lparr>acc_in_flight = acc_in_flight state + 1, acc_next_start_at = next_start_at\<rparr> (ks_states s1),
             ks_last_started_at := hm_insert account now (ks_last_started_at s)\<rparr>)))"

definition release :: "kiro_request_scheduler \<Rightarrow> string \<Rightarrow> instant \<Rightarrow> kiro_request_scheduler" where
  "release s account now =
     notify_waiters
       (case map_of (ks_states s) account of
          None \<Rightarrow> s
        | Some st \<Rightarrow>
            (let st' = (if 0 < acc_in_flight st then st\<lparr>acc_in_flight := acc_in_flight st - 1\<rparr> else st) in
             if acc_in_flight st' = 0 \<and> acc_next_start_at st' \<le> now
             then s\<lparr>ks_states := hm_remove account (ks_states s)\<rparr>
             else s\<lparr>ks_states := hm_insert account st' (ks_states s)\<rparr>))"

definition lease_drop ::
  "kiro_request_scheduler \<Rightarrow> kiro_request_lease \<Rightarrow> instant \<Rightarrow> kiro_request_lease \<times> kiro_request_scheduler" where
  "lease_drop s lease now =
     (if ls_released lease then (lease, s)
      else (lease\<lparr>ls_released := True\<rparr>, release s (ls_account_name lease) now))"

section \<open>Cooldowns\<close>

definition cooldown_of_entry :: "instant \<Rightarrow> account_cooldown_entry \<Rightarrow> account_cooldown" where
  "cooldown_of_entry now entry =
     \<lparr>ac_remaining = duration_since (cd_until entry) now, ac_reason = cd_reason entry\<rparr>"

definition cooldown_for_account ::
  "kiro_request_scheduler \<Rightarrow> string \<Rightarrow> instant \<Rightarrow> account_cooldown option \<times> kiro_request_scheduler" where
  "cooldown_for_account s account now =
     (case map_of (ks_cooldowns s) account of
        Some entry \<Rightarrow>
          (if now < cd_until entry then (Some (cooldown_of_entry now entry), s)
           else (None, s\<lparr>ks_cooldowns := hm_remove account (ks_cooldowns s)\<rparr>))
      | None \<Rightarrow> (None, s))"

definition mark_account_cooldown ::
  "kiro_request_scheduler \<Rightarrow> string \<Rightarrow> duration \<Rightarrow> string \<Rightarrow> instant \<Rightarrow> kiro_request_scheduler" where
  "mark_account_cooldown s account d reason now =
     notify_waiters
       (s\<lparr>ks_cooldowns := hm_insert account \<lparr>cd_until = instant_plus now d, cd_reason = reason\<rparr> (ks_cooldowns s)\<rparr>)"

definition min_option :: "nat list \<Rightarrow> nat option" where
  "min_option xs = (case xs of [] \<Rightarrow> None | x # rest \<Rightarrow> Some (foldl min x rest))"

definition shortest_cooldown ::
  "kiro_request_scheduler \<Rightarrow> instant \<Rightarrow> duration option \<times> kiro_request_scheduler" where
  "shortest_cooldown s now =
     (let cooldowns = hm_retain (\<lambda>_ entry. now < cd_until entry) (ks_cooldowns s) in
      (min_option (map (\<lambda>e. duration_since (cd_until (snd e)) now) cooldowns),
       s\<lparr>ks_cooldowns := cooldowns\<rparr>))"

definition proxy_cooldown_snapshot ::
  "kiro_request_scheduler \<Rightarrow> instant \<Rightarrow> (string \<times> account_cooldown) list \<times> kiro_request_scheduler" where
  "proxy_cooldown_snapshot s now =
     (let cooldowns = hm_retain (\<lambda>_ entry. now < cd_until entry) (ks_proxy_cooldowns s) in
      (map (\<lambda>e. (fst e, cooldown_of_entry now (snd e))) cooldowns, s\<lparr>ks_proxy_cooldowns := cooldowns\<rparr>))"

definition mark_proxy_cooldown ::
  "kiro_request_scheduler \<Rightarrow> string \<Rightarrow> duration \<Rightarrow> string \<Rightarrow> instant \<Rightarrow> kiro_request_scheduler" where
  "mark_proxy_cooldown s proxy d reason now =
     notify_waiters
       (s\<lparr>ks_proxy_cooldowns :=
            hm_insert proxy \<lparr>cd_until = instant_plus now d, cd_reason = reason\<rparr> (ks_proxy_cooldowns s)\<rparr>)"

definition last_started_snapshot :: "kiro_request_scheduler \<Rightarrow> (string \<times> instant) list" where
  "last_started_snapshot s = ks_last_started_at s"

definition notify_config_changed :: "kiro_request_scheduler \<Rightarrow> kiro_request_scheduler" where
  "notify_config_changed s = notify_waiters s"

section \<open>Clients of the scheduler\<close>

text \<open>
  The scheduler with the leases that are live and its starts so far, the last one first, each
  with the interval it was granted under.  \<open>sys_rejected\<close> are the clients that were refused
  with no time to wait and have not called \<open>wait_for_available(None)\<close> yet, \<open>sys_waiting\<close> the
  ones registered there.  A notification wakes the clients that are registered, and only
  those.  The clock of the steps does not go back.
\<close>

record scheduler_system =
  sys_scheduler :: kiro_request_scheduler
  sys_leases :: "string list"
  sys_starts :: "(string \<times> instant \<times> nat) list"
  sys_rejected :: "nat set"
  sys_waiting :: "nat set"
  sys_clock :: instant

definition system_init :: "instant \<Rightarrow> scheduler_system" where
  "system_init now =
     \<lparr>sys_scheduler = scheduler_new, sys_leases = [], sys_starts = [], sys_rejected = {}, sys_waiting = {},
      sys_clock = now\<rparr>"

text \<open>\<open>limit\<close> is the concurrency limit the route of an account is configured with.\<close>

inductive system_step :: "(string \<Rightarrow> nat) \<Rightarrow> scheduler_system \<Rightarrow> scheduler_system \<Rightarrow> bool"
  for limit :: "string \<Rightarrow> nat" where
  step_start: "try_acquire (sys_scheduler y) account (limit account) interval queued_at now granted_at = (Inr lease, s')
    \<Longrightarrow> sys_clock y \<le> now
    \<Longrightarrow> system_step limit y (y\<lparr>sys_scheduler := s', sys_leases := ls_account_name lease # sys_leases y,
          sys_starts := (account, now, interval) # sys_starts y, sys_rejected := sys_rejected y - {client},
          sys_clock := now\<rparr>)"
| step_refuse: "try_acquire (sys_scheduler y) account (limit account) interval queued_at now granted_at = (Inl throttle, s')
    \<Longrightarrow> sys_clock y \<le> now
    \<Longrightarrow> system_step limit y (y\<lparr>sys_scheduler := s',
          sys_rejected := (if th_wait throttle = None then insert client (sys_rejected y) else sys_rejected y),
          sys_clock := now\<rparr>)"
| step_wait: "client \<in> sys_rejected y
    \<Longrightarrow> system_step limit y (y\<lparr>sys_rejected := sys_rejected y - {client},
          sys_waiting := insert client (sys_waiting y)\<rparr>)"
| step_drop: "account \<in> set (sys_leases y) \<Longrightarrow> sys_clock y \<le> now
    \<Longrightarrow> system_step limit y (y\<lparr>sys_scheduler := release (sys_scheduler y) account now,
          sys_leases := remove1 account (sys_leases y), sys_waiting := {}, sys_clock := now\<rparr>)"
| step_cooldown: "sys_clock y \<le> now
    \<Longrightarrow> system_step limit y (y\<lparr>sys_scheduler := mark_account_cooldown (sys_scheduler y) account d reason now,
          sys_waiting := {}, sys_clock := now\<rparr>)"
| step_query: "sys_clock y \<le> now
    \<Longrightarrow> system_step limit y (y\<lparr>sys_scheduler := snd (cooldown_for_account (sys_scheduler y) account now),
          sys_clock := now\<rparr>)"

inductive system_reach :: "(string \<Rightarrow> nat) \<Rightarrow> scheduler_system \<Rightarrow> bool" for limit where
  reach_init: "system_reach limit (system_init now)"
| reach_step: "system_reach limit y \<Longrightarrow> system_step limit y y' \<Longrightarrow> system_reach limit y'"

inductive_cases system_stepE: "system_step limit y y'"

end
