(* ===== verification/Limits.thy ===== *)
theory Limits
  imports Scheduler
begin

text \<open>
  The limits of the provider dispatch (\<open>crates/llm-access/src/provider/limiter.rs\<close>, types in
  \<open>provider.rs\<close>): permits per key or account with a minimal interval between starts, and the
  cooldowns of Codex accounts in the request path.
\<close>

section \<open>Permits\<close>

record limit_scope =
  lsc_in_flight :: nat
  lsc_last_start :: "instant option"

record limit_rejection =
  rej_reason :: string
  rej_in_flight :: nat
  rej_max_concurrency :: "nat option"
  rej_min_start_interval_ms :: "nat option"
  rej_wait :: "duration option"
  rej_elapsed_since_last_start_ms :: "nat option"

type_synonym request_limiter = "(string \<times> limit_scope) list"

definition limit_scope_default :: limit_scope where
  "limit_scope_default = \<lparr>lsc_in_flight = 0, lsc_last_start = None\<rparr>"

definition positive :: "nat option \<Rightarrow> nat option" where
  "positive x = (case x of Some v \<Rightarrow> if 0 < v then Some v else None | None \<Rightarrow> None)"

definition checked_sub :: "duration \<Rightarrow> duration \<Rightarrow> duration option" where
  "checked_sub a b = (if b \<le> a then Some (a - b) else None)"

text \<open>
  \<open>now\<close> is the reading of \<open>last_start.elapsed()\<close>, \<open>started_at\<close> the later one that becomes the
  new last start.  The permit is the scope it was granted for.
\<close>

definition limiter_try_acquire ::
  "request_limiter \<Rightarrow> string \<Rightarrow> nat option \<Rightarrow> nat option \<Rightarrow> instant \<Rightarrow> instant
     \<Rightarrow> (limit_rejection + string) \<times> request_limiter" where
  "limiter_try_acquire scopes scope max_conc min_start_interval_ms now started_at =
     (let max_concurrency = positive max_conc;
          min_interval = map_option from_millis (positive min_start_interval_ms);
          state = (case map_of scopes scope of Some st \<Rightarrow> st | None \<Rightarrow> limit_scope_default);
          scopes1 = hm_insert scope state scopes;
          concurrency_ready = (case max_concurrency of Some limit \<Rightarrow> lsc_in_flight state < limit | None \<Rightarrow> True);
          elapsed = map_option (\<lambda>start. duration_since now start) (lsc_last_start state);
          interval_wait = (case min_interval of
              Some interval \<Rightarrow> (case elapsed of Some e \<Rightarrow> checked_sub interval e | None \<Rightarrow> None)
            | None \<Rightarrow> None) in
      if concurrency_ready \<and> interval_wait = None then
        (Inr scope,
         hm_insert scope \<lparr>lsc_in_flight = sat_add_u64 (lsc_in_flight state) 1, lsc_last_start = Some started_at\<rparr> scopes1)
      else
        (Inl \<lparr>rej_reason = (if \<not> concurrency_ready then ''max_concurrency'' else ''min_start_interval''),
              rej_in_flight = lsc_in_flight state,
              rej_max_concurrency = max_concurrency,
              rej_min_start_interval_ms = min_start_interval_ms,
              rej_wait = (case interval_wait of Some w \<Rightarrow> Some w | None \<Rightarrow> Some (from_millis 10)),
              rej_elapsed_since_last_start_ms = map_option (\<lambda>e. min (as_millis e) u64_max) elapsed\<rparr>,
         scopes1))"

definition permit_drop :: "request_limiter \<Rightarrow> string \<Rightarrow> request_limiter" where
  "permit_drop scopes scope =
     (case map_of scopes scope of
        Some st \<Rightarrow> hm_insert scope (st\<lparr>lsc_in_flight := sat_sub_u64 (lsc_in_flight st) 1\<rparr>) scopes
      | None \<Rightarrow> scopes)"

definition try_acquire_key_permit ::
  "request_limiter \<Rightarrow> string \<Rightarrow> nat option \<Rightarrow> nat option \<Rightarrow> instant \<Rightarrow> instant
     \<Rightarrow> (limit_rejection + string) \<times> request_limiter" where
  "try_acquire_key_permit scopes key_id = limiter_try_acquire scopes (''key:'' @ key_id)"

text \<open>The time \<open>wait_for_limit\<close> sleeps.\<close>

definition limit_wait :: "limit_rejection option \<Rightarrow> duration" where
  "limit_wait rejection =
     (case Option.bind rejection rej_wait of Some w \<Rightarrow> w | None \<Rightarrow> from_millis 10)"

definition limit_text :: "nat option \<Rightarrow> string" where
  "limit_text x = (case x of Some v \<Rightarrow> show_nat v | None \<Rightarrow> ''unlimited'')"

text \<open>The message of the 429 response to a Codex client.\<close>

definition codex_key_limit_message :: "limit_rejection \<Rightarrow> string" where
  "codex_key_limit_message r =
     ''key request limit reached: '' @ rej_reason r @ '' in_flight='' @ show_nat (rej_in_flight r)
     @ '' request_max_concurrency='' @ limit_text (rej_max_concurrency r)
     @ '' request_min_start_interval_ms='' @ limit_text (rej_min_start_interval_ms r)
     @ '' wait_ms='' @ show_nat (unwrap_or (map_option (\<lambda>w. as_millis w mod 2 ^ 64) (rej_wait r)) 0)
     @ '' elapsed_since_last_start_ms='' @ show_nat (unwrap_or (rej_elapsed_since_last_start_ms r) 0)"

definition kiro_key_limit_message :: "limit_rejection \<Rightarrow> string" where
  "kiro_key_limit_message r =
     ''Kiro key request limit reached: '' @ rej_reason r @ '' in_flight='' @ show_nat (rej_in_flight r)
     @ '' request_max_concurrency='' @ limit_text (rej_max_concurrency r)
     @ '' request_min_start_interval_ms='' @ limit_text (rej_min_start_interval_ms r)
     @ '' wait_ms='' @ show_nat (unwrap_or (map_option (\<lambda>w. as_millis w mod 2 ^ 64) (rej_wait r)) 0)"

section \<open>Cooldowns of Codex accounts\<close>

type_synonym codex_account_cooldowns = "(string \<times> instant) list"

definition codex_cooldown_for_account ::
  "codex_account_cooldowns \<Rightarrow> string \<Rightarrow> instant \<Rightarrow> duration option \<times> codex_account_cooldowns" where
  "codex_cooldown_for_account blocked account now =
     (case map_of blocked account of
        None \<Rightarrow> (None, blocked)
      | Some until \<Rightarrow>
          (let remaining = duration_since until now in
           if remaining = 0 then (None, hm_remove account blocked) else (Some remaining, blocked)))"

definition codex_mark_account_cooldown ::
  "codex_account_cooldowns \<Rightarrow> string \<Rightarrow> duration \<Rightarrow> instant \<Rightarrow> codex_account_cooldowns" where
  "codex_mark_account_cooldown blocked account cooldown now =
     (if cooldown = 0 then blocked
      else (let next_until = instant_plus now cooldown in
        case map_of blocked account of
          Some existing_until \<Rightarrow>
            (if next_until \<le> existing_until then blocked else hm_insert account next_until blocked)
        | None \<Rightarrow> hm_insert account next_until blocked))"

section \<open>Runs\<close>

text \<open>
  The limiter with its live permits and its starts, the last one first.  The limits of a scope
  may be changed by the administration at any time: they are arguments of each attempt.  The
  clock is read under the lock, so the readings follow the order of the attempts; there are
  fewer than \<open>2 ^ 64\<close> permits at a time.
\<close>

record limiter_system =
  lim_scopes :: request_limiter
  lim_permits :: "string list"
  lim_starts :: "(string \<times> instant) list"
  lim_clock :: instant

definition limiter_init :: "instant \<Rightarrow> limiter_system" where
  "limiter_init now = \<lparr>lim_scopes = [], lim_permits = [], lim_starts = [], lim_clock = now\<rparr>"

inductive limiter_reach :: "limiter_system \<Rightarrow> bool" where
  lim_init: "limiter_reach (limiter_init now)"
| lim_grant: "limiter_reach y \<Longrightarrow> lim_clock y \<le> now \<Longrightarrow> now \<le> started_at \<Longrightarrow> length (lim_permits y) < u64_max
    \<Longrightarrow> limiter_try_acquire (lim_scopes y) scope max_conc interval now started_at = (Inr scope', scopes')
    \<Longrightarrow> limiter_reach (y\<lparr>lim_scopes := scopes', lim_permits := scope' # lim_permits y,
          lim_starts := (scope, started_at) # lim_starts y, lim_clock := started_at\<rparr>)"
| lim_refuse: "limiter_reach y \<Longrightarrow> lim_clock y \<le> now
    \<Longrightarrow> limiter_try_acquire (lim_scopes y) scope max_conc interval now started_at = (Inl rejection, scopes')
    \<Longrightarrow> limiter_reach (y\<lparr>lim_scopes := scopes', lim_clock := now\<rparr>)"
| lim_drop: "limiter_reach y \<Longrightarrow> scope \<in> set (lim_permits y)
    \<Longrightarrow> limiter_reach (y\<lparr>lim_scopes := permit_drop (lim_scopes y) scope,
          lim_permits := remove1 scope (lim_permits y)\<rparr>)"

end
