(* ===== verification/SchedulerProperties.thy ===== *)
theory SchedulerProperties
  imports Scheduler
begin

text \<open>
  The guarantees of the scheduler, by an invariant of the reachable systems, and a run in which
  its clients' protocol loses a wake-up.
\<close>

lemma try_acquire_cases:
  assumes "try_acquire s account max_conc interval queued_at now granted_at = (r, s')"
  obtains (busy) throttle st where "r = Inl throttle" "th_wait throttle = None"
      "map_of (ks_states s) account = Some st" "max max_conc 1 \<le> acc_in_flight st"
      "s' = s\<lparr>ks_states := hm_insert account st (ks_states s)\<rparr>"
  | (paced) throttle st where "r = Inl throttle"
      "th_wait throttle = Some (duration_since (acc_next_start_at st) now)"
      "map_of (ks_states s) account = Some st" "now < acc_next_start_at st" "acc_in_flight st < max max_conc 1"
      "s' = s\<lparr>ks_states := hm_insert account st (ks_states s)\<rparr>"
  | (granted) lease n where "r = Inr lease" "ls_account_name lease = account" "\<not> ls_released lease"
      "n = (case map_of (ks_states s) account of Some st \<Rightarrow> acc_in_flight st | None \<Rightarrow> 0)"
      "n < max max_conc 1"
      "\<And>st. map_of (ks_states s) account = Some st \<Longrightarrow> acc_next_start_at st \<le> now"
      "\<And>a. map_of (ks_states s') a = (if a = account then Some \<lparr>acc_in_flight = n + 1,
          acc_next_start_at = instant_plus now (from_millis interval)\<rparr> else map_of (ks_states s) a)"
      "hm_ok (ks_states s) \<Longrightarrow> hm_ok (ks_states s')"
proof (cases "map_of (ks_states s) account")
  case None
  then show ?thesis
    using assms granted
    by (auto simp: try_acquire_def Let_def from_millis_def instant_plus_def)
next
  case (Some st)
  consider "max max_conc 1 \<le> acc_in_flight st"
    | "acc_in_flight st < max max_conc 1" "now < acc_next_start_at st"
    | "acc_in_flight st < max max_conc 1" "acc_next_start_at st \<le> now"
    by linarith
  then show ?thesis
  proof cases
    case 1
    then have "\<exists>throttle. r = Inl throttle \<and> th_wait throttle = None
        \<and> s' = s\<lparr>ks_states := hm_insert account st (ks_states s)\<rparr>"
      using assms Some by (auto simp: try_acquire_def Let_def simp del: max.bounded_iff max_less_iff_conj One_nat_def)
    then show ?thesis using busy Some 1 by blast
  next
    case 2
    then have "\<exists>throttle. r = Inl throttle \<and> th_wait throttle = Some (duration_since (acc_next_start_at st) now)
        \<and> s' = s\<lparr>ks_states := hm_insert account st (ks_states s)\<rparr>"
      using assms Some not_le[of "max max_conc 1" "acc_in_flight st"]
      by (auto simp: try_acquire_def Let_def simp del: max.bounded_iff max_less_iff_conj One_nat_def)
    then show ?thesis using paced Some 2 by blast
  next
    case 3
    then have "\<not> max max_conc 1 \<le> acc_in_flight st" "\<not> now < acc_next_start_at st" by linarith+
    then show ?thesis
      using assms Some granted 3
      by (auto simp: try_acquire_def Let_def from_millis_def instant_plus_def simp del: max.bounded_iff max_less_iff_conj One_nat_def)
  qed
qed

lemma release_states:
  "map_of (ks_states (release s account now)) a =
     (if a = account then
        (case map_of (ks_states s) account of
           None \<Rightarrow> None
         | Some st \<Rightarrow> if acc_in_flight st - 1 = 0 \<and> acc_next_start_at st \<le> now then None
                      else Some (st\<lparr>acc_in_flight := acc_in_flight st - 1\<rparr>))
      else map_of (ks_states s) a)"
  by (cases "map_of (ks_states s) account"; cases "a = account")
    (auto simp: release_def notify_waiters_def Let_def)

lemma release_ok: "hm_ok (ks_states s) \<Longrightarrow> hm_ok (ks_states (release s account now))"
  by (auto simp: release_def notify_waiters_def Let_def split: option.split)

lemma cooldown_states [simp]:
  "ks_states (mark_account_cooldown s a d reason now) = ks_states s"
  "ks_states (snd (cooldown_for_account s a now)) = ks_states s"
  by (auto simp: mark_account_cooldown_def notify_waiters_def cooldown_for_account_def split: option.split)

section \<open>The invariant\<close>

definition in_flight_of :: "kiro_request_scheduler \<Rightarrow> string \<Rightarrow> nat" where
  "in_flight_of s account = (case map_of (ks_states s) account of Some st \<Rightarrow> acc_in_flight st | None \<Rightarrow> 0)"

definition next_start :: "string \<times> instant \<times> nat \<Rightarrow> instant" where
  "next_start start = (case start of (account, t, interval) \<Rightarrow> instant_plus t (from_millis interval))"

definition spaced :: "(string \<times> instant \<times> nat) list \<Rightarrow> bool" where
  "spaced starts = sorted_wrt (\<lambda>later earlier. fst later = fst earlier \<longrightarrow> next_start earlier \<le> fst (snd later)) starts"

text \<open>An account that has been started cannot start again before the interval of that start is over.\<close>

definition start_kept :: "kiro_request_scheduler \<Rightarrow> instant \<Rightarrow> string \<times> instant \<times> nat \<Rightarrow> bool" where
  "start_kept s now start =
     (case map_of (ks_states s) (fst start) of
        None \<Rightarrow> next_start start \<le> now
      | Some st \<Rightarrow> next_start start \<le> now \<or> next_start start \<le> acc_next_start_at st)"

definition system_ok :: "(string \<Rightarrow> nat) \<Rightarrow> scheduler_system \<Rightarrow> bool" where
  "system_ok limit y =
     (hm_ok (ks_states (sys_scheduler y))
      \<and> (\<forall>a. in_flight_of (sys_scheduler y) a = count_list (sys_leases y) a)
      \<and> (\<forall>a. count_list (sys_leases y) a \<le> max (limit a) 1)
      \<and> (\<forall>start \<in> set (sys_starts y). start_kept (sys_scheduler y) (sys_clock y) start)
      \<and> spaced (sys_starts y))"

lemma release_in_flight:
  "in_flight_of (release s account now) a = in_flight_of s a - (if a = account then 1 else 0)"
  by (simp add: in_flight_of_def release_states split: option.split)

lemma refused_states:
  assumes "try_acquire s account max_conc interval queued_at now granted_at = (Inl throttle, s')"
  shows "map_of (ks_states s') = map_of (ks_states s)" "hm_ok (ks_states s) \<Longrightarrow> hm_ok (ks_states s')"
proof -
  have "\<exists>st. map_of (ks_states s) account = Some st \<and> s' = s\<lparr>ks_states := hm_insert account st (ks_states s)\<rparr>"
    using assms by (cases rule: try_acquire_cases) auto
  then show "map_of (ks_states s') = map_of (ks_states s)" "hm_ok (ks_states s) \<Longrightarrow> hm_ok (ks_states s')"
    by (auto simp: fun_eq_iff)
qed

lemma start_kept_later:
  "start_kept s t start \<Longrightarrow> t \<le> now \<Longrightarrow> ks_states s' = ks_states s \<Longrightarrow> start_kept s' now start"
  "start_kept s t start \<Longrightarrow> t \<le> now \<Longrightarrow> map_of (ks_states s') = map_of (ks_states s) \<Longrightarrow> start_kept s' now start"
  by (auto simp: start_kept_def split: option.splits)

lemma start_kept_release:
  "start_kept s t start \<Longrightarrow> t \<le> now \<Longrightarrow> start_kept (release s account now) now start"
  by (auto simp: start_kept_def release_states split: option.splits)

lemma start_kept_started:
  assumes "start_kept s t start" "t \<le> now"
    and "\<And>a. map_of (ks_states s') a = (if a = account then Some st else map_of (ks_states s) a)"
    and "\<And>st. map_of (ks_states s) account = Some st \<Longrightarrow> acc_next_start_at st \<le> now"
  shows "start_kept s' now start" "fst start = account \<Longrightarrow> next_start start \<le> now"
  using assms by (auto simp: start_kept_def split: option.splits intro: order_trans)

lemma system_step_ok:
  assumes step: "system_step limit y y'" and ok: "system_ok limit y"
  shows "system_ok limit y'"
  using step
proof (cases rule: system_step.cases)
  case (step_start account interval queued_at now granted_at lease s' client)
  from step_start(2) show ?thesis
  proof (cases rule: try_acquire_cases)
    case (granted lease' n)
    note kept = start_kept_started[OF _ step_start(3) granted(7,6)]
    have n: "n = count_list (sys_leases y) account" "n < max (limit account) 1"
      using ok granted(4,5) by (simp_all add: system_ok_def in_flight_of_def)
    have paced: "\<forall>start \<in> set (sys_starts y). start_kept s' now start \<and> (fst start = account \<longrightarrow> next_start start \<le> now)"
      using ok kept by (simp add: system_ok_def)
    then have "spaced ((account, now, interval) # sys_starts y)"
      using ok by (auto simp: system_ok_def spaced_def)
    moreover have "start_kept s' now (account, now, interval)"
      using granted(7)[of account] by (simp add: start_kept_def next_start_def)
    moreover have "in_flight_of s' a = count_list (account # sys_leases y) a" for a
      using ok granted(7)[of a] n by (simp add: in_flight_of_def system_ok_def)
    moreover have "count_list (account # sys_leases y) a \<le> max (limit a) 1" for a
      using ok n by (auto simp: system_ok_def)
    ultimately show ?thesis
      using ok granted(1,2,8) paced step_start(1) by (simp add: system_ok_def)
  qed simp_all
next
  case (step_refuse account interval queued_at now granted_at throttle s' client)
  note refused = refused_states[OF step_refuse(2)]
  then show ?thesis
    using ok step_refuse(1) start_kept_later(2)[OF _ step_refuse(3) refused(1)]
    by (simp add: system_ok_def in_flight_of_def)
next
  case (step_wait client)
  then show ?thesis using ok by (simp add: system_ok_def)
next
  case (step_drop account now)
  have "in_flight_of (release (sys_scheduler y) account now) a = count_list (remove1 account (sys_leases y)) a" for a
    using ok by (simp add: release_in_flight count_remove1 system_ok_def)
  moreover have "count_list (remove1 account (sys_leases y)) a \<le> max (limit a) 1" for a
  proof -
    have "count_list (sys_leases y) a \<le> max (limit a) 1" using ok by (simp add: system_ok_def)
    then show ?thesis unfolding count_remove1 by linarith
  qed
  ultimately show ?thesis
    using ok step_drop(1) start_kept_release[OF _ step_drop(3)] release_ok by (simp add: system_ok_def)
next
  case (step_cooldown now account d reason)
  then show ?thesis
    using ok start_kept_later(1)[OF _ step_cooldown(2) cooldown_states(1)] by (simp add: system_ok_def in_flight_of_def)
next
  case (step_query now account)
  then show ?thesis
    using ok start_kept_later(1)[OF _ step_query(2) cooldown_states(2)] by (simp add: system_ok_def in_flight_of_def)
qed

lemma system_reach_ok: "system_reach limit y \<Longrightarrow> system_ok limit y"
proof (induction rule: system_reach.induct)
  case (reach_init now)
  then show ?case by (simp add: system_ok_def system_init_def scheduler_new_def in_flight_of_def spaced_def)
qed (rule system_step_ok)

lemma starts_are_spaced:
  assumes "spaced starts" "i < j" "j < length starts" "starts ! j = (account, t, interval)"
    "starts ! i = (account, t', interval')"
  shows "instant_plus t (from_millis interval) \<le> t'"
proof -
  have "fst (starts ! i) = fst (starts ! j) \<longrightarrow> next_start (starts ! j) \<le> fst (snd (starts ! i))"
    using assms(1-3) unfolding spaced_def by (blast dest: sorted_wrt_nth_less)
  then show ?thesis using assms(4,5) by (simp add: next_start_def)
qed

section \<open>Capacity and pacing\<close>

text \<open>A run of two starts and a refusal, for the witnesses.\<close>

definition two_limit :: "string \<Rightarrow> nat" where
  "two_limit account = 1"

definition started_once :: scheduler_system where
  "started_once = (system_init 0)\<lparr>
     sys_scheduler := snd (try_acquire scheduler_new ''a'' 1 2 0 0 0),
     sys_leases := [''a''], sys_starts := [(''a'', 0, 2)], sys_clock := 0\<rparr>"

definition stopped :: scheduler_system where
  "stopped = started_once\<lparr>
     sys_scheduler := release (sys_scheduler started_once) ''a'' 5, sys_leases := [], sys_clock := 5\<rparr>"

definition started_twice :: scheduler_system where
  "started_twice = stopped\<lparr>
     sys_scheduler := snd (try_acquire (sys_scheduler stopped) ''a'' 1 2 0 3000000 3000000),
     sys_leases := [''a''], sys_starts := [(''a'', 3000000, 2), (''a'', 0, 2)], sys_clock := 3000000\<rparr>"

lemmas runs = started_once_def stopped_def started_twice_def system_init_def scheduler_new_def two_limit_def
  try_acquire_def release_def notify_waiters_def hm_insert_def hm_remove_def instant_plus_def from_millis_def
  nanos_per_milli_def Let_def

text \<open>A step to a state that is given in full.\<close>

lemma start_to:
  assumes "try_acquire (sys_scheduler y) account (limit account) interval 0 now now = (Inr lease, sys_scheduler y')"
    "ls_account_name lease = account" "sys_clock y \<le> now" "system_reach limit y"
    "y' = y\<lparr>sys_scheduler := sys_scheduler y', sys_leases := account # sys_leases y,
       sys_starts := (account, now, interval) # sys_starts y, sys_rejected := sys_rejected y - {0}, sys_clock := now\<rparr>"
  shows "system_reach limit y'"
  using reach_step[OF assms(4) step_start[where limit = limit and account = account and client = 0, OF assms(1,3)]] assms(2,5) by simp

lemma drop_to:
  assumes "account \<in> set (sys_leases y)" "sys_clock y \<le> now" "system_reach limit y"
    "y' = y\<lparr>sys_scheduler := release (sys_scheduler y) account now,
       sys_leases := remove1 account (sys_leases y), sys_waiting := {}, sys_clock := now\<rparr>"
  shows "system_reach limit y'"
  using reach_step[OF assms(3) step_drop[OF assms(1,2)]] assms(4) by simp

lemma started_once_reach: "system_reach two_limit started_once"
  by (rule start_to[where account = "''a''" and interval = 2 and now = 0 and y = "system_init 0"
        and lease = "\<lparr>ls_account_name = ''a'', ls_released = False, ls_waited_ms = 0\<rparr>", OF _ _ _ reach_init])
    (simp_all add: runs as_millis_def duration_since_def)

lemma started_twice_reach: "system_reach two_limit started_twice"
proof -
  have "system_reach two_limit stopped"
    by (rule drop_to[OF _ _ started_once_reach, of "''a''" 5]) (simp_all add: runs)
  then show ?thesis
    by (rule start_to[where account = "''a''" and interval = 2 and now = 3000000 and y = stopped
          and lease = "\<lparr>ls_account_name = ''a'', ls_released = False, ls_waited_ms = 3\<rparr>", rotated 3])
      (simp_all add: runs as_millis_def duration_since_def)
qed

text \<open>C27. In every reachable state of the system the in-flight counter of an account is the
  number of its live leases, and this number does not exceed its concurrency limit (at least
  one slot): no acquisition is granted beyond it and none is counted twice.\<close>

theorem in_flight_counts_leases:
  assumes "system_reach limit y"
  shows "in_flight_of (sys_scheduler y) account = count_list (sys_leases y) account
    \<and> count_list (sys_leases y) account \<le> max (limit account) 1"
  using system_reach_ok[OF assms] by (simp add: system_ok_def)

lemma in_flight_counts_leases_witness:
  "in_flight_of (sys_scheduler started_once) ''a'' = 1"
  using in_flight_counts_leases[OF started_once_reach, of "''a''"] by (simp add: started_once_def)

text \<open>C28. In every reachable state the starts of an account are spaced: each of them comes at
  least the interval after every earlier one that the earlier one was granted under.\<close>

theorem starts_keep_interval:
  assumes "system_reach limit y" "i < j" "j < length (sys_starts y)"
    "sys_starts y ! j = (account, t, interval)" "sys_starts y ! i = (account, t', interval')"
  shows "instant_plus t (from_millis interval) \<le> t'"
proof (rule starts_are_spaced)
  show "spaced (sys_starts y)" using system_reach_ok[OF assms(1)] by (simp add: system_ok_def)
qed (use assms in auto)

lemma starts_keep_interval_witness: "instant_plus 0 (from_millis 2) \<le> 3000000"
  by (rule starts_keep_interval[OF started_twice_reach, of 0 1 "''a''"]) (simp_all add: started_twice_def)

text \<open>C29. A refusal for pacing tells the exact time to wait: after it the account refuses
  every attempt before the announced time and grants the one at it or later.\<close>

theorem announced_wait_is_exact:
  assumes "try_acquire s account max_conc interval queued_at now granted_at = (Inl throttle, s')"
    "th_wait throttle = Some d" "now \<le> t"
  shows "isl (fst (try_acquire s' account max_conc interval' queued_at' t granted_at')) \<longleftrightarrow> t < instant_plus now d"
  using assms(1)
proof (cases rule: try_acquire_cases)
  case (paced throttle' st)
  then have "instant_plus now d = acc_next_start_at st"
    using assms(2) by (simp add: duration_since_def instant_plus_def)
  moreover have "map_of (ks_states s') account = Some st" using paced by simp
  ultimately show ?thesis
    using paced(5) not_le[of "max max_conc 1" "acc_in_flight st"]
    by (auto simp: try_acquire_def Let_def simp del: max.bounded_iff max_less_iff_conj One_nat_def)
qed (use assms(2) in auto)

lemma announced_wait_is_exact_witness:
  "\<exists>s' throttle. try_acquire (sys_scheduler stopped) ''a'' 1 2 0 1000000 1000000 = (Inl throttle, s')
     \<and> isl (fst (try_acquire s' ''a'' 1 0 0 1999999 1999999))
     \<and> \<not> isl (fst (try_acquire s' ''a'' 1 0 0 2000000 2000000))"
proof -
  let ?r = "try_acquire (sys_scheduler stopped) ''a'' 1 2 0 1000000 1000000"
  obtain throttle s' where r: "?r = (Inl throttle, s')" and wait: "th_wait throttle = Some 1000000"
    by (simp add: runs duration_since_def)
  show ?thesis
    using r announced_wait_is_exact[OF r wait, of 1999999 0 0 1999999]
      announced_wait_is_exact[OF r wait, of 2000000 0 0 2000000]
    by (simp add: instant_plus_def)
qed

section \<open>A wake-up that is lost\<close>

text \<open>C30. The clients call \<open>wait_for_available(None)\<close> after the refusal, and a notification
  reaches only the waiters that are registered.  So a slot that is released in between wakes
  nobody: a state is reachable in which a client waits although no lease is live and its
  account would be granted at once.\<close>

theorem wakeup_can_be_lost:
  "\<exists>y. system_reach two_limit y \<and> sys_waiting y = {1} \<and> sys_leases y = []
     \<and> \<not> isl (fst (try_acquire (sys_scheduler y) ''a'' 1 2 0 3000000 3000000))"
proof -
  let ?refused = "started_once\<lparr>sys_rejected := {1}\<rparr>"
  obtain throttle where t: "try_acquire (sys_scheduler started_once) ''a'' (two_limit ''a'') 2 0 0 0
      = (Inl throttle, sys_scheduler started_once)" "th_wait throttle = None"
    by (simp add: runs)
  have "system_reach two_limit ?refused"
    using reach_step[OF started_once_reach step_refuse[where limit = two_limit and account = "''a''" and client = 1, OF t(1)]] t(2)
    by (simp add: started_once_def system_init_def)
  then have "system_reach two_limit (stopped\<lparr>sys_rejected := {1}\<rparr>)"
    by (rule drop_to[of "''a''" _ 5, rotated 2]) (simp_all add: runs)
  then have reach: "system_reach two_limit (stopped\<lparr>sys_rejected := {}, sys_waiting := {1}\<rparr>)"
    using reach_step[OF _ step_wait[of 1 "stopped\<lparr>sys_rejected := {1}\<rparr>" two_limit]]
    by (simp add: stopped_def started_once_def system_init_def)
  show ?thesis
    by (rule exI, intro conjI, rule reach) (simp_all add: runs)
qed

section \<open>Cooldowns\<close>

lemma cooldown_marked:
  "fst (cooldown_for_account (mark_account_cooldown s account d reason now) a t) =
     (if a = account
      then if t < instant_plus now d
           then Some \<lparr>ac_remaining = duration_since (instant_plus now d) t, ac_reason = reason\<rparr> else None
      else fst (cooldown_for_account s a t))"
  by (simp add: cooldown_for_account_def mark_account_cooldown_def notify_waiters_def cooldown_of_entry_def
      split: option.split)

text \<open>What a query removes is over: no later answer depends on it.\<close>

lemma cooldown_query_invisible:
  assumes "now \<le> t"
  shows "fst (cooldown_for_account (snd (cooldown_for_account s b now)) a t) = fst (cooldown_for_account s a t)"
  using assms by (auto simp: cooldown_for_account_def split: option.split)

lemma cooldown_prune_invisible:
  assumes "hm_ok (ks_cooldowns s)" "now \<le> t"
  shows "fst (cooldown_for_account (snd (shortest_cooldown s now)) a t) = fst (cooldown_for_account s a t)"
  using assms by (auto simp: cooldown_for_account_def shortest_cooldown_def Let_def hm_get_retain split: option.split)

lemma min_option_least:
  "min_option xs = (if xs = [] then None else Some (Min (set xs)))"
proof -
  have "foldl min x ys = Min (insert x (set ys))" for x and ys :: "nat list"
  proof (induction ys arbitrary: x)
    case (Cons y ys)
    show ?case using Cons[of "min x y"] by (cases "ys = []") (simp_all add: min.assoc min.left_commute)
  qed simp
  then show ?thesis by (cases xs) (simp_all add: min_option_def)
qed

text \<open>The shortest cooldown is the least one an account would be told, if any is cooling down.\<close>

lemma shortest_cooldown_least:
  fixes s :: kiro_request_scheduler and now :: instant
  assumes "hm_ok (ks_cooldowns s)"
  defines "remaining \<equiv> {ac_remaining c | a c. fst (cooldown_for_account s a now) = Some c}"
  shows "fst (shortest_cooldown s now) = (if remaining = {} then None else Some (Min remaining))"
proof -
  let ?live = "hm_retain (\<lambda>_ entry. now < cd_until entry) (ks_cooldowns s)"
  have "remaining = (\<lambda>e. duration_since (cd_until (snd e)) now) ` set ?live" (is "_ = ?image")
  proof
    show "remaining \<subseteq> ?image"
    proof
      fix d assume "d \<in> remaining"
      then obtain a c where "fst (cooldown_for_account s a now) = Some c" "d = ac_remaining c"
        unfolding remaining_def by blast
      then obtain entry where e: "map_of (ks_cooldowns s) a = Some entry" "now < cd_until entry"
          "d = duration_since (cd_until entry) now"
        by (auto simp: cooldown_for_account_def cooldown_of_entry_def split: option.splits if_splits)
      then have "(a, entry) \<in> set ?live"
        using hm_entry[OF assms(1)] by (simp add: hm_retain_def)
      then show "d \<in> ?image" using e(3) by force
    qed
    show "?image \<subseteq> remaining"
    proof
      fix d assume "d \<in> ?image"
      then obtain a entry where e: "map_of (ks_cooldowns s) a = Some entry" "now < cd_until entry"
          "d = duration_since (cd_until entry) now"
        using hm_entry[OF assms(1)] by (auto simp: hm_retain_def)
      then have "fst (cooldown_for_account s a now) = Some (cooldown_of_entry now entry)"
        by (simp add: cooldown_for_account_def)
      then show "d \<in> remaining"
        unfolding remaining_def using e(3) by (auto simp: cooldown_of_entry_def intro!: exI)
    qed
  qed
  then show ?thesis by (simp add: shortest_cooldown_def Let_def min_option_least image_image)
qed

end
