(* ===== verification/LimitsProperties.thy ===== *)
theory LimitsProperties
  imports Limits SchedulerProperties
begin

text \<open>
  The guarantees of the dispatch limits: the limiter decides exactly by the live permits and
  the past starts of the scope, and a cooldown is the longest of those that were set.
\<close>

section \<open>The limiter\<close>

definition scope_state :: "request_limiter \<Rightarrow> string \<Rightarrow> limit_scope" where
  "scope_state scopes scope = (case map_of scopes scope of Some st \<Rightarrow> st | None \<Rightarrow> limit_scope_default)"

lemma scope_state_simps [simp]:
  "scope_state (hm_insert k v m) scope = (if scope = k then v else scope_state m scope)"
  "scope_state [] scope = limit_scope_default"
  by (simp_all add: scope_state_def)

text \<open>When an attempt is refused, in terms of the state of its scope.\<close>

definition refused_now :: "limit_scope \<Rightarrow> nat option \<Rightarrow> nat option \<Rightarrow> instant \<Rightarrow> bool" where
  "refused_now st max_conc interval now =
     ((\<exists>m. max_conc = Some m \<and> 0 < m \<and> m \<le> lsc_in_flight st)
      \<or> (\<exists>iv t. interval = Some iv \<and> 0 < iv \<and> lsc_last_start st = Some t \<and> duration_since now t \<le> from_millis iv))"

lemma try_acquire_outcome:
  "isl (fst (limiter_try_acquire scopes scope m iv now at)) \<longleftrightarrow> refused_now (scope_state scopes scope) m iv now"
  by (cases m; cases iv; cases "lsc_last_start (scope_state scopes scope)")
    (auto simp: limiter_try_acquire_def Let_def refused_now_def positive_def checked_sub_def from_millis_def
      scope_state_def split: option.splits)

lemma try_acquire_effect:
  "limiter_try_acquire scopes scope m iv now at = (Inl rejection, scopes')
    \<Longrightarrow> scope_state scopes' = scope_state scopes"
  "limiter_try_acquire scopes scope m iv now at = (Inr scope', scopes')
    \<Longrightarrow> scope' = scope \<and> scope_state scopes' = (scope_state scopes)(scope :=
      \<lparr>lsc_in_flight = sat_add_u64 (lsc_in_flight (scope_state scopes scope)) 1, lsc_last_start = Some at\<rparr>)"
  by (auto simp: limiter_try_acquire_def Let_def fun_eq_iff scope_state_def split: if_splits option.splits)

lemma permit_drop_state:
  "scope_state (permit_drop scopes scope) = (scope_state scopes)(scope :=
     (scope_state scopes scope)\<lparr>lsc_in_flight := lsc_in_flight (scope_state scopes scope) - 1\<rparr>)"
  by (auto simp: permit_drop_def scope_state_def fun_eq_iff limit_scope_default_def split: option.splits)

definition limiter_ok :: "limiter_system \<Rightarrow> bool" where
  "limiter_ok y =
     ((\<forall>scope. lsc_in_flight (scope_state (lim_scopes y) scope) = count_list (lim_permits y) scope
         \<and> lsc_last_start (scope_state (lim_scopes y) scope) = map_of (lim_starts y) scope)
      \<and> sorted_wrt (\<lambda>a b. snd b \<le> snd a) (lim_starts y)
      \<and> (\<forall>start \<in> set (lim_starts y). snd start \<le> lim_clock y))"

lemma limiter_reach_ok: "limiter_reach y \<Longrightarrow> limiter_ok y"
proof (induction rule: limiter_reach.induct)
  case (lim_init now)
  then show ?case by (simp add: limiter_ok_def limiter_init_def limit_scope_default_def)
next
  case (lim_grant y now started_at scope max_conc interval scope' scopes')
  have "count_list (lim_permits y) scope < u64_max"
    using count_list_length[of "lim_permits y" scope] lim_grant(4) by linarith
  then show ?case
    using lim_grant(2,3,6) try_acquire_effect(2)[OF lim_grant(5)]
    by (force simp: limiter_ok_def sat_add_u64_exact)
next
  case (lim_refuse y now scope max_conc interval started_at rejection scopes')
  then show ?case
    using try_acquire_effect(1)[OF lim_refuse(3)] by (force simp: limiter_ok_def)
next
  case (lim_drop y scope)
  then show ?case by (simp add: limiter_ok_def permit_drop_state count_remove1)
qed

lemma first_start_latest:
  assumes "sorted_wrt (\<lambda>a b. snd b \<le> snd a) starts" "(scope, t) \<in> set starts"
  shows "\<exists>u. map_of starts scope = Some u \<and> (t :: int) \<le> u"
  using assms by (induction starts) auto

text \<open>C34.  The limiter refuses exactly when it should.  In every reachable state an attempt is
  refused if and only if its scope has as many live permits as its concurrency limit, or one of
  its past starts is at most its minimal interval ago; a limit that is absent or zero does not
  count.  No past start and no live permit is ever forgotten.\<close>

theorem limiter_decides_exactly:
  assumes "limiter_reach y" "lim_clock y \<le> now"
  shows "isl (fst (limiter_try_acquire (lim_scopes y) scope max_conc interval now started_at)) \<longleftrightarrow>
      (\<exists>m. max_conc = Some m \<and> 0 < m \<and> m \<le> count_list (lim_permits y) scope)
      \<or> (\<exists>iv t. interval = Some iv \<and> 0 < iv \<and> (scope, t) \<in> set (lim_starts y)
           \<and> now \<le> instant_plus t (from_millis iv))"
proof -
  note ok = limiter_reach_ok[OF assms(1), unfolded limiter_ok_def]
  have last_start: "lsc_last_start (scope_state (lim_scopes y) scope) = map_of (lim_starts y) scope" using ok by blast
  have sorted: "sorted_wrt (\<lambda>a b. snd b \<le> snd a) (lim_starts y)" using ok by blast
  have "(\<exists>t. map_of (lim_starts y) scope = Some t \<and> duration_since now t \<le> d)
      \<longleftrightarrow> (\<exists>t. (scope, t) \<in> set (lim_starts y) \<and> now \<le> instant_plus t d)" for d
  proof
    assume "\<exists>t. map_of (lim_starts y) scope = Some t \<and> duration_since now t \<le> d"
    then obtain t where t: "map_of (lim_starts y) scope = Some t" "duration_since now t \<le> d" by blast
    then have "now \<le> instant_plus t d" by (simp add: duration_since_def instant_plus_def nat_le_iff)
    then show "\<exists>t. (scope, t) \<in> set (lim_starts y) \<and> now \<le> instant_plus t d" using map_of_SomeD[OF t(1)] by blast
  next
    assume "\<exists>t. (scope, t) \<in> set (lim_starts y) \<and> now \<le> instant_plus t d"
    then obtain t where t: "(scope, t) \<in> set (lim_starts y)" "now \<le> instant_plus t d" by blast
    then obtain u where "map_of (lim_starts y) scope = Some u" "t \<le> u" using first_start_latest[OF sorted] by blast
    then show "\<exists>t. map_of (lim_starts y) scope = Some t \<and> duration_since now t \<le> d"
      using t(2) by (auto simp: duration_since_def instant_plus_def)
  qed
  then show ?thesis
    using ok last_start unfolding try_acquire_outcome refused_now_def by auto
qed

lemma limiter_decides_exactly_witness:
  "\<exists>y. limiter_reach y \<and> isl (fst (limiter_try_acquire (lim_scopes y) ''k'' None (Some 2) 2000005 2000005))
     \<and> \<not> isl (fst (limiter_try_acquire (lim_scopes y) ''k'' None (Some 2) 2000006 2000006))"
proof -
  let ?i = "limiter_init 0"
  let ?s = "[(''k'', \<lparr>lsc_in_flight = 1, lsc_last_start = Some 5\<rparr>)] :: request_limiter"
  let ?y = "?i\<lparr>lim_scopes := ?s, lim_permits := [''k''], lim_starts := [(''k'', 5)], lim_clock := 5\<rparr>"
  have "limiter_try_acquire (lim_scopes ?i) ''k'' (Some 1) None 3 5 = (Inr ''k'', ?s)"
    by (simp add: limiter_try_acquire_def Let_def limiter_init_def positive_def limit_scope_default_def
        hm_insert_def sat_add_u64_def u64_max_def)
  from lim_grant[OF lim_init _ _ _ this] have y: "limiter_reach ?y"
    by (simp add: limiter_init_def u64_max_def)
  show ?thesis
    using y limiter_decides_exactly[OF y, of 2000005 "''k''" None "Some 2" 2000005]
      limiter_decides_exactly[OF y, of 2000006 "''k''" None "Some 2" 2000006]
    by (intro exI[of _ ?y]) (simp add: instant_plus_def from_millis_def nanos_per_milli_def)
qed

section \<open>Codex cooldowns\<close>

text \<open>The remaining time after a mark is the longer one of what was set.\<close>

lemma codex_remaining:
  "fst (codex_cooldown_for_account blocked b t) =
     (case map_of blocked b of Some u \<Rightarrow> if u \<le> t then None else Some (nat (u - t)) | None \<Rightarrow> None)"
  by (simp add: codex_cooldown_for_account_def Let_def duration_since_def split: option.split)

lemma codex_marked:
  "map_of (codex_mark_account_cooldown blocked a d now) b =
     (if b = a \<and> d \<noteq> 0 then Some (case map_of blocked a of Some u \<Rightarrow> max u (instant_plus now d) | None \<Rightarrow> instant_plus now d)
      else map_of blocked b)"
  by (simp add: codex_mark_account_cooldown_def Let_def split: option.split)

lemma codex_cooldown_is_longest:
  "d \<noteq> 0 \<Longrightarrow> fst (codex_cooldown_for_account (codex_mark_account_cooldown blocked a d now) a t) =
     (case fst (codex_cooldown_for_account blocked a t) of
        Some remaining \<Rightarrow> Some (max remaining (duration_since (instant_plus now d) t))
      | None \<Rightarrow> if instant_plus now d \<le> t then None else Some (duration_since (instant_plus now d) t))"
  "b \<noteq> a \<Longrightarrow> fst (codex_cooldown_for_account (codex_mark_account_cooldown blocked a d now) b t) =
     fst (codex_cooldown_for_account blocked b t)"
  by (auto simp: codex_remaining codex_marked duration_since_def max_def split: option.split)

lemma codex_query_invisible:
  assumes "now \<le> t"
  shows "fst (codex_cooldown_for_account (snd (codex_cooldown_for_account blocked a now)) b t)
    = fst (codex_cooldown_for_account blocked b t)"
  using assms by (auto simp: codex_cooldown_for_account_def Let_def duration_since_def split: option.split)

end
