(* ===== verification/IpAddress.thy ===== *)
theory IpAddress
  imports Prelude
begin

text \<open>
  \<open>std::net::IpAddr\<close>: the parser of the standard library and the address classes the sources
  test.  A parser takes the characters left and gives its result with the rest, or \<open>None\<close> and
  then reads nothing.
\<close>

datatype ip_addr =
    V4 "nat list"
  | V6 "nat list"

type_synonym 'a reader = "string \<Rightarrow> ('a \<times> string) option"

definition to_digit :: "nat \<Rightarrow> char \<Rightarrow> nat option" where
  "to_digit radix c =
     (let n = of_char c :: nat;
          d = (if 48 \<le> n \<and> n \<le> 57 then Some (n - 48)
               else if 97 \<le> n \<and> n \<le> 122 then Some (n - 87)
               else if 65 \<le> n \<and> n \<le> 90 then Some (n - 55) else None) in
      (case d of Some v \<Rightarrow> if v < radix then Some v else None | None \<Rightarrow> None))"

text \<open>The digits at the front, the value so far, and their number so far.\<close>

fun read_digits :: "nat \<Rightarrow> nat \<Rightarrow> nat \<Rightarrow> nat \<Rightarrow> nat \<Rightarrow> string \<Rightarrow> (nat \<times> nat \<times> string) option" where
  "read_digits radix limit max_digits value n [] = Some (value, n, [])"
| "read_digits radix limit max_digits value n (c # s) =
     (case to_digit radix c of
        None \<Rightarrow> Some (value, n, c # s)
      | Some d \<Rightarrow>
          (let value' = value * radix + d in
           if limit \<le> value' then None
           else if max_digits < n + 1 then None
           else read_digits radix limit max_digits value' (n + 1) s))"

definition read_number :: "nat \<Rightarrow> nat \<Rightarrow> nat \<Rightarrow> bool \<Rightarrow> nat reader" where
  "read_number radix limit max_digits allow_zero_prefix s =
     (case read_digits radix limit max_digits 0 0 s of
        None \<Rightarrow> None
      | Some (value, n, rest) \<Rightarrow>
          (if n = 0 then None
           else if \<not> allow_zero_prefix \<and> s \<noteq> [] \<and> hd s = CHR ''0'' \<and> 1 < n then None
           else Some (value, rest)))"

definition read_given_char :: "char \<Rightarrow> unit reader" where
  "read_given_char c s = (case s of x # rest \<Rightarrow> if x = c then Some ((), rest) else None | [] \<Rightarrow> None)"

definition read_separator :: "char \<Rightarrow> nat \<Rightarrow> 'a reader \<Rightarrow> 'a reader" where
  "read_separator sep i inner s =
     (if 0 < i then (case read_given_char sep s of Some (_, rest) \<Rightarrow> inner rest | None \<Rightarrow> None)
      else inner s)"

fun read_octets :: "nat \<Rightarrow> nat \<Rightarrow> nat list reader" where
  "read_octets i 0 s = Some ([], s)"
| "read_octets i (Suc n) s =
     (case read_separator (CHR ''.'') i (read_number 10 256 3 False) s of
        None \<Rightarrow> None
      | Some (octet, rest) \<Rightarrow>
          (case read_octets (Suc i) n rest of
             None \<Rightarrow> None
           | Some (octets, rest') \<Rightarrow> Some (octet # octets, rest')))"

definition read_ipv4 :: "nat list reader" where
  "read_ipv4 = read_octets 0 4"

text \<open>At most \<open>n\<close> more groups, the first with index \<open>i\<close>; whether the last two came from an IPv4 address.\<close>

fun read_groups :: "nat \<Rightarrow> nat \<Rightarrow> string \<Rightarrow> nat list \<times> bool \<times> string" where
  "read_groups i 0 s = ([], False, s)"
| "read_groups i (Suc n) s =
     (case (if 0 < n then read_separator (CHR '':'') i read_ipv4 s else None) of
        Some (v4, rest) \<Rightarrow> ([v4 ! 0 * 256 + v4 ! 1, v4 ! 2 * 256 + v4 ! 3], True, rest)
      | None \<Rightarrow>
          (case read_separator (CHR '':'') i (read_number 16 65536 4 True) s of
             None \<Rightarrow> ([], False, s)
           | Some (g, rest) \<Rightarrow>
               (case read_groups (Suc i) n rest of
                  (gs, is_v4, rest') \<Rightarrow> (g # gs, is_v4, rest'))))"

definition read_ipv6 :: "nat list reader" where
  "read_ipv6 s =
     (case read_groups 0 8 s of
        (head, head_ipv4, rest) \<Rightarrow>
          (if length head = 8 then Some (head, rest)
           else if head_ipv4 then None
           else (case read_given_char (CHR '':'') rest of
               None \<Rightarrow> None
             | Some (_, rest1) \<Rightarrow>
                 (case read_given_char (CHR '':'') rest1 of
                    None \<Rightarrow> None
                  | Some (_, rest2) \<Rightarrow>
                      (case read_groups 0 (8 - (length head + 1)) rest2 of
                         (rear, _, rest3) \<Rightarrow>
                           Some (head @ replicate (8 - length head - length rear) 0 @ rear, rest3))))))"

definition parse_ip_addr :: "string \<Rightarrow> ip_addr option" where
  "parse_ip_addr s =
     (case (case read_ipv4 s of
              Some (octets, rest) \<Rightarrow> Some (V4 octets, rest)
            | None \<Rightarrow> map_option (\<lambda>(groups, rest). (V6 groups, rest)) (read_ipv6 s)) of
        Some (ip, rest) \<Rightarrow> if rest = [] then Some ip else None
      | None \<Rightarrow> None)"

section \<open>Address classes\<close>

definition v4_is_loopback :: "nat list \<Rightarrow> bool" where
  "v4_is_loopback ip = (ip ! 0 = 127)"

definition v4_is_private :: "nat list \<Rightarrow> bool" where
  "v4_is_private ip =
     (ip ! 0 = 10 \<or> (ip ! 0 = 172 \<and> 16 \<le> ip ! 1 \<and> ip ! 1 \<le> 31) \<or> (ip ! 0 = 192 \<and> ip ! 1 = 168))"

definition v4_is_link_local :: "nat list \<Rightarrow> bool" where
  "v4_is_link_local ip = (ip ! 0 = 169 \<and> ip ! 1 = 254)"

definition v6_is_loopback :: "nat list \<Rightarrow> bool" where
  "v6_is_loopback ip = (ip = [0, 0, 0, 0, 0, 0, 0, 1])"

definition v6_is_unique_local :: "nat list \<Rightarrow> bool" where
  "v6_is_unique_local ip = (ip ! 0 div 512 = 0xfc00 div 512)"

definition v6_is_unicast_link_local :: "nat list \<Rightarrow> bool" where
  "v6_is_unicast_link_local ip = (ip ! 0 div 64 = 0xfe80 div 64)"

section \<open>Dotted quads\<close>

definition dotted_quad :: "nat \<Rightarrow> nat \<Rightarrow> nat \<Rightarrow> nat \<Rightarrow> string" where
  "dotted_quad a b c d = show_nat a @ ''.'' @ show_nat b @ ''.'' @ show_nat c @ ''.'' @ show_nat d"

lemma octet_digits:
  assumes "n < 256"
  shows "\<exists>ds. show_nat n = ds \<and> ds \<noteq> [] \<and> (hd ds = CHR ''0'' \<longrightarrow> length ds = 1)
    \<and> read_digits 10 256 3 0 0 ds = Some (n, length ds, [])"
proof -
  have "\<forall>n \<in> set [0..<256]. show_nat n \<noteq> [] \<and> (hd (show_nat n) = CHR ''0'' \<longrightarrow> length (show_nat n) = 1)
      \<and> read_digits 10 256 3 0 0 (show_nat n) = Some (n, length (show_nat n), [])"
    by code_simp
  then show ?thesis using assms by simp
qed

lemma read_digits_append:
  "read_digits radix limit k x n ds = Some (v, m, [])
    \<Longrightarrow> rest = [] \<or> to_digit radix (hd rest) = None
    \<Longrightarrow> read_digits radix limit k x n (ds @ rest) = Some (v, m, rest)"
  by (induction radix limit k x n ds rule: read_digits.induct)
    (cases rest, auto simp: Let_def split: option.splits if_splits)

lemma read_octet:
  assumes "n < 256" "rest = [] \<or> hd rest = CHR ''.''"
  shows "read_number 10 256 3 False (show_nat n @ rest) = Some (n, rest)"
proof -
  have dot: "to_digit 10 (CHR ''.'') = None" by code_simp
  obtain ds where ds: "show_nat n = ds" "ds \<noteq> []" "hd ds = CHR ''0'' \<longrightarrow> length ds = 1"
      "read_digits 10 256 3 0 0 ds = Some (n, length ds, [])"
    using octet_digits[OF assms(1)] by blast
  have "read_digits 10 256 3 0 0 (ds @ rest) = Some (n, length ds, rest)"
    using assms(2) dot by (intro read_digits_append ds(4)) auto
  then show ?thesis using ds by (auto simp: read_number_def)
qed

text \<open>Every IPv4 address is read back from its dotted quad.\<close>

lemma parse_dotted_quad:
  assumes "a < 256" "b < 256" "c < 256" "d < 256"
  shows "parse_ip_addr (dotted_quad a b c d) = Some (V4 [a, b, c, d])"
proof -
  have "read_ipv4 (dotted_quad a b c d) = Some ([a, b, c, d], [])"
    using read_octet[OF assms(1), of "''.'' @ show_nat b @ ''.'' @ show_nat c @ ''.'' @ show_nat d"]
      read_octet[OF assms(2), of "''.'' @ show_nat c @ ''.'' @ show_nat d"]
      read_octet[OF assms(3), of "''.'' @ show_nat d"] read_octet[OF assms(4), of "[]"]
    by (simp add: read_ipv4_def dotted_quad_def numeral_eq_Suc read_separator_def read_given_char_def)
  then show ?thesis by (simp add: parse_ip_addr_def)
qed

end
