(* ===== verification/AnthropicPool.thy ===== *)
theory AnthropicPool
  imports HashMapModel JsonValue Utf8 IpAddress
begin

text \<open>
  The channel pool of direct Anthropic upstreams (\<open>crates/llm-access-anthropic-pool/src/lib.rs\<close>):
  smooth weighted round robin over the channels, the usage of a response, and the check of a
  channel's base URL.  The URL parser is the \<open>url\<close> crate and an argument (\<open>url_ops\<close>); the
  address parser is the standard library's.
\<close>

section \<open>Smooth weighted round robin\<close>

record weighted_channel =
  wc_name :: string
  wc_weight :: nat

type_synonym smooth_weighted_round_robin = "(string \<times> int) list"

definition i128_min :: int where
  "i128_min = - (2 ^ 127)"

definition i128_max :: int where
  "i128_max = 2 ^ 127 - 1"

definition clamp_i128 :: "int \<Rightarrow> int" where
  "clamp_i128 x = max i128_min (min i128_max x)"

definition active_channels :: "weighted_channel list \<Rightarrow> weighted_channel list" where
  "active_channels channels = filter (\<lambda>c. 0 < wc_weight c) channels"

definition total_weight :: "weighted_channel list \<Rightarrow> int" where
  "total_weight channels = sum_list (map (\<lambda>c. int (wc_weight c)) (active_channels channels))"

text \<open>The loop over the channels: the weights, and the best channel so far with its weight.\<close>

fun select_loop ::
  "weighted_channel list \<Rightarrow> smooth_weighted_round_robin \<Rightarrow> weighted_channel option \<Rightarrow> int
     \<Rightarrow> smooth_weighted_round_robin \<times> weighted_channel option" where
  "select_loop [] s selected selected_weight = (s, selected)"
| "select_loop (c # cs) s selected selected_weight =
     (if wc_weight c = 0 then select_loop cs s selected selected_weight
      else (let current = (case map_of s (wc_name c) of Some w \<Rightarrow> w | None \<Rightarrow> 0);
                current' = clamp_i128 (current + int (wc_weight c));
                s' = hm_insert (wc_name c) current' s in
            if selected_weight < current' then select_loop cs s' (Some c) current'
            else select_loop cs s' selected selected_weight))"

definition wrr_select ::
  "smooth_weighted_round_robin \<Rightarrow> weighted_channel list \<Rightarrow> string option \<times> smooth_weighted_round_robin" where
  "wrr_select s channels =
     (let total = total_weight channels in
      if total \<le> 0 then (None, s)
      else (let names = set (map wc_name (active_channels channels));
                s1 = hm_retain (\<lambda>name _. name \<in> names) s in
            case select_loop channels s1 None i128_min of
              (s2, None) \<Rightarrow> (None, s2)
            | (s2, Some c) \<Rightarrow>
                (Some (wc_name c),
                 case map_of s2 (wc_name c) of
                   Some current \<Rightarrow> hm_insert (wc_name c) (clamp_i128 (current - total)) s2
                 | None \<Rightarrow> s2)))"

section \<open>Usage\<close>

record anthropic_usage_summary =
  us_input_uncached_tokens :: int
  us_input_cached_tokens :: int
  us_output_tokens :: int
  us_usage_missing :: bool

definition usage_missing_summary :: anthropic_usage_summary where
  "usage_missing_summary =
     \<lparr>us_input_uncached_tokens = 0, us_input_cached_tokens = 0, us_output_tokens = 0, us_usage_missing = True\<rparr>"

definition usage_i64 :: "json \<Rightarrow> string \<Rightarrow> int option" where
  "usage_i64 usage key = map_option (max 0) (Option.bind (json_get usage key) json_as_i64)"

definition parse_usage_from_value :: "json \<Rightarrow> anthropic_usage_summary" where
  "parse_usage_from_value value =
     (let usage = (case json_get value ''usage'' of
                     Some u \<Rightarrow> u
                   | None \<Rightarrow> (case Option.bind (json_get value ''message'') (\<lambda>message. json_get message ''usage'') of
                       Some u \<Rightarrow> u
                     | None \<Rightarrow> value));
          input = usage_i64 usage ''input_tokens'';
          cache_creation = usage_i64 usage ''cache_creation_input_tokens'';
          cache_read = usage_i64 usage ''cache_read_input_tokens'';
          output = usage_i64 usage ''output_tokens'' in
      if input = None \<and> cache_creation = None \<and> cache_read = None \<and> output = None
      then usage_missing_summary
      else \<lparr>us_input_uncached_tokens = sat_add_i64 (unwrap_or input 0) (unwrap_or cache_creation 0),
            us_input_cached_tokens = unwrap_or cache_read 0, us_output_tokens = unwrap_or output 0,
            us_usage_missing = False\<rparr>)"

definition merge_usage :: "anthropic_usage_summary \<Rightarrow> anthropic_usage_summary \<Rightarrow> anthropic_usage_summary" where
  "merge_usage previous nxt =
     (if us_usage_missing previous then nxt
      else if us_usage_missing nxt then previous
      else \<lparr>us_input_uncached_tokens =
              (if 0 < us_input_uncached_tokens nxt then us_input_uncached_tokens nxt
               else us_input_uncached_tokens previous),
            us_input_cached_tokens =
              (if 0 < us_input_cached_tokens nxt then us_input_cached_tokens nxt
               else us_input_cached_tokens previous),
            us_output_tokens =
              (if 0 < us_output_tokens nxt then us_output_tokens nxt else us_output_tokens previous),
            us_usage_missing = False\<rparr>)"

fun parse_model_ids :: "json list \<Rightarrow> string + string list" where
  "parse_model_ids [] = Inr []"
| "parse_model_ids (item # items) =
     (case map_option str_trim (Option.bind (json_get item ''id'') json_as_str) of
        None \<Rightarrow> Inl ''anthropic models response contains model without id''
      | Some model_id \<Rightarrow>
          (if model_id = [] then Inl ''anthropic models response contains model without id''
           else (case parse_model_ids items of
                   Inl e \<Rightarrow> Inl e
                 | Inr ids \<Rightarrow> Inr (model_id # ids))))"

text \<open>\<open>from_slice\<close> is the JSON parser.\<close>

definition parse_model_ids_from_models_response ::
  "('b \<Rightarrow> string + json) \<Rightarrow> 'b \<Rightarrow> string + string list" where
  "parse_model_ids_from_models_response from_slice body =
     (case from_slice body of
        Inl e \<Rightarrow> Inl e
      | Inr value \<Rightarrow>
          (case json_get value ''data'' of
             Some (JArray items) \<Rightarrow> parse_model_ids items
           | _ \<Rightarrow> Inl ''anthropic models response must contain data array''))"

section \<open>Endpoints\<close>

record 'u url_ops =
  url_parse :: "string \<Rightarrow> string + 'u"
  url_scheme :: "'u \<Rightarrow> string"
  url_host_str :: "'u \<Rightarrow> string option"
  url_to_string :: "'u \<Rightarrow> string"

definition is_private_or_loopback_ip :: "ip_addr \<Rightarrow> bool" where
  "is_private_or_loopback_ip ip =
     (case ip of
        V4 v4 \<Rightarrow> v4_is_loopback v4 \<or> v4_is_private v4 \<or> v4_is_link_local v4
          \<or> (v4 ! 0 = 169 \<and> v4 ! 1 = 254)
      | V6 v6 \<Rightarrow> v6_is_loopback v6 \<or> v6_is_unique_local v6 \<or> v6_is_unicast_link_local v6)"

definition trim_end_matches :: "char \<Rightarrow> string \<Rightarrow> string" where
  "trim_end_matches c s = rev (dropWhile ((=) c) (rev s))"

definition ends_with :: "string \<Rightarrow> string \<Rightarrow> bool" where
  "ends_with s t = (length t \<le> length s \<and> drop (length s - length t) s = t)"

text \<open>\<open>strip_prefix\<close> and \<open>strip_suffix\<close> of the brackets around an IPv6 host.\<close>

definition unbracketed :: "string \<Rightarrow> string" where
  "unbracketed s =
     (if s \<noteq> [] \<and> hd s = CHR ''['' \<and> tl s \<noteq> [] \<and> last (tl s) = CHR '']'' then butlast (tl s) else s)"

definition build_anthropic_endpoint_url :: "'u url_ops \<Rightarrow> string \<Rightarrow> string \<Rightarrow> string + string" where
  "build_anthropic_endpoint_url ops base_url endpoint =
     (let trimmed = trim_end_matches (CHR ''/'') (str_trim base_url) in
      if trimmed = [] then Inl ''anthropic upstream base_url is empty''
      else (case url_parse ops (trimmed @ ''/'' @ endpoint) of
          Inl e \<Rightarrow> Inl e
        | Inr url \<Rightarrow>
            (if url_scheme ops url \<noteq> ''https'' then Inl ''anthropic upstream base_url must use https''
             else (case url_host_str ops url of
                 None \<Rightarrow> Inl ''anthropic upstream base_url must include a host''
               | Some host \<Rightarrow>
                   (let normalized_host = to_ascii_lowercase (trim_end_matches (CHR ''.'') host) in
                    if normalized_host = ''localhost'' \<or> ends_with normalized_host ''.localhost''
                       \<or> normalized_host = ''metadata.google.internal''
                    then Inl ''anthropic upstream base_url host is not allowed''
                    else (case parse_ip_addr (unbracketed normalized_host) of
                        Some ip \<Rightarrow>
                          (if is_private_or_loopback_ip ip
                           then Inl ''anthropic upstream base_url host is not allowed''
                           else Inr (url_to_string ops url))
                      | None \<Rightarrow> Inr (url_to_string ops url)))))))"

definition build_messages_url :: "'u url_ops \<Rightarrow> string \<Rightarrow> string + string" where
  "build_messages_url ops base_url = build_anthropic_endpoint_url ops base_url ''messages''"

definition build_models_url :: "'u url_ops \<Rightarrow> string \<Rightarrow> string + string" where
  "build_models_url ops base_url = build_anthropic_endpoint_url ops base_url ''models''"

end
