(* ===== verification/AnthropicPoolProperties.thy ===== *)
theory AnthropicPoolProperties
  imports AnthropicPool
begin

text \<open>
  The guarantees of the channel pool: no channel is ever a whole pick ahead of its share, the
  usage of a response does not depend on how its chunks are grouped, and the endpoints that are
  accepted are not local.
\<close>

section \<open>One selection\<close>

definition current_weight :: "smooth_weighted_round_robin \<Rightarrow> weighted_channel \<Rightarrow> int" where
  "current_weight s c = (case map_of s (wc_name c) of Some w \<Rightarrow> w | None \<Rightarrow> 0)"

text \<open>No addition of the loop saturates.\<close>

definition no_saturation :: "weighted_channel list \<Rightarrow> smooth_weighted_round_robin \<Rightarrow> bool" where
  "no_saturation cs s =
     (\<forall>c \<in> set (active_channels cs). i128_min < current_weight s c + int (wc_weight c)
        \<and> current_weight s c + int (wc_weight c) \<le> i128_max)"

lemma active_Cons:
  "active_channels (c # cs) = (if wc_weight c = 0 then active_channels cs else c # active_channels cs)"
  by (simp add: active_channels_def)

lemma current_weight_insert:
  "current_weight (hm_insert k v s) c = (if wc_name c = k then v else current_weight s c)"
  by (simp add: current_weight_def)

lemma select_loop_frame:
  assumes "n \<notin> wc_name ` set (active_channels cs)"
  shows "map_of (fst (select_loop cs s sel w)) n = map_of s n"
  using assms by (induction cs s sel w rule: select_loop.induct) (auto simp: active_Cons Let_def)

lemma select_loop_ok: "hm_ok s \<Longrightarrow> hm_ok (fst (select_loop cs s sel w))"
  by (induction cs s sel w rule: select_loop.induct) (auto simp: Let_def)

lemma select_loop_active:
  "wc_weight c \<noteq> 0 \<Longrightarrow> clamp_i128 (current_weight s c + int (wc_weight c)) = x \<Longrightarrow>
    select_loop (c # cs) s sel w =
      (if w < x then select_loop cs (hm_insert (wc_name c) x s) (Some c) x
       else select_loop cs (hm_insert (wc_name c) x s) sel w)"
  by (simp add: Let_def current_weight_def)

definition best_channel :: "weighted_channel list \<Rightarrow> smooth_weighted_round_robin \<Rightarrow> int \<Rightarrow> weighted_channel \<Rightarrow> bool" where
  "best_channel cs s w b =
     (b \<in> set (active_channels cs) \<and> w < current_weight s b + int (wc_weight b)
      \<and> (\<forall>c \<in> set (active_channels cs).
           current_weight s c + int (wc_weight c) \<le> current_weight s b + int (wc_weight b)))"

lemma select_loop_best:
  assumes "distinct (map wc_name (active_channels cs))" "no_saturation cs s"
    and "select_loop cs s sel w = (s', sel')"
  shows "(\<forall>c \<in> set (active_channels cs).
        map_of s' (wc_name c) = Some (current_weight s c + int (wc_weight c)))
    \<and> ((sel' = sel \<and> (\<forall>c \<in> set (active_channels cs). current_weight s c + int (wc_weight c) \<le> w))
      \<or> (\<exists>b. sel' = Some b \<and> best_channel cs s w b))"
  using assms
proof (induction cs arbitrary: s sel w)
  case (Cons c cs)
  show ?case
  proof (cases "wc_weight c = 0")
    case True
    then show ?thesis using Cons by (simp add: active_Cons no_saturation_def best_channel_def)
  next
    case False
    let ?w = "current_weight s c + int (wc_weight c)"
    let ?s = "hm_insert (wc_name c) ?w s"
    have sat: "clamp_i128 ?w = ?w"
      using Cons.prems(2) False by (simp add: no_saturation_def active_Cons clamp_i128_def)
    have other: "current_weight ?s d = current_weight s d" if "d \<in> set (active_channels cs)" for d
    proof -
      have "wc_name d \<noteq> wc_name c"
        using Cons.prems(1) False imageI[OF that, of wc_name] by (auto simp: active_Cons)
      then show ?thesis by (simp add: current_weight_insert)
    qed
    then have prems: "distinct (map wc_name (active_channels cs))" "no_saturation cs ?s"
      using Cons.prems(1,2) False by (simp_all add: active_Cons no_saturation_def)
    have here: "map_of s' (wc_name c) = Some ?w"
      if "select_loop cs ?s sel0 w0 = (s', sel')" for sel0 w0
      using select_loop_frame[of "wc_name c" cs ?s sel0 w0] that Cons.prems(1) False
      by (simp add: active_Cons)
    have run: "(if w < ?w then select_loop cs ?s (Some c) ?w else select_loop cs ?s sel w) = (s', sel')"
      using Cons.prems(3) False sat select_loop_active by simp
    have best: "best_channel (c # cs) s w b" if "best_channel cs ?s w' b" "w \<le> w'" "?w \<le> w'" for b w'
      using that other False by (auto simp: best_channel_def active_Cons)
    show ?thesis
    proof (cases "w < ?w")
      case True
      have "select_loop cs ?s (Some c) ?w = (s', sel')" using run True by simp
      note this here[OF this] Cons.IH[OF prems this]
      then show ?thesis using True False other best[of ?w]
        by (auto simp: active_Cons best_channel_def)
    next
      case False': False
      have "select_loop cs ?s sel w = (s', sel')" using run False' by simp
      note this here[OF this] Cons.IH[OF prems this]
      then show ?thesis using False' False other best[of w] by (auto simp: active_Cons)
    qed
  qed
qed (simp add: active_channels_def)

lemma set_active: "c \<in> set (active_channels cs) \<longleftrightarrow> c \<in> set cs \<and> 0 < wc_weight c"
  by (simp add: active_channels_def)

section \<open>A balanced state\<close>

text \<open>
  The weights of the active channels sum up to zero and none is a whole round behind: then every
  sum of the loop stays within the range of its type.
\<close>

definition balanced :: "weighted_channel list \<Rightarrow> smooth_weighted_round_robin \<Rightarrow> bool" where
  "balanced cs s =
     (hm_ok s \<and> (\<Sum>c \<in> set (active_channels cs). current_weight s c) = 0
      \<and> (\<forall>c \<in> set (active_channels cs). - total_weight cs < current_weight s c))"

lemma balanced_above: "balanced cs s \<Longrightarrow> c \<in> set (active_channels cs) \<Longrightarrow> - total_weight cs < current_weight s c"
  by (simp add: balanced_def)

definition schedulable :: "weighted_channel list \<Rightarrow> bool" where
  "schedulable cs =
     (distinct (map wc_name cs) \<and> length cs \<le> 2 ^ 31 \<and> (\<forall>c \<in> set cs. wc_weight c \<le> u64_max)
      \<and> (\<exists>c \<in> set cs. 0 < wc_weight c))"

lemma schedulable_active:
  assumes "schedulable cs"
  shows "distinct (map wc_name (active_channels cs))" "distinct (active_channels cs)"
    "length (active_channels cs) \<le> 2 ^ 31" "active_channels cs \<noteq> []"
proof -
  show names: "distinct (map wc_name (active_channels cs))"
    using assms by (simp add: schedulable_def active_channels_def distinct_map_filter)
  then show "distinct (active_channels cs)" by (simp add: distinct_map)
  show "length (active_channels cs) \<le> 2 ^ 31"
    using assms length_filter_le[of "\<lambda>c. 0 < wc_weight c" cs] unfolding schedulable_def active_channels_def
    by linarith
  show "active_channels cs \<noteq> []"
    using assms by (auto simp: schedulable_def active_channels_def filter_empty_conv)
qed

lemma total_weight_sum:
  "schedulable cs \<Longrightarrow> total_weight cs = (\<Sum>c \<in> set (active_channels cs). int (wc_weight c))"
  using schedulable_active(2) by (simp add: total_weight_def sum_list_distinct_conv_sum_set)

lemma total_weight_bounds:
  assumes "schedulable cs"
  shows "0 < total_weight cs" "int (length (active_channels cs)) * total_weight cs \<le> 2 ^ 126"
    "c \<in> set (active_channels cs) \<Longrightarrow> int (wc_weight c) \<le> total_weight cs"
proof -
  let ?A = "set (active_channels cs)"
  let ?n = "int (length (active_channels cs))"
  note total = total_weight_sum[OF assms]
  show one: "int (wc_weight c) \<le> total_weight cs" if "c \<in> ?A" for c
    unfolding total using that by (intro member_le_sum) auto
  obtain d where "d \<in> ?A" using schedulable_active(4)[OF assms] by (cases "active_channels cs") auto
  then show "0 < total_weight cs" using one[of d] by (simp add: set_active)
  have card: "int (card ?A) = ?n" using schedulable_active(2)[OF assms] by (simp add: distinct_card)
  have "int (wc_weight c) \<le> 2 ^ 64" if "c \<in> ?A" for c
  proof -
    have "wc_weight c \<le> u64_max" using assms that by (simp add: schedulable_def set_active)
    then show ?thesis by (simp add: u64_max_def)
  qed
  then have le: "total_weight cs \<le> ?n * 2 ^ 64"
    unfolding total card[symmetric] by (intro sum_bounded_above) simp
  have n: "0 \<le> ?n" "?n \<le> 2 ^ 31" using schedulable_active(3)[OF assms] by simp_all
  have "?n * total_weight cs \<le> ?n * (?n * 2 ^ 64)" using le n(1) by (rule mult_left_mono)
  also have "\<dots> \<le> 2 ^ 31 * (2 ^ 31 * 2 ^ 64)" using n by (intro mult_mono) auto
  finally show "?n * total_weight cs \<le> 2 ^ 126" by simp
qed

lemma balanced_no_saturation:
  assumes "schedulable cs" "balanced cs s"
  shows "no_saturation cs s"
    and "c \<in> set (active_channels cs) \<Longrightarrow>
      i128_min \<le> current_weight s c + int (wc_weight c) - total_weight cs
      \<and> current_weight s c + int (wc_weight c) - total_weight cs \<le> i128_max"
proof -
  let ?A = "set (active_channels cs)"
  let ?n = "int (length (active_channels cs))"
  note bounds = total_weight_bounds[OF assms(1)]
  have n: "?n = int (card ?A)" using schedulable_active(2)[OF assms(1)] by (simp add: distinct_card)
  have range: "- total_weight cs < current_weight s c \<and> current_weight s c \<le> (?n - 1) * total_weight cs"
    if c: "c \<in> ?A" for c
  proof -
    have "0 = current_weight s c + (\<Sum>d \<in> ?A - {c}. current_weight s d)"
      using assms(2) c by (simp add: balanced_def sum.remove)
    moreover have "(\<Sum>d \<in> ?A - {c}. - total_weight cs) \<le> (\<Sum>d \<in> ?A - {c}. current_weight s d)"
      using assms(2) by (intro sum_mono) (auto simp: balanced_def intro: less_imp_le)
    moreover have "(\<Sum>d \<in> ?A - {c}. - total_weight cs) = - ((?n - 1) * total_weight cs)"
    proof -
      have "0 < card ?A" using c by (metis List.finite_set card_gt_0_iff empty_iff)
      then show ?thesis using c by (simp add: n card_Diff_singleton of_nat_diff)
    qed
    ultimately show ?thesis using assms(2) c by (auto simp: balanced_def)
  qed
  have le: "(?n - 1) * total_weight cs + total_weight cs \<le> 2 ^ 126" using bounds(2) by (simp add: algebra_simps)
  have "total_weight cs \<le> 2 ^ 126"
  proof -
    have "1 \<le> ?n" using schedulable_active(4)[OF assms(1)] by (cases "active_channels cs") auto
    then have "1 * total_weight cs \<le> ?n * total_weight cs" using bounds(1) by (intro mult_right_mono) auto
    then show ?thesis using bounds(2) by linarith
  qed
  have *: "- (2 ^ 126) < current_weight s c + int (wc_weight c)
      \<and> current_weight s c + int (wc_weight c) \<le> 2 ^ 126" if "c \<in> ?A" for c
    using range[OF that] bounds(3)[OF that] le \<open>total_weight cs \<le> 2 ^ 126\<close> by linarith
  show "no_saturation cs s"
    unfolding no_saturation_def
  proof
    fix c assume "c \<in> ?A"
    show "i128_min < current_weight s c + int (wc_weight c) \<and> current_weight s c + int (wc_weight c) \<le> i128_max"
      using *[OF \<open>c \<in> ?A\<close>] by (simp add: i128_min_def i128_max_def)
  qed
  show "i128_min \<le> current_weight s c + int (wc_weight c) - total_weight cs
      \<and> current_weight s c + int (wc_weight c) - total_weight cs \<le> i128_max" if "c \<in> ?A"
    using *[OF that] \<open>total_weight cs \<le> 2 ^ 126\<close> bounds(1) by (simp add: i128_min_def i128_max_def)
qed

section \<open>The run of a scheduler\<close>

lemma wrr_select_step:
  assumes "schedulable cs" "balanced cs s" "wrr_select s cs = (picked, s')"
  shows "\<exists>b \<in> set (active_channels cs). picked = Some (wc_name b) \<and> balanced cs s'
    \<and> (\<forall>c \<in> set (active_channels cs). current_weight s' c =
        current_weight s c + int (wc_weight c) - (if c = b then total_weight cs else 0))"
proof -
  let ?A = "set (active_channels cs)"
  let ?T = "total_weight cs"
  note names = schedulable_active(1)[OF assms(1)]
  define s1 where "s1 = hm_retain (\<lambda>name _. name \<in> set (map wc_name (active_channels cs))) s"
  have ok: "hm_ok s" using assms(2) by (simp add: balanced_def)
  have kept: "current_weight s1 c = current_weight s c" if "c \<in> ?A" for c
    using that by (auto simp: s1_def current_weight_def hm_get_retain[OF ok] split: option.split)
  then have "(\<Sum>c \<in> ?A. current_weight s1 c) = (\<Sum>c \<in> ?A. current_weight s c)" by (intro sum.cong) auto
  moreover have "hm_ok s1" using ok by (simp add: s1_def)
  ultimately have bal1: "balanced cs s1" using assms(2) kept by (auto simp: balanced_def)
  note sat = balanced_no_saturation[OF assms(1) bal1]
  obtain s2 sel where loop: "select_loop cs s1 None i128_min = (s2, sel)" by fastforce
  note best = select_loop_best[OF names sat(1) loop]
  obtain d where d: "d \<in> ?A" using schedulable_active(4)[OF assms(1)] by (cases "active_channels cs") auto
  then have "i128_min < current_weight s1 d + int (wc_weight d)"
    using sat(1) unfolding no_saturation_def by blast
  then obtain b where b: "sel = Some b" "best_channel cs s1 i128_min b"
    using best d by fastforce
  then have bA: "b \<in> ?A" by (simp add: best_channel_def)
  have s2: "map_of s2 (wc_name c) = Some (current_weight s c + int (wc_weight c))" if "c \<in> ?A" for c
    using best kept[OF that] that by metis
  let ?wb = "current_weight s b + int (wc_weight b)"
  have clamp: "clamp_i128 (?wb - ?T) = ?wb - ?T"
    using sat(2)[OF bA] kept[OF bA] by (simp add: clamp_i128_def)
  have run: "picked = Some (wc_name b)" "s' = hm_insert (wc_name b) (?wb - ?T) s2"
    using assms(3) loop b(1) s2[OF bA] clamp total_weight_bounds(1)[OF assms(1)]
    by (simp_all add: wrr_select_def Let_def s1_def)
  have new: "current_weight s' c = current_weight s c + int (wc_weight c) - (if c = b then ?T else 0)"
    if "c \<in> ?A" for c
  proof -
    have "wc_name c = wc_name b \<longleftrightarrow> c = b"
      using names that bA by (auto simp: distinct_map dest: inj_onD)
    then show ?thesis using s2[OF that] by (simp add: run current_weight_insert) (simp add: current_weight_def)
  qed
  have "(\<Sum>c \<in> ?A. current_weight s c + int (wc_weight c)) = ?T"
    using assms(2) total_weight_sum[OF assms(1)] by (simp add: balanced_def sum.distrib)
  moreover have "(\<Sum>c \<in> ?A. current_weight s' c) = (\<Sum>c \<in> ?A. current_weight s c + int (wc_weight c)
      - (if c = b then ?T else 0))"
    using new by (intro sum.cong) auto
  ultimately have sum: "(\<Sum>c \<in> ?A. current_weight s' c) = 0"
    using bA by (simp add: sum_subtractf sum.delta)
  have "0 < ?wb"
  proof (rule ccontr)
    assume neg: "\<not> 0 < ?wb"
    have nonpos: "(\<Sum>c \<in> ?A. current_weight s c + int (wc_weight c)) \<le> 0"
    proof (rule sum_nonpos)
      fix c assume c: "c \<in> ?A"
      have "current_weight s1 c + int (wc_weight c) \<le> current_weight s1 b + int (wc_weight b)"
        using b(2) c unfolding best_channel_def by blast
      then show "current_weight s c + int (wc_weight c) \<le> 0"
        using kept[OF c] kept[OF bA] neg by linarith
    qed
    have "(\<Sum>c \<in> ?A. current_weight s c + int (wc_weight c)) = ?T"
      using assms(2) total_weight_sum[OF assms(1)] by (simp add: balanced_def sum.distrib)
    with nonpos show False using total_weight_bounds(1)[OF assms(1)] by linarith
  qed
  have "\<forall>c \<in> ?A. - ?T < current_weight s' c"
  proof
    fix c assume c: "c \<in> ?A"
    show "- ?T < current_weight s' c"
      using new[OF c] balanced_above[OF assms(2) c] \<open>0 < ?wb\<close> by (cases "c = b") auto
  qed
  moreover have "hm_ok s'"
    using ok select_loop_ok[of s1 cs None i128_min] loop by (simp add: run s1_def)
  ultimately have "balanced cs s'" using sum by (simp add: balanced_def)
  then show ?thesis using run(1) bA new by blast
qed

text \<open>The picks of \<open>k\<close> selections, and the state after them.\<close>

fun wrr_run :: "nat \<Rightarrow> smooth_weighted_round_robin \<Rightarrow> weighted_channel list
    \<Rightarrow> string option list \<times> smooth_weighted_round_robin" where
  "wrr_run 0 s channels = ([], s)"
| "wrr_run (Suc k) s channels =
     (case wrr_run k s channels of (picks, s1) \<Rightarrow>
      case wrr_select s1 channels of (picked, s2) \<Rightarrow> (picks @ [picked], s2))"

lemma wrr_run_balance:
  assumes "schedulable cs" "wrr_run k [] cs = (picks, s)"
  shows "balanced cs s \<and> (\<forall>c \<in> set (active_channels cs). current_weight s c =
      int k * int (wc_weight c) - int (count_list picks (Some (wc_name c))) * total_weight cs)"
  using assms(2)
proof (induction k arbitrary: picks s)
  case 0
  then show ?case using total_weight_bounds(1)[OF assms(1)] by (simp add: balanced_def current_weight_def)
next
  case (Suc k)
  obtain picks1 s1 picked where run: "wrr_run k [] cs = (picks1, s1)"
      "wrr_select s1 cs = (picked, s)" "picks = picks1 @ [picked]"
    using Suc.prems by (auto split: prod.splits)
  note IH = Suc.IH[OF run(1)]
  obtain b where b: "b \<in> set (active_channels cs)" "picked = Some (wc_name b)" "balanced cs s"
      "\<forall>c \<in> set (active_channels cs). current_weight s c =
        current_weight s1 c + int (wc_weight c) - (if c = b then total_weight cs else 0)"
    using wrr_select_step[OF assms(1) conjunct1[OF IH] run(2)] by blast
  have "current_weight s c = int (Suc k) * int (wc_weight c)
      - int (count_list picks (Some (wc_name c))) * total_weight cs" if c: "c \<in> set (active_channels cs)" for c
  proof -
    have "wc_name c = wc_name b \<longleftrightarrow> c = b"
      using schedulable_active(1)[OF assms(1)] c b(1) by (auto simp: distinct_map dest: inj_onD)
    then show ?thesis
      using conjunct2[OF IH, rule_format, OF c] b(4)[rule_format, OF c]
      by (cases "c = b") (auto simp: run(3) b(2) algebra_simps)
  qed
  then show ?case using b(3) by blast
qed

lemma wrr_run_share:
  assumes "schedulable cs" "c \<in> set (active_channels cs)"
  shows "int (count_list (fst (wrr_run k [] cs)) (Some (wc_name c))) * total_weight cs
      < int k * int (wc_weight c) + total_weight cs"
proof -
  obtain picks s where run: "wrr_run k [] cs = (picks, s)" by fastforce
  have "- total_weight cs < current_weight s c"
    using balanced_above wrr_run_balance[OF assms(1) run] assms(2) by blast
  moreover have "current_weight s c =
      int k * int (wc_weight c) - int (count_list picks (Some (wc_name c))) * total_weight cs"
    using wrr_run_balance[OF assms(1) run] assms(2) by simp
  ultimately show ?thesis by (simp add: run)
qed

lemma wrr_run_exact:
  assumes "schedulable cs" "c \<in> set (active_channels cs)"
  shows "count_list (fst (wrr_run (m * nat (total_weight cs)) [] cs)) (Some (wc_name c)) = m * wc_weight c"
proof -
  let ?T = "total_weight cs" and ?A = "set (active_channels cs)" and ?k = "m * nat (total_weight cs)"
  obtain picks s where run: "wrr_run ?k [] cs = (picks, s)" by fastforce
  note balance = wrr_run_balance[OF assms(1) run]
  have T: "0 < ?T" using total_weight_bounds(1)[OF assms(1)] .
  define n :: "weighted_channel \<Rightarrow> int" where "n d = int m * int (wc_weight d) - int (count_list picks (Some (wc_name d)))" for d
  have weight: "current_weight s d = ?T * n d" if "d \<in> ?A" for d
    using balance that T by (simp add: n_def algebra_simps)
  have nonneg: "0 \<le> n d" if d: "d \<in> ?A" for d
  proof -
    have "?T * (- 1) < ?T * n d"
      using balanced_above[OF conjunct1[OF balance] d] weight[OF d] by simp
    then have "- 1 < n d" by (rule mult_left_less_imp_less) (use T in simp)
    then show ?thesis by simp
  qed
  have "(\<Sum>d \<in> ?A. current_weight s d) = (\<Sum>d \<in> ?A. ?T * n d)" using weight by (rule sum.cong[OF refl])
  then have "?T * (\<Sum>d \<in> ?A. n d) = 0"
    using conjunct1[OF balance] by (simp add: balanced_def sum_distrib_left)
  then have "(\<Sum>d \<in> ?A. n d) = 0" using T by simp
  then have "n c = 0"
    using nonneg assms(2) by (subst (asm) sum_nonneg_eq_0_iff) auto
  then have "int (count_list picks (Some (wc_name c))) = int (m * wc_weight c)" by (simp add: n_def)
  then show ?thesis unfolding run fst_conv of_nat_eq_iff .
qed

section \<open>The guarantees\<close>

text \<open>C31.  The round robin is fair and smooth.  Over channels with distinct names, from a fresh
  scheduler, \<open>k\<close> selections never give a channel a whole pick more than its share of \<open>k\<close> by
  weight, and \<open>m\<close> full rounds (as many selections as the weights sum up to) give every channel
  exactly \<open>m\<close> times its weight.  A channel of weight zero is never selected.\<close>

theorem round_robin_is_fair:
  assumes "schedulable channels" "c \<in> set channels"
  shows "int (count_list (fst (wrr_run k [] channels)) (Some (wc_name c))) * total_weight channels
      < int k * int (wc_weight c) + total_weight channels
    \<and> count_list (fst (wrr_run (m * nat (total_weight channels)) [] channels)) (Some (wc_name c))
      = m * wc_weight c"
proof -
  have zero: "count_list (fst (wrr_run j [] channels)) (Some (wc_name c)) = 0" if "wc_weight c = 0" for j
  proof (induction j)
    case (Suc j)
    obtain picks s picked s' where run: "wrr_run j [] channels = (picks, s)" "wrr_select s channels = (picked, s')"
      by fastforce
    obtain b where "b \<in> set (active_channels channels)" "picked = Some (wc_name b)"
      using wrr_select_step[OF assms(1) _ run(2)] wrr_run_balance[OF assms(1) run(1)] by blast
    moreover from this have "wc_name b \<noteq> wc_name c"
      using assms that by (auto simp: schedulable_def set_active distinct_map dest: inj_onD)
    ultimately show ?case using Suc run by simp
  qed simp
  have "int (count_list (fst (wrr_run k [] channels)) (Some (wc_name c))) * total_weight channels
      < int k * int (wc_weight c) + total_weight channels"
    using wrr_run_share[OF assms(1), of c k] zero[of k] total_weight_bounds(1)[OF assms(1)] assms(2)
    by (cases "wc_weight c = 0") (auto simp: set_active)
  moreover have "count_list (fst (wrr_run (m * nat (total_weight channels)) [] channels)) (Some (wc_name c))
      = m * wc_weight c"
    using wrr_run_exact[OF assms(1), of c m] zero[of "m * nat (total_weight channels)"] assms(2)
    by (cases "wc_weight c = 0") (auto simp: set_active)
  ultimately show ?thesis by blast
qed

lemma round_robin_is_fair_witness:
  "count_list (fst (wrr_run 8 [] [\<lparr>wc_name = ''alpha'', wc_weight = 3\<rparr>, \<lparr>wc_name = ''beta'', wc_weight = 1\<rparr>,
     \<lparr>wc_name = ''zero'', wc_weight = 0\<rparr>])) (Some ''alpha'') = 6"
proof -
  let ?cs = "[\<lparr>wc_name = ''alpha'', wc_weight = 3\<rparr>, \<lparr>wc_name = ''beta'', wc_weight = 1\<rparr>,
     \<lparr>wc_name = ''zero'', wc_weight = 0\<rparr>]"
  have total: "total_weight ?cs = 4" by (simp add: total_weight_def active_channels_def)
  have "schedulable ?cs" by (simp add: schedulable_def u64_max_def)
  from round_robin_is_fair[OF this, of "hd ?cs" 0 2] show ?thesis unfolding total by simp
qed

text \<open>The usage of a response is well defined: merging the observations of its chunks is
  associative, and a chunk without usage changes nothing, so that neither the grouping of the
  chunks nor the chunks without usage matter.\<close>

theorem merge_usage_monoid:
  "merge_usage (merge_usage a b) c = merge_usage a (merge_usage b c)
    \<and> merge_usage usage_missing_summary a = a
    \<and> merge_usage a usage_missing_summary = (if us_usage_missing a then usage_missing_summary else a)"
  by (cases "us_usage_missing a") (simp_all add: merge_usage_def usage_missing_summary_def)

text \<open>A dotted quad is not changed by the normalisation of the host.\<close>

lemma dotted_quad_chars:
  assumes "c \<in> set (dotted_quad w x y z)"
  shows "is_ascii_digit c \<or> c = CHR ''.''"
  using assms show_nat_digits by (auto simp: dotted_quad_def list_all_iff)

lemma dotted_quad_ends: "dotted_quad w x y z \<noteq> []" "is_ascii_digit (last (dotted_quad w x y z))"
proof -
  have "is_ascii_digit (last (show_nat z))"
    using show_nat_digits[of z] last_in_set[OF show_nat_nonempty[of z]] by (simp add: list_all_iff)
  then show "is_ascii_digit (last (dotted_quad w x y z))" by (simp add: dotted_quad_def)
qed (simp add: dotted_quad_def)

lemma dotted_quad_normalised:
  "to_ascii_lowercase (trim_end_matches (CHR ''.'') (dotted_quad w x y z @ replicate n (CHR ''.'')))
    = dotted_quad w x y z"
  "unbracketed (dotted_quad w x y z) = dotted_quad w x y z"
  "dotted_quad w x y z \<noteq> ''localhost''" "dotted_quad w x y z \<noteq> ''metadata.google.internal''"
  "\<not> ends_with (dotted_quad w x y z) ''.localhost''"
proof -
  let ?q = "dotted_quad w x y z"
  have digit: "is_ascii_digit (last ?q)" "?q \<noteq> []" using dotted_quad_ends by auto
  have no_dot: "last ?q \<noteq> CHR ''.''" using digit(1) by (auto simp: is_ascii_digit_def)
  have "dropWhile ((=) (CHR ''.'')) (rev ?q) = rev ?q"
    using no_dot digit(2) by (cases "rev ?q") (auto simp: last_rev hd_rev[symmetric])
  moreover have "dropWhile ((=) c) (replicate n c @ xs) = dropWhile ((=) c) xs" for c :: char and xs
    by (induction n) auto
  ultimately have "trim_end_matches (CHR ''.'') (?q @ replicate n (CHR ''.'')) = ?q"
    by (simp add: trim_end_matches_def)
  moreover have "to_ascii_lowercase ?q = ?q"
    unfolding to_ascii_lowercase_def
    by (rule map_idI) (use dotted_quad_chars in \<open>fastforce simp: is_ascii_digit_def\<close>)
  ultimately show "to_ascii_lowercase (trim_end_matches (CHR ''.'') (?q @ replicate n (CHR ''.''))) = ?q" by simp
  show "unbracketed ?q = ?q"
    using dotted_quad_chars[of "hd ?q" w x y z] digit(2) by (auto simp: unbracketed_def is_ascii_digit_def)
  show "?q \<noteq> ''localhost''" "?q \<noteq> ''metadata.google.internal''"
    using digit(1) by (auto simp: is_ascii_digit_def)
  show "\<not> ends_with ?q ''.localhost''"
  proof
    assume "ends_with ?q ''.localhost''"
    then obtain n where "drop n ?q = ''.localhost''" unfolding ends_with_def by blast
    then have "?q = take n ?q @ ''.localhost''" by (metis append_take_drop_id)
    then have "last ?q = CHR ''t''" by (metis last_append last.simps list.distinct(1))
    then show False using digit(1) by (simp add: is_ascii_digit_def)
  qed
qed

text \<open>C33.  Which IPv4 hosts a channel may have: an HTTPS URL whose host is the address
  \<open>a.b.c.d\<close> (with any number of dots behind) is refused exactly in the loopback, private and
  link-local ranges.  (Other local addresses, such as 0.0.0.0, are accepted.)\<close>

theorem ipv4_endpoint_policy:
  assumes "trim_end_matches (CHR ''/'') (str_trim base_url) \<noteq> []"
    and "url_parse ops (trim_end_matches (CHR ''/'') (str_trim base_url) @ ''/'' @ endpoint) = Inr url"
    and "url_scheme ops url = ''https''"
    and "url_host_str ops url = Some (dotted_quad a b c d @ replicate n (CHR ''.''))"
    and "a < 256" "b < 256" "c < 256" "d < 256"
  shows "isl (build_anthropic_endpoint_url ops base_url endpoint) \<longleftrightarrow>
      a = 127 \<or> a = 10 \<or> (a = 172 \<and> 16 \<le> b \<and> b \<le> 31) \<or> (a = 192 \<and> b = 168) \<or> (a = 169 \<and> b = 254)"
proof -
  have "isl (build_anthropic_endpoint_url ops base_url endpoint) \<longleftrightarrow> is_private_or_loopback_ip (V4 [a, b, c, d])"
    using assms(1-4) parse_dotted_quad[OF assms(5-8)]
    by (simp add: build_anthropic_endpoint_url_def Let_def dotted_quad_normalised)
  also have "\<dots> \<longleftrightarrow> a = 127 \<or> a = 10 \<or> (a = 172 \<and> 16 \<le> b \<and> b \<le> 31) \<or> (a = 192 \<and> b = 168) \<or> (a = 169 \<and> b = 254)"
    by (auto simp: is_private_or_loopback_ip_def v4_is_loopback_def v4_is_private_def v4_is_link_local_def)
  finally show ?thesis .
qed

lemma ipv4_endpoint_policy_witness:
  "\<exists>ops :: string url_ops. isl (build_anthropic_endpoint_url ops ''base'' ''messages'')"
proof -
  let ?ops = "\<lparr>url_parse = Inr, url_scheme = (\<lambda>u. ''https''),
    url_host_str = (\<lambda>u. Some (dotted_quad 10 0 0 1 @ replicate 1 (CHR ''.''))), url_to_string = (\<lambda>u. u)\<rparr>"
  have "trim_end_matches (CHR ''/'') (str_trim ''base'') \<noteq> []" by code_simp
  then have "isl (build_anthropic_endpoint_url ?ops ''base'' ''messages'')"
    using ipv4_endpoint_policy[of "''base''" ?ops "''messages''" _ 10 0 0 1 1] by simp
  then show ?thesis by blast
qed

end
