(* ===== verification/Activity.thy ===== *)
theory Activity
  imports HashMapModel
begin

text \<open>
  The request activity of the service (\<open>crates/llm-access/src/activity.rs\<close>): requests in
  flight and requests per minute, in total and per key, over a ring of sixty one-second
  buckets.  Counters are \<open>u32\<close>.
\<close>

record request_activity_snapshot =
  snap_rpm :: nat
  snap_in_flight :: nat

record sliding_second_bucket =
  tick_sec :: nat
  bucket_count :: nat

type_synonym sliding_second_window = "sliding_second_bucket list"

definition u32_max :: nat where
  "u32_max = 2 ^ 32 - 1"

definition sat_add_u32 :: "nat \<Rightarrow> nat \<Rightarrow> nat" where
  "sat_add_u32 a b = min (a + b) u32_max"

definition window_default :: sliding_second_window where
  "window_default = replicate 60 \<lparr>tick_sec = 0, bucket_count = 0\<rparr>"

definition record_at :: "sliding_second_window \<Rightarrow> nat \<Rightarrow> sliding_second_window" where
  "record_at window tick =
     (let idx = tick mod length window;
          bucket = window ! idx;
          bucket' = (if tick_sec bucket \<noteq> tick then \<lparr>tick_sec = tick, bucket_count = 0\<rparr> else bucket) in
      window[idx := bucket'\<lparr>bucket_count := sat_add_u32 (bucket_count bucket') 1\<rparr>])"

text \<open>\<open>Sum\<close> of \<open>u32\<close> wraps around in a release build.\<close>

definition rpm_at :: "sliding_second_window \<Rightarrow> nat \<Rightarrow> nat" where
  "rpm_at window now_sec =
     sum_list (map bucket_count
       (filter (\<lambda>bucket. 0 < bucket_count bucket \<and> now_sec - tick_sec bucket < 60) window)) mod 2 ^ 32"

record activity_state =
  act_in_flight :: nat
  act_rpm_window :: sliding_second_window

definition activity_state_default :: activity_state where
  "activity_state_default = \<lparr>act_in_flight = 0, act_rpm_window = window_default\<rparr>"

definition activity_record_start :: "activity_state \<Rightarrow> nat \<Rightarrow> activity_state" where
  "activity_record_start state tick =
     state\<lparr>act_in_flight := sat_add_u32 (act_in_flight state) 1,
           act_rpm_window := record_at (act_rpm_window state) tick\<rparr>"

definition activity_finish :: "activity_state \<Rightarrow> activity_state" where
  "activity_finish state = state\<lparr>act_in_flight := act_in_flight state - 1\<rparr>"

definition activity_snapshot :: "activity_state \<Rightarrow> nat \<Rightarrow> request_activity_snapshot" where
  "activity_snapshot state now_sec =
     \<lparr>snap_rpm = rpm_at (act_rpm_window state) now_sec, snap_in_flight = act_in_flight state\<rparr>"

record request_activity =
  ra_total :: activity_state
  ra_per_key :: "(string \<times> activity_state) list"

definition request_activity_default :: request_activity where
  "request_activity_default = \<lparr>ra_total = activity_state_default, ra_per_key = []\<rparr>"

definition tracker_snapshot_at :: "request_activity \<Rightarrow> string option \<Rightarrow> nat \<Rightarrow> request_activity_snapshot" where
  "tracker_snapshot_at inner key_id tick =
     (case key_id of
        Some key \<Rightarrow>
          (case map_of (ra_per_key inner) key of
             Some state \<Rightarrow> activity_snapshot state tick
           | None \<Rightarrow> \<lparr>snap_rpm = 0, snap_in_flight = 0\<rparr>)
      | None \<Rightarrow> activity_snapshot (ra_total inner) tick)"

definition tracker_finish :: "request_activity \<Rightarrow> string \<Rightarrow> request_activity" where
  "tracker_finish inner key =
     inner\<lparr>ra_total := activity_finish (ra_total inner),
           ra_per_key := (case map_of (ra_per_key inner) key of
               Some state \<Rightarrow> hm_insert key (activity_finish state) (ra_per_key inner)
             | None \<Rightarrow> ra_per_key inner)\<rparr>"

definition tracker_start_at :: "request_activity \<Rightarrow> string \<Rightarrow> nat \<Rightarrow> request_activity" where
  "tracker_start_at inner key tick =
     inner\<lparr>ra_total := activity_record_start (ra_total inner) tick,
           ra_per_key := hm_insert key
             (activity_record_start
               (case map_of (ra_per_key inner) key of Some state \<Rightarrow> state | None \<Rightarrow> activity_state_default) tick)
             (ra_per_key inner)\<rparr>"

section \<open>The window against the past ticks\<close>

text \<open>
  Over non-decreasing ticks (given with the last one first) bucket \<open>i\<close> belongs to the last tick
  that fell into it, and counts how often that one occurred.
\<close>

definition bucket_for :: "nat list \<Rightarrow> nat \<Rightarrow> sliding_second_bucket" where
  "bucket_for ticks i =
     (case filter (\<lambda>t. t mod 60 = i) ticks of
        [] \<Rightarrow> \<lparr>tick_sec = 0, bucket_count = 0\<rparr>
      | t # _ \<Rightarrow> \<lparr>tick_sec = t, bucket_count = count_list ticks t\<rparr>)"

definition window_of :: "nat list \<Rightarrow> sliding_second_window" where
  "window_of ticks = map (bucket_for ticks) [0..<60]"

lemma length_window_of [simp]: "length (window_of ticks) = 60"
  by (simp add: window_of_def)

lemma nth_window_of [simp]: "i < 60 \<Longrightarrow> window_of ticks ! i = bucket_for ticks i"
  unfolding window_of_def by (subst nth_map) (simp_all del: upt_Suc)

lemma filter_ConsD: "filter P xs = y # ys \<Longrightarrow> P y \<and> y \<in> set xs"
  by (auto dest!: filter_eq_ConsD)

lemma record_at_window_of:
  assumes "sorted_wrt (\<ge>) (tick # ticks)" "length ticks < u32_max"
  shows "record_at (window_of ticks) tick = window_of (tick # ticks)"
proof (rule nth_equalityI)
  fix i assume "i < length (record_at (window_of ticks) tick)"
  then have i: "i < 60" by (simp add: record_at_def Let_def)
  show "record_at (window_of ticks) tick ! i = window_of (tick # ticks) ! i"
  proof (cases "i = tick mod 60")
    case False
    have "bucket_for (tick # ticks) i = bucket_for ticks i"
    proof (cases "filter (\<lambda>t. t mod 60 = i) ticks")
      case (Cons u rest)
      then have "u \<noteq> tick" using filter_ConsD[OF Cons] False by blast
      then show ?thesis using False Cons by (simp add: bucket_for_def)
    qed (use False in \<open>simp add: bucket_for_def\<close>)
    then show ?thesis using False i by (simp add: record_at_def Let_def)
  next
    case True
    have count: "count_list ticks tick + 1 \<le> u32_max"
      using count_list_length[of ticks tick] assms(2) by linarith
    have "tick_sec (bucket_for ticks i) = tick \<Longrightarrow> bucket_count (bucket_for ticks i) = count_list ticks tick"
      using True by (auto simp: bucket_for_def filter_empty_conv count_list_0_iff split: list.splits)
    moreover have "tick_sec (bucket_for ticks i) \<noteq> tick \<Longrightarrow> count_list ticks tick = 0"
    proof -
      assume other: "tick_sec (bucket_for ticks i) \<noteq> tick"
      show "count_list ticks tick = 0"
      proof (rule ccontr)
        assume "count_list ticks tick \<noteq> 0"
        then have "tick \<in> set (filter (\<lambda>t. t mod 60 = i) ticks)" using True by (simp add: count_list_0_iff)
        then obtain t rest where t: "filter (\<lambda>t. t mod 60 = i) ticks = t # rest" "tick \<in> set (t # rest)"
          by (cases "filter (\<lambda>t. t mod 60 = i) ticks") auto
        have "sorted_wrt (\<ge>) (t # rest)"
          using assms(1) t(1) by (metis sorted_wrt.simps(2) sorted_wrt_filter)
        then have "tick \<le> t" using t(2) by auto
        moreover have "t \<le> tick" using filter_ConsD[OF t(1)] assms(1) by auto
        ultimately show False using other t(1) by (simp add: bucket_for_def)
      qed
    qed
    ultimately show ?thesis
      using True i count
      by (auto simp: record_at_def Let_def sat_add_u32_def bucket_for_def)
  qed
qed (simp add: record_at_def Let_def)

lemma window_default_of: "window_default = window_of []"
  by (rule nth_equalityI) (simp_all add: window_default_def window_of_def bucket_for_def)

lemma length_by_slots: "sum_list (map (\<lambda>i. length (filter (\<lambda>t. t mod 60 = i) xs)) [0..<60]) = length (xs :: nat list)"
proof (induction xs)
  case (Cons t xs)
  have "sum_list (map (\<lambda>i. length (filter (\<lambda>t. t mod 60 = i) (t # xs))) [0..<60])
      = (\<Sum>i = 0..<60. (if i = t mod 60 then 1 else 0) + length (filter (\<lambda>t. t mod 60 = i) xs))"
    by (auto simp: interv_sum_list_conv_sum_set_nat intro!: sum.cong)
  also have "\<dots> = 1 + sum_list (map (\<lambda>i. length (filter (\<lambda>t. t mod 60 = i) xs)) [0..<60])"
    by (simp add: sum.distrib interv_sum_list_conv_sum_set_nat)
  finally show ?case using Cons by simp
qed simp

text \<open>The rate at a time counts the ticks of the last minute.\<close>

lemma sum_count_buckets:
  assumes "sorted_wrt (\<ge>) ticks" "\<forall>t \<in> set ticks. t \<le> now"
  shows "sum_list (map bucket_count
      (filter (\<lambda>b. 0 < bucket_count b \<and> now - tick_sec b < 60) (window_of ticks)))
    = length (filter (\<lambda>t. now - t < 60) ticks)"
proof -
  let ?recent = "filter (\<lambda>t. now - t < 60) ticks"
  let ?live = "\<lambda>b. 0 < bucket_count b \<and> now - tick_sec b < 60"
  have one: "(if ?live (bucket_for ticks i) then bucket_count (bucket_for ticks i) else 0)
      = length (filter (\<lambda>t. t mod 60 = i) ?recent)" if "i < 60" for i
  proof (cases "filter (\<lambda>t. t mod 60 = i) ticks")
    case Nil
    then have "filter (\<lambda>t. t mod 60 = i) ?recent = []" by (auto simp: filter_empty_conv)
    then show ?thesis using Nil by (simp add: bucket_for_def)
  next
    case (Cons u rest)
    have u: "u \<in> set ticks" "u mod 60 = i" using filter_ConsD[OF Cons] by simp_all
    have sorted: "sorted_wrt (\<ge>) (u # rest)" using assms(1) Cons by (metis sorted_wrt_filter)
    have latest: "t \<le> u" if "t \<in> set ticks" "t mod 60 = i" for t
    proof -
      have "t \<in> set (u # rest)" using that Cons[symmetric] by simp
      then show ?thesis using sorted by auto
    qed
    have "filter (\<lambda>t. t mod 60 = i) ?recent = (if now - u < 60 then filter (\<lambda>t. t = u) ticks else [])"
    proof -
      have "t mod 60 = i \<and> now - t < 60 \<longleftrightarrow> t = u \<and> now - u < 60" if t: "t \<in> set ticks" for t
      proof
        assume *: "t mod 60 = i \<and> now - t < 60"
        have "t \<le> u" "u \<le> now" using latest t * u assms(2) by auto
        moreover have "(u - t) mod 60 = 0" using u(2) * \<open>t \<le> u\<close> by (metis mod_eq_dvd_iff_nat dvd_imp_mod_0)
        ultimately have "u - t < 60" "(u - t) mod 60 = 0" using * by linarith+
        then show "t = u \<and> now - u < 60" using \<open>t \<le> u\<close> * by simp
      qed (use u in simp)
      then show ?thesis by (auto simp: filter_empty_conv intro!: filter_cong)
    qed
    moreover have "length (filter (\<lambda>t. t = u) ticks) = count_list ticks u"
      by (induction ticks) auto
    moreover have "0 < count_list ticks u" using u(1) by (metis count_list_0_iff gr0I)
    ultimately show ?thesis using Cons by (simp add: bucket_for_def)
  qed
  have "sum_list (map bucket_count (filter ?live (window_of ticks)))
      = sum_list (map (\<lambda>i. if ?live (bucket_for ticks i) then bucket_count (bucket_for ticks i) else 0) [0..<60])"
    by (simp add: window_of_def sum_list_map_filter' comp_def)
  also have "\<dots> = sum_list (map (\<lambda>i. length (filter (\<lambda>t. t mod 60 = i) ?recent)) [0..<60])"
    using one by (intro arg_cong[where f = sum_list] map_cong) auto
  also have "\<dots> = length ?recent" by (rule length_by_slots)
  finally show ?thesis .
qed

end
