(* ===== verification/ActivityProperties.thy ===== *)
theory ActivityProperties
  imports Activity
begin

text \<open>
  The numbers the activity tracker shows, against the history of the requests.
\<close>

text \<open>
  The states of the tracker with its history: the starts (key and second, the last one first)
  and the live guards.  The seconds do not go back from start to start, and there are fewer
  than \<open>2 ^ 32 - 1\<close> starts.
\<close>

inductive activity_reach :: "request_activity \<Rightarrow> (string \<times> nat) list \<Rightarrow> string list \<Rightarrow> bool" where
  act_new: "activity_reach request_activity_default [] []"
| act_start: "activity_reach inner starts live \<Longrightarrow> \<forall>start \<in> set starts. snd start \<le> tick
    \<Longrightarrow> length starts < u32_max
    \<Longrightarrow> activity_reach (tracker_start_at inner key tick) ((key, tick) # starts) (key # live)"
| act_drop: "activity_reach inner starts live \<Longrightarrow> key \<in> set live
    \<Longrightarrow> activity_reach (tracker_finish inner key) starts (remove1 key live)"

definition ticks_of :: "string \<Rightarrow> (string \<times> nat) list \<Rightarrow> nat list" where
  "ticks_of key starts = map snd (filter (\<lambda>s. fst s = key) starts)"

definition key_state :: "request_activity \<Rightarrow> string \<Rightarrow> activity_state" where
  "key_state inner key =
     (case map_of (ra_per_key inner) key of Some state \<Rightarrow> state | None \<Rightarrow> activity_state_default)"

definition tracker_ok :: "request_activity \<Rightarrow> (string \<times> nat) list \<Rightarrow> string list \<Rightarrow> bool" where
  "tracker_ok inner starts live =
     (sorted_wrt (\<ge>) (map snd starts) \<and> length live \<le> length starts \<and> length starts \<le> u32_max
      \<and> ra_total inner = \<lparr>act_in_flight = length live, act_rpm_window = window_of (map snd starts)\<rparr>
      \<and> (\<forall>key. key_state inner key =
            \<lparr>act_in_flight = count_list live key, act_rpm_window = window_of (ticks_of key starts)\<rparr>))"

lemma ticks_sorted: "sorted_wrt (\<ge>) (map snd starts) \<Longrightarrow> sorted_wrt (\<ge>) (ticks_of key starts)"
  by (simp add: ticks_of_def sorted_wrt_map sorted_wrt_filter)

lemma length_ticks_of: "length (ticks_of key starts) \<le> length starts"
  by (simp add: ticks_of_def)

lemma record_start_of:
  assumes "state = \<lparr>act_in_flight = n, act_rpm_window = window_of ticks\<rparr>"
    "sorted_wrt (\<ge>) (tick # ticks)" "length ticks < u32_max" "n < u32_max"
  shows "activity_record_start state tick = \<lparr>act_in_flight = Suc n, act_rpm_window = window_of (tick # ticks)\<rparr>"
  using assms by (simp add: activity_record_start_def record_at_window_of sat_add_u32_def)

lemma activity_reach_ok: "activity_reach inner starts live \<Longrightarrow> tracker_ok inner starts live"
proof (induction rule: activity_reach.induct)
  case act_new
  show ?case
    by (simp add: tracker_ok_def request_activity_default_def activity_state_default_def key_state_def
        ticks_of_def window_default_of)
next
  case (act_start inner starts live tick key)
  let ?inner = "tracker_start_at inner key tick"
  have sorted: "sorted_wrt (\<ge>) (tick # map snd starts)"
    using act_start by (auto simp: tracker_ok_def)
  have "ra_total ?inner = \<lparr>act_in_flight = Suc (length live), act_rpm_window = window_of (tick # map snd starts)\<rparr>"
    unfolding tracker_start_at_def
    using act_start sorted by (simp add: record_start_of tracker_ok_def)
  moreover have "key_state ?inner k = \<lparr>act_in_flight = count_list (key # live) k,
      act_rpm_window = window_of (ticks_of k ((key, tick) # starts))\<rparr>" for k
  proof (cases "k = key")
    case True
    have "count_list live key < u32_max"
      using act_start(3,4) count_list_length[of live key] unfolding tracker_ok_def by linarith
    moreover have "length (ticks_of key starts) < u32_max"
      using act_start(3) length_ticks_of[of key starts] by linarith
    moreover have "sorted_wrt (\<ge>) (tick # ticks_of key starts)"
      using sorted ticks_sorted by (auto simp: ticks_of_def)
    ultimately have "activity_record_start (key_state inner key) tick
        = \<lparr>act_in_flight = Suc (count_list live key), act_rpm_window = window_of (tick # ticks_of key starts)\<rparr>"
      using act_start(4) by (intro record_start_of) (simp_all add: tracker_ok_def)
    moreover have "key_state ?inner key = activity_record_start (key_state inner key) tick"
      by (simp add: key_state_def tracker_start_at_def)
    ultimately show ?thesis using True by (simp add: ticks_of_def)
  next
    case False
    then have "key_state ?inner k = key_state inner k" by (simp add: key_state_def tracker_start_at_def)
    then show ?thesis using False act_start(4) by (simp add: tracker_ok_def ticks_of_def)
  qed
  ultimately show ?case using act_start sorted by (simp add: tracker_ok_def)
next
  case (act_drop inner starts live key)
  have "key_state (tracker_finish inner key) k = (if k = key then activity_finish (key_state inner key) else key_state inner k)" for k
    by (auto simp: key_state_def tracker_finish_def activity_finish_def activity_state_default_def split: option.split)
  then show ?case
    using act_drop
    by (auto simp: tracker_ok_def tracker_finish_def activity_finish_def length_remove1 count_remove1)
qed

lemma rpm_of_ticks:
  assumes "sorted_wrt (\<ge>) ticks" "\<forall>t \<in> set ticks. t \<le> now" "length ticks \<le> u32_max"
  shows "rpm_at (window_of ticks) now = length (filter (\<lambda>t. now - t < 60) ticks)"
proof -
  have "length (filter (\<lambda>t. now - t < 60) ticks) < 2 ^ 32"
    using le_less_trans[OF length_filter_le[of "\<lambda>t. now - t < 60" ticks]] assms(3) by (simp add: u32_max_def)
  then show ?thesis unfolding rpm_at_def sum_count_buckets[OF assms(1,2)] by simp
qed

text \<open>C35.  The activity shown is exact.  At any second at or after the last start, the total
  and the one of every key show the live guards and the number of starts within the last sixty
  seconds; a bucket of the ring never counts a start that is older or loses one that is not.\<close>

theorem activity_shown_is_exact:
  assumes "activity_reach inner starts live" "\<forall>start \<in> set starts. snd start \<le> now"
  shows "tracker_snapshot_at inner None now =
      \<lparr>snap_rpm = length (filter (\<lambda>s. now - snd s < 60) starts), snap_in_flight = length live\<rparr>
    \<and> tracker_snapshot_at inner (Some key) now =
      \<lparr>snap_rpm = length (filter (\<lambda>s. fst s = key \<and> now - snd s < 60) starts),
       snap_in_flight = count_list live key\<rparr>"
proof -
  note ok = activity_reach_ok[OF assms(1), unfolded tracker_ok_def]
  have "rpm_at (window_of (map snd starts)) now = length (filter (\<lambda>t. now - t < 60) (map snd starts))"
    using ok assms(2) by (intro rpm_of_ticks) auto
  then have total: "tracker_snapshot_at inner None now =
      \<lparr>snap_rpm = length (filter (\<lambda>s. now - snd s < 60) starts), snap_in_flight = length live\<rparr>"
    using ok by (simp add: tracker_snapshot_at_def activity_snapshot_def filter_map comp_def)
  have "rpm_at (window_of (ticks_of key starts)) now = length (filter (\<lambda>t. now - t < 60) (ticks_of key starts))"
  proof (rule rpm_of_ticks)
    show "sorted_wrt (\<ge>) (ticks_of key starts)" using ok ticks_sorted by blast
    show "\<forall>t \<in> set (ticks_of key starts). t \<le> now" using assms(2) by (auto simp: ticks_of_def)
    show "length (ticks_of key starts) \<le> u32_max" using ok length_ticks_of[of key starts] by linarith
  qed
  moreover have "length (filter (\<lambda>t. now - t < 60) (ticks_of key starts))
      = length (filter (\<lambda>s. fst s = key \<and> now - snd s < 60) starts)"
    by (simp add: ticks_of_def filter_map comp_def conj_commute)
  moreover have "tracker_snapshot_at inner (Some key) now = activity_snapshot (key_state inner key) now"
    by (simp add: tracker_snapshot_at_def key_state_def activity_snapshot_def activity_state_default_def
        rpm_at_def window_default_def split: option.split)
  ultimately have "tracker_snapshot_at inner (Some key) now =
      \<lparr>snap_rpm = length (filter (\<lambda>s. fst s = key \<and> now - snd s < 60) starts),
       snap_in_flight = count_list live key\<rparr>"
    using ok by (simp add: activity_snapshot_def)
  with total show ?thesis by blast
qed

lemma activity_shown_is_exact_witness:
  "tracker_snapshot_at (tracker_start_at (tracker_start_at request_activity_default ''a'' 100) ''a'' 160) None 160
    = \<lparr>snap_rpm = 1, snap_in_flight = 2\<rparr>"
proof -
  have "activity_reach (tracker_start_at (tracker_start_at request_activity_default ''a'' 100) ''a'' 160)
      [(''a'', 160), (''a'', 100)] [''a'', ''a'']"
    by (intro act_start act_new) (simp_all add: u32_max_def)
  from activity_shown_is_exact[OF this, of 160] show ?thesis by simp
qed

end
