(* ===== verification/SessionAffinity.thy ===== *)
theory SessionAffinity
  imports LruCache HashMapModel CachePages Utf8
begin

text \<open>
  The account affinity of Kiro sessions
  (\<open>crates/llm-access/src/provider/kiro_session_affinity.rs\<close>): a bounded cache from an API key
  and a session to the account that served it last.  The environment is read by the caller: an
  unset or unparsable variable is \<open>None\<close>.
\<close>

definition DEFAULT_KIRO_SESSION_AFFINITY_MAX_ENTRIES :: nat where
  "DEFAULT_KIRO_SESSION_AFFINITY_MAX_ENTRIES = 4096"

definition MAX_KIRO_SESSION_AFFINITY_MAX_ENTRIES :: nat where
  "MAX_KIRO_SESSION_AFFINITY_MAX_ENTRIES = 65536"

definition DEFAULT_KIRO_SESSION_AFFINITY_TTL_SECONDS :: nat where
  "DEFAULT_KIRO_SESSION_AFFINITY_TTL_SECONDS = 6 * 60 * 60"

definition MIN_KIRO_SESSION_AFFINITY_TTL_SECONDS :: nat where
  "MIN_KIRO_SESSION_AFFINITY_TTL_SECONDS = 60"

definition MAX_KIRO_SESSION_AFFINITY_TTL_SECONDS :: nat where
  "MAX_KIRO_SESSION_AFFINITY_TTL_SECONDS = 24 * 60 * 60"

record affinity_entry =
  af_account_name :: string
  af_updated_at :: instant

record 'c session_affinity =
  af_entries :: 'c
  af_ttl :: duration

definition clamp_nat :: "nat \<Rightarrow> nat \<Rightarrow> nat \<Rightarrow> nat" where
  "clamp_nat low high x = max low (min high x)"

definition affinity_new ::
  "('c, affinity_entry) lru_ops \<Rightarrow> nat \<Rightarrow> duration \<Rightarrow> 'c session_affinity" where
  "affinity_new ops max_entries ttl = \<lparr>af_entries = lru_new ops (max max_entries 1), af_ttl = ttl\<rparr>"

definition affinity_from_env ::
  "('c, affinity_entry) lru_ops \<Rightarrow> nat option \<Rightarrow> nat option \<Rightarrow> 'c session_affinity" where
  "affinity_from_env ops max_entries_var ttl_var =
     (let max_entries = (case max_entries_var of
            Some v \<Rightarrow> clamp_nat 1 MAX_KIRO_SESSION_AFFINITY_MAX_ENTRIES v
          | None \<Rightarrow> DEFAULT_KIRO_SESSION_AFFINITY_MAX_ENTRIES);
          ttl_seconds = (case ttl_var of
            Some v \<Rightarrow> clamp_nat MIN_KIRO_SESSION_AFFINITY_TTL_SECONDS MAX_KIRO_SESSION_AFFINITY_TTL_SECONDS v
          | None \<Rightarrow> DEFAULT_KIRO_SESSION_AFFINITY_TTL_SECONDS) in
      affinity_new ops max_entries (ttl_seconds * nanos_per_sec))"

definition trimmed_key_parts :: "string \<Rightarrow> string \<Rightarrow> (string \<times> string) option" where
  "trimmed_key_parts key_id session_id =
     (let key = str_trim key_id; session = str_trim session_id in
      if key \<noteq> [] \<and> session \<noteq> [] then Some (key, session) else None)"

definition trimmed_box :: "string \<Rightarrow> string option" where
  "trimmed_box v = (let t = str_trim v in if t \<noteq> [] then Some t else None)"

definition build_affinity_key :: "string \<Rightarrow> string \<Rightarrow> string" where
  "build_affinity_key key_id session_id = show_nat (length key_id) @ '':'' @ key_id @ session_id"

definition affinity_key :: "string \<Rightarrow> string \<Rightarrow> string option" where
  "affinity_key key_id session_id =
     map_option (\<lambda>(key, session). build_affinity_key key session) (trimmed_key_parts key_id session_id)"

definition remember_at ::
  "('c, affinity_entry) lru_ops \<Rightarrow> 'c session_affinity \<Rightarrow> string \<Rightarrow> string \<Rightarrow> string \<Rightarrow> instant
     \<Rightarrow> 'c session_affinity" where
  "remember_at ops affinity key_id session_id account_name now =
     (case affinity_key key_id session_id of
        None \<Rightarrow> affinity
      | Some key \<Rightarrow>
          (case trimmed_box account_name of
             None \<Rightarrow> affinity
           | Some account \<Rightarrow>
               affinity\<lparr>af_entries := lru_put ops (af_entries affinity) key
                 \<lparr>af_account_name = account, af_updated_at = now\<rparr>\<rparr>))"

text \<open>\<open>get\<close> of the cache is \<open>get_mut\<close> with the entry left as it is.\<close>

definition lookup_at ::
  "('c, affinity_entry) lru_ops \<Rightarrow> 'c session_affinity \<Rightarrow> string \<Rightarrow> string \<Rightarrow> instant
     \<Rightarrow> string option \<times> 'c session_affinity" where
  "lookup_at ops affinity key_id session_id now =
     (case trimmed_key_parts key_id session_id of
        None \<Rightarrow> (None, affinity)
      | Some (key, session) \<Rightarrow>
          (let buf = build_affinity_key key session in
           case lru_get_mut ops (af_entries affinity) buf of
             None \<Rightarrow> (None, affinity)
           | Some (entry, update) \<Rightarrow>
               (let entries = update entry in
                if af_ttl affinity < duration_since now (af_updated_at entry)
                then (None, affinity\<lparr>af_entries := lru_pop ops entries buf\<rparr>)
                else (Some (af_account_name entry), affinity\<lparr>af_entries := entries\<rparr>))))"

definition count_session :: "(string \<times> nat) list \<Rightarrow> string \<times> affinity_entry \<Rightarrow> (string \<times> nat) list" where
  "count_session counts row =
     (case map_of counts (af_account_name (snd row)) of
        Some n \<Rightarrow> hm_insert (af_account_name (snd row)) (n + 1) counts
      | None \<Rightarrow> hm_insert (af_account_name (snd row)) 1 counts)"

definition account_session_counts_at ::
  "('c, affinity_entry) lru_ops \<Rightarrow> 'c session_affinity \<Rightarrow> instant \<Rightarrow> (string \<times> nat) list" where
  "account_session_counts_at ops affinity now =
     foldl count_session []
       (filter (\<lambda>row. duration_since now (af_updated_at (snd row)) \<le> af_ttl affinity)
          (lru_iter ops (af_entries affinity)))"

end
