(* ===== verification/SessionAffinityProperties.thy ===== *)
theory SessionAffinityProperties
  imports SessionAffinity
begin

text \<open>
  The guarantees of the session affinity: keys of different sessions never collide, and the
  account of a session is found until it is too old or enough other sessions were used since.
\<close>

section \<open>Keys\<close>

lemma number_colon_inj:
  assumes "show_nat n @ CHR '':'' # s = show_nat m @ CHR '':'' # t"
  shows "n = m \<and> s = t"
proof -
  have colon: "\<not> is_ascii_digit (CHR '':'')" by (simp add: is_ascii_digit_def)
  have take: "takeWhile is_ascii_digit (show_nat k @ CHR '':'' # r) = show_nat k" for k r
    using show_nat_digits[of k] colon by (simp add: takeWhile_append list_all_iff)
  have "show_nat n = show_nat m" using take[of n s] take[of m t] assms by simp
  moreover from this have "n = m" by (metis digits_value_show_nat)
  ultimately show ?thesis using assms by simp
qed

lemma build_affinity_key_inj:
  assumes "build_affinity_key k s = build_affinity_key k' s'"
  shows "k = k' \<and> s = s'"
proof -
  have "length k = length k' \<and> k @ s = k' @ s'"
    using assms unfolding build_affinity_key_def append.simps by (rule number_colon_inj)
  then show ?thesis using append_eq_append_conv[of k k' s s'] by blast
qed

section \<open>Histories\<close>

datatype affinity_op =
    Remember string string string instant
  | Lookup string string instant

fun op_session :: "affinity_op \<Rightarrow> (string \<times> string) option" where
  "op_session (Remember key session account now) = trimmed_key_parts key session"
| "op_session (Lookup key session now) = trimmed_key_parts key session"

fun op_time :: "affinity_op \<Rightarrow> instant" where
  "op_time (Remember key session account now) = now"
| "op_time (Lookup key session now) = now"

fun op_remembers :: "affinity_op \<Rightarrow> bool" where
  "op_remembers (Remember key session account now) = True"
| "op_remembers (Lookup key session now) = False"

fun affinity_step :: "('c, affinity_entry) lru_ops \<Rightarrow> 'c session_affinity \<Rightarrow> affinity_op \<Rightarrow> 'c session_affinity" where
  "affinity_step ops a (Remember key session account now) = remember_at ops a key session account now"
| "affinity_step ops a (Lookup key session now) = snd (lookup_at ops a key session now)"

definition affinity_rows :: "('c, affinity_entry) lru_ops \<Rightarrow> 'c session_affinity \<Rightarrow> (string \<times> affinity_entry) list" where
  "affinity_rows ops a = lru_iter ops (af_entries a)"

definition drop_key :: "string \<Rightarrow> (string \<times> affinity_entry) list \<Rightarrow> (string \<times> affinity_entry) list" where
  "drop_key k rows = filter (\<lambda>r. fst r \<noteq> k) rows"

text \<open>
  The row of a session with the rows that were used after it: their sessions are among the
  sessions \<open>used\<close>.
\<close>

definition recent_row ::
  "(string \<times> string) set \<Rightarrow> string \<Rightarrow> affinity_entry \<Rightarrow> (string \<times> affinity_entry) list \<Rightarrow> bool" where
  "recent_row used key entry rows =
     (\<exists>before after. rows = before @ (key, entry) # after \<and> distinct (map fst before)
        \<and> key \<notin> fst ` set before \<and> fst ` set before \<subseteq> (\<lambda>(k, s). build_affinity_key k s) ` used)"

lemma recent_row_lookup:
  assumes "recent_row used key entry rows"
  shows "map_of rows key = Some entry"
proof -
  obtain before after where r: "rows = before @ (key, entry) # after" "key \<notin> fst ` set before"
    using assms unfolding recent_row_def by blast
  then have "map_of before key = None" by (simp add: map_of_eq_None_iff)
  then show ?thesis by (simp add: r(1) map_add_def)
qed

lemma recent_row_front: "recent_row {} key entry ((key, entry) # rows)"
  unfolding recent_row_def by (rule exI[of _ "[]"]) simp

lemma recent_row_mono:
  assumes "recent_row used key entry rows" "used \<subseteq> used'"
  shows "recent_row used' key entry rows"
proof -
  obtain before after where r: "rows = before @ (key, entry) # after" "distinct (map fst before)"
      "key \<notin> fst ` set before" "fst ` set before \<subseteq> (\<lambda>(k, s). build_affinity_key k s) ` used"
    using assms(1) unfolding recent_row_def by blast
  have "fst ` set before \<subseteq> (\<lambda>(k, s). build_affinity_key k s) ` used'"
    using r(4) image_mono[OF assms(2)] by (rule subset_trans)
  with r(1-3) show ?thesis
    unfolding recent_row_def by (intro exI[of _ before] exI[of _ after] conjI)
qed

lemma recent_row_drop:
  assumes "recent_row used key entry rows" "k \<noteq> key"
  shows "recent_row used key entry (drop_key k rows)"
proof -
  obtain before after where r: "rows = before @ (key, entry) # after" "distinct (map fst before)"
      "key \<notin> fst ` set before" "fst ` set before \<subseteq> (\<lambda>(k, s). build_affinity_key k s) ` used"
    using assms(1) unfolding recent_row_def by blast
  show ?thesis
    unfolding recent_row_def
    by (rule exI[of _ "drop_key k before"], rule exI[of _ "drop_key k after"])
      (use r assms(2) in \<open>auto simp: drop_key_def distinct_map_filter\<close>)
qed

lemma recent_row_use:
  assumes "recent_row used key entry rows" "build_affinity_key k s \<noteq> key" "finite used"
    and "card (insert (k, s) used) < cap"
  shows "recent_row (insert (k, s) used) key entry
    (take cap ((build_affinity_key k s, e) # drop_key (build_affinity_key k s) rows))"
proof -
  let ?k = "build_affinity_key k s"
  obtain before after where r: "rows = before @ (key, entry) # after" "distinct (map fst before)"
      "key \<notin> fst ` set before" "fst ` set before \<subseteq> (\<lambda>(k, s). build_affinity_key k s) ` used"
    using assms(1) unfolding recent_row_def by blast
  let ?before = "(?k, e) # drop_key ?k before"
  have keys: "fst ` set ?before \<subseteq> (\<lambda>(k, s). build_affinity_key k s) ` insert (k, s) used"
    using r(4) by (auto simp: drop_key_def)
  have distinct: "distinct (map fst ?before)"
    using r(2) by (auto simp: drop_key_def distinct_map_filter)
  have "length ?before = card (fst ` set ?before)"
    using distinct by (metis distinct_card length_map list.set_map)
  also have "\<dots> \<le> card ((\<lambda>(k, s). build_affinity_key k s) ` insert (k, s) used)"
    using keys assms(3) by (intro card_mono) auto
  also have "\<dots> \<le> card (insert (k, s) used)" using assms(3) by (intro card_image_le) simp
  finally have len: "length ?before < cap" using assms(4) by linarith
  have "take cap ((?k, e) # drop_key ?k rows)
      = ?before @ (key, entry) # take (cap - Suc (length ?before)) (drop_key ?k after)"
  proof -
    have "(?k, e) # drop_key ?k rows = ?before @ (key, entry) # drop_key ?k after"
      using r(1) assms(2) by (simp add: drop_key_def)
    moreover have "take cap (xs @ x # ys) = xs @ x # take (cap - Suc (length xs)) ys" if "length xs < cap"
      for xs ys and x :: "string \<times> affinity_entry"
      using that by (simp add: take_Cons')
    ultimately show ?thesis using len by presburger
  qed
  moreover have "key \<notin> fst ` set ?before" using r(3) assms(2) by (auto simp: drop_key_def)
  ultimately show ?thesis unfolding recent_row_def using keys distinct by blast
qed

lemma recent_row_refresh: "recent_row used key entry ((key, entry) # rows)"
  by (rule recent_row_mono[OF recent_row_front]) simp

section \<open>Steps\<close>

lemma lookup_at_rows:
  assumes ops: "lru_contract ops" and "trimmed_key_parts key_id session_id = Some (k, s)"
  shows "case map_of (affinity_rows ops a) (build_affinity_key k s) of
      None \<Rightarrow> lookup_at ops a key_id session_id now = (None, a)
    | Some entry \<Rightarrow>
        (let rows' = drop_key (build_affinity_key k s) (affinity_rows ops a);
             (found, a') = lookup_at ops a key_id session_id now in
         (if af_ttl a < duration_since now (af_updated_at entry)
          then found = None \<and> affinity_rows ops a' = rows'
          else found = Some (af_account_name entry) \<and> affinity_rows ops a' = (build_affinity_key k s, entry) # rows')
         \<and> af_ttl a' = af_ttl a \<and> lru_cap ops (af_entries a') = lru_cap ops (af_entries a))"
  by (rule lru_get_mut_cases[OF ops, of "af_entries a" "build_affinity_key k s"])
    (simp_all add: lookup_at_def assms(2) affinity_rows_def Let_def lru_simps[OF ops] drop_key_def)

lemma remember_at_rows:
  assumes ops: "lru_contract ops" and "trimmed_key_parts key_id session_id = Some (k, s)"
    "trimmed_box account = Some name"
  shows "affinity_rows ops (remember_at ops a key_id session_id account now) =
      take (lru_cap ops (af_entries a)) ((build_affinity_key k s, \<lparr>af_account_name = name, af_updated_at = now\<rparr>)
        # drop_key (build_affinity_key k s) (affinity_rows ops a))"
    "af_ttl (remember_at ops a key_id session_id account now) = af_ttl a"
    "lru_cap ops (af_entries (remember_at ops a key_id session_id account now)) = lru_cap ops (af_entries a)"
  using assms(2,3) by (simp_all add: remember_at_def affinity_key_def affinity_rows_def lru_simps[OF ops] drop_key_def)

lemma remember_at_other:
  assumes "trimmed_key_parts key_id session_id = None \<or> trimmed_box account = None"
  shows "remember_at ops a key_id session_id account now = a"
  using assms by (auto simp: remember_at_def affinity_key_def split: option.splits)

definition keeps_row ::
  "('c, affinity_entry) lru_ops \<Rightarrow> (string \<times> string) set \<Rightarrow> string \<Rightarrow> affinity_entry \<Rightarrow> nat \<Rightarrow> duration
     \<Rightarrow> 'c session_affinity \<Rightarrow> bool" where
  "keeps_row ops used key entry cap ttl a =
     (recent_row used key entry (affinity_rows ops a) \<and> af_ttl a = ttl \<and> lru_cap ops (af_entries a) = cap)"

text \<open>A step of the history keeps the row, if it does not remember another account for its session.\<close>

lemma affinity_step_keeps:
  assumes ops: "lru_contract ops"
    and keep: "keeps_row ops used (build_affinity_key k s) entry cap ttl a"
    and same: "op_session event = Some (k, s) \<Longrightarrow> \<not> op_remembers event"
    and live: "duration_since (op_time event) (af_updated_at entry) \<le> ttl"
    and room: "finite used" "card (used \<union> (set_option (op_session event) - {(k, s)})) < cap"
  shows "keeps_row ops (used \<union> (set_option (op_session event) - {(k, s)})) (build_affinity_key k s) entry cap ttl
    (affinity_step ops a event)"
proof (cases "op_session event")
  case None
  then show ?thesis
    using keep by (cases event) (simp_all add: remember_at_other lookup_at_def)
next
  case (Some session)
  obtain k' s' where session: "session = (k', s')" by fastforce
  let ?key = "build_affinity_key k s" and ?key' = "build_affinity_key k' s'"
  let ?used = "used \<union> (set_option (op_session event) - {(k, s)})"
  note facts = keep[unfolded keeps_row_def]
  have grow: "recent_row ?used ?key entry rows" if "recent_row used ?key entry rows" for rows
    using that by (rule recent_row_mono) blast
  have use: "recent_row ?used ?key entry (take cap ((?key', e) # drop_key ?key' (affinity_rows ops a)))"
    if "(k', s') \<noteq> (k, s)" for e
  proof -
    have "?key' \<noteq> ?key" using that build_affinity_key_inj by blast
    moreover have used: "?used = insert (k', s') used" using that Some session by auto
    ultimately show ?thesis using recent_row_use[of used ?key entry _ k' s' cap e] facts room by simp
  qed
  have front: "recent_row ?used ?key entry ((?key', e) # drop_key ?key' (affinity_rows ops a))"
    if "(k', s') \<noteq> (k, s)" for e
  proof -
    have key: "?key' \<noteq> ?key" using that build_affinity_key_inj by blast
    let ?rows = "(?key', e) # drop_key ?key' (affinity_rows ops a)"
    have used: "?used = insert (k', s') used" using that Some session by auto
    have "recent_row (insert (k', s') used) ?key entry
        (take (Suc (max (length ?rows) (card ?used))) ?rows)"
      using recent_row_use[OF conjunct1[OF facts] key room(1), of "Suc (max (length ?rows) (card ?used))"] used by simp
    then show ?thesis using used by simp
  qed
  show ?thesis
  proof (cases event)
    case (Remember key session_id account now)
    then have other: "(k', s') \<noteq> (k, s)" and parts: "trimmed_key_parts key session_id = Some (k', s')"
      using same Some session by auto
    show ?thesis
    proof (cases "trimmed_box account")
      case None
      then show ?thesis using Remember facts grow by (simp add: remember_at_other keeps_row_def)
    next
      case (Some name)
      then show ?thesis
        using Remember facts use[OF other] remember_at_rows[OF ops parts Some] by (simp add: keeps_row_def)
    qed
  next
    case (Lookup key session_id now)
    then have parts: "trimmed_key_parts key session_id = Some (k', s')" using Some session by simp
    obtain found a' where run: "lookup_at ops a key session_id now = (found, a')" by fastforce
    note rows = lookup_at_rows[OF ops parts, of a now]
    show ?thesis
    proof (cases "(k', s') = (k, s)")
      case True
      have "map_of (affinity_rows ops a) ?key' = Some entry"
        using recent_row_lookup conjunct1[OF facts] True by blast
      then show ?thesis
        using rows facts Lookup live run True recent_row_refresh by (simp add: keeps_row_def)
    next
      case False
      then have "?key' \<noteq> ?key" using build_affinity_key_inj by blast
      then have drop: "recent_row ?used ?key entry (drop_key ?key' (affinity_rows ops a))"
        using grow recent_row_drop conjunct1[OF facts] by blast
      show ?thesis
        using rows facts Lookup run drop front[OF False] grow
        by (cases "map_of (affinity_rows ops a) ?key'") (auto simp: keeps_row_def Let_def split: if_splits)
    qed
  qed
qed

lemma affinity_run_keeps:
  assumes ops: "lru_contract ops"
    and "keeps_row ops used (build_affinity_key k s) entry cap ttl a"
    and "\<forall>event \<in> set events. (op_session event = Some (k, s) \<longrightarrow> \<not> op_remembers event)
      \<and> duration_since (op_time event) (af_updated_at entry) \<le> ttl"
    and "finite used" "card (used \<union> (\<Union>event \<in> set events. set_option (op_session event)) - {(k, s)}) < cap"
    and "(k, s) \<notin> used"
  shows "\<exists>used'. keeps_row ops used' (build_affinity_key k s) entry cap ttl (foldl (affinity_step ops) a events)"
  using assms(2-)
proof (induction events arbitrary: a used)
  case (Cons event events)
  let ?used = "used \<union> (set_option (op_session event) - {(k, s)})"
  let ?all = "used \<union> (\<Union>event \<in> set (event # events). set_option (op_session event)) - {(k, s)}"
  have fin: "finite ?all" using Cons.prems(3) by simp
  have "card ?used \<le> card ?all" using Cons.prems(5) by (intro card_mono fin) auto
  then have "card ?used < cap" using Cons.prems(4) by linarith
  then have "keeps_row ops ?used (build_affinity_key k s) entry cap ttl (affinity_step ops a event)"
    using Cons.prems by (intro affinity_step_keeps[OF ops]) auto
  moreover have "?used \<union> (\<Union>event \<in> set events. set_option (op_session event)) - {(k, s)} = ?all" by auto
  ultimately show ?case
    using Cons.IH[of ?used "affinity_step ops a event"] Cons.prems by simp
qed auto

text \<open>C36.  A session sticks to its account.  When an account was remembered for a session, a
  lookup within the time to live finds it, whatever was remembered for and looked up in other
  sessions or keys meanwhile, as long as fewer other sessions were used than the cache holds;
  sessions with the same id under different keys, or that differ in where key and session id
  are split, are different sessions.\<close>

theorem session_sticks_to_account:
  assumes "lru_contract ops"
    and "trimmed_key_parts key session = Some (k, s)" "trimmed_box account = Some name"
    and "\<forall>event \<in> set events. (op_session event = Some (k, s) \<longrightarrow> \<not> op_remembers event)
      \<and> duration_since (op_time event) t \<le> af_ttl a"
    and "card ((\<Union>event \<in> set events. set_option (op_session event)) - {(k, s)}) < lru_cap ops (af_entries a)"
    and "duration_since now t \<le> af_ttl a"
  shows "fst (lookup_at ops (foldl (affinity_step ops) (remember_at ops a key session account t) events)
    key session now) = Some name"
proof -
  let ?a = "remember_at ops a key session account t"
  let ?entry = "\<lparr>af_account_name = name, af_updated_at = t\<rparr>"
  let ?key = "build_affinity_key k s"
  obtain n where n: "lru_cap ops (af_entries a) = Suc n" using assms(5) by (cases "lru_cap ops (af_entries a)") auto
  have "keeps_row ops {} ?key ?entry (lru_cap ops (af_entries a)) (af_ttl a) ?a"
    using remember_at_rows[OF assms(1-3), of a t] recent_row_front by (simp add: keeps_row_def n)
  from affinity_run_keeps[OF assms(1) this, of events] assms(4,5)
  obtain used where keep: "keeps_row ops used ?key ?entry (lru_cap ops (af_entries a)) (af_ttl a)
      (foldl (affinity_step ops) ?a events)" by auto
  then have "map_of (affinity_rows ops (foldl (affinity_step ops) ?a events)) ?key = Some ?entry"
    using recent_row_lookup unfolding keeps_row_def by blast
  then show ?thesis
    using lookup_at_rows[OF assms(1,2), of "foldl (affinity_step ops) ?a events" now] assms(6) keep
    by (auto simp: keeps_row_def split: prod.splits)
qed

lemma session_sticks_to_account_witness:
  "fst (lookup_at list_lru (foldl (affinity_step list_lru)
      (remember_at list_lru (affinity_new list_lru 2 60) ''key:a'' ''bc'' ''acc'' 0)
      [Remember ''key'' ''a:bc'' ''other'' 1]) ''key:a'' ''bc'' 50) = Some ''acc''"
proof -
  have parts: "trimmed_key_parts ''key:a'' ''bc'' = Some (''key:a'', ''bc'')"
      "trimmed_key_parts ''key'' ''a:bc'' = Some (''key'', ''a:bc'')" "trimmed_box ''acc'' = Some ''acc''"
    by code_simp+
  have "lru_cap list_lru (af_entries (affinity_new list_lru 2 60 :: (nat \<times> (string \<times> affinity_entry) list) session_affinity)) = 2"
    "af_ttl (affinity_new list_lru 2 60 :: (nat \<times> (string \<times> affinity_entry) list) session_affinity) = 60"
    by (simp_all add: affinity_new_def list_lru_def)
  then show ?thesis
    using parts
    by (intro session_sticks_to_account[OF list_lru_contract parts(1,3)]) (simp_all add: duration_since_def)
qed

section \<open>Session counts\<close>

lemma count_session_get:
  "map_of (count_session counts row) account =
     (if af_account_name (snd row) = account
      then Some (case map_of counts account of Some n \<Rightarrow> Suc n | None \<Rightarrow> 1) else map_of counts account)"
  by (auto simp: count_session_def split: option.split)

lemma counts_fold:
  "map_of (foldl count_session counts rows) account =
    (case map_of counts account of
       Some m \<Rightarrow> Some (m + length (filter (\<lambda>r. af_account_name (snd r) = account) rows))
     | None \<Rightarrow> if filter (\<lambda>r. af_account_name (snd r) = account) rows = [] then None
         else Some (length (filter (\<lambda>r. af_account_name (snd r) = account) rows)))"
  by (induction rows arbitrary: counts) (simp_all add: count_session_get split: option.split)

text \<open>The number of live sessions bound to each account.\<close>

lemma session_counts_exact:
  "map_of (account_session_counts_at ops a now) account =
     (let rows = filter (\<lambda>r. duration_since now (af_updated_at (snd r)) \<le> af_ttl a
          \<and> af_account_name (snd r) = account) (affinity_rows ops a) in
      if rows = [] then None else Some (length rows))"
  by (simp add: account_session_counts_at_def counts_fold Let_def affinity_rows_def)

end
