(* ===== verification/JournalWire.thy ===== *)
theory JournalWire
  imports Prelude
begin

text \<open>
  The wire records of the usage journal, \<open>crates/llm-usage-journal/src/wire.rs\<close>, and the
  usage events and rollup batches of \<open>crates/llm-access-core\<close> they carry.  Integers are
  \<open>int\<close> and \<open>nat\<close> with the range of their Rust type stated where it matters; \<open>f64\<close> is a
  type parameter, since the journal only stores it.

  The serialisation (\<open>postcard\<close>), the compression (\<open>zstd\<close>) and the checksums (\<open>crc32c\<close>,
  \<open>sha2\<close>) are third-party: the record \<open>journal_codec\<close> and its extensions hold them as
  functions, with \<open>None\<close> for an error result.
\<close>

section \<open>Usage events\<close>

definition FILE_MAGIC_V1 :: "byte list" where
  "FILE_MAGIC_V1 = str_bytes ''LLMUJNL1''"

definition ROLLUP_FILE_MAGIC_V1 :: "byte list" where
  "ROLLUP_FILE_MAGIC_V1 = str_bytes ''LLMRJNL1''"

definition FORMAT_VERSION_V1 :: nat where
  "FORMAT_VERSION_V1 = 1"

definition SCHEMA_VERSION_V1 :: nat where
  "SCHEMA_VERSION_V1 = 1"

datatype provider_type = Codex | Kiro

datatype protocol_family = OpenAi | Anthropic

datatype route_strategy = Auto | Fixed

record usage_timing =
  ut_latency_ms :: "int option"
  ut_routing_wait_ms :: "int option"
  ut_upstream_headers_ms :: "int option"
  ut_post_headers_body_ms :: "int option"
  ut_request_body_read_ms :: "int option"
  ut_request_json_parse_ms :: "int option"
  ut_pre_handler_ms :: "int option"
  ut_first_sse_write_ms :: "int option"
  ut_stream_finish_ms :: "int option"

record usage_stream_details =
  us_stream_completed_cleanly :: "bool option"
  us_downstream_disconnect :: "bool option"
  us_final_event_type :: "string option"
  us_bytes_streamed :: "int option"

record usage_retry_details =
  ur_same_account_retry_count :: nat
  ur_same_account_retry_delay_ms :: int
  ur_same_account_retry_reasons :: "string list"

record usage_event =
  ue_event_id :: string
  ue_created_at_ms :: int
  ue_provider_type :: provider_type
  ue_protocol_family :: protocol_family
  ue_key_id :: string
  ue_key_name :: string
  ue_account_name :: "string option"
  ue_account_group_id_at_event :: "string option"
  ue_route_strategy_at_event :: "route_strategy option"
  ue_request_method :: string
  ue_request_url :: string
  ue_endpoint :: string
  ue_model :: "string option"
  ue_mapped_model :: "string option"
  ue_status_code :: int
  ue_request_body_bytes :: "int option"
  ue_quota_failover_count :: nat
  ue_retry :: usage_retry_details
  ue_routing_diagnostics_json :: "string option"
  ue_input_uncached_tokens :: int
  ue_input_cached_tokens :: int
  ue_output_tokens :: int
  ue_billable_tokens :: int
  ue_credit_usage :: "string option"
  ue_usage_missing :: bool
  ue_credit_usage_missing :: bool
  ue_client_ip :: string
  ue_ip_region :: string
  ue_request_headers_json :: string
  ue_last_message_content :: "string option"
  ue_client_request_body_json :: "string option"
  ue_upstream_request_body_json :: "string option"
  ue_full_request_json :: "string option"
  ue_error_message :: "string option"
  ue_error_class :: "string option"
  ue_session_blocked :: bool
  ue_response_image_count :: "int option"
  ue_error_body :: "string option"
  ue_response_body :: "string option"
  ue_timing :: usage_timing
  ue_stream :: usage_stream_details

record journal_usage_event =
  je_schema_version :: nat
  je_event_id :: string
  je_created_at_ms :: int
  je_provider_type :: provider_type
  je_protocol_family :: protocol_family
  je_key_id :: string
  je_key_name :: string
  je_account_name :: "string option"
  je_account_group_id_at_event :: "string option"
  je_route_strategy_at_event :: "route_strategy option"
  je_request_method :: string
  je_request_url :: string
  je_endpoint :: string
  je_model :: "string option"
  je_mapped_model :: "string option"
  je_status_code :: int
  je_request_body_bytes :: "int option"
  je_quota_failover_count :: nat
  je_retry :: usage_retry_details
  je_routing_diagnostics_json :: "string option"
  je_input_uncached_tokens :: int
  je_input_cached_tokens :: int
  je_output_tokens :: int
  je_billable_tokens :: int
  je_credit_usage :: "string option"
  je_usage_missing :: bool
  je_credit_usage_missing :: bool
  je_client_ip :: string
  je_ip_region :: string
  je_request_headers_json :: string
  je_last_message_content :: "string option"
  je_client_request_body_json :: "string option"
  je_upstream_request_body_json :: "string option"
  je_full_request_json :: "string option"
  je_error_message :: "string option"
  je_error_class :: "string option"
  je_session_blocked :: bool
  je_response_image_count :: "int option"
  je_error_body :: "string option"
  je_response_body :: "string option"
  je_timing :: usage_timing
  je_stream :: usage_stream_details

record legacy_usage_event =
  lj_schema_version :: nat
  lj_event_id :: string
  lj_created_at_ms :: int
  lj_provider_type :: provider_type
  lj_protocol_family :: protocol_family
  lj_key_id :: string
  lj_key_name :: string
  lj_account_name :: "string option"
  lj_account_group_id_at_event :: "string option"
  lj_route_strategy_at_event :: "route_strategy option"
  lj_request_method :: string
  lj_request_url :: string
  lj_endpoint :: string
  lj_model :: "string option"
  lj_mapped_model :: "string option"
  lj_status_code :: int
  lj_request_body_bytes :: "int option"
  lj_quota_failover_count :: nat
  lj_routing_diagnostics_json :: "string option"
  lj_input_uncached_tokens :: int
  lj_input_cached_tokens :: int
  lj_output_tokens :: int
  lj_billable_tokens :: int
  lj_credit_usage :: "string option"
  lj_usage_missing :: bool
  lj_credit_usage_missing :: bool
  lj_client_ip :: string
  lj_ip_region :: string
  lj_request_headers_json :: string
  lj_last_message_content :: "string option"
  lj_client_request_body_json :: "string option"
  lj_upstream_request_body_json :: "string option"
  lj_full_request_json :: "string option"
  lj_timing :: usage_timing
  lj_stream :: usage_stream_details

record legacy_usage_event_with_errors =
  lp_schema_version :: nat
  lp_event_id :: string
  lp_created_at_ms :: int
  lp_provider_type :: provider_type
  lp_protocol_family :: protocol_family
  lp_key_id :: string
  lp_key_name :: string
  lp_account_name :: "string option"
  lp_account_group_id_at_event :: "string option"
  lp_route_strategy_at_event :: "route_strategy option"
  lp_request_method :: string
  lp_request_url :: string
  lp_endpoint :: string
  lp_model :: "string option"
  lp_mapped_model :: "string option"
  lp_status_code :: int
  lp_request_body_bytes :: "int option"
  lp_quota_failover_count :: nat
  lp_routing_diagnostics_json :: "string option"
  lp_input_uncached_tokens :: int
  lp_input_cached_tokens :: int
  lp_output_tokens :: int
  lp_billable_tokens :: int
  lp_credit_usage :: "string option"
  lp_usage_missing :: bool
  lp_credit_usage_missing :: bool
  lp_client_ip :: string
  lp_ip_region :: string
  lp_request_headers_json :: string
  lp_last_message_content :: "string option"
  lp_client_request_body_json :: "string option"
  lp_upstream_request_body_json :: "string option"
  lp_full_request_json :: "string option"
  lp_error_message :: "string option"
  lp_error_body :: "string option"
  lp_response_body :: "string option"
  lp_timing :: usage_timing
  lp_stream :: usage_stream_details

definition default_retry :: usage_retry_details where
  "default_retry =
     \<lparr>ur_same_account_retry_count = 0, ur_same_account_retry_delay_ms = 0,
      ur_same_account_retry_reasons = []\<rparr>"

definition from_usage_event :: "usage_event \<Rightarrow> journal_usage_event" where
  "from_usage_event e =
    \<lparr>je_schema_version = SCHEMA_VERSION_V1,
     je_event_id = ue_event_id e,
     je_created_at_ms = ue_created_at_ms e,
     je_provider_type = ue_provider_type e,
     je_protocol_family = ue_protocol_family e,
     je_key_id = ue_key_id e,
     je_key_name = ue_key_name e,
     je_account_name = ue_account_name e,
     je_account_group_id_at_event = ue_account_group_id_at_event e,
     je_route_strategy_at_event = ue_route_strategy_at_event e,
     je_request_method = ue_request_method e,
     je_request_url = ue_request_url e,
     je_endpoint = ue_endpoint e,
     je_model = ue_model e,
     je_mapped_model = ue_mapped_model e,
     je_status_code = ue_status_code e,
     je_request_body_bytes = ue_request_body_bytes e,
     je_quota_failover_count = ue_quota_failover_count e,
     je_retry = ue_retry e,
     je_routing_diagnostics_json = ue_routing_diagnostics_json e,
     je_input_uncached_tokens = ue_input_uncached_tokens e,
     je_input_cached_tokens = ue_input_cached_tokens e,
     je_output_tokens = ue_output_tokens e,
     je_billable_tokens = ue_billable_tokens e,
     je_credit_usage = ue_credit_usage e,
     je_usage_missing = ue_usage_missing e,
     je_credit_usage_missing = ue_credit_usage_missing e,
     je_client_ip = ue_client_ip e,
     je_ip_region = ue_ip_region e,
     je_request_headers_json = ue_request_headers_json e,
     je_last_message_content = ue_last_message_content e,
     je_client_request_body_json = ue_client_request_body_json e,
     je_upstream_request_body_json = ue_upstream_request_body_json e,
     je_full_request_json = ue_full_request_json e,
     je_error_message = ue_error_message e,
     je_error_class = ue_error_class e,
     je_session_blocked = ue_session_blocked e,
     je_response_image_count = ue_response_image_count e,
     je_error_body = ue_error_body e,
     je_response_body = ue_response_body e,
     je_timing = ue_timing e,
     je_stream = ue_stream e\<rparr>"

definition into_usage_event :: "journal_usage_event \<Rightarrow> usage_event" where
  "into_usage_event j =
    \<lparr>ue_event_id = je_event_id j,
     ue_created_at_ms = je_created_at_ms j,
     ue_provider_type = je_provider_type j,
     ue_protocol_family = je_protocol_family j,
     ue_key_id = je_key_id j,
     ue_key_name = je_key_name j,
     ue_account_name = je_account_name j,
     ue_account_group_id_at_event = je_account_group_id_at_event j,
     ue_route_strategy_at_event = je_route_strategy_at_event j,
     ue_request_method = je_request_method j,
     ue_request_url = je_request_url j,
     ue_endpoint = je_endpoint j,
     ue_model = je_model j,
     ue_mapped_model = je_mapped_model j,
     ue_status_code = je_status_code j,
     ue_request_body_bytes = je_request_body_bytes j,
     ue_quota_failover_count = je_quota_failover_count j,
     ue_retry = je_retry j,
     ue_routing_diagnostics_json = je_routing_diagnostics_json j,
     ue_input_uncached_tokens = je_input_uncached_tokens j,
     ue_input_cached_tokens = je_input_cached_tokens j,
     ue_output_tokens = je_output_tokens j,
     ue_billable_tokens = je_billable_tokens j,
     ue_credit_usage = je_credit_usage j,
     ue_usage_missing = je_usage_missing j,
     ue_credit_usage_missing = je_credit_usage_missing j,
     ue_client_ip = je_client_ip j,
     ue_ip_region = je_ip_region j,
     ue_request_headers_json = je_request_headers_json j,
     ue_last_message_content = je_last_message_content j,
     ue_client_request_body_json = je_client_request_body_json j,
     ue_upstream_request_body_json = je_upstream_request_body_json j,
     ue_full_request_json = je_full_request_json j,
     ue_error_message = je_error_message j,
     ue_error_class = je_error_class j,
     ue_session_blocked = je_session_blocked j,
     ue_response_image_count = je_response_image_count j,
     ue_error_body = je_error_body j,
     ue_response_body = je_response_body j,
     ue_timing = je_timing j,
     ue_stream = je_stream j\<rparr>"

definition legacy_into_current :: "legacy_usage_event \<Rightarrow> journal_usage_event" where
  "legacy_into_current l =
    \<lparr>je_schema_version = lj_schema_version l,
     je_event_id = lj_event_id l,
     je_created_at_ms = lj_created_at_ms l,
     je_provider_type = lj_provider_type l,
     je_protocol_family = lj_protocol_family l,
     je_key_id = lj_key_id l,
     je_key_name = lj_key_name l,
     je_account_name = lj_account_name l,
     je_account_group_id_at_event = lj_account_group_id_at_event l,
     je_route_strategy_at_event = lj_route_strategy_at_event l,
     je_request_method = lj_request_method l,
     je_request_url = lj_request_url l,
     je_endpoint = lj_endpoint l,
     je_model = lj_model l,
     je_mapped_model = lj_mapped_model l,
     je_status_code = lj_status_code l,
     je_request_body_bytes = lj_request_body_bytes l,
     je_quota_failover_count = lj_quota_failover_count l,
     je_retry = default_retry,
     je_routing_diagnostics_json = lj_routing_diagnostics_json l,
     je_input_uncached_tokens = lj_input_uncached_tokens l,
     je_input_cached_tokens = lj_input_cached_tokens l,
     je_output_tokens = lj_output_tokens l,
     je_billable_tokens = lj_billable_tokens l,
     je_credit_usage = lj_credit_usage l,
     je_usage_missing = lj_usage_missing l,
     je_credit_usage_missing = lj_credit_usage_missing l,
     je_client_ip = lj_client_ip l,
     je_ip_region = lj_ip_region l,
     je_request_headers_json = lj_request_headers_json l,
     je_last_message_content = lj_last_message_content l,
     je_client_request_body_json = lj_client_request_body_json l,
     je_upstream_request_body_json = lj_upstream_request_body_json l,
     je_full_request_json = lj_full_request_json l,
     je_error_message = None,
     je_error_class = None,
     je_session_blocked = False,
     je_response_image_count = None,
     je_error_body = None,
     je_response_body = None,
     je_timing = lj_timing l,
     je_stream = lj_stream l\<rparr>"

definition legacy_with_errors_into_current :: "legacy_usage_event_with_errors \<Rightarrow> journal_usage_event" where
  "legacy_with_errors_into_current l =
    \<lparr>je_schema_version = lp_schema_version l,
     je_event_id = lp_event_id l,
     je_created_at_ms = lp_created_at_ms l,
     je_provider_type = lp_provider_type l,
     je_protocol_family = lp_protocol_family l,
     je_key_id = lp_key_id l,
     je_key_name = lp_key_name l,
     je_account_name = lp_account_name l,
     je_account_group_id_at_event = lp_account_group_id_at_event l,
     je_route_strategy_at_event = lp_route_strategy_at_event l,
     je_request_method = lp_request_method l,
     je_request_url = lp_request_url l,
     je_endpoint = lp_endpoint l,
     je_model = lp_model l,
     je_mapped_model = lp_mapped_model l,
     je_status_code = lp_status_code l,
     je_request_body_bytes = lp_request_body_bytes l,
     je_quota_failover_count = lp_quota_failover_count l,
     je_retry = default_retry,
     je_routing_diagnostics_json = lp_routing_diagnostics_json l,
     je_input_uncached_tokens = lp_input_uncached_tokens l,
     je_input_cached_tokens = lp_input_cached_tokens l,
     je_output_tokens = lp_output_tokens l,
     je_billable_tokens = lp_billable_tokens l,
     je_credit_usage = lp_credit_usage l,
     je_usage_missing = lp_usage_missing l,
     je_credit_usage_missing = lp_credit_usage_missing l,
     je_client_ip = lp_client_ip l,
     je_ip_region = lp_ip_region l,
     je_request_headers_json = lp_request_headers_json l,
     je_last_message_content = lp_last_message_content l,
     je_client_request_body_json = lp_client_request_body_json l,
     je_upstream_request_body_json = lp_upstream_request_body_json l,
     je_full_request_json = lp_full_request_json l,
     je_error_message = lp_error_message l,
     je_error_class = None,
     je_session_blocked = False,
     je_response_image_count = None,
     je_error_body = lp_error_body l,
     je_response_body = lp_response_body l,
     je_timing = lp_timing l,
     je_stream = lp_stream l\<rparr>"

section \<open>Headers and footer of a file\<close>

record file_header =
  fh_magic :: "byte list"
  fh_format_version :: nat
  fh_schema_version :: nat
  fh_file_sequence :: nat
  fh_created_at_ms :: int
  fh_writer_id :: string
  fh_compression :: string

record block_header =
  bh_block_sequence :: nat
  bh_event_count :: nat
  bh_min_created_at_ms :: int
  bh_max_created_at_ms :: int
  bh_uncompressed_len :: nat
  bh_compressed_len :: nat
  bh_crc32c :: u32

record file_footer =
  ff_file_sequence :: nat
  ff_created_at_ms :: int
  ff_sealed_at_ms :: int
  ff_event_count :: nat
  ff_block_count :: nat
  ff_min_created_at_ms :: "int option"
  ff_max_created_at_ms :: "int option"
  ff_uncompressed_bytes :: nat
  ff_compressed_bytes :: nat

section \<open>Rollup batches\<close>

record 'f rollup_delta =
  rd_key_id :: string
  rd_input_uncached_tokens :: int
  rd_input_cached_tokens :: int
  rd_output_tokens :: int
  rd_billable_tokens :: int
  rd_credit_total :: 'f
  rd_credit_missing_events :: int
  rd_last_used_at_ms :: "int option"

record rollup_last_used_count =
  rc_key_id :: string
  rc_last_used_at_ms :: int
  rc_count :: nat

record 'f rollup_batch =
  rb_batch_id :: string
  rb_source_node_id :: "string option"
  rb_created_at_ms :: int
  rb_source_event_count :: nat
  rb_deltas :: "'f rollup_delta list"
  rb_last_used_at_ms_counts :: "rollup_last_used_count list"

record 'f journal_rollup_delta =
  jd_schema_version :: nat
  jd_key_id :: string
  jd_input_uncached_tokens :: int
  jd_input_cached_tokens :: int
  jd_output_tokens :: int
  jd_billable_tokens :: int
  jd_credit_total :: 'f
  jd_credit_missing_events :: int
  jd_last_used_at_ms :: "int option"

record journal_rollup_last_used_count =
  jc_schema_version :: nat
  jc_key_id :: string
  jc_last_used_at_ms :: int
  jc_count :: nat

record 'f journal_rollup_batch =
  jb_schema_version :: nat
  jb_batch_id :: string
  jb_source_node_id :: "string option"
  jb_created_at_ms :: int
  jb_source_event_count :: nat
  jb_deltas :: "'f journal_rollup_delta list"
  jb_last_used_at_ms_counts :: "journal_rollup_last_used_count list"

record 'f legacy_rollup_batch =
  lb_schema_version :: nat
  lb_batch_id :: string
  lb_source_node_id :: "string option"
  lb_created_at_ms :: int
  lb_source_event_count :: nat
  lb_deltas :: "'f journal_rollup_delta list"

definition from_rollup_delta :: "'f rollup_delta \<Rightarrow> 'f journal_rollup_delta" where
  "from_rollup_delta d =
     \<lparr>jd_schema_version = SCHEMA_VERSION_V1,
      jd_key_id = rd_key_id d,
      jd_input_uncached_tokens = rd_input_uncached_tokens d,
      jd_input_cached_tokens = rd_input_cached_tokens d,
      jd_output_tokens = rd_output_tokens d,
      jd_billable_tokens = rd_billable_tokens d,
      jd_credit_total = rd_credit_total d,
      jd_credit_missing_events = rd_credit_missing_events d,
      jd_last_used_at_ms = rd_last_used_at_ms d\<rparr>"

definition into_rollup_delta :: "'f journal_rollup_delta \<Rightarrow> 'f rollup_delta" where
  "into_rollup_delta d =
     \<lparr>rd_key_id = jd_key_id d,
      rd_input_uncached_tokens = jd_input_uncached_tokens d,
      rd_input_cached_tokens = jd_input_cached_tokens d,
      rd_output_tokens = jd_output_tokens d,
      rd_billable_tokens = jd_billable_tokens d,
      rd_credit_total = jd_credit_total d,
      rd_credit_missing_events = jd_credit_missing_events d,
      rd_last_used_at_ms = jd_last_used_at_ms d\<rparr>"

definition from_rollup_last_used_count ::
  "rollup_last_used_count \<Rightarrow> journal_rollup_last_used_count" where
  "from_rollup_last_used_count c =
     \<lparr>jc_schema_version = SCHEMA_VERSION_V1,
      jc_key_id = rc_key_id c,
      jc_last_used_at_ms = rc_last_used_at_ms c,
      jc_count = rc_count c\<rparr>"

definition into_rollup_last_used_count ::
  "journal_rollup_last_used_count \<Rightarrow> rollup_last_used_count" where
  "into_rollup_last_used_count c =
     \<lparr>rc_key_id = jc_key_id c,
      rc_last_used_at_ms = jc_last_used_at_ms c,
      rc_count = jc_count c\<rparr>"

definition from_rollup_batch :: "'f rollup_batch \<Rightarrow> 'f journal_rollup_batch" where
  "from_rollup_batch b =
     \<lparr>jb_schema_version = SCHEMA_VERSION_V1,
      jb_batch_id = rb_batch_id b,
      jb_source_node_id = rb_source_node_id b,
      jb_created_at_ms = rb_created_at_ms b,
      jb_source_event_count = rb_source_event_count b,
      jb_deltas = map from_rollup_delta (rb_deltas b),
      jb_last_used_at_ms_counts =
        map from_rollup_last_used_count (rb_last_used_at_ms_counts b)\<rparr>"

definition into_rollup_batch :: "'f journal_rollup_batch \<Rightarrow> 'f rollup_batch" where
  "into_rollup_batch b =
     \<lparr>rb_batch_id = jb_batch_id b,
      rb_source_node_id = jb_source_node_id b,
      rb_created_at_ms = jb_created_at_ms b,
      rb_source_event_count = jb_source_event_count b,
      rb_deltas = map into_rollup_delta (jb_deltas b),
      rb_last_used_at_ms_counts =
        map into_rollup_last_used_count (jb_last_used_at_ms_counts b)\<rparr>"

definition legacy_rollup_into_current :: "'f legacy_rollup_batch \<Rightarrow> 'f journal_rollup_batch" where
  "legacy_rollup_into_current b =
     \<lparr>jb_schema_version = lb_schema_version b,
      jb_batch_id = lb_batch_id b,
      jb_source_node_id = lb_source_node_id b,
      jb_created_at_ms = lb_created_at_ms b,
      jb_source_event_count = lb_source_event_count b,
      jb_deltas = lb_deltas b,
      jb_last_used_at_ms_counts = []\<rparr>"

section \<open>The codecs\<close>

text \<open>
  \<open>postcard::to_allocvec\<close> and \<open>postcard::from_bytes\<close> at the types of the container, with the
  compression (which takes the configured level) and the digests.
\<close>

record journal_codec =
  encode_file_header :: "file_header \<Rightarrow> byte list option"
  decode_file_header :: "byte list \<Rightarrow> file_header option"
  encode_block_header :: "block_header \<Rightarrow> byte list option"
  decode_block_header :: "byte list \<Rightarrow> block_header option"
  encode_file_footer :: "file_footer \<Rightarrow> byte list option"
  decode_file_footer :: "byte list \<Rightarrow> file_footer option"
  zstd_encode_all :: "int \<Rightarrow> byte list \<Rightarrow> byte list option"
  zstd_decode_all :: "byte list \<Rightarrow> byte list option"
  crc32c :: "byte list \<Rightarrow> u32"
  sha256_hex :: "byte list \<Rightarrow> string"

record usage_codec = journal_codec +
  encode_usage_event :: "journal_usage_event \<Rightarrow> byte list option"
  encode_usage_batch :: "journal_usage_event list \<Rightarrow> byte list option"
  decode_current_usage_batch :: "byte list \<Rightarrow> journal_usage_event list option"
  decode_legacy_usage_batch_with_errors :: "byte list \<Rightarrow> legacy_usage_event_with_errors list option"
  decode_legacy_usage_batch :: "byte list \<Rightarrow> legacy_usage_event list option"

record 'f rollup_codec = journal_codec +
  encode_rollup_batch :: "'f journal_rollup_batch \<Rightarrow> byte list option"
  encode_rollup_block :: "'f journal_rollup_batch list \<Rightarrow> byte list option"
  decode_current_rollup_block :: "byte list \<Rightarrow> 'f journal_rollup_batch list option"
  decode_legacy_rollup_block :: "byte list \<Rightarrow> 'f legacy_rollup_batch list option"

text \<open>
  Decoding tries the current layout first and falls back to the older ones, whose missing
  fields get their defaults.
\<close>

definition decode_journal_usage_batch ::
  "usage_codec \<Rightarrow> byte list \<Rightarrow> journal_usage_event list option" where
  "decode_journal_usage_batch c bs =
     (case decode_current_usage_batch c bs of
        Some events \<Rightarrow> Some events
      | None \<Rightarrow>
          (case decode_legacy_usage_batch_with_errors c bs of
             Some legacy \<Rightarrow> Some (map legacy_with_errors_into_current legacy)
           | None \<Rightarrow>
               (case decode_legacy_usage_batch c bs of
                  Some legacy \<Rightarrow> Some (map legacy_into_current legacy)
                | None \<Rightarrow> None)))"

definition decode_journal_rollup_batch_block ::
  "'f rollup_codec \<Rightarrow> byte list \<Rightarrow> 'f journal_rollup_batch list option" where
  "decode_journal_rollup_batch_block c bs =
     (case decode_current_rollup_block c bs of
        Some batches \<Rightarrow> Some batches
      | None \<Rightarrow>
          (case decode_legacy_rollup_block c bs of
             Some legacy \<Rightarrow> Some (map legacy_rollup_into_current legacy)
           | None \<Rightarrow> None))"

definition encode_rollup_batch_v1 :: "'f rollup_codec \<Rightarrow> 'f rollup_batch \<Rightarrow> byte list option" where
  "encode_rollup_batch_v1 c b = encode_rollup_batch c (from_rollup_batch b)"

section \<open>Round trips\<close>

lemma into_from_usage_event [simp]: "into_usage_event (from_usage_event e) = e"
  by (cases e) (simp add: into_usage_event_def from_usage_event_def)

lemma created_at_from_usage_event [simp]:
  "je_created_at_ms (from_usage_event e) = ue_created_at_ms e"
  by (simp add: from_usage_event_def)

lemma into_from_rollup_delta [simp]: "into_rollup_delta (from_rollup_delta d) = d"
  by (cases d) (simp add: into_rollup_delta_def from_rollup_delta_def)

lemma into_from_rollup_last_used_count [simp]:
  "into_rollup_last_used_count (from_rollup_last_used_count c) = c"
  by (cases c) (simp add: into_rollup_last_used_count_def from_rollup_last_used_count_def)

lemma into_from_rollup_batch [simp]: "into_rollup_batch (from_rollup_batch b) = b"
  by (cases b) (simp add: into_rollup_batch_def from_rollup_batch_def comp_def)

lemma map_into_from [simp]:
  "map (into_usage_event \<circ> from_usage_event) es = es"
  "map (into_rollup_batch \<circ> from_rollup_batch) bs = bs"
  by (simp_all add: comp_def)

end
