(* ===== verification/JournalFile.thy ===== *)
theory JournalFile
  imports JournalWire
begin

text \<open>
  One file of the journal: the writer of \<open>crates/llm-usage-journal/src/writer.rs\<close>, which
  buffers items and appends compressed blocks, and the readers of \<open>reader.rs\<close>.  The rollup
  journal (\<open>rollup.rs\<close>) uses the same container for other items, so what the two differ in
  is an argument: \<open>payload\<close> holds the magic bytes, the conversion to the wire record, its
  time stamp and its serialisation.

  A file is the list of its bytes.  Appending to it and syncing it succeed; a read past the
  end is the error it is in the code.  The writer carries the bytes it has written.
\<close>

datatype journal_error =
    EncodeError
  | CompressError
  | ReadError string
  | InvalidMagic
  | DecodeError
  | UnexpectedTag "byte list"
  | EndedBeforeFooter
  | CrcMismatch u32 u32
  | ZstdDecodeError
  | LengthMismatch nat nat
  | NotFullyConsumed
  | FinishedWithoutFooter
  | EmptyBlock
  | MissingOutput
  | SequenceMismatch nat nat
  | CapacityOverflow

text \<open>\<open>CapacityOverflow\<close> is a panic: \<open>vec![0u8; len]\<close> for more bytes than \<open>isize::MAX\<close>.\<close>

section \<open>Configuration and payloads\<close>

record journal_config =
  max_file_bytes :: nat
  max_file_age_ms :: nat
  max_files :: nat
  block_target_uncompressed_bytes :: nat
  block_max_events :: nat
  fsync_interval_ms :: nat
  zstd_level :: int
  consumer_lease_ms :: nat
  delete_bad_files :: bool

definition journal_config_new :: journal_config where
  "journal_config_new =
     \<lparr>max_file_bytes = 64 * 1024 * 1024,
      max_file_age_ms = 300000,
      max_files = 128,
      block_target_uncompressed_bytes = 1024 * 1024,
      block_max_events = 1024,
      fsync_interval_ms = 250,
      zstd_level = 3,
      consumer_lease_ms = 300000,
      delete_bad_files = False\<rparr>"

record ('r, 'e) payload =
  payload_magic :: "byte list"
  payload_convert :: "'r \<Rightarrow> 'e"
  payload_created_at :: "'e \<Rightarrow> int"
  payload_encode_item :: "'e \<Rightarrow> byte list option"
  payload_encode_batch :: "'e list \<Rightarrow> byte list option"
  payload_decode_batch :: "byte list \<Rightarrow> 'e list option"

definition usage_payload :: "usage_codec \<Rightarrow> (usage_event, journal_usage_event) payload" where
  "usage_payload c =
     \<lparr>payload_magic = FILE_MAGIC_V1,
      payload_convert = from_usage_event,
      payload_created_at = je_created_at_ms,
      payload_encode_item = encode_usage_event c,
      payload_encode_batch = encode_usage_batch c,
      payload_decode_batch = decode_journal_usage_batch c\<rparr>"

section \<open>The writer\<close>

definition BLOCK_TAG :: "byte list" where
  "BLOCK_TAG = str_bytes ''BLK1''"

definition FOOTER_TAG :: "byte list" where
  "FOOTER_TAG = str_bytes ''FTR1''"

record 'e journal_writer =
  jw_config :: journal_config
  jw_file :: "byte list"
  jw_file_sequence :: nat
  jw_created_at_ms :: int
  jw_block_sequence :: nat
  jw_pending_events :: "'e list"
  jw_pending_uncompressed_bytes :: nat
  jw_event_count :: nat
  jw_min_created_at_ms :: "int option"
  jw_max_created_at_ms :: "int option"
  jw_uncompressed_bytes :: nat
  jw_compressed_bytes :: nat

text \<open>The length is written as a \<open>u32\<close>: \<open>le_bytes 4\<close> keeps the low 32 bits.\<close>

definition write_record ::
  "byte list \<Rightarrow> byte list \<Rightarrow> byte list option \<Rightarrow> journal_error + byte list" where
  "write_record file tag encoded =
     (case encoded of
        None \<Rightarrow> Inl EncodeError
      | Some bytes \<Rightarrow> Inr (file @ tag @ le_bytes 4 (length bytes) @ bytes))"

definition write_file_header ::
  "('x) journal_codec_scheme \<Rightarrow> byte list \<Rightarrow> file_header \<Rightarrow> journal_error + byte list" where
  "write_file_header c file header =
     (case encode_file_header c header of
        None \<Rightarrow> Inl EncodeError
      | Some bytes \<Rightarrow> Inr (file @ fh_magic header @ le_bytes 4 (length bytes) @ bytes))"

definition block_crc32c ::
  "('x) journal_codec_scheme \<Rightarrow> block_header \<Rightarrow> byte list \<Rightarrow> journal_error + u32" where
  "block_crc32c c header compressed =
     (case encode_block_header c (header\<lparr>bh_crc32c := 0\<rparr>) of
        None \<Rightarrow> Inl EncodeError
      | Some bytes \<Rightarrow> Inr (crc32c c (bytes @ compressed)))"

text \<open>The part of \<open>open\<close> that writes the new file; the directories come later.\<close>

definition new_file_header ::
  "('r, 'e) payload \<Rightarrow> nat \<Rightarrow> int \<Rightarrow> nat \<Rightarrow> file_header" where
  "new_file_header p sequence now pid =
     \<lparr>fh_magic = payload_magic p,
      fh_format_version = FORMAT_VERSION_V1,
      fh_schema_version = SCHEMA_VERSION_V1,
      fh_file_sequence = sequence,
      fh_created_at_ms = now,
      fh_writer_id = ''pid-'' @ show_nat pid,
      fh_compression = ''zstd''\<rparr>"

definition writer_create ::
  "('x) journal_codec_scheme \<Rightarrow> ('r, 'e) payload \<Rightarrow> journal_config \<Rightarrow> nat \<Rightarrow> int \<Rightarrow> nat \<Rightarrow>
   journal_error + 'e journal_writer" where
  "writer_create c p config sequence now pid =
     (case write_file_header c [] (new_file_header p sequence now pid) of
        Inl e \<Rightarrow> Inl e
      | Inr file \<Rightarrow> Inr
          \<lparr>jw_config = config,
           jw_file = file,
           jw_file_sequence = sequence,
           jw_created_at_ms = now,
           jw_block_sequence = 0,
           jw_pending_events = [],
           jw_pending_uncompressed_bytes = 0,
           jw_event_count = 0,
           jw_min_created_at_ms = None,
           jw_max_created_at_ms = None,
           jw_uncompressed_bytes = 0,
           jw_compressed_bytes = 0\<rparr>)"

definition opt_min :: "int option \<Rightarrow> int \<Rightarrow> int option" where
  "opt_min current x = Some (case current of None \<Rightarrow> x | Some y \<Rightarrow> min y x)"

definition opt_max :: "int option \<Rightarrow> int \<Rightarrow> int option" where
  "opt_max current x = Some (case current of None \<Rightarrow> x | Some y \<Rightarrow> max y x)"

definition list_min :: "int list \<Rightarrow> int" where
  "list_min xs = fold min (tl xs) (hd xs)"

definition list_max :: "int list \<Rightarrow> int" where
  "list_max xs = fold max (tl xs) (hd xs)"

text \<open>
  The header of a block before its checksum is known.  \<open>batch.events.len() as u32\<close> wraps.
\<close>

definition block_header_of ::
  "('r, 'e) payload \<Rightarrow> nat \<Rightarrow> 'e list \<Rightarrow> byte list \<Rightarrow> byte list \<Rightarrow> block_header" where
  "block_header_of p sequence batch uncompressed compressed =
     \<lparr>bh_block_sequence = sequence,
      bh_event_count = length batch mod 2 ^ 32,
      bh_min_created_at_ms = list_min (map (payload_created_at p) batch),
      bh_max_created_at_ms = list_max (map (payload_created_at p) batch),
      bh_uncompressed_len = length uncompressed,
      bh_compressed_len = length compressed,
      bh_crc32c = 0\<rparr>"

text \<open>
  An error leaves through \<open>?\<close> with the state reached so far: the pending events have been
  taken, and nothing has been written.
\<close>

definition flush_pending_block ::
  "('x) journal_codec_scheme \<Rightarrow> ('r, 'e) payload \<Rightarrow> 'e journal_writer \<Rightarrow>
   (journal_error + unit) \<times> 'e journal_writer" where
  "flush_pending_block c p w =
     (if jw_pending_events w = [] then (Inr (), w)
      else
        (let batch = jw_pending_events w;
             w = w\<lparr>jw_pending_events := [], jw_pending_uncompressed_bytes := 0\<rparr>
         in (case payload_encode_batch p batch of
               None \<Rightarrow> (Inl EncodeError, w)
             | Some uncompressed \<Rightarrow>
                 (case zstd_encode_all c (zstd_level (jw_config w)) uncompressed of
                    None \<Rightarrow> (Inl CompressError, w)
                  | Some compressed \<Rightarrow>
                      (let header = block_header_of p (jw_block_sequence w) batch uncompressed compressed
                       in (case block_crc32c c header compressed of
                             Inl e \<Rightarrow> (Inl e, w)
                           | Inr crc \<Rightarrow>
                               (case write_record (jw_file w) BLOCK_TAG
                                       (encode_block_header c (header\<lparr>bh_crc32c := crc\<rparr>)) of
                                  Inl e \<Rightarrow> (Inl e, w)
                                | Inr file \<Rightarrow>
                                    (Inr (), w\<lparr>jw_file := file @ compressed,
                                        jw_block_sequence := sat_add_u64 (jw_block_sequence w) 1,
                                        jw_event_count :=
                                          sat_add_u64 (jw_event_count w) (bh_event_count header),
                                        jw_min_created_at_ms :=
                                          opt_min (jw_min_created_at_ms w) (bh_min_created_at_ms header),
                                        jw_max_created_at_ms :=
                                          opt_max (jw_max_created_at_ms w) (bh_max_created_at_ms header),
                                        jw_uncompressed_bytes :=
                                          sat_add_u64 (jw_uncompressed_bytes w) (length uncompressed),
                                        jw_compressed_bytes :=
                                          sat_add_u64 (jw_compressed_bytes w) (length compressed)\<rparr>))))))))"

fun append_events ::
  "('x) journal_codec_scheme \<Rightarrow> ('r, 'e) payload \<Rightarrow> 'r list \<Rightarrow> 'e journal_writer \<Rightarrow>
   (journal_error + unit) \<times> 'e journal_writer" where
  "append_events c p [] w = (Inr (), w)"
| "append_events c p (r # rs) w =
     (case (if max (block_max_events (jw_config w)) 1 \<le> length (jw_pending_events w)
            then flush_pending_block c p w else (Inr (), w)) of
        (Inl e, w1) \<Rightarrow> (Inl e, w1)
      | (Inr _, w1) \<Rightarrow>
          (case payload_encode_item p (payload_convert p r) of
             None \<Rightarrow> (Inl EncodeError, w1)
           | Some bytes \<Rightarrow>
               (let w2 = w1\<lparr>jw_pending_uncompressed_bytes :=
                              sat_add_u64 (jw_pending_uncompressed_bytes w1) (length bytes),
                            jw_pending_events := jw_pending_events w1 @ [payload_convert p r]\<rparr>
                in (case (if max (block_target_uncompressed_bytes (jw_config w2)) 1
                              \<le> jw_pending_uncompressed_bytes w2
                          then flush_pending_block c p w2 else (Inr (), w2)) of
                      (Inl e, w3) \<Rightarrow> (Inl e, w3)
                    | (Inr _, w3) \<Rightarrow> append_events c p rs w3))))"

text \<open>\<open>flush\<close> also syncs the file when \<open>fsync_interval_ms\<close> is zero, which changes no byte.\<close>

definition flush ::
  "('x) journal_codec_scheme \<Rightarrow> ('r, 'e) payload \<Rightarrow> 'e journal_writer \<Rightarrow>
   (journal_error + unit) \<times> 'e journal_writer" where
  "flush c p w = flush_pending_block c p w"

definition has_written_events :: "'e journal_writer \<Rightarrow> bool" where
  "has_written_events w = (0 < jw_event_count w)"

definition active_file_bytes :: "'e journal_writer \<Rightarrow> nat" where
  "active_file_bytes w = length (jw_file w)"

definition footer_of :: "'e journal_writer \<Rightarrow> int \<Rightarrow> file_footer" where
  "footer_of w now =
     \<lparr>ff_file_sequence = jw_file_sequence w,
      ff_created_at_ms = jw_created_at_ms w,
      ff_sealed_at_ms = now,
      ff_event_count = jw_event_count w,
      ff_block_count = jw_block_sequence w,
      ff_min_created_at_ms = jw_min_created_at_ms w,
      ff_max_created_at_ms = jw_max_created_at_ms w,
      ff_uncompressed_bytes = jw_uncompressed_bytes w,
      ff_compressed_bytes = jw_compressed_bytes w\<rparr>"

text \<open>The bytes of the sealed file; the rename follows with the directories.\<close>

definition seal_bytes ::
  "('x) journal_codec_scheme \<Rightarrow> ('r, 'e) payload \<Rightarrow> int \<Rightarrow> 'e journal_writer \<Rightarrow>
   (journal_error + byte list) \<times> 'e journal_writer" where
  "seal_bytes c p now w =
     (case flush_pending_block c p w of
        (Inl e, w') \<Rightarrow> (Inl e, w')
      | (Inr _, w') \<Rightarrow>
          (write_record (jw_file w') FOOTER_TAG (encode_file_footer c (footer_of w' now)), w'))"

section \<open>The readers\<close>

definition read_exact :: "string \<Rightarrow> nat \<Rightarrow> byte list \<Rightarrow> journal_error + (byte list \<times> byte list)" where
  "read_exact ctx n file =
     (if n \<le> length file then Inr (take n file, drop n file) else Inl (ReadError ctx))"

definition read_exact_bytes ::
  "string \<Rightarrow> nat \<Rightarrow> byte list \<Rightarrow> journal_error + (byte list \<times> byte list)" where
  "read_exact_bytes ctx n file =
     (if i64_max < int n then Inl CapacityOverflow else read_exact ctx n file)"

definition read_len_prefixed_payload ::
  "string \<Rightarrow> string \<Rightarrow> byte list \<Rightarrow> journal_error + (byte list \<times> byte list)" where
  "read_len_prefixed_payload len_ctx ctx file =
     (case read_exact len_ctx 4 file of
        Inl e \<Rightarrow> Inl e
      | Inr (len, rest) \<Rightarrow> read_exact_bytes ctx (le_nat len) rest)"

definition read_record_payload ::
  "(byte list \<Rightarrow> 'v option) \<Rightarrow> byte list \<Rightarrow> journal_error + ('v \<times> byte list)" where
  "read_record_payload decode file =
     (case read_len_prefixed_payload ''failed to read journal record length''
             ''failed to read journal record payload'' file of
        Inl e \<Rightarrow> Inl e
      | Inr (bytes, rest) \<Rightarrow>
          (case decode bytes of None \<Rightarrow> Inl DecodeError | Some v \<Rightarrow> Inr (v, rest)))"

definition read_file_header ::
  "('x) journal_codec_scheme \<Rightarrow> byte list \<Rightarrow> byte list \<Rightarrow> journal_error + (file_header \<times> byte list)" where
  "read_file_header c expected_magic file =
     (case read_exact ''failed to read journal magic'' 8 file of
        Inl e \<Rightarrow> Inl e
      | Inr (magic, rest) \<Rightarrow>
          (if magic \<noteq> expected_magic then Inl InvalidMagic
           else read_record_payload (decode_file_header c) rest))"

definition read_record_tag :: "byte list \<Rightarrow> journal_error + (byte list \<times> byte list)" where
  "read_record_tag file = (if 4 \<le> length file then Inr (take 4 file, drop 4 file) else Inl EndedBeforeFooter)"

definition validate_block ::
  "('x) journal_codec_scheme \<Rightarrow> block_header \<Rightarrow> byte list \<Rightarrow> journal_error + unit" where
  "validate_block c header compressed =
     (case block_crc32c c header compressed of
        Inl e \<Rightarrow> Inl e
      | Inr actual \<Rightarrow>
          (if actual \<noteq> bh_crc32c header then Inl (CrcMismatch (bh_crc32c header) actual) else Inr ()))"

end
