(* ===== verification/JournalFileTheorems.thy ===== *)
theory JournalFileTheorems
  imports JournalReader
begin

text \<open>
  What one journal file holds.  \<open>container_contract\<close> and \<open>payload_contract\<close> state what the
  code relies on of \<open>postcard\<close> and \<open>zstd\<close>: values in the range of their Rust types are
  encoded in less than 4 GiB and decoded to themselves.  \<open>writer_inv\<close> is the invariant of the
  writer: its file is a header followed by intact blocks, and the blocks followed by the
  pending events are the events appended so far.
\<close>

section \<open>The contract of the codecs\<close>

definition i64_range :: "int \<Rightarrow> bool" where
  "i64_range x = (i64_min \<le> x \<and> x \<le> i64_max)"

definition file_header_fits :: "file_header \<Rightarrow> bool" where
  "file_header_fits h =
     (length (fh_magic h) = 8 \<and> fh_format_version h < 2 ^ 16 \<and> fh_schema_version h < 2 ^ 16 \<and>
      fh_file_sequence h \<le> u64_max \<and> i64_range (fh_created_at_ms h) \<and>
      length (fh_writer_id h) < 2 ^ 16 \<and> length (fh_compression h) < 2 ^ 16)"

definition block_header_fits :: "block_header \<Rightarrow> bool" where
  "block_header_fits h =
     (bh_block_sequence h \<le> u64_max \<and> bh_event_count h < 2 ^ 32 \<and>
      i64_range (bh_min_created_at_ms h) \<and> i64_range (bh_max_created_at_ms h) \<and>
      bh_uncompressed_len h \<le> u64_max \<and> bh_compressed_len h \<le> u64_max)"

definition file_footer_fits :: "file_footer \<Rightarrow> bool" where
  "file_footer_fits f =
     (ff_file_sequence f \<le> u64_max \<and> i64_range (ff_created_at_ms f) \<and> i64_range (ff_sealed_at_ms f) \<and>
      ff_event_count f \<le> u64_max \<and> ff_block_count f \<le> u64_max \<and>
      pred_option i64_range (ff_min_created_at_ms f) \<and> pred_option i64_range (ff_max_created_at_ms f) \<and>
      ff_uncompressed_bytes f \<le> u64_max \<and> ff_compressed_bytes f \<le> u64_max)"

definition encodes :: "('v \<Rightarrow> byte list option) \<Rightarrow> (byte list \<Rightarrow> 'v option) \<Rightarrow> 'v \<Rightarrow> bool" where
  "encodes enc dec v = (\<exists>bs. enc v = Some bs \<and> length bs < 2 ^ 32 \<and> dec bs = Some v)"

definition container_contract :: "('x) journal_codec_scheme \<Rightarrow> bool" where
  "container_contract c =
     ((\<forall>h. file_header_fits h \<longrightarrow> encodes (encode_file_header c) (decode_file_header c) h) \<and>
      (\<forall>h. block_header_fits h \<longrightarrow> encodes (encode_block_header c) (decode_block_header c) h) \<and>
      (\<forall>f. file_footer_fits f \<longrightarrow> encodes (encode_file_footer c) (decode_file_footer c) f))"

definition batch_encodes ::
  "('x) journal_codec_scheme \<Rightarrow> ('r, 'e) payload \<Rightarrow> int \<Rightarrow> 'e list \<Rightarrow> bool" where
  "batch_encodes c p level batch =
     (\<exists>un co. payload_encode_batch p batch = Some un \<and> payload_decode_batch p un = Some batch \<and>
        zstd_encode_all c level un = Some co \<and> zstd_decode_all c co = Some un \<and>
        int (length un) \<le> i64_max \<and> int (length co) \<le> i64_max)"

definition payload_contract ::
  "('x) journal_codec_scheme \<Rightarrow> ('r, 'e) payload \<Rightarrow> journal_config \<Rightarrow> 'e set \<Rightarrow> bool" where
  "payload_contract c p config items =
     (length (payload_magic p) = 8 \<and>
      (\<forall>e \<in> items. payload_encode_item p e \<noteq> None \<and> i64_range (payload_created_at p e)) \<and>
      (\<forall>batch. set batch \<subseteq> items \<and> batch \<noteq> [] \<and> length batch \<le> max (block_max_events config) 1 \<longrightarrow>
         batch_encodes c p (zstd_level config) batch))"

lemma encodesE:
  assumes "encodes enc dec v"
  obtains bs where "enc v = Some bs" "length bs < 2 ^ 32" "dec bs = Some v"
  using assms by (auto simp: encodes_def)

lemma container_contractD:
  assumes "container_contract c"
  shows "file_header_fits h \<Longrightarrow> encodes (encode_file_header c) (decode_file_header c) h"
    and "block_header_fits b \<Longrightarrow> encodes (encode_block_header c) (decode_block_header c) b"
    and "file_footer_fits f \<Longrightarrow> encodes (encode_file_footer c) (decode_file_footer c) f"
  using assms by (auto simp: container_contract_def)

lemma int_le_i64_max_nat: "int n \<le> i64_max \<Longrightarrow> n \<le> u64_max"
  by (simp add: i64_max_def u64_max_def)

section \<open>Records, tags and headers are read back\<close>

lemma length_tags [simp]: "length BLOCK_TAG = 4" "length FOOTER_TAG = 4"
  by (simp_all add: BLOCK_TAG_def FOOTER_TAG_def)

lemma tags_nonempty [simp]: "BLOCK_TAG \<noteq> []" "FOOTER_TAG \<noteq> []"
  by (simp_all add: BLOCK_TAG_def FOOTER_TAG_def str_bytes_def)

lemma tags_differ [simp]: "BLOCK_TAG \<noteq> FOOTER_TAG" "FOOTER_TAG \<noteq> BLOCK_TAG"
  by (simp_all add: BLOCK_TAG_def FOOTER_TAG_def str_bytes_def byte_of_char_def)

lemma read_exact_append [journal_read]:
  "length bs = n \<Longrightarrow> read_exact ctx n (bs @ rest) = Inr (bs, rest)"
  by (simp add: read_exact_def)

lemma read_exact_bytes_append [journal_read]:
  "length bs = n \<Longrightarrow> int n \<le> i64_max \<Longrightarrow> read_exact_bytes ctx n (bs @ rest) = Inr (bs, rest)"
  by (simp add: read_exact_bytes_def read_exact_append)

definition framed :: "byte list \<Rightarrow> byte list" where
  "framed bs = le_bytes 4 (length bs) @ bs"

lemma framed_small: "length bs < 2 ^ 32 \<Longrightarrow> le_nat (le_bytes 4 (length bs)) = length bs"
  by (rule le_nat_le_bytes) simp

lemma small_fits_i64: "n < 2 ^ 32 \<Longrightarrow> int n \<le> i64_max"
  by (simp add: i64_max_def)

lemma read_len_prefixed_framed [journal_read]:
  "length bs < 2 ^ 32 \<Longrightarrow> read_len_prefixed_payload lc ctx (framed bs @ rest) = Inr (bs, rest)"
  by (simp add: read_len_prefixed_payload_def framed_def read_exact_append framed_small
      read_exact_bytes_append small_fits_i64)

lemma read_record_payload_framed [journal_read]:
  "length bs < 2 ^ 32 \<Longrightarrow> dec bs = Some v \<Longrightarrow> read_record_payload dec (framed bs @ rest) = Inr (v, rest)"
  by (simp add: read_record_payload_def read_len_prefixed_framed)

lemma read_record_tag_append [journal_read]:
  "length tag = 4 \<Longrightarrow> read_record_tag (tag @ rest) = Inr (tag, rest)"
  by (simp add: read_record_tag_def)

lemma read_file_header_append [journal_read]:
  "length magic = 8 \<Longrightarrow> length bs < 2 ^ 32 \<Longrightarrow> decode_file_header c bs = Some h \<Longrightarrow>
   read_file_header c magic (magic @ framed bs @ rest) = Inr (h, rest)"
  by (simp add: read_file_header_def journal_read)

lemma read_file_header_hashed_plain:
  "read_file_header_hashed c magic s =
     (case read_file_header c magic (bs_file s) of
        Inl e \<Rightarrow> Inl e | Inr (h, rest) \<Rightarrow> Inr (h, advance rest s))"
proof (cases "read_exact ''failed to read journal magic'' 8 (bs_file s)")
  case (Inl e)
  then show ?thesis
    by (simp add: read_file_header_hashed_def read_file_header_def read_exact_tracked_plain)
next
  case (Inr r)
  then obtain m rest where r: "read_exact ''failed to read journal magic'' 8 (bs_file s) = Inr (m, rest)"
    by (cases r) auto
  have fl: "bs_file s = m @ rest"
    using read_exact_size[OF r] by simp
  show ?thesis
  proof (cases "read_record_payload (decode_file_header c) rest")
    case (Inl e)
    then show ?thesis
      by (simp add: read_file_header_hashed_def read_file_header_def read_exact_tracked_plain r
          read_record_payload_hashed_plain)
  next
    case (Inr q)
    then obtain h rest' where q: "read_record_payload (decode_file_header c) rest = Inr (h, rest')"
      by (cases q) auto
    obtain x where x: "rest = x @ rest'"
      using read_record_payload_size[OF q] by blast
    have adv: "advance rest' (advance rest s) = advance rest' s"
      unfolding x by (rule advance_advance) (simp add: fl x)
    show ?thesis
      by (simp add: read_file_header_hashed_def read_file_header_def read_exact_tracked_plain r
          read_record_payload_hashed_plain q adv)
  qed
qed

section \<open>Intact blocks\<close>

definition block_image ::
  "('x) journal_codec_scheme \<Rightarrow> ('r, 'e) payload \<Rightarrow> byte list \<Rightarrow> block_header \<Rightarrow> 'e list \<Rightarrow> bool" where
  "block_image c p bs h batch =
     (\<exists>hb co un. bs = BLOCK_TAG @ framed hb @ co \<and> length hb < 2 ^ 32 \<and>
        decode_block_header c hb = Some h \<and> bh_compressed_len h = length co \<and>
        int (length co) \<le> i64_max \<and> validate_block c h co = Inr () \<and>
        zstd_decode_all c co = Some un \<and> length un = bh_uncompressed_len h \<and>
        payload_decode_batch p un = Some batch)"

lemma block_imageE:
  assumes "block_image c p bs h batch"
  obtains hb co un where "bs = BLOCK_TAG @ framed hb @ co" "length hb < 2 ^ 32"
    "decode_block_header c hb = Some h" "bh_compressed_len h = length co"
    "int (length co) \<le> i64_max" "validate_block c h co = Inr ()"
    "zstd_decode_all c co = Some un" "length un = bh_uncompressed_len h"
    "payload_decode_batch p un = Some batch"
  using assms by (auto simp: block_image_def)

lemma scan_records_block:
  assumes "block_image c p bs h batch"
  shows "scan_records c (bs @ rest) = scan_records c rest"
  using assms
  by (elim block_imageE, subst scan_records.simps) (simp add: journal_read)

lemma scan_records_footer:
  assumes "length fb < 2 ^ 32" "decode_file_footer c fb = Some f"
  shows "scan_records c (FOOTER_TAG @ framed fb @ rest) = Inr f"
  using assms by (subst scan_records.simps) (simp add: journal_read)

lemma next_batch_block:
  assumes "block_image c p bs h batch" "\<not> bs_finished s" "bs_file s = bs @ rest"
  shows "next_batch c p s = Inr (Some batch, advance rest s)"
  using assms
proof (elim block_imageE)
  fix hb co un
  assume b: "bs = BLOCK_TAG @ framed hb @ co" "length hb < 2 ^ 32"
    "decode_block_header c hb = Some h" "bh_compressed_len h = length co"
    "int (length co) \<le> i64_max" "validate_block c h co = Inr ()"
    "zstd_decode_all c co = Some un" "length un = bh_uncompressed_len h"
    "payload_decode_batch p un = Some batch"
  have fl: "bs_file s = BLOCK_TAG @ framed hb @ co @ rest"
    using assms b by simp
  have a1: "advance (co @ rest) (advance (framed hb @ co @ rest) s) = advance (co @ rest) s"
    by (rule advance_advance) (rule fl)
  have a2: "advance rest (advance (co @ rest) s) = advance rest s"
    by (rule advance_advance[where a = "BLOCK_TAG @ framed hb"]) (simp add: fl)
  show ?thesis
    using assms(2) b a1 a2
    by (simp add: next_batch_def read_record_tag_hashed_plain read_record_payload_hashed_plain
        stream_read_exact_bytes_plain fl journal_read)
qed

lemma next_batch_footer:
  assumes "length fb < 2 ^ 32" "decode_file_footer c fb = Some f" "\<not> bs_finished s"
    "bs_file s = FOOTER_TAG @ framed fb @ rest"
  shows "next_batch c p s =
    Inr (None, (advance rest s)\<lparr>bs_finished := True, bs_footer := Some f\<rparr>)"
proof -
  have a1: "advance rest (advance (framed fb @ rest) s) = advance rest s"
    by (rule advance_advance) (rule assms(4))
  show ?thesis
    using assms a1
    by (simp add: next_batch_def read_record_tag_hashed_plain read_record_payload_hashed_plain
        journal_read)
qed

text \<open>A block as written: its bytes, its header and the batch it decodes to.\<close>

record 'e written_block =
  wb_bytes :: "byte list"
  wb_header :: block_header
  wb_batch :: "'e list"

definition blocks_bytes :: "'e written_block list \<Rightarrow> byte list" where
  "blocks_bytes blocks = concat (map wb_bytes blocks)"

definition block_batches :: "'e written_block list \<Rightarrow> 'e list list" where
  "block_batches blocks = map wb_batch blocks"

definition block_intact :: "('x) journal_codec_scheme \<Rightarrow> ('r, 'e) payload \<Rightarrow> 'e written_block \<Rightarrow> bool" where
  "block_intact c p b = block_image c p (wb_bytes b) (wb_header b) (wb_batch b)"

lemma blocks_simps [simp]:
  "blocks_bytes [] = []" "blocks_bytes (b # bl) = wb_bytes b @ blocks_bytes bl"
  "blocks_bytes (bl @ bl') = blocks_bytes bl @ blocks_bytes bl'"
  "block_batches [] = []" "block_batches (b # bl) = wb_batch b # block_batches bl"
  "block_batches (bl @ bl') = block_batches bl @ block_batches bl'"
  by (simp_all add: blocks_bytes_def block_batches_def)

lemma length_block_batches [simp]: "length (block_batches bl) = length bl"
  by (simp add: block_batches_def)

lemma scan_records_blocks:
  "list_all (block_intact c p) blocks \<Longrightarrow> length fb < 2 ^ 32 \<Longrightarrow> decode_file_footer c fb = Some f \<Longrightarrow>
   scan_records c (blocks_bytes blocks @ FOOTER_TAG @ framed fb) = Inr f"
  by (induction blocks)
    (auto simp: block_intact_def scan_records_block scan_records_footer[where rest = "[]", simplified])

lemma read_batches_blocks:
  assumes "list_all (block_intact c p) blocks" "length fb < 2 ^ 32" "decode_file_footer c fb = Some f"
    "\<not> bs_finished s" "bs_file s = blocks_bytes blocks @ FOOTER_TAG @ framed fb"
  shows "read_batches c p s =
    Inr (block_batches blocks, (advance [] s)\<lparr>bs_finished := True, bs_footer := Some f\<rparr>)"
  using assms
proof (induction blocks arbitrary: s)
  case Nil
  then show ?case
    by (subst read_batches.simps)
      (simp add: next_batch_footer[where rest = "[]" and fb = fb and f = f])
next
  case (Cons b blocks)
  let ?rest = "blocks_bytes blocks @ FOOTER_TAG @ framed fb"
  have step: "next_batch c p s = Inr (Some (wb_batch b), advance ?rest s)"
    using Cons.prems by (intro next_batch_block) (auto simp: block_intact_def)
  have adv: "advance [] (advance ?rest s) = advance [] s"
    using advance_advance[of s "wb_bytes b" ?rest "[]"] Cons.prems(5) by simp
  show ?case
    using Cons.prems Cons.IH[of "advance ?rest s"]
    by (subst read_batches.simps) (simp add: step adv)
qed

section \<open>A sealed file is read back\<close>

definition header_image :: "('x) journal_codec_scheme \<Rightarrow> byte list \<Rightarrow> file_header \<Rightarrow> byte list \<Rightarrow> bool" where
  "header_image c magic h bs =
     (\<exists>hb. bs = magic @ framed hb \<and> length magic = 8 \<and> length hb < 2 ^ 32 \<and> decode_file_header c hb = Some h)"

lemma read_file_header_image:
  "header_image c magic h bs \<Longrightarrow> read_file_header c magic (bs @ rest) = Inr (h, rest)"
  by (auto simp: header_image_def journal_read)

text \<open>The batches of a file together with the report of the finished stream.\<close>

definition import_view ::
  "('x) journal_codec_scheme \<Rightarrow> ('r, 'e) payload \<Rightarrow> byte list \<Rightarrow> journal_error + ('e list list \<times> stream_report)" where
  "import_view c p file =
     (case stream_batches c (payload_magic p) file of
        Inl e \<Rightarrow> Inl e
      | Inr s \<Rightarrow>
          (case read_batches c p s of
             Inl e \<Rightarrow> Inl e
           | Inr (batches, s') \<Rightarrow>
               (case finish_stream c s' of Inl e \<Rightarrow> Inl e | Inr report \<Rightarrow> Inr (batches, report))))"

lemma read_all_batches_view:
  "read_all_batches c p file = (case import_view c p file of Inl e \<Rightarrow> Inl e | Inr (batches, _) \<Rightarrow> Inr batches)"
  by (simp add: read_all_batches_def import_view_def split: sum.split)

theorem sealed_file_read_back:
  assumes "header_image c (payload_magic p) h hbs" "list_all (block_intact c p) blocks"
    "length fb < 2 ^ 32" "decode_file_footer c fb = Some f"
    and fl: "file = hbs @ blocks_bytes blocks @ FOOTER_TAG @ framed fb"
  shows "import_view c p file =
      Inr (block_batches blocks, \<lparr>report_footer = f, report_file_digest_hex = sha256_hex c file,
           report_total_compressed_bytes = length file\<rparr>)"
    and "read_all_batches c p file = Inr (block_batches blocks)"
    and "scan_summary c (payload_magic p) file =
      Inr \<lparr>summary_footer = f, summary_total_compressed_bytes = length file\<rparr>"
proof -
  let ?tail = "blocks_bytes blocks @ FOOTER_TAG @ framed fb"
  have hdr: "read_file_header c (payload_magic p) file = Inr (h, ?tail)"
    unfolding fl by (rule read_file_header_image[OF assms(1)])
  show "scan_summary c (payload_magic p) file =
      Inr \<lparr>summary_footer = f, summary_total_compressed_bytes = length file\<rparr>"
    by (simp add: scan_summary_def hdr scan_records_blocks[OF assms(2-4)])
  let ?s0 = "\<lparr>bs_file = file, bs_total_compressed_bytes = length file, bs_bytes_read = 0,
              bs_hashed = [], bs_finished = False, bs_footer = None\<rparr>"
  have st: "stream_batches c (payload_magic p) file = Inr (advance ?tail ?s0)"
    by (simp add: stream_batches_def read_file_header_hashed_plain hdr)
  have rd: "read_batches c p (advance ?tail ?s0) =
    Inr (block_batches blocks, (advance [] (advance ?tail ?s0))\<lparr>bs_finished := True, bs_footer := Some f\<rparr>)"
    by (rule read_batches_blocks[OF assms(2-4)]) simp_all
  have "bs_hashed (advance [] (advance ?tail ?s0)) = file"
    using advance_advance[of ?s0 hbs ?tail "[]"] by (simp add: fl advance_def Let_def)
  then have fin: "finish_stream c ((advance [] (advance ?tail ?s0))\<lparr>bs_finished := True, bs_footer := Some f\<rparr>) =
      Inr \<lparr>report_footer = f, report_file_digest_hex = sha256_hex c file,
           report_total_compressed_bytes = length file\<rparr>"
    by (simp add: finish_stream_def)
  show "import_view c p file =
      Inr (block_batches blocks, \<lparr>report_footer = f, report_file_digest_hex = sha256_hex c file,
           report_total_compressed_bytes = length file\<rparr>)"
    by (simp add: import_view_def st rd fin)
  then show "read_all_batches c p file = Inr (block_batches blocks)"
    by (simp add: read_all_batches_view)
qed

end
