(* ===== verification/JournalWriterTheorems.thy ===== *)
theory JournalWriterTheorems
  imports JournalFileTheorems
begin

text \<open>
  The writer never fails on items its codecs accept, and it keeps \<open>writer_inv\<close>: the file is
  the header and the intact blocks written so far; blocks and pending events together are
  the events appended, in order; counters and time range describe the blocks.
\<close>

named_theorems writer_steady \<open>what the writer operations leave unchanged\<close>

section \<open>Minimum and maximum\<close>

lemma list_min_Min: "xs \<noteq> [] \<Longrightarrow> list_min xs = Min (set xs)"
  by (cases xs) (simp_all add: list_min_def Min.set_eq_fold flip: list.set)

lemma list_max_Max: "xs \<noteq> [] \<Longrightarrow> list_max xs = Max (set xs)"
  by (cases xs) (simp_all add: list_max_def Max.set_eq_fold flip: list.set)

lemma list_min_in: "xs \<noteq> [] \<Longrightarrow> list_min xs \<in> set xs"
  by (simp add: list_min_Min)

lemma list_max_in: "xs \<noteq> [] \<Longrightarrow> list_max xs \<in> set xs"
  by (simp add: list_max_Max)

definition time_min :: "int list \<Rightarrow> int option" where
  "time_min ts = (if ts = [] then None else Some (Min (set ts)))"

definition time_max :: "int list \<Rightarrow> int option" where
  "time_max ts = (if ts = [] then None else Some (Max (set ts)))"

lemma opt_min_append: "us \<noteq> [] \<Longrightarrow> opt_min (time_min ts) (list_min us) = time_min (ts @ us)"
  by (simp add: opt_min_def time_min_def list_min_Min Min_Un)

lemma opt_max_append: "us \<noteq> [] \<Longrightarrow> opt_max (time_max ts) (list_max us) = time_max (ts @ us)"
  by (simp add: opt_max_def time_max_def list_max_Max Max_Un)

lemma time_range:
  "(\<And>t. t \<in> set ts \<Longrightarrow> i64_range t) \<Longrightarrow> pred_option i64_range (time_min ts)"
  "(\<And>t. t \<in> set ts \<Longrightarrow> i64_range t) \<Longrightarrow> pred_option i64_range (time_max ts)"
  by (auto simp: time_min_def time_max_def intro: Min_in Max_in)

section \<open>The invariant\<close>

definition block_sized :: "('r, 'e) payload \<Rightarrow> nat \<Rightarrow> 'e written_block \<Rightarrow> bool" where
  "block_sized p limit b =
     (wb_batch b \<noteq> [] \<and> length (wb_batch b) \<le> limit \<and>
      bh_event_count (wb_header b) = length (wb_batch b) \<and>
      bh_min_created_at_ms (wb_header b) = list_min (map (payload_created_at p) (wb_batch b)) \<and>
      bh_max_created_at_ms (wb_header b) = list_max (map (payload_created_at p) (wb_batch b)))"

definition block_limit :: "journal_config \<Rightarrow> nat" where
  "block_limit config = max (block_max_events config) 1"

definition counts_of :: "('r, 'e) payload \<Rightarrow> 'e journal_writer \<Rightarrow> 'e written_block list \<Rightarrow> bool" where
  "counts_of p w blocks =
     (let events = concat (block_batches blocks); times = map (payload_created_at p) events
      in jw_block_sequence w = length blocks \<and> jw_event_count w = length events \<and>
         jw_min_created_at_ms w = time_min times \<and> jw_max_created_at_ms w = time_max times \<and>
         jw_uncompressed_bytes w \<le> u64_max \<and> jw_compressed_bytes w \<le> u64_max)"

definition writer_blocks ::
  "('x) journal_codec_scheme \<Rightarrow> ('r, 'e) payload \<Rightarrow> byte list \<Rightarrow> 'e journal_writer \<Rightarrow>
   'e written_block list \<Rightarrow> bool" where
  "writer_blocks c p hbs w blocks =
     (jw_file w = hbs @ blocks_bytes blocks \<and> list_all (block_intact c p) blocks \<and>
      list_all (block_sized p (block_limit (jw_config w))) blocks \<and> counts_of p w blocks)"

definition writer_inv ::
  "('x) journal_codec_scheme \<Rightarrow> ('r, 'e) payload \<Rightarrow> byte list \<Rightarrow> 'e list \<Rightarrow> 'e journal_writer \<Rightarrow> bool" where
  "writer_inv c p hbs events w =
     (\<exists>blocks. writer_blocks c p hbs w blocks \<and>
        concat (block_batches blocks) @ jw_pending_events w = events \<and>
        length (jw_pending_events w) \<le> block_limit (jw_config w))"

definition same_file :: "'e journal_writer \<Rightarrow> 'e journal_writer \<Rightarrow> bool" where
  "same_file w w' =
     (jw_config w' = jw_config w \<and> jw_file_sequence w' = jw_file_sequence w \<and>
      jw_created_at_ms w' = jw_created_at_ms w)"

lemma same_file_refl [writer_steady]: "same_file w w"
  and same_file_trans [writer_steady]: "same_file w w' \<Longrightarrow> same_file w' w'' \<Longrightarrow> same_file w w''"
  by (auto simp: same_file_def)

lemma flush_same_file [writer_steady]: "flush_pending_block c p w = (r, w') \<Longrightarrow> same_file w w'"
  by (auto simp: flush_pending_block_def same_file_def Let_def split: if_splits option.splits sum.splits)

lemma flush_empties [writer_steady]: "flush_pending_block c p w = (r, w') \<Longrightarrow> jw_pending_events w' = []"
  by (auto simp: flush_pending_block_def Let_def split: if_splits option.splits sum.splits)

lemma block_count_le_events:
  "list_all (block_sized p limit) blocks \<Longrightarrow> length blocks \<le> length (concat (block_batches blocks))"
proof (induction blocks)
  case (Cons b blocks)
  then have "wb_batch b \<noteq> []" by (simp add: block_sized_def)
  then have "1 \<le> length (wb_batch b)" by (simp add: Suc_le_eq)
  with Cons show ?case by simp
qed simp

section \<open>One flush\<close>

lemma write_block:
  assumes cc: "container_contract c" and be: "batch_encodes c p level batch"
    and ne: "batch \<noteq> []" and len: "length batch \<le> limit" "limit < 2 ^ 32"
    and seqn: "sequence \<le> u64_max"
    and times: "\<forall>e \<in> set batch. i64_range (payload_created_at p e)"
  obtains un co crc hb where
    "payload_encode_batch p batch = Some un" "zstd_encode_all c level un = Some co"
    "block_crc32c c (block_header_of p sequence batch un co) co = Inr crc"
    "encode_block_header c ((block_header_of p sequence batch un co)\<lparr>bh_crc32c := crc\<rparr>) = Some hb"
    "block_image c p (BLOCK_TAG @ framed hb @ co) ((block_header_of p sequence batch un co)\<lparr>bh_crc32c := crc\<rparr>) batch"
    "length un \<le> u64_max" "length co \<le> u64_max"
proof -
  obtain un co where uc: "payload_encode_batch p batch = Some un" "payload_decode_batch p un = Some batch"
    "zstd_encode_all c level un = Some co" "zstd_decode_all c co = Some un"
    "int (length un) \<le> i64_max" "int (length co) \<le> i64_max"
    using be by (auto simp: batch_encodes_def)
  let ?ts = "map (payload_created_at p) batch"
  have "list_min ?ts \<in> set ?ts" "list_max ?ts \<in> set ?ts"
    using list_min_in[of ?ts] list_max_in[of ?ts] ne by simp_all
  then have "i64_range (list_min ?ts)" "i64_range (list_max ?ts)"
    using times by auto
  then have fits: "block_header_fits ((block_header_of p sequence batch un co)\<lparr>bh_crc32c := x\<rparr>)" for x
    using seqn uc(5,6) by (simp add: block_header_fits_def block_header_of_def int_le_i64_max_nat)
  obtain zb where zb: "encode_block_header c ((block_header_of p sequence batch un co)\<lparr>bh_crc32c := 0\<rparr>) = Some zb"
    using container_contractD(2)[OF cc fits[of 0]] by (auto elim: encodesE)
  define crc where "crc = crc32c c (zb @ co)"
  let ?h = "(block_header_of p sequence batch un co)\<lparr>bh_crc32c := crc\<rparr>"
  obtain hb where hb: "encode_block_header c ?h = Some hb" "length hb < 2 ^ 32"
    "decode_block_header c hb = Some ?h"
    using container_contractD(2)[OF cc fits[of crc]] by (auto elim: encodesE)
  have crc: "block_crc32c c (block_header_of p sequence batch un co) co = Inr crc"
    by (simp add: block_crc32c_def zb crc_def)
  have "validate_block c ?h co = Inr ()"
    by (simp add: validate_block_def block_crc32c_def zb crc_def)
  then have img: "block_image c p (BLOCK_TAG @ framed hb @ co) ?h batch"
    unfolding block_image_def using uc hb
    by (intro exI[of _ hb] exI[of _ co] exI[of _ un]) (simp add: block_header_of_def)
  show thesis
    using that[OF uc(1) uc(3) crc hb(1) img] uc(5,6) by (simp add: int_le_i64_max_nat)
qed

lemma flush_writes_block:
  assumes cc: "container_contract c" and pc: "payload_contract c p (jw_config w) items"
    and lim: "block_limit (jw_config w) < 2 ^ 32"
    and inv: "writer_inv c p hbs events w" and its: "set events \<subseteq> items"
    and total: "length events \<le> u64_max"
  obtains w' where "flush_pending_block c p w = (Inr (), w')" "writer_inv c p hbs events w'"
    "jw_pending_events w' = []" "same_file w w'"
proof (cases "jw_pending_events w = []")
  case True
  then show thesis
    using that[of w] inv by (simp add: flush_pending_block_def same_file_refl)
next
  case ne: False
  let ?batch = "jw_pending_events w"
  obtain blocks where bl: "writer_blocks c p hbs w blocks"
    "concat (block_batches blocks) @ ?batch = events" "length ?batch \<le> block_limit (jw_config w)"
    using inv by (auto simp: writer_inv_def)
  have sub: "set ?batch \<subseteq> items" using bl(2) its by auto
  have sized: "list_all (block_sized p (block_limit (jw_config w))) blocks"
    and cnt: "counts_of p w blocks" and fl: "jw_file w = hbs @ blocks_bytes blocks"
    and intact: "list_all (block_intact c p) blocks"
    using bl(1) by (simp_all add: writer_blocks_def)
  have n: "length blocks + 1 \<le> length events"
    using block_count_le_events[OF sized] bl(2) ne by (auto simp flip: length_greater_0_conv)
  have s: "jw_block_sequence w \<le> u64_max"
    using cnt n total by (simp add: counts_of_def Let_def)
  have be: "batch_encodes c p (zstd_level (jw_config w)) ?batch"
    using pc sub ne bl(3) by (simp add: payload_contract_def block_limit_def)
  have times: "\<forall>e \<in> set ?batch. i64_range (payload_created_at p e)"
    using pc sub by (auto simp: payload_contract_def)
  obtain un co crc hb where wr:
    "payload_encode_batch p ?batch = Some un" "zstd_encode_all c (zstd_level (jw_config w)) un = Some co"
    "block_crc32c c (block_header_of p (jw_block_sequence w) ?batch un co) co = Inr crc"
    "encode_block_header c ((block_header_of p (jw_block_sequence w) ?batch un co)\<lparr>bh_crc32c := crc\<rparr>) = Some hb"
    "block_image c p (BLOCK_TAG @ framed hb @ co)
       ((block_header_of p (jw_block_sequence w) ?batch un co)\<lparr>bh_crc32c := crc\<rparr>) ?batch"
    "length un \<le> u64_max" "length co \<le> u64_max"
    by (rule write_block[OF cc be ne bl(3) lim s times])
  let ?h = "(block_header_of p (jw_block_sequence w) ?batch un co)\<lparr>bh_crc32c := crc\<rparr>"
  let ?b = "\<lparr>wb_bytes = BLOCK_TAG @ framed hb @ co, wb_header = ?h, wb_batch = ?batch\<rparr>"
  obtain w' where w': "flush_pending_block c p w = (Inr (), w')"
    "w' = w\<lparr>jw_pending_events := [], jw_pending_uncompressed_bytes := 0,
       jw_file := hbs @ blocks_bytes (blocks @ [?b]),
       jw_block_sequence := sat_add_u64 (jw_block_sequence w) 1,
       jw_event_count := sat_add_u64 (jw_event_count w) (bh_event_count ?h),
       jw_min_created_at_ms := opt_min (jw_min_created_at_ms w) (bh_min_created_at_ms ?h),
       jw_max_created_at_ms := opt_max (jw_max_created_at_ms w) (bh_max_created_at_ms ?h),
       jw_uncompressed_bytes := sat_add_u64 (jw_uncompressed_bytes w) (length un),
       jw_compressed_bytes := sat_add_u64 (jw_compressed_bytes w) (length co)\<rparr>"
    using ne wr(1-4) by (simp add: flush_pending_block_def write_record_def framed_def fl Let_def)
  have cl: "bh_event_count ?h = length ?batch"
    using bl(3) lim by (simp add: block_header_of_def)
  have evs: "length (concat (block_batches blocks)) + length ?batch = length events"
    using bl(2) by auto
  have counts: "counts_of p w' (blocks @ [?b])"
    using cnt cl n total evs ne
    by (auto simp: counts_of_def Let_def w'(2) sat_add_u64_exact sat_add_u64_le block_header_of_def
        opt_min_append opt_max_append)
  have szb: "block_sized p (block_limit (jw_config w)) ?b"
    using ne bl(3) cl by (simp add: block_sized_def) (simp add: block_header_of_def)
  have "writer_blocks c p hbs w' (blocks @ [?b])"
    using counts sized szb intact wr(5) by (simp add: writer_blocks_def block_intact_def w'(2))
  then have "writer_inv c p hbs events w'"
    unfolding writer_inv_def using bl(2) by (intro exI[of _ "blocks @ [?b]"]) (simp add: w'(2))
  then show thesis
    using that w' flush_same_file[OF w'(1)] by simp
qed
section \<open>Appending\<close>

lemma push_pending:
  assumes "writer_inv c p hbs events w" "length (jw_pending_events w) < block_limit (jw_config w)"
  shows "writer_inv c p hbs (events @ [e])
    (w\<lparr>jw_pending_uncompressed_bytes := n, jw_pending_events := jw_pending_events w @ [e]\<rparr>)"
  using assms
  by (auto simp: writer_inv_def writer_blocks_def counts_of_def Let_def)

text \<open>A flush on a condition, as \<open>append_events\<close> makes two of per event.\<close>

lemma flush_if:
  assumes "container_contract c" "payload_contract c p (jw_config w) items"
    "block_limit (jw_config w) < 2 ^ 32" "writer_inv c p hbs events w" "set events \<subseteq> items"
    "length events \<le> u64_max"
  obtains w' where "(if b then flush_pending_block c p w else (Inr (), w)) = (Inr (), w')"
    "writer_inv c p hbs events w'" "same_file w w'" "b \<longrightarrow> jw_pending_events w' = []"
    "\<not> b \<longrightarrow> w' = w"
proof (cases b)
  case True
  obtain w' where "flush_pending_block c p w = (Inr (), w')" "writer_inv c p hbs events w'"
    "jw_pending_events w' = []" "same_file w w'"
    by (rule flush_writes_block[OF assms])
  then show thesis using that True by simp
next
  case False
  then show thesis using that[of w] assms(4) by (simp add: same_file_refl)
qed

lemma append_keeps_inv:
  assumes "container_contract c" "payload_contract c p (jw_config w) items"
    "block_limit (jw_config w) < 2 ^ 32" "writer_inv c p hbs events w"
    "set (events @ map (payload_convert p) rs) \<subseteq> items"
    "length events + length rs \<le> u64_max"
  shows "\<exists>w'. append_events c p rs w = (Inr (), w') \<and> same_file w w' \<and>
    writer_inv c p hbs (events @ map (payload_convert p) rs) w'"
  using assms
proof (induction rs arbitrary: w events)
  case Nil
  then show ?case by (simp add: same_file_refl)
next
  case (Cons r rs)
  let ?e = "payload_convert p r" and ?lim = "block_limit (jw_config w)"
  have its: "set events \<subseteq> items" "set (events @ [?e]) \<subseteq> items"
    and tot: "length events \<le> u64_max" "length (events @ [?e]) \<le> u64_max"
    using Cons.prems(5,6) by auto
  obtain w1 where w1: "(if ?lim \<le> length (jw_pending_events w) then flush_pending_block c p w else (Inr (), w)) = (Inr (), w1)"
    "writer_inv c p hbs events w1" "same_file w w1"
    "?lim \<le> length (jw_pending_events w) \<longrightarrow> jw_pending_events w1 = []"
    "\<not> ?lim \<le> length (jw_pending_events w) \<longrightarrow> w1 = w"
    by (rule flush_if[of c p w items hbs events "?lim \<le> length (jw_pending_events w)",
          OF Cons.prems(1-4) its(1) tot(1)])
  have cfg1: "jw_config w1 = jw_config w" using w1(3) by (simp add: same_file_def)
  have room: "length (jw_pending_events w1) < block_limit (jw_config w1)"
  proof (cases "?lim \<le> length (jw_pending_events w)")
    case True
    then show ?thesis using w1(4) by (simp add: cfg1 block_limit_def)
  next
    case False
    then show ?thesis using w1(5) by simp
  qed
  obtain bs where bs: "payload_encode_item p ?e = Some bs"
    using Cons.prems(2,5) by (auto simp: payload_contract_def)
  let ?w2 = "w1\<lparr>jw_pending_uncompressed_bytes := sat_add_u64 (jw_pending_uncompressed_bytes w1) (length bs),
      jw_pending_events := jw_pending_events w1 @ [?e]\<rparr>"
  let ?full = "max (block_target_uncompressed_bytes (jw_config ?w2)) 1 \<le> jw_pending_uncompressed_bytes ?w2"
  have cfg2: "jw_config ?w2 = jw_config w" by (simp add: cfg1)
  have pc2: "payload_contract c p (jw_config ?w2) items" and lim2: "block_limit (jw_config ?w2) < 2 ^ 32"
    unfolding cfg2 by (rule Cons.prems(2), rule Cons.prems(3))
  have inv2: "writer_inv c p hbs (events @ [?e]) ?w2"
    by (rule push_pending[OF w1(2) room])
  obtain w3 where w3: "(if ?full then flush_pending_block c p ?w2 else (Inr (), ?w2)) = (Inr (), w3)"
    "writer_inv c p hbs (events @ [?e]) w3" "same_file ?w2 w3"
    by (rule flush_if[of c p ?w2 items hbs "events @ [?e]" ?full,
          OF Cons.prems(1) pc2 lim2 inv2 its(2) tot(2)])
  have st: "same_file w w3"
    using w1(3) w3(3) by (simp add: same_file_def)
  then have cfg3: "jw_config w3 = jw_config w" by (simp add: same_file_def)
  have "\<exists>w'. append_events c p rs w3 = (Inr (), w') \<and> same_file w3 w' \<and>
      writer_inv c p hbs ((events @ [?e]) @ map (payload_convert p) rs) w'"
    using Cons.prems by (intro Cons.IH) (simp_all add: cfg3 w3(2))
  moreover have "append_events c p (r # rs) w = append_events c p rs w3"
    using w1(1) w3(1) bs by (simp add: block_limit_def Let_def)
  ultimately show ?case
    using st by (auto intro: same_file_trans)
qed

section \<open>A whole file\<close>

datatype 'r writer_call = Append "'r list" | Flush

fun run_writer ::
  "('x) journal_codec_scheme \<Rightarrow> ('r, 'e) payload \<Rightarrow> 'r writer_call list \<Rightarrow> 'e journal_writer \<Rightarrow>
   (journal_error + unit) \<times> 'e journal_writer" where
  "run_writer c p [] w = (Inr (), w)"
| "run_writer c p (call # calls) w =
     (case (case call of Append rs \<Rightarrow> append_events c p rs w | Flush \<Rightarrow> flush c p w) of
        (Inl e, w') \<Rightarrow> (Inl e, w')
      | (Inr _, w') \<Rightarrow> run_writer c p calls w')"

fun calls_events :: "'r writer_call list \<Rightarrow> 'r list" where
  "calls_events [] = []"
| "calls_events (Append rs # calls) = rs @ calls_events calls"
| "calls_events (Flush # calls) = calls_events calls"

lemma run_writer_keeps_inv:
  assumes "container_contract c" "payload_contract c p (jw_config w) items"
    "block_limit (jw_config w) < 2 ^ 32" "writer_inv c p hbs events w"
    "set (events @ map (payload_convert p) (calls_events calls)) \<subseteq> items"
    "length events + length (calls_events calls) \<le> u64_max"
  shows "\<exists>w'. run_writer c p calls w = (Inr (), w') \<and> same_file w w' \<and>
    writer_inv c p hbs (events @ map (payload_convert p) (calls_events calls)) w'"
  using assms
proof (induction calls arbitrary: w events)
  case Nil
  then show ?case by (simp add: same_file_refl)
next
  case (Cons call calls)
  show ?case
  proof (cases call)
    case (Append rs)
    obtain w1 where w1: "append_events c p rs w = (Inr (), w1)" "same_file w w1"
      "writer_inv c p hbs (events @ map (payload_convert p) rs) w1"
      using append_keeps_inv[OF Cons.prems(1-4), of rs] Cons.prems(5,6) by (auto simp: Append)
    have cfg: "jw_config w1 = jw_config w" using w1(2) by (simp add: same_file_def)
    have "\<exists>w'. run_writer c p calls w1 = (Inr (), w') \<and> same_file w1 w' \<and>
      writer_inv c p hbs ((events @ map (payload_convert p) rs) @ map (payload_convert p) (calls_events calls)) w'"
      using Cons.prems by (intro Cons.IH) (simp_all add: cfg w1(3) Append)
    then show ?thesis
      using w1 by (auto simp: Append intro: same_file_trans)
  next
    case Flush
    obtain w1 where w1: "flush_pending_block c p w = (Inr (), w1)" "writer_inv c p hbs events w1" "same_file w w1"
      using Cons.prems(5,6) by (auto simp: Flush intro: flush_writes_block[OF Cons.prems(1-4)])
    have cfg: "jw_config w1 = jw_config w" using w1(3) by (simp add: same_file_def)
    have "\<exists>w'. run_writer c p calls w1 = (Inr (), w') \<and> same_file w1 w' \<and>
      writer_inv c p hbs (events @ map (payload_convert p) (calls_events calls)) w'"
      using Cons.prems by (intro Cons.IH) (simp_all add: cfg w1(2) Flush)
    then show ?thesis
      using w1 by (auto simp: Flush flush_def intro: same_file_trans)
  qed
qed

lemma show_radix_length: "n < 10 ^ d \<Longrightarrow> 1 \<le> d \<Longrightarrow> length (show_radix 10 k n) \<le> d"
proof (induction k arbitrary: n d)
  case 0
  then show ?case by simp
next
  case (Suc k)
  show ?case
  proof (cases "n < 10")
    case True
    then show ?thesis using Suc.prems by simp
  next
    case False
    then have d: "2 \<le> d" using Suc.prems by (cases d) (auto simp: Suc_le_eq intro: Nat.gr0I)
    then have "n div 10 < 10 ^ (d - 1)"
      using Suc.prems by (cases d) (auto simp: div_less_iff_less_mult mult.commute)
    then have "length (show_radix 10 k (n div 10)) \<le> d - 1"
      using d by (intro Suc.IH) auto
    then show ?thesis using False d by simp
  qed
qed

lemma writer_create_inv:
  assumes "container_contract c" "length (payload_magic p) = 8" "sequence \<le> u64_max"
    "i64_range now" "pid < 2 ^ 32"
  obtains w hbs where "writer_create c p config sequence now pid = Inr w"
    "header_image c (payload_magic p) (new_file_header p sequence now pid) hbs"
    "writer_inv c p hbs [] w" "jw_config w = config" "jw_file_sequence w = sequence"
    "jw_created_at_ms w = now" "jw_file w = hbs"
    "file_header_fits (new_file_header p sequence now pid)"
proof -
  have "length (show_nat pid) \<le> 10"
    unfolding show_nat_def using assms(5) by (intro show_radix_length) auto
  then have fits: "file_header_fits (new_file_header p sequence now pid)"
    using assms by (simp add: file_header_fits_def new_file_header_def FORMAT_VERSION_V1_def SCHEMA_VERSION_V1_def)
  then have "encodes (encode_file_header c) (decode_file_header c) (new_file_header p sequence now pid)"
    by (rule container_contractD(1)[OF assms(1)])
  then obtain hb where hb: "encode_file_header c (new_file_header p sequence now pid) = Some hb"
    "length hb < 2 ^ 32" "decode_file_header c hb = Some (new_file_header p sequence now pid)"
    by (rule encodesE)
  let ?hbs = "payload_magic p @ framed hb"
  have m: "fh_magic (new_file_header p sequence now pid) = payload_magic p"
    by (simp add: new_file_header_def)
  obtain w where w: "writer_create c p config sequence now pid = Inr w"
    "jw_file w = ?hbs" "jw_pending_events w = []" "jw_block_sequence w = 0" "jw_event_count w = 0"
    "jw_min_created_at_ms w = None" "jw_max_created_at_ms w = None" "jw_uncompressed_bytes w = 0"
    "jw_compressed_bytes w = 0" "jw_config w = config" "jw_file_sequence w = sequence" "jw_created_at_ms w = now"
    by (simp add: writer_create_def write_file_header_def hb(1) m framed_def)
  have "writer_inv c p ?hbs [] w"
    unfolding writer_inv_def
    by (intro exI[of _ "[]"])
      (simp add: w writer_blocks_def counts_of_def Let_def time_min_def time_max_def block_limit_def)
  moreover have "header_image c (payload_magic p) (new_file_header p sequence now pid) ?hbs"
    using assms(2) hb by (auto simp: header_image_def)
  ultimately show thesis
    using that w fits by blast
qed
section \<open>Sealing\<close>

definition sealed_file ::
  "('x) journal_codec_scheme \<Rightarrow> ('r, 'e) payload \<Rightarrow> byte list \<Rightarrow> 'e written_block list \<Rightarrow> file_footer \<Rightarrow>
   byte list \<Rightarrow> bool" where
  "sealed_file c p hbs blocks f bytes =
     (\<exists>fb. bytes = hbs @ blocks_bytes blocks @ FOOTER_TAG @ framed fb \<and> length fb < 2 ^ 32 \<and>
        decode_file_footer c fb = Some f \<and> list_all (block_intact c p) blocks)"

lemma sealed_fileE:
  assumes "sealed_file c p hbs blocks f bytes"
  obtains fb where "bytes = hbs @ blocks_bytes blocks @ FOOTER_TAG @ framed fb" "length fb < 2 ^ 32"
    "decode_file_footer c fb = Some f" "list_all (block_intact c p) blocks"
  using assms by (auto simp: sealed_file_def)

lemma sealed_file_reads:
  assumes "sealed_file c p hbs blocks f bytes" "header_image c (payload_magic p) h hbs"
  shows "import_view c p bytes =
      Inr (block_batches blocks, \<lparr>report_footer = f, report_file_digest_hex = sha256_hex c bytes,
           report_total_compressed_bytes = length bytes\<rparr>)"
    and "read_all_batches c p bytes = Inr (block_batches blocks)"
    and "scan_summary c (payload_magic p) bytes =
      Inr \<lparr>summary_footer = f, summary_total_compressed_bytes = length bytes\<rparr>"
  using assms by (auto elim!: sealed_fileE intro: sealed_file_read_back)

lemma footer_fits:
  assumes "counts_of p w blocks" "length (concat (block_batches blocks)) \<le> u64_max"
    "list_all (block_sized p limit) blocks" "jw_file_sequence w \<le> u64_max" "i64_range (jw_created_at_ms w)" "i64_range now"
    "\<forall>e \<in> set (concat (block_batches blocks)). i64_range (payload_created_at p e)"
  shows "file_footer_fits (footer_of w now)"
proof -
  let ?ts = "map (payload_created_at p) (concat (block_batches blocks))"
  have "pred_option i64_range (time_min ?ts)" "pred_option i64_range (time_max ?ts)"
    using assms(7) by (intro time_range; auto)+
  then show ?thesis
    using assms block_count_le_events[OF assms(3)]
    by (simp add: file_footer_fits_def footer_of_def counts_of_def Let_def)
qed

lemma seal_writes_sealed_file:
  assumes "container_contract c" "payload_contract c p (jw_config w) items"
    "block_limit (jw_config w) < 2 ^ 32" "writer_inv c p hbs events w" "set events \<subseteq> items"
    "length events \<le> u64_max" "jw_file_sequence w \<le> u64_max" "i64_range (jw_created_at_ms w)" "i64_range now"
  obtains w' blocks bytes where "seal_bytes c p now w = (Inr bytes, w')" "same_file w w'"
    "sealed_file c p hbs blocks (footer_of w' now) bytes" "concat (block_batches blocks) = events"
    "list_all (block_sized p (block_limit (jw_config w))) blocks" "counts_of p w' blocks"
proof -
  obtain w' where w': "flush_pending_block c p w = (Inr (), w')" "writer_inv c p hbs events w'"
    "jw_pending_events w' = []" "same_file w w'"
    by (rule flush_writes_block[OF assms(1-6)])
  obtain blocks where bl: "writer_blocks c p hbs w' blocks" "concat (block_batches blocks) = events"
    using w'(2,3) by (auto simp: writer_inv_def)
  have sm: "jw_config w' = jw_config w" "jw_file_sequence w' = jw_file_sequence w" "jw_created_at_ms w' = jw_created_at_ms w"
    using w'(4) by (simp_all add: same_file_def)
  have b: "counts_of p w' blocks" "list_all (block_sized p (block_limit (jw_config w))) blocks"
    "list_all (block_intact c p) blocks" "jw_file w' = hbs @ blocks_bytes blocks"
    using bl(1) by (simp_all add: writer_blocks_def sm)
  have rng: "\<forall>e \<in> set (concat (block_batches blocks)). i64_range (payload_created_at p e)"
    using assms(2,5) by (auto simp: bl(2) payload_contract_def simp del: set_concat)
  have "file_footer_fits (footer_of w' now)"
    by (rule footer_fits[OF b(1) _ b(2)]) (use assms sm rng in \<open>simp_all add: bl(2) del: set_concat\<close>)
  then have "encodes (encode_file_footer c) (decode_file_footer c) (footer_of w' now)"
    by (rule container_contractD(3)[OF assms(1)])
  then obtain fb where fb: "encode_file_footer c (footer_of w' now) = Some fb" "length fb < 2 ^ 32"
    "decode_file_footer c fb = Some (footer_of w' now)"
    by (rule encodesE)
  let ?bytes = "hbs @ blocks_bytes blocks @ FOOTER_TAG @ framed fb"
  have "seal_bytes c p now w = (Inr ?bytes, w')"
    by (simp add: seal_bytes_def w'(1) write_record_def fb(1) b(4) framed_def)
  moreover have "sealed_file c p hbs blocks (footer_of w' now) ?bytes"
    unfolding sealed_file_def using fb b(3) by (intro exI[of _ fb]) simp
  ultimately show thesis
    using that w'(4) bl(2) b(2,1) by blast
qed
text \<open>What the file of a writer holds after any calls.\<close>

lemma written_file:
  assumes "container_contract c" "payload_contract c p config items" "block_max_events config < 2 ^ 32"
    "map (payload_convert p) (calls_events calls) = events" "set events \<subseteq> items" "length events \<le> u64_max"
    "sequence \<le> u64_max" "i64_range now" "pid < 2 ^ 32"
    "writer_create c p config sequence now pid = Inr w0" "run_writer c p calls w0 = (Inr (), w)"
  obtains h hbs blocks where "header_image c (payload_magic p) h hbs" "file_header_fits h"
    "jw_file w = hbs @ blocks_bytes blocks" "list_all (block_intact c p) blocks"
    "list_all (block_sized p (block_limit config)) blocks"
    "concat (block_batches blocks) @ jw_pending_events w = events"
    "length (concat (block_batches blocks)) \<le> u64_max"
    "\<forall>e \<in> set (concat (block_batches blocks)). i64_range (payload_created_at p e)"
    "fh_file_sequence h = sequence" "fh_created_at_ms h = now"
proof -
  let ?h = "new_file_header p sequence now pid"
  have m8: "length (payload_magic p) = 8" using assms(2) by (simp add: payload_contract_def)
  obtain w1 hbs where w1: "writer_create c p config sequence now pid = Inr w1"
    "header_image c (payload_magic p) ?h hbs" "writer_inv c p hbs [] w1" "jw_config w1 = config"
    "file_header_fits ?h"
    by (rule writer_create_inv[OF assms(1) m8 assms(7-9)])
  have w0: "w1 = w0" using assms(10) w1(1) by simp
  have lim: "block_limit config < 2 ^ 32" using assms(3) by (simp add: block_limit_def)
  have "length events = length (calls_events calls)" using assms(4) by (metis length_map)
  then obtain w' where w': "run_writer c p calls w0 = (Inr (), w')" "same_file w0 w'" "writer_inv c p hbs events w'"
    using run_writer_keeps_inv[of c p w0 items hbs "[]" calls] assms(1-6) lim w1(3,4)
    by (auto simp: w0)
  then have w: "writer_inv c p hbs events w" "jw_config w = config"
    using assms(11) w1(4) by (simp_all add: same_file_def w0)
  obtain blocks where bl: "writer_blocks c p hbs w blocks"
    "concat (block_batches blocks) @ jw_pending_events w = events"
    using w(1) by (auto simp: writer_inv_def)
  have tot: "length (concat (block_batches blocks)) \<le> u64_max"
    using arg_cong[OF bl(2), where f = length] assms(6) by (simp del: length_concat)
  have "set (concat (block_batches blocks)) \<subseteq> items"
    using arg_cong[OF bl(2), where f = set] assms(5) by auto
  then have times: "\<forall>e \<in> set (concat (block_batches blocks)). i64_range (payload_created_at p e)"
    using assms(2) by (auto simp: payload_contract_def simp del: set_concat)
  show thesis
    using that[OF w1(2,5) _ _ _ bl(2) tot times] bl(1)
    by (simp add: writer_blocks_def w(2) new_file_header_def)
qed

end
