(* ===== verification/JournalRoot.thy ===== *)
theory JournalRoot
  imports JournalWriterTheorems "HOL-Library.Char_ord" "HOL-Library.List_Lexorder"
    "HOL-Library.Option_ord" "HOL-Library.Product_Lexorder"
begin

text \<open>
  The directories of a journal, \<open>active\<close>, \<open>sealed\<close>, \<open>consuming\<close> and \<open>bad\<close>, with the two
  databases beside them, and what the crate does with whole files: names and sequence
  numbers (\<open>writer.rs\<close>, \<open>writer_state.rs\<close>), opening and sealing, retention
  (\<open>retention.rs\<close>), listing (\<open>inspect.rs\<close>) and the consumer's tables (\<open>state.rs\<close>).

  A directory is the list of its entries in the order \<open>read_dir\<close> yields them; a directory
  that does not exist is an empty one, which is how every caller treats it.  Renaming keeps
  the modification time of a file.  An SQLite \<open>INTEGER\<close> is an \<open>i64\<close>: a \<open>u64\<close> is stored as the
  signed number of the same bits, and loaded as \<open>0\<close> when that is negative.
\<close>

section \<open>Directories\<close>

record jfile =
  jf_bytes :: "byte list"
  jf_modified_ms :: int

type_synonym dir = "(string \<times> jfile) list"

definition dir_remove :: "string \<Rightarrow> dir \<Rightarrow> dir" where
  "dir_remove name d = filter (\<lambda>(n, _). n \<noteq> name) d"

definition dir_put :: "string \<Rightarrow> jfile \<Rightarrow> dir \<Rightarrow> dir" where
  "dir_put name f d = dir_remove name d @ [(name, f)]"

definition dir_names :: "dir \<Rightarrow> string list" where
  "dir_names d = map fst d"

lemma dir_names_remove [simp]: "set (dir_names (dir_remove name d)) = set (dir_names d) - {name}"
  by (auto simp: dir_names_def dir_remove_def)

lemma dir_names_put [simp]: "set (dir_names (dir_put name f d)) = insert name (set (dir_names d))"
  by (auto simp: dir_names_def dir_put_def dir_remove_def)

lemma map_of_dir_remove [simp]: "map_of (dir_remove name d) n = (if n = name then None else map_of d n)"
  by (induction d) (auto simp: dir_remove_def)

lemma map_of_dir_put [simp]: "map_of (dir_put name f d) n = (if n = name then Some f else map_of d n)"
  by (auto simp: dir_put_def map_add_def split: option.split)

lemma distinct_dir_remove [simp]: "distinct (dir_names d) \<Longrightarrow> distinct (dir_names (dir_remove name d))"
  by (auto simp: dir_names_def dir_remove_def intro: distinct_map_filter)

lemma distinct_dir_put [simp]: "distinct (dir_names d) \<Longrightarrow> distinct (dir_names (dir_put name f d))"
  using distinct_dir_remove[of d name] dir_names_remove[of name d]
  by (auto simp: dir_put_def dir_names_def)

section \<open>File names\<close>

text \<open>\<open>digits.parse::<u64>().ok()\<close>: an empty string is an error, too large a number as well.\<close>

definition parse_digits :: "string \<Rightarrow> nat option" where
  "parse_digits ds = (if ds = [] then None else parse_u64_digits ds)"

definition parse_sequence_from_file_name :: "string \<Rightarrow> nat option" where
  "parse_sequence_from_file_name name =
     (case strip_prefix ''usage-'' name of
        None \<Rightarrow> None
      | Some suffix \<Rightarrow>
          (let digits = takeWhile is_ascii_digit suffix
           in if digits = [] then None else parse_digits digits))"

definition sequence_name :: "string \<Rightarrow> nat \<Rightarrow> string \<Rightarrow> string" where
  "sequence_name stem n ext = stem @ pad_zeros 12 (show_nat n) @ ext"

lemma takeWhile_digits:
  "list_all is_ascii_digit ds \<Longrightarrow> rest = [] \<or> \<not> is_ascii_digit (hd rest) \<Longrightarrow>
   takeWhile is_ascii_digit (ds @ rest) = ds"
  by (induction ds) (auto simp: takeWhile_eq_Nil_iff)

lemma parse_digits_pad:
  "n \<le> u64_max \<Longrightarrow> parse_digits (pad_zeros 12 (show_nat n)) = Some n"
  by (simp add: parse_digits_def parse_u64_digits_def)

lemma parse_sequence_name [simp]:
  "n \<le> u64_max \<Longrightarrow> ext \<noteq> [] \<Longrightarrow> \<not> is_ascii_digit (hd ext) \<Longrightarrow>
   parse_sequence_from_file_name (sequence_name ''usage-'' n ext) = Some n"
  by (simp add: parse_sequence_from_file_name_def sequence_name_def strip_prefix_def
      takeWhile_digits parse_digits_pad)

lemma extension_simps [simp]:
  "\<not> is_ascii_digit CHR ''.''"
  by (simp add: is_ascii_digit_def)

definition open_name :: "nat \<Rightarrow> string" where
  "open_name n = sequence_name ''usage-'' n ''.open''"

definition journal_name :: "nat \<Rightarrow> string" where
  "journal_name n = sequence_name ''usage-'' n ''.journal''"

definition recovering_name :: "nat \<Rightarrow> string" where
  "recovering_name n = sequence_name ''usage-'' n ''.recovering''"

lemma parse_names [simp]:
  "n \<le> u64_max \<Longrightarrow> parse_sequence_from_file_name (open_name n) = Some n"
  "n \<le> u64_max \<Longrightarrow> parse_sequence_from_file_name (journal_name n) = Some n"
  "n \<le> u64_max \<Longrightarrow> parse_sequence_from_file_name (recovering_name n) = Some n"
  by (simp_all add: open_name_def journal_name_def recovering_name_def)

section \<open>The root\<close>

text \<open>The columns of \<open>worker_progress\<close>; its counts are stored as \<open>i64\<close>.\<close>

record progress_row =
  wp_state :: string
  wp_current_file_path :: "string option"
  wp_current_file_sequence :: "nat option"
  wp_processed_blocks :: nat
  wp_total_blocks :: nat
  wp_processed_events :: nat
  wp_total_events :: nat
  wp_processed_compressed_bytes :: nat
  wp_total_compressed_bytes :: nat
  wp_heartbeat_at_ms :: "int option"
  wp_last_successful_file_sequence :: "nat option"
  wp_last_successful_import_at_ms :: "int option"
  wp_last_error :: "string option"
  wp_last_error_at_ms :: "int option"

record consumed_row =
  cr_file_digest :: string
  cr_event_count :: int
  cr_imported_at_ms :: int

record journal_root =
  root_active :: dir
  root_sealed :: dir
  root_consuming :: dir
  root_bad :: dir
  root_next_sequence :: "int option"
  root_consumed :: "(int \<times> consumed_row) list"
  root_relay_consumed :: "((string \<times> int) \<times> consumed_row) list"
  root_progress :: "progress_row option"

definition as_i64 :: "nat \<Rightarrow> int" where
  "as_i64 n = (let m = int n mod 2 ^ 64 in if m < 2 ^ 63 then m else m - 2 ^ 64)"

definition from_i64 :: "int \<Rightarrow> nat" where
  "from_i64 x = nat (max x 0)"

lemma as_i64_small: "int n \<le> i64_max \<Longrightarrow> as_i64 n = int n"
  by (simp add: as_i64_def i64_max_def)

lemma from_as_i64 [simp]: "int n \<le> i64_max \<Longrightarrow> from_i64 (as_i64 n) = n"
  by (simp add: as_i64_small from_i64_def)

lemma from_i64_of_nat [simp]: "from_i64 (int n) = n"
  by (simp add: from_i64_def)

section \<open>Sequence numbers\<close>

definition fold_max :: "nat option \<Rightarrow> nat option \<Rightarrow> nat option" where
  "fold_max acc x = (case x of None \<Rightarrow> acc | Some v \<Rightarrow>
     Some (case acc of None \<Rightarrow> v | Some current \<Rightarrow> max current v))"

definition max_existing_file_sequence :: "journal_root \<Rightarrow> nat option" where
  "max_existing_file_sequence r =
     foldl (\<lambda>acc name. fold_max acc (parse_sequence_from_file_name name)) None
       (concat (map dir_names [root_active r, root_sealed r, root_consuming r, root_bad r]))"

text \<open>\<open>SELECT MAX(file_sequence)\<close>: NULL for the empty table.\<close>

definition max_consumed_file_sequence :: "journal_root \<Rightarrow> nat option" where
  "max_consumed_file_sequence r =
     (case map fst (root_consumed r) of
        [] \<Rightarrow> None
      | k # ks \<Rightarrow> Some (from_i64 (fold max ks k)))"

definition seed_next_file_sequence :: "journal_root \<Rightarrow> nat" where
  "seed_next_file_sequence r =
     (case (max_existing_file_sequence r, max_consumed_file_sequence r) of
        (Some left, Some right) \<Rightarrow> sat_add_u64 (max left right) 1
      | (Some value, None) \<Rightarrow> sat_add_u64 value 1
      | (None, Some value) \<Rightarrow> sat_add_u64 value 1
      | (None, None) \<Rightarrow> 0)"

definition allocate_next_file_sequence :: "journal_root \<Rightarrow> nat \<times> journal_root" where
  "allocate_next_file_sequence r =
     (let next = (case root_next_sequence r of
                    Some v \<Rightarrow> from_i64 v
                  | None \<Rightarrow> seed_next_file_sequence r)
      in (next, r\<lparr>root_next_sequence := Some (as_i64 (sat_add_u64 next 1))\<rparr>))"

section \<open>Opening and sealing a file\<close>

text \<open>What the open handle has written is what the directory entry holds.\<close>

definition sync_active :: "'e journal_writer \<Rightarrow> int \<Rightarrow> journal_root \<Rightarrow> journal_root" where
  "sync_active w now r =
     r\<lparr>root_active := dir_put (open_name (jw_file_sequence w))
        \<lparr>jf_bytes = jw_file w, jf_modified_ms = now\<rparr> (root_active r)\<rparr>"

text \<open>A header that cannot be encoded leaves a file with the magic bytes only.\<close>

definition writer_open ::
  "('x) journal_codec_scheme \<Rightarrow> ('r, 'e) payload \<Rightarrow> journal_config \<Rightarrow> int \<Rightarrow> nat \<Rightarrow> journal_root \<Rightarrow>
   (journal_error + 'e journal_writer) \<times> journal_root" where
  "writer_open c p config now pid r =
     (let (sequence, r') = allocate_next_file_sequence r
      in (case writer_create c p config sequence now pid of
            Inl e \<Rightarrow> (Inl e, r'\<lparr>root_active := dir_put (open_name sequence)
               \<lparr>jf_bytes = payload_magic p, jf_modified_ms = now\<rparr> (root_active r')\<rparr>)
          | Inr w \<Rightarrow> (Inr w, sync_active w now r')))"

definition seal_current_file ::
  "('x) journal_codec_scheme \<Rightarrow> ('r, 'e) payload \<Rightarrow> int \<Rightarrow> 'e journal_writer \<Rightarrow> journal_root \<Rightarrow>
   (journal_error + string) \<times> journal_root" where
  "seal_current_file c p now w r =
     (case seal_bytes c p now w of
        (Inl e, w') \<Rightarrow> (Inl e, sync_active w' now r)
      | (Inr bytes, w') \<Rightarrow>
          (Inr (journal_name (jw_file_sequence w')),
           r\<lparr>root_active := dir_remove (open_name (jw_file_sequence w')) (root_active r),
             root_sealed := dir_put (journal_name (jw_file_sequence w'))
               \<lparr>jf_bytes = bytes, jf_modified_ms = now\<rparr> (root_sealed r)\<rparr>))"

section \<open>Retention\<close>

record retention_report =
  rr_deleted_files :: nat
  rr_deleted_bytes :: nat
  rr_deleted_unconsumed_files :: nat

definition sealed_by_sequence :: "journal_root \<Rightarrow> (nat \<times> string) list" where
  "sealed_by_sequence r =
     sort_key fst (map (\<lambda>n. (unwrap_or (parse_sequence_from_file_name n) u64_max, n))
       (dir_names (root_sealed r)))"

definition file_bytes :: "string \<Rightarrow> dir \<Rightarrow> nat" where
  "file_bytes name d = (case map_of d name of Some f \<Rightarrow> length (jf_bytes f) | None \<Rightarrow> 0)"

fun retention_loop ::
  "nat \<Rightarrow> (nat \<times> string) list \<Rightarrow> retention_report \<Rightarrow> journal_root \<Rightarrow> retention_report \<times> journal_root" where
  "retention_loop limit [] report r = (report, r)"
| "retention_loop limit ((sequence, name) # files) report r =
     (if limit < length ((sequence, name) # files) then
        retention_loop limit files
          \<lparr>rr_deleted_files = sat_add_u64 (rr_deleted_files report) 1,
           rr_deleted_bytes = sat_add_u64 (rr_deleted_bytes report) (file_bytes name (root_sealed r)),
           rr_deleted_unconsumed_files = sat_add_u64 (rr_deleted_unconsumed_files report) 1\<rparr>
          (r\<lparr>root_sealed := dir_remove name (root_sealed r)\<rparr>)
      else (report, r))"

definition enforce_retention :: "journal_config \<Rightarrow> journal_root \<Rightarrow> retention_report \<times> journal_root" where
  "enforce_retention config r =
     retention_loop (max_files config) (sealed_by_sequence r)
       \<lparr>rr_deleted_files = 0, rr_deleted_bytes = 0, rr_deleted_unconsumed_files = 0\<rparr> r"

section \<open>Listing\<close>

record file_snapshot =
  fs_file_name :: string
  fs_sequence :: "nat option"
  fs_bytes :: nat
  fs_age_ms :: "int option"

record file_lists =
  fl_active :: "file_snapshot list"
  fl_sealed :: "file_snapshot list"
  fl_consuming :: "file_snapshot list"
  fl_bad :: "file_snapshot list"

definition collect_state_files :: "int \<Rightarrow> dir \<Rightarrow> file_snapshot list" where
  "collect_state_files now d =
     sort_key (\<lambda>s. (fs_sequence s, fs_file_name s))
       (map (\<lambda>(name, f). \<lparr>fs_file_name = name, fs_sequence = parse_sequence_from_file_name name,
          fs_bytes = length (jf_bytes f), fs_age_ms = Some (sat_sub_i64 now (jf_modified_ms f))\<rparr>) d)"

definition collect_journal_file_lists :: "int \<Rightarrow> journal_root \<Rightarrow> file_lists" where
  "collect_journal_file_lists now r =
     \<lparr>fl_active = collect_state_files now (root_active r),
      fl_sealed = collect_state_files now (root_sealed r),
      fl_consuming = collect_state_files now (root_consuming r),
      fl_bad = collect_state_files now (root_bad r)\<rparr>"

section \<open>The consumer's tables\<close>

definition is_consumed :: "nat \<Rightarrow> journal_root \<Rightarrow> bool" where
  "is_consumed sequence r = (map_of (root_consumed r) (as_i64 sequence) \<noteq> None)"

text \<open>\<open>INSERT OR REPLACE\<close> into a table with this primary key.\<close>

definition table_put :: "'k \<Rightarrow> 'v \<Rightarrow> ('k \<times> 'v) list \<Rightarrow> ('k \<times> 'v) list" where
  "table_put k v t = (k, v) # filter (\<lambda>(k', _). k' \<noteq> k) t"

definition record_consumed_file :: "nat \<Rightarrow> string \<Rightarrow> nat \<Rightarrow> int \<Rightarrow> journal_root \<Rightarrow> journal_root" where
  "record_consumed_file sequence digest event_count now r =
     r\<lparr>root_consumed := table_put (as_i64 sequence)
        \<lparr>cr_file_digest = digest, cr_event_count = as_i64 event_count, cr_imported_at_ms = now\<rparr>
        (root_consumed r)\<rparr>"

datatype relay_error = DigestMismatch string string

definition is_relay_consumed :: "string \<Rightarrow> nat \<Rightarrow> string \<Rightarrow> journal_root \<Rightarrow> relay_error + bool" where
  "is_relay_consumed source sequence digest r =
     (case map_of (root_relay_consumed r) (source, as_i64 sequence) of
        Some row \<Rightarrow>
          (if cr_file_digest row = digest then Inr True
           else Inl (DigestMismatch (cr_file_digest row) digest))
      | None \<Rightarrow> Inr False)"

definition record_relay_consumed_file ::
  "string \<Rightarrow> nat \<Rightarrow> string \<Rightarrow> nat \<Rightarrow> int \<Rightarrow> journal_root \<Rightarrow> journal_root" where
  "record_relay_consumed_file source sequence digest event_count now r =
     r\<lparr>root_relay_consumed := table_put (source, as_i64 sequence)
        \<lparr>cr_file_digest = digest, cr_event_count = as_i64 event_count, cr_imported_at_ms = now\<rparr>
        (root_relay_consumed r)\<rparr>"

definition default_progress :: progress_row where
  "default_progress =
     \<lparr>wp_state = [], wp_current_file_path = None, wp_current_file_sequence = None,
      wp_processed_blocks = 0, wp_total_blocks = 0, wp_processed_events = 0, wp_total_events = 0,
      wp_processed_compressed_bytes = 0, wp_total_compressed_bytes = 0, wp_heartbeat_at_ms = None,
      wp_last_successful_file_sequence = None, wp_last_successful_import_at_ms = None,
      wp_last_error = None, wp_last_error_at_ms = None\<rparr>"

definition update_progress :: "progress_row \<Rightarrow> journal_root \<Rightarrow> journal_root" where
  "update_progress progress r = r\<lparr>root_progress := Some progress\<rparr>"

definition decode_progress :: "progress_row \<Rightarrow> progress_row" where
  "decode_progress p =
     p\<lparr>wp_current_file_sequence := map_option (from_i64 \<circ> as_i64) (wp_current_file_sequence p),
       wp_processed_blocks := from_i64 (as_i64 (wp_processed_blocks p)),
       wp_total_blocks := from_i64 (as_i64 (wp_total_blocks p)),
       wp_processed_events := from_i64 (as_i64 (wp_processed_events p)),
       wp_total_events := from_i64 (as_i64 (wp_total_events p)),
       wp_processed_compressed_bytes := from_i64 (as_i64 (wp_processed_compressed_bytes p)),
       wp_total_compressed_bytes := from_i64 (as_i64 (wp_total_compressed_bytes p)),
       wp_last_successful_file_sequence :=
         map_option (from_i64 \<circ> as_i64) (wp_last_successful_file_sequence p)\<rparr>"

definition progress_snapshot :: "journal_root \<Rightarrow> progress_row" where
  "progress_snapshot r =
     (case root_progress r of
        Some row \<Rightarrow> decode_progress row
      | None \<Rightarrow> default_progress\<lparr>wp_state := ''idle''\<rparr>)"

lemma map_of_table_put [simp]: "map_of (table_put k v t) x = (if x = k then Some v else map_of t x)"
  by (induction t) (auto simp: table_put_def)

section \<open>Fresh sequence numbers\<close>

text \<open>Every sequence number that a file name or the consumer's table shows.\<close>

definition used_sequences :: "journal_root \<Rightarrow> nat set" where
  "used_sequences r =
     {n. \<exists>d \<in> {root_active r, root_sealed r, root_consuming r, root_bad r}.
        \<exists>name \<in> set (dir_names d). parse_sequence_from_file_name name = Some n} \<union>
     from_i64 ` fst ` set (root_consumed r)"

text \<open>The allocator is ahead of every sequence number in use.\<close>

definition next_free :: "journal_root \<Rightarrow> nat" where
  "next_free r = fst (allocate_next_file_sequence r)"

definition sequences_fresh :: "journal_root \<Rightarrow> bool" where
  "sequences_fresh r = (\<forall>n \<in> used_sequences r. n < next_free r)"

lemma fold_max_le:
  "(\<forall>n. fold_max acc v = Some n \<longrightarrow> n \<le> m) \<Longrightarrow>
   (\<forall>n. acc = Some n \<longrightarrow> n \<le> m) \<and> (\<forall>n. v = Some n \<longrightarrow> n \<le> m)"
  by (cases acc; cases v) (simp_all add: fold_max_def)

lemma foldl_fold_max:
  "foldl (\<lambda>acc x. fold_max acc (f x)) acc xs = None \<longleftrightarrow> acc = None \<and> (\<forall>x \<in> set xs. f x = None)"
  "foldl (\<lambda>acc x. fold_max acc (f x)) acc xs = Some m \<Longrightarrow>
     (\<forall>n. acc = Some n \<longrightarrow> n \<le> m) \<and> (\<forall>x \<in> set xs. \<forall>n. f x = Some n \<longrightarrow> n \<le> m)"
proof -
  show "foldl (\<lambda>acc x. fold_max acc (f x)) acc xs = None \<longleftrightarrow> acc = None \<and> (\<forall>x \<in> set xs. f x = None)"
    by (induction xs arbitrary: acc) (auto simp: fold_max_def split: option.splits)
  show "foldl (\<lambda>acc x. fold_max acc (f x)) acc xs = Some m \<Longrightarrow>
     (\<forall>n. acc = Some n \<longrightarrow> n \<le> m) \<and> (\<forall>x \<in> set xs. \<forall>n. f x = Some n \<longrightarrow> n \<le> m)"
  proof (induction xs arbitrary: acc)
    case (Cons x xs)
    have "(\<forall>n. fold_max acc (f x) = Some n \<longrightarrow> n \<le> m) \<and> (\<forall>x \<in> set xs. \<forall>n. f x = Some n \<longrightarrow> n \<le> m)"
      using Cons.prems by (intro Cons.IH) simp
    then show ?case
      using fold_max_le[of acc "f x" m] by (metis set_ConsD)
  qed simp
qed

lemma fold_max_ge: "x \<in> set ks \<or> x = k \<Longrightarrow> x \<le> fold max ks (k :: int)"
proof (induction ks arbitrary: x k)
  case (Cons a ks)
  have m: "max a k \<le> fold max ks (max a k)" by (rule Cons.IH) simp
  have "x \<in> set ks \<Longrightarrow> x \<le> fold max ks (max a k)" by (rule Cons.IH) simp
  then show ?case
    using Cons.prems m by (auto simp: max.bounded_iff)
qed simp

text \<open>Without a row in the writer's database the seed is above everything in sight.\<close>

lemma seed_above_used:
  assumes "n \<in> used_sequences r" "n < u64_max"
  shows "n < seed_next_file_sequence r \<or> seed_next_file_sequence r = u64_max"
proof -
  let ?names = "concat (map dir_names [root_active r, root_sealed r, root_consuming r, root_bad r])"
  let ?e = "max_existing_file_sequence r" and ?c = "max_consumed_file_sequence r"
  consider (entry) name where "name \<in> set ?names" "parse_sequence_from_file_name name = Some n"
    | (row) k where "k \<in> set (map fst (root_consumed r))" "n = from_i64 k"
    using assms(1) by (auto simp: used_sequences_def)
  then have "(\<exists>m. ?e = Some m \<and> n \<le> m) \<or> (\<exists>m. ?c = Some m \<and> n \<le> m)"
  proof cases
    case entry
    then have "?e \<noteq> None"
      unfolding max_existing_file_sequence_def foldl_fold_max(1) by auto
    then obtain m where m: "?e = Some m" by auto
    then show ?thesis
      using foldl_fold_max(2)[OF m[unfolded max_existing_file_sequence_def]] entry by blast
  next
    case row
    then obtain k0 ks where k: "map fst (root_consumed r) = k0 # ks"
      by (cases "map fst (root_consumed r)") auto
    then have "from_i64 k \<le> from_i64 (fold max ks k0)"
      using row fold_max_ge[of k ks k0] by (auto simp: from_i64_def)
    then show ?thesis
      using row k by (auto simp: max_consumed_file_sequence_def)
  qed
  then show ?thesis
    using assms(2) by (auto simp: seed_next_file_sequence_def sat_add_u64_def split: option.splits)
qed

end
