(* ===== verification/JournalRecovery.thy ===== *)
theory JournalRecovery
  imports JournalRoot
begin

text \<open>
  Recovery of the files a crashed producer left in \<open>active/\<close>,
  \<open>crates/llm-usage-journal/src/recovery.rs\<close>.  Every block that is read whole and whose
  checksum matches is copied to a new sealed file; a file that ends at a record boundary is
  published, one without blocks is deleted, and any other ends up in \<open>bad/\<close>.

  The temporary output is an entry of \<open>sealed/\<close>, written through as the code does.  An
  allocation of more than \<open>isize::MAX\<close> bytes panics and is not turned into a quarantine.
\<close>

datatype recovery_outcome = Recovered string | DeletedEmpty | Quarantined string

record active_recovery_report =
  ar_recovered_files :: nat
  ar_deleted_empty_files :: nat
  ar_quarantined_files :: nat

record recovered_output =
  ro_sequence :: nat
  ro_bytes :: "byte list"

text \<open>The local variables of the loop, which are also the summary of the footer.\<close>

record recovery_state =
  rs_output :: "recovered_output option"
  rs_block_count :: nat
  rs_event_count :: nat
  rs_min_created_at_ms :: "int option"
  rs_max_created_at_ms :: "int option"
  rs_uncompressed_bytes :: nat
  rs_compressed_bytes :: nat

definition initial_recovery :: recovery_state where
  "initial_recovery =
     \<lparr>rs_output = None, rs_block_count = 0, rs_event_count = 0, rs_min_created_at_ms = None,
      rs_max_created_at_ms = None, rs_uncompressed_bytes = 0, rs_compressed_bytes = 0\<rparr>"

section \<open>Reading\<close>

datatype next_tag = CleanEof | Tag "byte list"

definition recovery_read_record_tag :: "byte list \<Rightarrow> journal_error + (next_tag \<times> byte list)" where
  "recovery_read_record_tag file =
     (if file = [] then Inr (CleanEof, [])
      else (case read_exact ''ended mid-record-tag'' 3 (tl file) of
              Inl e \<Rightarrow> Inl e
            | Inr (tag_rest, rest) \<Rightarrow> Inr (Tag (hd file # tag_rest), rest)))"

definition recovery_read_len_prefixed :: "string \<Rightarrow> byte list \<Rightarrow> journal_error + (byte list \<times> byte list)" where
  "recovery_read_len_prefixed ctx file = read_len_prefixed_payload ctx ctx file"

definition recovery_read_file_header ::
  "('x) journal_codec_scheme \<Rightarrow> byte list \<Rightarrow> journal_error + (file_header \<times> byte list)" where
  "recovery_read_file_header c file =
     (case read_exact ''failed to read orphan active journal magic'' 8 file of
        Inl e \<Rightarrow> Inl e
      | Inr (magic, rest) \<Rightarrow>
          (if magic \<noteq> FILE_MAGIC_V1 then Inl InvalidMagic
           else
             (case recovery_read_len_prefixed ''failed to read orphan active header'' rest of
                Inl e \<Rightarrow> Inl e
              | Inr (bytes, rest') \<Rightarrow>
                  (case decode_file_header c bytes of
                     None \<Rightarrow> Inl DecodeError
                   | Some h \<Rightarrow> Inr (h, rest')))))"

section \<open>The output\<close>

definition write_temp :: "nat \<Rightarrow> byte list \<Rightarrow> int \<Rightarrow> journal_root \<Rightarrow> journal_root" where
  "write_temp sequence bytes now r =
     r\<lparr>root_sealed := dir_put (recovering_name sequence)
        \<lparr>jf_bytes = bytes, jf_modified_ms = now\<rparr> (root_sealed r)\<rparr>"

definition create_recovered_output ::
  "('x) journal_codec_scheme \<Rightarrow> int \<Rightarrow> file_header \<Rightarrow> journal_root \<Rightarrow>
   (journal_error + recovered_output) \<times> journal_root" where
  "create_recovered_output c now source_header r =
     (let (sequence, r') = allocate_next_file_sequence r;
          header = source_header\<lparr>fh_magic := FILE_MAGIC_V1, fh_file_sequence := sequence\<rparr>
      in (case write_file_header c [] header of
            Inl e \<Rightarrow> (Inl e, write_temp sequence FILE_MAGIC_V1 now r')
          | Inr bytes \<Rightarrow>
              (Inr \<lparr>ro_sequence = sequence, ro_bytes = bytes\<rparr>, write_temp sequence bytes now r')))"

definition write_raw_record :: "byte list \<Rightarrow> byte list \<Rightarrow> byte list \<Rightarrow> byte list \<Rightarrow> byte list" where
  "write_raw_record file tag header_bytes payload =
     file @ tag @ le_bytes 4 (length header_bytes) @ header_bytes @ payload"

definition recovery_footer :: "recovered_output \<Rightarrow> recovery_state \<Rightarrow> int \<Rightarrow> int \<Rightarrow> file_footer" where
  "recovery_footer out st created_at now =
     \<lparr>ff_file_sequence = ro_sequence out,
      ff_created_at_ms = created_at,
      ff_sealed_at_ms = now,
      ff_event_count = rs_event_count st,
      ff_block_count = rs_block_count st,
      ff_min_created_at_ms = rs_min_created_at_ms st,
      ff_max_created_at_ms = rs_max_created_at_ms st,
      ff_uncompressed_bytes = rs_uncompressed_bytes st,
      ff_compressed_bytes = rs_compressed_bytes st\<rparr>"

definition finalize_recovered_output ::
  "('x) journal_codec_scheme \<Rightarrow> int \<Rightarrow> string \<Rightarrow> recovered_output \<Rightarrow> recovery_state \<Rightarrow> int \<Rightarrow>
   journal_root \<Rightarrow> (journal_error + string) \<times> journal_root" where
  "finalize_recovered_output c now source out st created_at r =
     (case write_record (ro_bytes out) FOOTER_TAG
             (encode_file_footer c (recovery_footer out st created_at now)) of
        Inl e \<Rightarrow> (Inl e, r)
      | Inr bytes \<Rightarrow>
          (Inr (journal_name (ro_sequence out)),
           r\<lparr>root_sealed := dir_put (journal_name (ro_sequence out))
                \<lparr>jf_bytes = bytes, jf_modified_ms = now\<rparr>
                (dir_remove (recovering_name (ro_sequence out)) (root_sealed r)),
             root_active := dir_remove source (root_active r)\<rparr>))"

section \<open>One file\<close>

text \<open>One block, its header and payload read: check, copy, count.\<close>

definition recover_block ::
  "('x) journal_codec_scheme \<Rightarrow> int \<Rightarrow> file_header \<Rightarrow> byte list \<Rightarrow> block_header \<Rightarrow> byte list \<Rightarrow>
   recovery_state \<Rightarrow> journal_root \<Rightarrow> (journal_error + recovery_state) \<times> journal_root" where
  "recover_block c now source_header header_bytes header payload st r =
     (case block_crc32c c header payload of
        Inl e \<Rightarrow> (Inl e, r)
      | Inr actual \<Rightarrow>
          (if actual \<noteq> bh_crc32c header then (Inl (CrcMismatch (bh_crc32c header) actual), r)
           else
             (case (case rs_output st of
                      Some out \<Rightarrow> (Inr out, r)
                    | None \<Rightarrow> create_recovered_output c now source_header r) of
                (Inl e, r') \<Rightarrow> (Inl e, r')
              | (Inr out, r') \<Rightarrow>
                  (let bytes = write_raw_record (ro_bytes out) BLOCK_TAG header_bytes payload
                   in (Inr \<lparr>rs_output = Some (out\<lparr>ro_bytes := bytes\<rparr>),
                            rs_block_count = sat_add_u64 (rs_block_count st) 1,
                            rs_event_count = sat_add_u64 (rs_event_count st) (bh_event_count header),
                            rs_min_created_at_ms =
                              opt_min (rs_min_created_at_ms st) (bh_min_created_at_ms header),
                            rs_max_created_at_ms =
                              opt_max (rs_max_created_at_ms st) (bh_max_created_at_ms header),
                            rs_uncompressed_bytes =
                              sat_add_u64 (rs_uncompressed_bytes st) (bh_uncompressed_len header),
                            rs_compressed_bytes =
                              sat_add_u64 (rs_compressed_bytes st) (bh_compressed_len header)\<rparr>,
                       write_temp (ro_sequence out) bytes now r')))))"

text \<open>The end of the records, at the end of the file or at a footer.\<close>

definition recovery_end ::
  "('x) journal_codec_scheme \<Rightarrow> int \<Rightarrow> string \<Rightarrow> file_header \<Rightarrow> recovery_state \<Rightarrow> journal_root \<Rightarrow>
   (journal_error + recovery_outcome) \<times> journal_root" where
  "recovery_end c now source source_header st r =
     (if rs_block_count st = 0 then
        (Inr DeletedEmpty, r\<lparr>root_active := dir_remove source (root_active r)\<rparr>)
      else
        (case rs_output st of
           None \<Rightarrow> (Inl MissingOutput, r)
         | Some out \<Rightarrow>
             (case finalize_recovered_output c now source out st (fh_created_at_ms source_header) r of
                (Inl e, r') \<Rightarrow> (Inl e, r')
              | (Inr sealed, r') \<Rightarrow> (Inr (Recovered sealed), r'))))"

lemma recovery_tag_less:
  "recovery_read_record_tag bs = Inr (Tag tag, rest) \<Longrightarrow> length rest < length bs"
  by (cases bs) (auto simp: recovery_read_record_tag_def split: if_splits sum.splits dest!: read_exact_size)

lemma recovery_len_prefixed_le:
  "recovery_read_len_prefixed ctx file = Inr (bs, rest) \<Longrightarrow> length rest \<le> length file"
  by (auto simp: recovery_read_len_prefixed_def dest!: read_len_prefixed_payload_size)

function recover_records ::
  "('x) journal_codec_scheme \<Rightarrow> int \<Rightarrow> string \<Rightarrow> file_header \<Rightarrow> recovery_state \<Rightarrow> journal_root \<Rightarrow>
   byte list \<Rightarrow> (journal_error + recovery_outcome) \<times> journal_root" where
  "recover_records c now source source_header st r file =
     (case recovery_read_record_tag file of
        Inl e \<Rightarrow> (Inl e, r)
      | Inr (CleanEof, _) \<Rightarrow> recovery_end c now source source_header st r
      | Inr (Tag tag, r1) \<Rightarrow>
          (if tag = BLOCK_TAG then
             (case recovery_read_len_prefixed ''failed to read active block header'' r1 of
                Inl e \<Rightarrow> (Inl e, r)
              | Inr (header_bytes, r2) \<Rightarrow>
                  (case decode_block_header c header_bytes of
                     None \<Rightarrow> (Inl DecodeError, r)
                   | Some header \<Rightarrow>
                       (case read_exact_bytes ''failed to read active block payload''
                               (bh_compressed_len header) r2 of
                          Inl e \<Rightarrow> (Inl e, r)
                        | Inr (payload, r3) \<Rightarrow>
                            (case recover_block c now source_header header_bytes header payload st r of
                               (Inl e, r') \<Rightarrow> (Inl e, r')
                             | (Inr st', r') \<Rightarrow>
                                 recover_records c now source source_header st' r' r3))))
           else if tag = FOOTER_TAG then
             (case recovery_read_len_prefixed ''failed to read active footer'' r1 of
                Inl e \<Rightarrow> (Inl e, r)
              | Inr _ \<Rightarrow> recovery_end c now source source_header st r)
           else (Inl (UnexpectedTag tag), r)))"
  by pat_completeness auto
termination
  by (relation "measure (\<lambda>(c, now, source, source_header, st, r, file). length file)")
    (auto dest!: recovery_tag_less recovery_len_prefixed_le read_exact_bytes_le)

declare recover_records.simps [simp del]

definition try_recover_one_active_file ::
  "('x) journal_codec_scheme \<Rightarrow> int \<Rightarrow> string \<Rightarrow> byte list \<Rightarrow> journal_root \<Rightarrow>
   (journal_error + recovery_outcome) \<times> journal_root" where
  "try_recover_one_active_file c now source file r =
     (case recovery_read_file_header c file of
        Inl e \<Rightarrow> (Inl e, r)
      | Inr (source_header, rest) \<Rightarrow>
          recover_records c now source source_header initial_recovery r rest)"

definition next_bad_name :: "string \<Rightarrow> int \<Rightarrow> string" where
  "next_bad_name source now = show_nat (nat (max now 0)) @ ''-'' @ source"

definition quarantine_or_delete_active_file ::
  "journal_config \<Rightarrow> int \<Rightarrow> string \<Rightarrow> jfile \<Rightarrow> journal_root \<Rightarrow> recovery_outcome \<times> journal_root" where
  "quarantine_or_delete_active_file config now source f r =
     (if delete_bad_files config then
        (Quarantined source, r\<lparr>root_active := dir_remove source (root_active r)\<rparr>)
      else
        (Quarantined (next_bad_name source now),
         r\<lparr>root_active := dir_remove source (root_active r),
           root_bad := dir_put (next_bad_name source now) f (root_bad r)\<rparr>))"

definition recover_one_active_file ::
  "('x) journal_codec_scheme \<Rightarrow> journal_config \<Rightarrow> int \<Rightarrow> string \<times> jfile \<Rightarrow> journal_root \<Rightarrow>
   (journal_error + recovery_outcome) \<times> journal_root" where
  "recover_one_active_file c config now entry r =
     (case try_recover_one_active_file c now (fst entry) (jf_bytes (snd entry)) r of
        (Inr outcome, r') \<Rightarrow> (Inr outcome, r')
      | (Inl e, r') \<Rightarrow>
          (if e = CapacityOverflow then (Inl e, r')
           else (case quarantine_or_delete_active_file config now (fst entry) (snd entry) r' of
                   (outcome, r'') \<Rightarrow> (Inr outcome, r''))))"

section \<open>All files\<close>

fun count_outcome :: "recovery_outcome \<Rightarrow> active_recovery_report \<Rightarrow> active_recovery_report" where
  "count_outcome (Recovered _) report =
     report\<lparr>ar_recovered_files := sat_add_u64 (ar_recovered_files report) 1\<rparr>"
| "count_outcome DeletedEmpty report =
     report\<lparr>ar_deleted_empty_files := sat_add_u64 (ar_deleted_empty_files report) 1\<rparr>"
| "count_outcome (Quarantined _) report =
     report\<lparr>ar_quarantined_files := sat_add_u64 (ar_quarantined_files report) 1\<rparr>"

fun recover_files ::
  "('x) journal_codec_scheme \<Rightarrow> journal_config \<Rightarrow> int \<Rightarrow> (string \<times> jfile) list \<Rightarrow>
   active_recovery_report \<Rightarrow> journal_root \<Rightarrow> (journal_error + active_recovery_report) \<times> journal_root" where
  "recover_files c config now [] report r = (Inr report, r)"
| "recover_files c config now (entry # entries) report r =
     (case recover_one_active_file c config now entry r of
        (Inl e, r') \<Rightarrow> (Inl e, r')
      | (Inr outcome, r') \<Rightarrow> recover_files c config now entries (count_outcome outcome report) r')"

definition recover_orphan_active_files ::
  "('x) journal_codec_scheme \<Rightarrow> journal_config \<Rightarrow> int \<Rightarrow> journal_root \<Rightarrow>
   (journal_error + active_recovery_report) \<times> journal_root" where
  "recover_orphan_active_files c config now r =
     recover_files c config now
       (sort_key (\<lambda>(name, f). (parse_sequence_from_file_name name, name)) (root_active r))
       \<lparr>ar_recovered_files = 0, ar_deleted_empty_files = 0, ar_quarantined_files = 0\<rparr> r"

end
