(* ===== verification/JournalCrash.thy ===== *)
theory JournalCrash
  imports JournalRecovery
begin

text \<open>
  A crash leaves a prefix of what the writer wrote.  This theory cuts a file at any byte and
  follows the recovery of \<open>JournalRecovery\<close> over what is left: the blocks in front of the cut
  are copied one by one, and the piece of a record behind them is always an error.
\<close>

named_theorems recovery_simps \<open>the recovery on intact and on cut records\<close>

section \<open>Cutting a file\<close>

text \<open>How many of the pieces, of these lengths, lie whole in the first \<open>k\<close> bytes.\<close>

fun whole_blocks :: "nat \<Rightarrow> nat list \<Rightarrow> nat" where
  "whole_blocks k [] = 0"
| "whole_blocks k (l # ls) = (if l \<le> k then Suc (whole_blocks (k - l) ls) else 0)"

datatype cut = Torn | AtBlock nat

text \<open>Where byte \<open>k\<close> lies in a file with a header of \<open>hl\<close> bytes and blocks of these lengths.\<close>

definition cut_of :: "nat \<Rightarrow> nat list \<Rightarrow> nat \<Rightarrow> cut" where
  "cut_of hl ls k =
     (if k < hl then Torn
      else (let n = whole_blocks (k - hl) ls
            in if k - hl = sum_list (take n ls) then AtBlock n else Torn))"

definition block_lengths :: "'e written_block list \<Rightarrow> nat list" where
  "block_lengths blocks = map (\<lambda>b. length (wb_bytes b)) blocks"

lemma block_lengths_simps [simp]:
  "block_lengths [] = []" "block_lengths (b # bl) = length (wb_bytes b) # block_lengths bl"
  "length (block_lengths bl) = length bl"
  by (simp_all add: block_lengths_def)

lemma length_blocks_bytes: "length (blocks_bytes bl) = sum_list (block_lengths bl)"
  by (induction bl) simp_all

lemma whole_blocks_le: "whole_blocks k ls \<le> length ls"
  by (induction k ls rule: whole_blocks.induct) auto

lemma whole_blocks_all: "whole_blocks (sum_list ls) ls = length ls"
  by (induction ls) simp_all

lemma sum_whole_blocks_le: "sum_list (take (whole_blocks k ls) ls) \<le> k"
  by (induction k ls rule: whole_blocks.induct) auto

text \<open>What is behind the whole blocks is a proper prefix of the next one.\<close>

lemma cut_blocks:
  assumes "k \<le> length (blocks_bytes bl)" and n: "n = whole_blocks k (block_lengths bl)"
  shows "\<exists>t. take k (blocks_bytes bl) = blocks_bytes (take n bl) @ t \<and>
    length t = k - sum_list (take n (block_lengths bl)) \<and>
    (t \<noteq> [] \<longrightarrow> (\<exists>b m. b \<in> set bl \<and> t = take m (wb_bytes b) \<and> 0 < m \<and> m < length (wb_bytes b)))"
  using assms
proof (induction bl arbitrary: k n)
  case Nil
  then show ?case by simp
next
  case (Cons b bl)
  show ?case
  proof (cases "length (wb_bytes b) \<le> k")
    case True
    let ?k = "k - length (wb_bytes b)"
    have "\<exists>t. take ?k (blocks_bytes bl) = blocks_bytes (take (whole_blocks ?k (block_lengths bl)) bl) @ t \<and>
      length t = ?k - sum_list (take (whole_blocks ?k (block_lengths bl)) (block_lengths bl)) \<and>
      (t \<noteq> [] \<longrightarrow> (\<exists>b m. b \<in> set bl \<and> t = take m (wb_bytes b) \<and> 0 < m \<and> m < length (wb_bytes b)))"
      using Cons.prems(1) by (intro Cons.IH) auto
    then show ?thesis
      using True Cons.prems(2) by auto
  next
    case False
    then show ?thesis
      using Cons.prems(2)
      by (intro exI[of _ "take k (wb_bytes b)"]) (auto intro!: exI[of _ b] exI[of _ k])
  qed
qed

section \<open>Records read whole\<close>

lemma read_tag_whole [recovery_simps]:
  "length tag = 4 \<Longrightarrow> recovery_read_record_tag (tag @ rest) = Inr (Tag tag, rest)"
  by (cases tag) (auto simp: recovery_read_record_tag_def read_exact_def)

lemma read_len_prefixed_whole [recovery_simps]:
  "length bs < 2 ^ 32 \<Longrightarrow> recovery_read_len_prefixed ctx (framed bs @ rest) = Inr (bs, rest)"
  by (simp add: recovery_read_len_prefixed_def read_len_prefixed_framed)

lemma read_header_whole:
  assumes "header_image c FILE_MAGIC_V1 h hbs"
  shows "recovery_read_file_header c (hbs @ rest) = Inr (h, rest)"
  using assms
  by (auto simp: header_image_def recovery_read_file_header_def read_exact_append read_len_prefixed_whole)

section \<open>Records cut short\<close>

lemma take_framed_short:
  assumes "m < length (framed bs)" "length bs < 2 ^ 32"
  shows "\<exists>ctx'. recovery_read_len_prefixed ctx (take m (framed bs)) = Inl (ReadError ctx')"
proof (cases "m < 4")
  case True
  then show ?thesis
    by (auto simp: recovery_read_len_prefixed_def read_len_prefixed_payload_def read_exact_def framed_def)
next
  case False
  then show ?thesis
    using assms small_fits_i64[OF assms(2)]
    by (auto simp: recovery_read_len_prefixed_def read_len_prefixed_payload_def read_exact_def
        framed_def framed_small read_exact_bytes_def)
qed

lemma cut_header_is_error:
  assumes "header_image c FILE_MAGIC_V1 h hbs" "k < length hbs"
  shows "\<exists>ctx. recovery_read_file_header c (take k hbs) = Inl (ReadError ctx)"
proof -
  obtain hb where hb: "hbs = FILE_MAGIC_V1 @ framed hb" "length FILE_MAGIC_V1 = 8" "length hb < 2 ^ 32"
    using assms(1) by (auto simp: header_image_def)
  show ?thesis
  proof (cases "k < 8")
    case True
    then show ?thesis
      using hb by (simp add: recovery_read_file_header_def read_exact_def)
  next
    case False
    then have "k - 8 < length (framed hb)"
      using assms(2) hb by simp
    from take_framed_short[OF this hb(3)] obtain ctx where
      "recovery_read_len_prefixed ''failed to read orphan active header'' (take (k - 8) (framed hb)) =
        Inl (ReadError ctx)" by blast
    then show ?thesis
      using False hb by (simp add: recovery_read_file_header_def read_exact_def)
  qed
qed

lemma cut_block_is_error:
  assumes "block_image c p bs h batch" "0 < m" "m < length bs"
  shows "\<exists>ctx. recover_records c now source sh st r (take m bs) = (Inl (ReadError ctx), r)"
  using assms(1)
proof (elim block_imageE)
  fix hb co un
  assume b: "bs = BLOCK_TAG @ framed hb @ co" "length hb < 2 ^ 32" "decode_block_header c hb = Some h"
    "bh_compressed_len h = length co" "int (length co) \<le> i64_max"
  consider (tag) "m < 4" | (prefixed) "4 \<le> m" "m - 4 < length (framed hb)"
    | (payload) "4 \<le> m" "length (framed hb) \<le> m - 4"
    by linarith
  then show ?thesis
  proof cases
    case tag
    have len: "length (take m bs) = m" using assms(3) by simp
    then obtain x xs where t: "take m bs = x # xs"
      using assms(2) by (cases "take m bs") auto
    have "length xs < 3" using len tag unfolding t by simp
    then show ?thesis
      unfolding t by (subst recover_records.simps) (simp add: recovery_read_record_tag_def read_exact_def)
  next
    case prefixed
    have "take m bs = BLOCK_TAG @ take (m - 4) (framed hb)"
      using prefixed b by simp
    moreover obtain ctx where "recovery_read_len_prefixed ''failed to read active block header''
        (take (m - 4) (framed hb)) = Inl (ReadError ctx)"
      using take_framed_short[OF prefixed(2) b(2)] by blast
    ultimately show ?thesis
      by (subst recover_records.simps) (simp add: recovery_simps)
  next
    case payload
    define part where "part = take (m - 4 - length (framed hb)) co"
    have t: "take m bs = BLOCK_TAG @ framed hb @ part"
      using payload b(1) by (simp add: part_def)
    have "length part < length co"
      using assms(3) payload b(1) by (auto simp: part_def)
    then show ?thesis
      unfolding t using b(2-5)
      by (subst recover_records.simps) (simp add: recovery_simps read_exact_bytes_def read_exact_def)
  qed
qed

section \<open>Copying the blocks\<close>

definition recovery_counts :: "('r, 'e) payload \<Rightarrow> recovery_state \<Rightarrow> 'e written_block list \<Rightarrow> bool" where
  "recovery_counts p st blocks =
     (let events = concat (block_batches blocks); times = map (payload_created_at p) events
      in rs_block_count st = length blocks \<and> rs_event_count st = length events \<and>
         rs_min_created_at_ms st = time_min times \<and> rs_max_created_at_ms st = time_max times \<and>
         rs_uncompressed_bytes st \<le> u64_max \<and> rs_compressed_bytes st \<le> u64_max)"

text \<open>The output and the directory after these blocks have been copied.\<close>

definition recovery_holds ::
  "('r, 'e) payload \<Rightarrow> nat \<Rightarrow> byte list \<Rightarrow> 'e written_block list \<Rightarrow> recovery_state \<Rightarrow> bool" where
  "recovery_holds p sequence hbs blocks st =
     (recovery_counts p st blocks \<and>
      rs_output st = (if blocks = [] then None
        else Some \<lparr>ro_sequence = sequence, ro_bytes = hbs @ blocks_bytes blocks\<rparr>))"

definition recovered_root ::
  "int \<Rightarrow> journal_root \<Rightarrow> byte list \<Rightarrow> 'e written_block list \<Rightarrow> journal_root" where
  "recovered_root now r hbs blocks =
     (if blocks = [] then r
      else (let (sequence, r') = allocate_next_file_sequence r
            in write_temp sequence (hbs @ blocks_bytes blocks) now r'))"

lemma dir_put_put [simp]: "dir_put name f (dir_put name g d) = dir_put name f d"
  by (simp add: dir_put_def dir_remove_def)

lemma dir_remove_put [simp]: "dir_remove name (dir_put name g d) = dir_remove name d"
  by (simp add: dir_put_def dir_remove_def)

lemma write_temp_write_temp [simp]:
  "write_temp n bs now (write_temp n bs' now r) = write_temp n bs now r"
  by (simp add: write_temp_def)

text \<open>The header of the output: that of the source under the new sequence number.\<close>

definition output_header :: "file_header \<Rightarrow> nat \<Rightarrow> file_header" where
  "output_header h sequence = h\<lparr>fh_magic := FILE_MAGIC_V1, fh_file_sequence := sequence\<rparr>"

definition output_header_bytes :: "('x) journal_codec_scheme \<Rightarrow> file_header \<Rightarrow> nat \<Rightarrow> byte list" where
  "output_header_bytes c h sequence =
     FILE_MAGIC_V1 @ framed (the (encode_file_header c (output_header h sequence)))"

lemma output_header_image:
  assumes "container_contract c" "file_header_fits h" "sequence \<le> u64_max"
  shows "header_image c FILE_MAGIC_V1 (output_header h sequence) (output_header_bytes c h sequence)"
    and "write_file_header c [] (output_header h sequence) = Inr (output_header_bytes c h sequence)"
proof -
  have "file_header_fits (output_header h sequence)"
    using assms by (simp add: file_header_fits_def output_header_def FILE_MAGIC_V1_def)
  then have "encodes (encode_file_header c) (decode_file_header c) (output_header h sequence)"
    by (rule container_contractD(1)[OF assms(1)])
  then obtain hb where hb: "encode_file_header c (output_header h sequence) = Some hb"
    "length hb < 2 ^ 32" "decode_file_header c hb = Some (output_header h sequence)"
    by (rule encodesE)
  then show "header_image c FILE_MAGIC_V1 (output_header h sequence) (output_header_bytes c h sequence)"
    unfolding header_image_def by (intro exI[of _ hb]) (simp add: output_header_bytes_def FILE_MAGIC_V1_def)
  show "write_file_header c [] (output_header h sequence) = Inr (output_header_bytes c h sequence)"
    using hb by (simp add: write_file_header_def output_header_bytes_def framed_def)
      (simp add: output_header_def)
qed

lemma recover_whole_block:
  assumes cc: "container_contract c" "file_header_fits sh" "next_free r \<le> u64_max"
    and b: "block_intact c p b" "block_sized p limit b"
    and holds: "recovery_holds p (next_free r) (output_header_bytes c sh (next_free r)) old st"
    and tot: "length (concat (block_batches (old @ [b]))) \<le> u64_max" "length old < u64_max"
  obtains st' where
    "\<And>rest. recover_records c now source sh st
        (recovered_root now r (output_header_bytes c sh (next_free r)) old) (wb_bytes b @ rest) =
      recover_records c now source sh st'
        (recovered_root now r (output_header_bytes c sh (next_free r)) (old @ [b])) rest"
    "recovery_holds p (next_free r) (output_header_bytes c sh (next_free r)) (old @ [b]) st'"
proof -
  let ?n = "next_free r" and ?hbs = "output_header_bytes c sh (next_free r)"
  let ?h = "wb_header b"
  obtain r1 where r1: "allocate_next_file_sequence r = (?n, r1)"
    by (cases "allocate_next_file_sequence r") (simp add: next_free_def)
  have create: "create_recovered_output c now sh r =
      (Inr \<lparr>ro_sequence = ?n, ro_bytes = ?hbs\<rparr>, write_temp ?n ?hbs now r1)"
    using output_header_image(2)[OF cc]
    by (simp add: create_recovered_output_def r1 output_header_def)
  have "block_image c p (wb_bytes b) ?h (wb_batch b)" using b(1) by (simp add: block_intact_def)
  then obtain hb co un where bl: "wb_bytes b = BLOCK_TAG @ framed hb @ co" "length hb < 2 ^ 32"
    "decode_block_header c hb = Some ?h" "bh_compressed_len ?h = length co"
    "int (length co) \<le> i64_max" "validate_block c ?h co = Inr ()"
    by (rule block_imageE)
  have crc: "block_crc32c c ?h co = Inr (bh_crc32c ?h)"
    using bl(6) by (auto simp: validate_block_def split: sum.splits if_splits)
  define st' where "st' =
    \<lparr>rs_output = Some \<lparr>ro_sequence = ?n, ro_bytes = ?hbs @ blocks_bytes (old @ [b])\<rparr>,
     rs_block_count = sat_add_u64 (rs_block_count st) 1,
     rs_event_count = sat_add_u64 (rs_event_count st) (bh_event_count ?h),
     rs_min_created_at_ms = opt_min (rs_min_created_at_ms st) (bh_min_created_at_ms ?h),
     rs_max_created_at_ms = opt_max (rs_max_created_at_ms st) (bh_max_created_at_ms ?h),
     rs_uncompressed_bytes = sat_add_u64 (rs_uncompressed_bytes st) (bh_uncompressed_len ?h),
     rs_compressed_bytes = sat_add_u64 (rs_compressed_bytes st) (bh_compressed_len ?h)\<rparr>"
  have step: "recover_block c now sh hb ?h co st (recovered_root now r ?hbs old) =
      (Inr st', recovered_root now r ?hbs (old @ [b]))"
  proof (cases "old = []")
    case True
    then show ?thesis
      using holds crc create bl(1)
      by (simp add: recover_block_def recovery_holds_def recovered_root_def r1 st'_def
          write_raw_record_def framed_def Let_def)
  next
    case False
    then show ?thesis
      using holds crc bl(1)
      by (simp add: recover_block_def recovery_holds_def recovered_root_def r1 st'_def
          write_raw_record_def framed_def Let_def)
  qed
  have "recover_records c now source sh st (recovered_root now r ?hbs old) (wb_bytes b @ rest) =
      recover_records c now source sh st' (recovered_root now r ?hbs (old @ [b])) rest" for rest
    using bl(2-5) step
    by (subst recover_records.simps) (simp add: bl(1) recovery_simps read_exact_bytes_append)
  moreover have "recovery_holds p ?n ?hbs (old @ [b]) st'"
    using holds b(2) tot
    by (simp add: recovery_holds_def recovery_counts_def st'_def Let_def sat_add_u64_exact
        sat_add_u64_le block_sized_def opt_min_append opt_max_append)
  ultimately show thesis using that by blast
qed
lemma recover_whole_blocks:
  assumes "container_contract c" "file_header_fits sh" "next_free r \<le> u64_max"
    and "list_all (block_intact c p) bl" "list_all (block_sized p limit) (old @ bl)"
    and "recovery_holds p (next_free r) (output_header_bytes c sh (next_free r)) old st"
    and "length (concat (block_batches (old @ bl))) \<le> u64_max"
  shows "\<exists>st'. (\<forall>rest. recover_records c now source sh st
        (recovered_root now r (output_header_bytes c sh (next_free r)) old) (blocks_bytes bl @ rest) =
      recover_records c now source sh st'
        (recovered_root now r (output_header_bytes c sh (next_free r)) (old @ bl)) rest) \<and>
    recovery_holds p (next_free r) (output_header_bytes c sh (next_free r)) (old @ bl) st'"
  using assms(4-)
proof (induction bl arbitrary: old st)
  case Nil
  then show ?case by auto
next
  case (Cons b bl)
  let ?hbs = "output_header_bytes c sh (next_free r)"
  have b: "block_intact c p b" "block_sized p limit b" using Cons.prems by simp_all
  have len: "length (concat (block_batches (old @ [b]))) \<le> u64_max" "length old < u64_max"
    using Cons.prems(2,4) block_count_le_events[of p limit "old @ b # bl"] by auto
  obtain st1 where st1:
    "\<And>rest. recover_records c now source sh st (recovered_root now r ?hbs old) (wb_bytes b @ rest) =
      recover_records c now source sh st1 (recovered_root now r ?hbs (old @ [b])) rest"
    "recovery_holds p (next_free r) ?hbs (old @ [b]) st1"
    by (rule recover_whole_block[OF assms(1-3) b Cons.prems(3) len]) blast
  have "\<exists>st'. (\<forall>rest. recover_records c now source sh st1 (recovered_root now r ?hbs (old @ [b])) (blocks_bytes bl @ rest) =
      recover_records c now source sh st' (recovered_root now r ?hbs ((old @ [b]) @ bl)) rest) \<and>
    recovery_holds p (next_free r) ?hbs ((old @ [b]) @ bl) st'"
    using Cons.prems st1(2) by (intro Cons.IH) simp_all
  then show ?case by (simp add: st1(1))
qed

lemma initial_recovery_holds: "recovery_holds p n hbs [] initial_recovery"
  by (simp add: recovery_holds_def recovery_counts_def initial_recovery_def Let_def time_min_def time_max_def)

text \<open>The directories after the blocks have been published as a sealed file.\<close>

definition published_root ::
  "int \<Rightarrow> string \<Rightarrow> nat \<Rightarrow> byte list \<Rightarrow> journal_root \<Rightarrow> journal_root" where
  "published_root now source sequence bytes r =
     (snd (allocate_next_file_sequence r))
       \<lparr>root_sealed := dir_put (journal_name sequence) \<lparr>jf_bytes = bytes, jf_modified_ms = now\<rparr>
          (dir_remove (recovering_name sequence) (root_sealed r)),
        root_active := dir_remove source (root_active r)\<rparr>"

lemma allocate_keeps_dirs [simp]:
  "root_sealed (snd (allocate_next_file_sequence r)) = root_sealed r"
  "root_active (snd (allocate_next_file_sequence r)) = root_active r"
  "root_bad (snd (allocate_next_file_sequence r)) = root_bad r"
  "root_consuming (snd (allocate_next_file_sequence r)) = root_consuming r"
  by (simp_all add: allocate_next_file_sequence_def Let_def)

lemma recovery_end_publishes:
  assumes "container_contract c" "file_header_fits sh" "next_free r \<le> u64_max" "i64_range now"
    and "recovery_holds p (next_free r) (output_header_bytes c sh (next_free r)) bl st" "bl \<noteq> []"
    and "list_all (block_intact c p) bl" "list_all (block_sized p limit) bl"
    and "length (concat (block_batches bl)) \<le> u64_max"
    and "\<forall>e \<in> set (concat (block_batches bl)). i64_range (payload_created_at p e)"
  shows "\<exists>bytes f. recovery_end c now source sh st
        (recovered_root now r (output_header_bytes c sh (next_free r)) bl) =
      (Inr (Recovered (journal_name (next_free r))), published_root now source (next_free r) bytes r) \<and>
    sealed_file c p (output_header_bytes c sh (next_free r)) bl f bytes \<and>
    ff_event_count f = length (concat (block_batches bl)) \<and> ff_block_count f = length bl"
proof -
  let ?n = "next_free r" and ?hbs = "output_header_bytes c sh (next_free r)"
  let ?out = "\<lparr>ro_sequence = ?n, ro_bytes = ?hbs @ blocks_bytes bl\<rparr>"
  let ?f = "recovery_footer ?out st (fh_created_at_ms sh) now"
  let ?ts = "map (payload_created_at p) (concat (block_batches bl))"
  have st: "recovery_counts p st bl" "rs_output st = Some ?out"
    using assms(5,6) by (simp_all add: recovery_holds_def)
  have "pred_option i64_range (time_min ?ts)" "pred_option i64_range (time_max ?ts)"
    using assms(10) by (intro time_range; auto)+
  then have "file_footer_fits ?f"
    using assms(2-4,9) st(1) block_count_le_events[OF assms(8)]
    by (simp add: file_footer_fits_def recovery_footer_def recovery_counts_def Let_def file_header_fits_def
        del: length_concat)
  then have "encodes (encode_file_footer c) (decode_file_footer c) ?f"
    by (rule container_contractD(3)[OF assms(1)])
  then obtain fb where fb: "encode_file_footer c ?f = Some fb" "length fb < 2 ^ 32" "decode_file_footer c fb = Some ?f"
    by (rule encodesE)
  let ?bytes = "?hbs @ blocks_bytes bl @ FOOTER_TAG @ framed fb"
  have "rs_block_count st \<noteq> 0" using st(1) assms(6) by (simp add: recovery_counts_def Let_def)
  then have "recovery_end c now source sh st (recovered_root now r ?hbs bl) =
      (Inr (Recovered (journal_name ?n)), published_root now source ?n ?bytes r)"
    using st(2) fb(1) assms(6)
    by (cases "allocate_next_file_sequence r")
      (simp add: recovery_end_def finalize_recovered_output_def write_record_def framed_def
        recovered_root_def published_root_def write_temp_def next_free_def allocate_next_file_sequence_def
        Let_def)
  moreover have "sealed_file c p ?hbs bl ?f ?bytes"
    unfolding sealed_file_def using fb assms(7) by (intro exI[of _ fb]) simp
  moreover have "ff_event_count ?f = length (concat (block_batches bl))" "ff_block_count ?f = length bl"
    using st(1) by (simp_all add: recovery_footer_def recovery_counts_def Let_def del: length_concat)
  ultimately show ?thesis by blast
qed

section \<open>A file cut anywhere\<close>

lemma try_recover_cut:
  fixes p :: "('r, 'e) payload"
  assumes cc: "container_contract c" "file_header_fits h" "next_free r \<le> u64_max" and now: "i64_range now"
    and hdr: "header_image c FILE_MAGIC_V1 h hbs"
    and bl: "list_all (block_intact c p) blocks" "list_all (block_sized p limit) blocks"
    and tot: "length (concat (block_batches blocks)) \<le> u64_max"
    and times: "\<forall>e \<in> set (concat (block_batches blocks)). i64_range (payload_created_at p e)"
    and k: "k \<le> length (hbs @ blocks_bytes blocks)"
    and try_def: "attempt = try_recover_one_active_file c now source (take k (hbs @ blocks_bytes blocks)) r"
  shows "case cut_of (length hbs) (block_lengths blocks) k of
      Torn \<Rightarrow> \<exists>ctx bl. attempt = (Inl (ReadError ctx),
        recovered_root now r (output_header_bytes c h (next_free r)) (bl :: 'e written_block list))
    | AtBlock n \<Rightarrow>
        (if n = 0 then attempt = (Inr DeletedEmpty, r\<lparr>root_active := dir_remove source (root_active r)\<rparr>)
         else \<exists>bytes f. attempt =
             (Inr (Recovered (journal_name (next_free r))), published_root now source (next_free r) bytes r) \<and>
           sealed_file c p (output_header_bytes c h (next_free r)) (take n blocks) f bytes \<and>
           ff_event_count f = length (concat (block_batches (take n blocks))) \<and> ff_block_count f = n)"
proof (cases "k < length hbs")
  case True
  from cut_header_is_error[OF hdr this] obtain ctx where
    "recovery_read_file_header c (take k hbs) = Inl (ReadError ctx)" by blast
  then have "attempt = (Inl (ReadError ctx),
      recovered_root now r (output_header_bytes c h (next_free r)) ([] :: 'e written_block list))"
    using True by (simp add: try_def try_recover_one_active_file_def recovered_root_def)
  then show ?thesis using True by (auto simp: cut_of_def)
next
  case False
  let ?n = "whole_blocks (k - length hbs) (block_lengths blocks)" and ?out = "output_header_bytes c h (next_free r)"
  have kb: "k - length hbs \<le> length (blocks_bytes blocks)" using k by simp
  obtain t where t: "take (k - length hbs) (blocks_bytes blocks) = blocks_bytes (take ?n blocks) @ t"
    "length t = k - length hbs - sum_list (take ?n (block_lengths blocks))"
    "t \<noteq> [] \<longrightarrow> (\<exists>b m. b \<in> set blocks \<and> t = take m (wb_bytes b) \<and> 0 < m \<and> m < length (wb_bytes b))"
    using cut_blocks[OF kb refl] by blast
  have sub: "list_all (block_intact c p) (take ?n blocks)" "list_all (block_sized p limit) (take ?n blocks)"
    using bl by (auto simp: list_all_iff dest: in_set_takeD)
  have cat: "concat (block_batches blocks) =
      concat (block_batches (take ?n blocks)) @ concat (block_batches (drop ?n blocks))"
    by (metis append_take_drop_id blocks_simps(6) concat_append)
  have ev: "length (concat (block_batches (take ?n blocks))) \<le> u64_max"
    "\<forall>e \<in> set (concat (block_batches (take ?n blocks))). i64_range (payload_created_at p e)"
    using tot times unfolding cat by simp_all
  have "\<exists>st'. (\<forall>rest. recover_records c now source h initial_recovery (recovered_root now r ?out ([] :: 'e written_block list))
        (blocks_bytes (take ?n blocks) @ rest) =
      recover_records c now source h st' (recovered_root now r ?out ([] @ take ?n blocks)) rest) \<and>
    recovery_holds p (next_free r) ?out ([] @ take ?n blocks) st'"
    by (rule recover_whole_blocks[OF cc sub(1), where limit = limit]) (simp_all add: sub(2) initial_recovery_holds ev(1) del: length_concat)
  then obtain st where st: "\<And>rest. recover_records c now source h initial_recovery r (blocks_bytes (take ?n blocks) @ rest) =
      recover_records c now source h st (recovered_root now r ?out (take ?n blocks)) rest"
    "recovery_holds p (next_free r) ?out (take ?n blocks) st"
    by (auto simp: recovered_root_def[of now r ?out "[]"])
  have at: "attempt = recover_records c now source h st (recovered_root now r ?out (take ?n blocks)) t"
    using False by (simp add: try_def try_recover_one_active_file_def read_header_whole[OF hdr] t(1) st(1))
  show ?thesis
  proof (cases "t = []")
    case False
    then obtain b m where b: "b \<in> set blocks" "t = take m (wb_bytes b)" "0 < m" "m < length (wb_bytes b)"
      using t(3) by blast
    have img: "block_image c p (wb_bytes b) (wb_header b) (wb_batch b)"
      using bl(1) b(1) by (auto simp: list_all_iff block_intact_def)
    obtain ctx where "attempt = (Inl (ReadError ctx), recovered_root now r ?out (take ?n blocks))"
      using cut_block_is_error[OF img b(3,4)] unfolding at b(2) by blast
    moreover have "cut_of (length hbs) (block_lengths blocks) k = Torn"
      using False t(2) \<open>\<not> k < length hbs\<close> by (auto simp: cut_of_def Let_def)
    ultimately show ?thesis by auto
  next
    case True
    have cut: "cut_of (length hbs) (block_lengths blocks) k = AtBlock ?n"
      using True t(2) sum_whole_blocks_le[of "k - length hbs" "block_lengths blocks"] \<open>\<not> k < length hbs\<close>
      by (simp add: cut_of_def Let_def)
    have at': "attempt = recovery_end c now source h st (recovered_root now r ?out (take ?n blocks))"
      unfolding at True by (subst recover_records.simps) (simp add: recovery_read_record_tag_def)
    have len: "length (take ?n blocks) = ?n"
      using whole_blocks_le[of "k - length hbs" "block_lengths blocks"] by simp
    show ?thesis
    proof (cases "?n = 0")
      case True
      then show ?thesis
        using at' st(2) by (simp add: cut recovery_end_def recovery_holds_def recovery_counts_def recovered_root_def)
    next
      case False
      then have ne: "take ?n blocks \<noteq> []" using len by auto
      show ?thesis
        using recovery_end_publishes[OF cc now st(2) ne sub ev] False len
        by (simp add: cut at' del: length_take)
    qed
  qed
qed
text \<open>The whole step on one file of \<open>active/\<close>, quarantine included.\<close>

lemma recover_one_cut:
  fixes p :: "('r, 'e) payload"
  assumes cc: "container_contract c" "file_header_fits h" "next_free r \<le> u64_max" "i64_range now"
    and hdr: "header_image c FILE_MAGIC_V1 h hbs" and magic: "payload_magic p = FILE_MAGIC_V1"
    and blocks: "list_all (block_intact c p) blocks" "list_all (block_sized p limit) blocks"
      "length (concat (block_batches blocks)) \<le> u64_max"
      "\<forall>e \<in> set (concat (block_batches blocks)). i64_range (payload_created_at p e)"
    and k: "k \<le> length (hbs @ blocks_bytes blocks)" and keep: "\<not> delete_bad_files config"
    and f: "f = \<lparr>jf_bytes = take k (hbs @ blocks_bytes blocks), jf_modified_ms = t\<rparr>"
    and result: "result = recover_one_active_file c config now (name, f) r"
  shows "case cut_of (length hbs) (block_lengths blocks) k of
      Torn \<Rightarrow> \<exists>r'. result = (Inr (Quarantined (next_bad_name name now)), r') \<and>
        map_of (root_bad r') (next_bad_name name now) = Some f \<and> map_of (root_active r') name = None
    | AtBlock n \<Rightarrow>
        (if n = 0 then result = (Inr DeletedEmpty, r\<lparr>root_active := dir_remove name (root_active r)\<rparr>)
         else \<exists>r' g. result = (Inr (Recovered (journal_name (next_free r))), r') \<and>
           map_of (root_sealed r') (journal_name (next_free r)) = Some g \<and>
           read_all_batches c p (jf_bytes g) = Inr (take n (block_batches blocks)) \<and>
           map_of (root_active r') name = None)"
proof -
  note cut = try_recover_cut[OF cc hdr blocks k refl, of name]
  show ?thesis
  proof (cases "cut_of (length hbs) (block_lengths blocks) k")
    case Torn
    then show ?thesis
      using cut keep by (auto simp: f result recover_one_active_file_def quarantine_or_delete_active_file_def)
  next
    case (AtBlock n)
    show ?thesis
    proof (cases "n = 0")
      case True
      then show ?thesis using cut AtBlock by (simp add: f result recover_one_active_file_def)
    next
      case False
      then obtain bytes ff where r: "try_recover_one_active_file c now name (take k (hbs @ blocks_bytes blocks)) r =
          (Inr (Recovered (journal_name (next_free r))), published_root now name (next_free r) bytes r)"
        "sealed_file c p (output_header_bytes c h (next_free r)) (take n blocks) ff bytes"
        using cut AtBlock by auto
      have hi: "header_image c (payload_magic p) (output_header h (next_free r)) (output_header_bytes c h (next_free r))"
        unfolding magic by (rule output_header_image(1)[OF cc(1-3)])
      have "read_all_batches c p bytes = Inr (take n (block_batches blocks))"
        using sealed_file_reads(2)[OF r(2) hi] by (simp add: block_batches_def take_map)
      then show ?thesis
        using False AtBlock r(1) by (simp add: f result recover_one_active_file_def published_root_def)
    qed
  qed
qed

end
