(* ===== verification/RollupJournal.thy ===== *)
theory RollupJournal
  imports JournalCrash
begin

text \<open>
  The journal of control-plane rollups, \<open>crates/llm-usage-journal/src/rollup.rs\<close>.  Writer and
  container are the code of the usage journal over rollup batches, so they are the functions
  of \<open>JournalFile\<close> at \<open>rollup_payload\<close>.  The stream hands out the batches of a block one by
  one; sequence numbers come from the file names alone; and recovery, unlike that of the
  usage journal, truncates a torn file to its last whole block and seals it in place.
\<close>

definition rollup_payload :: "'f rollup_codec \<Rightarrow> ('f rollup_batch, 'f journal_rollup_batch) payload" where
  "rollup_payload c =
     \<lparr>payload_magic = ROLLUP_FILE_MAGIC_V1,
      payload_convert = from_rollup_batch,
      payload_created_at = jb_created_at_ms,
      payload_encode_item = encode_rollup_batch c,
      payload_encode_batch = encode_rollup_block c,
      payload_decode_batch = decode_journal_rollup_batch_block c\<rparr>"

section \<open>The writer\<close>

type_synonym 'f rollup_writer = "'f journal_rollup_batch journal_writer"

definition rollup_append_batches ::
  "'f rollup_codec \<Rightarrow> 'f rollup_batch list \<Rightarrow> 'f rollup_writer \<Rightarrow> (journal_error + unit) \<times> 'f rollup_writer" where
  "rollup_append_batches c batches w = append_events c (rollup_payload c) batches w"

definition rollup_flush_pending_block ::
  "'f rollup_codec \<Rightarrow> 'f rollup_writer \<Rightarrow> (journal_error + unit) \<times> 'f rollup_writer" where
  "rollup_flush_pending_block c w = flush_pending_block c (rollup_payload c) w"

definition rollup_flush ::
  "'f rollup_codec \<Rightarrow> 'f rollup_writer \<Rightarrow> (journal_error + unit) \<times> 'f rollup_writer" where
  "rollup_flush c w = rollup_flush_pending_block c w"

section \<open>Names and sequence numbers\<close>

definition parse_rollup_sequence_from_file_name :: "string \<Rightarrow> nat option" where
  "parse_rollup_sequence_from_file_name name =
     (case strip_prefix ''rollup-'' name of
        None \<Rightarrow> None
      | Some suffix \<Rightarrow>
          (let digits = takeWhile is_ascii_digit suffix
           in if digits = [] then None else parse_digits digits))"

definition rollup_open_name :: "nat \<Rightarrow> string" where
  "rollup_open_name n = sequence_name ''rollup-'' n ''.open''"

definition rollup_journal_name :: "nat \<Rightarrow> string" where
  "rollup_journal_name n = sequence_name ''rollup-'' n ''.journal''"

definition rollup_bad_name :: "nat \<Rightarrow> string" where
  "rollup_bad_name n = sequence_name ''rollup-'' n ''.bad''"

definition next_rollup_sequence :: "journal_root \<Rightarrow> nat" where
  "next_rollup_sequence r =
     sat_add_u64
       (foldl (\<lambda>acc name. case parse_rollup_sequence_from_file_name name of
                  Some sequence \<Rightarrow> max acc sequence | None \<Rightarrow> acc) 0
         (concat (map dir_names [root_active r, root_sealed r, root_consuming r, root_bad r]))) 1"

definition rollup_open ::
  "'f rollup_codec \<Rightarrow> journal_config \<Rightarrow> int \<Rightarrow> nat \<Rightarrow> journal_root \<Rightarrow>
   (journal_error + 'f rollup_writer) \<times> journal_root" where
  "rollup_open c config now pid r =
     (let sequence = next_rollup_sequence r
      in (case writer_create c (rollup_payload c) config sequence now pid of
            Inl e \<Rightarrow> (Inl e, r\<lparr>root_active := dir_put (rollup_open_name sequence)
               \<lparr>jf_bytes = ROLLUP_FILE_MAGIC_V1, jf_modified_ms = now\<rparr> (root_active r)\<rparr>)
          | Inr w \<Rightarrow> (Inr w, r\<lparr>root_active := dir_put (rollup_open_name sequence)
               \<lparr>jf_bytes = jw_file w, jf_modified_ms = now\<rparr> (root_active r)\<rparr>)))"

definition rollup_seal_current_file ::
  "'f rollup_codec \<Rightarrow> int \<Rightarrow> 'f rollup_writer \<Rightarrow> journal_root \<Rightarrow>
   (journal_error + string) \<times> journal_root" where
  "rollup_seal_current_file c now w r =
     (case seal_bytes c (rollup_payload c) now w of
        (Inl e, w') \<Rightarrow> (Inl e, r\<lparr>root_active := dir_put (rollup_open_name (jw_file_sequence w'))
           \<lparr>jf_bytes = jw_file w', jf_modified_ms = now\<rparr> (root_active r)\<rparr>)
      | (Inr bytes, w') \<Rightarrow>
          (Inr (rollup_journal_name (jw_file_sequence w')),
           r\<lparr>root_active := dir_remove (rollup_open_name (jw_file_sequence w')) (root_active r),
             root_sealed := dir_put (rollup_journal_name (jw_file_sequence w'))
               \<lparr>jf_bytes = bytes, jf_modified_ms = now\<rparr> (root_sealed r)\<rparr>))"

section \<open>The reader\<close>

definition rollup_scan_summary ::
  "'f rollup_codec \<Rightarrow> byte list \<Rightarrow> journal_error + journal_file_summary" where
  "rollup_scan_summary c file = scan_summary c ROLLUP_FILE_MAGIC_V1 file"

record 'f rollup_stream =
  rst_stream :: batch_stream
  rst_decoded_batches :: "'f rollup_batch list"

definition rollup_stream_batches ::
  "'f rollup_codec \<Rightarrow> byte list \<Rightarrow> journal_error + 'f rollup_stream" where
  "rollup_stream_batches c file =
     (case stream_batches c ROLLUP_FILE_MAGIC_V1 file of
        Inl e \<Rightarrow> Inl e
      | Inr s \<Rightarrow> Inr \<lparr>rst_stream = s, rst_decoded_batches = []\<rparr>)"

definition rollup_next_batch ::
  "'f rollup_codec \<Rightarrow> 'f rollup_stream \<Rightarrow> journal_error + ('f rollup_batch option \<times> 'f rollup_stream)" where
  "rollup_next_batch c s =
     (case rst_decoded_batches s of
        batch # batches \<Rightarrow> Inr (Some batch, s\<lparr>rst_decoded_batches := batches\<rparr>)
      | [] \<Rightarrow>
          (case next_batch c (rollup_payload c) (rst_stream s) of
             Inl e \<Rightarrow> Inl e
           | Inr (None, s') \<Rightarrow> Inr (None, s\<lparr>rst_stream := s'\<rparr>)
           | Inr (Some block, s') \<Rightarrow>
               (case map into_rollup_batch block of
                  [] \<Rightarrow> Inl EmptyBlock
                | batch # batches \<Rightarrow>
                    Inr (Some batch, \<lparr>rst_stream = s', rst_decoded_batches = batches\<rparr>))))"

lemma rollup_next_batch_less:
  "rollup_next_batch c s = Inr (Some batch, s') \<Longrightarrow>
   length (bs_file (rst_stream s')) < length (bs_file (rst_stream s)) \<or>
   bs_file (rst_stream s') = bs_file (rst_stream s) \<and>
   length (rst_decoded_batches s') < length (rst_decoded_batches s)"
  by (auto simp: rollup_next_batch_def dest: next_batch_less
      split: list.splits sum.splits option.splits prod.splits)

function rollup_read_batches ::
  "'f rollup_codec \<Rightarrow> 'f rollup_stream \<Rightarrow> journal_error + ('f rollup_batch list \<times> 'f rollup_stream)" where
  "rollup_read_batches c s =
     (case rollup_next_batch c s of
        Inl e \<Rightarrow> Inl e
      | Inr (None, s') \<Rightarrow> Inr ([], s')
      | Inr (Some batch, s') \<Rightarrow>
          (case rollup_read_batches c s' of
             Inl e \<Rightarrow> Inl e
           | Inr (batches, s'') \<Rightarrow> Inr (batch # batches, s'')))"
  by pat_completeness auto
termination
  by (relation "measures [\<lambda>(c, s). length (bs_file (rst_stream s)), \<lambda>(c, s). length (rst_decoded_batches s)]")
    (auto dest!: rollup_next_batch_less)

declare rollup_read_batches.simps [simp del]

definition rollup_read_all_batches :: "'f rollup_codec \<Rightarrow> byte list \<Rightarrow> journal_error + 'f rollup_batch list" where
  "rollup_read_all_batches c file =
     (case rollup_stream_batches c file of
        Inl e \<Rightarrow> Inl e
      | Inr s \<Rightarrow>
          (case rollup_read_batches c s of
             Inl e \<Rightarrow> Inl e
           | Inr (batches, s') \<Rightarrow>
               (case finish_stream c (rst_stream s') of Inl e \<Rightarrow> Inl e | Inr _ \<Rightarrow> Inr batches)))"

section \<open>Recovery\<close>

text \<open>A position in the bytes is the bytes from there on.\<close>

definition read_len_prefixed_slice :: "byte list \<Rightarrow> (byte list \<times> byte list) option" where
  "read_len_prefixed_slice rest =
     (if length rest < 4 then None
      else (let len = le_nat (take 4 rest); rest' = drop 4 rest
            in if length rest' < len then None else Some (take len rest', drop len rest')))"

record rollup_scan_state =
  sc_valid_len :: nat
  sc_batch_count :: nat
  sc_block_count :: nat
  sc_min_created_at_ms :: "int option"
  sc_max_created_at_ms :: "int option"
  sc_uncompressed_bytes :: nat
  sc_compressed_bytes :: nat
  sc_footer :: "file_footer option"

definition scan_block :: "nat \<Rightarrow> block_header \<Rightarrow> rollup_scan_state \<Rightarrow> rollup_scan_state" where
  "scan_block offset header st =
     st\<lparr>sc_valid_len := offset,
        sc_batch_count := sat_add_u64 (sc_batch_count st) (bh_event_count header),
        sc_block_count := sat_add_u64 (sc_block_count st) 1,
        sc_min_created_at_ms := opt_min (sc_min_created_at_ms st) (bh_min_created_at_ms header),
        sc_max_created_at_ms := opt_max (sc_max_created_at_ms st) (bh_max_created_at_ms header),
        sc_uncompressed_bytes := sat_add_u64 (sc_uncompressed_bytes st) (bh_uncompressed_len header),
        sc_compressed_bytes := sat_add_u64 (sc_compressed_bytes st) (bh_compressed_len header)\<rparr>"

lemma read_len_prefixed_slice_size:
  "read_len_prefixed_slice rest = Some (bs, rest') \<Longrightarrow> length rest' \<le> length rest"
  by (auto simp: read_len_prefixed_slice_def Let_def split: if_splits)

text \<open>The loop; \<open>flen\<close> is the length of the file.\<close>

function scan_rollup_records ::
  "'f rollup_codec \<Rightarrow> nat \<Rightarrow> rollup_scan_state \<Rightarrow> byte list \<Rightarrow> journal_error + rollup_scan_state" where
  "scan_rollup_records c flen st rest =
     (if rest = [] then Inr st
      else if length rest < 8 then Inr st
      else
        (case read_len_prefixed_slice (drop 4 rest) of
           None \<Rightarrow> Inr st
         | Some (record_bytes, r2) \<Rightarrow>
             (if take 4 rest = FOOTER_TAG then
                (case decode_file_footer c record_bytes of
                   None \<Rightarrow> Inl DecodeError
                 | Some footer \<Rightarrow>
                     Inr (st\<lparr>sc_footer := Some footer, sc_valid_len := flen - length r2\<rparr>))
              else if take 4 rest \<noteq> BLOCK_TAG then Inl (UnexpectedTag (take 4 rest))
              else
                (case decode_block_header c record_bytes of
                   None \<Rightarrow> Inl DecodeError
                 | Some header \<Rightarrow>
                     (let n = bh_compressed_len header
                      in if length r2 < n then Inr st
                         else
                           (case validate_block c header (take n r2) of
                              Inl e \<Rightarrow> Inl e
                            | Inr _ \<Rightarrow>
                                scan_rollup_records c flen
                                  (scan_block (flen - length (drop n r2)) header st) (drop n r2)))))))"
  by pat_completeness auto
termination
  by (relation "measure (\<lambda>(c, flen, st, rest). length rest)")
    (auto dest!: read_len_prefixed_slice_size)

declare scan_rollup_records.simps [simp del]

record active_rollup_scan =
  as_file_sequence :: nat
  as_batch_count :: nat
  as_valid_len :: nat
  as_has_footer :: bool
  as_footer :: file_footer

definition initial_scan :: "nat \<Rightarrow> rollup_scan_state" where
  "initial_scan offset =
     \<lparr>sc_valid_len = offset, sc_batch_count = 0, sc_block_count = 0, sc_min_created_at_ms = None,
      sc_max_created_at_ms = None, sc_uncompressed_bytes = 0, sc_compressed_bytes = 0, sc_footer = None\<rparr>"

definition scan_footer :: "file_header \<Rightarrow> rollup_scan_state \<Rightarrow> int \<Rightarrow> file_footer" where
  "scan_footer header st now =
     (case sc_footer st of
        Some footer \<Rightarrow> footer
      | None \<Rightarrow>
          \<lparr>ff_file_sequence = fh_file_sequence header,
           ff_created_at_ms = fh_created_at_ms header,
           ff_sealed_at_ms = now,
           ff_event_count = sc_batch_count st,
           ff_block_count = sc_block_count st,
           ff_min_created_at_ms = sc_min_created_at_ms st,
           ff_max_created_at_ms = sc_max_created_at_ms st,
           ff_uncompressed_bytes = sc_uncompressed_bytes st,
           ff_compressed_bytes = sc_compressed_bytes st\<rparr>)"

definition scan_active_rollup_bytes ::
  "'f rollup_codec \<Rightarrow> int \<Rightarrow> byte list \<Rightarrow> journal_error + active_rollup_scan option" where
  "scan_active_rollup_bytes c now bytes =
     (if bytes = [] then Inr None
      else if length bytes < length ROLLUP_FILE_MAGIC_V1 + 4 then Inr None
      else if take (length ROLLUP_FILE_MAGIC_V1) bytes \<noteq> ROLLUP_FILE_MAGIC_V1 then Inl InvalidMagic
      else
        (case read_len_prefixed_slice (drop (length ROLLUP_FILE_MAGIC_V1) bytes) of
           None \<Rightarrow> Inr None
         | Some (header_bytes, rest) \<Rightarrow>
             (case decode_file_header c header_bytes of
                None \<Rightarrow> Inl DecodeError
              | Some header \<Rightarrow>
                  (case scan_rollup_records c (length bytes)
                          (initial_scan (length bytes - length rest)) rest of
                     Inl e \<Rightarrow> Inl e
                   | Inr st \<Rightarrow>
                       (if sc_batch_count st = 0 then Inr None
                        else Inr (Some
                          \<lparr>as_file_sequence = fh_file_sequence header,
                           as_batch_count = sc_batch_count st,
                           as_valid_len = sc_valid_len st,
                           as_has_footer = (sc_footer st \<noteq> None),
                           as_footer = scan_footer header st now\<rparr>))))))"

datatype rollup_recovery_outcome = RollupRecovered | RollupDeletedEmpty | RollupQuarantined

definition quarantine_active_rollup_file :: "string \<Rightarrow> nat \<Rightarrow> journal_root \<Rightarrow> journal_root" where
  "quarantine_active_rollup_file name sequence r =
     (case map_of (root_active r) name of
        None \<Rightarrow> r
      | Some f \<Rightarrow> r\<lparr>root_active := dir_remove name (root_active r),
                      root_bad := dir_put (rollup_bad_name sequence) f (root_bad r)\<rparr>)"

text \<open>The file is truncated in place before the footer is appended.\<close>

definition recover_one_active_rollup_file ::
  "'f rollup_codec \<Rightarrow> int \<Rightarrow> string \<times> jfile \<Rightarrow> nat \<Rightarrow> journal_root \<Rightarrow>
   (journal_error + rollup_recovery_outcome) \<times> journal_root" where
  "recover_one_active_rollup_file c now entry sequence r =
     (let name = fst entry; bytes = jf_bytes (snd entry);
          delete_empty = (Inr RollupDeletedEmpty, r\<lparr>root_active := dir_remove name (root_active r)\<rparr>)
      in (case scan_active_rollup_bytes c now bytes of
            Inl e \<Rightarrow> (Inl e, r)
          | Inr None \<Rightarrow> delete_empty
          | Inr (Some scan) \<Rightarrow>
              (if as_file_sequence scan \<noteq> sequence
               then (Inl (SequenceMismatch sequence (as_file_sequence scan)), r)
               else if as_batch_count scan = 0 then delete_empty
               else
                 (let valid = take (as_valid_len scan) bytes;
                      written = (if as_has_footer scan then Inr valid
                                 else write_record valid FOOTER_TAG (encode_file_footer c (as_footer scan)))
                  in (case written of
                        Inl e \<Rightarrow> (Inl e, r\<lparr>root_active := dir_put name
                            \<lparr>jf_bytes = valid, jf_modified_ms = now\<rparr> (root_active r)\<rparr>)
                      | Inr sealed \<Rightarrow>
                          (let f = \<lparr>jf_bytes = sealed, jf_modified_ms = now\<rparr>;
                               r' = r\<lparr>root_active := dir_put name f (root_active r)\<rparr>
                           in if map_of (root_sealed r) (rollup_journal_name sequence) \<noteq> None
                              then (Inr RollupQuarantined, quarantine_active_rollup_file name sequence r')
                              else (Inr RollupRecovered,
                                    r'\<lparr>root_active := dir_remove name (root_active r'),
                                       root_sealed := dir_put (rollup_journal_name sequence) f
                                         (root_sealed r')\<rparr>)))))))"

record rollup_recovery_report =
  rq_recovered_files :: nat
  rq_deleted_empty_files :: nat
  rq_quarantined_files :: nat

fun count_rollup_outcome :: "rollup_recovery_outcome \<Rightarrow> rollup_recovery_report \<Rightarrow> rollup_recovery_report" where
  "count_rollup_outcome RollupRecovered report =
     report\<lparr>rq_recovered_files := sat_add_u64 (rq_recovered_files report) 1\<rparr>"
| "count_rollup_outcome RollupDeletedEmpty report =
     report\<lparr>rq_deleted_empty_files := sat_add_u64 (rq_deleted_empty_files report) 1\<rparr>"
| "count_rollup_outcome RollupQuarantined report =
     report\<lparr>rq_quarantined_files := sat_add_u64 (rq_quarantined_files report) 1\<rparr>"

definition recover_rollup_entry ::
  "'f rollup_codec \<Rightarrow> int \<Rightarrow> string \<times> jfile \<Rightarrow> rollup_recovery_report \<times> journal_root \<Rightarrow>
   rollup_recovery_report \<times> journal_root" where
  "recover_rollup_entry c now entry acc =
     (case parse_rollup_sequence_from_file_name (fst entry) of
        None \<Rightarrow> acc
      | Some sequence \<Rightarrow>
          (case recover_one_active_rollup_file c now entry sequence (snd acc) of
             (Inr outcome, r') \<Rightarrow> (count_rollup_outcome outcome (fst acc), r')
           | (Inl _, r') \<Rightarrow>
               (count_rollup_outcome RollupQuarantined (fst acc),
                quarantine_active_rollup_file (fst entry) sequence r')))"

definition recover_orphan_active_rollup_files ::
  "'f rollup_codec \<Rightarrow> int \<Rightarrow> journal_root \<Rightarrow> rollup_recovery_report \<times> journal_root" where
  "recover_orphan_active_rollup_files c now r =
     fold (recover_rollup_entry c now) (root_active r)
       (\<lparr>rq_recovered_files = 0, rq_deleted_empty_files = 0, rq_quarantined_files = 0\<rparr>, r)"

end
