(* ===== verification/JournalInstance.thy ===== *)
theory JournalInstance
  imports JournalWriterTheorems
begin

text \<open>
  A concrete codec, used to show that the contract of the third-party codecs can hold: fixed
  width little-endian fields for headers and footer, one byte per event (the character of
  its id), no compression, and a sum as the checksum.
\<close>

section \<open>Fixed width fields\<close>

definition i64_bytes :: "int \<Rightarrow> byte list" where
  "i64_bytes x = le_bytes 8 (nat (x mod 2 ^ 64))"

definition bytes_i64 :: "byte list \<Rightarrow> int" where
  "bytes_i64 bs = (let n = int (le_nat bs) in if n < 2 ^ 63 then n else n - 2 ^ 64)"

lemma length_i64_bytes [simp]: "length (i64_bytes x) = 8"
  by (simp add: i64_bytes_def)

lemma bytes_i64_bytes [simp]:
  assumes "i64_range x"
  shows "bytes_i64 (i64_bytes x) = x"
proof -
  have r: "- (2 ^ 63) \<le> x" "x < 2 ^ 63"
    using assms by (simp_all add: i64_range_def i64_min_def i64_max_def)
  have "nat (x mod 2 ^ 64) < 256 ^ 8"
    by (simp add: nat_less_iff)
  then have n: "int (le_nat (i64_bytes x)) = x mod 2 ^ 64"
    by (simp add: i64_bytes_def le_nat_le_bytes)
  show ?thesis
  proof (cases "0 \<le> x")
    case True
    then have "x mod 2 ^ 64 = x" using r by (intro mod_pos_pos_trivial) auto
    then show ?thesis using r n by (simp add: bytes_i64_def)
  next
    case False
    then have "(x + 2 ^ 64) mod 2 ^ 64 = x + 2 ^ 64"
      using r by (intro mod_pos_pos_trivial) auto
    then have "x mod 2 ^ 64 = x + 2 ^ 64" by simp
    then show ?thesis using r False n by (simp add: bytes_i64_def)
  qed
qed

definition opt_bytes :: "int option \<Rightarrow> byte list" where
  "opt_bytes x = (case x of None \<Rightarrow> 0 # i64_bytes 0 | Some v \<Rightarrow> 1 # i64_bytes v)"

definition bytes_opt :: "byte list \<Rightarrow> int option" where
  "bytes_opt bs = (if hd bs = 0 then None else Some (bytes_i64 (tl bs)))"

lemma length_opt_bytes [simp]: "length (opt_bytes x) = 9"
  by (simp add: opt_bytes_def split: option.split)

lemma bytes_opt_bytes [simp]: "pred_option i64_range x \<Longrightarrow> bytes_opt (opt_bytes x) = x"
  by (cases x) (simp_all add: opt_bytes_def bytes_opt_def)

lemma u64_bytes [simp]: "x \<le> u64_max \<Longrightarrow> le_nat (le_bytes 8 x) = x"
  by (rule le_nat_le_bytes) (simp add: u64_max_def)

lemma small_bytes [simp]:
  "x < 65536 \<Longrightarrow> le_nat (le_bytes 2 x) = x" "x < 4294967296 \<Longrightarrow> le_nat (le_bytes 4 x) = x"
  by (rule le_nat_le_bytes; simp)+

section \<open>The codec\<close>

definition fixed_encode_file_header :: "file_header \<Rightarrow> byte list option" where
  "fixed_encode_file_header h = Some
     (fh_magic h @ le_bytes 2 (fh_format_version h) @ le_bytes 2 (fh_schema_version h) @
      le_bytes 8 (fh_file_sequence h) @ i64_bytes (fh_created_at_ms h) @
      le_bytes 2 (length (fh_writer_id h)) @ str_bytes (fh_writer_id h) @ str_bytes (fh_compression h))"

definition fixed_decode_file_header :: "byte list \<Rightarrow> file_header option" where
  "fixed_decode_file_header bs =
     (let n = le_nat (take 2 (drop 28 bs)) in Some
       \<lparr>fh_magic = take 8 bs, fh_format_version = le_nat (take 2 (drop 8 bs)),
        fh_schema_version = le_nat (take 2 (drop 10 bs)), fh_file_sequence = le_nat (take 8 (drop 12 bs)),
        fh_created_at_ms = bytes_i64 (take 8 (drop 20 bs)), fh_writer_id = bytes_str (take n (drop 30 bs)),
        fh_compression = bytes_str (drop (30 + n) bs)\<rparr>)"

definition fixed_encode_block_header :: "block_header \<Rightarrow> byte list option" where
  "fixed_encode_block_header h = Some
     (le_bytes 8 (bh_block_sequence h) @ le_bytes 4 (bh_event_count h) @ i64_bytes (bh_min_created_at_ms h) @
      i64_bytes (bh_max_created_at_ms h) @ le_bytes 8 (bh_uncompressed_len h) @
      le_bytes 8 (bh_compressed_len h) @ le_bytes 4 (unat (bh_crc32c h)))"

definition fixed_decode_block_header :: "byte list \<Rightarrow> block_header option" where
  "fixed_decode_block_header bs = Some
     \<lparr>bh_block_sequence = le_nat (take 8 bs), bh_event_count = le_nat (take 4 (drop 8 bs)),
      bh_min_created_at_ms = bytes_i64 (take 8 (drop 12 bs)),
      bh_max_created_at_ms = bytes_i64 (take 8 (drop 20 bs)),
      bh_uncompressed_len = le_nat (take 8 (drop 28 bs)), bh_compressed_len = le_nat (take 8 (drop 36 bs)),
      bh_crc32c = word_of_nat (le_nat (take 4 (drop 44 bs)))\<rparr>"

definition fixed_encode_file_footer :: "file_footer \<Rightarrow> byte list option" where
  "fixed_encode_file_footer f = Some
     (le_bytes 8 (ff_file_sequence f) @ i64_bytes (ff_created_at_ms f) @ i64_bytes (ff_sealed_at_ms f) @
      le_bytes 8 (ff_event_count f) @ le_bytes 8 (ff_block_count f) @ opt_bytes (ff_min_created_at_ms f) @
      opt_bytes (ff_max_created_at_ms f) @ le_bytes 8 (ff_uncompressed_bytes f) @
      le_bytes 8 (ff_compressed_bytes f))"

definition fixed_decode_file_footer :: "byte list \<Rightarrow> file_footer option" where
  "fixed_decode_file_footer bs = Some
     \<lparr>ff_file_sequence = le_nat (take 8 bs), ff_created_at_ms = bytes_i64 (take 8 (drop 8 bs)),
      ff_sealed_at_ms = bytes_i64 (take 8 (drop 16 bs)), ff_event_count = le_nat (take 8 (drop 24 bs)),
      ff_block_count = le_nat (take 8 (drop 32 bs)), ff_min_created_at_ms = bytes_opt (take 9 (drop 40 bs)),
      ff_max_created_at_ms = bytes_opt (take 9 (drop 49 bs)),
      ff_uncompressed_bytes = le_nat (take 8 (drop 58 bs)), ff_compressed_bytes = le_nat (take 8 (drop 66 bs))\<rparr>"

definition sum_crc :: "byte list \<Rightarrow> u32" where
  "sum_crc bs = word_of_nat (le_nat bs)"

definition fixed_codec :: journal_codec where
  "fixed_codec =
     \<lparr>encode_file_header = fixed_encode_file_header, decode_file_header = fixed_decode_file_header,
      encode_block_header = fixed_encode_block_header, decode_block_header = fixed_decode_block_header,
      encode_file_footer = fixed_encode_file_footer, decode_file_footer = fixed_decode_file_footer,
      zstd_encode_all = (\<lambda>level bs. Some bs), zstd_decode_all = (\<lambda>bs. Some bs),
      crc32c = sum_crc, sha256_hex = bytes_str\<rparr>"

lemma unat_u32_less: "unat (x :: u32) < 4294967296"
  using unsigned_less[of x] by simp

lemma encodes_file_header:
  "file_header_fits h \<Longrightarrow> encodes fixed_encode_file_header fixed_decode_file_header h"
  by (cases h) (simp add: encodes_def fixed_encode_file_header_def fixed_decode_file_header_def
      file_header_fits_def Let_def)

lemma encodes_block_header:
  "block_header_fits h \<Longrightarrow> encodes fixed_encode_block_header fixed_decode_block_header h"
  by (cases h) (simp add: encodes_def fixed_encode_block_header_def fixed_decode_block_header_def
      block_header_fits_def unat_u32_less)

lemma encodes_file_footer:
  "file_footer_fits f \<Longrightarrow> encodes fixed_encode_file_footer fixed_decode_file_footer f"
  by (cases f) (simp add: encodes_def fixed_encode_file_footer_def fixed_decode_file_footer_def
      file_footer_fits_def)

lemma fixed_codec_container: "container_contract fixed_codec"
  by (simp add: container_contract_def fixed_codec_def encodes_file_header encodes_block_header
      encodes_file_footer)

section \<open>Usage events named by one character\<close>

definition example_event :: "char \<Rightarrow> usage_event" where
  "example_event ch =
     \<lparr>ue_event_id = [ch], ue_created_at_ms = of_char ch, ue_provider_type = Kiro,
      ue_protocol_family = Anthropic, ue_key_id = ''key-1'', ue_key_name = ''name'',
      ue_account_name = Some ''acct-1'', ue_account_group_id_at_event = None,
      ue_route_strategy_at_event = Some Auto, ue_request_method = ''POST'',
      ue_request_url = ''/v1/messages'', ue_endpoint = ''/v1/messages'', ue_model = None,
      ue_mapped_model = None, ue_status_code = 200, ue_request_body_bytes = Some 17,
      ue_quota_failover_count = 0, ue_retry = default_retry, ue_routing_diagnostics_json = None,
      ue_input_uncached_tokens = 10, ue_input_cached_tokens = 20, ue_output_tokens = 30,
      ue_billable_tokens = 40, ue_credit_usage = Some ''0.12'', ue_usage_missing = False,
      ue_credit_usage_missing = False, ue_client_ip = ''127.0.0.1'', ue_ip_region = ''local'',
      ue_request_headers_json = ''{}'', ue_last_message_content = None,
      ue_client_request_body_json = None, ue_upstream_request_body_json = None,
      ue_full_request_json = None, ue_error_message = None, ue_error_class = None,
      ue_session_blocked = False, ue_response_image_count = None, ue_error_body = None,
      ue_response_body = None,
      ue_timing = \<lparr>ut_latency_ms = Some 123, ut_routing_wait_ms = None, ut_upstream_headers_ms = None,
        ut_post_headers_body_ms = None, ut_request_body_read_ms = None, ut_request_json_parse_ms = None,
        ut_pre_handler_ms = None, ut_first_sse_write_ms = None, ut_stream_finish_ms = None\<rparr>,
      ue_stream = \<lparr>us_stream_completed_cleanly = Some True, us_downstream_disconnect = None,
        us_final_event_type = None, us_bytes_streamed = None\<rparr>\<rparr>"

definition example_record :: "char \<Rightarrow> journal_usage_event" where
  "example_record ch = from_usage_event (example_event ch)"

definition fixed_usage_codec :: usage_codec where
  "fixed_usage_codec = journal_codec.extend fixed_codec
     (usage_codec.fields
       (\<lambda>e. Some (str_bytes (je_event_id e)))
       (\<lambda>es. Some (str_bytes (map (\<lambda>e. hd (je_event_id e)) es)))
       (\<lambda>bs. Some (map (\<lambda>b. example_record (char_of_byte b)) bs))
       (\<lambda>bs. None)
       (\<lambda>bs. None))"

lemma fixed_usage_codec_simps:
  "encode_file_header fixed_usage_codec = fixed_encode_file_header"
  "decode_file_header fixed_usage_codec = fixed_decode_file_header"
  "encode_block_header fixed_usage_codec = fixed_encode_block_header"
  "decode_block_header fixed_usage_codec = fixed_decode_block_header"
  "encode_file_footer fixed_usage_codec = fixed_encode_file_footer"
  "decode_file_footer fixed_usage_codec = fixed_decode_file_footer"
  "zstd_encode_all fixed_usage_codec = (\<lambda>level bs. Some bs)"
  "zstd_decode_all fixed_usage_codec = (\<lambda>bs. Some bs)"
  "encode_usage_event fixed_usage_codec = (\<lambda>e. Some (str_bytes (je_event_id e)))"
  "encode_usage_batch fixed_usage_codec = (\<lambda>es. Some (str_bytes (map (\<lambda>e. hd (je_event_id e)) es)))"
  "decode_journal_usage_batch fixed_usage_codec = (\<lambda>bs. Some (map (\<lambda>b. example_record (char_of_byte b)) bs))"
  by (simp_all add: fixed_usage_codec_def fixed_codec_def journal_codec.defs usage_codec.defs
      decode_journal_usage_batch_def fun_eq_iff)

lemma fixed_usage_container: "container_contract fixed_usage_codec"
  by (simp add: container_contract_def fixed_usage_codec_simps encodes_file_header
      encodes_block_header encodes_file_footer)

lemma example_record_id [simp]: "je_event_id (example_record ch) = [ch]"
  by (simp add: example_record_def from_usage_event_def example_event_def)

lemma example_record_time [simp]: "je_created_at_ms (example_record ch) = of_char ch"
  by (simp add: example_record_def example_event_def)

lemma example_payload_contract:
  assumes "block_max_events config < 2 ^ 32"
  shows "payload_contract fixed_usage_codec (usage_payload fixed_usage_codec) config (range example_record)"
proof -
  let ?c = fixed_usage_codec
  have be: "batch_encodes ?c (usage_payload ?c) (zstd_level config) batch"
    if b: "set batch \<subseteq> range example_record" "length batch \<le> max (block_max_events config) 1" for batch
  proof -
    obtain chs where chs: "batch = map example_record chs"
      using b(1) by (metis ex_map_conv image_iff subset_iff)
    have "int (length chs) \<le> i64_max"
      using b(2) assms by (simp add: chs i64_max_def)
    then show ?thesis
      by (simp add: batch_encodes_def usage_payload_def fixed_usage_codec_simps chs str_bytes_def comp_def)
  qed
  have rng: "i64_range (of_char ch)" for ch :: char
  proof -
    have "(of_char ch :: int) = int (of_char ch)" by (simp add: of_nat_of_char)
    moreover have "(of_char ch :: nat) < 256" by (rule nat_of_char_less_256)
    ultimately have "(of_char ch :: int) < 256" by linarith
    moreover have "0 \<le> (of_char ch :: int)" by (metis of_nat_of_char of_nat_0_le_iff)
    ultimately show ?thesis by (simp add: i64_range_def i64_min_def i64_max_def)
  qed
  show ?thesis
    using be rng by (auto simp: payload_contract_def usage_payload_def fixed_usage_codec_simps FILE_MAGIC_V1_def)
qed
lemma payload_contract_mono:
  "payload_contract c p config items \<Longrightarrow> items' \<subseteq> items \<Longrightarrow> payload_contract c p config items'"
  by (auto simp: payload_contract_def)

lemma example_events_contract:
  "block_max_events config < 2 ^ 32 \<Longrightarrow>
   payload_contract fixed_usage_codec (usage_payload fixed_usage_codec) config
     (from_usage_event ` set (map example_event chs))"
  by (rule payload_contract_mono[OF example_payload_contract]) (auto simp: example_record_def)

end
