(* ===== verification/RollupCrash.thy ===== *)
theory RollupCrash
  imports RollupJournal JournalInstance
begin

text \<open>
  Reading a sealed rollup file batch by batch, and the recovery of a rollup file cut anywhere:
  the scan stops at the last whole block, and what it keeps is a sealed file of these blocks.
\<close>

section \<open>Reading\<close>

lemma rollup_read_drain:
  "rollup_read_batches c \<lparr>rst_stream = s, rst_decoded_batches = ds\<rparr> =
     (case rollup_read_batches c \<lparr>rst_stream = s, rst_decoded_batches = []\<rparr> of
        Inl e \<Rightarrow> Inl e | Inr (bs, s') \<Rightarrow> Inr (ds @ bs, s'))"
proof (induction ds)
  case Nil
  then show ?case by (auto split: sum.split)
next
  case (Cons d ds)
  show ?case
    by (subst rollup_read_batches.simps) (simp add: rollup_next_batch_def Cons.IH split: sum.split prod.split)
qed

lemma rollup_read_blocks:
  assumes "list_all (block_intact c (rollup_payload c)) blocks" "\<forall>b \<in> set blocks. wb_batch b \<noteq> []"
    "length fb < 2 ^ 32" "decode_file_footer c fb = Some f"
    "\<not> bs_finished s" "bs_file s = blocks_bytes blocks @ FOOTER_TAG @ framed fb"
  shows "rollup_read_batches c \<lparr>rst_stream = s, rst_decoded_batches = []\<rparr> =
    Inr (map into_rollup_batch (concat (block_batches blocks)),
      \<lparr>rst_stream = (advance [] s)\<lparr>bs_finished := True, bs_footer := Some f\<rparr>, rst_decoded_batches = []\<rparr>)"
  using assms
proof (induction blocks arbitrary: s)
  case Nil
  then show ?case
    by (subst rollup_read_batches.simps)
      (simp add: rollup_next_batch_def next_batch_footer[where rest = "[]" and fb = fb and f = f])
next
  case (Cons b blocks)
  let ?rest = "blocks_bytes blocks @ FOOTER_TAG @ framed fb"
  have step: "next_batch c (rollup_payload c) s = Inr (Some (wb_batch b), advance ?rest s)"
    using Cons.prems by (intro next_batch_block) (auto simp: block_intact_def)
  have adv: "advance [] (advance ?rest s) = advance [] s"
    using advance_advance[of s "wb_bytes b" ?rest "[]"] Cons.prems(6) by simp
  obtain x xs where b: "wb_batch b = x # xs"
    using Cons.prems(2) by (cases "wb_batch b") auto
  show ?case
    using Cons.prems Cons.IH[of "advance ?rest s"]
    by (subst rollup_read_batches.simps)
      (simp add: rollup_next_batch_def step b rollup_read_drain[where ds = "map into_rollup_batch xs"] adv)
qed

lemma rollup_sealed_read:
  assumes "sealed_file c (rollup_payload c) hbs blocks f bytes" "header_image c ROLLUP_FILE_MAGIC_V1 h hbs"
    "\<forall>b \<in> set blocks. wb_batch b \<noteq> []"
  shows "rollup_read_all_batches c bytes = Inr (map into_rollup_batch (concat (block_batches blocks)))"
proof -
  obtain fb where fb: "bytes = hbs @ blocks_bytes blocks @ FOOTER_TAG @ framed fb" "length fb < 2 ^ 32"
    "decode_file_footer c fb = Some f" "list_all (block_intact c (rollup_payload c)) blocks"
    using assms(1) by (rule sealed_fileE)
  let ?tail = "blocks_bytes blocks @ FOOTER_TAG @ framed fb"
  let ?s0 = "\<lparr>bs_file = bytes, bs_total_compressed_bytes = length bytes, bs_bytes_read = 0,
              bs_hashed = [], bs_finished = False, bs_footer = None\<rparr>"
  have hdr: "read_file_header c ROLLUP_FILE_MAGIC_V1 bytes = Inr (h, ?tail)"
    unfolding fb(1) by (rule read_file_header_image[OF assms(2)])
  have st: "rollup_stream_batches c bytes = Inr \<lparr>rst_stream = advance ?tail ?s0, rst_decoded_batches = []\<rparr>"
    by (simp add: rollup_stream_batches_def stream_batches_def read_file_header_hashed_plain hdr)
  have "rollup_read_batches c \<lparr>rst_stream = advance ?tail ?s0, rst_decoded_batches = []\<rparr> =
    Inr (map into_rollup_batch (concat (block_batches blocks)),
      \<lparr>rst_stream = (advance [] (advance ?tail ?s0))\<lparr>bs_finished := True, bs_footer := Some f\<rparr>,
       rst_decoded_batches = []\<rparr>)"
    by (rule rollup_read_blocks[OF fb(4) assms(3) fb(2,3)]) simp_all
  then show ?thesis
    by (simp add: rollup_read_all_batches_def st finish_stream_def)
qed

section \<open>Scanning a cut file\<close>

lemma slice_framed:
  "length bs < 2 ^ 32 \<Longrightarrow> read_len_prefixed_slice (framed bs @ rest) = Some (bs, rest)"
  by (simp add: read_len_prefixed_slice_def framed_def framed_small)

lemma slice_cut:
  "m < length (framed bs) \<Longrightarrow> length bs < 2 ^ 32 \<Longrightarrow> read_len_prefixed_slice (take m (framed bs)) = None"
  by (cases "m < 4") (auto simp: read_len_prefixed_slice_def framed_def framed_small Let_def)

lemma scan_records_short: "length t < 8 \<Longrightarrow> scan_rollup_records c flen st t = Inr st"
  by (subst scan_rollup_records.simps) simp

lemma length_rollup_magic [simp]: "length ROLLUP_FILE_MAGIC_V1 = 8"
  by (simp add: ROLLUP_FILE_MAGIC_V1_def)

lemma scan_bytes_short: "length bytes < 12 \<Longrightarrow> scan_active_rollup_bytes c now bytes = Inr None"
  by (simp add: scan_active_rollup_bytes_def)

definition scan_holds ::
  "('r, 'e) payload \<Rightarrow> nat \<Rightarrow> 'e written_block list \<Rightarrow> rollup_scan_state \<Rightarrow> bool" where
  "scan_holds p offset blocks st =
     (let events = concat (block_batches blocks); times = map (payload_created_at p) events
      in sc_valid_len st = offset + length (blocks_bytes blocks) \<and> sc_footer st = None \<and>
         sc_block_count st = length blocks \<and> sc_batch_count st = length events \<and>
         sc_min_created_at_ms st = time_min times \<and> sc_max_created_at_ms st = time_max times \<and>
         sc_uncompressed_bytes st \<le> u64_max \<and> sc_compressed_bytes st \<le> u64_max)"

lemma initial_scan_holds: "scan_holds p offset [] (initial_scan offset)"
  by (simp add: scan_holds_def initial_scan_def Let_def time_min_def time_max_def)

lemma scan_one_block:
  assumes b: "block_intact c (rollup_payload c) b" "block_sized (rollup_payload c) limit b"
    and st: "scan_holds (rollup_payload c) offset old st"
    and tot: "length (concat (block_batches (old @ [b]))) \<le> u64_max" "length old < u64_max"
    and fl: "flen = offset + length (blocks_bytes old) + length (wb_bytes b) + length rest"
  shows "\<exists>st'. scan_rollup_records c flen st (wb_bytes b @ rest) = scan_rollup_records c flen st' rest \<and>
    scan_holds (rollup_payload c) offset (old @ [b]) st'"
proof -
  let ?h = "wb_header b"
  have "block_image c (rollup_payload c) (wb_bytes b) ?h (wb_batch b)" using b(1) by (simp add: block_intact_def)
  then obtain hb co un where bl: "wb_bytes b = BLOCK_TAG @ framed hb @ co" "length hb < 2 ^ 32"
    "decode_block_header c hb = Some ?h" "bh_compressed_len ?h = length co" "validate_block c ?h co = Inr ()"
    by (rule block_imageE)
  have long: "\<not> length (wb_bytes b @ rest) < 8" "wb_bytes b @ rest \<noteq> []"
    by (simp_all add: bl(1) framed_def)
  have "scan_rollup_records c flen st (wb_bytes b @ rest) =
      scan_rollup_records c flen (scan_block (flen - length rest) ?h st) rest"
    using long bl(2-5)
    by (subst scan_rollup_records.simps) (simp add: bl(1) slice_framed)
  moreover have "scan_holds (rollup_payload c) offset (old @ [b]) (scan_block (flen - length rest) ?h st)"
    using st b(2) tot fl
    by (simp add: scan_holds_def scan_block_def Let_def sat_add_u64_exact sat_add_u64_le block_sized_def
        opt_min_append opt_max_append)
  ultimately show ?thesis by blast
qed

lemma scan_whole_blocks:
  assumes "list_all (block_intact c (rollup_payload c)) bl"
    "list_all (block_sized (rollup_payload c) limit) (old @ bl)"
    "scan_holds (rollup_payload c) offset old st"
    "length (concat (block_batches (old @ bl))) \<le> u64_max"
    "flen = offset + length (blocks_bytes (old @ bl)) + length rest"
  shows "\<exists>st'. scan_rollup_records c flen st (blocks_bytes bl @ rest) = scan_rollup_records c flen st' rest \<and>
    scan_holds (rollup_payload c) offset (old @ bl) st'"
  using assms
proof (induction bl arbitrary: old st)
  case Nil
  then show ?case by auto
next
  case (Cons b bl)
  have b: "block_intact c (rollup_payload c) b" "block_sized (rollup_payload c) limit b"
    using Cons.prems by simp_all
  have len: "length (concat (block_batches (old @ [b]))) \<le> u64_max" "length old < u64_max"
    using Cons.prems(2,4) block_count_le_events[of "rollup_payload c" limit "old @ b # bl"] by auto
  have fl: "flen = offset + length (blocks_bytes old) + length (wb_bytes b) + length (blocks_bytes bl @ rest)"
    using Cons.prems(5) by simp
  obtain st1 where st1: "scan_rollup_records c flen st (wb_bytes b @ blocks_bytes bl @ rest) =
      scan_rollup_records c flen st1 (blocks_bytes bl @ rest)"
    "scan_holds (rollup_payload c) offset (old @ [b]) st1"
    using scan_one_block[OF b Cons.prems(3) len fl] by blast
  have "\<exists>st'. scan_rollup_records c flen st1 (blocks_bytes bl @ rest) = scan_rollup_records c flen st' rest \<and>
    scan_holds (rollup_payload c) offset ((old @ [b]) @ bl) st'"
    using Cons.prems st1(2) by (intro Cons.IH) simp_all
  then show ?case by (simp add: st1(1))
qed

lemma scan_stops_at_cut:
  assumes "block_image c p bs h batch" "m < length bs"
  shows "scan_rollup_records c flen st (take m bs) = Inr st"
  using assms(1)
proof (elim block_imageE)
  fix hb co un
  assume b: "bs = BLOCK_TAG @ framed hb @ co" "length hb < 2 ^ 32" "decode_block_header c hb = Some h"
    "bh_compressed_len h = length co"
  consider (short) "m < 8" | (prefixed) "8 \<le> m" "m - 4 < length (framed hb)"
    | (payload) "8 \<le> m" "length (framed hb) \<le> m - 4"
    by linarith
  then show ?thesis
  proof cases
    case short
    then show ?thesis by (intro scan_records_short) simp
  next
    case prefixed
    define part where "part = take (m - 4) (framed hb)"
    have t: "take m bs = BLOCK_TAG @ part" "read_len_prefixed_slice part = None"
      using prefixed b slice_cut[OF prefixed(2) b(2)] by (simp_all add: part_def)
    show ?thesis
      unfolding t(1) using t(2) by (subst scan_rollup_records.simps) simp
  next
    case payload
    define part where "part = take (m - 4 - length (framed hb)) co"
    have t: "take m bs = BLOCK_TAG @ framed hb @ part"
      using payload b(1) by (simp add: part_def)
    have "length part < length co"
      using assms(2) payload b(1) by (auto simp: part_def)
    then show ?thesis
      unfolding t using b(2-4)
      by (subst scan_rollup_records.simps) (simp add: slice_framed)
  qed
qed

lemma scan_after_header:
  assumes "header_image c ROLLUP_FILE_MAGIC_V1 h hbs"
  shows "scan_active_rollup_bytes c now (hbs @ rest) =
    (case scan_rollup_records c (length (hbs @ rest)) (initial_scan (length hbs)) rest of
       Inl e \<Rightarrow> Inl e
     | Inr st \<Rightarrow>
         (if sc_batch_count st = 0 then Inr None
          else Inr (Some
            \<lparr>as_file_sequence = fh_file_sequence h, as_batch_count = sc_batch_count st,
             as_valid_len = sc_valid_len st, as_has_footer = (sc_footer st \<noteq> None),
             as_footer = scan_footer h st now\<rparr>)))"
proof -
  obtain hb where hb: "hbs = ROLLUP_FILE_MAGIC_V1 @ framed hb" "length hb < 2 ^ 32" "decode_file_header c hb = Some h"
    using assms by (auto simp: header_image_def)
  have "hbs @ rest \<noteq> []" "\<not> length (hbs @ rest) < 12"
    using length_rollup_magic by (auto simp: hb(1) framed_def simp del: length_rollup_magic)
  then show ?thesis
    using hb(2,3) by (simp add: scan_active_rollup_bytes_def hb(1) slice_framed split: sum.split)
qed

text \<open>The scan of the first \<open>k\<close> bytes finds the whole blocks among them.\<close>

lemma scan_cut_file:
  assumes hdr: "header_image c ROLLUP_FILE_MAGIC_V1 h hbs"
    and bl: "list_all (block_intact c (rollup_payload c)) blocks"
      "list_all (block_sized (rollup_payload c) limit) blocks"
      "length (concat (block_batches blocks)) \<le> u64_max"
    and k: "k \<le> length (hbs @ blocks_bytes blocks)"
    and n: "n = whole_blocks (k - length hbs) (block_lengths blocks)"
  shows "if k < length hbs \<or> n = 0
    then scan_active_rollup_bytes c now (take k (hbs @ blocks_bytes blocks)) = Inr None
    else \<exists>st. scan_active_rollup_bytes c now (take k (hbs @ blocks_bytes blocks)) =
        Inr (Some \<lparr>as_file_sequence = fh_file_sequence h, as_batch_count = sc_batch_count st,
          as_valid_len = sc_valid_len st, as_has_footer = False, as_footer = scan_footer h st now\<rparr>) \<and>
      scan_holds (rollup_payload c) (length hbs) (take n blocks) st"
proof -
  obtain hb where hb: "hbs = ROLLUP_FILE_MAGIC_V1 @ framed hb" "length ROLLUP_FILE_MAGIC_V1 = 8"
    "length hb < 2 ^ 32" "decode_file_header c hb = Some h"
    using hdr by (auto simp: header_image_def)
  let ?bytes = "take k (hbs @ blocks_bytes blocks)"
  show ?thesis
  proof (cases "k < length hbs")
    case True
    then have t: "?bytes = take k (ROLLUP_FILE_MAGIC_V1 @ framed hb)" using hb(1) by simp
    show ?thesis
    proof (cases "k < 12")
      case True
      then have "scan_active_rollup_bytes c now ?bytes = Inr None"
        by (intro scan_bytes_short) simp
      then show ?thesis using \<open>k < length hbs\<close> by simp
    next
      case False
      have "k - 8 < length (framed hb)" using True False hb by simp
      then have "read_len_prefixed_slice (take (k - 8) (framed hb)) = None"
        by (rule slice_cut[OF _ hb(3)])
      then show ?thesis
        using True False hb unfolding t by (simp add: scan_active_rollup_bytes_def)
    qed
  next
    case False
    obtain t where t: "take (k - length hbs) (blocks_bytes blocks) = blocks_bytes (take n blocks) @ t"
      "length t = k - length hbs - sum_list (take n (block_lengths blocks))"
      "t \<noteq> [] \<longrightarrow> (\<exists>b m. b \<in> set blocks \<and> t = take m (wb_bytes b) \<and> 0 < m \<and> m < length (wb_bytes b))"
      using cut_blocks[OF _ n] k by force
    have bytes: "?bytes = hbs @ blocks_bytes (take n blocks) @ t"
      using False t(1) by simp
    have sub: "list_all (block_intact c (rollup_payload c)) (take n blocks)"
      "list_all (block_sized (rollup_payload c) limit) ([] @ take n blocks)"
      using bl by (auto simp: list_all_iff dest: in_set_takeD)
    have cat: "concat (block_batches blocks) =
        concat (block_batches (take n blocks)) @ concat (block_batches (drop n blocks))"
      by (metis append_take_drop_id blocks_simps(6) concat_append)
    have ev: "length (concat (block_batches ([] @ take n blocks))) \<le> u64_max"
      using bl(3) unfolding cat by simp
    have fl: "length ?bytes = length hbs + length (blocks_bytes ([] @ take n blocks)) + length t"
      unfolding bytes by simp
    obtain st where st: "scan_rollup_records c (length ?bytes) (initial_scan (length hbs)) (blocks_bytes (take n blocks) @ t) =
        scan_rollup_records c (length ?bytes) st t"
      "scan_holds (rollup_payload c) (length hbs) (take n blocks) st"
      using scan_whole_blocks[OF sub initial_scan_holds ev fl] by auto
    have stop: "scan_rollup_records c (length ?bytes) st t = Inr st"
    proof (cases "t = []")
      case True
      then show ?thesis by (subst scan_rollup_records.simps) simp
    next
      case False
      then obtain b m where b: "b \<in> set blocks" "t = take m (wb_bytes b)" "m < length (wb_bytes b)"
        using t(3) by blast
      have "block_image c (rollup_payload c) (wb_bytes b) (wb_header b) (wb_batch b)"
        using bl(1) b(1) by (auto simp: list_all_iff block_intact_def)
      then show ?thesis unfolding b(2) by (rule scan_stops_at_cut[OF _ b(3)])
    qed
    have scan: "scan_active_rollup_bytes c now ?bytes =
        (if sc_batch_count st = 0 then Inr None
         else Inr (Some \<lparr>as_file_sequence = fh_file_sequence h, as_batch_count = sc_batch_count st,
           as_valid_len = sc_valid_len st, as_has_footer = (sc_footer st \<noteq> None),
           as_footer = scan_footer h st now\<rparr>))"
      using scan_after_header[OF hdr, of now "blocks_bytes (take n blocks) @ t"] st(1) stop
      unfolding bytes by simp
    have cnt: "sc_batch_count st = length (concat (block_batches (take n blocks)))" "sc_footer st = None"
      using st(2) by (simp_all add: scan_holds_def Let_def del: length_concat)
    have "n \<le> length blocks" using whole_blocks_le[of "k - length hbs" "block_lengths blocks"] by (simp add: n)
    then have "n \<le> sc_batch_count st"
      using block_count_le_events[OF sub(2)] unfolding cnt(1) by (simp del: length_concat)
    moreover have "n = 0 \<Longrightarrow> sc_batch_count st = 0" unfolding cnt(1) by simp
    ultimately have "sc_batch_count st = 0 \<longleftrightarrow> n = 0" by auto
    then show ?thesis
      using False scan cnt(2) st(2) by auto
  qed
qed
section \<open>Recovering a cut file\<close>

lemma scan_footer_fits:
  assumes "scan_holds p offset blocks st" "file_header_fits h" "i64_range now"
    "list_all (block_sized p limit) blocks" "length (concat (block_batches blocks)) \<le> u64_max"
    "\<forall>e \<in> set (concat (block_batches blocks)). i64_range (payload_created_at p e)"
  shows "file_footer_fits (scan_footer h st now)"
    and "ff_event_count (scan_footer h st now) = length (concat (block_batches blocks))"
    and "ff_block_count (scan_footer h st now) = length blocks"
proof -
  let ?ts = "map (payload_created_at p) (concat (block_batches blocks))"
  have "pred_option i64_range (time_min ?ts)" "pred_option i64_range (time_max ?ts)"
    using assms(6) by (intro time_range; auto)+
  then show "file_footer_fits (scan_footer h st now)"
    using assms block_count_le_events[OF assms(4)]
    by (simp add: file_footer_fits_def scan_footer_def scan_holds_def Let_def file_header_fits_def
        del: length_concat)
  show "ff_event_count (scan_footer h st now) = length (concat (block_batches blocks))"
    and "ff_block_count (scan_footer h st now) = length blocks"
    using assms(1) by (simp_all add: scan_footer_def scan_holds_def Let_def del: length_concat)
qed

lemma rollup_recover_cut:
  assumes cc: "container_contract c" and h: "header_image c ROLLUP_FILE_MAGIC_V1 h hbs" "file_header_fits h"
    and bl: "list_all (block_intact c (rollup_payload c)) blocks"
      "list_all (block_sized (rollup_payload c) limit) blocks"
      "length (concat (block_batches blocks)) \<le> u64_max"
      "\<forall>e \<in> set (concat (block_batches blocks)). i64_range (payload_created_at (rollup_payload c) e)"
    and k: "k \<le> length (hbs @ blocks_bytes blocks)" and now: "i64_range now"
    and n: "n = whole_blocks (k - length hbs) (block_lengths blocks)"
    and sequence: "fh_file_sequence h = sequence" "map_of (root_sealed r) (rollup_journal_name sequence) = None"
    and f: "f = \<lparr>jf_bytes = take k (hbs @ blocks_bytes blocks), jf_modified_ms = t\<rparr>"
    and result: "result = recover_one_active_rollup_file c now (name, f) sequence r"
  shows "if k < length hbs \<or> n = 0
    then result = (Inr RollupDeletedEmpty, r\<lparr>root_active := dir_remove name (root_active r)\<rparr>)
    else \<exists>r' g s. result = (Inr RollupRecovered, r') \<and>
      map_of (root_sealed r') (rollup_journal_name sequence) = Some g \<and> map_of (root_active r') name = None \<and>
      rollup_read_all_batches c (jf_bytes g) =
        Inr (map into_rollup_batch (concat (take n (block_batches blocks)))) \<and>
      rollup_scan_summary c (jf_bytes g) = Inr s \<and> ff_block_count (summary_footer s) = n"
proof (cases "k < length hbs \<or> n = 0")
  case True
  then show ?thesis
    using scan_cut_file[OF h(1) bl(1-3) k n, of now] by (auto simp: result recover_one_active_rollup_file_def f)
next
  case False
  let ?p = "rollup_payload c" and ?bytes = "take k (hbs @ blocks_bytes blocks)"
  obtain st where st: "scan_active_rollup_bytes c now ?bytes =
      Inr (Some \<lparr>as_file_sequence = fh_file_sequence h, as_batch_count = sc_batch_count st,
        as_valid_len = sc_valid_len st, as_has_footer = False, as_footer = scan_footer h st now\<rparr>)"
    "scan_holds ?p (length hbs) (take n blocks) st"
    using False scan_cut_file[OF h(1) bl(1-3) k n, of now] by auto
  have sub: "list_all (block_intact c ?p) (take n blocks)" "list_all (block_sized ?p limit) (take n blocks)"
    using bl by (auto simp: list_all_iff dest: in_set_takeD)
  have cat: "concat (block_batches blocks) =
      concat (block_batches (take n blocks)) @ concat (block_batches (drop n blocks))"
    by (metis append_take_drop_id blocks_simps(6) concat_append)
  have ev: "length (concat (block_batches (take n blocks))) \<le> u64_max"
    "\<forall>e \<in> set (concat (block_batches (take n blocks))). i64_range (payload_created_at ?p e)"
    using bl(3,4) unfolding cat by simp_all
  have n_le: "n \<le> length blocks" using whole_blocks_le[of "k - length hbs" "block_lengths blocks"] by (simp add: n)
  note ff = scan_footer_fits[OF st(2) h(2) now sub(2) ev]
  have "encodes (encode_file_footer c) (decode_file_footer c) (scan_footer h st now)"
    by (rule container_contractD(3)[OF cc ff(1)])
  then obtain fb where fb: "encode_file_footer c (scan_footer h st now) = Some fb" "length fb < 2 ^ 32"
    "decode_file_footer c fb = Some (scan_footer h st now)"
    by (rule encodesE)
  obtain rest where cut: "?bytes = (hbs @ blocks_bytes (take n blocks)) @ rest"
    using False cut_blocks[OF _ n] k by force
  have valid: "take (sc_valid_len st) ?bytes = hbs @ blocks_bytes (take n blocks)"
    using st(2) unfolding cut by (simp add: scan_holds_def Let_def)
  let ?sealed = "hbs @ blocks_bytes (take n blocks) @ FOOTER_TAG @ framed fb"
  have sealed: "sealed_file c ?p hbs (take n blocks) (scan_footer h st now) ?sealed"
    unfolding sealed_file_def using fb sub(1) by (intro exI[of _ fb]) simp
  have ne: "\<forall>b \<in> set (take n blocks). wb_batch b \<noteq> []"
    using sub(2) by (auto simp: list_all_iff block_sized_def)
  have mg: "payload_magic ?p = ROLLUP_FILE_MAGIC_V1" by (simp add: rollup_payload_def)
  have "sc_batch_count st = length (concat (block_batches (take n blocks)))"
    using st(2) by (simp add: scan_holds_def Let_def del: length_concat)
  then have "n \<le> sc_batch_count st"
    using block_count_le_events[OF sub(2)] n_le by (simp del: length_concat)
  then have "sc_batch_count st \<noteq> 0" using False by simp
  then have "recover_one_active_rollup_file c now (name, f) sequence r =
      (Inr RollupRecovered,
       r\<lparr>root_active := dir_remove name (root_active r),
         root_sealed := dir_put (rollup_journal_name sequence)
           \<lparr>jf_bytes = ?sealed, jf_modified_ms = now\<rparr> (root_sealed r)\<rparr>)"
    using st(1) sequence fb(1) valid
    by (simp add: recover_one_active_rollup_file_def f write_record_def framed_def Let_def)
  moreover have "rollup_read_all_batches c ?sealed =
      Inr (map into_rollup_batch (concat (take n (block_batches blocks))))"
    using rollup_sealed_read[OF sealed h(1) ne] by (simp add: block_batches_def take_map)
  moreover have "rollup_scan_summary c ?sealed =
      Inr \<lparr>summary_footer = scan_footer h st now, summary_total_compressed_bytes = length ?sealed\<rparr>"
    unfolding rollup_scan_summary_def using sealed_file_reads(3)[OF sealed h(1)[folded mg]] by (simp add: mg)
  ultimately show ?thesis
    using False ff(3) n_le by (simp add: result)
qed

section \<open>An instance of the codec\<close>

definition example_batch :: "char \<Rightarrow> nat rollup_batch" where
  "example_batch ch =
     \<lparr>rb_batch_id = [ch], rb_source_node_id = None, rb_created_at_ms = 1000, rb_source_event_count = 2,
      rb_deltas = [\<lparr>rd_key_id = ''key-1'', rd_input_uncached_tokens = 10, rd_input_cached_tokens = 20,
        rd_output_tokens = 30, rd_billable_tokens = 40, rd_credit_total = 5, rd_credit_missing_events = 0,
        rd_last_used_at_ms = Some 999\<rparr>],
      rb_last_used_at_ms_counts = [\<lparr>rc_key_id = ''key-1'', rc_last_used_at_ms = 999, rc_count = 2\<rparr>]\<rparr>"

definition fixed_rollup_codec :: "nat rollup_codec" where
  "fixed_rollup_codec = journal_codec.extend fixed_codec
     (rollup_codec.fields
       (\<lambda>b. Some (str_bytes (jb_batch_id b)))
       (\<lambda>bs. Some (str_bytes (map (\<lambda>b. hd (jb_batch_id b)) bs)))
       (\<lambda>bs. Some (map (\<lambda>b. from_rollup_batch (example_batch (char_of_byte b))) bs))
       (\<lambda>bs. None))"

lemma fixed_rollup_codec_simps:
  "encode_file_header fixed_rollup_codec = fixed_encode_file_header"
  "decode_file_header fixed_rollup_codec = fixed_decode_file_header"
  "encode_block_header fixed_rollup_codec = fixed_encode_block_header"
  "decode_block_header fixed_rollup_codec = fixed_decode_block_header"
  "encode_file_footer fixed_rollup_codec = fixed_encode_file_footer"
  "decode_file_footer fixed_rollup_codec = fixed_decode_file_footer"
  "zstd_encode_all fixed_rollup_codec = (\<lambda>level bs. Some bs)"
  "zstd_decode_all fixed_rollup_codec = (\<lambda>bs. Some bs)"
  "encode_rollup_batch fixed_rollup_codec = (\<lambda>b. Some (str_bytes (jb_batch_id b)))"
  "encode_rollup_block fixed_rollup_codec = (\<lambda>bs. Some (str_bytes (map (\<lambda>b. hd (jb_batch_id b)) bs)))"
  "decode_journal_rollup_batch_block fixed_rollup_codec =
     (\<lambda>bs. Some (map (\<lambda>b. from_rollup_batch (example_batch (char_of_byte b))) bs))"
  by (simp_all add: fixed_rollup_codec_def fixed_codec_def journal_codec.defs rollup_codec.defs
      decode_journal_rollup_batch_block_def fun_eq_iff)

lemma fixed_rollup_container: "container_contract fixed_rollup_codec"
  by (simp add: container_contract_def fixed_rollup_codec_simps encodes_file_header
      encodes_block_header encodes_file_footer)

lemma example_batch_record [simp]:
  "jb_batch_id (from_rollup_batch (example_batch ch)) = [ch]"
  "jb_created_at_ms (from_rollup_batch (example_batch ch)) = 1000"
  by (simp_all add: from_rollup_batch_def example_batch_def)

lemma example_rollup_contract:
  assumes "block_max_events config < 2 ^ 32"
  shows "payload_contract fixed_rollup_codec (rollup_payload fixed_rollup_codec) config
    (range (from_rollup_batch \<circ> example_batch))"
proof -
  let ?c = fixed_rollup_codec
  have be: "batch_encodes ?c (rollup_payload ?c) (zstd_level config) batch"
    if b: "set batch \<subseteq> range (from_rollup_batch \<circ> example_batch)" "length batch \<le> max (block_max_events config) 1" for batch
  proof -
    obtain chs where chs: "batch = map (from_rollup_batch \<circ> example_batch) chs"
      using b(1) by (metis ex_map_conv image_iff subset_iff)
    have "int (length chs) \<le> i64_max"
      using b(2) assms by (simp add: chs i64_max_def)
    then show ?thesis
      by (simp add: batch_encodes_def rollup_payload_def fixed_rollup_codec_simps chs str_bytes_def comp_def)
  qed
  then show ?thesis
    by (auto simp: payload_contract_def rollup_payload_def fixed_rollup_codec_simps
        i64_range_def i64_min_def i64_max_def)
qed

end
