(* ===== verification/JournalProperties.thy ===== *)
theory JournalProperties
  imports RollupCrash
begin

text \<open>
  The properties of the usage journal: what the producer writes is what the consumer reads,
  what a crash leaves behind, and what the worker makes of it.
\<close>

text \<open>
  C37.  A usage journal file holds exactly the events appended to it.  However the events are
  handed to the writer and whenever it is flushed, no call fails, the sealed file is read
  back as the same events in the same order, no block is empty or longer than the configured
  number of events, and the footer found without decoding counts the events and the blocks.
\<close>

theorem journal_file_roundtrip:
  assumes "container_contract c"
    and "payload_contract c (usage_payload c) config (from_usage_event ` set (calls_events calls))"
    and "block_max_events config < 2 ^ 32" and "length (calls_events calls) \<le> u64_max"
    and "sequence \<le> u64_max" and "i64_range now" and "i64_range sealed_at" and "pid < 2 ^ 32"
  shows "\<exists>w0 w w' bytes batches.
     writer_create c (usage_payload c) config sequence now pid = Inr w0 \<and>
     run_writer c (usage_payload c) calls w0 = (Inr (), w) \<and>
     seal_bytes c (usage_payload c) sealed_at w = (Inr bytes, w') \<and>
     read_all_batches c (usage_payload c) bytes = Inr batches \<and>
     map into_usage_event (concat batches) = calls_events calls \<and>
     (\<forall>b \<in> set batches. b \<noteq> [] \<and> length b \<le> max (block_max_events config) 1) \<and>
     scan_summary c FILE_MAGIC_V1 bytes =
       Inr \<lparr>summary_footer = footer_of w' sealed_at, summary_total_compressed_bytes = length bytes\<rparr> \<and>
     ff_event_count (footer_of w' sealed_at) = length (calls_events calls) \<and>
     ff_block_count (footer_of w' sealed_at) = length batches"
proof -
  let ?p = "usage_payload c" and ?items = "from_usage_event ` set (calls_events calls)"
  let ?events = "map from_usage_event (calls_events calls)"
  have conv: "payload_convert ?p = from_usage_event" "payload_magic ?p = FILE_MAGIC_V1"
    by (simp_all add: usage_payload_def)
  have m8: "length (payload_magic ?p) = 8" by (simp add: conv FILE_MAGIC_V1_def)
  obtain w0 hbs where w0: "writer_create c ?p config sequence now pid = Inr w0"
    "header_image c (payload_magic ?p) (new_file_header ?p sequence now pid) hbs"
    "writer_inv c ?p hbs [] w0" "jw_config w0 = config" "jw_file_sequence w0 = sequence"
    "jw_created_at_ms w0 = now" "jw_file w0 = hbs"
    "file_header_fits (new_file_header ?p sequence now pid)"
    by (rule writer_create_inv[OF assms(1) m8 assms(5,6,8)])
  have lim: "block_limit config < 2 ^ 32" using assms(3) by (simp add: block_limit_def)
  obtain w where w: "run_writer c ?p calls w0 = (Inr (), w)" "same_file w0 w"
    "writer_inv c ?p hbs ?events w"
    using run_writer_keeps_inv[of c ?p w0 ?items hbs "[]" calls] assms lim w0
    by (auto simp: conv)
  have same: "jw_config w = config" "jw_file_sequence w = sequence" "jw_created_at_ms w = now"
    using w(2) w0 by (simp_all add: same_file_def)
  have its: "set ?events \<subseteq> ?items" and tot: "length ?events \<le> u64_max"
    using assms(4) by simp_all
  obtain w' blocks bytes where sealed: "seal_bytes c ?p sealed_at w = (Inr bytes, w')"
    "same_file w w'" "sealed_file c ?p hbs blocks (footer_of w' sealed_at) bytes"
    "concat (block_batches blocks) = ?events"
    "list_all (block_sized ?p (block_limit config)) blocks" "counts_of ?p w' blocks"
    by (rule seal_writes_sealed_file[of c ?p w ?items hbs ?events sealed_at, unfolded same,
          OF assms(1,2) lim w(3) its tot assms(5-7)])
  note reads = sealed_file_reads[OF sealed(3) w0(2), unfolded conv]
  have "\<forall>b \<in> set (block_batches blocks). b \<noteq> [] \<and> length b \<le> max (block_max_events config) 1"
    using sealed(5) by (auto simp: block_batches_def block_sized_def block_limit_def list_all_iff)
  moreover have "ff_event_count (footer_of w' sealed_at) = length (calls_events calls)"
    "ff_block_count (footer_of w' sealed_at) = length (block_batches blocks)"
    using sealed(4,6) by (simp_all add: footer_of_def counts_of_def Let_def del: length_concat)
  moreover have "map into_usage_event (concat (block_batches blocks)) = calls_events calls"
    by (simp add: sealed(4))
  ultimately show ?thesis
    using w0(1) w(1) sealed(1) reads(2,3) by blast
qed

theorem journal_file_roundtrip_witness:
  "\<exists>w0 w w' bytes batches.
     writer_create fixed_usage_codec (usage_payload fixed_usage_codec) journal_config_new 7 1000 42 = Inr w0 \<and>
     run_writer fixed_usage_codec (usage_payload fixed_usage_codec)
       [Append (map example_event ''ab''), Flush, Append (map example_event ''c'')] w0 = (Inr (), w) \<and>
     seal_bytes fixed_usage_codec (usage_payload fixed_usage_codec) 2000 w = (Inr bytes, w') \<and>
     read_all_batches fixed_usage_codec (usage_payload fixed_usage_codec) bytes = Inr batches \<and>
     map into_usage_event (concat batches) = map example_event ''abc''"
proof -
  let ?calls = "[Append (map example_event ''ab''), Flush, Append (map example_event ''c'')]"
  have ev: "calls_events ?calls = map example_event ''abc''" by simp
  have pc: "payload_contract fixed_usage_codec (usage_payload fixed_usage_codec) journal_config_new
      (from_usage_event ` set (calls_events ?calls))"
    unfolding ev by (rule example_events_contract) (simp add: journal_config_new_def)
  have "block_max_events journal_config_new < 2 ^ 32" "length (calls_events ?calls) \<le> u64_max"
    "(7::nat) \<le> u64_max" "i64_range 1000" "i64_range 2000" "(42::nat) < 2 ^ 32"
    by (simp_all add: journal_config_new_def u64_max_def i64_range_def i64_min_def i64_max_def)
  from journal_file_roundtrip[OF fixed_usage_container pc this]
  show ?thesis unfolding ev by blast
qed

definition example_root :: journal_root where
  "example_root =
     \<lparr>root_active = [], root_sealed = [], root_consuming = [], root_bad = [],
      root_next_sequence = Some 5, root_consumed = [], root_relay_consumed = [], root_progress = None\<rparr>"

lemma next_free_example [simp]: "next_free example_root = 5"
  by (simp add: next_free_def allocate_next_file_sequence_def example_root_def from_i64_def Let_def)






end
