(* ===== verification/UsageSink.thy ===== *)
theory UsageSink
  imports JournalRecovery
begin

text \<open>
  The producer of the usage journal, \<open>crates/llm-access/src/usage_journal.rs\<close>: the sink that
  the request path writes to, its disk writer with the rotation of files, and the status it
  reports.  The mutex of the sink makes its calls a sequence; a poisoned mutex is not
  modelled.  \<open>sync_active\<close> states that what the writer wrote is in the directory.
\<close>

record runtime_journal_config =
  rj_usage_journal_enabled :: bool
  rj_usage_journal_max_file_bytes :: nat
  rj_usage_journal_max_file_age_ms :: nat
  rj_usage_journal_max_files :: nat
  rj_usage_journal_block_target_uncompressed_bytes :: nat
  rj_usage_journal_block_max_events :: nat
  rj_usage_journal_fsync_interval_ms :: nat
  rj_usage_journal_zstd_level :: int
  rj_usage_journal_consumer_lease_ms :: nat
  rj_usage_journal_delete_bad_files :: bool

text \<open>\<open>usize\<close> has 64 bits, so \<open>usize::try_from\<close> succeeds; \<open>i32::try_from\<close> may not.\<close>

definition journal_config_from_runtime :: "runtime_journal_config \<Rightarrow> journal_config" where
  "journal_config_from_runtime rt =
     \<lparr>max_file_bytes = max (rj_usage_journal_max_file_bytes rt) 1,
      max_file_age_ms = max (rj_usage_journal_max_file_age_ms rt) 1,
      max_files = max (rj_usage_journal_max_files rt) 1,
      block_target_uncompressed_bytes = max (rj_usage_journal_block_target_uncompressed_bytes rt) 1,
      block_max_events = max (rj_usage_journal_block_max_events rt) 1,
      fsync_interval_ms = rj_usage_journal_fsync_interval_ms rt,
      zstd_level =
        (let level = rj_usage_journal_zstd_level rt
         in if - (2 ^ 31) \<le> level \<and> level < 2 ^ 31 then level else 3),
      consumer_lease_ms = max (rj_usage_journal_consumer_lease_ms rt) 1,
      delete_bad_files = rj_usage_journal_delete_bad_files rt\<rparr>"

record disk_writer =
  dw_enabled :: bool
  dw_config :: journal_config
  dw_writer :: "journal_usage_event journal_writer"

definition disk_writer_open ::
  "usage_codec \<Rightarrow> runtime_journal_config \<Rightarrow> int \<Rightarrow> nat \<Rightarrow> journal_root \<Rightarrow>
   (journal_error + disk_writer) \<times> journal_root" where
  "disk_writer_open c rt now pid r =
     (let config = journal_config_from_runtime rt
      in (case recover_orphan_active_files c config now r of
            (Inl e, r') \<Rightarrow> (Inl e, r')
          | (Inr _, r') \<Rightarrow>
              (case writer_open c (usage_payload c) config now pid r' of
                 (Inl e, r'') \<Rightarrow> (Inl e, r'')
               | (Inr w, r'') \<Rightarrow>
                   (Inr \<lparr>dw_enabled = rj_usage_journal_enabled rt, dw_config = config, dw_writer = w\<rparr>, r''))))"

text \<open>\<open>age_ms as u64\<close>: a negative age, after the clock was set back, is a huge one.\<close>

definition as_u64 :: "int \<Rightarrow> nat" where
  "as_u64 x = nat (x mod 2 ^ 64)"

definition should_seal :: "int \<Rightarrow> disk_writer \<Rightarrow> bool" where
  "should_seal now d =
     (if \<not> has_written_events (dw_writer d) then False
      else max_file_bytes (dw_config d) \<le> active_file_bytes (dw_writer d) \<or>
           max_file_age_ms (dw_config d) \<le> as_u64 (sat_sub_i64 now (jw_created_at_ms (dw_writer d))))"

text \<open>The next file is opened before the old one is sealed.\<close>

definition seal_current_writer ::
  "usage_codec \<Rightarrow> int \<Rightarrow> nat \<Rightarrow> disk_writer \<Rightarrow> journal_root \<Rightarrow>
   (journal_error + unit) \<times> disk_writer \<times> journal_root" where
  "seal_current_writer c now pid d r =
     (case writer_open c (usage_payload c) (dw_config d) now pid r of
        (Inl e, r1) \<Rightarrow> (Inl e, d, r1)
      | (Inr w, r1) \<Rightarrow>
          (case seal_current_file c (usage_payload c) now (dw_writer d) r1 of
             (Inl e, r2) \<Rightarrow> (Inl e, d\<lparr>dw_writer := w\<rparr>, r2)
           | (Inr _, r2) \<Rightarrow> (Inr (), d\<lparr>dw_writer := w\<rparr>, snd (enforce_retention (dw_config d) r2))))"

definition disk_append_usage_events ::
  "usage_codec \<Rightarrow> int \<Rightarrow> nat \<Rightarrow> usage_event list \<Rightarrow> disk_writer \<Rightarrow> journal_root \<Rightarrow>
   (journal_error + unit) \<times> disk_writer \<times> journal_root" where
  "disk_append_usage_events c now pid events d r =
     (if \<not> dw_enabled d then (Inr (), d, r)
      else
        (case append_events c (usage_payload c) events (dw_writer d) of
           (Inl e, w1) \<Rightarrow> (Inl e, d\<lparr>dw_writer := w1\<rparr>, sync_active w1 now r)
         | (Inr _, w1) \<Rightarrow>
             (case flush c (usage_payload c) w1 of
                (Inl e, w2) \<Rightarrow> (Inl e, d\<lparr>dw_writer := w2\<rparr>, sync_active w2 now r)
              | (Inr _, w2) \<Rightarrow>
                  (let d' = d\<lparr>dw_writer := w2\<rparr>; r' = sync_active w2 now r
                   in if should_seal now d' then seal_current_writer c now pid d' r'
                      else (Inr (), d', r')))))"

definition disk_maintain ::
  "usage_codec \<Rightarrow> int \<Rightarrow> nat \<Rightarrow> disk_writer \<Rightarrow> journal_root \<Rightarrow>
   (journal_error + unit) \<times> disk_writer \<times> journal_root" where
  "disk_maintain c now pid d r =
     (if \<not> dw_enabled d then (Inr (), d, r)
      else if should_seal now d then seal_current_writer c now pid d r
      else (Inr (), d, r))"

section \<open>The sink\<close>

text \<open>Failures are counted (with an atomic that wraps) and never reach the request.\<close>

record usage_sink =
  sk_writer :: disk_writer
  sk_write_failures_total :: nat

definition count_failure :: "journal_error + unit \<Rightarrow> nat \<Rightarrow> nat" where
  "count_failure result n = (case result of Inl _ \<Rightarrow> (n + 1) mod 2 ^ 64 | Inr _ \<Rightarrow> n)"

definition sink_append_usage_events ::
  "usage_codec \<Rightarrow> int \<Rightarrow> nat \<Rightarrow> usage_event list \<Rightarrow> usage_sink \<times> journal_root \<Rightarrow> usage_sink \<times> journal_root" where
  "sink_append_usage_events c now pid events s =
     (if events = [] then s
      else (case disk_append_usage_events c now pid events (sk_writer (fst s)) (snd s) of
              (result, d, r) \<Rightarrow>
                (\<lparr>sk_writer = d,
                  sk_write_failures_total = count_failure result (sk_write_failures_total (fst s))\<rparr>, r)))"

definition sink_maintain ::
  "usage_codec \<Rightarrow> int \<Rightarrow> nat \<Rightarrow> usage_sink \<times> journal_root \<Rightarrow> usage_sink \<times> journal_root" where
  "sink_maintain c now pid s =
     (case disk_maintain c now pid (sk_writer (fst s)) (snd s) of
        (result, d, r) \<Rightarrow>
          (\<lparr>sk_writer = d,
            sk_write_failures_total = count_failure result (sk_write_failures_total (fst s))\<rparr>, r))"

definition sink_open ::
  "usage_codec \<Rightarrow> runtime_journal_config \<Rightarrow> int \<Rightarrow> nat \<Rightarrow> journal_root \<Rightarrow>
   (journal_error + usage_sink) \<times> journal_root" where
  "sink_open c rt now pid r =
     (case disk_writer_open c rt now pid r of
        (Inl e, r') \<Rightarrow> (Inl e, r')
      | (Inr d, r') \<Rightarrow> (Inr \<lparr>sk_writer = d, sk_write_failures_total = 0\<rparr>, r'))"

section \<open>Status\<close>

record sealed_stats =
  ss_file_count :: nat
  ss_bytes :: nat
  ss_oldest_age_ms :: "int option"

definition sealed_stats_of :: "int \<Rightarrow> journal_root \<Rightarrow> sealed_stats" where
  "sealed_stats_of now r =
     foldl (\<lambda>stats (_, f).
         \<lparr>ss_file_count = sat_add_u64 (ss_file_count stats) 1,
          ss_bytes = sat_add_u64 (ss_bytes stats) (length (jf_bytes f)),
          ss_oldest_age_ms = opt_max (ss_oldest_age_ms stats) (sat_sub_i64 now (jf_modified_ms f))\<rparr>)
       \<lparr>ss_file_count = 0, ss_bytes = 0, ss_oldest_age_ms = None\<rparr> (root_sealed r)"

record journal_status =
  st_journal_enabled :: bool
  st_active_file_sequence :: "nat option"
  st_active_file_bytes :: nat
  st_sealed_file_count :: nat
  st_sealed_bytes :: nat
  st_oldest_sealed_age_ms :: "int option"
  st_dropped_files_total :: nat
  st_dropped_unconsumed_files_total :: nat
  st_write_failures_total :: nat

definition sink_status_snapshot :: "int \<Rightarrow> usage_sink \<times> journal_root \<Rightarrow> journal_status" where
  "sink_status_snapshot now s =
     (let d = sk_writer (fst s); sealed = sealed_stats_of now (snd s)
      in \<lparr>st_journal_enabled = dw_enabled d,
          st_active_file_sequence = Some (jw_file_sequence (dw_writer d)),
          st_active_file_bytes = active_file_bytes (dw_writer d),
          st_sealed_file_count = ss_file_count sealed,
          st_sealed_bytes = ss_bytes sealed,
          st_oldest_sealed_age_ms = ss_oldest_age_ms sealed,
          st_dropped_files_total = 0,
          st_dropped_unconsumed_files_total = 0,
          st_write_failures_total = sk_write_failures_total (fst s)\<rparr>)"

end
