(* ===== verification/UsageWorker.thy ===== *)
theory UsageWorker
  imports UsageSink
begin

text \<open>
  The consumer of the usage journal, \<open>crates/llm-access/src/usage_worker.rs\<close>: claiming the
  oldest sealed file, importing its blocks into the analytics store, taking back files a dead
  consumer left behind, and the relay of sealed files from an edge node to the primary.

  The analytics store is the argument \<open>store_append\<close>; \<open>AnalyticsStore\<close> models the one the workers
  use.  A path is given relative to the journal root, a clock is a function of the number of
  the block, and the rate and percentage of the progress row, which are \<open>f64\<close>, are left out.
\<close>

datatype worker_error =
    JournalFailed journal_error
  | StoreFailed string
  | RelayConflict relay_error
  | FileMissing string
  | PrimaryUnavailable
  | SendFailed string
  | RelayRejected nat string

section \<open>Claiming a file\<close>

definition parse_journal_sequence :: "string \<Rightarrow> nat option" where
  "parse_journal_sequence name =
     (case strip_prefix ''usage-'' name of
        None \<Rightarrow> None
      | Some suffix \<Rightarrow> parse_digits (takeWhile is_ascii_digit suffix))"

text \<open>The crate and the worker read the sequence number of a file name alike.\<close>

lemma parse_journal_sequence_agrees: "parse_journal_sequence name = parse_sequence_from_file_name name"
  by (simp add: parse_journal_sequence_def parse_sequence_from_file_name_def parse_digits_def Let_def
      split: option.split)

record claimed_file =
  cl_sequence :: nat
  cl_name :: string

definition consuming_path :: "string \<Rightarrow> string" where
  "consuming_path name = ''consuming/'' @ name"

text \<open>A time before the epoch gives the largest age.\<close>

definition file_age_ms :: "int \<Rightarrow> jfile \<Rightarrow> int" where
  "file_age_ms now f =
     (if jf_modified_ms f < 0 then i64_max else sat_sub_i64 now (jf_modified_ms f))"

definition claim_candidates :: "dir \<Rightarrow> (nat \<times> string) list" where
  "claim_candidates d =
     sort_key fst (concat (map (\<lambda>name. case parse_journal_sequence name of
        None \<Rightarrow> [] | Some sequence \<Rightarrow> [(sequence, name)]) (dir_names d)))"

definition sealed_to_consuming :: "string \<Rightarrow> journal_root \<Rightarrow> (worker_error + journal_root)" where
  "sealed_to_consuming name r =
     (case map_of (root_sealed r) name of
        None \<Rightarrow> Inl (FileMissing name)
      | Some f \<Rightarrow> Inr (r\<lparr>root_sealed := dir_remove name (root_sealed r),
                        root_consuming := dir_put name f (root_consuming r)\<rparr>))"

definition consuming_to_sealed :: "string \<Rightarrow> journal_root \<Rightarrow> (worker_error + journal_root)" where
  "consuming_to_sealed name r =
     (case map_of (root_consuming r) name of
        None \<Rightarrow> Inl (FileMissing name)
      | Some f \<Rightarrow> Inr (r\<lparr>root_consuming := dir_remove name (root_consuming r),
                        root_sealed := dir_put name f (root_sealed r)\<rparr>))"

fun claim_first ::
  "(nat \<times> string) list \<Rightarrow> journal_root \<Rightarrow> (worker_error + claimed_file option) \<times> journal_root" where
  "claim_first [] r = (Inr None, r)"
| "claim_first ((sequence, name) # candidates) r =
     (if is_consumed sequence r then
        claim_first candidates (r\<lparr>root_sealed := dir_remove name (root_sealed r)\<rparr>)
      else
        (case sealed_to_consuming name r of
           Inl e \<Rightarrow> (Inl e, r)
         | Inr r' \<Rightarrow> (Inr (Some \<lparr>cl_sequence = sequence, cl_name = name\<rparr>), r')))"

definition claim_oldest_sealed_file ::
  "journal_root \<Rightarrow> (worker_error + claimed_file option) \<times> journal_root" where
  "claim_oldest_sealed_file r = claim_first (claim_candidates (root_sealed r)) r"

fun recover_consuming ::
  "nat \<Rightarrow> int \<Rightarrow> dir \<Rightarrow> journal_root \<Rightarrow> (worker_error + unit) \<times> journal_root" where
  "recover_consuming lease now [] r = (Inr (), r)"
| "recover_consuming lease now ((name, f) # entries) r =
     (case parse_journal_sequence name of
        None \<Rightarrow> recover_consuming lease now entries r
      | Some sequence \<Rightarrow>
          (if is_consumed sequence r then
             recover_consuming lease now entries
               (r\<lparr>root_consuming := dir_remove name (root_consuming r)\<rparr>)
           else if as_i64 lease \<le> file_age_ms now f then
             (case consuming_to_sealed name r of
                Inl e \<Rightarrow> (Inl e, r)
              | Inr r' \<Rightarrow> recover_consuming lease now entries r')
           else recover_consuming lease now entries r))"

definition recover_orphan_consuming_files ::
  "nat \<Rightarrow> int \<Rightarrow> journal_root \<Rightarrow> (worker_error + unit) \<times> journal_root" where
  "recover_orphan_consuming_files lease now r = recover_consuming lease now (root_consuming r) r"

definition restore_claimed_file :: "claimed_file \<Rightarrow> journal_root \<Rightarrow> (worker_error + journal_root)" where
  "restore_claimed_file claim r = consuming_to_sealed (cl_name claim) r"

section \<open>Progress\<close>

definition idle_progress :: "int \<Rightarrow> progress_row" where
  "idle_progress now = default_progress\<lparr>wp_state := ''idle'', wp_heartbeat_at_ms := Some now\<rparr>"

definition relaying_progress :: "claimed_file \<Rightarrow> int \<Rightarrow> progress_row" where
  "relaying_progress claim now = default_progress
     \<lparr>wp_state := ''relaying'', wp_current_file_path := Some (consuming_path (cl_name claim)),
      wp_current_file_sequence := Some (cl_sequence claim), wp_heartbeat_at_ms := Some now\<rparr>"

definition importing_progress :: "claimed_file \<Rightarrow> nat \<Rightarrow> nat \<Rightarrow> nat \<Rightarrow> nat \<Rightarrow> int \<Rightarrow> progress_row" where
  "importing_progress claim processed_blocks processed_events processed_bytes total_bytes now =
     default_progress
     \<lparr>wp_state := ''importing'', wp_current_file_path := Some (consuming_path (cl_name claim)),
      wp_current_file_sequence := Some (cl_sequence claim), wp_processed_blocks := processed_blocks,
      wp_processed_events := processed_events, wp_processed_compressed_bytes := processed_bytes,
      wp_total_compressed_bytes := total_bytes, wp_heartbeat_at_ms := Some now\<rparr>"

definition done_progress :: "claimed_file \<Rightarrow> int \<Rightarrow> progress_row" where
  "done_progress claim now = (idle_progress now)
     \<lparr>wp_last_successful_file_sequence := Some (cl_sequence claim),
      wp_last_successful_import_at_ms := Some now\<rparr>"

definition record_error :: "string \<Rightarrow> int \<Rightarrow> journal_root \<Rightarrow> journal_root" where
  "record_error message now r =
     update_progress ((progress_snapshot r)
       \<lparr>wp_state := ''error'', wp_heartbeat_at_ms := Some now, wp_last_error := Some message,
        wp_last_error_at_ms := Some now\<rparr>) r"

section \<open>Importing a claimed file\<close>

definition WORKER_PROGRESS_UPDATE_INTERVAL_MS :: int where
  "WORKER_PROGRESS_UPDATE_INTERVAL_MS = 1000"

type_synonym 's append_op = "usage_event list \<Rightarrow> 's \<Rightarrow> (string + unit) \<times> 's"

record import_counts =
  ic_processed_blocks :: nat
  ic_processed_events :: nat
  ic_last_progress_update_ms :: "int option"

definition should_persist_progress :: "nat \<Rightarrow> nat \<Rightarrow> int \<Rightarrow> import_counts \<Rightarrow> bool" where
  "should_persist_progress batch_limit index now k =
     (ic_processed_blocks k = 1 \<or>
      (case ic_last_progress_update_ms k of
         Some t \<Rightarrow> WORKER_PROGRESS_UPDATE_INTERVAL_MS \<le> sat_sub_i64 now t
       | None \<Rightarrow> True) \<or>
      index + 1 = batch_limit)"

definition after_block ::
  "claimed_file \<Rightarrow> nat \<Rightarrow> nat \<Rightarrow> int \<Rightarrow> batch_stream \<Rightarrow> nat \<Rightarrow> import_counts \<Rightarrow> journal_root \<Rightarrow>
   import_counts \<times> journal_root" where
  "after_block claim batch_limit index now stream event_count k r =
     (let k' = k\<lparr>ic_processed_blocks := sat_add_u64 (ic_processed_blocks k) 1,
                 ic_processed_events := sat_add_u64 (ic_processed_events k) event_count\<rparr>
      in if should_persist_progress batch_limit index now k' then
           (k'\<lparr>ic_last_progress_update_ms := Some now\<rparr>,
            update_progress (importing_progress claim (ic_processed_blocks k') (ic_processed_events k')
              (bs_bytes_read stream) (bs_total_compressed_bytes stream) now) r)
         else (k', r))"

function import_blocks ::
  "usage_codec \<Rightarrow> 's append_op \<Rightarrow> claimed_file \<Rightarrow> (nat \<Rightarrow> int) \<Rightarrow> nat \<Rightarrow> nat \<Rightarrow> import_counts \<Rightarrow>
   batch_stream \<Rightarrow> 's \<times> journal_root \<Rightarrow> (worker_error + batch_stream) \<times> 's \<times> journal_root" where
  "import_blocks c store_append claim clock batch_limit index k stream w =
     (if index < batch_limit then
        (case next_batch c (usage_payload c) stream of
           Inl e \<Rightarrow> (Inl (JournalFailed e), w)
         | Inr (None, stream') \<Rightarrow> (Inr stream', w)
         | Inr (Some batch, stream') \<Rightarrow>
             (let events = map into_usage_event batch
              in (case store_append events (fst w) of
                    (Inl e, store) \<Rightarrow> (Inl (StoreFailed e), store, snd w)
                  | (Inr _, store) \<Rightarrow>
                      (case after_block claim batch_limit index (clock index) stream' (length events) k (snd w) of
                         (k', r) \<Rightarrow>
                           import_blocks c store_append claim clock batch_limit (index + 1) k' stream' (store, r)))))
      else (Inr stream, w))"
  by pat_completeness auto
termination
  by (relation "measure (\<lambda>(c, store_append, claim, clock, batch_limit, index, k, stream, w). length (bs_file stream))")
    (auto dest: next_batch_less)

declare import_blocks.simps [simp del]

definition import_claimed_file ::
  "usage_codec \<Rightarrow> 's append_op \<Rightarrow> (nat \<Rightarrow> int) \<Rightarrow> int \<Rightarrow> nat option \<Rightarrow> bool \<Rightarrow> claimed_file \<Rightarrow>
   's \<times> journal_root \<Rightarrow> (worker_error + unit) \<times> 's \<times> journal_root" where
  "import_claimed_file c store_append clock now max_blocks finalize_file claim w =
     (case map_of (root_consuming (snd w)) (cl_name claim) of
        None \<Rightarrow> (Inl (FileMissing (cl_name claim)), w)
      | Some f \<Rightarrow>
          (case stream_batches c FILE_MAGIC_V1 (jf_bytes f) of
             Inl e \<Rightarrow> (Inl (JournalFailed e), w)
           | Inr stream \<Rightarrow>
               (case import_blocks c store_append claim clock (unwrap_or max_blocks u64_max) 0
                       \<lparr>ic_processed_blocks = 0, ic_processed_events = 0, ic_last_progress_update_ms = None\<rparr>
                       stream w of
                  (Inl e, w1) \<Rightarrow> (Inl e, w1)
                | (Inr stream', store, r) \<Rightarrow>
                    (if max_blocks \<noteq> None then (Inr (), store, r)
                     else
                       (case finish_stream c stream' of
                          Inl e \<Rightarrow> (Inl (JournalFailed e), store, r)
                        | Inr report \<Rightarrow>
                            (let r1 = record_consumed_file (cl_sequence claim) (report_file_digest_hex report)
                                        (ff_event_count (report_footer report)) now r;
                                 r2 = (if finalize_file
                                       then r1\<lparr>root_consuming := dir_remove (cl_name claim) (root_consuming r1)\<rparr>
                                       else r1)
                             in (Inr (), store, update_progress (done_progress claim now) r2)))))))"

definition import_next ::
  "usage_codec \<Rightarrow> 's append_op \<Rightarrow> nat \<Rightarrow> (nat \<Rightarrow> int) \<Rightarrow> int \<Rightarrow> nat option \<Rightarrow> bool \<Rightarrow>
   's \<times> journal_root \<Rightarrow> (worker_error + bool) \<times> 's \<times> journal_root" where
  "import_next c store_append lease clock now max_blocks finalize_file w =
     (case recover_orphan_consuming_files lease now (snd w) of
        (Inl e, r) \<Rightarrow> (Inl e, fst w, r)
      | (Inr _, r) \<Rightarrow>
          (case claim_oldest_sealed_file r of
             (Inl e, r') \<Rightarrow> (Inl e, fst w, r')
           | (Inr None, r') \<Rightarrow> (Inr False, fst w, update_progress (idle_progress now) r')
           | (Inr (Some claim), r') \<Rightarrow>
               (case import_claimed_file c store_append clock now max_blocks finalize_file claim (fst w, r') of
                  (Inl e, w') \<Rightarrow> (Inl e, w')
                | (Inr _, w') \<Rightarrow> (Inr True, w'))))"

definition run_one_import ::
  "usage_codec \<Rightarrow> 's append_op \<Rightarrow> nat \<Rightarrow> (nat \<Rightarrow> int) \<Rightarrow> int \<Rightarrow> 's \<times> journal_root \<Rightarrow>
   (worker_error + bool) \<times> 's \<times> journal_root" where
  "run_one_import c store_append lease clock now w = import_next c store_append lease clock now None True w"

text \<open>\<open>UsageWorker::new\<close> opens the worker with \<open>consumer_lease_ms.max(1)\<close>.\<close>

definition worker_lease :: "nat \<Rightarrow> nat" where
  "worker_lease consumer_lease = max consumer_lease 1"

text \<open>An iteration of \<open>run_forever\<close> on the primary; an error is recorded and ends the loop.\<close>

definition worker_cycle ::
  "usage_codec \<Rightarrow> 's append_op \<Rightarrow> nat \<Rightarrow> (worker_error \<Rightarrow> string) \<Rightarrow> (nat \<Rightarrow> int) \<Rightarrow> int \<Rightarrow> 's \<times> journal_root \<Rightarrow>
   (worker_error + bool) \<times> 's \<times> journal_root" where
  "worker_cycle c store_append lease show_error clock now w =
     (case run_one_import c store_append lease clock now w of
        (Inl e, store, r) \<Rightarrow> (Inl e, store, record_error (show_error e) now r)
      | (Inr b, w') \<Rightarrow> (Inr b, w'))"

section \<open>Relaying\<close>

text \<open>What comes of the request to the primary: no primary is known, the request fails, or a
  status with a body.\<close>

datatype relay_response = NoPrimary | NoResponse string | Response nat string

definition is_success :: "nat \<Rightarrow> bool" where
  "is_success status = (200 \<le> status \<and> status < 300)"

definition restored :: "claimed_file \<Rightarrow> worker_error \<Rightarrow> journal_root \<Rightarrow> (worker_error + bool) \<times> journal_root" where
  "restored claim e r =
     (case restore_claimed_file claim r of Inl e' \<Rightarrow> (Inl e', r) | Inr r' \<Rightarrow> (Inl e, r'))"

definition run_one_relay ::
  "nat \<Rightarrow> int \<Rightarrow> (nat \<Rightarrow> byte list \<Rightarrow> relay_response) \<Rightarrow> journal_root \<Rightarrow> (worker_error + bool) \<times> journal_root" where
  "run_one_relay lease now post r =
     (case recover_orphan_consuming_files lease now r of
        (Inl e, r1) \<Rightarrow> (Inl e, r1)
      | (Inr _, r1) \<Rightarrow>
          (case claim_oldest_sealed_file r1 of
             (Inl e, r2) \<Rightarrow> (Inl e, r2)
           | (Inr None, r2) \<Rightarrow> (Inr False, update_progress (idle_progress now) r2)
           | (Inr (Some claim), r2) \<Rightarrow>
               (let r3 = update_progress (relaying_progress claim now) r2
                in (case map_of (root_consuming r3) (cl_name claim) of
                      None \<Rightarrow> (Inl (FileMissing (cl_name claim)), r3)
                    | Some f \<Rightarrow>
                        (case post (cl_sequence claim) (jf_bytes f) of
                           NoPrimary \<Rightarrow> restored claim PrimaryUnavailable r3
                         | NoResponse message \<Rightarrow> (Inl (SendFailed message), r3)
                         | Response status body \<Rightarrow>
                             (if \<not> is_success status then restored claim (RelayRejected status body) r3
                              else (Inr True, update_progress (done_progress claim now)
                                     (r3\<lparr>root_consuming := dir_remove (cl_name claim) (root_consuming r3)\<rparr>))))))))"

record relay_import_response =
  ri_imported :: bool
  ri_already_imported :: bool
  ri_source_node_id :: string
  ri_file_sequence :: nat
  ri_event_count :: nat

definition sanitize_file_component :: "string \<Rightarrow> string" where
  "sanitize_file_component raw =
     map (\<lambda>ch. if is_ascii_alphanumeric ch \<or> ch \<in> set ''-_.'' then ch else CHR ''-'') raw"

function relay_blocks ::
  "usage_codec \<Rightarrow> 's append_op \<Rightarrow> nat \<Rightarrow> batch_stream \<Rightarrow> 's \<Rightarrow> (worker_error + nat \<times> batch_stream) \<times> 's" where
  "relay_blocks c store_append event_count stream store =
     (case next_batch c (usage_payload c) stream of
        Inl e \<Rightarrow> (Inl (JournalFailed e), store)
      | Inr (None, stream') \<Rightarrow> (Inr (event_count, stream'), store)
      | Inr (Some batch, stream') \<Rightarrow>
          (let events = map into_usage_event batch
           in (case store_append events store of
                 (Inl e, store') \<Rightarrow> (Inl (StoreFailed e), store')
               | (Inr _, store') \<Rightarrow>
                   relay_blocks c store_append (sat_add_u64 event_count (length events)) stream' store')))"
  by pat_completeness auto
termination
  by (relation "measure (\<lambda>(c, store_append, event_count, stream, store). length (bs_file stream))")
    (auto dest: next_batch_less)

declare relay_blocks.simps [simp del]

text \<open>The body is written to a file of a fresh name, which is removed again in every case.\<close>

definition import_relayed_journal_bytes ::
  "usage_codec \<Rightarrow> 's append_op \<Rightarrow> string \<Rightarrow> nat \<Rightarrow> byte list \<Rightarrow> int \<Rightarrow> 's \<times> journal_root \<Rightarrow>
   (worker_error + relay_import_response) \<times> 's \<times> journal_root" where
  "import_relayed_journal_bytes c store_append source_node_id file_sequence body now w =
     (case is_relay_consumed source_node_id file_sequence (sha256_hex c body) (snd w) of
        Inl e \<Rightarrow> (Inl (RelayConflict e), w)
      | Inr True \<Rightarrow>
          (Inr \<lparr>ri_imported = False, ri_already_imported = True, ri_source_node_id = source_node_id,
            ri_file_sequence = file_sequence, ri_event_count = 0\<rparr>, w)
      | Inr False \<Rightarrow>
          (case stream_batches c FILE_MAGIC_V1 body of
             Inl e \<Rightarrow> (Inl (JournalFailed e), w)
           | Inr stream \<Rightarrow>
               (case relay_blocks c store_append 0 stream (fst w) of
                  (Inl e, store) \<Rightarrow> (Inl e, store, snd w)
                | (Inr (event_count, stream'), store) \<Rightarrow>
                    (case finish_stream c stream' of
                       Inl e \<Rightarrow> (Inl (JournalFailed e), store, snd w)
                     | Inr report \<Rightarrow>
                         (Inr \<lparr>ri_imported = True, ri_already_imported = False,
                            ri_source_node_id = source_node_id, ri_file_sequence = file_sequence,
                            ri_event_count = event_count\<rparr>,
                          store,
                          record_relay_consumed_file source_node_id file_sequence
                            (report_file_digest_hex report) (ff_event_count (report_footer report)) now (snd w))))))"

end
