(* ===== verification/AnalyticsStore.thy ===== *)
theory AnalyticsStore
  imports JournalWire
begin

text \<open>
  Where the worker puts the events it imports: the tiered repository of
  \<open>crates/llm-access-store/src/duckdb\<close>, of which this theory models what happens to rows.  A
  segment is the list of the rows of its \<open>usage_events\<close> table, whose primary key is the event
  id; the database engine is the meaning of its \<open>INSERT ... ON CONFLICT DO NOTHING\<close>.  A row
  is shown as the event it was made from.  The size of a segment on disk is the argument
  \<open>disk_bytes\<close>.
\<close>

record analytics_store =
  as_active :: "usage_event list"
  as_active_has_rows :: bool
  as_next_sequence :: nat
  as_rolled :: "usage_event list list"

definition stored_events :: "analytics_store \<Rightarrow> usage_event list" where
  "stored_events st = concat (as_rolled st) @ as_active st"

section \<open>Duplicates\<close>

fun dedupe_loop :: "string set \<Rightarrow> usage_event list \<Rightarrow> usage_event list" where
  "dedupe_loop seen [] = []"
| "dedupe_loop seen (e # events) =
     (if ue_event_id e \<in> seen then dedupe_loop seen events
      else e # dedupe_loop (insert (ue_event_id e) seen) events)"

definition dedupe_usage_events_owned :: "usage_event list \<Rightarrow> usage_event list" where
  "dedupe_usage_events_owned events = dedupe_loop {} events"

text \<open>The rows are inserted one by one; a row whose key is taken is skipped.\<close>

fun insert_usage_event_summaries :: "usage_event list \<Rightarrow> usage_event list \<Rightarrow> usage_event list" where
  "insert_usage_event_summaries [] segment = segment"
| "insert_usage_event_summaries (e # rows) segment =
     insert_usage_event_summaries rows
       (if ue_event_id e \<in> ue_event_id ` set segment then segment else segment @ [e])"

section \<open>The tiered repository\<close>

definition rollover_active_segment :: "analytics_store \<Rightarrow> analytics_store" where
  "rollover_active_segment st =
     st\<lparr>as_active := [], as_active_has_rows := False,
        as_next_sequence := sat_add_u64 (as_next_sequence st) 1,
        as_rolled := as_rolled st @ [as_active st]\<rparr>"

definition append_usage_events_to_tiered ::
  "(usage_event list \<Rightarrow> nat) \<Rightarrow> nat \<Rightarrow> usage_event list \<Rightarrow> analytics_store \<Rightarrow> analytics_store" where
  "append_usage_events_to_tiered disk_bytes rollover_bytes rows st =
     (if rows = [] then st
      else
        (let limit = max rollover_bytes 1;
             st1 = (if as_active_has_rows st \<and> limit \<le> disk_bytes (as_active st)
                    then rollover_active_segment st else st);
             st2 = st1\<lparr>as_active := insert_usage_event_summaries rows (as_active st1),
                       as_active_has_rows := True\<rparr>
         in if limit \<le> disk_bytes (as_active st2) then rollover_active_segment st2 else st2))"

definition append_usage_event_rows_owned ::
  "(usage_event list \<Rightarrow> nat) \<Rightarrow> nat \<Rightarrow> usage_event list \<Rightarrow> analytics_store \<Rightarrow> analytics_store" where
  "append_usage_event_rows_owned disk_bytes rollover_bytes rows st =
     (if rows = [] then st
      else append_usage_events_to_tiered disk_bytes rollover_bytes (dedupe_loop {} rows) st)"

definition append_usage_events_owned ::
  "(usage_event list \<Rightarrow> nat) \<Rightarrow> nat \<Rightarrow> usage_event list \<Rightarrow> analytics_store \<Rightarrow> (string + unit) \<times> analytics_store" where
  "append_usage_events_owned disk_bytes rollover_bytes events st =
     (Inr (), if events = [] then st
       else append_usage_event_rows_owned disk_bytes rollover_bytes (dedupe_usage_events_owned events) st)"

section \<open>What is stored\<close>

text \<open>Two events of one id are one event: the assumption under which skipping loses nothing.\<close>

definition ids_identify :: "usage_event set \<Rightarrow> bool" where
  "ids_identify E = inj_on ue_event_id E"

lemma set_dedupe_loop:
  "ids_identify (set events) \<Longrightarrow> set (dedupe_loop seen events) = {e \<in> set events. ue_event_id e \<notin> seen}"
proof (induction events arbitrary: seen)
  case (Cons e events)
  have ids: "ids_identify (set events)"
    using Cons.prems by (auto simp: ids_identify_def inj_on_def)
  show ?case
    using Cons.prems by (auto simp: Cons.IH[OF ids] ids_identify_def inj_on_def)
qed simp

lemma dedupe_loop_distinct:
  "distinct (map ue_event_id (dedupe_loop seen events)) \<and>
   ue_event_id ` set (dedupe_loop seen events) \<inter> seen = {}"
proof (induction events arbitrary: seen)
  case (Cons e events)
  then show ?case
    using Cons.IH[of seen] Cons.IH[of "insert (ue_event_id e) seen"] by auto
qed simp

lemma set_insert_summaries:
  "ids_identify (set rows \<union> set segment) \<Longrightarrow>
   set (insert_usage_event_summaries rows segment) = set rows \<union> set segment"
proof (induction rows arbitrary: segment)
  case (Cons e rows)
  let ?seg = "if ue_event_id e \<in> ue_event_id ` set segment then segment else segment @ [e]"
  have eq: "set ?seg = insert e (set segment)"
    using Cons.prems by (auto simp: ids_identify_def inj_on_def)
  then have "ids_identify (set rows \<union> set ?seg)"
    using Cons.prems by (simp add: Un_commute)
  from Cons.IH[OF this] show ?case
    by (simp only: insert_usage_event_summaries.simps eq) auto
qed simp

lemma insert_summaries_distinct:
  "distinct (map ue_event_id segment) \<Longrightarrow>
   distinct (map ue_event_id (insert_usage_event_summaries rows segment))"
  by (induction rows arbitrary: segment) simp_all

text \<open>No segment holds an event id twice.\<close>

definition segments_distinct :: "analytics_store \<Rightarrow> bool" where
  "segments_distinct st =
     (distinct (map ue_event_id (as_active st)) \<and>
      list_all (\<lambda>segment. distinct (map ue_event_id segment)) (as_rolled st))"

lemma rollover_keeps [simp]:
  "set (stored_events (rollover_active_segment st)) = set (stored_events st)"
  "segments_distinct st \<Longrightarrow> segments_distinct (rollover_active_segment st)"
  by (auto simp: rollover_active_segment_def stored_events_def segments_distinct_def)

lemma tiered_append_stores:
  assumes "ids_identify (set rows \<union> set (stored_events st))"
  shows "set (stored_events (append_usage_events_to_tiered disk_bytes limit rows st)) =
    set (stored_events st) \<union> set rows"
proof -
  have ins: "set (stored_events (t\<lparr>as_active := insert_usage_event_summaries rows (as_active t),
      as_active_has_rows := True\<rparr>)) = set (stored_events t) \<union> set rows"
    if "set (stored_events t) = set (stored_events st)" for t
  proof -
    have "set rows \<union> set (as_active t) \<subseteq> set rows \<union> set (stored_events st)"
      using that by (auto simp: stored_events_def)
    then have "ids_identify (set rows \<union> set (as_active t))"
      using assms by (auto simp: ids_identify_def intro: inj_on_subset)
    then show ?thesis by (auto simp: stored_events_def set_insert_summaries)
  qed
  show ?thesis
    by (simp add: append_usage_events_to_tiered_def Let_def ins)
qed

lemma tiered_append_nil [simp]: "append_usage_events_to_tiered disk_bytes limit [] st = st"
  by (simp add: append_usage_events_to_tiered_def)

lemma tiered_append_distinct:
  "segments_distinct st \<Longrightarrow> segments_distinct (append_usage_events_to_tiered disk_bytes limit rows st)"
proof -
  have ins: "segments_distinct t \<Longrightarrow> segments_distinct (t\<lparr>as_active := insert_usage_event_summaries rows (as_active t),
      as_active_has_rows := True\<rparr>)" for t
    by (simp add: segments_distinct_def insert_summaries_distinct)
  show "segments_distinct st \<Longrightarrow> ?thesis"
    by (simp add: append_usage_events_to_tiered_def Let_def ins)
qed

lemma append_stores:
  assumes "ids_identify (set events \<union> set (stored_events st))"
  shows "set (stored_events (snd (append_usage_events_owned disk_bytes limit events st))) =
      set (stored_events st) \<union> set events"
    and "segments_distinct st \<Longrightarrow> segments_distinct (snd (append_usage_events_owned disk_bytes limit events st))"
proof -
  have "ids_identify (set events)"
    using assms by (auto simp: ids_identify_def intro: inj_on_subset)
  then have d: "set (dedupe_loop {} events) = set events"
    by (simp add: set_dedupe_loop)
  then have "ids_identify (set (dedupe_loop {} events))"
    using \<open>ids_identify (set events)\<close> by simp
  then have dd: "set (dedupe_loop {} (dedupe_loop {} events)) = set events"
    using d by (simp add: set_dedupe_loop)
  show "set (stored_events (snd (append_usage_events_owned disk_bytes limit events st))) =
      set (stored_events st) \<union> set events"
    using assms tiered_append_stores[of "dedupe_loop {} (dedupe_loop {} events)" st disk_bytes limit]
    by (auto simp: append_usage_events_owned_def append_usage_event_rows_owned_def
        dedupe_usage_events_owned_def d dd simp flip: d)
  show "segments_distinct st \<Longrightarrow> segments_distinct (snd (append_usage_events_owned disk_bytes limit events st))"
    by (simp add: append_usage_events_owned_def append_usage_event_rows_owned_def tiered_append_distinct)
qed

end
