(* ===== verification/UsageWorkerTheorems.thy ===== *)
theory UsageWorkerTheorems
  imports UsageWorker AnalyticsStore
begin

text \<open>
  What the worker does to the events in the journal.  \<open>journal_ok\<close> describes the directories a
  worker meets, \<open>consumed_stored\<close> that a file marked as consumed is stored already, and the
  locale \<open>event_store\<close> what the worker relies on of the analytics store.  Every operation of
  the worker keeps the events that are stored or in a sealed or claimed file.
\<close>

section \<open>The events of a file\<close>

definition file_events :: "usage_codec \<Rightarrow> byte list \<Rightarrow> usage_event list" where
  "file_events c bytes =
     (case import_view c (usage_payload c) bytes of
        Inl _ \<Rightarrow> []
      | Inr (batches, _) \<Rightarrow> map into_usage_event (concat batches))"

definition dir_events :: "usage_codec \<Rightarrow> dir \<Rightarrow> usage_event list" where
  "dir_events c d = concat (map (\<lambda>(name, f). file_events c (jf_bytes f)) d)"

definition entries :: "journal_root \<Rightarrow> dir" where
  "entries r = root_sealed r @ root_consuming r"

definition journalled_events :: "usage_codec \<Rightarrow> journal_root \<Rightarrow> usage_event list" where
  "journalled_events c r = dir_events c (entries r)"

definition file_ok :: "usage_codec \<Rightarrow> byte list \<Rightarrow> bool" where
  "file_ok c bytes = (\<exists>batches report.
     import_view c (usage_payload c) bytes = Inr (batches, report) \<and> length batches < u64_max)"

lemma set_dir_events:
  "set (dir_events c d) = (\<Union>e \<in> set d. set (file_events c (jf_bytes (snd e))))"
  by (auto simp: dir_events_def)

section \<open>The directories\<close>

text \<open>Every file is sealed and whole, named by a sequence number below \<open>k\<close> that is not the one
  of the active file, \<open>n\<close>, and only such numbers are consumed.\<close>

definition entry_ok :: "usage_codec \<Rightarrow> nat \<Rightarrow> nat \<Rightarrow> string \<times> jfile \<Rightarrow> bool" where
  "entry_ok c k n e = (file_ok c (jf_bytes (snd e)) \<and> (\<exists>m < k. m \<noteq> n \<and> fst e = journal_name m))"

definition journal_ok :: "usage_codec \<Rightarrow> nat \<Rightarrow> nat \<Rightarrow> journal_root \<Rightarrow> bool" where
  "journal_ok c k n r =
     (k \<le> 2 ^ 62 \<and> distinct (dir_names (entries r)) \<and> (\<forall>e \<in> set (entries r). entry_ok c k n e) \<and>
      (\<forall>x \<in> fst ` set (root_consumed r). \<exists>m < k. m \<noteq> n \<and> x = int m))"

definition consumed_stored :: "usage_codec \<Rightarrow> usage_event set \<Rightarrow> journal_root \<Rightarrow> bool" where
  "consumed_stored c S r =
     (\<forall>m f. m < 2 ^ 62 \<and> is_consumed m r \<and> (journal_name m, f) \<in> set (entries r) \<longrightarrow>
        set (file_events c (jf_bytes f)) \<subseteq> S)"

definition worker_ok :: "usage_codec \<Rightarrow> nat \<Rightarrow> nat \<Rightarrow> usage_event set \<Rightarrow> journal_root \<Rightarrow> bool" where
  "worker_ok c k n S r = (journal_ok c k n r \<and> consumed_stored c S r)"

text \<open>The producer's part of the root, which no worker touches.\<close>

definition same_producer :: "journal_root \<Rightarrow> journal_root \<Rightarrow> bool" where
  "same_producer r r' =
     (root_active r' = root_active r \<and> root_bad r' = root_bad r \<and>
      root_next_sequence r' = root_next_sequence r)"

definition worker_moves ::
  "usage_codec \<Rightarrow> usage_event set \<Rightarrow> journal_root \<Rightarrow> journal_root \<Rightarrow> bool" where
  "worker_moves c S r r' =
     (same_producer r r' \<and> set (entries r') \<subseteq> set (entries r) \<and>
      S \<union> set (journalled_events c r') = S \<union> set (journalled_events c r) \<and>
      root_consumed r' = root_consumed r)"

lemma same_producer_refl [simp]: "same_producer r r"
  by (simp add: same_producer_def)

lemma worker_moves_refl [simp]: "worker_moves c S r r"
  by (simp add: worker_moves_def)

lemma worker_moves_trans: "worker_moves c S r r' \<Longrightarrow> worker_moves c S r' r'' \<Longrightarrow> worker_moves c S r r''"
  by (auto simp: worker_moves_def same_producer_def)

lemma small_sequence: "m < k \<Longrightarrow> k \<le> 2 ^ 62 \<Longrightarrow> m \<le> u64_max \<and> as_i64 m = int m"
  using as_i64_small[of m] by (simp add: u64_max_def i64_max_def)

lemma is_consumed_cong: "root_consumed r' = root_consumed r \<Longrightarrow> is_consumed m r' = is_consumed m r"
  by (simp add: is_consumed_def)

lemma update_progress_fields [simp]:
  "entries (update_progress p r) = entries r" "root_consumed (update_progress p r) = root_consumed r"
  "root_consuming (update_progress p r) = root_consuming r" "root_sealed (update_progress p r) = root_sealed r"
  "same_producer r' (update_progress p r) = same_producer r' r"
  by (simp_all add: update_progress_def entries_def same_producer_def)

lemma worker_ok_update_progress [simp]: "worker_ok c k n S (update_progress p r) = worker_ok c k n S r"
proof -
  have "is_consumed m (update_progress p r) = is_consumed m r" for m
    by (rule is_consumed_cong) simp
  then show ?thesis by (simp add: worker_ok_def journal_ok_def consumed_stored_def)
qed

lemma worker_ok_entry:
  assumes "worker_ok c k n S r" "e \<in> set (entries r)"
  obtains m where "m < k" "m \<noteq> n" "fst e = journal_name m" "parse_journal_sequence (fst e) = Some m"
    "file_ok c (jf_bytes (snd e))" "m \<le> u64_max"
proof -
  obtain m where m: "m < k" "m \<noteq> n" "fst e = journal_name m" "file_ok c (jf_bytes (snd e))" "k \<le> 2 ^ 62"
    using assms by (auto simp: worker_ok_def journal_ok_def entry_ok_def)
  then show thesis
    using that[OF m(1-3) _ m(4)] small_sequence[OF m(1,5)] by (simp add: parse_journal_sequence_agrees)
qed

lemma dir_remove_absent [simp]: "name \<notin> set (dir_names d) \<Longrightarrow> dir_remove name d = d"
  by (force simp: dir_remove_def dir_names_def intro: filter_True)

lemma set_dir_remove: "set (dir_remove name d) = {e \<in> set d. fst e \<noteq> name}"
  by (auto simp: dir_remove_def)

lemma dir_names_append [simp]: "dir_names (a @ b) = dir_names a @ dir_names b"
  by (simp add: dir_names_def)

lemma map_of_entry: "distinct (dir_names d) \<Longrightarrow> map_of d name = Some f \<longleftrightarrow> (name, f) \<in> set d"
  by (simp add: dir_names_def)

lemma in_dir_names: "name \<in> set (dir_names d) \<longleftrightarrow> (\<exists>f. (name, f) \<in> set d)"
  by (force simp: dir_names_def)

lemma distinct_dir_names_remove:
  "distinct (dir_names d) \<Longrightarrow> distinct (dir_names (dir_remove name d))"
  by simp

text \<open>Fewer files, or the same in other places, is as good.\<close>

lemma worker_ok_shrink:
  assumes "worker_ok c k n S r" "set (entries r') \<subseteq> set (entries r)" "distinct (dir_names (entries r'))"
    "root_consumed r' = root_consumed r"
  shows "worker_ok c k n S r'"
proof -
  have "journal_ok c k n r'"
    using assms by (auto simp: worker_ok_def journal_ok_def simp del: distinct_append)
  moreover have "consumed_stored c S r'"
    using assms(1,2) unfolding worker_ok_def consumed_stored_def is_consumed_cong[OF assms(4)] by blast
  ultimately show ?thesis by (simp add: worker_ok_def)
qed

section \<open>Deleting and moving\<close>

lemma delete_consumed:
  assumes ok: "worker_ok c k n S r" and m: "m < k" "is_consumed m r"
    and r': "entries r' = dir_remove (journal_name m) (entries r)" "root_consumed r' = root_consumed r"
      "same_producer r r'"
  shows "worker_ok c k n S r'" "worker_moves c S r r'"
proof -
  have sub: "set (entries r') \<subseteq> set (entries r)" by (auto simp: r' set_dir_remove)
  have d: "distinct (dir_names (entries r'))"
    unfolding r' using ok by (simp add: worker_ok_def journal_ok_def del: distinct_append)
  show "worker_ok c k n S r'" by (rule worker_ok_shrink[OF ok sub d r'(2)])
  have "set (file_events c (jf_bytes (snd e))) \<subseteq> S" if "e \<in> set (entries r)" "fst e = journal_name m" for e
  proof -
    have "m < 2 ^ 62" using ok m(1) by (simp add: worker_ok_def journal_ok_def)
    moreover have "(journal_name m, snd e) \<in> set (entries r)" using that by (metis prod.collapse)
    ultimately show ?thesis using ok m(2) unfolding worker_ok_def consumed_stored_def by blast
  qed
  then have "S \<union> set (journalled_events c r') = S \<union> set (journalled_events c r)"
    by (force simp: journalled_events_def set_dir_events r'(1) set_dir_remove)
  then show "worker_moves c S r r'"
    using sub r' by (simp add: worker_moves_def)
qed

lemma entries_remove:
  assumes "distinct (dir_names (entries r))"
  shows "name \<in> set (dir_names (root_sealed r)) \<Longrightarrow>
      entries (r\<lparr>root_sealed := dir_remove name (root_sealed r)\<rparr>) = dir_remove name (entries r)"
    and "name \<in> set (dir_names (root_consuming r)) \<Longrightarrow>
      entries (r\<lparr>root_consuming := dir_remove name (root_consuming r)\<rparr>) = dir_remove name (entries r)"
proof -
  have app: "dir_remove name (a @ b) = dir_remove name a @ dir_remove name b" for a b
    by (simp add: dir_remove_def)
  have absent: "name \<notin> set (dir_names d) \<Longrightarrow> dir_remove name (a @ d) = dir_remove name a @ d"
    "name \<notin> set (dir_names d) \<Longrightarrow> dir_remove name (d @ a) = d @ dir_remove name a" for a d
    by (simp_all add: app)
  have dis: "set (dir_names (root_sealed r)) \<inter> set (dir_names (root_consuming r)) = {}"
    using assms by (simp add: entries_def)
  show "name \<in> set (dir_names (root_sealed r)) \<Longrightarrow>
      entries (r\<lparr>root_sealed := dir_remove name (root_sealed r)\<rparr>) = dir_remove name (entries r)"
    using dis by (subst (2) entries_def, subst absent(1)) (auto simp: entries_def)
  show "name \<in> set (dir_names (root_consuming r)) \<Longrightarrow>
      entries (r\<lparr>root_consuming := dir_remove name (root_consuming r)\<rparr>) = dir_remove name (entries r)"
    using dis by (subst (2) entries_def, subst absent(2)) (auto simp: entries_def)
qed

lemma moved_entries:
  assumes "distinct (dir_names (a @ b))" "(name, f) \<in> set a"
  shows "set (dir_remove name a @ dir_put name f b) = set (a @ b)"
    and "distinct (dir_names (dir_remove name a @ dir_put name f b))"
proof -
  have nb: "name \<notin> set (dir_names b)"
  proof -
    have "name \<in> set (dir_names a)" using assms(2) by (force simp: dir_names_def)
    then show ?thesis using assms(1) by auto
  qed
  have da: "distinct (dir_names a)" using assms(1) by simp
  have only: "e = (name, f)" if "e \<in> set a" "fst e = name" for e
  proof -
    have "(name, snd e) \<in> set a" using that by (metis prod.collapse)
    then have "map_of a name = Some (snd e)" "map_of a name = Some f"
      using map_of_entry[OF da] assms(2) by blast+
    then show ?thesis using that(2) by (simp add: prod_eq_iff)
  qed
  have "set (dir_remove name a @ dir_put name f b) = {e \<in> set a. fst e \<noteq> name} \<union> insert (name, f) (set b)"
    using nb by (simp add: dir_put_def set_dir_remove)
  also have "\<dots> = set (a @ b)"
    unfolding set_append using assms(2) only by blast
  finally show "set (dir_remove name a @ dir_put name f b) = set (a @ b)" .
  show "distinct (dir_names (dir_remove name a @ dir_put name f b))"
    using assms(1) nb distinct_dir_remove[of a name] distinct_dir_put[of b name f] by auto
qed

lemma worker_ok_dirs:
  assumes "worker_ok c k n S r"
  shows "distinct (dir_names (entries r))" "distinct (dir_names (root_sealed r))"
    "distinct (dir_names (root_consuming r))" "k \<le> 2 ^ 62"
  using assms by (simp_all add: worker_ok_def journal_ok_def) (simp_all add: entries_def)

lemma moved_ok:
  assumes ok: "worker_ok c k n S r"
    and r': "set (entries r') = set (entries r)" "distinct (dir_names (entries r'))"
      "root_consumed r' = root_consumed r" "same_producer r r'"
  shows "worker_ok c k n S r'" "worker_moves c S r r'"
  using worker_ok_shrink[OF ok _ r'(2,3)] r'
  by (auto simp: worker_moves_def journalled_events_def set_dir_events)

lemma claim_moves:
  assumes ok: "worker_ok c k n S r" and f: "(name, f) \<in> set (root_sealed r)"
  obtains r' where "sealed_to_consuming name r = Inr r'" "worker_ok c k n S r'" "worker_moves c S r r'"
    "(name, f) \<in> set (root_consuming r')"
proof -
  note d = worker_ok_dirs[OF ok]
  let ?r = "r\<lparr>root_sealed := dir_remove name (root_sealed r), root_consuming := dir_put name f (root_consuming r)\<rparr>"
  have "sealed_to_consuming name r = Inr ?r"
    using f map_of_entry[OF d(2), of name f] by (simp add: sealed_to_consuming_def)
  moreover have "worker_ok c k n S ?r" "worker_moves c S r ?r"
    using moved_entries[of "root_sealed r" "root_consuming r" name f] d(1) f
    by (intro moved_ok[OF ok]; simp add: entries_def same_producer_def)+
  moreover have "(name, f) \<in> set (root_consuming ?r)" by (simp add: dir_put_def)
  ultimately show thesis using that by blast
qed

lemma restore_moves:
  assumes ok: "worker_ok c k n S r" and f: "(name, f) \<in> set (root_consuming r)"
  obtains r' where "consuming_to_sealed name r = Inr r'" "worker_ok c k n S r'" "worker_moves c S r r'"
    "root_consuming r' = dir_remove name (root_consuming r)"
proof -
  note d = worker_ok_dirs[OF ok]
  let ?r = "r\<lparr>root_consuming := dir_remove name (root_consuming r), root_sealed := dir_put name f (root_sealed r)\<rparr>"
  have swap: "distinct (dir_names (root_consuming r @ root_sealed r))"
    using d(1) by (auto simp: entries_def)
  have "consuming_to_sealed name r = Inr ?r"
    using f map_of_entry[OF d(3), of name f] by (simp add: consuming_to_sealed_def)
  moreover have "set (entries ?r) = set (entries r)" "distinct (dir_names (entries ?r))"
    using moved_entries[OF swap f] by (auto simp: entries_def)
  then have "worker_ok c k n S ?r" "worker_moves c S r ?r"
    by (intro moved_ok[OF ok]; simp add: same_producer_def)+
  ultimately show thesis using that by auto
qed

lemma worker_ok_mono: "worker_ok c k n S r \<Longrightarrow> S \<subseteq> S' \<Longrightarrow> worker_ok c k n S' r"
  unfolding worker_ok_def consumed_stored_def by blast

lemma record_consumed_ok:
  assumes ok: "worker_ok c k n S r" and m: "m < k" "m \<noteq> n"
    and st: "\<And>f. (journal_name m, f) \<in> set (entries r) \<Longrightarrow> set (file_events c (jf_bytes f)) \<subseteq> S"
  shows "worker_ok c k n S (record_consumed_file m digest count now r)"
proof -
  let ?r = "record_consumed_file m digest count now r"
  have k: "k \<le> 2 ^ 62" by (rule worker_ok_dirs(4)[OF ok])
  have m64: "as_i64 m = int m" using small_sequence[OF m(1) k] by simp
  have en: "entries ?r = entries r" by (simp add: record_consumed_file_def entries_def)
  have keys: "fst ` set (root_consumed ?r) \<subseteq> insert (int m) (fst ` set (root_consumed r))"
    by (auto simp: record_consumed_file_def table_put_def m64)
  have j: "journal_ok c k n ?r"
    using ok keys m unfolding worker_ok_def journal_ok_def en by blast
  have "is_consumed m' r \<or> m' = m" if "m' < 2 ^ 62" "is_consumed m' ?r" for m'
    using that(2) as_i64_small[of m'] that(1) m64
    by (auto simp: is_consumed_def record_consumed_file_def i64_max_def split: if_splits)
  then have "consumed_stored c S ?r"
    using ok st unfolding worker_ok_def consumed_stored_def en by blast
  with j show ?thesis by (simp add: worker_ok_def)
qed

section \<open>Taking back and claiming\<close>

lemma recover_consuming_keeps:
  assumes "worker_ok c k n S r" "distinct (dir_names es)" "set es \<subseteq> set (root_consuming r)"
  shows "\<exists>r'. recover_consuming lease now es r = (Inr (), r') \<and> worker_ok c k n S r' \<and> worker_moves c S r r'"
  using assms
proof (induction es arbitrary: r)
  case Nil
  then show ?case by simp
next
  case (Cons e es)
  obtain name f where e: "e = (name, f)" by (cases e)
  have mem: "(name, f) \<in> set (root_consuming r)" "(name, f) \<in> set (entries r)"
    using Cons.prems(3) by (auto simp: e entries_def)
  obtain m where m: "m < k" "name = journal_name m" "parse_journal_sequence name = Some m"
    using worker_ok_entry[OF Cons.prems(1) mem(2)] by auto
  have rest: "distinct (dir_names es)" and away: "\<And>x. x \<in> set es \<Longrightarrow> fst x \<noteq> name"
    using Cons.prems(2) by (auto simp: e dir_names_def)
  have later: "set es \<subseteq> set (dir_remove name (root_consuming r))"
    using Cons.prems(3) away by (auto simp: set_dir_remove)
  note d = worker_ok_dirs[OF Cons.prems(1)]
  let ?tail = "\<lambda>r1. \<exists>r'. recover_consuming lease now es r1 = (Inr (), r') \<and> worker_ok c k n S r' \<and> worker_moves c S r1 r'"
  consider (consumed) "is_consumed m r"
    | (stale) "\<not> is_consumed m r" "as_i64 lease \<le> file_age_ms now f"
    | (held) "\<not> is_consumed m r" "\<not> as_i64 lease \<le> file_age_ms now f" by blast
  then show ?case
  proof cases
    case consumed
    let ?r1 = "r\<lparr>root_consuming := dir_remove name (root_consuming r)\<rparr>"
    have "name \<in> set (dir_names (root_consuming r))" using mem by (auto simp: in_dir_names)
    then have en: "entries ?r1 = dir_remove (journal_name m) (entries r)"
      using entries_remove(2)[OF d(1)] m(2) by simp
    have st: "worker_ok c k n S ?r1" "worker_moves c S r ?r1"
      by (rule delete_consumed[OF Cons.prems(1) m(1) consumed en]; simp add: same_producer_def)+
    have "?tail ?r1" using later by (intro Cons.IH[OF st(1) rest]) simp
    then show ?thesis using st(2) consumed m by (auto simp: e intro: worker_moves_trans)
  next
    case stale
    obtain r1 where r1: "consuming_to_sealed name r = Inr r1" "worker_ok c k n S r1" "worker_moves c S r r1"
      "root_consuming r1 = dir_remove name (root_consuming r)"
      by (rule restore_moves[OF Cons.prems(1) mem(1)])
    have "?tail r1" using later r1(4) by (intro Cons.IH[OF r1(2) rest]) simp
    then show ?thesis using r1 stale m by (auto simp: e intro: worker_moves_trans)
  next
    case held
    have "?tail r" using Cons.prems(3) by (intro Cons.IH[OF Cons.prems(1) rest]) simp
    then show ?thesis using held m by (simp add: e)
  qed
qed

lemma claim_first_keeps:
  assumes "worker_ok c k n S r" "distinct (map snd cs)"
    "\<forall>x \<in> set cs. snd x = journal_name (fst x) \<and> fst x < k \<and> fst x \<noteq> n \<and> snd x \<in> set (dir_names (root_sealed r))"
  shows "\<exists>x r'. claim_first cs r = (Inr x, r') \<and> worker_ok c k n S r' \<and> worker_moves c S r r' \<and>
    (\<forall>claim. x = Some claim \<longrightarrow> cl_sequence claim < k \<and> cl_sequence claim \<noteq> n \<and>
       cl_name claim = journal_name (cl_sequence claim) \<and> cl_name claim \<in> set (dir_names (root_consuming r'))) \<and>
    (x = None \<longrightarrow> set (dir_names (root_sealed r')) = set (dir_names (root_sealed r)) - snd ` set cs)"
  using assms
proof (induction cs arbitrary: r)
  case Nil
  then show ?case by simp
next
  case (Cons x cs)
  obtain m name where x: "x = (m, name)" by (cases x)
  have m: "name = journal_name m" "m < k" "m \<noteq> n" and sealed: "name \<in> set (dir_names (root_sealed r))"
    using Cons.prems(3) by (auto simp: x)
  note d = worker_ok_dirs[OF Cons.prems(1)]
  show ?case
  proof (cases "is_consumed m r")
    case True
    let ?r1 = "r\<lparr>root_sealed := dir_remove name (root_sealed r)\<rparr>"
    have en: "entries ?r1 = dir_remove (journal_name m) (entries r)"
      using entries_remove(1)[OF d(1) sealed] m(1) by simp
    have st: "worker_ok c k n S ?r1" "worker_moves c S r ?r1"
      by (rule delete_consumed[OF Cons.prems(1) m(2) True en]; simp add: same_producer_def)+
    have "\<forall>y \<in> set cs. snd y \<noteq> name" using Cons.prems(2) by (force simp: x)
    then have later: "\<forall>y \<in> set cs. snd y = journal_name (fst y) \<and> fst y < k \<and> fst y \<noteq> n \<and> snd y \<in> set (dir_names (root_sealed ?r1))"
      using Cons.prems(3) by (auto simp: x)
    have cs: "distinct (map snd cs)" using Cons.prems(2) by simp
    obtain y r' where "claim_first cs ?r1 = (Inr y, r')" "worker_ok c k n S r'" "worker_moves c S ?r1 r'"
      "\<forall>claim. y = Some claim \<longrightarrow> cl_sequence claim < k \<and> cl_sequence claim \<noteq> n \<and>
       cl_name claim = journal_name (cl_sequence claim) \<and> cl_name claim \<in> set (dir_names (root_consuming r'))"
      "y = None \<longrightarrow> set (dir_names (root_sealed r')) = set (dir_names (root_sealed ?r1)) - snd ` set cs"
      using Cons.IH[OF st(1) cs later] by blast
    moreover have "set (dir_names (root_sealed ?r1)) - snd ` set cs = set (dir_names (root_sealed r)) - snd ` set (x # cs)"
      by (auto simp: x)
    ultimately show ?thesis using True st(2) by (auto simp: x intro: worker_moves_trans)
  next
    case False
    obtain f where "(name, f) \<in> set (root_sealed r)" using sealed by (auto simp: in_dir_names)
    from claim_moves[OF Cons.prems(1) this] obtain r' where "sealed_to_consuming name r = Inr r'"
      "worker_ok c k n S r'" "worker_moves c S r r'" "(name, f) \<in> set (root_consuming r')" by blast
    then show ?thesis using False m by (auto simp: x in_dir_names)
  qed
qed

lemma claim_candidates_names:
  assumes "worker_ok c k n S r"
  shows "distinct (map snd (claim_candidates (root_sealed r)))"
    and "\<forall>x \<in> set (claim_candidates (root_sealed r)). snd x = journal_name (fst x) \<and> fst x < k \<and> fst x \<noteq> n \<and>
      snd x \<in> set (dir_names (root_sealed r))"
    and "snd ` set (claim_candidates (root_sealed r)) = set (dir_names (root_sealed r))"
proof -
  have each: "\<exists>m. parse_journal_sequence name = Some m \<and> name = journal_name m \<and> m < k \<and> m \<noteq> n"
    if name: "name \<in> set (dir_names (root_sealed r))" for name
  proof -
    obtain f where "(name, f) \<in> set (entries r)" using name by (auto simp: in_dir_names entries_def)
    then show ?thesis using worker_ok_entry[OF assms] by force
  qed
  have "map (\<lambda>name. case parse_journal_sequence name of None \<Rightarrow> [] | Some sequence \<Rightarrow> [(sequence, name)])
      (dir_names (root_sealed r)) =
    map (\<lambda>name. [(the (parse_journal_sequence name), name)]) (dir_names (root_sealed r))"
    by (rule map_cong[OF refl]) (drule each, elim exE, simp)
  then have cand: "claim_candidates (root_sealed r) =
      sort_key fst (map (\<lambda>name. (the (parse_journal_sequence name), name)) (dir_names (root_sealed r)))"
    unfolding claim_candidates_def by (simp only: concat_map_singleton)
  show "snd ` set (claim_candidates (root_sealed r)) = set (dir_names (root_sealed r))"
    by (simp add: cand image_image)
  show "distinct (map snd (claim_candidates (root_sealed r)))"
    using worker_ok_dirs(2)[OF assms] by (simp add: cand distinct_map inj_on_def)
  show "\<forall>x \<in> set (claim_candidates (root_sealed r)). snd x = journal_name (fst x) \<and> fst x < k \<and> fst x \<noteq> n \<and>
      snd x \<in> set (dir_names (root_sealed r))"
  proof
    fix x assume "x \<in> set (claim_candidates (root_sealed r))"
    then obtain name where x: "name \<in> set (dir_names (root_sealed r))" "x = (the (parse_journal_sequence name), name)"
      by (auto simp: cand)
    obtain m where m: "parse_journal_sequence name = Some m" "name = journal_name m" "m < k" "m \<noteq> n"
      using each[OF x(1)] by blast
    have "x = (m, name)" using x(2) m(1) by simp
    then show "snd x = journal_name (fst x) \<and> fst x < k \<and> fst x \<noteq> n \<and> snd x \<in> set (dir_names (root_sealed r))"
      using m(2-4) x(1) by simp
  qed
qed

section \<open>The analytics store as the worker sees it\<close>

text \<open>Appending succeeds, keeps what is stored and adds the events, as long as an id names
  one event; \<open>tidy\<close> is an invariant of the store.\<close>

lemma perhaps_progress:
  "\<exists>z p. (if b then (x, update_progress q r) else (y, r)) = (z, if p = None then r else update_progress (the p) r)"
proof (cases b)
  case True
  then show ?thesis by (intro exI[of _ x] exI[of _ "Some q"]) simp
next
  case False
  then show ?thesis by (intro exI[of _ y] exI[of _ None]) simp
qed

lemma after_block_root:
  "\<exists>counts' p. after_block claim limit index now stream count counts r =
     (counts', if p = None then r else update_progress (the p) r)"
  unfolding after_block_def Let_def by (rule perhaps_progress)

locale event_store =
  fixes store_append :: "usage_event list \<Rightarrow> 's \<Rightarrow> (string + unit) \<times> 's"
    and stored :: "'s \<Rightarrow> usage_event set"
    and tidy :: "'s \<Rightarrow> bool"
  assumes append_succeeds: "fst (store_append events st) = Inr ()"
    and append_adds: "ids_identify (set events \<union> stored st) \<Longrightarrow>
      stored (snd (store_append events st)) = stored st \<union> set events"
    and append_tidy: "tidy st \<Longrightarrow> ids_identify (set events \<union> stored st) \<Longrightarrow> tidy (snd (store_append events st))"
begin

lemma append_result:
  assumes "ids_identify (set events \<union> stored st)" "tidy st"
  obtains st' where "store_append events st = (Inr (), st')" "stored st' = stored st \<union> set events" "tidy st'"
  using append_succeeds[of events st] append_adds[OF assms(1)] append_tidy[OF assms(2,1)]
  by (cases "store_append events st") auto

lemma import_blocks_store:
  assumes "read_batches c (usage_payload c) stream = Inr (batches, stream_end)"
    and "ids_identify (stored st \<union> set (map into_usage_event (concat batches)))" and "tidy st"
  shows "\<exists>stream' st' p.
     import_blocks c store_append claim clock limit index counts stream (st, r) =
       (Inr stream', st', if p = None then r else update_progress (the p) r) \<and> tidy st' \<and>
     stored st' = stored st \<union> set (map into_usage_event (concat (take (limit - index) batches))) \<and>
     (length batches < limit - index \<longrightarrow> stream' = stream_end)"
  using assms
proof (induction batches arbitrary: index counts stream st r)
  case Nil
  have "next_batch c (usage_payload c) stream = Inr (None, stream_end)"
    using Nil.prems(1) by (subst (asm) read_batches.simps) (auto split: sum.splits option.splits prod.splits)
  then show ?case
    using Nil.prems by (subst import_blocks.simps) (auto intro!: exI[of _ None])
next
  case (Cons batch batches)
  obtain stream1 where nx: "next_batch c (usage_payload c) stream = Inr (Some batch, stream1)"
    and rd: "read_batches c (usage_payload c) stream1 = Inr (batches, stream_end)"
    using Cons.prems(1) by (subst (asm) read_batches.simps) (auto split: sum.splits option.splits prod.splits)
  show ?case
  proof (cases "index < limit")
    case False
    then show ?thesis
      using Cons.prems(3) by (subst import_blocks.simps) (auto intro!: exI[of _ None])
  next
    case True
    let ?events = "map into_usage_event batch"
    have ids: "ids_identify (set ?events \<union> stored st)"
      using Cons.prems(2) unfolding ids_identify_def by (rule inj_on_subset) auto
    obtain st1 where ap: "store_append ?events st = (Inr (), st1)" "stored st1 = stored st \<union> set ?events" "tidy st1"
      by (rule append_result[OF ids Cons.prems(3)])
    obtain counts1 p1 where ab: "after_block claim limit index (clock index) stream1 (length ?events) counts r =
        (counts1, if p1 = None then r else update_progress (the p1) r)"
      using after_block_root by blast
    let ?r1 = "if p1 = None then r else update_progress (the p1) r"
    have ids1: "ids_identify (stored st1 \<union> set (map into_usage_event (concat batches)))"
      using Cons.prems(2) unfolding ids_identify_def ap(2) by (rule inj_on_subset) auto
    obtain stream' st' p where ih:
      "import_blocks c store_append claim clock limit (index + 1) counts1 stream1 (st1, ?r1) =
        (Inr stream', st', if p = None then ?r1 else update_progress (the p) ?r1)" "tidy st'"
      "stored st' = stored st1 \<union> set (map into_usage_event (concat (take (limit - (index + 1)) batches)))"
      "length batches < limit - (index + 1) \<longrightarrow> stream' = stream_end"
      using Cons.IH[OF rd ids1 ap(3)] by blast
    have step: "import_blocks c store_append claim clock limit index counts stream (st, r) =
        import_blocks c store_append claim clock limit (index + 1) counts1 stream1 (st1, ?r1)"
      using True nx ap(1) ab by (subst import_blocks.simps) (simp add: Let_def)
    have "update_progress a (update_progress b r) = update_progress a r" for a b
      by (simp add: update_progress_def)
    then have pr: "(if p = None then ?r1 else update_progress (the p) ?r1) =
        (if (if p = None then p1 else p) = None then r else update_progress (the (if p = None then p1 else p)) r)"
      by auto
    have tk: "take (limit - index) (batch # batches) = batch # take (limit - (index + 1)) batches"
      using True by (simp add: take_Cons')
    show ?thesis
      unfolding step ih(1) pr tk
      using ih(2-4) ap(2) by (intro exI[of _ stream'] exI[of _ st'] exI[of _ "if p = None then p1 else p"]) auto
  qed
qed

lemma import_claimed_keeps:
  assumes ok: "worker_ok c k n (stored st) r" and td: "tidy st"
    and ids: "ids_identify (stored st \<union> set (journalled_events c r))"
    and cl: "cl_sequence claim < k" "cl_sequence claim \<noteq> n" "cl_name claim = journal_name (cl_sequence claim)"
      "cl_name claim \<in> set (dir_names (root_consuming r))"
  shows "\<exists>st' r'. import_claimed_file c store_append clock now max_blocks finalize claim (st, r) = (Inr (), st', r') \<and>
    worker_ok c k n (stored st') r' \<and> tidy st' \<and> same_producer r r' \<and> stored st \<subseteq> stored st' \<and>
    stored st' \<union> set (journalled_events c r') = stored st \<union> set (journalled_events c r)"
proof -
  let ?limit = "unwrap_or max_blocks u64_max" and ?m = "cl_sequence claim"
  let ?counts = "\<lparr>ic_processed_blocks = 0, ic_processed_events = 0, ic_last_progress_update_ms = None\<rparr>"
  note d = worker_ok_dirs[OF ok]
  obtain f where f: "(cl_name claim, f) \<in> set (root_consuming r)" using cl(4) by (auto simp: in_dir_names)
  then have fe: "(cl_name claim, f) \<in> set (entries r)" by (simp add: entries_def)
  have "file_ok c (jf_bytes f)" using worker_ok_entry[OF ok fe] by auto
  then obtain batches report where view: "import_view c (usage_payload c) (jf_bytes f) = Inr (batches, report)"
    "length batches < u64_max" by (auto simp: file_ok_def)
  have magic: "payload_magic (usage_payload c) = FILE_MAGIC_V1" by (simp add: usage_payload_def)
  obtain stream stream_end where rd: "stream_batches c FILE_MAGIC_V1 (jf_bytes f) = Inr stream"
    "read_batches c (usage_payload c) stream = Inr (batches, stream_end)" "finish_stream c stream_end = Inr report"
    using view(1) by (auto simp: import_view_def magic split: sum.splits)
  have evs: "file_events c (jf_bytes f) = map into_usage_event (concat batches)"
    by (simp add: file_events_def view(1))
  have sub: "set (file_events c (jf_bytes f)) \<subseteq> set (journalled_events c r)"
    using fe by (auto simp: journalled_events_def set_dir_events)
  have ids': "ids_identify (stored st \<union> set (map into_usage_event (concat batches)))"
    using ids sub unfolding ids_identify_def evs by (rule_tac inj_on_subset) auto
  obtain stream' st' p where im:
    "import_blocks c store_append claim clock ?limit 0 ?counts stream (st, r) =
       (Inr stream', st', if p = None then r else update_progress (the p) r)" "tidy st'"
    "stored st' = stored st \<union> set (map into_usage_event (concat (take (?limit - 0) batches)))"
    "length batches < ?limit - 0 \<longrightarrow> stream' = stream_end"
    using import_blocks_store[OF rd(2) ids' td] by blast
  let ?r1 = "if p = None then r else update_progress (the p) r"
  have fr: "entries ?r1 = entries r" "same_producer r ?r1" "root_consuming ?r1 = root_consuming r" by auto
  have j1: "journalled_events c ?r1 = journalled_events c r" by (simp add: journalled_events_def)
  have part: "set (map into_usage_event (concat (take (?limit - 0) batches))) \<subseteq> set (file_events c (jf_bytes f))"
    unfolding evs by (auto dest: in_set_takeD)
  have grow: "stored st \<subseteq> stored st'" using im(3) by blast
  have keep: "stored st' \<union> set (journalled_events c r) = stored st \<union> set (journalled_events c r)"
    using im(3) part sub by blast
  have "worker_ok c k n (stored st) ?r1" using ok by simp
  then have ok1: "worker_ok c k n (stored st') ?r1" using grow by (rule worker_ok_mono)
  have mapf: "map_of (root_consuming r) (cl_name claim) = Some f"
    using f map_of_entry[OF d(3), of "cl_name claim" f] by blast
  show ?thesis
  proof (cases max_blocks)
    case (Some limit)
    have "import_claimed_file c store_append clock now max_blocks finalize claim (st, r) = (Inr (), st', ?r1)"
      using im(1) by (simp add: import_claimed_file_def mapf rd(1) Some)
    then show ?thesis using ok1 im(2) fr(2) grow keep j1 by auto
  next
    case None
    then have all: "stream' = stream_end" "stored st' = stored st \<union> set (file_events c (jf_bytes f))"
      using im(3,4) view(2) by (simp_all add: evs)
    let ?r2 = "record_consumed_file ?m (report_file_digest_hex report) (ff_event_count (report_footer report)) now ?r1"
    let ?r3 = "if finalize then ?r2\<lparr>root_consuming := dir_remove (cl_name claim) (root_consuming ?r2)\<rparr> else ?r2"
    have en2: "entries ?r2 = entries r" "root_consuming ?r2 = root_consuming r"
      using fr by (simp_all add: record_consumed_file_def entries_def)
    have sp2: "same_producer r ?r2" using fr(2) by (simp add: record_consumed_file_def same_producer_def)
    have "set (file_events c (jf_bytes g)) \<subseteq> stored st'" if "(journal_name ?m, g) \<in> set (entries ?r1)" for g
      using that fe d(1) map_of_entry[OF d(1), of "cl_name claim"] all(2) unfolding fr(1) cl(3) by (metis Un_upper2 option.inject)
    then have ok2: "worker_ok c k n (stored st') ?r2" by (rule record_consumed_ok[OF ok1 cl(1,2)])
    have cons: "is_consumed ?m ?r2" by (simp add: is_consumed_def record_consumed_file_def)
    have "worker_ok c k n (stored st') ?r3 \<and> worker_moves c (stored st') ?r2 ?r3"
    proof (cases finalize)
      case True
      have e3: "entries ?r3 = dir_remove (journal_name ?m) (entries ?r2)"
        using True entries_remove(2)[of ?r2 "cl_name claim"] d(1) cl(4) by (simp add: en2 cl(3))
      have p3: "root_consumed ?r3 = root_consumed ?r2" "same_producer ?r2 ?r3"
        using True by (simp_all add: same_producer_def)
      show ?thesis using delete_consumed[OF ok2 cl(1) cons e3 p3] by blast
    qed (use ok2 in simp)
    then have fin: "worker_ok c k n (stored st') ?r3" "same_producer ?r2 ?r3"
      "stored st' \<union> set (journalled_events c ?r3) = stored st' \<union> set (journalled_events c ?r2)"
      by (auto simp: worker_moves_def)
    have "import_claimed_file c store_append clock now max_blocks finalize claim (st, r) =
        (Inr (), st', update_progress (done_progress claim now) ?r3)"
      using im(1) by (simp add: import_claimed_file_def mapf rd(1) None all(1) rd(3) Let_def)
    moreover have "same_producer r ?r3" using sp2 fin(2) by (simp add: same_producer_def)
    moreover have "stored st' \<union> set (journalled_events c ?r3) = stored st \<union> set (journalled_events c r)"
      using fin(3) keep by (simp add: journalled_events_def en2)
    ultimately show ?thesis using fin(1) im(2) grow by (auto simp: journalled_events_def)
  qed
qed

lemma import_next_keeps:
  assumes ok: "worker_ok c k n (stored st) r" and td: "tidy st"
    and ids: "ids_identify (stored st \<union> set (journalled_events c r))"
  shows "\<exists>b st' r'. import_next c store_append lease clock now max_blocks finalize (st, r) = (Inr b, st', r') \<and>
    worker_ok c k n (stored st') r' \<and> tidy st' \<and> same_producer r r' \<and> stored st \<subseteq> stored st' \<and>
    stored st' \<union> set (journalled_events c r') = stored st \<union> set (journalled_events c r) \<and>
    (\<not> b \<longrightarrow> root_sealed r' = [])"
proof -
  obtain r1 where r1: "recover_orphan_consuming_files lease now r = (Inr (), r1)"
    "worker_ok c k n (stored st) r1" "worker_moves c (stored st) r r1"
    using recover_consuming_keeps[OF ok worker_ok_dirs(3)[OF ok] order_refl]
    by (auto simp: recover_orphan_consuming_files_def)
  obtain x r2 where r2: "claim_oldest_sealed_file r1 = (Inr x, r2)" "worker_ok c k n (stored st) r2"
    "worker_moves c (stored st) r1 r2" "\<forall>claim. x = Some claim \<longrightarrow> cl_sequence claim < k \<and> cl_sequence claim \<noteq> n \<and>
       cl_name claim = journal_name (cl_sequence claim) \<and> cl_name claim \<in> set (dir_names (root_consuming r2))"
    "x = None \<longrightarrow> root_sealed r2 = []"
    using claim_first_keeps[OF r1(2) claim_candidates_names(1,2)[OF r1(2)]] claim_candidates_names(3)[OF r1(2)]
    by (auto simp: claim_oldest_sealed_file_def dir_names_def)
  have mv: "same_producer r r2" "stored st \<union> set (journalled_events c r2) = stored st \<union> set (journalled_events c r)"
    using worker_moves_trans[OF r1(3) r2(3)] by (auto simp: worker_moves_def)
  show ?thesis
  proof (cases x)
    case None
    then show ?thesis
      using r1(1) r2(1,2,5) mv td by (auto simp: import_next_def journalled_events_def)
  next
    case (Some claim)
    have cl: "cl_sequence claim < k" "cl_sequence claim \<noteq> n" "cl_name claim = journal_name (cl_sequence claim)"
      "cl_name claim \<in> set (dir_names (root_consuming r2))"
      using r2(4) Some by auto
    have ids2: "ids_identify (stored st \<union> set (journalled_events c r2))" using ids mv(2) by simp
    obtain st' r3 where im: "import_claimed_file c store_append clock now max_blocks finalize claim (st, r2) = (Inr (), st', r3)"
      "worker_ok c k n (stored st') r3" "tidy st'" "same_producer r2 r3" "stored st \<subseteq> stored st'"
      "stored st' \<union> set (journalled_events c r3) = stored st \<union> set (journalled_events c r2)"
      using import_claimed_keeps[OF r2(2) td ids2 cl] by blast
    have "same_producer r r3" using mv(1) im(4) by (simp add: same_producer_def)
    then show ?thesis
      using r1(1) r2(1) Some im mv(2) by (auto simp: import_next_def)
  qed
qed

end

interpretation tiered_store: event_store "append_usage_events_owned disk_bytes rollover_bytes"
  "\<lambda>st. set (stored_events st)" segments_distinct
  by unfold_locales (simp_all add: append_usage_events_owned_def append_stores[unfolded append_usage_events_owned_def, simplified])

end
