(* ===== verification/UsagePipeline.thy ===== *)
theory UsagePipeline
  imports UsageWorkerTheorems JournalCrash
begin

text \<open>
  The journal as a pipeline: the producer's sink, the directories, the worker and the
  analytics store, in any interleaving of the producer's calls, its restarts after a crash
  and the worker's imports, whole or given up after any number of blocks.  The invariant says
  where every event is: in the store, in a sealed or claimed file, or in the active one.
\<close>

section \<open>The system\<close>

record 's pipeline =
  pl_sink :: usage_sink
  pl_root :: journal_root
  pl_store :: 's
  pl_appended :: "usage_event list"

definition empty_journal :: journal_root where
  "empty_journal =
     \<lparr>root_active = [], root_sealed = [], root_consuming = [], root_bad = [],
      root_next_sequence = None, root_consumed = [], root_relay_consumed = [], root_progress = None\<rparr>"

text \<open>There is room for another sealed file, so that retention deletes none, and for more
  sequence numbers.\<close>

definition has_room :: "runtime_journal_config \<Rightarrow> journal_root \<Rightarrow> bool" where
  "has_room rt r =
     (length (root_sealed r) < max_files (journal_config_from_runtime rt) \<and> next_free r < 2 ^ 61)"

inductive pipeline_reachable ::
  "usage_codec \<Rightarrow> 's append_op \<Rightarrow> runtime_journal_config \<Rightarrow> 's \<Rightarrow> 's pipeline \<Rightarrow> bool"
  for c store_append rt store where
  pipeline_start:
    "sink_open c rt now pid empty_journal = (Inr sink, r) \<Longrightarrow> i64_range now \<Longrightarrow> pid < 2 ^ 32 \<Longrightarrow>
     pipeline_reachable c store_append rt store
       \<lparr>pl_sink = sink, pl_root = r, pl_store = store, pl_appended = []\<rparr>"
| pipeline_produce:
    "pipeline_reachable c store_append rt store s \<Longrightarrow> has_room rt (pl_root s) \<Longrightarrow>
     i64_range now \<Longrightarrow> pid < 2 ^ 32 \<Longrightarrow>
     sink_append_usage_events c now pid events (pl_sink s, pl_root s) = (sink, r) \<Longrightarrow>
     pipeline_reachable c store_append rt store
       (s\<lparr>pl_sink := sink, pl_root := r, pl_appended := pl_appended s @ events\<rparr>)"
| pipeline_maintain:
    "pipeline_reachable c store_append rt store s \<Longrightarrow> has_room rt (pl_root s) \<Longrightarrow>
     i64_range now \<Longrightarrow> pid < 2 ^ 32 \<Longrightarrow>
     sink_maintain c now pid (pl_sink s, pl_root s) = (sink, r) \<Longrightarrow>
     pipeline_reachable c store_append rt store (s\<lparr>pl_sink := sink, pl_root := r\<rparr>)"
| pipeline_restart:
    "pipeline_reachable c store_append rt store s \<Longrightarrow> has_room rt (pl_root s) \<Longrightarrow>
     i64_range now \<Longrightarrow> pid < 2 ^ 32 \<Longrightarrow>
     sink_open c rt now pid (pl_root s) = (Inr sink, r) \<Longrightarrow>
     pipeline_reachable c store_append rt store (s\<lparr>pl_sink := sink, pl_root := r\<rparr>)"
| pipeline_work:
    "pipeline_reachable c store_append rt store s \<Longrightarrow>
     import_next c store_append lease clock now max_blocks finalize_file (pl_store s, pl_root s) =
       (result, store', r) \<Longrightarrow>
     pipeline_reachable c store_append rt store (s\<lparr>pl_store := store', pl_root := r\<rparr>)"

inductive_cases pipeline_reachableE: "pipeline_reachable c store_append rt store s"

text \<open>What the active file holds when it is sealed.\<close>

definition active_events :: "usage_codec \<Rightarrow> int \<Rightarrow> usage_sink \<Rightarrow> usage_event list" where
  "active_events c now sink =
     (case seal_bytes c (usage_payload c) now (dw_writer (sk_writer sink)) of
        (Inr bytes, _) \<Rightarrow> file_events c bytes
      | (Inl _, _) \<Rightarrow> [])"

section \<open>Files and names\<close>

lemma usage_payload_magic [simp]: "payload_magic (usage_payload c) = FILE_MAGIC_V1"
  and usage_payload_convert [simp]: "payload_convert (usage_payload c) = from_usage_event"
  by (simp_all add: usage_payload_def)

lemma sealed_file_events:
  assumes "sealed_file c (usage_payload c) hbs blocks ff bytes" "header_image c FILE_MAGIC_V1 h hbs"
    "list_all (block_sized (usage_payload c) limit) blocks"
    "concat (block_batches blocks) = map from_usage_event evs" "length evs < u64_max"
  shows "file_ok c bytes" "file_events c bytes = evs"
proof -
  note view = sealed_file_reads(1)[OF assms(1), unfolded usage_payload_magic, OF assms(2)]
  have "length blocks \<le> length evs"
    using block_count_le_events[OF assms(3)] arg_cong[OF assms(4), of length] by (simp del: length_concat)
  then show "file_ok c bytes" using view assms(5) by (simp add: file_ok_def)
  show "file_events c bytes = evs" by (simp add: file_events_def view assms(4))
qed

lemma dir_names_simps [simp]: "dir_names [] = []" "dir_names ((name, f) # d) = name # dir_names d"
  by (simp_all add: dir_names_def)

lemma names_differ:
  assumes "m \<le> u64_max" "m' \<le> u64_max" "m \<noteq> m'"
  shows "journal_name m \<noteq> journal_name m'" "open_name m \<noteq> open_name m'" "recovering_name m \<noteq> journal_name m'"
proof -
  show "journal_name m \<noteq> journal_name m'"
    using assms(3) parse_names(2)[OF assms(1)] parse_names(2)[OF assms(2)] by (metis option.inject)
  show "open_name m \<noteq> open_name m'"
    using assms(3) parse_names(1)[OF assms(1)] parse_names(1)[OF assms(2)] by (metis option.inject)
  show "recovering_name m \<noteq> journal_name m'"
    using assms(3) parse_names(3)[OF assms(1)] parse_names(2)[OF assms(2)] by (metis option.inject)
qed

lemma next_free_int [simp]: "root_next_sequence r = Some (int k) \<Longrightarrow> next_free r = k"
  by (simp add: next_free_def allocate_next_file_sequence_def Let_def)

lemma allocate_int:
  assumes "root_next_sequence r = Some (int k)" "k < 2 ^ 62"
  shows "allocate_next_file_sequence r = (k, r\<lparr>root_next_sequence := Some (int (k + 1))\<rparr>)"
proof -
  have a: "sat_add_u64 k 1 = k + 1"
    using assms(2) by (intro sat_add_u64_exact) (simp add: u64_max_def)
  have b: "as_i64 (k + 1) = int (k + 1)"
    using assms(2) by (intro as_i64_small) (simp add: i64_max_def)
  show ?thesis
    unfolding allocate_next_file_sequence_def assms(1) option.case Let_def from_i64_of_nat a b by (rule refl)
qed

text \<open>New numbers for the allocator and the active file, perhaps with one more sealed file.\<close>

lemma worker_ok_renumber:
  assumes "worker_ok c k n S r" "entries r' = entries r" "root_consumed r' = root_consumed r"
    "k \<le> n'" "n' < k'" "k' \<le> 2 ^ 62"
  shows "worker_ok c k' n' S r'"
proof -
  have lift: "\<exists>m < k. m \<noteq> n \<and> P m \<Longrightarrow> \<exists>m < k'. m \<noteq> n' \<and> P m" for P :: "nat \<Rightarrow> bool"
    using assms(4,5) by (metis less_le_trans less_trans nat_neq_iff)
  have entry: "entry_ok c k n e \<Longrightarrow> entry_ok c k' n' e" for e
    unfolding entry_ok_def using lift[of "\<lambda>m. fst e = journal_name m"] by blast
  have row: "\<exists>m < k. m \<noteq> n \<and> x = int m \<Longrightarrow> \<exists>m < k'. m \<noteq> n' \<and> x = int m" for x
    by (rule lift)
  have j: "distinct (dir_names (entries r))" "\<forall>e \<in> set (entries r). entry_ok c k n e"
    "\<forall>x \<in> fst ` set (root_consumed r). \<exists>m < k. m \<noteq> n \<and> x = int m"
    using assms(1) unfolding worker_ok_def journal_ok_def by blast+
  have "journal_ok c k' n' r'"
    unfolding journal_ok_def assms(2,3)
    by (intro conjI assms(6) j(1) ballI entry row) (use j(2,3) in blast)+
  moreover have "consumed_stored c S r'"
    using assms(1) unfolding worker_ok_def consumed_stored_def assms(2) is_consumed_cong[OF assms(3)] by blast
  ultimately show ?thesis by (simp add: worker_ok_def)
qed

lemma worker_ok_add:
  assumes ok: "worker_ok c k n S r" and m: "m = n \<or> k \<le> m" "m < k'" "n < k"
    and n': "k \<le> n'" "n' < k'" "k' \<le> 2 ^ 62" "n' \<noteq> m"
    and r': "root_sealed r' = dir_put (journal_name m) f (root_sealed r)" "root_consuming r' = root_consuming r"
      "root_consumed r' = root_consumed r"
    and f: "file_ok c (jf_bytes f)"
  shows "worker_ok c k' n' S r'"
    and "set (journalled_events c r') = set (journalled_events c r) \<union> set (file_events c (jf_bytes f))"
proof -
  have ok': "worker_ok c k' n' S r" by (rule worker_ok_renumber[OF ok refl refl n'(1-3)])
  have fresh: "journal_name m \<noteq> fst e" if "e \<in> set (entries r)" for e
  proof -
    from worker_ok_entry[OF ok that] obtain m' where "m' < k" "m' \<noteq> n" "fst e = journal_name m'" "m' \<le> u64_max"
      by blast
    moreover have "m \<le> u64_max" using m(2) n'(3) by (simp add: u64_max_def)
    ultimately show ?thesis using m names_differ(1)[of m m'] by auto
  qed
  then have out: "journal_name m \<notin> set (dir_names (entries r))" by (force simp: dir_names_def)
  then have sealed: "root_sealed r' = root_sealed r @ [(journal_name m, f)]"
    by (simp add: r'(1) dir_put_def entries_def)
  have en: "set (entries r') = insert (journal_name m, f) (set (entries r))"
    by (simp add: entries_def sealed r'(2))
  have ds: "distinct (dir_names (entries r'))"
    using worker_ok_dirs(1)[OF ok] out by (auto simp: entries_def sealed r'(2))
  have mm: "m < 2 ^ 62" using m(2) n'(3) by linarith
  have not_consumed: "\<not> is_consumed m r'"
  proof
    assume "is_consumed m r'"
    then have "as_i64 m \<in> fst ` set (root_consumed r)"
      unfolding is_consumed_def r'(3) by (metis map_of_eq_None_iff)
    moreover have "as_i64 m = int m" using as_i64_small[of m] mm by (simp add: i64_max_def)
    ultimately obtain m' where "m' < k" "m' \<noteq> n" "int m = int m'"
      using ok unfolding worker_ok_def journal_ok_def by force
    then show False using m(1) by auto
  qed
  have "journal_ok c k' n' r'"
    using ok' f m(2) n' ds unfolding worker_ok_def journal_ok_def en r'(3) entry_ok_def by auto
  moreover have "consumed_stored c S r'"
  proof -
    have "set (file_events c (jf_bytes g)) \<subseteq> S"
      if "m' < 2 ^ 62" "is_consumed m' r'" "(journal_name m', g) \<in> set (entries r')" for m' g
    proof -
      have "m' \<noteq> m" using not_consumed that(2) by auto
      then have "journal_name m' \<noteq> journal_name m"
        using that(1) mm by (intro names_differ(1)) (simp_all add: u64_max_def)
      then have "(journal_name m', g) \<in> set (entries r)" using that(3) en by auto
      then show ?thesis
        using ok that(1,2) unfolding worker_ok_def consumed_stored_def is_consumed_cong[OF r'(3)] by blast
    qed
    then show ?thesis unfolding consumed_stored_def by blast
  qed
  ultimately show "worker_ok c k' n' S r'" by (simp add: worker_ok_def)
  show "set (journalled_events c r') = set (journalled_events c r) \<union> set (file_events c (jf_bytes f))"
    unfolding journalled_events_def set_dir_events en by auto
qed

section \<open>The writer\<close>

definition codec_ok :: "usage_codec \<Rightarrow> journal_config \<Rightarrow> usage_event set \<Rightarrow> bool" where
  "codec_ok c config E =
     (container_contract c \<and> payload_contract c (usage_payload c) config (from_usage_event ` E) \<and>
      block_max_events config < 2 ^ 32)"

text \<open>The writer of file \<open>n\<close> has written these events and holds none back.\<close>

definition writer_at ::
  "usage_codec \<Rightarrow> journal_config \<Rightarrow> nat \<Rightarrow> usage_event list \<Rightarrow> journal_usage_event journal_writer \<Rightarrow> bool" where
  "writer_at c config n evs w =
     (\<exists>h hbs. header_image c FILE_MAGIC_V1 h hbs \<and> file_header_fits h \<and>
        writer_inv c (usage_payload c) hbs (map from_usage_event evs) w \<and> jw_pending_events w = [] \<and>
        jw_config w = config \<and> jw_file_sequence w = n \<and> i64_range (jw_created_at_ms w))"

lemma writer_atE:
  assumes "writer_at c config n evs w"
  obtains h hbs where "header_image c FILE_MAGIC_V1 h hbs" "file_header_fits h"
    "writer_inv c (usage_payload c) hbs (map from_usage_event evs) w" "jw_pending_events w = []"
    "jw_config w = config" "jw_file_sequence w = n" "i64_range (jw_created_at_ms w)"
  using assms by (auto simp: writer_at_def)

lemma writer_open_at:
  assumes cd: "codec_ok c config E" and al: "allocate_next_file_sequence r = (k, r1)"
    and k: "k \<le> u64_max" and now: "i64_range now" "pid < 2 ^ 32"
  obtains w where "writer_open c (usage_payload c) config now pid r = (Inr w, sync_active w now r1)"
    "writer_at c config k [] w"
proof -
  have cc: "container_contract c" using cd by (simp add: codec_ok_def)
  have m8: "length (payload_magic (usage_payload c)) = 8" by (simp add: FILE_MAGIC_V1_def)
  obtain w hbs where w: "writer_create c (usage_payload c) config k now pid = Inr w"
    "header_image c FILE_MAGIC_V1 (new_file_header (usage_payload c) k now pid) hbs"
    "writer_inv c (usage_payload c) hbs [] w" "jw_config w = config" "jw_file_sequence w = k"
    "jw_created_at_ms w = now" "file_header_fits (new_file_header (usage_payload c) k now pid)"
    by (rule writer_create_inv[OF cc m8 k now, of config]) auto
  have "jw_pending_events w = []" using w(3) by (auto simp: writer_inv_def)
  then have "writer_at c config k [] w" using w now(1) unfolding writer_at_def by auto
  then show thesis using that w(1) by (simp add: writer_open_def al)
qed

lemma codec_okD:
  assumes "codec_ok c config E"
  shows "container_contract c" "payload_contract c (usage_payload c) config (from_usage_event ` E)"
    "block_limit config < 2 ^ 32"
  using assms by (simp_all add: codec_ok_def block_limit_def)

lemma append_at:
  assumes cd: "codec_ok c config E" and at: "writer_at c config n evs w"
    and ev: "set (evs @ events) \<subseteq> E" "length (evs @ events) \<le> u64_max"
  obtains w1 w2 where "append_events c (usage_payload c) events w = (Inr (), w1)"
    "flush c (usage_payload c) w1 = (Inr (), w2)" "writer_at c config n (evs @ events) w2"
proof -
  let ?p = "usage_payload c" and ?items = "from_usage_event ` E"
  obtain h hbs where w: "header_image c FILE_MAGIC_V1 h hbs" "file_header_fits h"
    "writer_inv c ?p hbs (map from_usage_event evs) w" "jw_config w = config" "jw_file_sequence w = n"
    "i64_range (jw_created_at_ms w)"
    by (rule writer_atE[OF at]) auto
  note cd' = codec_okD[OF cd]
  have its: "set (map from_usage_event evs @ map (payload_convert ?p) events) \<subseteq> ?items" using ev(1) by auto
  have len: "length (map from_usage_event evs) + length events \<le> u64_max" using ev(2) by simp
  obtain w1 where w1: "append_events c ?p events w = (Inr (), w1)" "same_file w w1"
    "writer_inv c ?p hbs (map from_usage_event evs @ map from_usage_event events) w1"
    using append_keeps_inv[of c ?p w ?items, unfolded w(4), OF cd' w(3) its len] by auto
  have c1: "jw_config w1 = config" using w1(2) w(4) by (simp add: same_file_def)
  have its1: "set (map from_usage_event evs @ map from_usage_event events) \<subseteq> ?items"
    and len1: "length (map from_usage_event evs @ map from_usage_event events) \<le> u64_max"
    using its len by simp_all
  obtain w2 where w2: "flush_pending_block c ?p w1 = (Inr (), w2)"
    "writer_inv c ?p hbs (map from_usage_event evs @ map from_usage_event events) w2"
    "jw_pending_events w2 = []" "same_file w1 w2"
    by (rule flush_writes_block[of c ?p w1 ?items, unfolded c1, OF cd' w1(3) its1 len1])
  have "writer_at c config n (evs @ events) w2"
    using w w1(2) w2 by (auto simp: writer_at_def same_file_def)
  then show thesis using that w1(1) w2(1) by (simp add: flush_def)
qed

lemma seal_at:
  assumes cd: "codec_ok c config E" and at: "writer_at c config n evs w"
    and ev: "set evs \<subseteq> E" "length evs < u64_max" and n: "n \<le> u64_max" "i64_range now"
  obtains bytes w' where "seal_bytes c (usage_payload c) now w = (Inr bytes, w')" "jw_file_sequence w' = n"
    "file_ok c bytes" "file_events c bytes = evs"
proof -
  let ?p = "usage_payload c" and ?items = "from_usage_event ` E"
  obtain h hbs where w: "header_image c FILE_MAGIC_V1 h hbs" "file_header_fits h"
    "writer_inv c ?p hbs (map from_usage_event evs) w" "jw_config w = config" "jw_file_sequence w = n"
    "i64_range (jw_created_at_ms w)"
    by (rule writer_atE[OF at]) auto
  have its: "set (map from_usage_event evs) \<subseteq> ?items" and len: "length (map from_usage_event evs) \<le> u64_max"
    using ev by auto
  have nn: "jw_file_sequence w \<le> u64_max" using n w(5) by simp
  obtain w' blocks bytes where s: "seal_bytes c ?p now w = (Inr bytes, w')" "same_file w w'"
    "sealed_file c ?p hbs blocks (footer_of w' now) bytes"
    "concat (block_batches blocks) = map from_usage_event evs"
    "list_all (block_sized ?p (block_limit config)) blocks"
    by (rule seal_writes_sealed_file[of c ?p w ?items, unfolded w(4), OF codec_okD[OF cd] w(3) its len nn w(6) n(2)])
      blast
  have "jw_file_sequence w' = n" using s(2) w(5) by (simp add: same_file_def)
  then show thesis using that[OF s(1)] sealed_file_events[OF s(3) w(1) s(5,4) ev(2)] by blast
qed

section \<open>The producer\<close>

definition producer_ok ::
  "usage_codec \<Rightarrow> journal_config \<Rightarrow> nat \<Rightarrow> nat \<Rightarrow> usage_event list \<Rightarrow> usage_sink \<Rightarrow> journal_root \<Rightarrow> bool" where
  "producer_ok c config k n evs sink r =
     (\<exists>w t. sink = \<lparr>sk_writer = \<lparr>dw_enabled = True, dw_config = config, dw_writer = w\<rparr>, sk_write_failures_total = 0\<rparr> \<and>
        writer_at c config n evs w \<and> n < k \<and> root_next_sequence r = Some (int k) \<and>
        root_active r = [(open_name n, \<lparr>jf_bytes = jw_file w, jf_modified_ms = t\<rparr>)])"

lemma producer_okE:
  assumes "producer_ok c config k n evs sink r"
  obtains w t where "sink = \<lparr>sk_writer = \<lparr>dw_enabled = True, dw_config = config, dw_writer = w\<rparr>, sk_write_failures_total = 0\<rparr>"
    "writer_at c config n evs w" "n < k" "root_next_sequence r = Some (int k)"
    "root_active r = [(open_name n, \<lparr>jf_bytes = jw_file w, jf_modified_ms = t\<rparr>)]"
  using assms by (auto simp: producer_ok_def)

lemma producer_ok_worker: "same_producer r r' \<Longrightarrow> producer_ok c config k n evs sink r \<Longrightarrow> producer_ok c config k n evs sink r'"
  by (simp add: producer_ok_def same_producer_def)

lemma retention_has_room: "length (root_sealed r) \<le> max_files config \<Longrightarrow> snd (enforce_retention config r) = r"
proof -
  have "length fl \<le> limit \<Longrightarrow> snd (retention_loop limit fl report r) = r" for fl limit report
    by (cases "(limit, fl, report, r)" rule: retention_loop.cases) simp_all
  then show "length (root_sealed r) \<le> max_files config \<Longrightarrow> ?thesis"
    by (simp add: enforce_retention_def sealed_by_sequence_def dir_names_def)
qed

lemma seal_writer_keeps:
  assumes cd: "codec_ok c config E" and pr: "producer_ok c config k n evs sink r" and ok: "worker_ok c k n S r"
    and ev: "set evs \<subseteq> E" "length evs < u64_max"
    and room: "length (root_sealed r) < max_files config" "k < 2 ^ 61" and now: "i64_range now" "pid < 2 ^ 32"
  obtains d' r' where "seal_current_writer c now pid (sk_writer sink) r = (Inr (), d', r')"
    "producer_ok c config (k + 1) k [] \<lparr>sk_writer = d', sk_write_failures_total = 0\<rparr> r'"
    "worker_ok c (k + 1) k S r'"
    "set (journalled_events c r') = set (journalled_events c r) \<union> set evs"
proof -
  obtain w t where p: "sink = \<lparr>sk_writer = \<lparr>dw_enabled = True, dw_config = config, dw_writer = w\<rparr>, sk_write_failures_total = 0\<rparr>"
    "writer_at c config n evs w" "n < k" "root_next_sequence r = Some (int k)"
    "root_active r = [(open_name n, \<lparr>jf_bytes = jw_file w, jf_modified_ms = t\<rparr>)]"
    by (rule producer_okE[OF pr])
  have k: "k < 2 ^ 62" "k \<le> u64_max" "n \<le> u64_max" using room(2) p(3) by (simp_all add: u64_max_def)
  let ?r1 = "r\<lparr>root_next_sequence := Some (int (k + 1))\<rparr>"
  obtain w1 where w1: "writer_open c (usage_payload c) config now pid r = (Inr w1, sync_active w1 now ?r1)"
    "writer_at c config k [] w1"
    by (rule writer_open_at[OF cd allocate_int[OF p(4) k(1)] k(2) now])
  obtain bytes w' where s: "seal_bytes c (usage_payload c) now w = (Inr bytes, w')" "jw_file_sequence w' = n"
    "file_ok c bytes" "file_events c bytes = evs"
    by (rule seal_at[OF cd p(2) ev k(3) now(1)])
  have seq: "jw_file_sequence w1 = k" using w1(2) by (auto elim: writer_atE)
  let ?f = "\<lparr>jf_bytes = bytes, jf_modified_ms = now\<rparr>" and ?g = "\<lparr>jf_bytes = jw_file w1, jf_modified_ms = now\<rparr>"
  let ?r2 = "(sync_active w1 now ?r1)
      \<lparr>root_active := dir_remove (open_name n) (root_active (sync_active w1 now ?r1)),
       root_sealed := dir_put (journal_name n) ?f (root_sealed (sync_active w1 now ?r1))\<rparr>"
  have seal: "seal_current_file c (usage_payload c) now w (sync_active w1 now ?r1) = (Inr (journal_name n), ?r2)"
    by (simp add: seal_current_file_def s(1,2))
  have fields: "root_sealed ?r2 = dir_put (journal_name n) ?f (root_sealed r)" "root_consuming ?r2 = root_consuming r"
    "root_consumed ?r2 = root_consumed r" "root_next_sequence ?r2 = Some (int (k + 1))"
    by (simp_all add: sync_active_def)
  have "open_name k \<noteq> open_name n" using names_differ(2)[OF k(2,3)] p(3) by simp
  then have active: "root_active ?r2 = [(open_name k, ?g)]"
    by (simp add: sync_active_def p(5) seq dir_put_def dir_remove_def)
  have bounds: "n < k + 1" "k < k + 1" "k + 1 \<le> 2 ^ 62" "k \<noteq> n" using room(2) p(3) by simp_all
  have f: "file_ok c (jf_bytes ?f)" using s(3) by simp
  have keep: "worker_ok c (k + 1) k S ?r2"
    "set (journalled_events c ?r2) = set (journalled_events c r) \<union> set evs"
    using worker_ok_add[OF ok disjI1[OF refl] bounds(1) p(3) order_refl bounds(2-4) fields(1-3) f] s(4) by simp_all
  have "length (dir_put name g d) \<le> length d + 1" for name and g :: jfile and d
    by (simp add: dir_put_def dir_remove_def)
  from this[of "journal_name n" ?f "root_sealed r"]
  have "length (root_sealed ?r2) \<le> max_files config" unfolding fields(1) using room(1) by simp
  then have ret: "snd (enforce_retention config ?r2) = ?r2" by (rule retention_has_room)
  let ?d = "\<lparr>dw_enabled = True, dw_config = config, dw_writer = w1\<rparr>"
  have "seal_current_writer c now pid (sk_writer sink) r = (Inr (), ?d, ?r2)"
    unfolding seal_current_writer_def p(1) using w1(1) seal ret by simp
  moreover have "producer_ok c config (k + 1) k [] \<lparr>sk_writer = ?d, sk_write_failures_total = 0\<rparr> ?r2"
    unfolding producer_ok_def
    by (rule exI[of _ w1], rule exI[of _ now]) (intro conjI refl w1(2) fields(4) active, simp)
  ultimately show thesis using that keep by blast
qed

section \<open>The producer's calls\<close>

text \<open>The producer and the directories with these events in the active file.\<close>

definition sink_holds ::
  "usage_codec \<Rightarrow> journal_config \<Rightarrow> usage_event set \<Rightarrow> usage_event list \<Rightarrow> usage_sink \<Rightarrow> journal_root \<Rightarrow> bool" where
  "sink_holds c config S evs sink r =
     (\<exists>k n. producer_ok c config k n evs sink r \<and> worker_ok c k n S r)"

lemma sync_active_keeps:
  assumes "producer_ok c config k n evs sink r" "worker_ok c k n S r" "writer_at c config n evs' w"
  shows "producer_ok c config k n evs'
      \<lparr>sk_writer = \<lparr>dw_enabled = True, dw_config = config, dw_writer = w\<rparr>, sk_write_failures_total = 0\<rparr> (sync_active w now r)"
    and "worker_ok c k n S (sync_active w now r)"
    and "journalled_events c (sync_active w now r) = journalled_events c r"
    and "root_sealed (sync_active w now r) = root_sealed r"
proof -
  obtain w0 t where p: "n < k" "root_next_sequence r = Some (int k)"
    "root_active r = [(open_name n, \<lparr>jf_bytes = jw_file w0, jf_modified_ms = t\<rparr>)]" "writer_at c config n evs w0"
    by (rule producer_okE[OF assms(1)]) blast
  have seq: "jw_file_sequence w = n" using assms(3) by (auto elim: writer_atE)
  have active: "root_active (sync_active w now r) = [(open_name n, \<lparr>jf_bytes = jw_file w, jf_modified_ms = now\<rparr>)]"
    by (simp add: sync_active_def seq p(3) dir_put_def dir_remove_def)
  have next_seq: "root_next_sequence (sync_active w now r) = Some (int k)" by (simp add: sync_active_def p(2))
  show "producer_ok c config k n evs'
      \<lparr>sk_writer = \<lparr>dw_enabled = True, dw_config = config, dw_writer = w\<rparr>, sk_write_failures_total = 0\<rparr> (sync_active w now r)"
    unfolding producer_ok_def
    by (rule exI[of _ w], rule exI[of _ now]) (intro conjI refl assms(3) p(1) next_seq active)
  have en: "entries (sync_active w now r) = entries r" "root_consumed (sync_active w now r) = root_consumed r"
    by (simp_all add: sync_active_def entries_def)
  have d: "distinct (dir_names (entries (sync_active w now r)))"
    unfolding en by (rule worker_ok_dirs(1)[OF assms(2)])
  show "worker_ok c k n S (sync_active w now r)"
    by (rule worker_ok_shrink[OF assms(2) _ d en(2)]) (simp add: en)
  show "journalled_events c (sync_active w now r) = journalled_events c r"
    by (simp add: journalled_events_def en)
  show "root_sealed (sync_active w now r) = root_sealed r" by (simp add: sync_active_def)
qed

text \<open>Rotation, where the code decides on it.\<close>

lemma rotate_keeps:
  assumes cd: "codec_ok c config E" and pr: "producer_ok c config k n evs sink r" and ok: "worker_ok c k n S r"
    and ev: "set evs \<subseteq> E" "length evs < u64_max"
    and room: "length (root_sealed r) < max_files config" "k < 2 ^ 61" and now: "i64_range now" "pid < 2 ^ 32"
  shows "\<exists>d' r' evs'. (if b then seal_current_writer c now pid (sk_writer sink) r else (Inr (), sk_writer sink, r)) =
      (Inr (), d', r') \<and>
    sink_holds c config S evs' \<lparr>sk_writer = d', sk_write_failures_total = 0\<rparr> r' \<and>
    set (journalled_events c r') \<union> set evs' = set (journalled_events c r) \<union> set evs \<and>
    length evs' \<le> length evs"
proof (cases b)
  case True
  obtain d' r' where s: "seal_current_writer c now pid (sk_writer sink) r = (Inr (), d', r')"
    "producer_ok c config (k + 1) k [] \<lparr>sk_writer = d', sk_write_failures_total = 0\<rparr> r'"
    "worker_ok c (k + 1) k S r'" "set (journalled_events c r') = set (journalled_events c r) \<union> set evs"
    by (rule seal_writer_keeps[OF assms])
  have "sink_holds c config S [] \<lparr>sk_writer = d', sk_write_failures_total = 0\<rparr> r'"
    unfolding sink_holds_def using s(2,3) by blast
  then show ?thesis using True s(1,4) by (intro exI[of _ d'] exI[of _ r'] exI[of _ "[]"]) simp
next
  case False
  have sk: "\<lparr>sk_writer = sk_writer sink, sk_write_failures_total = 0\<rparr> = sink"
    by (rule producer_okE[OF pr]) simp
  have "sink_holds c config S evs \<lparr>sk_writer = sk_writer sink, sk_write_failures_total = 0\<rparr> r"
    unfolding sink_holds_def sk using pr ok by blast
  then show ?thesis using False by (intro exI[of _ "sk_writer sink"] exI[of _ r] exI[of _ evs]) simp
qed

lemma sink_append_keeps:
  assumes cd: "codec_ok c config E" and hold: "sink_holds c config S evs sink r"
    and ev: "set (evs @ events) \<subseteq> E" "length (evs @ events) < u64_max"
    and room: "length (root_sealed r) < max_files config" "next_free r < 2 ^ 61" and now: "i64_range now" "pid < 2 ^ 32"
  shows "\<exists>sink' r' evs'. sink_append_usage_events c now pid events (sink, r) = (sink', r') \<and>
    sink_holds c config S evs' sink' r' \<and>
    set (journalled_events c r') \<union> set evs' = set (journalled_events c r) \<union> set evs \<union> set events \<and>
    length evs' \<le> length evs + length events"
proof (cases "events = []")
  case True
  then show ?thesis
    using hold by (intro exI[of _ sink] exI[of _ r] exI[of _ evs]) (simp add: sink_append_usage_events_def)
next
  case False
  obtain k n where pr: "producer_ok c config k n evs sink r" and ok: "worker_ok c k n S r"
    using hold by (auto simp: sink_holds_def)
  obtain w t where p: "sink = \<lparr>sk_writer = \<lparr>dw_enabled = True, dw_config = config, dw_writer = w\<rparr>, sk_write_failures_total = 0\<rparr>"
    "writer_at c config n evs w" "root_next_sequence r = Some (int k)"
    by (rule producer_okE[OF pr])
  have k: "k < 2 ^ 61" using room(2) p(3) by simp
  obtain w1 w2 where w: "append_events c (usage_payload c) events w = (Inr (), w1)"
    "flush c (usage_payload c) w1 = (Inr (), w2)" "writer_at c config n (evs @ events) w2"
    by (rule append_at[OF cd p(2) ev(1)]) (use ev(2) in simp)
  let ?d = "\<lparr>dw_enabled = True, dw_config = config, dw_writer = w2\<rparr>" and ?r = "sync_active w2 now r"
  let ?sink = "\<lparr>sk_writer = ?d, sk_write_failures_total = 0\<rparr>"
  note sy = sync_active_keeps[OF pr ok w(3), of now]
  have room': "length (root_sealed ?r) < max_files config" unfolding sy(4) by (rule room(1))
  obtain d' r' evs' where rot: "(if should_seal now ?d then seal_current_writer c now pid (sk_writer ?sink) ?r
      else (Inr (), sk_writer ?sink, ?r)) = (Inr (), d', r')"
    "sink_holds c config S evs' \<lparr>sk_writer = d', sk_write_failures_total = 0\<rparr> r'"
    "set (journalled_events c r') \<union> set evs' = set (journalled_events c ?r) \<union> set (evs @ events)"
    "length evs' \<le> length (evs @ events)"
    using rotate_keeps[OF cd sy(1,2) ev room' k now, of "should_seal now ?d"] by blast
  have "disk_append_usage_events c now pid events (sk_writer sink) r = (Inr (), d', r')"
    using rot(1) w(1,2) by (simp add: disk_append_usage_events_def p(1) Let_def split: if_splits)
  then have "sink_append_usage_events c now pid events (sink, r) =
      (\<lparr>sk_writer = d', sk_write_failures_total = 0\<rparr>, r')"
    using False by (simp add: sink_append_usage_events_def count_failure_def p(1))
  then show ?thesis
    using rot(2-4) sy(3) by (intro exI[of _ "\<lparr>sk_writer = d', sk_write_failures_total = 0\<rparr>"] exI[of _ r'] exI[of _ evs']) auto
qed

lemma sink_maintain_keeps:
  assumes cd: "codec_ok c config E" and hold: "sink_holds c config S evs sink r"
    and ev: "set evs \<subseteq> E" "length evs < u64_max"
    and room: "length (root_sealed r) < max_files config" "next_free r < 2 ^ 61" and now: "i64_range now" "pid < 2 ^ 32"
  shows "\<exists>sink' r' evs'. sink_maintain c now pid (sink, r) = (sink', r') \<and>
    sink_holds c config S evs' sink' r' \<and>
    set (journalled_events c r') \<union> set evs' = set (journalled_events c r) \<union> set evs \<and> length evs' \<le> length evs"
proof -
  obtain k n where pr: "producer_ok c config k n evs sink r" and ok: "worker_ok c k n S r"
    using hold by (auto simp: sink_holds_def)
  obtain w t where p: "sink = \<lparr>sk_writer = \<lparr>dw_enabled = True, dw_config = config, dw_writer = w\<rparr>, sk_write_failures_total = 0\<rparr>"
    "root_next_sequence r = Some (int k)"
    by (rule producer_okE[OF pr])
  have k: "k < 2 ^ 61" using room(2) p(2) by simp
  obtain d' r' evs' where rot: "(if should_seal now (sk_writer sink) then seal_current_writer c now pid (sk_writer sink) r
      else (Inr (), sk_writer sink, r)) = (Inr (), d', r')"
    "sink_holds c config S evs' \<lparr>sk_writer = d', sk_write_failures_total = 0\<rparr> r'"
    "set (journalled_events c r') \<union> set evs' = set (journalled_events c r) \<union> set evs" "length evs' \<le> length evs"
    using rotate_keeps[OF cd pr ok ev room(1) k now, of "should_seal now (sk_writer sink)"] by blast
  have "disk_maintain c now pid (sk_writer sink) r = (Inr (), d', r')"
    using rot(1) by (simp add: disk_maintain_def p(1) split: if_splits)
  then have "sink_maintain c now pid (sink, r) = (\<lparr>sk_writer = d', sk_write_failures_total = 0\<rparr>, r')"
    by (simp add: sink_maintain_def count_failure_def p(1))
  then show ?thesis using rot(2-4) by blast
qed

section \<open>A restart\<close>

text \<open>A writer stopped between two calls leaves whole blocks, which recovery publishes.\<close>

lemma recover_left_behind:
  assumes cd: "codec_ok c config E" and pr: "producer_ok c config k n evs sink r" and ok: "worker_ok c k n S r"
    and ev: "set evs \<subseteq> E" "length evs < u64_max" and k: "k < 2 ^ 61" and now: "i64_range now"
  obtains r1 k1 report where "recover_orphan_active_files c config now r = (Inr report, r1)"
    "root_active r1 = []" "root_next_sequence r1 = Some (int k1)" "k1 \<le> k + 1"
    "\<forall>r'. entries r' = entries r1 \<and> root_consumed r' = root_consumed r1 \<longrightarrow> worker_ok c (k1 + 1) k1 S r'"
    "set (journalled_events c r1) = set (journalled_events c r) \<union> set evs"
proof -
  let ?p = "usage_payload c"
  obtain w t where p: "writer_at c config n evs w" "n < k" "root_next_sequence r = Some (int k)"
    "root_active r = [(open_name n, \<lparr>jf_bytes = jw_file w, jf_modified_ms = t\<rparr>)]"
    by (rule producer_okE[OF pr]) blast
  obtain h hbs where w: "header_image c FILE_MAGIC_V1 h hbs" "file_header_fits h"
    "writer_inv c ?p hbs (map from_usage_event evs) w" "jw_pending_events w = []" "jw_config w = config"
    by (rule writer_atE[OF p(1)]) blast
  obtain blocks where bl: "writer_blocks c ?p hbs w blocks"
    "concat (block_batches blocks) = map from_usage_event evs"
    using w(3,4) by (auto simp: writer_inv_def)
  have b: "jw_file w = hbs @ blocks_bytes blocks" "list_all (block_intact c ?p) blocks"
    "list_all (block_sized ?p (block_limit config)) blocks"
    using bl(1) by (simp_all add: writer_blocks_def w(5))
  have tot: "length (concat (block_batches blocks)) \<le> u64_max" using ev(2) by (simp add: bl(2) del: length_concat)
  have times: "\<forall>e \<in> set (concat (block_batches blocks)). i64_range (payload_created_at ?p e)"
    using codec_okD(2)[OF cd] ev(1) unfolding bl(2) payload_contract_def by auto
  have nf: "next_free r = k" "next_free r \<le> u64_max" using p(3) k by (simp_all add: u64_max_def)
  let ?len = "length (hbs @ blocks_bytes blocks)" and ?src = "open_name n"
  have cut: "cut_of (length hbs) (block_lengths blocks) ?len = AtBlock (length blocks)"
    using whole_blocks_all[of "block_lengths blocks"] by (simp add: cut_of_def length_blocks_bytes Let_def)
  note whole = try_recover_cut[OF codec_okD(1)[OF cd] w(2) nf(2) now w(1) b(2,3) tot times order_refl refl,
      of ?src, unfolded cut cut.case nf(1)]
  let ?attempt = "try_recover_one_active_file c now ?src (take ?len (hbs @ blocks_bytes blocks)) r"
  have all: "recover_orphan_active_files c config now r = (Inr (count_outcome outcome report0), r1)"
    if "?attempt = (Inr outcome, r1)" and "report0 = \<lparr>ar_recovered_files = 0, ar_deleted_empty_files = 0, ar_quarantined_files = 0\<rparr>"
    for outcome r1 report0
    using that by (simp add: recover_orphan_active_files_def p(4) recover_one_active_file_def b(1))
  show thesis
  proof (cases "length blocks = 0")
    case True
    let ?r1 = "r\<lparr>root_active := dir_remove ?src (root_active r)\<rparr>"
    have "?attempt = (Inr DeletedEmpty, ?r1)" using whole True by simp
    note rec = all[OF this refl]
    have none: "evs = []" using True bl(2) by simp
    have kk: "k < k + 1" "k + 1 \<le> 2 ^ 62" using k by simp_all
    have en: "entries ?r1 = entries r" "root_consumed ?r1 = root_consumed r" by (simp_all add: entries_def)
    have fresh: "\<forall>r'. entries r' = entries ?r1 \<and> root_consumed r' = root_consumed ?r1 \<longrightarrow> worker_ok c (k + 1) k S r'"
      using worker_ok_renumber[OF ok _ _ order_refl kk] unfolding en by blast
    have gone: "root_active ?r1 = []" by (simp add: p(4) dir_remove_def)
    have seq: "root_next_sequence ?r1 = Some (int k)" "k \<le> k + 1" by (simp_all add: p(3))
    have same: "set (journalled_events c ?r1) = set (journalled_events c r) \<union> set evs"
      unfolding none journalled_events_def en(1) by simp
    show thesis by (rule that[OF rec gone seq fresh same])
  next
    case False
    obtain bytes ff where a: "?attempt = (Inr (Recovered (journal_name k)), published_root now ?src k bytes r)"
      "sealed_file c ?p (output_header_bytes c h k) (take (length blocks) blocks) ff bytes"
      using whole False by auto
    note rec = all[OF a(1) refl]
    let ?r1 = "published_root now ?src k bytes r" and ?f = "\<lparr>jf_bytes = bytes, jf_modified_ms = now\<rparr>"
    have hi: "header_image c FILE_MAGIC_V1 (output_header h k) (output_header_bytes c h k)"
      using output_header_image(1)[OF codec_okD(1)[OF cd] w(2)] nf by simp
    note fe = sealed_file_events[OF a(2)[unfolded take_all[OF order_refl]] hi b(3) bl(2) ev(2)]
    have k62: "k < 2 ^ 62" using k by simp
    have "recovering_name k \<notin> set (dir_names (root_sealed r))"
    proof
      assume "recovering_name k \<in> set (dir_names (root_sealed r))"
      then obtain g where "(recovering_name k, g) \<in> set (entries r)" by (auto simp: in_dir_names entries_def)
      from worker_ok_entry[OF ok this] obtain m where "m < k" "recovering_name k = journal_name m" "m \<le> u64_max" by auto
      then show False using names_differ(3)[of k m] nf by simp
    qed
    then have fields: "root_sealed ?r1 = dir_put (journal_name k) ?f (root_sealed r)"
      "root_consuming ?r1 = root_consuming r" "root_consumed ?r1 = root_consumed r"
      "root_next_sequence ?r1 = Some (int (k + 1))" "root_active ?r1 = []"
      by (simp_all add: published_root_def allocate_int[OF p(3) k62] p(4)) (simp add: dir_remove_def)
    have bounds: "k < k + 2" "k \<le> k + 1" "k + 1 < k + 2" "k + 2 \<le> 2 ^ 62" "k + 1 \<noteq> k" using k by simp_all
    have f: "file_ok c (jf_bytes ?f)" using fe(1) by simp
    note added = worker_ok_add[OF ok disjI2[OF order_refl] bounds(1) p(2) bounds(2-5) fields(1-3) f]
    have moved: "worker_ok c (k + 1 + 1) (k + 1) S r'" if "entries r' = entries ?r1" "root_consumed r' = root_consumed ?r1" for r'
    proof (rule worker_ok_shrink[OF _ _ _ that(2)])
      show "worker_ok c (k + 1 + 1) (k + 1) S ?r1" using added(1) by simp
      show "distinct (dir_names (entries r'))" unfolding that(1) by (rule worker_ok_dirs(1)[OF added(1)])
    qed (simp add: that(1))
    then have fresh: "\<forall>r'. entries r' = entries ?r1 \<and> root_consumed r' = root_consumed ?r1 \<longrightarrow>
        worker_ok c (k + 1 + 1) (k + 1) S r'" by blast
    have grown: "set (journalled_events c ?r1) = set (journalled_events c r) \<union> set evs"
      unfolding added(2) using fe(2) by simp
    show thesis by (rule that[OF rec fields(5,4) order_refl fresh grown])
  qed
qed

lemma sink_open_new:
  assumes cd: "codec_ok c config E" and rt: "config = journal_config_from_runtime rt" "rj_usage_journal_enabled rt"
    and rec: "recover_orphan_active_files c config now r = (Inr report, r1)" "root_active r1 = []"
    and al: "allocate_next_file_sequence r1 = (k, r1\<lparr>root_next_sequence := Some (int (k + 1))\<rparr>)" "k \<le> u64_max"
    and ok: "\<forall>r'. entries r' = entries r1 \<and> root_consumed r' = root_consumed r1 \<longrightarrow> worker_ok c (k + 1) k S r'"
    and now: "i64_range now" "pid < 2 ^ 32"
  obtains sink r' where "sink_open c rt now pid r = (Inr sink, r')" "sink_holds c config S [] sink r'"
    "journalled_events c r' = journalled_events c r1" "root_sealed r' = root_sealed r1" "next_free r' = k + 1"
proof -
  obtain w where w: "writer_open c (usage_payload c) config now pid r1 =
      (Inr w, sync_active w now (r1\<lparr>root_next_sequence := Some (int (k + 1))\<rparr>))" "writer_at c config k [] w"
    by (rule writer_open_at[OF cd al now])
  have seq: "jw_file_sequence w = k" using w(2) by (auto elim: writer_atE)
  let ?r = "sync_active w now (r1\<lparr>root_next_sequence := Some (int (k + 1))\<rparr>)"
  let ?sink = "\<lparr>sk_writer = \<lparr>dw_enabled = True, dw_config = config, dw_writer = w\<rparr>, sk_write_failures_total = 0\<rparr>"
  have fields: "entries ?r = entries r1" "root_consumed ?r = root_consumed r1"
    "root_next_sequence ?r = Some (int (k + 1))"
    "root_active ?r = [(open_name k, \<lparr>jf_bytes = jw_file w, jf_modified_ms = now\<rparr>)]"
    by (simp_all add: sync_active_def entries_def rec(2) seq dir_put_def dir_remove_def)
  have opened: "sink_open c rt now pid r = (Inr ?sink, ?r)"
    using rec(1) w(1) rt by (simp add: sink_open_def disk_writer_open_def Let_def)
  have "producer_ok c config (k + 1) k [] ?sink ?r"
    unfolding producer_ok_def
    by (rule exI[of _ w], rule exI[of _ now]) (intro conjI refl w(2) fields(3,4), simp)
  then have "sink_holds c config S [] ?sink ?r"
    unfolding sink_holds_def using ok fields(1,2) by blast
  moreover have "journalled_events c ?r = journalled_events c r1"
    unfolding journalled_events_def fields(1) ..
  moreover have "root_sealed ?r = root_sealed r1" by (simp add: sync_active_def)
  moreover have "next_free ?r = k + 1" by (rule next_free_int[OF fields(3)])
  ultimately show thesis by (rule that[OF opened])
qed

lemma sink_reopen_keeps:
  assumes cd: "codec_ok c config E" and rt: "config = journal_config_from_runtime rt" "rj_usage_journal_enabled rt"
    and hold: "sink_holds c config S evs sink r" and ev: "set evs \<subseteq> E" "length evs < u64_max"
    and room: "next_free r < 2 ^ 61" and now: "i64_range now" "pid < 2 ^ 32"
  obtains sink' r' where "sink_open c rt now pid r = (Inr sink', r')" "sink_holds c config S [] sink' r'"
    "set (journalled_events c r') = set (journalled_events c r) \<union> set evs"
proof -
  obtain k n where pr: "producer_ok c config k n evs sink r" and ok: "worker_ok c k n S r"
    using hold by (auto simp: sink_holds_def)
  have "root_next_sequence r = Some (int k)" by (rule producer_okE[OF pr])
  then have k: "k < 2 ^ 61" using room by simp
  obtain report r1 k1 where r1: "recover_orphan_active_files c config now r = (Inr report, r1)"
    "root_active r1 = []" "root_next_sequence r1 = Some (int k1)" "k1 \<le> k + 1"
    "\<forall>r'. entries r' = entries r1 \<and> root_consumed r' = root_consumed r1 \<longrightarrow> worker_ok c (k1 + 1) k1 S r'"
    "set (journalled_events c r1) = set (journalled_events c r) \<union> set evs"
    by (rule recover_left_behind[OF cd pr ok ev k now(1)])
  have k1: "k1 < 2 ^ 62" "k1 \<le> u64_max" using k r1(4) by (simp_all add: u64_max_def)
  obtain sink' r' where "sink_open c rt now pid r = (Inr sink', r')" "sink_holds c config S [] sink' r'"
    "journalled_events c r' = journalled_events c r1"
    by (rule sink_open_new[OF cd rt r1(1,2) allocate_int[OF r1(3) k1(1)] k1(2) r1(5) now])
  then show thesis using that r1(6) by simp
qed

lemma sink_start_keeps:
  assumes cd: "codec_ok c config E" and rt: "config = journal_config_from_runtime rt" "rj_usage_journal_enabled rt"
    and now: "i64_range now" "pid < 2 ^ 32"
  obtains sink r where "sink_open c rt now pid empty_journal = (Inr sink, r)" "sink_holds c config S [] sink r"
    "journalled_events c r = []" "root_sealed r = []" "next_free r = 1"
proof -
  let ?r = empty_journal
  have al: "allocate_next_file_sequence ?r = (0, ?r\<lparr>root_next_sequence := Some (int (0 + 1))\<rparr>)"
    by (simp add: allocate_next_file_sequence_def empty_journal_def seed_next_file_sequence_def
        max_existing_file_sequence_def max_consumed_file_sequence_def Let_def sat_add_u64_def u64_max_def as_i64_def)
  have ok: "\<forall>r'. entries r' = entries ?r \<and> root_consumed r' = root_consumed ?r \<longrightarrow> worker_ok c (0 + 1) 0 S r'"
    by (simp add: worker_ok_def journal_ok_def consumed_stored_def entries_def empty_journal_def)
  have rec: "recover_orphan_active_files c config now ?r =
      (Inr \<lparr>ar_recovered_files = 0, ar_deleted_empty_files = 0, ar_quarantined_files = 0\<rparr>, ?r)"
    by (simp add: recover_orphan_active_files_def empty_journal_def)
  have act: "root_active ?r = []" and zero: "0 \<le> u64_max" by (simp_all add: empty_journal_def)
  obtain sink r where s: "sink_open c rt now pid ?r = (Inr sink, r)" "sink_holds c config S [] sink r"
    "journalled_events c r = journalled_events c ?r" "root_sealed r = root_sealed ?r" "next_free r = 0 + 1"
    by (rule sink_open_new[OF cd rt rec act al zero ok now])
  have "journalled_events c ?r = []" "root_sealed ?r = []"
    by (simp_all add: journalled_events_def dir_events_def entries_def empty_journal_def)
  then show thesis using that s by simp
qed

end
