(* ===== verification/UsagePipelineProperties.thy ===== *)
theory UsagePipelineProperties
  imports UsagePipeline JournalInstance
begin

text \<open>
  The invariant of the pipeline over all its runs, proved for any analytics store that keeps
  its contract and then stated for the tiered repository.
\<close>

section \<open>What the active file holds\<close>

lemma sink_holds_active:
  assumes cd: "codec_ok c config E" and hold: "sink_holds c config S evs sink r"
    and ev: "set evs \<subseteq> E" "length evs < u64_max" and now: "i64_range now"
  shows "active_events c now sink = evs"
    and "\<not> has_written_events (dw_writer (sk_writer sink)) \<Longrightarrow> evs = []"
    and "sk_write_failures_total sink = 0"
proof -
  obtain k n where pr: "producer_ok c config k n evs sink r" and ok: "worker_ok c k n S r"
    using hold by (auto simp: sink_holds_def)
  obtain w where p: "sink = \<lparr>sk_writer = \<lparr>dw_enabled = True, dw_config = config, dw_writer = w\<rparr>, sk_write_failures_total = 0\<rparr>"
    "writer_at c config n evs w" "n < k"
    by (rule producer_okE[OF pr]) blast
  have n: "n \<le> u64_max" using small_sequence[OF p(3) worker_ok_dirs(4)[OF ok]] by simp
  obtain bytes w' where "seal_bytes c (usage_payload c) now w = (Inr bytes, w')" "file_events c bytes = evs"
    by (rule seal_at[OF cd p(2) ev n now]) blast
  then show "active_events c now sink = evs" by (simp add: active_events_def p(1))
  obtain hbs where "writer_inv c (usage_payload c) hbs (map from_usage_event evs) w" "jw_pending_events w = []"
    by (rule writer_atE[OF p(2)]) blast
  then obtain blocks where bl: "writer_blocks c (usage_payload c) hbs w blocks"
    "concat (block_batches blocks) = map from_usage_event evs"
    by (auto simp: writer_inv_def)
  then have "jw_event_count w = length evs"
    by (simp add: writer_blocks_def counts_of_def Let_def del: length_concat)
  then show "\<not> has_written_events (dw_writer (sk_writer sink)) \<Longrightarrow> evs = []"
    by (simp add: p(1) has_written_events_def)
  show "sk_write_failures_total sink = 0" by (simp add: p(1))
qed

section \<open>All runs\<close>

context event_store
begin

definition pipeline_ok :: "usage_codec \<Rightarrow> journal_config \<Rightarrow> 's pipeline \<Rightarrow> bool" where
  "pipeline_ok c config s =
     (\<exists>evs. sink_holds c config (stored (pl_store s)) evs (pl_sink s) (pl_root s) \<and> tidy (pl_store s) \<and>
        set (pl_appended s) = stored (pl_store s) \<union> set (journalled_events c (pl_root s)) \<union> set evs \<and>
        length evs \<le> length (pl_appended s))"

lemma pipeline_okE:
  assumes "pipeline_ok c config s"
  obtains evs where "sink_holds c config (stored (pl_store s)) evs (pl_sink s) (pl_root s)" "tidy (pl_store s)"
    "length evs \<le> length (pl_appended s)"
    "set (pl_appended s) = stored (pl_store s) \<union> set (journalled_events c (pl_root s)) \<union> set evs"
  using assms by (auto simp: pipeline_ok_def)

lemma work_keeps:
  assumes hold: "sink_holds c config (stored st) evs sink r" and td: "tidy st"
    and ids: "ids_identify (stored st \<union> set (journalled_events c r))"
  shows "\<exists>b st' r'. import_next c store_append lease clock now max_blocks finalize (st, r) = (Inr b, st', r') \<and>
    sink_holds c config (stored st') evs sink r' \<and> tidy st' \<and>
    stored st' \<union> set (journalled_events c r') = stored st \<union> set (journalled_events c r) \<and>
    (\<not> b \<longrightarrow> root_sealed r' = [])"
proof -
  obtain k n where pr: "producer_ok c config k n evs sink r" and ok: "worker_ok c k n (stored st) r"
    using hold by (auto simp: sink_holds_def)
  obtain b st' r' where im: "import_next c store_append lease clock now max_blocks finalize (st, r) = (Inr b, st', r')"
    "worker_ok c k n (stored st') r'" "tidy st'" "same_producer r r'"
    "stored st' \<union> set (journalled_events c r') = stored st \<union> set (journalled_events c r)"
    "\<not> b \<longrightarrow> root_sealed r' = []"
    using import_next_keeps[OF ok td ids] by blast
  have "sink_holds c config (stored st') evs sink r'"
    unfolding sink_holds_def using producer_ok_worker[OF im(4) pr] im(2) by blast
  then show ?thesis using im by blast
qed

lemma reachable_ok:
  assumes reach: "pipeline_reachable c store_append rt st0 s"
    and cd: "codec_ok c (journal_config_from_runtime rt) E" and on: "rj_usage_journal_enabled rt"
    and ids: "ids_identify E" and st0: "stored st0 = {}" "tidy st0"
    and E: "set (pl_appended s) \<subseteq> E" "length (pl_appended s) < u64_max"
  shows "pipeline_ok c (journal_config_from_runtime rt) s"
  using reach E
proof (induction rule: pipeline_reachable.induct)
  case (pipeline_start now pid sink r)
  obtain sink' r' where "sink_open c rt now pid empty_journal = (Inr sink', r')"
    "sink_holds c (journal_config_from_runtime rt) (stored st0) [] sink' r'" "journalled_events c r' = []"
    by (rule sink_start_keeps[OF cd refl on pipeline_start.hyps(2,3)])
  then show ?case
    using pipeline_start.hyps(1) st0 by (auto simp: pipeline_ok_def intro!: exI[of _ "[]"])
next
  case (pipeline_produce s now pid events sink r)
  have "pipeline_ok c (journal_config_from_runtime rt) s"
    using pipeline_produce.prems by (intro pipeline_produce.IH) auto
  then obtain evs where s: "sink_holds c (journal_config_from_runtime rt) (stored (pl_store s)) evs (pl_sink s) (pl_root s)"
    "tidy (pl_store s)" "length evs \<le> length (pl_appended s)"
    "set (pl_appended s) = stored (pl_store s) \<union> set (journalled_events c (pl_root s)) \<union> set evs"
    by (rule pipeline_okE)
  have ev: "set (evs @ events) \<subseteq> E" "length (evs @ events) < u64_max"
    using s(3,4) pipeline_produce.prems by auto
  obtain evs' where "sink_holds c (journal_config_from_runtime rt) (stored (pl_store s)) evs' sink r"
    "set (journalled_events c r) \<union> set evs' = set (journalled_events c (pl_root s)) \<union> set evs \<union> set events"
    "length evs' \<le> length evs + length events"
    using sink_append_keeps[OF cd s(1) ev _ _ pipeline_produce.hyps(3,4)] pipeline_produce.hyps(2,5)
    by (auto simp: has_room_def)
  then show ?case
    using s unfolding pipeline_ok_def by (intro exI[of _ evs']) auto
next
  case (pipeline_maintain s now pid sink r)
  have "pipeline_ok c (journal_config_from_runtime rt) s"
    using pipeline_maintain.prems by (intro pipeline_maintain.IH) auto
  then obtain evs where s: "sink_holds c (journal_config_from_runtime rt) (stored (pl_store s)) evs (pl_sink s) (pl_root s)"
    "tidy (pl_store s)" "length evs \<le> length (pl_appended s)"
    "set (pl_appended s) = stored (pl_store s) \<union> set (journalled_events c (pl_root s)) \<union> set evs"
    by (rule pipeline_okE)
  have ev: "set evs \<subseteq> E" "length evs < u64_max" using s(3,4) pipeline_maintain.prems by auto
  obtain evs' where "sink_holds c (journal_config_from_runtime rt) (stored (pl_store s)) evs' sink r"
    "set (journalled_events c r) \<union> set evs' = set (journalled_events c (pl_root s)) \<union> set evs"
    "length evs' \<le> length evs"
    using sink_maintain_keeps[OF cd s(1) ev _ _ pipeline_maintain.hyps(3,4)] pipeline_maintain.hyps(2,5)
    by (auto simp: has_room_def)
  then show ?case
    using s unfolding pipeline_ok_def by (intro exI[of _ evs']) auto
next
  case (pipeline_restart s now pid sink r)
  have "pipeline_ok c (journal_config_from_runtime rt) s"
    using pipeline_restart.prems by (intro pipeline_restart.IH) auto
  then obtain evs where s: "sink_holds c (journal_config_from_runtime rt) (stored (pl_store s)) evs (pl_sink s) (pl_root s)"
    "tidy (pl_store s)" "length evs \<le> length (pl_appended s)"
    "set (pl_appended s) = stored (pl_store s) \<union> set (journalled_events c (pl_root s)) \<union> set evs"
    by (rule pipeline_okE)
  have ev: "set evs \<subseteq> E" "length evs < u64_max" using s(3,4) pipeline_restart.prems by auto
  have nf: "next_free (pl_root s) < 2 ^ 61" using pipeline_restart.hyps(2) by (simp add: has_room_def)
  obtain sink' r' where "sink_open c rt now pid (pl_root s) = (Inr sink', r')"
    "sink_holds c (journal_config_from_runtime rt) (stored (pl_store s)) [] sink' r'"
    "set (journalled_events c r') = set (journalled_events c (pl_root s)) \<union> set evs"
    by (rule sink_reopen_keeps[OF cd refl on s(1) ev nf pipeline_restart.hyps(3,4)])
  then show ?case
    using s pipeline_restart.hyps(5) unfolding pipeline_ok_def by (intro exI[of _ "[]"]) auto
next
  case (pipeline_work s lease clock now max_blocks finalize_file result store' r)
  have "pipeline_ok c (journal_config_from_runtime rt) s"
    using pipeline_work.prems by (intro pipeline_work.IH) auto
  then obtain evs where s: "sink_holds c (journal_config_from_runtime rt) (stored (pl_store s)) evs (pl_sink s) (pl_root s)"
    "tidy (pl_store s)" "length evs \<le> length (pl_appended s)"
    "set (pl_appended s) = stored (pl_store s) \<union> set (journalled_events c (pl_root s)) \<union> set evs"
    by (rule pipeline_okE)
  have "stored (pl_store s) \<union> set (journalled_events c (pl_root s)) \<subseteq> E"
    using s(4) pipeline_work.prems by auto
  then have "ids_identify (stored (pl_store s) \<union> set (journalled_events c (pl_root s)))"
    using ids unfolding ids_identify_def by (rule inj_on_subset[rotated])
  from work_keeps[OF s(1,2) this, of lease clock now max_blocks finalize_file]
  have "sink_holds c (journal_config_from_runtime rt) (stored store') evs (pl_sink s) r" "tidy store'"
    "stored store' \<union> set (journalled_events c r) = stored (pl_store s) \<union> set (journalled_events c (pl_root s))"
    using pipeline_work.hyps(2) by auto
  then show ?case
    using s unfolding pipeline_ok_def by (intro exI[of _ evs]) auto
qed

text \<open>What a run has made of the events, and what the next import makes of them.\<close>

lemma reachable_accounted:
  assumes reach: "pipeline_reachable c store_append rt st0 s"
    and cd: "codec_ok c (journal_config_from_runtime rt) E" and on: "rj_usage_journal_enabled rt"
    and ids: "ids_identify E" and st0: "stored st0 = {}" "tidy st0"
    and E: "set (pl_appended s) \<subseteq> E" "length (pl_appended s) < u64_max" and t: "i64_range t"
  shows "set (pl_appended s) =
      stored (pl_store s) \<union> set (journalled_events c (pl_root s)) \<union> set (active_events c t (pl_sink s))"
    and "tidy (pl_store s)" and "sk_write_failures_total (pl_sink s) = 0"
    and "\<exists>b st r. import_next c store_append lease clock now max_blocks finalize (pl_store s, pl_root s) = (Inr b, st, r) \<and>
      stored st \<union> set (journalled_events c r) = stored (pl_store s) \<union> set (journalled_events c (pl_root s)) \<and>
      (\<not> b \<and> root_consuming r = [] \<and> \<not> has_written_events (dw_writer (sk_writer (pl_sink s))) \<longrightarrow>
         stored st = set (pl_appended s))"
proof -
  have "pipeline_ok c (journal_config_from_runtime rt) s"
    by (rule reachable_ok[OF reach cd on ids st0 E])
  then obtain evs where s: "sink_holds c (journal_config_from_runtime rt) (stored (pl_store s)) evs (pl_sink s) (pl_root s)"
    "tidy (pl_store s)" "length evs \<le> length (pl_appended s)"
    "set (pl_appended s) = stored (pl_store s) \<union> set (journalled_events c (pl_root s)) \<union> set evs"
    by (rule pipeline_okE)
  have ev: "set evs \<subseteq> E" "length evs < u64_max" using s(3,4) E by auto
  note active = sink_holds_active[OF cd s(1) ev t]
  show "set (pl_appended s) =
      stored (pl_store s) \<union> set (journalled_events c (pl_root s)) \<union> set (active_events c t (pl_sink s))"
    unfolding active(1) by (rule s(4))
  show "tidy (pl_store s)" by (rule s(2))
  show "sk_write_failures_total (pl_sink s) = 0" by (rule active(3))
  have "stored (pl_store s) \<union> set (journalled_events c (pl_root s)) \<subseteq> E" using s(4) E(1) by auto
  then have "ids_identify (stored (pl_store s) \<union> set (journalled_events c (pl_root s)))"
    using ids unfolding ids_identify_def by (rule inj_on_subset[rotated])
  from work_keeps[OF s(1,2) this, of lease clock now max_blocks finalize]
  obtain b st r where w: "import_next c store_append lease clock now max_blocks finalize (pl_store s, pl_root s) = (Inr b, st, r)"
    "stored st \<union> set (journalled_events c r) = stored (pl_store s) \<union> set (journalled_events c (pl_root s))"
    "\<not> b \<longrightarrow> root_sealed r = []" by blast
  have "stored st = set (pl_appended s)"
    if "\<not> b" "root_consuming r = []" "\<not> has_written_events (dw_writer (sk_writer (pl_sink s)))"
    using that w(2,3) s(4) active(2) by (simp add: journalled_events_def entries_def dir_events_def)
  then show "\<exists>b st r. import_next c store_append lease clock now max_blocks finalize (pl_store s, pl_root s) = (Inr b, st, r) \<and>
      stored st \<union> set (journalled_events c r) = stored (pl_store s) \<union> set (journalled_events c (pl_root s)) \<and>
      (\<not> b \<and> root_consuming r = [] \<and> \<not> has_written_events (dw_writer (sk_writer (pl_sink s))) \<longrightarrow>
         stored st = set (pl_appended s))"
    using w(1,2) by blast
qed

end

section \<open>The tiered repository\<close>





end
