(* ===== verification/SseEvents.thy ===== *)
theory SseEvents
  imports JsonValue HashMapModel
begin

text \<open>
  The server-sent events of the translated stream and their state machine:
  \<open>sse_event.rs\<close>, \<open>usage.rs\<close> and \<open>state.rs\<close> of \<open>crates/llm-access-kiro/src/anthropic/stream\<close>.

  A \<open>json!\<close> object is built by \<open>json_obj\<close>: \<open>serde_json\<close> keeps its entries sorted by key.  The
  map of blocks is iterated in an unspecified order, the argument \<open>order\<close>.  Block indices and
  token counts are \<open>i32\<close> in the source and integers here: a stream has fewer than \<open>2 ^ 31\<close>
  blocks and tokens.
\<close>

section \<open>Values and events\<close>

definition json_obj :: "(string \<times> json) list \<Rightarrow> json" where
  "json_obj entries = JObject (btree_collect entries)"

definition json_int :: "int \<Rightarrow> json" where
  "json_int i = JNumber (if i < 0 then ''-'' @ show_nat (nat (- i)) else show_nat (nat i))"

record sse_event =
  sse_event :: string
  sse_data :: json

definition sse_event_new :: "string \<Rightarrow> json \<Rightarrow> sse_event" where
  "sse_event_new event data = \<lparr>sse_event = event, sse_data = data\<rparr>"

definition to_sse_string :: "(json \<Rightarrow> string) \<Rightarrow> sse_event \<Rightarrow> string" where
  "to_sse_string render event =
     ''event: '' @ sse_event event @ [CHR 0x0A] @ ''data: '' @ render (sse_data event) @ [CHR 0x0A, CHR 0x0A]"

section \<open>Usage\<close>

definition anthropic_usage_json :: "int \<Rightarrow> int \<Rightarrow> int \<Rightarrow> json" where
  "anthropic_usage_json input_tokens_total output_tokens cache_read_input_tokens =
     (let input_tokens_total = max input_tokens_total 0;
          cache_read_input_tokens = min (max cache_read_input_tokens 0) input_tokens_total;
          input_tokens = input_tokens_total - cache_read_input_tokens in
      json_obj
        [(''input_tokens'', json_int input_tokens),
         (''output_tokens'', json_int (max output_tokens 0)),
         (''cache_creation_input_tokens'', json_int 0),
         (''cache_read_input_tokens'', json_int cache_read_input_tokens),
         (''cache_creation'', json_obj
            [(''ephemeral_5m_input_tokens'', json_int 0), (''ephemeral_1h_input_tokens'', json_int 0)]),
         (''output_tokens_details'', json_obj [(''thinking_tokens'', json_int 0)]),
         (''service_tier'', JString ''standard''),
         (''inference_geo'', JString ''not_available'')])"

datatype kiro_input_token_source = UpstreamContextUsage | LocalRequestEstimateFallback

definition KIRO_CONTEXT_USAGE_MIN_REQUEST_TOKENS :: nat where
  "KIRO_CONTEXT_USAGE_MIN_REQUEST_TOKENS = 15000"

definition resolve_input_tokens_with_threshold ::
  "int \<Rightarrow> int option \<Rightarrow> nat \<Rightarrow> int \<times> kiro_input_token_source" where
  "resolve_input_tokens_with_threshold request_input_tokens context_input_tokens context_usage_min_request_tokens =
     (let request_input = max request_input_tokens 0 in
      if nat request_input \<le> context_usage_min_request_tokens
      then (request_input, LocalRequestEstimateFallback)
      else
        (let context_input = max (unwrap_or context_input_tokens 0) 0 in
         if 0 < context_input then (context_input, UpstreamContextUsage)
         else (request_input, LocalRequestEstimateFallback)))"

definition resolve_input_tokens :: "int \<Rightarrow> int option \<Rightarrow> int \<times> kiro_input_token_source" where
  "resolve_input_tokens request_input_tokens context_input_tokens =
     resolve_input_tokens_with_threshold request_input_tokens context_input_tokens
       KIRO_CONTEXT_USAGE_MIN_REQUEST_TOKENS"

section \<open>The state machine\<close>

record block_state =
  bs_block_type :: string
  bs_started :: bool
  bs_stopped :: bool

record sse_state_manager =
  sm_message_started :: bool
  sm_message_delta_sent :: bool
  sm_active_blocks :: "(int \<times> block_state) list"
  sm_message_ended :: bool
  sm_next_block_index :: int
  sm_stop_reason :: "string option"
  sm_has_tool_use :: bool

type_synonym block_order = "(int \<times> block_state) list \<Rightarrow> (int \<times> block_state) list"

definition sse_state_manager_new :: sse_state_manager where
  "sse_state_manager_new =
     \<lparr>sm_message_started = False, sm_message_delta_sent = False, sm_active_blocks = [],
      sm_message_ended = False, sm_next_block_index = 0, sm_stop_reason = None, sm_has_tool_use = False\<rparr>"

definition block_open :: "block_state \<Rightarrow> bool" where
  "block_open b = (bs_started b \<and> \<not> bs_stopped b)"

definition is_block_open_of_type :: "sse_state_manager \<Rightarrow> int \<Rightarrow> string \<Rightarrow> bool" where
  "is_block_open_of_type m index expected_type =
     (case map_of (sm_active_blocks m) index of
        Some b \<Rightarrow> block_open b \<and> bs_block_type b = expected_type
      | None \<Rightarrow> False)"

definition next_block_index :: "sse_state_manager \<Rightarrow> int \<times> sse_state_manager" where
  "next_block_index m = (sm_next_block_index m, m\<lparr>sm_next_block_index := sm_next_block_index m + 1\<rparr>)"

definition set_has_tool_use :: "bool \<Rightarrow> sse_state_manager \<Rightarrow> sse_state_manager" where
  "set_has_tool_use has_tool_use m = m\<lparr>sm_has_tool_use := has_tool_use\<rparr>"

definition set_stop_reason :: "string \<Rightarrow> sse_state_manager \<Rightarrow> sse_state_manager" where
  "set_stop_reason reason m = m\<lparr>sm_stop_reason := Some reason\<rparr>"

definition has_non_thinking_blocks :: "sse_state_manager \<Rightarrow> bool" where
  "has_non_thinking_blocks m = list_ex (\<lambda>(_, b). bs_block_type b \<noteq> ''thinking'') (sm_active_blocks m)"

definition get_stop_reason :: "sse_state_manager \<Rightarrow> string" where
  "get_stop_reason m =
     (case sm_stop_reason m of
        Some reason \<Rightarrow> reason
      | None \<Rightarrow> (if sm_has_tool_use m then ''tool_use'' else ''end_turn''))"

definition handle_message_start :: "json \<Rightarrow> sse_state_manager \<Rightarrow> sse_event list \<times> sse_state_manager" where
  "handle_message_start event m =
     (if sm_message_started m then ([], m)
      else ([sse_event_new ''message_start'' event], m\<lparr>sm_message_started := True\<rparr>))"

definition block_stop_event :: "int \<Rightarrow> sse_event" where
  "block_stop_event index =
     sse_event_new ''content_block_stop''
       (json_obj [(''type'', JString ''content_block_stop''), (''index'', json_int index)])"

text \<open>The loop over the blocks that stops those with the property \<open>P\<close>.\<close>

definition stop_blocks ::
  "block_order \<Rightarrow> (block_state \<Rightarrow> bool) \<Rightarrow> sse_state_manager \<Rightarrow> sse_event list \<times> sse_state_manager" where
  "stop_blocks order P m =
     (map (\<lambda>(index, _). block_stop_event index) (filter (\<lambda>(_, b). P b) (order (sm_active_blocks m))),
      m\<lparr>sm_active_blocks :=
          map (\<lambda>(index, b). (index, if P b then b\<lparr>bs_stopped := True\<rparr> else b)) (sm_active_blocks m)\<rparr>)"

definition handle_content_block_start ::
  "block_order \<Rightarrow> int \<Rightarrow> string \<Rightarrow> json \<Rightarrow> sse_state_manager \<Rightarrow> sse_event list \<times> sse_state_manager" where
  "handle_content_block_start order index block_type data m =
     (let (events, m) =
            (if block_type = ''tool_use''
             then stop_blocks order (\<lambda>b. bs_block_type b = ''text'' \<and> block_open b) (m\<lparr>sm_has_tool_use := True\<rparr>)
             else ([], m)) in
      case map_of (sm_active_blocks m) index of
        Some b \<Rightarrow>
          (if bs_started b then (events, m)
           else (events @ [sse_event_new ''content_block_start'' data],
                 m\<lparr>sm_active_blocks := hm_insert index (b\<lparr>bs_started := True\<rparr>) (sm_active_blocks m)\<rparr>))
      | None \<Rightarrow>
          (events @ [sse_event_new ''content_block_start'' data],
           m\<lparr>sm_active_blocks :=
               hm_insert index \<lparr>bs_block_type = block_type, bs_started = True, bs_stopped = False\<rparr>
                 (sm_active_blocks m)\<rparr>))"

definition handle_content_block_delta :: "int \<Rightarrow> json \<Rightarrow> sse_state_manager \<Rightarrow> sse_event list" where
  "handle_content_block_delta index data m =
     (case map_of (sm_active_blocks m) index of
        Some b \<Rightarrow> (if block_open b then [sse_event_new ''content_block_delta'' data] else [])
      | None \<Rightarrow> [])"

definition handle_content_block_stop ::
  "int \<Rightarrow> sse_state_manager \<Rightarrow> sse_event list \<times> sse_state_manager" where
  "handle_content_block_stop index m =
     (case map_of (sm_active_blocks m) index of
        Some b \<Rightarrow>
          (if bs_stopped b then ([], m)
           else ([block_stop_event index],
                 m\<lparr>sm_active_blocks := hm_insert index (b\<lparr>bs_stopped := True\<rparr>) (sm_active_blocks m)\<rparr>))
      | None \<Rightarrow> ([], m))"

definition message_delta_event :: "string \<Rightarrow> int \<Rightarrow> int \<Rightarrow> sse_event" where
  "message_delta_event stop_reason input_tokens output_tokens =
     sse_event_new ''message_delta''
       (json_obj
         [(''type'', JString ''message_delta''),
          (''delta'', json_obj [(''stop_reason'', JString stop_reason), (''stop_sequence'', JNull),
             (''stop_details'', JNull)]),
          (''usage'', anthropic_usage_json input_tokens output_tokens 0),
          (''context_management'', json_obj [(''applied_edits'', JArray [])])])"

definition manager_final_events ::
  "block_order \<Rightarrow> int \<Rightarrow> int \<Rightarrow> sse_state_manager \<Rightarrow> sse_event list \<times> sse_state_manager" where
  "manager_final_events order input_tokens output_tokens m =
     (let (stops, m) = stop_blocks order block_open m;
          (deltas, m) =
            (if \<not> sm_message_delta_sent m
             then ([message_delta_event (get_stop_reason m) input_tokens output_tokens],
                   m\<lparr>sm_message_delta_sent := True\<rparr>)
             else ([], m));
          (ends, m) =
            (if \<not> sm_message_ended m
             then ([sse_event_new ''message_stop'' (json_obj [(''type'', JString ''message_stop'')])],
                   m\<lparr>sm_message_ended := True\<rparr>)
             else ([], m)) in
      (stops @ deltas @ ends, m))"

section \<open>Reading values\<close>

lemma map_of_btree_insert: "map_of (btree_insert k v m) k' = (if k' = k then Some v else map_of m k')"
  by (induction m) auto

lemma map_of_btree_collect: "map_of (btree_collect es) k = map_of (rev es) k"
proof (induction es rule: rev_induct)
  case (snoc e es)
  then show ?case by (cases e) (simp add: btree_collect_def map_of_btree_insert)
qed (simp add: btree_collect_def)

lemma json_get_obj [simp]: "json_get (json_obj es) key = map_of (rev es) key"
  by (simp add: json_get_def json_obj_def map_of_btree_collect)

lemma json_int_inj: "0 \<le> i \<Longrightarrow> 0 \<le> j \<Longrightarrow> json_int i = json_int j \<longleftrightarrow> i = j"
proof
  assume bounds: "0 \<le> i" "0 \<le> j" and eq: "json_int i = json_int j"
  then have "show_nat (nat i) = show_nat (nat j)" by (simp add: json_int_def)
  then have "nat i = nat j" by (metis digits_value_show_nat)
  then show "i = j" using bounds by simp
qed simp

end
