(* ===== verification/InlineThinking.thy ===== *)
theory InlineThinking
  imports Utf8
begin

text \<open>
  Inline thinking, \<open>crates/llm-access-kiro/src/anthropic/stream/inline_thinking.rs\<close>: the tags
  \<open><thinking>\<close> and \<open></thinking>\<close> in a text, unless a quote stands beside them, and the
  division of a text at them.  A string is the list of its bytes, so positions and lengths
  are those of the source; the tags are ASCII, so every slice is at a character boundary.
\<close>

section \<open>Tags\<close>

definition newline :: string where
  "newline = [CHR 0x0A]"

definition THINKING_START_TAG :: string where
  "THINKING_START_TAG = ''<thinking>''"

definition THINKING_END_TAG :: string where
  "THINKING_END_TAG = ''</thinking>''"

definition str_starts_with :: "string \<Rightarrow> string \<Rightarrow> bool" where
  "str_starts_with s p = (take (length p) s = p)"

definition str_trim_start :: "string \<Rightarrow> string" where
  "str_trim_start s = bytes_str (concat (dropWhile char_is_whitespace (utf8_chars (str_bytes s))))"

definition QUOTE_CHARS :: string where
  "QUOTE_CHARS = [CHR 0x60, CHR 0x22, CHR 0x27, CHR 0x5C]"

definition is_quote_char :: "string \<Rightarrow> nat \<Rightarrow> bool" where
  "is_quote_char buffer pos = (pos < length buffer \<and> buffer ! pos \<in> set QUOTE_CHARS)"

definition quoted_tag :: "string \<Rightarrow> nat \<Rightarrow> nat \<Rightarrow> bool" where
  "quoted_tag buffer absolute_pos after_pos =
     (0 < absolute_pos \<and> is_quote_char buffer (absolute_pos - 1) \<or> is_quote_char buffer after_pos)"

text \<open>
  The three searches.  A start behind the end of the buffer, where the slice would panic, is
  not reached, as no tag is empty; the definitions answer \<open>None\<close> there.
\<close>

function find_real_tag_from :: "string \<Rightarrow> string \<Rightarrow> bool \<Rightarrow> nat \<Rightarrow> nat option" where
  "find_real_tag_from buffer tag require_double_newline_after search_start =
     (if length buffer < search_start then None
      else
        (case str_find tag (drop search_start buffer) of
           None \<Rightarrow> None
         | Some pos \<Rightarrow>
             (let absolute_pos = search_start + pos; after_pos = absolute_pos + length tag;
                  after_content = drop after_pos buffer in
              if quoted_tag buffer absolute_pos after_pos
              then find_real_tag_from buffer tag require_double_newline_after (absolute_pos + 1)
              else if require_double_newline_after then
                (if length after_content < 2 then None
                 else if \<not> str_starts_with after_content (newline @ newline)
                 then find_real_tag_from buffer tag require_double_newline_after (absolute_pos + 1)
                 else Some absolute_pos)
              else Some absolute_pos)))"
  by pat_completeness auto
termination
  by (relation "measure (\<lambda>(buffer, tag, req, start). Suc (length buffer) - start)") auto

definition find_real_thinking_start_tag :: "string \<Rightarrow> nat option" where
  "find_real_thinking_start_tag buffer = find_real_tag_from buffer THINKING_START_TAG False 0"

function find_end_tag_from :: "string \<Rightarrow> nat \<Rightarrow> nat option" where
  "find_end_tag_from buffer search_start =
     (if length buffer < search_start then None
      else
        (case str_find THINKING_END_TAG (drop search_start buffer) of
           None \<Rightarrow> None
         | Some pos \<Rightarrow>
             (let absolute_pos = search_start + pos;
                  after_pos = absolute_pos + length THINKING_END_TAG;
                  after_content = drop after_pos buffer in
              if quoted_tag buffer absolute_pos after_pos then find_end_tag_from buffer (absolute_pos + 1)
              else if length after_content < 2 then None
              else if str_starts_with after_content (newline @ newline) then Some absolute_pos
              else find_end_tag_from buffer (absolute_pos + 1))))"
  by pat_completeness auto
termination
  by (relation "measure (\<lambda>(buffer, start). Suc (length buffer) - start)") auto

definition find_real_thinking_end_tag :: "string \<Rightarrow> nat option" where
  "find_real_thinking_end_tag buffer = find_end_tag_from buffer 0"

function find_last_end_tag_from :: "string \<Rightarrow> nat \<Rightarrow> nat option" where
  "find_last_end_tag_from buffer search_start =
     (if length buffer < search_start then None
      else
        (case str_find THINKING_END_TAG (drop search_start buffer) of
           None \<Rightarrow> None
         | Some pos \<Rightarrow>
             (let absolute_pos = search_start + pos;
                  after_pos = absolute_pos + length THINKING_END_TAG in
              if quoted_tag buffer absolute_pos after_pos then find_last_end_tag_from buffer (absolute_pos + 1)
              else if str_trim (drop after_pos buffer) = [] then Some absolute_pos
              else find_last_end_tag_from buffer (absolute_pos + 1))))"
  by pat_completeness auto
termination
  by (relation "measure (\<lambda>(buffer, start). Suc (length buffer) - start)") auto

definition find_real_thinking_end_tag_at_buffer_end :: "string \<Rightarrow> nat option" where
  "find_real_thinking_end_tag_at_buffer_end buffer = find_last_end_tag_from buffer 0"

declare find_real_tag_from.simps [simp del] find_end_tag_from.simps [simp del]
  find_last_end_tag_from.simps [simp del]

section \<open>Division of a text\<close>

datatype inline_thinking_block =
    InlineThinking string
  | InlineText string

definition split_inline_thinking_content :: "string \<Rightarrow> bool \<Rightarrow> inline_thinking_block list" where
  "split_inline_thinking_content content thinking_enabled =
     (if content = [] then []
      else if \<not> thinking_enabled then [InlineText content]
      else
        (case find_real_thinking_start_tag content of
           None \<Rightarrow> [InlineText content]
         | Some start_pos \<Rightarrow>
             (let before = take start_pos content;
                  blocks = (if str_trim before \<noteq> [] then [InlineText before] else []);
                  rest = drop (start_pos + length THINKING_START_TAG) content;
                  remaining = (if str_starts_with rest newline then drop 1 rest else rest);
                  end_found = (case find_real_thinking_end_tag remaining of
                                 Some end_pos \<Rightarrow> Some end_pos
                               | None \<Rightarrow> find_real_thinking_end_tag_at_buffer_end remaining) in
              case end_found of
                None \<Rightarrow> [InlineText content]
              | Some end_pos \<Rightarrow>
                  (let after_tag = drop (end_pos + length THINKING_END_TAG) remaining;
                       after_thinking = unwrap_or (strip_prefix (newline @ newline) after_tag) after_tag in
                   blocks @ [InlineThinking (take end_pos remaining)]
                     @ (if after_thinking \<noteq> [] then [InlineText after_thinking] else [])))))"

definition strip_inline_thinking_content :: "string \<Rightarrow> string" where
  "strip_inline_thinking_content content =
     concat (List.map_filter (\<lambda>block. case block of InlineText text \<Rightarrow> Some text | InlineThinking _ \<Rightarrow> None)
       (split_inline_thinking_content content True))"

section \<open>Where a tag is found\<close>

lemma find_end_tag_from_bound:
  "find_end_tag_from buffer start = Some n
    \<Longrightarrow> start \<le> n \<and> n + length THINKING_END_TAG + 2 \<le> length buffer"
proof (induction buffer start rule: find_end_tag_from.induct)
  case (1 buffer start)
  obtain pos where le: "\<not> length buffer < start"
    and pos: "str_find THINKING_END_TAG (drop start buffer) = Some pos"
    using 1(3) by (subst (asm) find_end_tag_from.simps) (auto split: if_splits option.splits)
  show ?case
    using 1(3) le pos str_find_bound[OF pos] 1(1)[OF le pos refl refl refl] 1(2)[OF le pos refl refl refl]
    by (subst (asm) find_end_tag_from.simps) (auto simp: Let_def split: if_splits)
qed

lemma find_real_tag_from_bound:
  "find_real_tag_from buffer tag req start = Some n \<Longrightarrow> start \<le> n \<and> n + length tag \<le> length buffer"
proof (induction buffer tag req start rule: find_real_tag_from.induct)
  case (1 buffer tag req start)
  obtain pos where le: "\<not> length buffer < start" and pos: "str_find tag (drop start buffer) = Some pos"
    using 1(3) by (subst (asm) find_real_tag_from.simps) (auto split: if_splits option.splits)
  show ?case
    using 1(3) le pos str_find_bound[OF pos] 1(1)[OF le pos refl refl refl] 1(2)[OF le pos refl refl refl]
    by (subst (asm) find_real_tag_from.simps) (auto simp: Let_def split: if_splits)
qed

end
