(* ===== verification/KiroModels.thy ===== *)
theory KiroModels
  imports PromptSafety
begin

text \<open>
  Model names: \<open>crates/llm-access-kiro/src/anthropic/converter/model.rs\<close>, the identity a
  response may be given (\<open>ResponseModelIdentity\<close> in \<open>converter/mod.rs\<close>), and the display name
  of a model in \<open>stream/context.rs\<close>.  The Unicode tables behind \<open>str::to_lowercase\<close> are the
  argument \<open>to_lowercase\<close>.
\<close>

definition SONNET_5_EFFORTS :: "string list" where
  "SONNET_5_EFFORTS = [''low'', ''medium'', ''high'', ''xhigh'', ''max'']"

definition is_sonnet_5_public_model :: "string \<Rightarrow> bool" where
  "is_sonnet_5_public_model model =
     (model = ''claude-sonnet-5''
      \<or> model = ''claude-sonnet-5-thinking''
      \<or> (case strip_prefix ''claude-sonnet-5-'' model of
           Some suffix \<Rightarrow> suffix \<in> set SONNET_5_EFFORTS | None \<Rightarrow> False)
      \<or> (case strip_prefix ''claude-sonnet-5-thinking-'' model of
           Some suffix \<Rightarrow> suffix \<in> set SONNET_5_EFFORTS | None \<Rightarrow> False))"

definition map_model :: "(string \<Rightarrow> string) \<Rightarrow> string \<Rightarrow> string option" where
  "map_model to_lowercase name =
     (let model = to_lowercase name;
          normalized = map (\<lambda>c. if c = CHR ''.'' then CHR ''-'' else c) model in
      if is_sonnet_5_public_model normalized then Some ''claude-sonnet-5''
      else if str_contains model ''sonnet'' then
        (if str_contains model ''4-6'' \<or> str_contains model ''4.6'' then Some ''claude-sonnet-4.6''
         else Some ''claude-sonnet-4.5'')
      else if str_contains model ''opus'' then
        (if str_contains model ''4-8'' \<or> str_contains model ''4.8'' then Some ''claude-opus-4.8''
         else if str_contains model ''4-7'' \<or> str_contains model ''4.7'' then Some ''claude-opus-4.7''
         else if str_contains model ''4-5'' \<or> str_contains model ''4.5'' then Some ''claude-opus-4.5''
         else Some ''claude-opus-4.6'')
      else if str_contains model ''haiku'' then Some ''claude-haiku-4.5''
      else None)"

definition get_context_window_size :: "(string \<Rightarrow> string) \<Rightarrow> string \<Rightarrow> int" where
  "get_context_window_size to_lowercase model =
     (case map_model to_lowercase model of
        Some mapped \<Rightarrow>
          (if mapped \<in> {''claude-sonnet-5'', ''claude-sonnet-4.6'', ''claude-opus-4.6'',
                       ''claude-opus-4.7'', ''claude-opus-4.8''}
           then 1000000 else 200000)
      | None \<Rightarrow> 200000)"

definition safe_thinking_model_name :: "string \<Rightarrow> string" where
  "safe_thinking_model_name model =
     (let name = unwrap_or (strip_suffix ''-thinking'' model) model in
      if name = ''claude-opus-4-8'' then ''Claude Opus 4.8''
      else if name = ''claude-opus-4-7'' then ''Claude Opus 4.7''
      else if name = ''claude-opus-4-6'' then ''Claude Opus 4.6''
      else if name = ''claude-opus-4-5-20251101'' then ''Claude Opus 4.5''
      else if name = ''claude-sonnet-4-6'' then ''Claude Sonnet 4.6''
      else if name = ''claude-sonnet-4-5-20250929'' then ''Claude Sonnet 4.5''
      else if name = ''claude-haiku-4-5-20251001'' then ''Claude Haiku 4.5''
      else ''Claude'')"

section \<open>The identity of a response\<close>

datatype response_identity_kind = ModelOnly

datatype response_identity_platform = ClaudeCode | ClaudeAgentSdk

datatype response_identity_language = Chinese | English

record response_model_identity =
  rmi_model_name :: string
  rmi_model_short_name :: string
  rmi_model_id :: string
  rmi_kind :: response_identity_kind
  rmi_platform :: response_identity_platform
  rmi_thinking_language :: response_identity_language
  rmi_repo_name_hint :: "string option"

definition MODEL_ONLY_IDENTITY_THINKING_ZH :: string where
  "MODEL_ONLY_IDENTITY_THINKING_ZH =
     '' The user is asking me to identify myself in Chinese, and they want an honest answer. '' @
     ''I will respond directly and truthfully about who I am.''"

definition MODEL_ONLY_IDENTITY_THINKING_EN :: string where
  "MODEL_ONLY_IDENTITY_THINKING_EN =
     '' The user is asking me to identify myself, and they want an honest answer. '' @
     ''I will respond directly and truthfully about who I am.''"

definition model_only_response :: "response_model_identity \<Rightarrow> string" where
  "model_only_response identity =
     (case rmi_thinking_language identity of
        Chinese \<Rightarrow>
          unicode [0x6211, 0x662F] @ '' '' @ rmi_model_name identity @
          unicode [0xFF0C, 0x7531] @ '' Anthropic '' @
          unicode [0x5F00, 0x53D1, 0x3002, 0x6A21, 0x578B] @ '' ID'' @ unicode [0xFF1A] @
          rmi_model_id identity @ unicode [0x3002]
      | English \<Rightarrow>
          ''I am '' @ rmi_model_name identity @ '', developed by Anthropic. Model ID: '' @
          rmi_model_id identity @ ''.'')"

definition canonical_response :: "response_model_identity \<Rightarrow> string" where
  "canonical_response identity = (case rmi_kind identity of ModelOnly \<Rightarrow> model_only_response identity)"

definition canonical_thinking :: "response_model_identity \<Rightarrow> string" where
  "canonical_thinking identity =
     (case rmi_kind identity of
        ModelOnly \<Rightarrow>
          (case rmi_thinking_language identity of
             Chinese \<Rightarrow> MODEL_ONLY_IDENTITY_THINKING_ZH
           | English \<Rightarrow> MODEL_ONLY_IDENTITY_THINKING_EN))"

lemma canonical_response_nonempty: "canonical_response identity \<noteq> []"
  by (cases "rmi_kind identity"; cases "rmi_thinking_language identity")
    (simp_all add: canonical_response_def model_only_response_def)

end
