(* ===== verification/KiroEvents.thy ===== *)
theory KiroEvents
  imports EventStreamDecoder
begin

text \<open>
  The events of Kiro's response stream, the second half of
  \<open>crates/llm-access-kiro/src/wire.rs\<close>: which payload a frame carries, and what an event of
  each type holds.  The JSON decoding of a payload (\<open>serde\<close>) is the argument \<open>payload_codec\<close>;
  \<open>f64\<close> is a type parameter.
\<close>

datatype event_type =
    AssistantResponseType
  | ReasoningContentType
  | ToolUseType
  | MeteringType
  | ContextUsageType
  | UnknownType

definition from_wire_name :: "string \<Rightarrow> event_type" where
  "from_wire_name value =
     (if value = ''assistantResponseEvent'' then AssistantResponseType
      else if value = ''reasoningContentEvent'' then ReasoningContentType
      else if value = ''toolUseEvent'' then ToolUseType
      else if value = ''meteringEvent'' then MeteringType
      else if value = ''contextUsageEvent'' then ContextUsageType
      else UnknownType)"

record assistant_response_event =
  are_content :: string

record reasoning_content_event =
  rce_text :: "string option"
  rce_signature :: "string option"

record tool_use_event =
  tue_name :: string
  tue_tool_use_id :: string
  tue_input :: string
  tue_stop :: bool

record 'f metering_event =
  me_unit :: "string option"
  me_usage :: "'f option"

record 'f context_usage_event =
  cue_context_usage_percentage :: 'f

definition credit_usage :: "'f metering_event \<Rightarrow> 'f option" where
  "credit_usage m = (if me_unit m = Some ''credit'' then me_usage m else None)"

datatype 'f kiro_event =
    AssistantResponse assistant_response_event
  | ReasoningContent reasoning_content_event
  | ToolUse tool_use_event
  | Metering "'f metering_event"
  | ContextUsage "'f context_usage_event"
  | Unknown
  | ErrorEvent string string
  | ExceptionEvent string string

text \<open>\<open>serde_json::from_slice\<close> at each payload type, with the text of its error.\<close>

record 'f payload_codec =
  decode_assistant_response :: "byte list \<Rightarrow> string + assistant_response_event"
  decode_reasoning_content :: "byte list \<Rightarrow> string + reasoning_content_event"
  decode_tool_use :: "byte list \<Rightarrow> string + tool_use_event"
  decode_metering :: "byte list \<Rightarrow> string + 'f metering_event"
  decode_context_usage :: "byte list \<Rightarrow> string + 'f context_usage_event"

definition payload_as_json :: "(byte list \<Rightarrow> string + 'a) \<Rightarrow> frame \<Rightarrow> parse_error + 'a" where
  "payload_as_json from_slice f =
     (case from_slice (frame_payload f) of Inl err \<Rightarrow> Inl (PayloadDeserialize err) | Inr value \<Rightarrow> Inr value)"

definition parse_event :: "'f payload_codec \<Rightarrow> frame \<Rightarrow> parse_error + 'f kiro_event" where
  "parse_event codec f =
     (case from_wire_name (unwrap_or (frame_event_type f) ''unknown'') of
        AssistantResponseType \<Rightarrow> map_sum id AssistantResponse (payload_as_json (decode_assistant_response codec) f)
      | ReasoningContentType \<Rightarrow> map_sum id ReasoningContent (payload_as_json (decode_reasoning_content codec) f)
      | ToolUseType \<Rightarrow> map_sum id ToolUse (payload_as_json (decode_tool_use codec) f)
      | MeteringType \<Rightarrow> map_sum id Metering (payload_as_json (decode_metering codec) f)
      | ContextUsageType \<Rightarrow> map_sum id ContextUsage (payload_as_json (decode_context_usage codec) f)
      | UnknownType \<Rightarrow> Inr Unknown)"

definition parse_error_event :: "frame \<Rightarrow> parse_error + 'f kiro_event" where
  "parse_error_event f =
     Inr (ErrorEvent (unwrap_or (headers_error_code (frame_headers f)) ''UnknownError'')
            (frame_payload_as_str f))"

definition parse_exception_event :: "frame \<Rightarrow> parse_error + 'f kiro_event" where
  "parse_exception_event f =
     Inr (ExceptionEvent (unwrap_or (headers_exception_type (frame_headers f)) ''UnknownException'')
            (frame_payload_as_str f))"

definition from_frame :: "'f payload_codec \<Rightarrow> frame \<Rightarrow> parse_error + 'f kiro_event" where
  "from_frame codec f =
     (let message_type = unwrap_or (frame_message_type f) ''event'' in
      if message_type = ''event'' then parse_event codec f
      else if message_type = ''error'' then parse_error_event f
      else if message_type = ''exception'' then parse_exception_event f
      else Inl (InvalidMessageType message_type))"

end
