(* ===== verification/ThinkingSignature.thy ===== *)
theory ThinkingSignature
  imports Utf8
begin

text \<open>
  Signatures of thinking blocks, \<open>crates/llm-access-kiro/src/anthropic/stream/signature.rs\<close>: a
  protobuf envelope of bytes derived from the model, the thinking text and, in the protected
  form, a key and a secret, and its verification.  SHA-512 and Base64 are library code
  (\<open>signature_ops\<close>); HMAC is the code of the source.
\<close>

unbundle bit_operations_syntax

record signature_ops =
  sg_sha512 :: "byte list \<Rightarrow> byte list"
  sg_base64 :: "byte list \<Rightarrow> string"

record thinking_signature_context =
  tsc_key_id :: string
  tsc_secret :: string

definition THINKING_SIGNATURE_DOMAIN :: "byte list" where
  "THINKING_SIGNATURE_DOMAIN =
     str_bytes ''staticflow-kiro-anthropic-thinking-signature-anthropic-shape-v6'' @ [0]"

definition PROTECTED_THINKING_SIGNATURE_DOMAIN :: "byte list" where
  "PROTECTED_THINKING_SIGNATURE_DOMAIN =
     str_bytes ''staticflow-kiro-anthropic-protected-thinking-signature-v1'' @ [0]"

definition SHA512_BLOCK_LEN :: nat where "SHA512_BLOCK_LEN = 128"
definition SHA512_OUTPUT_LEN :: nat where "SHA512_OUTPUT_LEN = 64"
definition THINKING_SIGNATURE_HEADER_KIND :: nat where "THINKING_SIGNATURE_HEADER_KIND = 14"
definition THINKING_SIGNATURE_HEADER_MODE :: nat where "THINKING_SIGNATURE_HEADER_MODE = 2"
definition THINKING_SIGNATURE_HEADER_BODY_LEN :: nat where "THINKING_SIGNATURE_HEADER_BODY_LEN = 64"
definition THINKING_SIGNATURE_HEADER_TRACE_LEN :: nat where "THINKING_SIGNATURE_HEADER_TRACE_LEN = 8"
definition THINKING_SIGNATURE_HEADER_NONCE_LEN :: nat where "THINKING_SIGNATURE_HEADER_NONCE_LEN = 12"
definition THINKING_SIGNATURE_HEADER_PROOF_LEN :: nat where "THINKING_SIGNATURE_HEADER_PROOF_LEN = 48"
definition THINKING_SIGNATURE_BODY_SHORT_LEN :: nat where "THINKING_SIGNATURE_BODY_SHORT_LEN = 140"
definition THINKING_SIGNATURE_BODY_LONG_LEN :: nat where "THINKING_SIGNATURE_BODY_LONG_LEN = 425"
definition THINKING_SIGNATURE_BODY_LONG_THRESHOLD :: nat where "THINKING_SIGNATURE_BODY_LONG_THRESHOLD = 192"
definition LEGACY_THINKING_SIGNATURE_HEADER_KIND :: nat where "LEGACY_THINKING_SIGNATURE_HEADER_KIND = 12"
definition LEGACY_THINKING_SIGNATURE_BODY_MIN_LEN :: nat where "LEGACY_THINKING_SIGNATURE_BODY_MIN_LEN = 619"
definition LEGACY_THINKING_SIGNATURE_BODY_MAX_LEN :: nat where "LEGACY_THINKING_SIGNATURE_BODY_MAX_LEN = 8192"

section \<open>Protobuf fields\<close>

text \<open>A \<open>u64\<close> is a natural number; a field number is shifted by the three bits of its wire type.\<close>

fun encode_proto_varint :: "nat \<Rightarrow> byte list" where
  "encode_proto_varint v =
     (if v < 128 then [word_of_nat v]
      else word_of_nat (v mod 128 + 128) # encode_proto_varint (v div 128))"

declare encode_proto_varint.simps [simp del]

definition encode_proto_key :: "nat \<Rightarrow> nat \<Rightarrow> byte list" where
  "encode_proto_key field_number wire_type = encode_proto_varint (field_number * 8 + wire_type)"

fun proto_varint_len :: "nat \<Rightarrow> nat" where
  "proto_varint_len v = (if 128 \<le> v then Suc (proto_varint_len (v div 128)) else 1)"

declare proto_varint_len.simps [simp del]

definition proto_bytes_field_encoded_len :: "nat \<Rightarrow> nat \<Rightarrow> nat" where
  "proto_bytes_field_encoded_len field_number content_len =
     proto_varint_len (field_number * 8 + 2) + proto_varint_len content_len + content_len"

definition encode_proto_varint_field :: "nat \<Rightarrow> nat \<Rightarrow> byte list" where
  "encode_proto_varint_field field_number v = encode_proto_key field_number 0 @ encode_proto_varint v"

definition encode_proto_bytes_field :: "nat \<Rightarrow> byte list \<Rightarrow> byte list" where
  "encode_proto_bytes_field field_number v =
     encode_proto_key field_number 2 @ encode_proto_varint (length v) @ v"

section \<open>Derived bytes\<close>

text \<open>
  The loop that appends digests until there are enough bytes.  A digest has 64 bytes, so
  the fuel \<open>len\<close> of its callers is enough.
\<close>

fun derive_loop :: "(u32 \<Rightarrow> byte list) \<Rightarrow> nat \<Rightarrow> nat \<Rightarrow> u32 \<Rightarrow> byte list \<Rightarrow> byte list" where
  "derive_loop digest 0 len counter out = out"
| "derive_loop digest (Suc fuel) len counter out =
     (if length out < len then derive_loop digest fuel len (counter + 1) (out @ digest counter) else out)"

definition counter_bytes :: "u32 \<Rightarrow> byte list" where
  "counter_bytes counter = le_bytes 4 (unat counter)"

definition derive_deterministic_signature_bytes ::
  "signature_ops \<Rightarrow> string \<Rightarrow> string \<Rightarrow> byte list \<Rightarrow> nat \<Rightarrow> byte list" where
  "derive_deterministic_signature_bytes ops model thinking label len =
     take len (derive_loop
       (\<lambda>counter. sg_sha512 ops
          (THINKING_SIGNATURE_DOMAIN @ label @ [0] @ str_bytes model @ [0] @ str_bytes thinking
             @ counter_bytes counter))
       len len 0 [])"

definition hmac_sha512 :: "signature_ops \<Rightarrow> byte list \<Rightarrow> byte list list \<Rightarrow> byte list" where
  "hmac_sha512 ops secret chunks =
     (let key = (if SHA512_BLOCK_LEN < length secret then sg_sha512 ops secret else secret);
          key_block = key @ replicate (SHA512_BLOCK_LEN - length key) 0;
          inner_pad = map (\<lambda>k. 0x36 XOR k) key_block;
          outer_pad = map (\<lambda>k. 0x5c XOR k) key_block;
          inner_hash = sg_sha512 ops (inner_pad @ concat chunks) in
      sg_sha512 ops (outer_pad @ inner_hash))"

definition protected_chunks ::
  "string \<Rightarrow> string \<Rightarrow> string \<Rightarrow> byte list \<Rightarrow> u32 \<Rightarrow> byte list list" where
  "protected_chunks model thinking key_id label counter =
     [PROTECTED_THINKING_SIGNATURE_DOMAIN, label, [0], str_bytes key_id, [0], str_bytes model, [0],
      str_bytes thinking, counter_bytes counter]"

definition derive_protected_signature_bytes ::
  "signature_ops \<Rightarrow> string \<Rightarrow> string \<Rightarrow> string \<Rightarrow> string \<Rightarrow> byte list \<Rightarrow> nat \<Rightarrow> byte list" where
  "derive_protected_signature_bytes ops model thinking key_id secret label len =
     take len (derive_loop
       (\<lambda>counter. hmac_sha512 ops (str_bytes secret) (protected_chunks model thinking key_id label counter))
       len len 0 [])"

section \<open>The envelope\<close>

record signature_envelope_shape =
  ses_header_kind :: nat
  ses_header_trace_len :: "nat option"
  ses_body_target_len :: "string \<Rightarrow> nat"

definition signature_body_target_len :: "string \<Rightarrow> nat" where
  "signature_body_target_len thinking =
     (if length thinking \<le> THINKING_SIGNATURE_BODY_LONG_THRESHOLD
      then THINKING_SIGNATURE_BODY_SHORT_LEN else THINKING_SIGNATURE_BODY_LONG_LEN)"

definition legacy_signature_body_target_len :: "string \<Rightarrow> nat" where
  "legacy_signature_body_target_len thinking =
     max LEGACY_THINKING_SIGNATURE_BODY_MIN_LEN
       (min LEGACY_THINKING_SIGNATURE_BODY_MAX_LEN (length thinking))"

definition CURRENT_SIGNATURE_ENVELOPE_SHAPE :: signature_envelope_shape where
  "CURRENT_SIGNATURE_ENVELOPE_SHAPE =
     \<lparr>ses_header_kind = THINKING_SIGNATURE_HEADER_KIND,
      ses_header_trace_len = Some THINKING_SIGNATURE_HEADER_TRACE_LEN,
      ses_body_target_len = signature_body_target_len\<rparr>"

definition LEGACY_SIGNATURE_ENVELOPE_SHAPE :: signature_envelope_shape where
  "LEGACY_SIGNATURE_ENVELOPE_SHAPE =
     \<lparr>ses_header_kind = LEGACY_THINKING_SIGNATURE_HEADER_KIND, ses_header_trace_len = None,
      ses_body_target_len = legacy_signature_body_target_len\<rparr>"

text \<open>
  The header, the payload and its length as the source computes it (\<open>fixed_payload_len\<close>),
  which a debug build compares with the bytes written.
\<close>

definition signature_header ::
  "signature_envelope_shape \<Rightarrow> string \<Rightarrow> string \<Rightarrow> (byte list \<Rightarrow> nat \<Rightarrow> byte list) \<Rightarrow> byte list" where
  "signature_header shape model thinking derive =
     encode_proto_varint_field 1 (ses_header_kind shape)
     @ encode_proto_varint_field 3 THINKING_SIGNATURE_HEADER_MODE
     @ encode_proto_bytes_field 5 (derive (str_bytes ''header-body'') THINKING_SIGNATURE_HEADER_BODY_LEN)
     @ encode_proto_bytes_field 6 (str_bytes model)
     @ encode_proto_varint_field 7 0
     @ (case ses_header_trace_len shape of
          Some header_trace_len \<Rightarrow>
            encode_proto_bytes_field 8 (derive (str_bytes ''header-trace'') header_trace_len)
        | None \<Rightarrow> [])"

definition signature_payload ::
  "signature_envelope_shape \<Rightarrow> string \<Rightarrow> string \<Rightarrow> (byte list \<Rightarrow> nat \<Rightarrow> byte list) \<Rightarrow> byte list" where
  "signature_payload shape model thinking derive =
     encode_proto_bytes_field 1 (signature_header shape model thinking derive)
     @ encode_proto_bytes_field 2 (derive (str_bytes ''field-2'') THINKING_SIGNATURE_HEADER_NONCE_LEN)
     @ encode_proto_bytes_field 3 (derive (str_bytes ''field-3'') THINKING_SIGNATURE_HEADER_NONCE_LEN)
     @ encode_proto_bytes_field 4 (derive (str_bytes ''field-4'') THINKING_SIGNATURE_HEADER_PROOF_LEN)
     @ encode_proto_bytes_field 5 (derive (str_bytes ''field-5'') (ses_body_target_len shape thinking))"

definition fixed_payload_len ::
  "signature_envelope_shape \<Rightarrow> string \<Rightarrow> string \<Rightarrow> (byte list \<Rightarrow> nat \<Rightarrow> byte list) \<Rightarrow> nat" where
  "fixed_payload_len shape model thinking derive =
     proto_bytes_field_encoded_len 1 (length (signature_header shape model thinking derive))
     + proto_bytes_field_encoded_len 2 (length (derive (str_bytes ''field-2'') THINKING_SIGNATURE_HEADER_NONCE_LEN))
     + proto_bytes_field_encoded_len 3 (length (derive (str_bytes ''field-3'') THINKING_SIGNATURE_HEADER_NONCE_LEN))
     + proto_bytes_field_encoded_len 4 (length (derive (str_bytes ''field-4'') THINKING_SIGNATURE_HEADER_PROOF_LEN))
     + proto_bytes_field_encoded_len 5 (length (derive (str_bytes ''field-5'') (ses_body_target_len shape thinking)))"

definition build_signature_envelope_with_shape ::
  "signature_ops \<Rightarrow> signature_envelope_shape \<Rightarrow> string \<Rightarrow> string
     \<Rightarrow> (byte list \<Rightarrow> nat \<Rightarrow> byte list) \<Rightarrow> string" where
  "build_signature_envelope_with_shape ops shape model thinking derive =
     sg_base64 ops
       (encode_proto_bytes_field 2 (signature_payload shape model thinking derive)
        @ encode_proto_varint_field 3 1)"

definition build_signature_envelope ::
  "signature_ops \<Rightarrow> string \<Rightarrow> string \<Rightarrow> (byte list \<Rightarrow> nat \<Rightarrow> byte list) \<Rightarrow> string" where
  "build_signature_envelope ops model thinking derive =
     build_signature_envelope_with_shape ops CURRENT_SIGNATURE_ENVELOPE_SHAPE model thinking derive"

definition synthetic_thinking_signature :: "signature_ops \<Rightarrow> string \<Rightarrow> string \<Rightarrow> string" where
  "synthetic_thinking_signature ops model thinking =
     build_signature_envelope ops model thinking (derive_deterministic_signature_bytes ops model thinking)"

definition protected_thinking_signature ::
  "signature_ops \<Rightarrow> string \<Rightarrow> string \<Rightarrow> string \<Rightarrow> string \<Rightarrow> string" where
  "protected_thinking_signature ops model thinking key_id secret =
     build_signature_envelope ops model thinking
       (derive_protected_signature_bytes ops model thinking key_id secret)"

definition legacy_protected_thinking_signature ::
  "signature_ops \<Rightarrow> string \<Rightarrow> string \<Rightarrow> string \<Rightarrow> string \<Rightarrow> string" where
  "legacy_protected_thinking_signature ops model thinking key_id secret =
     build_signature_envelope_with_shape ops LEGACY_SIGNATURE_ENVELOPE_SHAPE model thinking
       (derive_protected_signature_bytes ops model thinking key_id secret)"

definition context_signature :: "signature_ops \<Rightarrow> thinking_signature_context \<Rightarrow> string \<Rightarrow> string \<Rightarrow> string" where
  "context_signature ops ctx model thinking =
     protected_thinking_signature ops model thinking (tsc_key_id ctx) (tsc_secret ctx)"

section \<open>Verification\<close>

definition constant_time_eq :: "byte list \<Rightarrow> byte list \<Rightarrow> bool" where
  "constant_time_eq left right =
     (if length left \<noteq> length right then False
      else foldl (\<lambda>diff (left_byte, right_byte). diff OR (left_byte XOR right_byte)) 0 (zip left right) = 0)"

definition verify_protected_thinking_signature ::
  "signature_ops \<Rightarrow> string \<Rightarrow> string \<Rightarrow> string \<Rightarrow> string \<Rightarrow> string \<Rightarrow> bool" where
  "verify_protected_thinking_signature ops model thinking key_id secret signature =
     (let expected = protected_thinking_signature ops model thinking key_id secret in
      if constant_time_eq (str_bytes expected) (str_bytes signature) then True
      else
        (let legacy_expected = legacy_protected_thinking_signature ops model thinking key_id secret in
         constant_time_eq (str_bytes legacy_expected) (str_bytes signature)))"

end
