(* ===== verification/StreamContext.thy ===== *)
theory StreamContext
  imports SseEvents InlineThinking PromptSafety KiroModels KiroEvents ThinkingSignature Projection
begin

text \<open>
  The translation of Kiro's events to Anthropic's server-sent events,
  \<open>crates/llm-access-kiro/src/anthropic/stream/context.rs\<close>.  A method that changes the context
  and returns events is an \<open>emitter\<close>; \<open>emit_seq\<close> runs emitters one after the other and
  concatenates their events, which is \<open>events.extend(..)\<close>.

  Library code and the arithmetic of \<open>f64\<close> (a type parameter) are the fields of \<open>stream_ops\<close>:
  the JSON parser and printer, the hash functions, the Unicode tables and the order in which
  the map of blocks is iterated.  Logging is left out.
\<close>

section \<open>The context\<close>

record 'f stream_ops =
  st_block_order :: block_order
  st_parse_json :: "string \<Rightarrow> json option"
  st_render_json :: "json \<Rightarrow> string"
  st_to_lowercase :: "string \<Rightarrow> string"
  st_signature :: signature_ops
  st_context_tokens :: "'f \<Rightarrow> int \<Rightarrow> int" \<comment> \<open>\<open>(percentage * window as f64 / 100.0) as i32\<close>\<close>
  st_at_least_100 :: "'f \<Rightarrow> bool"
  st_f64_zero :: 'f
  st_f64_add :: "'f \<Rightarrow> 'f \<Rightarrow> 'f"
  st_f64_max :: "'f \<Rightarrow> 'f \<Rightarrow> 'f"

record tool_use_accumulator =
  ta_start_order :: nat
  ta_name :: string
  ta_input_buffer :: string

record 'f stream_context =
  sc_state_manager :: sse_state_manager
  sc_model :: string
  sc_message_id :: string
  sc_input_tokens :: int
  sc_context_input_tokens :: "int option"
  sc_context_usage_min_request_tokens :: nat
  sc_output_tokens :: int
  sc_credit_usage :: 'f
  sc_credit_usage_observed :: bool
  sc_tool_block_indices :: "(string \<times> int) list"
  sc_tool_name_map :: "(string \<times> string) list"
  sc_assistant_content :: string
  sc_tool_use_accumulators :: "(string \<times> tool_use_accumulator) list"
  sc_completed_tool_uses :: "(nat \<times> tool_use_entry) list"
  sc_next_tool_use_order :: nat
  sc_structured_output_tool_name :: "string option"
  sc_structured_output_text_buffer :: string
  sc_structured_output_json_buffers :: "(string \<times> string) list"
  sc_structured_output_emitted :: bool
  sc_thinking_enabled :: bool
  sc_thinking_buffer :: string
  sc_in_thinking_block :: bool
  sc_thinking_extracted :: bool
  sc_reasoning_content_events_observed :: bool
  sc_thinking_block_index :: "int option"
  sc_text_block_index :: "int option"
  sc_strip_thinking_leading_newline :: bool
  sc_assistant_inline_thinking_extracted :: bool
  sc_open_thinking_content :: string
  sc_completed_thinking_content :: "string option"
  sc_completed_thinking_signature :: "string option"
  sc_thinking_signature_context :: "thinking_signature_context option"
  sc_hidden_thinking_enabled :: bool
  sc_private_prompt_safety_enabled :: bool
  sc_visible_text_replaced :: bool
  sc_visible_text_scan_buffer :: string
  sc_response_identity :: "response_model_identity option"
  sc_response_identity_applied :: bool
  sc_response_identity_flushed :: bool

type_synonym 'f emitter = "'f stream_context \<Rightarrow> sse_event list \<times> 'f stream_context"

definition SYNTHETIC_THINKING_PLACEHOLDER :: string where
  "SYNTHETIC_THINKING_PLACEHOLDER = '' ''"

definition new_with_thinking ::
  "'f stream_ops \<Rightarrow> string \<Rightarrow> string \<Rightarrow> int \<Rightarrow> bool \<Rightarrow> (string \<times> string) list \<Rightarrow> string option
     \<Rightarrow> 'f stream_context" where
  "new_with_thinking ops uuid model input_tokens thinking_enabled tool_name_map structured_output_tool_name =
     \<lparr>sc_state_manager = sse_state_manager_new, sc_model = model, sc_message_id = ''msg_'' @ uuid,
      sc_input_tokens = input_tokens, sc_context_input_tokens = None,
      sc_context_usage_min_request_tokens = KIRO_CONTEXT_USAGE_MIN_REQUEST_TOKENS,
      sc_output_tokens = 0, sc_credit_usage = st_f64_zero ops, sc_credit_usage_observed = False,
      sc_tool_block_indices = [], sc_tool_name_map = tool_name_map, sc_assistant_content = [],
      sc_tool_use_accumulators = [], sc_completed_tool_uses = [], sc_next_tool_use_order = 0,
      sc_structured_output_tool_name = structured_output_tool_name,
      sc_structured_output_text_buffer = [], sc_structured_output_json_buffers = [],
      sc_structured_output_emitted = False, sc_thinking_enabled = thinking_enabled,
      sc_thinking_buffer = [], sc_in_thinking_block = False, sc_thinking_extracted = False,
      sc_reasoning_content_events_observed = False, sc_thinking_block_index = None,
      sc_text_block_index = None, sc_strip_thinking_leading_newline = False,
      sc_assistant_inline_thinking_extracted = False, sc_open_thinking_content = [],
      sc_completed_thinking_content = None, sc_completed_thinking_signature = None,
      sc_thinking_signature_context = None, sc_hidden_thinking_enabled = False,
      sc_private_prompt_safety_enabled = False, sc_visible_text_replaced = False,
      sc_visible_text_scan_buffer = [], sc_response_identity = None,
      sc_response_identity_applied = False, sc_response_identity_flushed = False\<rparr>"

definition new_with_thinking_visibility ::
  "'f stream_ops \<Rightarrow> string \<Rightarrow> string \<Rightarrow> int \<Rightarrow> bool \<Rightarrow> bool \<Rightarrow> (string \<times> string) list \<Rightarrow> string option
     \<Rightarrow> 'f stream_context" where
  "new_with_thinking_visibility ops uuid model input_tokens thinking_enabled hidden_thinking_enabled
     tool_name_map structured_output_tool_name =
     (new_with_thinking ops uuid model input_tokens thinking_enabled tool_name_map structured_output_tool_name)
       \<lparr>sc_hidden_thinking_enabled := hidden_thinking_enabled\<rparr>"

definition with_response_identity :: "response_model_identity option \<Rightarrow> 'f stream_context \<Rightarrow> 'f stream_context" where
  "with_response_identity identity s = s\<lparr>sc_response_identity := identity\<rparr>"

definition new_with_identity ::
  "'f stream_ops \<Rightarrow> string \<Rightarrow> string \<Rightarrow> int \<Rightarrow> bool \<Rightarrow> (string \<times> string) list \<Rightarrow> string option
     \<Rightarrow> response_model_identity \<Rightarrow> 'f stream_context" where
  "new_with_identity ops uuid model input_tokens thinking_enabled tool_name_map structured_output_tool_name identity =
     with_response_identity (Some identity)
       (new_with_thinking ops uuid model input_tokens thinking_enabled tool_name_map structured_output_tool_name)"

definition with_private_prompt_safety_enabled :: "bool \<Rightarrow> 'f stream_context \<Rightarrow> 'f stream_context" where
  "with_private_prompt_safety_enabled enabled s = s\<lparr>sc_private_prompt_safety_enabled := enabled\<rparr>"

definition with_context_usage_min_request_tokens :: "nat \<Rightarrow> 'f stream_context \<Rightarrow> 'f stream_context" where
  "with_context_usage_min_request_tokens threshold s = s\<lparr>sc_context_usage_min_request_tokens := threshold\<rparr>"

definition with_thinking_signature_context ::
  "thinking_signature_context option \<Rightarrow> 'f stream_context \<Rightarrow> 'f stream_context" where
  "with_thinking_signature_context ctx s = s\<lparr>sc_thinking_signature_context := ctx\<rparr>"

section \<open>Modes and results\<close>

definition structured_output_mode :: "'f stream_context \<Rightarrow> bool" where
  "structured_output_mode s = (sc_structured_output_tool_name s \<noteq> None \<and> \<not> sc_thinking_enabled s)"

definition thinking_parser_enabled :: "'f stream_context \<Rightarrow> bool" where
  "thinking_parser_enabled s = (sc_thinking_enabled s \<or> sc_hidden_thinking_enabled s)"

definition identity_response_enabled :: "'f stream_context \<Rightarrow> bool" where
  "identity_response_enabled s =
     (sc_private_prompt_safety_enabled s \<and> sc_response_identity s \<noteq> None \<and> \<not> structured_output_mode s)"

definition final_assistant_text :: "'f stream_context \<Rightarrow> string" where
  "final_assistant_text s =
     (if sc_hidden_thinking_enabled s \<or> sc_assistant_inline_thinking_extracted s
      then strip_inline_thinking_content (sc_assistant_content s)
      else sc_assistant_content s)"

definition final_usage :: "'f stream_context \<Rightarrow> int \<times> int" where
  "final_usage s =
     (fst (resolve_input_tokens_with_threshold (sc_input_tokens s) (sc_context_input_tokens s)
             (sc_context_usage_min_request_tokens s)),
      max (sc_output_tokens s) 1)"

definition final_credit_usage :: "'f stream_ops \<Rightarrow> 'f stream_context \<Rightarrow> 'f option \<times> bool" where
  "final_credit_usage ops s =
     (if sc_credit_usage_observed s
      then (Some (st_f64_max ops (sc_credit_usage s) (st_f64_zero ops)), False)
      else (None, True))"

definition identity_model_name :: "'f stream_context \<Rightarrow> string" where
  "identity_model_name s =
     (case sc_response_identity s of
        Some identity \<Rightarrow> rmi_model_name identity
      | None \<Rightarrow> safe_thinking_model_name (sc_model s))"

definition private_prompt_safe_thinking :: "'f stream_context \<Rightarrow> string" where
  "private_prompt_safe_thinking s =
     ''I will answer directly as '' @ identity_model_name s @
     '', made by Anthropic, and keep the response focused on the user's question.''"

definition private_prompt_safe_text :: "'f stream_context \<Rightarrow> string \<Rightarrow> string" where
  "private_prompt_safe_text s leaked_text =
     (if contains_cjk leaked_text then
        unicode [0x6211, 0x662F] @ '' '' @ identity_model_name s @
        unicode [0xFF0C, 0x7531] @ '' Anthropic '' @
        unicode [0x5F00, 0x53D1, 0x3002, 0x662F, 0x5426, 0x7531, 0x67D0, 0x4E2A, 0x670D, 0x52A1,
          0x8F6C, 0x53D1, 0xFF0C, 0x9700, 0x8981, 0x4EE5, 0x4F60, 0x770B, 0x5230, 0x7684, 0x8C03,
          0x7528, 0x5165, 0x53E3, 0x3001, 0x57DF, 0x540D, 0x3001, 0x5BC6, 0x94A5, 0x6765, 0x6E90,
          0x548C, 0x8D26, 0x5355, 0x4E3A, 0x51C6, 0xFF1B, 0x6211, 0x65E0, 0x6CD5, 0x4EC5, 0x4ECE,
          0x5BF9, 0x8BDD, 0x5185, 0x5BB9, 0x9A8C, 0x8BC1, 0x8DEF, 0x7531, 0x5C42, 0x3002]
      else
        ''I am '' @ identity_model_name s @ '', made by Anthropic. Whether a service is proxying '' @
        ''the request depends on the endpoint, API key source, and billing path visible to you; '' @
        ''I can't verify the routing layer from the conversation alone.'')"

definition canonical_identity_thinking :: "'f stream_context \<Rightarrow> string option" where
  "canonical_identity_thinking s = map_option canonical_thinking (sc_response_identity s)"

definition thinking_signature :: "'f stream_ops \<Rightarrow> 'f stream_context \<Rightarrow> string \<Rightarrow> string" where
  "thinking_signature ops s thinking =
     (case sc_thinking_signature_context s of
        Some ctx \<Rightarrow> context_signature (st_signature ops) ctx (sc_model s) thinking
      | None \<Rightarrow> synthetic_thinking_signature (st_signature ops) (sc_model s) thinking)"

definition canonicalize_structured_output_json :: "'f stream_ops \<Rightarrow> string \<Rightarrow> string" where
  "canonicalize_structured_output_json ops input =
     st_render_json ops
       (if input = [] then json_obj [] else unwrap_or (st_parse_json ops input) (json_obj []))"

definition apply_identity_response :: "'f stream_context \<Rightarrow> 'f stream_context" where
  "apply_identity_response s =
     (if sc_response_identity_applied s then s
      else
        (case sc_response_identity s of
           None \<Rightarrow> s
         | Some identity \<Rightarrow>
             s\<lparr>sc_assistant_content := canonical_response identity,
               sc_output_tokens := estimate_tokens (canonical_response identity),
               sc_response_identity_applied := True\<rparr>))"

definition final_assistant_message :: "'f stream_context \<Rightarrow> assistant_message" where
  "final_assistant_message s =
     (let tool_uses = map snd (sort_key fst (sc_completed_tool_uses s)) in
      \<lparr>am_content = final_assistant_text s, am_tool_uses = (if tool_uses \<noteq> [] then Some tool_uses else None)\<rparr>)"

definition thinking_content_block :: "string \<Rightarrow> string \<Rightarrow> json" where
  "thinking_content_block thinking signature =
     json_obj [(''type'', JString ''thinking''), (''thinking'', JString thinking), (''signature'', JString signature)]"

definition text_content_block :: "string \<Rightarrow> json" where
  "text_content_block text = json_obj [(''type'', JString ''text''), (''text'', JString text)]"

definition build_inline_thinking_content_blocks_with_signature_context ::
  "signature_ops \<Rightarrow> string \<Rightarrow> string \<Rightarrow> bool \<Rightarrow> thinking_signature_context option \<Rightarrow> json list" where
  "build_inline_thinking_content_blocks_with_signature_context sops content model thinking_enabled signature_context =
     concat (map (\<lambda>block.
       case block of
         InlineThinking thinking \<Rightarrow>
           [thinking_content_block thinking
              (case signature_context of
                 Some ctx \<Rightarrow> context_signature sops ctx model thinking
               | None \<Rightarrow> synthetic_thinking_signature sops model thinking)]
       | InlineText text \<Rightarrow> (if text \<noteq> [] then [text_content_block text] else []))
       (split_inline_thinking_content content thinking_enabled))"

definition final_content_blocks :: "'f stream_ops \<Rightarrow> 'f stream_context \<Rightarrow> json list" where
  "final_content_blocks ops s =
     (let assistant_content = final_assistant_text s in
      case (if sc_thinking_enabled s then sc_completed_thinking_content s else None) of
        Some thinking \<Rightarrow>
          [thinking_content_block thinking (thinking_signature ops s thinking)]
            @ (if assistant_content \<noteq> [] then [text_content_block assistant_content] else [])
      | None \<Rightarrow>
          build_inline_thinking_content_blocks_with_signature_context (st_signature ops) assistant_content
            (sc_model s) (sc_thinking_enabled s) (sc_thinking_signature_context s))"

end
