(* ===== verification/StreamTranslation.thy ===== *)
theory StreamTranslation
  imports StreamContext
begin

text \<open>
  The methods of \<open>StreamContext\<close> that emit events, from the initial events over those of each
  upstream event to the final ones, the buffered variant, and the stream that
  \<open>stream_kiro_upstream_response\<close> (\<open>crates/llm-access/src/provider/stream_guards.rs\<close>) sends.
\<close>

section \<open>Emitters\<close>

fun emit_seq :: "'f emitter list \<Rightarrow> 'f emitter" where
  "emit_seq [] s = ([], s)"
| "emit_seq (m # ms) s =
     (let (events, s) = m s; (more, s) = emit_seq ms s in (events @ more, s))"

definition emit_when :: "('f stream_context \<Rightarrow> bool) \<Rightarrow> 'f emitter \<Rightarrow> 'f emitter" where
  "emit_when c m s = (if c s then m s else ([], s))"

definition emit_update :: "('f stream_context \<Rightarrow> 'f stream_context) \<Rightarrow> 'f emitter" where
  "emit_update f s = ([], f s)"

definition on_manager :: "(sse_state_manager \<Rightarrow> sse_event list \<times> sse_state_manager) \<Rightarrow> 'f emitter" where
  "on_manager f s = (let (events, m) = f (sc_state_manager s) in (events, s\<lparr>sc_state_manager := m\<rparr>))"

definition take_block_index :: "'f stream_context \<Rightarrow> int \<times> 'f stream_context" where
  "take_block_index s =
     (let (index, m) = next_block_index (sc_state_manager s) in (index, s\<lparr>sc_state_manager := m\<rparr>))"

section \<open>Events of a block\<close>

definition block_start_json :: "int \<Rightarrow> json \<Rightarrow> json" where
  "block_start_json index content_block =
     json_obj [(''type'', JString ''content_block_start''), (''index'', json_int index),
               (''content_block'', content_block)]"

definition block_delta_json :: "int \<Rightarrow> json \<Rightarrow> json" where
  "block_delta_json index delta =
     json_obj [(''type'', JString ''content_block_delta''), (''index'', json_int index), (''delta'', delta)]"

definition text_block_json :: json where
  "text_block_json = json_obj [(''type'', JString ''text''), (''text'', JString '''')]"

definition thinking_block_json :: json where
  "thinking_block_json =
     json_obj [(''type'', JString ''thinking''), (''thinking'', JString ''''), (''signature'', JString '''')]"

definition tool_use_block_json :: "string \<Rightarrow> string \<Rightarrow> json" where
  "tool_use_block_json tool_use_id name =
     json_obj [(''type'', JString ''tool_use''), (''id'', JString tool_use_id), (''name'', JString name),
               (''input'', json_obj [])]"

definition text_delta_json :: "string \<Rightarrow> json" where
  "text_delta_json text = json_obj [(''type'', JString ''text_delta''), (''text'', JString text)]"

definition thinking_delta_json :: "string \<Rightarrow> json" where
  "thinking_delta_json thinking =
     json_obj [(''type'', JString ''thinking_delta''), (''thinking'', JString thinking)]"

definition signature_delta_json :: "string \<Rightarrow> json" where
  "signature_delta_json signature =
     json_obj [(''type'', JString ''signature_delta''), (''signature'', JString signature)]"

definition input_json_delta_json :: "string \<Rightarrow> json" where
  "input_json_delta_json partial_json =
     json_obj [(''type'', JString ''input_json_delta''), (''partial_json'', JString partial_json)]"

section \<open>Text\<close>

definition create_text_delta_events :: "'f stream_ops \<Rightarrow> string \<Rightarrow> 'f emitter" where
  "create_text_delta_events ops text s =
     (let s = (case sc_text_block_index s of
                 Some index \<Rightarrow>
                   (if is_block_open_of_type (sc_state_manager s) index ''text'' then s
                    else s\<lparr>sc_text_block_index := None\<rparr>)
               | None \<Rightarrow> s);
          (index, starts, s) =
            (case sc_text_block_index s of
               Some index \<Rightarrow> (index, [], s)
             | None \<Rightarrow>
                 (let (index, s) = take_block_index s;
                      s = s\<lparr>sc_text_block_index := Some index\<rparr>;
                      (starts, s) = on_manager (handle_content_block_start (st_block_order ops) index ''text''
                                      (block_start_json index text_block_json)) s in
                  (index, starts, s))) in
      (starts @ handle_content_block_delta index (block_delta_json index (text_delta_json text))
                  (sc_state_manager s), s))"

definition replace_leaked_text :: "string \<Rightarrow> 'f stream_context \<Rightarrow> 'f stream_context" where
  "replace_leaked_text replacement s =
     s\<lparr>sc_visible_text_replaced := True, sc_visible_text_scan_buffer := [],
       sc_assistant_content := replacement, sc_output_tokens := estimate_tokens replacement\<rparr>"

definition create_guarded_text_delta_events :: "'f stream_ops \<Rightarrow> string \<Rightarrow> 'f emitter" where
  "create_guarded_text_delta_events ops text s =
     (if text = [] \<or> sc_visible_text_replaced s then ([], s)
      else if \<not> sc_private_prompt_safety_enabled s then create_text_delta_events ops text s
      else
        (let scan_text = sc_visible_text_scan_buffer s @ text;
             s = (if sc_visible_text_scan_buffer s = [] then s else s\<lparr>sc_visible_text_scan_buffer := scan_text\<rparr>);
             normalized = normalize_private_prompt_marker_text scan_text in
         case visible_response_private_prompt_leak_match_with_normalized scan_text normalized of
           Some reason \<Rightarrow>
             (let replacement = private_prompt_safe_text s scan_text in
              create_text_delta_events ops replacement (replace_leaked_text replacement s))
         | None \<Rightarrow>
             (if should_hold_visible_text_for_private_prompt_scan normalized
              then ([], s\<lparr>sc_visible_text_scan_buffer := scan_text\<rparr>)
              else create_text_delta_events ops scan_text (s\<lparr>sc_visible_text_scan_buffer := []\<rparr>))))"

definition flush_guarded_text_delta_events :: "'f stream_ops \<Rightarrow> 'f emitter" where
  "flush_guarded_text_delta_events ops s =
     (let buffered = sc_visible_text_scan_buffer s; s' = s\<lparr>sc_visible_text_scan_buffer := []\<rparr> in
      if \<not> sc_private_prompt_safety_enabled s \<or> sc_visible_text_replaced s \<or> buffered = [] then ([], s')
      else
        (case visible_response_private_prompt_leak_match buffered of
           Some reason \<Rightarrow>
             (let replacement = private_prompt_safe_text s' buffered in
              create_text_delta_events ops replacement (replace_leaked_text replacement s'))
         | None \<Rightarrow> create_text_delta_events ops buffered s'))"

section \<open>Thinking\<close>

definition buffer_thinking_content :: "string \<Rightarrow> 'f stream_context \<Rightarrow> 'f stream_context" where
  "buffer_thinking_content thinking s =
     (if thinking \<noteq> [] then s\<lparr>sc_open_thinking_content := sc_open_thinking_content s @ thinking\<rparr> else s)"

text \<open>The start of the thinking block, which four methods repeat.\<close>

definition open_thinking_block :: "'f stream_ops \<Rightarrow> 'f emitter" where
  "open_thinking_block ops s =
     (let (index, s) = take_block_index s;
          s = s\<lparr>sc_thinking_block_index := Some index, sc_in_thinking_block := True\<rparr> in
      on_manager (handle_content_block_start (st_block_order ops) index ''thinking''
        (block_start_json index thinking_block_json)) s)"

definition create_thinking_delta_event :: "int \<Rightarrow> string \<Rightarrow> sse_event" where
  "create_thinking_delta_event index thinking =
     sse_event_new ''content_block_delta'' (block_delta_json index (thinking_delta_json thinking))"

definition finalize_open_thinking_block :: "'f stream_ops \<Rightarrow> 'f emitter" where
  "finalize_open_thinking_block ops s =
     (case sc_thinking_block_index s of
        None \<Rightarrow> ([], s)
      | Some index \<Rightarrow>
          (let buffered = sc_open_thinking_content s;
               thinking = (if sc_private_prompt_safety_enabled s \<and> private_prompt_leak_match buffered \<noteq> None
                           then private_prompt_safe_thinking s else buffered);
               signature = thinking_signature ops s thinking;
               s = s\<lparr>sc_open_thinking_content := [], sc_completed_thinking_content := Some thinking,
                     sc_completed_thinking_signature := Some signature\<rparr>;
               deltas = (if thinking \<noteq> [] then [create_thinking_delta_event index thinking] else [])
                 @ handle_content_block_delta index (block_delta_json index (signature_delta_json signature))
                     (sc_state_manager s);
               (stops, s) = on_manager (handle_content_block_stop index) s in
           (deltas @ stops, s)))"

text \<open>Leaving the thinking block: \<open>in_thinking_block\<close> is cleared before it is finalised.\<close>

definition leave_thinking_block :: "'f stream_context \<Rightarrow> 'f stream_context" where
  "leave_thinking_block s = s\<lparr>sc_in_thinking_block := False, sc_thinking_extracted := True\<rparr>"

definition end_thinking_block :: "'f stream_ops \<Rightarrow> 'f emitter" where
  "end_thinking_block ops =
     emit_seq [emit_update leave_thinking_block, emit_when sc_thinking_enabled (finalize_open_thinking_block ops)]"

definition should_synthesize_thinking_block :: "'f stream_context \<Rightarrow> bool" where
  "should_synthesize_thinking_block s =
     (sc_thinking_enabled s \<and> \<not> structured_output_mode s \<and> sc_completed_thinking_content s = None
      \<and> sc_thinking_block_index s = None \<and> \<not> sc_thinking_extracted s)"

definition synthesize_thinking_block :: "'f stream_ops \<Rightarrow> 'f emitter" where
  "synthesize_thinking_block ops =
     emit_when should_synthesize_thinking_block
       (emit_seq
         [open_thinking_block ops,
          emit_update (\<lambda>s. buffer_thinking_content
            (unwrap_or (canonical_identity_thinking s) SYNTHETIC_THINKING_PLACEHOLDER) s),
          emit_update leave_thinking_block,
          finalize_open_thinking_block ops])"

section \<open>Inline thinking\<close>

text \<open>
  The loop of \<open>process_content_with_thinking\<close>: it runs at most three times, as the thinking
  block is entered and left at most once.
\<close>

lemma emitters_keep_phase:
  "sc_in_thinking_block (snd (open_thinking_block ops s)) = True"
  "sc_in_thinking_block (snd (finalize_open_thinking_block ops s)) = sc_in_thinking_block s"
  "sc_thinking_extracted (snd (finalize_open_thinking_block ops s)) = sc_thinking_extracted s"
  by (simp_all add: open_thinking_block_def finalize_open_thinking_block_def on_manager_def take_block_index_def
      Let_def split: prod.split option.split)

definition thinking_phase :: "'f stream_context \<Rightarrow> nat" where
  "thinking_phase s = (if sc_in_thinking_block s then 1 else if sc_thinking_extracted s then 0 else 2)"

definition strip_leading_newline :: "'f stream_context \<Rightarrow> 'f stream_context" where
  "strip_leading_newline s =
     (if sc_strip_thinking_leading_newline s
      then (if str_starts_with (sc_thinking_buffer s) newline
            then s\<lparr>sc_thinking_buffer := drop 1 (sc_thinking_buffer s), sc_strip_thinking_leading_newline := False\<rparr>
            else if sc_thinking_buffer s \<noteq> [] then s\<lparr>sc_strip_thinking_leading_newline := False\<rparr>
            else s)
      else s)"

definition safe_prefix_len :: "string \<Rightarrow> string \<Rightarrow> nat" where
  "safe_prefix_len text tag = find_char_boundary text (length text - length tag)"

text \<open>The pieces of one round: entering the block, the text in front of it, leaving it.\<close>

definition enter_inline_thinking :: "'f stream_ops \<Rightarrow> nat \<Rightarrow> 'f emitter" where
  "enter_inline_thinking ops start_pos s =
     (let before = take start_pos (sc_thinking_buffer s) in
      emit_seq
        [emit_when (\<lambda>_. str_trim before \<noteq> []) (create_guarded_text_delta_events ops before),
         emit_update (\<lambda>s. s\<lparr>sc_in_thinking_block := True, sc_assistant_inline_thinking_extracted := True,
           sc_strip_thinking_leading_newline := True,
           sc_thinking_buffer := drop (start_pos + length THINKING_START_TAG) (sc_thinking_buffer s)\<rparr>),
         emit_when sc_thinking_enabled (open_thinking_block ops)] s)"

definition emit_safe_text :: "'f stream_ops \<Rightarrow> 'f emitter" where
  "emit_safe_text ops s =
     (let safe_len = safe_prefix_len (sc_thinking_buffer s) THINKING_START_TAG;
          safe = take safe_len (sc_thinking_buffer s) in
      emit_when (\<lambda>_. 0 < safe_len \<and> str_trim safe \<noteq> [])
        (emit_seq
          [emit_when sc_thinking_enabled (synthesize_thinking_block ops),
           create_guarded_text_delta_events ops safe,
           emit_update (\<lambda>s. s\<lparr>sc_thinking_buffer := drop safe_len (sc_thinking_buffer s)\<rparr>)]) s)"

definition buffer_if_enabled :: "string \<Rightarrow> 'f stream_context \<Rightarrow> 'f stream_context" where
  "buffer_if_enabled thinking s = (if sc_thinking_enabled s then buffer_thinking_content thinking s else s)"

definition leave_inline_thinking :: "'f stream_ops \<Rightarrow> nat \<Rightarrow> 'f emitter" where
  "leave_inline_thinking ops end_pos s =
     emit_seq
       [emit_update (buffer_if_enabled (take end_pos (sc_thinking_buffer s))),
        end_thinking_block ops,
        emit_update (\<lambda>s. s\<lparr>sc_thinking_buffer :=
          drop (end_pos + length THINKING_END_TAG + 2) (sc_thinking_buffer s)\<rparr>)] s"

definition buffer_safe_thinking :: "'f stream_context \<Rightarrow> 'f stream_context" where
  "buffer_safe_thinking s =
     (let safe_len = safe_prefix_len (sc_thinking_buffer s) (THINKING_END_TAG @ newline @ newline) in
      if 0 < safe_len
      then (buffer_if_enabled (take safe_len (sc_thinking_buffer s)) s)
             \<lparr>sc_thinking_buffer := drop safe_len (sc_thinking_buffer s)\<rparr>
      else s)"

definition emit_remaining_text :: "'f stream_ops \<Rightarrow> 'f emitter" where
  "emit_remaining_text ops s =
     (let remaining = sc_thinking_buffer s in
      if remaining \<noteq> [] then create_guarded_text_delta_events ops remaining (s\<lparr>sc_thinking_buffer := []\<rparr>)
      else ([], s))"

lemma phase_decreases:
  "\<not> sc_in_thinking_block s \<Longrightarrow> \<not> sc_thinking_extracted s
    \<Longrightarrow> thinking_phase (snd (enter_inline_thinking ops start_pos s)) < thinking_phase s"
  "sc_in_thinking_block s
    \<Longrightarrow> thinking_phase (snd (leave_inline_thinking ops end_pos s')) < thinking_phase s"
  by (auto simp: enter_inline_thinking_def leave_inline_thinking_def thinking_phase_def emit_update_def
      emit_when_def end_thinking_block_def leave_thinking_block_def Let_def split_beta emitters_keep_phase)

function content_loop :: "'f stream_ops \<Rightarrow> 'f emitter" where
  "content_loop ops s =
     (if \<not> sc_in_thinking_block s \<and> \<not> sc_thinking_extracted s then
        (case find_real_thinking_start_tag (sc_thinking_buffer s) of
           Some start_pos \<Rightarrow>
             (let step = enter_inline_thinking ops start_pos s; more = content_loop ops (snd step) in
              (fst step @ fst more, snd more))
         | None \<Rightarrow> emit_safe_text ops s)
      else if sc_in_thinking_block s then
        (case find_real_thinking_end_tag (sc_thinking_buffer (strip_leading_newline s)) of
           Some end_pos \<Rightarrow>
             (let step = leave_inline_thinking ops end_pos (strip_leading_newline s);
                  more = content_loop ops (snd step) in
              (fst step @ fst more, snd more))
         | None \<Rightarrow> ([], buffer_safe_thinking (strip_leading_newline s)))
      else emit_remaining_text ops s)"
  by pat_completeness auto
termination
  by (relation "measure (\<lambda>(ops, s). thinking_phase s)") (simp_all add: phase_decreases)

declare content_loop.simps [simp del]

definition process_content_with_thinking :: "'f stream_ops \<Rightarrow> string \<Rightarrow> 'f emitter" where
  "process_content_with_thinking ops content s =
     content_loop ops (s\<lparr>sc_thinking_buffer := sc_thinking_buffer s @ content\<rparr>)"

end
