(* ===== verification/StreamDriver.thy ===== *)
theory StreamDriver
  imports StreamTranslation
begin

text \<open>
  The entry points of \<open>StreamContext\<close>: its initial events, one method for each upstream event,
  its final events; \<open>BufferedStreamContext\<close>; and the body of the response that
  \<open>stream_kiro_upstream_response\<close> streams.
\<close>

section \<open>Initial events\<close>

definition create_message_start_event :: "'f stream_context \<Rightarrow> json" where
  "create_message_start_event s =
     json_obj
       [(''type'', JString ''message_start''),
        (''message'', json_obj
          [(''id'', JString (sc_message_id s)), (''type'', JString ''message''),
           (''role'', JString ''assistant''), (''content'', JArray []), (''model'', JString (sc_model s)),
           (''stop_details'', JNull), (''stop_reason'', JNull), (''stop_sequence'', JNull),
           (''usage'', anthropic_usage_json (sc_input_tokens s) 1 0)])]"

definition open_text_block :: "'f stream_ops \<Rightarrow> 'f emitter" where
  "open_text_block ops s =
     (let (index, s) = take_block_index s; s = s\<lparr>sc_text_block_index := Some index\<rparr> in
      on_manager (handle_content_block_start (st_block_order ops) index ''text''
        (block_start_json index text_block_json)) s)"

definition generate_initial_events :: "'f stream_ops \<Rightarrow> 'f emitter" where
  "generate_initial_events ops =
     emit_seq
       [\<lambda>s. on_manager (handle_message_start (create_message_start_event s)) s,
        emit_when (\<lambda>s. \<not> (sc_thinking_enabled s \<or> structured_output_mode s \<or> identity_response_enabled s))
          (open_text_block ops)]"

section \<open>Assistant text and reasoning\<close>

definition process_assistant_response :: "'f stream_ops \<Rightarrow> string \<Rightarrow> 'f emitter" where
  "process_assistant_response ops content s =
     (if content = [] then ([], s)
      else if structured_output_mode s
      then ([], s\<lparr>sc_structured_output_text_buffer := sc_structured_output_text_buffer s @ content\<rparr>)
      else if identity_response_enabled s then ([], apply_identity_response s)
      else if sc_visible_text_replaced s then ([], s)
      else
        (let s = s\<lparr>sc_assistant_content := sc_assistant_content s @ content,
                   sc_output_tokens := sc_output_tokens s + estimate_tokens content\<rparr> in
         if thinking_parser_enabled s then
           (if sc_reasoning_content_events_observed s
            then emit_seq
                   [emit_when (\<lambda>s. sc_thinking_enabled s \<and> sc_in_thinking_block s) (end_thinking_block ops),
                    create_guarded_text_delta_events ops content] s
            else process_content_with_thinking ops content s)
         else create_guarded_text_delta_events ops content s))"

text \<open>A field that is missing counts as empty: only non-empty values are used.\<close>

definition filter_nonempty :: "string option \<Rightarrow> string option" where
  "filter_nonempty v = (if v = Some [] then None else v)"

definition process_identity_reasoning_content :: "'f stream_ops \<Rightarrow> string option \<Rightarrow> 'f emitter" where
  "process_identity_reasoning_content ops signature =
     emit_seq
       [emit_update apply_identity_response,
        emit_when (\<lambda>s. sc_completed_thinking_content s = None \<and> \<not> sc_thinking_extracted s)
          (emit_seq
            [emit_when (\<lambda>s. \<not> sc_in_thinking_block s) (open_thinking_block ops),
             emit_update (\<lambda>s.
               case (if sc_open_thinking_content s = [] \<and> sc_thinking_block_index s \<noteq> None
                     then canonical_identity_thinking s else None) of
                 Some thinking \<Rightarrow>
                   buffer_thinking_content thinking
                     (s\<lparr>sc_output_tokens := sc_output_tokens s + estimate_tokens thinking\<rparr>)
               | None \<Rightarrow> s)]),
        emit_when (\<lambda>s. filter_nonempty signature \<noteq> None \<and> sc_in_thinking_block s)
          (emit_seq [emit_update leave_thinking_block, finalize_open_thinking_block ops])]"

definition buffer_reasoning_text :: "string option \<Rightarrow> 'f stream_context \<Rightarrow> 'f stream_context" where
  "buffer_reasoning_text text s =
     (case filter_nonempty text of
        Some t \<Rightarrow> buffer_thinking_content t (s\<lparr>sc_output_tokens := sc_output_tokens s + estimate_tokens t\<rparr>)
      | None \<Rightarrow> s)"

definition process_reasoning_content ::
  "'f stream_ops \<Rightarrow> string option \<Rightarrow> string option \<Rightarrow> 'f emitter" where
  "process_reasoning_content ops text signature s =
     (if \<not> thinking_parser_enabled s then ([], s)
      else
        (let s = s\<lparr>sc_reasoning_content_events_observed := True\<rparr> in
         if \<not> sc_thinking_enabled s then ([], s)
         else if identity_response_enabled s then process_identity_reasoning_content ops signature s
         else
           emit_seq
             [emit_when (\<lambda>s. \<not> sc_in_thinking_block s \<and> \<not> sc_thinking_extracted s) (open_thinking_block ops),
              emit_update (buffer_reasoning_text text),
              emit_when (\<lambda>_. filter_nonempty signature \<noteq> None)
                (emit_seq [emit_update leave_thinking_block, finalize_open_thinking_block ops])] s))"

section \<open>Tool use\<close>

definition process_structured_output :: "'f stream_ops \<Rightarrow> tool_use_event \<Rightarrow> 'f emitter" where
  "process_structured_output ops tool_use s =
     (let buffered = unwrap_or (map_of (sc_structured_output_json_buffers s) (tue_tool_use_id tool_use)) []
                     @ tue_input tool_use;
          s = s\<lparr>sc_structured_output_json_buffers :=
                 hm_insert (tue_tool_use_id tool_use) buffered (sc_structured_output_json_buffers s)\<rparr> in
      if tue_stop tool_use then
        (let json_text = canonicalize_structured_output_json ops buffered in
         create_text_delta_events ops json_text
           (s\<lparr>sc_structured_output_text_buffer := json_text, sc_assistant_content := json_text,
             sc_output_tokens := estimate_tokens json_text, sc_structured_output_emitted := True,
             sc_structured_output_json_buffers :=
               hm_remove (tue_tool_use_id tool_use) (sc_structured_output_json_buffers s)\<rparr>))
      else ([], s))"

text \<open>An inline thinking block that is closed at the end of the buffer, before a tool or the end.\<close>

definition close_buffered_thinking :: "'f stream_ops \<Rightarrow> nat \<Rightarrow> 'f emitter" where
  "close_buffered_thinking ops end_pos s =
     (let remaining = str_trim_start (drop (end_pos + length THINKING_END_TAG) (sc_thinking_buffer s)) in
      emit_seq
        [emit_update (buffer_if_enabled (take end_pos (sc_thinking_buffer s))),
         end_thinking_block ops,
         emit_update (\<lambda>s. s\<lparr>sc_thinking_buffer := []\<rparr>),
         emit_when (\<lambda>_. remaining \<noteq> []) (create_guarded_text_delta_events ops remaining)] s)"

definition close_inline_thinking :: "'f stream_ops \<Rightarrow> 'f emitter" where
  "close_inline_thinking ops s =
     (case find_real_thinking_end_tag_at_buffer_end (sc_thinking_buffer s) of
        Some end_pos \<Rightarrow> close_buffered_thinking ops end_pos s
      | None \<Rightarrow> ([], s))"

definition accumulate_tool_use :: "tool_use_event \<Rightarrow> string \<Rightarrow> 'f stream_context \<Rightarrow> 'f stream_context" where
  "accumulate_tool_use tool_use original_name s =
     (let (acc, s) =
            (case map_of (sc_tool_use_accumulators s) (tue_tool_use_id tool_use) of
               Some acc \<Rightarrow> (acc, s)
             | None \<Rightarrow>
                 (\<lparr>ta_start_order = sc_next_tool_use_order s, ta_name = original_name, ta_input_buffer = []\<rparr>,
                  s\<lparr>sc_next_tool_use_order := sc_next_tool_use_order s + 1\<rparr>)) in
      s\<lparr>sc_tool_use_accumulators :=
          hm_insert (tue_tool_use_id tool_use)
            (acc\<lparr>ta_name := original_name, ta_input_buffer := ta_input_buffer acc @ tue_input tool_use\<rparr>)
            (sc_tool_use_accumulators s)\<rparr>)"

definition complete_tool_use :: "'f stream_ops \<Rightarrow> string \<Rightarrow> 'f stream_context \<Rightarrow> 'f stream_context" where
  "complete_tool_use ops tool_use_id s =
     (case map_of (sc_tool_use_accumulators s) tool_use_id of
        None \<Rightarrow> s
      | Some acc \<Rightarrow>
          (let input = (if ta_input_buffer acc = [] then json_obj []
                        else unwrap_or (st_parse_json ops (ta_input_buffer acc)) (json_obj [])) in
           s\<lparr>sc_tool_use_accumulators := hm_remove tool_use_id (sc_tool_use_accumulators s),
             sc_completed_tool_uses := sc_completed_tool_uses s @
               [(ta_start_order acc,
                 \<lparr>tu_tool_use_id = tool_use_id, tu_name = ta_name acc, tu_input = input\<rparr>)]\<rparr>))"

definition tool_block_index :: "string \<Rightarrow> 'f stream_context \<Rightarrow> int \<times> 'f stream_context" where
  "tool_block_index tool_use_id s =
     (case map_of (sc_tool_block_indices s) tool_use_id of
        Some index \<Rightarrow> (index, s)
      | None \<Rightarrow>
          (let (index, s) = take_block_index s in
           (index, s\<lparr>sc_tool_block_indices := hm_insert tool_use_id index (sc_tool_block_indices s)\<rparr>)))"

definition emit_tool_block :: "'f stream_ops \<Rightarrow> tool_use_event \<Rightarrow> 'f emitter" where
  "emit_tool_block ops tool_use s =
     (let (block_index, s) = tool_block_index (tue_tool_use_id tool_use) s;
          original_name = unwrap_or (map_of (sc_tool_name_map s) (tue_name tool_use)) (tue_name tool_use);
          s = accumulate_tool_use tool_use original_name s in
      emit_seq
        [on_manager (handle_content_block_start (st_block_order ops) block_index ''tool_use''
           (block_start_json block_index (tool_use_block_json (tue_tool_use_id tool_use) original_name))),
         emit_when (\<lambda>_. tue_input tool_use \<noteq> [])
           (\<lambda>s. (handle_content_block_delta block_index
                   (block_delta_json block_index (input_json_delta_json (tue_input tool_use))) (sc_state_manager s),
                 s\<lparr>sc_output_tokens := sc_output_tokens s + (int (length (tue_input tool_use)) + 3) div 4\<rparr>)),
         emit_when (\<lambda>_. tue_stop tool_use)
           (emit_seq
             [emit_update (complete_tool_use ops (tue_tool_use_id tool_use)),
              on_manager (handle_content_block_stop block_index)])] s)"

definition flush_thinking_buffer :: "'f stream_ops \<Rightarrow> 'f emitter" where
  "flush_thinking_buffer ops s =
     create_guarded_text_delta_events ops (sc_thinking_buffer s) (s\<lparr>sc_thinking_buffer := []\<rparr>)"

definition process_tool_use :: "'f stream_ops \<Rightarrow> tool_use_event \<Rightarrow> 'f emitter" where
  "process_tool_use ops tool_use s =
     (if structured_output_mode s \<and> sc_structured_output_tool_name s = Some (tue_name tool_use)
      then process_structured_output ops tool_use s
      else
        emit_seq
          [emit_update (\<lambda>s. s\<lparr>sc_state_manager := set_has_tool_use True (sc_state_manager s)\<rparr>),
           emit_when (\<lambda>s. thinking_parser_enabled s \<and> sc_reasoning_content_events_observed s
                \<and> sc_in_thinking_block s)
             (end_thinking_block ops),
           emit_when (\<lambda>s. thinking_parser_enabled s \<and> sc_in_thinking_block s) (close_inline_thinking ops),
           emit_when (\<lambda>s. thinking_parser_enabled s \<and> \<not> sc_in_thinking_block s \<and> \<not> sc_thinking_extracted s
                \<and> sc_thinking_buffer s \<noteq> [])
             (flush_thinking_buffer ops),
           emit_tool_block ops tool_use] s)"

section \<open>One upstream event\<close>

definition process_kiro_event :: "'f stream_ops \<Rightarrow> 'f kiro_event \<Rightarrow> 'f emitter" where
  "process_kiro_event ops event s =
     (case event of
        AssistantResponse response \<Rightarrow> process_assistant_response ops (are_content response) s
      | ReasoningContent reasoning \<Rightarrow>
          process_reasoning_content ops (rce_text reasoning) (rce_signature reasoning) s
      | ToolUse tool_use \<Rightarrow> process_tool_use ops tool_use s
      | ContextUsage usage \<Rightarrow>
          (let percentage = cue_context_usage_percentage usage;
               tokens = st_context_tokens ops percentage (get_context_window_size (st_to_lowercase ops) (sc_model s));
               s = s\<lparr>sc_context_input_tokens := Some tokens\<rparr> in
           ([], if st_at_least_100 ops percentage
                then s\<lparr>sc_state_manager := set_stop_reason ''model_context_window_exceeded'' (sc_state_manager s)\<rparr>
                else s))
      | Metering metering \<Rightarrow>
          ([], case credit_usage metering of
                 Some usage \<Rightarrow>
                   s\<lparr>sc_credit_usage := st_f64_add ops (sc_credit_usage s) usage, sc_credit_usage_observed := True\<rparr>
               | None \<Rightarrow> s)
      | ErrorEvent error_code error_message \<Rightarrow> ([], s)
      | ExceptionEvent exception_type exception_message \<Rightarrow>
          ([], if exception_type = ''ContentLengthExceededException''
               then s\<lparr>sc_state_manager := set_stop_reason ''model_context_window_exceeded'' (sc_state_manager s)\<rparr>
               else s)
      | Unknown \<Rightarrow> ([], s))"

section \<open>Final events\<close>

definition flush_structured_output :: "'f stream_ops \<Rightarrow> 'f emitter" where
  "flush_structured_output ops s =
     (let buffered = sc_structured_output_text_buffer s; s = s\<lparr>sc_structured_output_text_buffer := []\<rparr> in
      if buffered \<noteq> []
      then create_text_delta_events ops buffered
             (s\<lparr>sc_assistant_content := buffered, sc_output_tokens := estimate_tokens buffered\<rparr>)
      else ([], s))"

definition finish_buffered_thinking :: "'f stream_ops \<Rightarrow> 'f emitter" where
  "finish_buffered_thinking ops s =
     (case find_real_thinking_end_tag_at_buffer_end (sc_thinking_buffer s) of
        Some end_pos \<Rightarrow>
          (let remaining = str_trim_start (drop (end_pos + length THINKING_END_TAG) (sc_thinking_buffer s)) in
           emit_seq
             [emit_update (buffer_if_enabled (take end_pos (sc_thinking_buffer s))),
              emit_when sc_thinking_enabled (finalize_open_thinking_block ops),
              emit_update (\<lambda>s. leave_thinking_block (s\<lparr>sc_thinking_buffer := []\<rparr>)),
              emit_when (\<lambda>_. remaining \<noteq> []) (create_guarded_text_delta_events ops remaining)] s)
      | None \<Rightarrow>
          emit_when sc_thinking_enabled
            (emit_seq
              [emit_update (buffer_thinking_content (sc_thinking_buffer s)), finalize_open_thinking_block ops]) s)"

definition finish_buffered_text :: "'f stream_ops \<Rightarrow> 'f emitter" where
  "finish_buffered_text ops s =
     emit_seq
       [emit_when sc_thinking_enabled (synthesize_thinking_block ops),
        create_guarded_text_delta_events ops (sc_thinking_buffer s)] s"

definition flush_identity_response :: "'f stream_ops \<Rightarrow> 'f emitter" where
  "flush_identity_response ops =
     emit_seq
       [emit_update apply_identity_response,
        emit_when (\<lambda>s. \<not> sc_response_identity_flushed s \<and> sc_assistant_content s \<noteq> [])
          (emit_seq
            [\<lambda>s. create_text_delta_events ops (sc_assistant_content s) s,
             emit_update (\<lambda>s. s\<lparr>sc_response_identity_flushed := True\<rparr>)])]"

definition generate_final_events :: "'f stream_ops \<Rightarrow> 'f emitter" where
  "generate_final_events ops =
     emit_seq
       [emit_when (\<lambda>s. structured_output_mode s \<and> \<not> sc_structured_output_emitted s)
          (flush_structured_output ops),
        emit_when (\<lambda>s. thinking_parser_enabled s \<and> sc_reasoning_content_events_observed s
             \<and> sc_in_thinking_block s)
          (end_thinking_block ops),
        emit_when (\<lambda>s. thinking_parser_enabled s \<and> sc_thinking_buffer s \<noteq> [])
          (emit_seq
            [\<lambda>s. if sc_in_thinking_block s then finish_buffered_thinking ops s else finish_buffered_text ops s,
             emit_update (\<lambda>s. s\<lparr>sc_thinking_buffer := []\<rparr>)]),
        flush_guarded_text_delta_events ops,
        synthesize_thinking_block ops,
        emit_when identity_response_enabled (flush_identity_response ops),
        emit_when (\<lambda>s. sc_thinking_enabled s \<and> sc_thinking_block_index s \<noteq> None
             \<and> \<not> has_non_thinking_blocks (sc_state_manager s))
          (emit_seq
            [emit_update (\<lambda>s. s\<lparr>sc_state_manager := set_stop_reason ''max_tokens'' (sc_state_manager s)\<rparr>),
             create_text_delta_events ops '' '']),
        \<lambda>s. (let (input_tokens, output_tokens) = final_usage s in
              on_manager (manager_final_events (st_block_order ops) input_tokens output_tokens) s)]"

section \<open>The buffered variant\<close>

record 'f buffered_stream_context =
  bc_inner :: "'f stream_context"
  bc_event_buffer :: "sse_event list"
  bc_estimated_input_tokens :: int
  bc_initial_events_generated :: bool

definition buffered_new ::
  "'f stream_ops \<Rightarrow> string \<Rightarrow> string \<Rightarrow> int \<Rightarrow> bool \<Rightarrow> (string \<times> string) list \<Rightarrow> string option
     \<Rightarrow> 'f buffered_stream_context" where
  "buffered_new ops uuid model estimated_input_tokens thinking_enabled tool_name_map structured_output_tool_name =
     \<lparr>bc_inner = new_with_thinking ops uuid model estimated_input_tokens thinking_enabled tool_name_map
                  structured_output_tool_name,
      bc_event_buffer = [], bc_estimated_input_tokens = estimated_input_tokens,
      bc_initial_events_generated = False\<rparr>"

definition buffered_emit :: "'f emitter \<Rightarrow> 'f buffered_stream_context \<Rightarrow> 'f buffered_stream_context" where
  "buffered_emit m c =
     (let (events, s) = m (bc_inner c) in c\<lparr>bc_inner := s, bc_event_buffer := bc_event_buffer c @ events\<rparr>)"

definition buffered_start :: "'f stream_ops \<Rightarrow> 'f buffered_stream_context \<Rightarrow> 'f buffered_stream_context" where
  "buffered_start ops c =
     (if bc_initial_events_generated c then c
      else (buffered_emit (generate_initial_events ops) c)\<lparr>bc_initial_events_generated := True\<rparr>)"

definition process_and_buffer ::
  "'f stream_ops \<Rightarrow> 'f kiro_event \<Rightarrow> 'f buffered_stream_context \<Rightarrow> 'f buffered_stream_context" where
  "process_and_buffer ops event c = buffered_emit (process_kiro_event ops event) (buffered_start ops c)"

text \<open>\<open>get_mut\<close> at a key of an object, and the assignment of an entry.\<close>

fun json_update :: "string \<Rightarrow> (json \<Rightarrow> json) \<Rightarrow> json \<Rightarrow> json" where
  "json_update key f (JObject es) = JObject (map (\<lambda>(k, v). (k, if k = key then f v else v)) es)"
| "json_update key f v = v"

fun json_set :: "string \<Rightarrow> json \<Rightarrow> json \<Rightarrow> json" where
  "json_set key v (JObject es) = JObject (btree_insert key v es)"
| "json_set key v w = w"

definition finish_and_get_all_events ::
  "'f stream_ops \<Rightarrow> 'f buffered_stream_context \<Rightarrow> sse_event list \<times> 'f buffered_stream_context" where
  "finish_and_get_all_events ops c =
     (let c = buffered_emit (generate_final_events ops) (buffered_start ops c);
          input_tokens = fst (final_usage (bc_inner c));
          patched = map (\<lambda>event.
            if sse_event event = ''message_start''
            then event\<lparr>sse_data := json_update ''message''
                   (json_update ''usage'' (json_set ''input_tokens'' (json_int input_tokens))) (sse_data event)\<rparr>
            else event) (bc_event_buffer c) in
      (patched, c\<lparr>bc_event_buffer := []\<rparr>))"

section \<open>The streamed response\<close>

definition kiro_stream_context ::
  "'f stream_ops \<Rightarrow> string \<Rightarrow> string \<Rightarrow> int \<Rightarrow> bool \<Rightarrow> bool \<Rightarrow> (string \<times> string) list \<Rightarrow> string option
     \<Rightarrow> nat \<Rightarrow> thinking_signature_context option \<Rightarrow> bool \<Rightarrow> response_model_identity option
     \<Rightarrow> 'f stream_context" where
  "kiro_stream_context ops uuid model request_input_tokens thinking_enabled hidden_thinking_enabled tool_name_map
     structured_output_tool_name threshold signature_context private_prompt_safety_enabled response_identity =
     with_response_identity response_identity
       (with_private_prompt_safety_enabled private_prompt_safety_enabled
         (with_thinking_signature_context signature_context
           (with_context_usage_min_request_tokens threshold
             (new_with_thinking_visibility ops uuid model request_input_tokens thinking_enabled
               hidden_thinking_enabled tool_name_map structured_output_tool_name))))"

text \<open>
  What the client receives for the frames that the decoder gives: the events, and whether the
  stream ended normally.  \<open>usage\<close> is the usage object that replaces the one in the final
  \<open>message_delta\<close>.
\<close>

fun stream_frames ::
  "'f payload_codec \<Rightarrow> 'f stream_ops \<Rightarrow> frame list \<Rightarrow> 'f stream_context
     \<Rightarrow> sse_event list \<times> 'f stream_context \<times> parse_error option" where
  "stream_frames codec ops [] s = ([], s, None)"
| "stream_frames codec ops (f # frames) s =
     (case from_frame codec f of
        Inl err \<Rightarrow> ([], s, Some err)
      | Inr event \<Rightarrow>
          (let (events, s) = process_kiro_event ops event s;
               (more, s, err) = stream_frames codec ops frames s in
           (events @ more, s, err)))"

definition replace_usage :: "json \<Rightarrow> sse_event \<Rightarrow> sse_event" where
  "replace_usage usage event =
     (if sse_event event = ''message_delta''
      then event\<lparr>sse_data := json_update ''usage'' (\<lambda>_. usage) (sse_data event)\<rparr> else event)"

definition stream_kiro_upstream_response ::
  "(byte list \<Rightarrow> u32) \<Rightarrow> 'f payload_codec \<Rightarrow> 'f stream_ops \<Rightarrow> ('f stream_context \<Rightarrow> json)
     \<Rightarrow> byte list \<times> ('e + byte list) list \<Rightarrow> 'f stream_context \<Rightarrow> sse_event list \<times> bool" where
  "stream_kiro_upstream_response crc32 codec ops usage peeked ctx =
     (let (initial, s) = generate_initial_events ops ctx;
          (frames, how) = relay_kiro_frames (parse_frame crc32) peeked;
          (events, s, err) = stream_frames codec ops frames s in
      if err \<noteq> None \<or> how \<noteq> RelayDone then (initial @ events, False)
      else
        (let (final, s') = generate_final_events ops s in
         (initial @ events @ map (replace_usage (usage s)) final, True)))"

end
