(* ===== verification/StreamProtocol.thy ===== *)
theory StreamProtocol
  imports StreamDriver
begin

text \<open>
  What a client of the Messages API expects of the stream, as an automaton over the events: one
  \<open>message_start\<close>; blocks with consecutive indices, each started, continued with deltas of its
  own type and stopped; when no block is open, one \<open>message_delta\<close> and one \<open>message_stop\<close>.
  The automaton reads the events alone.  If it is not \<open>strict\<close> it also takes the delta of a
  thinking block that was stopped.
\<close>

datatype protocol_phase = Waiting | Streaming | Closing | Finished

record protocol_state =
  ps_phase :: protocol_phase
  ps_count :: nat
  ps_blocks :: "json \<Rightarrow> (string \<times> bool) option" \<comment> \<open>by index: type, and whether it is open\<close>

definition protocol_start :: protocol_state where
  "protocol_start = \<lparr>ps_phase = Waiting, ps_count = 0, ps_blocks = (\<lambda>_. None)\<rparr>"

definition data_type :: "string \<Rightarrow> json \<Rightarrow> string option" where
  "data_type key data =
     (case json_get data key of
        Some v \<Rightarrow> (case json_get v ''type'' of Some t \<Rightarrow> json_as_str t | None \<Rightarrow> None)
      | None \<Rightarrow> None)"

definition block_of_delta :: "string \<Rightarrow> string" where
  "block_of_delta delta =
     (if delta = ''text_delta'' then ''text''
      else if delta = ''thinking_delta'' \<or> delta = ''signature_delta'' then ''thinking''
      else if delta = ''input_json_delta'' then ''tool_use''
      else '''')"

definition all_stopped :: "protocol_state \<Rightarrow> bool" where
  "all_stopped p =
     list_all (\<lambda>i. case ps_blocks p (json_int (int i)) of Some (_, is_open) \<Rightarrow> \<not> is_open | None \<Rightarrow> False)
       [0..<ps_count p]"

definition protocol_step :: "bool \<Rightarrow> protocol_state \<Rightarrow> sse_event \<Rightarrow> protocol_state option" where
  "protocol_step strict p ev =
     (let data = sse_data ev; index = unwrap_or (json_get data ''index'') JNull in
      if sse_event ev = ''message_start''
      then (if ps_phase p = Waiting then Some (p\<lparr>ps_phase := Streaming\<rparr>) else None)
      else if sse_event ev = ''content_block_start''
      then (if ps_phase p = Streaming \<and> index = json_int (int (ps_count p))
            then (case data_type ''content_block'' data of
                    Some t \<Rightarrow>
                      (if t \<in> {''text'', ''thinking'', ''tool_use''}
                       then Some (p\<lparr>ps_count := ps_count p + 1, ps_blocks := (ps_blocks p)(index \<mapsto> (t, True))\<rparr>)
                       else None)
                  | None \<Rightarrow> None)
            else None)
      else if sse_event ev = ''content_block_delta''
      then (case (ps_blocks p index, data_type ''delta'' data) of
              (Some (t, is_open), Some delta) \<Rightarrow>
                (if ps_phase p = Streaming \<and> block_of_delta delta = t
                     \<and> (is_open \<or> \<not> strict \<and> delta = ''thinking_delta'')
                 then Some p else None)
            | _ \<Rightarrow> None)
      else if sse_event ev = ''content_block_stop''
      then (case ps_blocks p index of
              Some (t, is_open) \<Rightarrow>
                (if ps_phase p = Streaming \<and> is_open
                 then Some (p\<lparr>ps_blocks := (ps_blocks p)(index \<mapsto> (t, False))\<rparr>) else None)
            | None \<Rightarrow> None)
      else if sse_event ev = ''message_delta''
      then (if ps_phase p = Streaming \<and> all_stopped p then Some (p\<lparr>ps_phase := Closing\<rparr>) else None)
      else if sse_event ev = ''message_stop''
      then (if ps_phase p = Closing then Some (p\<lparr>ps_phase := Finished\<rparr>) else None)
      else None)"

fun protocol_run :: "bool \<Rightarrow> protocol_state \<Rightarrow> sse_event list \<Rightarrow> protocol_state option" where
  "protocol_run strict p [] = Some p"
| "protocol_run strict p (ev # evs) =
     (case protocol_step strict p ev of None \<Rightarrow> None | Some p' \<Rightarrow> protocol_run strict p' evs)"

lemma protocol_run_append [simp]:
  "protocol_run strict p (xs @ ys) =
    (case protocol_run strict p xs of None \<Rightarrow> None | Some p' \<Rightarrow> protocol_run strict p' ys)"
  by (induction xs arbitrary: p) (simp_all split: option.split)

section \<open>Steps of the events the code builds\<close>

lemma step_block_start:
  "ps_phase p = Streaming \<Longrightarrow> t \<in> {''text'', ''thinking'', ''tool_use''}
    \<Longrightarrow> json_get block ''type'' = Some (JString t)
    \<Longrightarrow> protocol_step strict p (sse_event_new ''content_block_start'' (block_start_json (int (ps_count p)) block))
      = Some (p\<lparr>ps_count := ps_count p + 1,
                ps_blocks := (ps_blocks p)(json_int (int (ps_count p)) \<mapsto> (t, True))\<rparr>)"
  by (auto simp: protocol_step_def sse_event_new_def block_start_json_def data_type_def json_as_str_def)

lemma step_delta:
  "ps_phase p = Streaming \<Longrightarrow> ps_blocks p (json_int i) = Some (block_of_delta t, is_open)
    \<Longrightarrow> json_get delta ''type'' = Some (JString t) \<Longrightarrow> is_open \<or> \<not> strict \<and> t = ''thinking_delta''
    \<Longrightarrow> protocol_step strict p (sse_event_new ''content_block_delta'' (block_delta_json i delta)) = Some p"
  by (auto simp: protocol_step_def sse_event_new_def block_delta_json_def data_type_def json_as_str_def)

lemma step_stop:
  "ps_phase p = Streaming \<Longrightarrow> ps_blocks p (json_int i) = Some (t, True)
    \<Longrightarrow> protocol_step strict p (block_stop_event i)
      = Some (p\<lparr>ps_blocks := (ps_blocks p)(json_int i \<mapsto> (t, False))\<rparr>)"
  by (simp add: protocol_step_def sse_event_new_def block_stop_event_def)

lemma block_types [simp]:
  "json_get text_block_json ''type'' = Some (JString ''text'')"
  "json_get thinking_block_json ''type'' = Some (JString ''thinking'')"
  "json_get (tool_use_block_json tool_id name) ''type'' = Some (JString ''tool_use'')"
  "json_get (text_delta_json t) ''type'' = Some (JString ''text_delta'')"
  "json_get (thinking_delta_json t) ''type'' = Some (JString ''thinking_delta'')"
  "json_get (signature_delta_json t) ''type'' = Some (JString ''signature_delta'')"
  "json_get (input_json_delta_json t) ''type'' = Some (JString ''input_json_delta'')"
  by (simp_all add: text_block_json_def thinking_block_json_def tool_use_block_json_def text_delta_json_def
      thinking_delta_json_def signature_delta_json_def input_json_delta_json_def)

lemma delta_blocks [simp]:
  "block_of_delta ''text_delta'' = ''text''" "block_of_delta ''thinking_delta'' = ''thinking''"
  "block_of_delta ''signature_delta'' = ''thinking''" "block_of_delta ''input_json_delta'' = ''tool_use''"
  by (simp_all add: block_of_delta_def)

end
