(* ===== verification/StreamInvariant.thy ===== *)
theory StreamInvariant
  imports StreamProtocol
begin

text \<open>
  The invariant between the state of the translation and the automaton that has read its
  events so far, and how each emitter keeps it.
\<close>

section \<open>The state machine of the blocks\<close>

definition shown :: "block_state \<Rightarrow> string \<times> bool" where
  "shown b = (bs_block_type b, \<not> bs_stopped b)"

definition tracked :: "sse_state_manager \<Rightarrow> protocol_state \<Rightarrow> bool" where
  "tracked m p =
     (sm_message_started m \<and> \<not> sm_message_delta_sent m \<and> \<not> sm_message_ended m \<and> ps_phase p = Streaming
      \<and> sm_next_block_index m = int (ps_count p) \<and> hm_ok (sm_active_blocks m)
      \<and> (\<forall>i. 0 \<le> i \<longrightarrow> ps_blocks p (json_int i) = map_option shown (map_of (sm_active_blocks m) i))
      \<and> (\<forall>i b. map_of (sm_active_blocks m) i = Some b \<longrightarrow> bs_started b \<and> 0 \<le> i \<and> i < int (ps_count p))
      \<and> (\<forall>i. 0 \<le> i \<and> i < int (ps_count p) \<longrightarrow> map_of (sm_active_blocks m) i \<noteq> None))"

definition block_type_at :: "sse_state_manager \<Rightarrow> int \<Rightarrow> string option" where
  "block_type_at m i = map_option bs_block_type (map_of (sm_active_blocks m) i)"

definition fair_order :: "block_order \<Rightarrow> bool" where
  "fair_order order = (\<forall>blocks. mset (order blocks) = mset blocks)"

lemma trackedD:
  assumes "tracked m p"
  shows "ps_phase p = Streaming" "sm_next_block_index m = int (ps_count p)"
    and "0 \<le> i \<Longrightarrow> ps_blocks p (json_int i) = map_option shown (map_of (sm_active_blocks m) i)"
    and "map_of (sm_active_blocks m) i = Some b \<Longrightarrow> bs_started b"
    and "map_of (sm_active_blocks m) i = Some b \<Longrightarrow> 0 \<le> i"
    and "map_of (sm_active_blocks m) i = Some b \<Longrightarrow> i < int (ps_count p)"
  using assms by (auto simp: tracked_def)

text \<open>Stopping the blocks of a list one by one.\<close>

lemma run_stops:
  assumes "distinct (map fst blocks)" "ps_phase p = Streaming"
    and "\<And>i b. (i, b) \<in> set blocks \<Longrightarrow> 0 \<le> i \<and> ps_blocks p (json_int i) = Some (bs_block_type b, True)"
  shows "protocol_run strict p (map (\<lambda>(i, _). block_stop_event i) blocks)
    = Some (p\<lparr>ps_blocks := \<lambda>v. if v \<in> (json_int \<circ> fst) ` set blocks
        then map_option (\<lambda>(t, _). (t, False)) (ps_blocks p v) else ps_blocks p v\<rparr>)"
  using assms
proof (induction blocks arbitrary: p)
  case (Cons e blocks)
  obtain i b where e: "e = (i, b)" by (cases e)
  let ?p = "p\<lparr>ps_blocks := (ps_blocks p)(json_int i \<mapsto> (bs_block_type b, False))\<rparr>"
  have ib: "0 \<le> i" "ps_blocks p (json_int i) = Some (bs_block_type b, True)"
    using Cons.prems(3)[of i b] e by auto
  have other: "json_int j \<noteq> json_int i" if "(j, c) \<in> set blocks" for j c
  proof -
    have "j \<noteq> i" using Cons.prems(1) that e by force
    then show ?thesis using Cons.prems(3)[of j c] that ib(1) by (simp add: json_int_inj)
  qed
  have "protocol_run strict ?p (map (\<lambda>(i, _). block_stop_event i) blocks)
    = Some (?p\<lparr>ps_blocks := \<lambda>v. if v \<in> (json_int \<circ> fst) ` set blocks
        then map_option (\<lambda>(t, _). (t, False)) (ps_blocks ?p v) else ps_blocks ?p v\<rparr>)"
  proof (rule Cons.IH)
    fix j c assume "(j, c) \<in> set blocks"
    then show "0 \<le> j \<and> ps_blocks ?p (json_int j) = Some (bs_block_type c, True)"
      using Cons.prems(3)[of j c] other[of j c] by auto
  qed (use Cons.prems e in auto)
  then show ?case
    using step_stop[OF Cons.prems(2) ib(2)] ib(2) e
    by (auto intro!: arg_cong[where f = "\<lambda>f. p\<lparr>ps_blocks := f\<rparr>"])
qed simp

lemma map_of_map_values: "map_of (map (\<lambda>(k, v). (k, f v)) m) k = map_option f (map_of m k)"
  by (induction m) auto

lemma stop_blocks_tracked:
  assumes tr: "tracked m p" and fair: "fair_order order" and op: "\<And>b. P b \<Longrightarrow> block_open b"
  obtains p' where "protocol_run strict p (fst (stop_blocks order P m)) = Some p'"
    "tracked (snd (stop_blocks order P m)) p'" "ps_count p' = ps_count p"
proof -
  let ?open = "filter (\<lambda>(_, b). P b) (order (sm_active_blocks m))"
  let ?stop = "\<lambda>b. if P b then b\<lparr>bs_stopped := True\<rparr> else b"
  have perm: "mset (order (sm_active_blocks m)) = mset (sm_active_blocks m)"
    using fair by (simp add: fair_order_def)
  then have members: "set (order (sm_active_blocks m)) = set (sm_active_blocks m)"
    by (rule mset_eq_setD)
  have ok: "hm_ok (sm_active_blocks m)" using tr by (simp add: tracked_def)
  have "distinct (map fst (order (sm_active_blocks m)))"
    using ok mset_eq_imp_distinct_iff[of "map fst (order (sm_active_blocks m))" "map fst (sm_active_blocks m)"] perm
    by (simp add: hm_ok_def)
  then have dist: "distinct (map fst ?open)" by (rule distinct_map_filter)
  have entry: "(i, b) \<in> set ?open \<longleftrightarrow> map_of (sm_active_blocks m) i = Some b \<and> P b" for i b
    using hm_entry[OF ok] by (auto simp: members)
  have sh: "0 \<le> i \<and> ps_blocks p (json_int i) = Some (bs_block_type b, True)" if "(i, b) \<in> set ?open" for i b
  proof -
    have b: "map_of (sm_active_blocks m) i = Some b" "P b" using that by (simp_all only: entry)
    then show ?thesis
      using trackedD(3)[OF tr, of i] trackedD(5)[OF tr b(1)] op[OF b(2)] by (simp add: shown_def block_open_def)
  qed
  note run = run_stops[OF dist trackedD(1)[OF tr] sh, of strict]
  have blocks: "(if json_int i \<in> (json_int \<circ> fst) ` set ?open
        then map_option (\<lambda>(t, _). (t, False)) (ps_blocks p (json_int i)) else ps_blocks p (json_int i))
      = map_option shown (map_option ?stop (map_of (sm_active_blocks m) i))" if i: "0 \<le> i" for i
  proof -
    have "json_int i \<in> (json_int \<circ> fst) ` set ?open \<longleftrightarrow> (\<exists>b. (i, b) \<in> set ?open)"
      using i sh by (force simp: json_int_inj)
    also have "\<dots> \<longleftrightarrow> (\<exists>b. map_of (sm_active_blocks m) i = Some b \<and> P b)" by (simp only: entry)
    finally show ?thesis
      using trackedD(3)[OF tr i] by (cases "map_of (sm_active_blocks m) i") (auto simp: shown_def)
  qed
  show thesis
  proof (rule that)
    show "protocol_run strict p (fst (stop_blocks order P m)) = Some (p\<lparr>ps_blocks := \<lambda>v. if v \<in> (json_int \<circ> fst) ` set ?open
        then map_option (\<lambda>(t, _). (t, False)) (ps_blocks p v) else ps_blocks p v\<rparr>)"
      using run by (simp add: stop_blocks_def)
    show "tracked (snd (stop_blocks order P m)) (p\<lparr>ps_blocks := \<lambda>v. if v \<in> (json_int \<circ> fst) ` set ?open
        then map_option (\<lambda>(t, _). (t, False)) (ps_blocks p v) else ps_blocks p v\<rparr>)"
      using tr blocks
      by (auto simp: tracked_def stop_blocks_def map_of_map_values hm_ok_def comp_def split_beta simp del: map_option.compositionality)
  qed simp
qed

section \<open>Changes of the blocks\<close>

text \<open>Blocks keep their type; an open thinking block stays open unless it is finalised.\<close>

definition types_kept :: "sse_state_manager \<Rightarrow> sse_state_manager \<Rightarrow> bool" where
  "types_kept m m' = (\<forall>i t. block_type_at m i = Some t \<longrightarrow> block_type_at m' i = Some t)"

definition thinking_kept :: "sse_state_manager \<Rightarrow> sse_state_manager \<Rightarrow> bool" where
  "thinking_kept m m' =
     (\<forall>i. is_block_open_of_type m i ''thinking'' \<longrightarrow> is_block_open_of_type m' i ''thinking'')"

lemma kept_refl [simp]: "types_kept m m" "thinking_kept m m"
  by (simp_all add: types_kept_def thinking_kept_def)

lemma kept_trans:
  "types_kept a b \<Longrightarrow> types_kept b c \<Longrightarrow> types_kept a c"
  "thinking_kept a b \<Longrightarrow> thinking_kept b c \<Longrightarrow> thinking_kept a c"
  by (simp_all add: types_kept_def thinking_kept_def)

lemma stopped_lookup:
  "map_of (sm_active_blocks (snd (stop_blocks order P m))) i
    = map_option (\<lambda>b. if P b then b\<lparr>bs_stopped := True\<rparr> else b) (map_of (sm_active_blocks m) i)"
  by (simp add: stop_blocks_def map_of_map_values)

lemma stop_blocks_kept:
  "types_kept m (snd (stop_blocks order P m))"
  "(\<And>b. P b \<Longrightarrow> bs_block_type b \<noteq> ''thinking'') \<Longrightarrow> thinking_kept m (snd (stop_blocks order P m))"
proof -
  show "types_kept m (snd (stop_blocks order P m))"
    unfolding types_kept_def block_type_at_def stopped_lookup by (auto simp del: map_option_eq_Some split: option.splits simp: map_option_case)
  show "thinking_kept m (snd (stop_blocks order P m))" if "\<And>b. P b \<Longrightarrow> bs_block_type b \<noteq> ''thinking''"
    unfolding thinking_kept_def is_block_open_of_type_def stopped_lookup using that by (auto split: option.splits)
qed

text \<open>A block that is started at the next index.\<close>

definition start_block ::
  "block_order \<Rightarrow> string \<Rightarrow> (int \<Rightarrow> json) \<Rightarrow> sse_state_manager \<Rightarrow> sse_event list \<times> sse_state_manager" where
  "start_block order t data m =
     (case next_block_index m of (index, m) \<Rightarrow> handle_content_block_start order index t (data index) m)"

definition fresh_block :: "string \<Rightarrow> block_state" where
  "fresh_block t = \<lparr>bs_block_type = t, bs_started = True, bs_stopped = False\<rparr>"

lemma start_plain_block:
  assumes tr: "tracked m p" and t: "t \<in> {''text'', ''thinking'', ''tool_use''}"
    and block: "\<And>i. data i = block_start_json i block" "json_get block ''type'' = Some (JString t)"
  obtains p' where
    "protocol_run strict p [sse_event_new ''content_block_start'' (data (sm_next_block_index m))] = Some p'"
    "tracked (m\<lparr>sm_next_block_index := sm_next_block_index m + 1, sm_has_tool_use := h,
        sm_active_blocks := hm_insert (sm_next_block_index m) (fresh_block t) (sm_active_blocks m)\<rparr>) p'"
    "map_of (sm_active_blocks m) (sm_next_block_index m) = None"
proof (rule that)
  note d = trackedD[OF tr]
  let ?p = "p\<lparr>ps_count := ps_count p + 1, ps_blocks := (ps_blocks p)(json_int (int (ps_count p)) \<mapsto> (t, True))\<rparr>"
  show "protocol_run strict p [sse_event_new ''content_block_start'' (data (sm_next_block_index m))] = Some ?p"
    using step_block_start[OF d(1) t block(2)] by (simp add: block(1) d(2))
  show fresh: "map_of (sm_active_blocks m) (sm_next_block_index m) = None"
    using d(2) d(6)[of "sm_next_block_index m"] by (cases "map_of (sm_active_blocks m) (sm_next_block_index m)") auto
  show "tracked (m\<lparr>sm_next_block_index := sm_next_block_index m + 1, sm_has_tool_use := h,
      sm_active_blocks := hm_insert (sm_next_block_index m) (fresh_block t) (sm_active_blocks m)\<rparr>) ?p"
    using tr fresh unfolding tracked_def
    by (auto simp: json_int_inj shown_def fresh_block_def) force+
qed

lemma start_block_tracked:
  assumes tr: "tracked m p" and fair: "fair_order order" and t: "t \<in> {''text'', ''thinking'', ''tool_use''}"
    and block: "\<And>i. data i = block_start_json i block" "json_get block ''type'' = Some (JString t)"
  obtains p' where "protocol_run strict p (fst (start_block order t data m)) = Some p'"
    "tracked (snd (start_block order t data m)) p'"
    "types_kept m (snd (start_block order t data m))" "thinking_kept m (snd (start_block order t data m))"
    "map_of (sm_active_blocks (snd (start_block order t data m))) (sm_next_block_index m) = Some (fresh_block t)"
proof -
  let ?P = "\<lambda>b. bs_block_type b = ''text'' \<and> block_open b"
  define stopped where "stopped = (if t = ''tool_use'' then stop_blocks order ?P m else ([], m))"
  obtain p1 where p1: "protocol_run strict p (fst stopped) = Some p1" "tracked (snd stopped) p1" "ps_count p1 = ps_count p"
  proof (cases "t = ''tool_use''")
    case True
    obtain p1 where "protocol_run strict p (fst (stop_blocks order ?P m)) = Some p1"
      "tracked (snd (stop_blocks order ?P m)) p1" "ps_count p1 = ps_count p"
      by (rule stop_blocks_tracked[OF tr fair, of ?P strict]) auto
    then show thesis using True that by (simp add: stopped_def)
  qed (use tr that in \<open>simp add: stopped_def\<close>)
  have kept: "types_kept m (snd stopped)" "thinking_kept m (snd stopped)"
    using stop_blocks_kept[where m = m and order = order and P = ?P] by (auto simp: stopped_def)
  have same: "sm_next_block_index (snd stopped) = sm_next_block_index m"
    by (simp add: stopped_def stop_blocks_def)
  let ?h = "t = ''tool_use'' \<or> sm_has_tool_use m"
  let ?m = "(snd stopped)\<lparr>sm_next_block_index := sm_next_block_index (snd stopped) + 1, sm_has_tool_use := ?h,
        sm_active_blocks := hm_insert (sm_next_block_index (snd stopped)) (fresh_block t) (sm_active_blocks (snd stopped))\<rparr>"
  obtain p2 where p2: "protocol_run strict p1
      [sse_event_new ''content_block_start'' (data (sm_next_block_index (snd stopped)))] = Some p2"
    "tracked ?m p2" "map_of (sm_active_blocks (snd stopped)) (sm_next_block_index (snd stopped)) = None"
    by (rule start_plain_block[OF p1(2) t, of data block strict ?h]) (use block in auto)
  have start: "start_block order t data m
      = (fst stopped @ [sse_event_new ''content_block_start'' (data (sm_next_block_index (snd stopped)))], ?m)"
    using p2(3) by (simp add: start_block_def next_block_index_def handle_content_block_start_def stopped_def
        stop_blocks_def fresh_block_def Let_def split: if_splits)
  show thesis
  proof (rule that)
    show "protocol_run strict p (fst (start_block order t data m)) = Some p2" using p1(1) p2(1) by (simp add: start)
    show "tracked (snd (start_block order t data m)) p2" using p2(2) by (simp add: start)
    have "types_kept (snd stopped) ?m" "thinking_kept (snd stopped) ?m"
      using p2(3) by (auto simp: types_kept_def thinking_kept_def block_type_at_def is_block_open_of_type_def)
    then show "types_kept m (snd (start_block order t data m))" "thinking_kept m (snd (start_block order t data m))"
      using kept by (auto simp: start intro: kept_trans)
    show "map_of (sm_active_blocks (snd (start_block order t data m))) (sm_next_block_index m) = Some (fresh_block t)"
      by (simp add: start same)
  qed
qed

end
