(* ===== verification/StreamSoundness.thy ===== *)
theory StreamSoundness
  imports StreamInvariant
begin

text \<open>
  Every emitter of the translation keeps the automaton running.  \<open>base\<close> relates a context to
  the automaton; \<open>quiet\<close> emitters leave the thinking block alone; the finalisation of a thinking
  block needs it to be open, or a lenient automaton.
\<close>

section \<open>The invariant of a context\<close>

definition thinking_open :: "'f stream_context \<Rightarrow> bool" where
  "thinking_open s =
     (case sc_thinking_block_index s of
        Some i \<Rightarrow> is_block_open_of_type (sc_state_manager s) i ''thinking''
      | None \<Rightarrow> False)"

definition base :: "'f stream_context \<Rightarrow> protocol_state \<Rightarrow> bool" where
  "base s p =
     (tracked (sc_state_manager s) p
      \<and> (\<forall>tool_id i. map_of (sc_tool_block_indices s) tool_id = Some i
           \<longrightarrow> block_type_at (sc_state_manager s) i = Some ''tool_use'')
      \<and> (\<forall>i. sc_thinking_block_index s = Some i \<longrightarrow> block_type_at (sc_state_manager s) i = Some ''thinking'')
      \<and> (sc_thinking_block_index s = None \<longrightarrow> sc_completed_thinking_content s = None))"

text \<open>What the methods look at to decide about the thinking block.\<close>

definition thinking_view :: "'f stream_context \<Rightarrow> bool \<times> bool \<times> bool \<times> int option" where
  "thinking_view s =
     (sc_thinking_enabled s, sc_in_thinking_block s, sc_thinking_extracted s, sc_thinking_block_index s)"

definition good :: "'f stream_context \<Rightarrow> bool" where
  "good s =
     (sc_thinking_enabled s \<longrightarrow>
        (sc_in_thinking_block s \<longrightarrow> thinking_open s)
        \<and> (sc_thinking_extracted s \<longrightarrow> sc_thinking_block_index s \<noteq> None))"

definition accepts ::
  "bool \<Rightarrow> ('f stream_context \<Rightarrow> bool) \<Rightarrow> 'f emitter \<Rightarrow> ('f stream_context \<Rightarrow> bool) \<Rightarrow> bool" where
  "accepts strict P m Q =
     (\<forall>s p. base s p \<longrightarrow> P s \<longrightarrow>
        (\<exists>p'. protocol_run strict p (fst (m s)) = Some p' \<and> base (snd (m s)) p' \<and> Q (snd (m s))))"

definition quiet :: "bool \<Rightarrow> 'f emitter \<Rightarrow> bool" where
  "quiet strict m =
     (\<forall>s p. base s p \<longrightarrow>
        (\<exists>p'. protocol_run strict p (fst (m s)) = Some p' \<and> base (snd (m s)) p'
           \<and> thinking_view (snd (m s)) = thinking_view s \<and> (thinking_open s \<longrightarrow> thinking_open (snd (m s)))))"

text \<open>A condition that quiet emitters keep.\<close>

definition stable :: "('f stream_context \<Rightarrow> bool) \<Rightarrow> bool" where
  "stable P =
     (\<forall>s s'. P s \<longrightarrow> thinking_view s' = thinking_view s \<longrightarrow> (thinking_open s \<longrightarrow> thinking_open s') \<longrightarrow> P s')"

named_theorems emitter_rules \<open>rules for the emitters of a context\<close>

lemma acceptsI:
  "(\<And>s p. base s p \<Longrightarrow> P s
      \<Longrightarrow> \<exists>p'. protocol_run strict p (fst (m s)) = Some p' \<and> base (snd (m s)) p' \<and> Q (snd (m s)))
    \<Longrightarrow> accepts strict P m Q"
  by (simp add: accepts_def)

lemma acceptsE:
  assumes "accepts strict P m Q" "base s p" "P s"
  obtains p' where "protocol_run strict p (fst (m s)) = Some p'" "base (snd (m s)) p'" "Q (snd (m s))"
  using assms by (auto simp: accepts_def)

lemma accepts_weaken:
  "accepts strict P m Q \<Longrightarrow> (\<And>s. P' s \<Longrightarrow> P s) \<Longrightarrow> (\<And>s. Q s \<Longrightarrow> Q' s) \<Longrightarrow> accepts strict P' m Q'"
  by (fastforce simp: accepts_def)

lemma accepts_nil: "(\<And>s. P s \<Longrightarrow> Q s) \<Longrightarrow> accepts strict P (emit_seq []) Q"
  by (simp add: accepts_def)

lemma accepts_seq:
  assumes "accepts strict P m R" "accepts strict R (emit_seq ms) Q"
  shows "accepts strict P (emit_seq (m # ms)) Q"
proof (rule acceptsI)
  fix s :: "'a stream_context" and p assume "base s p" "P s"
  then obtain p1 where p1: "protocol_run strict p (fst (m s)) = Some p1" "base (snd (m s)) p1" "R (snd (m s))"
    by (rule acceptsE[OF assms(1)])
  from p1(2,3) obtain p2 where "protocol_run strict p1 (fst (emit_seq ms (snd (m s)))) = Some p2"
    "base (snd (emit_seq ms (snd (m s)))) p2" "Q (snd (emit_seq ms (snd (m s))))"
    by (rule acceptsE[OF assms(2)])
  then show "\<exists>p'. protocol_run strict p (fst (emit_seq (m # ms) s)) = Some p'
      \<and> base (snd (emit_seq (m # ms) s)) p' \<and> Q (snd (emit_seq (m # ms) s))"
    using p1(1) by (simp add: split_beta Let_def)
qed

lemma accepts_when:
  assumes "accepts strict (\<lambda>s. P s \<and> c s) m Q" "\<And>s. P s \<Longrightarrow> \<not> c s \<Longrightarrow> Q s"
  shows "accepts strict P (emit_when c m) Q"
  using assms by (auto simp: accepts_def emit_when_def)

lemma accepts_update:
  assumes "\<And>s p. base s p \<Longrightarrow> P s \<Longrightarrow> base (f s) p" "\<And>s. P s \<Longrightarrow> Q (f s)"
  shows "accepts strict P (emit_update f) Q"
  using assms by (auto simp: accepts_def emit_update_def)

lemma accepts_quiet:
  assumes "quiet strict m" "stable P"
  shows "accepts strict P m P"
  using assms by (fastforce simp: accepts_def quiet_def stable_def)

lemma quiet_nil: "quiet strict (emit_seq [])"
  by (simp add: quiet_def)

lemma quiet_seq:
  assumes "quiet strict m" "quiet strict (emit_seq ms)"
  shows "quiet strict (emit_seq (m # ms))"
  unfolding quiet_def
proof (intro allI impI)
  fix s :: "'a stream_context" and p assume b: "base s p"
  obtain p1 where p1: "protocol_run strict p (fst (m s)) = Some p1" "base (snd (m s)) p1"
    "thinking_view (snd (m s)) = thinking_view s" "thinking_open s \<longrightarrow> thinking_open (snd (m s))"
    using assms(1) b unfolding quiet_def by blast
  obtain p2 where "protocol_run strict p1 (fst (emit_seq ms (snd (m s)))) = Some p2"
    "base (snd (emit_seq ms (snd (m s)))) p2"
    "thinking_view (snd (emit_seq ms (snd (m s)))) = thinking_view (snd (m s))"
    "thinking_open (snd (m s)) \<longrightarrow> thinking_open (snd (emit_seq ms (snd (m s))))"
    using assms(2) p1(2) unfolding quiet_def by blast
  then show "\<exists>p'. protocol_run strict p (fst (emit_seq (m # ms) s)) = Some p' \<and> base (snd (emit_seq (m # ms) s)) p'
      \<and> thinking_view (snd (emit_seq (m # ms) s)) = thinking_view s
      \<and> (thinking_open s \<longrightarrow> thinking_open (snd (emit_seq (m # ms) s)))"
    using p1 by (simp add: split_beta Let_def)
qed

lemma quiet_when: "quiet strict m \<Longrightarrow> quiet strict (emit_when c m)"
  by (simp add: quiet_def emit_when_def)

text \<open>Fields that neither the automaton nor the thinking block depends on.\<close>

definition same_frame :: "'f stream_context \<Rightarrow> 'f stream_context \<Rightarrow> bool" where
  "same_frame s s' =
     (sc_state_manager s' = sc_state_manager s \<and> sc_tool_block_indices s' = sc_tool_block_indices s
      \<and> sc_thinking_block_index s' = sc_thinking_block_index s
      \<and> sc_completed_thinking_content s' = sc_completed_thinking_content s
      \<and> thinking_view s' = thinking_view s)"

lemma same_frame_base: "same_frame s s' \<Longrightarrow> base s' p = base s p"
  by (simp add: same_frame_def base_def)

lemma same_frame_open: "same_frame s s' \<Longrightarrow> thinking_open s' = thinking_open s"
  by (auto simp: same_frame_def thinking_open_def split: option.splits)

lemma quiet_update: "(\<And>s. same_frame s (f s)) \<Longrightarrow> quiet strict (emit_update f)"
  unfolding quiet_def emit_update_def
  by (metis fst_conv protocol_run.simps(1) same_frame_base same_frame_def same_frame_open snd_conv)

text \<open>An emitter that first changes such fields, and one of two by a case distinction.\<close>

lemma quiet_after:
  fixes m :: "'b emitter" and f :: "'b stream_context \<Rightarrow> 'b stream_context"
  assumes "quiet strict m" "\<And>s. same_frame s (f s)"
  shows "quiet strict (\<lambda>s. m (f s))"
  unfolding quiet_def
proof (intro allI impI)
  fix s :: "'b stream_context" and p assume "base s p"
  then have "base (f s) p" by (simp add: same_frame_base[OF assms(2)])
  then obtain p' where "protocol_run strict p (fst (m (f s))) = Some p'" "base (snd (m (f s))) p'"
    "thinking_view (snd (m (f s))) = thinking_view (f s)" "thinking_open (f s) \<longrightarrow> thinking_open (snd (m (f s)))"
    using assms(1) unfolding quiet_def by blast
  moreover have "thinking_view (f s) = thinking_view s" "thinking_open (f s) = thinking_open s"
    using assms(2)[of s] same_frame_open[OF assms(2)] by (simp_all add: same_frame_def)
  ultimately show "\<exists>p'. protocol_run strict p (fst (m (f s))) = Some p' \<and> base (snd (m (f s))) p'
      \<and> thinking_view (snd (m (f s))) = thinking_view s \<and> (thinking_open s \<longrightarrow> thinking_open (snd (m (f s))))"
    by simp
qed

lemma quiet_pointwise: "(\<And>s. \<exists>m'. quiet strict m' \<and> m s = m' s) \<Longrightarrow> quiet strict m"
  unfolding quiet_def by metis

section \<open>Starting and continuing blocks\<close>

lemma delta_accepted:
  assumes "tracked m p" "is_block_open_of_type m i (block_of_delta t)" "json_get delta ''type'' = Some (JString t)"
  shows "protocol_run strict p (handle_content_block_delta i (block_delta_json i delta) m) = Some p"
proof -
  obtain b where b: "map_of (sm_active_blocks m) i = Some b" "block_open b" "bs_block_type b = block_of_delta t"
    using assms(2) by (auto simp: is_block_open_of_type_def split: option.splits)
  then have "ps_blocks p (json_int i) = Some (block_of_delta t, True)"
    using trackedD(3)[OF assms(1), of i] trackedD(5)[OF assms(1) b(1)] by (simp add: shown_def block_open_def)
  then show ?thesis
    using step_delta[OF trackedD(1)[OF assms(1)] _ assms(3), of i True strict] b
    by (simp add: handle_content_block_delta_def)
qed

text \<open>A context with its state machine after a new block was started.\<close>

definition with_block ::
  "'f stream_ops \<Rightarrow> string \<Rightarrow> (int \<Rightarrow> json) \<Rightarrow> 'f stream_context \<Rightarrow> 'f stream_context" where
  "with_block ops t data s =
     s\<lparr>sc_state_manager := snd (start_block (st_block_order ops) t data (sc_state_manager s))\<rparr>"

lemma base_with_block:
  assumes b: "base s p" and fair: "fair_order (st_block_order ops)"
    and t: "t \<in> {''text'', ''thinking'', ''tool_use''}"
    and block: "\<And>i. data i = block_start_json i block" "json_get block ''type'' = Some (JString t)"
  obtains p' where
    "protocol_run strict p (fst (start_block (st_block_order ops) t data (sc_state_manager s))) = Some p'"
    "base (with_block ops t data s) p'"
    "is_block_open_of_type (sc_state_manager (with_block ops t data s)) (sm_next_block_index (sc_state_manager s)) t"
    "thinking_open s \<longrightarrow> thinking_open (with_block ops t data s)"
proof -
  have tr: "tracked (sc_state_manager s) p" using b by (simp add: base_def)
  obtain p' where p': "protocol_run strict p (fst (start_block (st_block_order ops) t data (sc_state_manager s))) = Some p'"
    "tracked (sc_state_manager (with_block ops t data s)) p'"
    "types_kept (sc_state_manager s) (sc_state_manager (with_block ops t data s))"
    "thinking_kept (sc_state_manager s) (sc_state_manager (with_block ops t data s))"
    "map_of (sm_active_blocks (sc_state_manager (with_block ops t data s))) (sm_next_block_index (sc_state_manager s))
      = Some (fresh_block t)"
    by (rule start_block_tracked[OF tr fair t, of data block strict]) (use block in \<open>auto simp: with_block_def\<close>)
  show thesis
  proof (rule that[OF p'(1)])
    show "base (with_block ops t data s) p'"
      using b p'(2,3) by (auto simp: base_def types_kept_def with_block_def)
    show "is_block_open_of_type (sc_state_manager (with_block ops t data s)) (sm_next_block_index (sc_state_manager s)) t"
      using p'(5) by (simp add: is_block_open_of_type_def fresh_block_def block_open_def)
    show "thinking_open s \<longrightarrow> thinking_open (with_block ops t data s)"
      using p'(4) by (auto simp: thinking_open_def thinking_kept_def with_block_def split: option.splits)
  qed
qed

lemma start_in_context:
  "on_manager (handle_content_block_start order i t data) (snd (take_block_index s)\<lparr>sc_text_block_index := x\<rparr>)
    = (fst (handle_content_block_start order i t data (snd (next_block_index (sc_state_manager s)))),
       s\<lparr>sc_state_manager := snd (handle_content_block_start order i t data (snd (next_block_index (sc_state_manager s)))),
         sc_text_block_index := x\<rparr>)"
  by (simp add: on_manager_def take_block_index_def split_beta Let_def)

lemma fst_take_block_index: "fst (take_block_index s) = sm_next_block_index (sc_state_manager s)"
  by (simp add: take_block_index_def next_block_index_def)

section \<open>Text\<close>

definition text_data :: "int \<Rightarrow> json" where
  "text_data i = block_start_json i text_block_json"

lemma text_delta_cases:
  obtains (open_block) i where "sc_text_block_index s = Some i" "is_block_open_of_type (sc_state_manager s) i ''text''"
      "create_text_delta_events ops text s
        = (handle_content_block_delta i (block_delta_json i (text_delta_json text)) (sc_state_manager s), s)"
  | (new_block) i s' where "i = sm_next_block_index (sc_state_manager s)"
      "s' = with_block ops ''text'' text_data s\<lparr>sc_text_block_index := Some i\<rparr>"
      "create_text_delta_events ops text s
        = (fst (start_block (st_block_order ops) ''text'' text_data (sc_state_manager s))
             @ handle_content_block_delta i (block_delta_json i (text_delta_json text)) (sc_state_manager s'), s')"
proof (cases "\<exists>i. sc_text_block_index s = Some i \<and> is_block_open_of_type (sc_state_manager s) i ''text''")
  case True
  then show thesis using open_block by (auto simp: create_text_delta_events_def)
next
  case False
  let ?i = "sm_next_block_index (sc_state_manager s)"
  have "create_text_delta_events ops text s
    = (fst (start_block (st_block_order ops) ''text'' text_data (sc_state_manager s))
         @ handle_content_block_delta ?i (block_delta_json ?i (text_delta_json text))
             (sc_state_manager (with_block ops ''text'' text_data s\<lparr>sc_text_block_index := Some ?i\<rparr>)),
       with_block ops ''text'' text_data s\<lparr>sc_text_block_index := Some ?i\<rparr>)"
    using False
    by (auto simp: create_text_delta_events_def with_block_def text_data_def start_block_def next_block_index_def
        take_block_index_def on_manager_def split_beta Let_def split: option.splits)
  then show thesis by (rule new_block[OF refl refl])
qed

lemma quiet_text [emitter_rules]:
  assumes fair: "fair_order (st_block_order ops)"
  shows "quiet strict (create_text_delta_events ops text)"
  unfolding quiet_def
proof (intro allI impI)
  fix s :: "'a stream_context" and p assume b: "base s p"
  have tr: "tracked (sc_state_manager s) p" using b by (simp add: base_def)
  show "\<exists>p'. protocol_run strict p (fst (create_text_delta_events ops text s)) = Some p'
      \<and> base (snd (create_text_delta_events ops text s)) p'
      \<and> thinking_view (snd (create_text_delta_events ops text s)) = thinking_view s
      \<and> (thinking_open s \<longrightarrow> thinking_open (snd (create_text_delta_events ops text s)))"
  proof (cases rule: text_delta_cases[of s ops "text"])
    case (open_block i)
    then show ?thesis using delta_accepted[OF tr, of i "''text_delta''" "text_delta_json text" strict] b by simp
  next
    case (new_block i s')
    obtain p' where p': "protocol_run strict p (fst (start_block (st_block_order ops) ''text'' text_data (sc_state_manager s))) = Some p'"
      "base (with_block ops ''text'' text_data s) p'"
      "is_block_open_of_type (sc_state_manager (with_block ops ''text'' text_data s)) (sm_next_block_index (sc_state_manager s)) ''text''"
      "thinking_open s \<longrightarrow> thinking_open (with_block ops ''text'' text_data s)"
      by (rule base_with_block[OF b fair, of "''text''" text_data text_block_json strict]) (auto simp: text_data_def)
    have frame: "same_frame (with_block ops ''text'' text_data s) s'"
      by (simp add: new_block(2) same_frame_def thinking_view_def)
    have "base s' p'" using p'(2) same_frame_base[OF frame] by simp
    then have "tracked (sc_state_manager s') p'" by (simp add: base_def)
    then have "protocol_run strict p' (handle_content_block_delta i (block_delta_json i (text_delta_json text)) (sc_state_manager s')) = Some p'"
      using p'(3) new_block(1,2) by (intro delta_accepted[of _ _ _ "''text_delta''"]) simp_all
    moreover have "thinking_view s' = thinking_view s"
      by (simp add: new_block(2) thinking_view_def with_block_def)
    ultimately show ?thesis
      using p'(1,2,4) same_frame_base[OF frame] same_frame_open[OF frame] by (simp add: new_block(3))
  qed
qed

lemma quiet_guarded_text [emitter_rules]:
  assumes fair: "fair_order (st_block_order ops)"
  shows "quiet strict (create_guarded_text_delta_events ops text)"
proof (rule quiet_pointwise)
  fix s :: "'a stream_context"
  have q: "quiet strict (create_text_delta_events ops t)" for t by (rule quiet_text[OF fair])
  have frame: "same_frame s (s\<lparr>sc_visible_text_scan_buffer := x\<rparr>)"
    "same_frame s (replace_leaked_text r s)" for x r and s :: "'a stream_context"
    by (simp_all add: same_frame_def thinking_view_def replace_leaked_text_def)
  have held: "quiet strict (emit_update (\<lambda>s :: 'a stream_context. s\<lparr>sc_visible_text_scan_buffer := x\<rparr>))" for x
    by (rule quiet_update) (rule frame)
  have clean: "quiet strict (\<lambda>s. create_text_delta_events ops t (s\<lparr>sc_visible_text_scan_buffer := x\<rparr>))" for t x
    by (rule quiet_after[OF q]) (rule frame)
  have leaked: "quiet strict (\<lambda>s. create_text_delta_events ops t (replace_leaked_text r s))" for t r
    by (rule quiet_after[OF q]) (rule frame)
  have replaced: "replace_leaked_text r (s\<lparr>sc_visible_text_scan_buffer := x\<rparr>) = replace_leaked_text r s" for r x
    by (simp add: replace_leaked_text_def)
  let ?scan = "sc_visible_text_scan_buffer s @ text"
  let ?s = "if sc_visible_text_scan_buffer s = [] then s else s\<lparr>sc_visible_text_scan_buffer := ?scan\<rparr>"
  have scan: "?s\<lparr>sc_visible_text_scan_buffer := x\<rparr> = s\<lparr>sc_visible_text_scan_buffer := x\<rparr>" "replace_leaked_text r ?s = replace_leaked_text r s"
    "private_prompt_safe_text ?s = private_prompt_safe_text s" for x r
    by (auto simp: replaced private_prompt_safe_text_def identity_model_name_def fun_eq_iff split: option.split)
  have "create_guarded_text_delta_events ops text s = ([], s)
      \<or> create_guarded_text_delta_events ops text s = create_text_delta_events ops text s
      \<or> (\<exists>r. create_guarded_text_delta_events ops text s = create_text_delta_events ops r (replace_leaked_text r s))
      \<or> create_guarded_text_delta_events ops text s = ([], s\<lparr>sc_visible_text_scan_buffer := ?scan\<rparr>)
      \<or> create_guarded_text_delta_events ops text s = create_text_delta_events ops ?scan (s\<lparr>sc_visible_text_scan_buffer := []\<rparr>)"
    unfolding create_guarded_text_delta_events_def Let_def scan
    by (simp only: split: option.split if_split) blast
  then consider (none) "create_guarded_text_delta_events ops text s = emit_seq [] s"
    | (plain) "create_guarded_text_delta_events ops text s = create_text_delta_events ops text s"
    | (leak) r where "create_guarded_text_delta_events ops text s = create_text_delta_events ops r (replace_leaked_text r s)"
    | (hold) "create_guarded_text_delta_events ops text s = emit_update (\<lambda>s. s\<lparr>sc_visible_text_scan_buffer := ?scan\<rparr>) s"
    | (pass) "create_guarded_text_delta_events ops text s = create_text_delta_events ops ?scan (s\<lparr>sc_visible_text_scan_buffer := []\<rparr>)"
    by (auto simp: emit_update_def)
  then show "\<exists>m'. quiet strict m' \<and> create_guarded_text_delta_events ops text s = m' s"
  proof cases
    case none
    then show ?thesis using quiet_nil by blast
  next
    case plain
    then show ?thesis using q by blast
  next
    case (leak r)
    then show ?thesis using leaked[of r r] by (intro exI[of _ "\<lambda>s. create_text_delta_events ops r (replace_leaked_text r s)"]) simp
  next
    case hold
    then show ?thesis using held by blast
  next
    case pass
    then show ?thesis using clean[of ?scan "[]"]
      by (intro exI[of _ "\<lambda>s'. create_text_delta_events ops ?scan (s'\<lparr>sc_visible_text_scan_buffer := []\<rparr>)"]) simp
  qed
qed

lemma quiet_flush_text [emitter_rules]:
  assumes fair: "fair_order (st_block_order ops)"
  shows "quiet strict (flush_guarded_text_delta_events ops)"
proof (rule quiet_pointwise)
  fix s :: "'a stream_context"
  have q: "quiet strict (create_text_delta_events ops t)" for t by (rule quiet_text[OF fair])
  have frame: "same_frame s (s\<lparr>sc_visible_text_scan_buffer := x\<rparr>)"
    "same_frame s (replace_leaked_text r (s\<lparr>sc_visible_text_scan_buffer := x\<rparr>))" for x r and s :: "'a stream_context"
    by (simp_all add: same_frame_def thinking_view_def replace_leaked_text_def)
  let ?s = "s\<lparr>sc_visible_text_scan_buffer := []\<rparr>"
  have "flush_guarded_text_delta_events ops s = ([], ?s)
      \<or> (\<exists>r. flush_guarded_text_delta_events ops s = create_text_delta_events ops r (replace_leaked_text r ?s))
      \<or> (\<exists>r. flush_guarded_text_delta_events ops s = create_text_delta_events ops r ?s)"
    by (auto simp: flush_guarded_text_delta_events_def Let_def split: option.split)
  then consider "flush_guarded_text_delta_events ops s = emit_update (\<lambda>s. s\<lparr>sc_visible_text_scan_buffer := []\<rparr>) s"
    | r where "flush_guarded_text_delta_events ops s = create_text_delta_events ops r (replace_leaked_text r ?s)"
    | r where "flush_guarded_text_delta_events ops s = create_text_delta_events ops r ?s"
    by (auto simp: emit_update_def)
  then show "\<exists>m'. quiet strict m' \<and> flush_guarded_text_delta_events ops s = m' s"
  proof cases
    case 1
    have "quiet strict (emit_update (\<lambda>s :: 'a stream_context. s\<lparr>sc_visible_text_scan_buffer := []\<rparr>))"
      by (rule quiet_update) (rule frame)
    then show ?thesis using 1 by blast
  next
    case (2 r)
    have "quiet strict (\<lambda>s. create_text_delta_events ops r (replace_leaked_text r (s\<lparr>sc_visible_text_scan_buffer := []\<rparr>)))"
      by (rule quiet_after[OF q]) (rule frame)
    then show ?thesis using 2 by (intro exI conjI) auto
  next
    case (3 r)
    have "quiet strict (\<lambda>s. create_text_delta_events ops r (s\<lparr>sc_visible_text_scan_buffer := []\<rparr>))"
      by (rule quiet_after[OF q]) (rule frame)
    then show ?thesis using 3 by (intro exI conjI) auto
  qed
qed

section \<open>The thinking block\<close>

definition thinking_data :: "int \<Rightarrow> json" where
  "thinking_data i = block_start_json i thinking_block_json"

lemma open_thinking_block_eq:
  "open_thinking_block ops s =
    (fst (start_block (st_block_order ops) ''thinking'' thinking_data (sc_state_manager s)),
     with_block ops ''thinking'' thinking_data s
       \<lparr>sc_thinking_block_index := Some (sm_next_block_index (sc_state_manager s)), sc_in_thinking_block := True\<rparr>)"
  by (simp add: open_thinking_block_def with_block_def thinking_data_def start_block_def next_block_index_def
      take_block_index_def on_manager_def split_beta Let_def)

lemma accepts_open_thinking:
  assumes fair: "fair_order (st_block_order ops)"
  shows "accepts strict (\<lambda>s. sc_thinking_enabled s = e \<and> sc_thinking_extracted s = x) (open_thinking_block ops)
    (\<lambda>s. sc_thinking_enabled s = e \<and> sc_thinking_extracted s = x \<and> sc_in_thinking_block s \<and> thinking_open s)"
proof (rule acceptsI)
  fix s :: "'a stream_context" and p
  assume b: "base s p" and P: "sc_thinking_enabled s = e \<and> sc_thinking_extracted s = x"
  obtain p' where p': "protocol_run strict p (fst (start_block (st_block_order ops) ''thinking'' thinking_data (sc_state_manager s))) = Some p'"
    "base (with_block ops ''thinking'' thinking_data s) p'"
    "is_block_open_of_type (sc_state_manager (with_block ops ''thinking'' thinking_data s)) (sm_next_block_index (sc_state_manager s)) ''thinking''"
    by (rule base_with_block[OF b fair, of "''thinking''" thinking_data thinking_block_json strict]) (auto simp: thinking_data_def)
  let ?s = "snd (open_thinking_block ops s)"
  have "base ?s p'"
    using p'(2,3) by (auto simp: base_def open_thinking_block_eq is_block_open_of_type_def block_type_at_def split: option.splits)
  then show "\<exists>p'. protocol_run strict p (fst (open_thinking_block ops s)) = Some p' \<and> base ?s p' \<and>
      (sc_thinking_enabled ?s = e \<and> sc_thinking_extracted ?s = x \<and> sc_in_thinking_block ?s \<and> thinking_open ?s)"
    using p'(1,3) P by (simp add: open_thinking_block_eq thinking_open_def) (simp add: with_block_def)
qed

lemma stop_accepted:
  assumes tr: "tracked m p" and b: "map_of (sm_active_blocks m) i = Some b"
  obtains p' where "protocol_run strict p (fst (handle_content_block_stop i m)) = Some p'"
    "tracked (snd (handle_content_block_stop i m)) p'" "types_kept m (snd (handle_content_block_stop i m))"
    "bs_block_type b \<noteq> ''thinking'' \<longrightarrow> thinking_kept m (snd (handle_content_block_stop i m))"
proof (cases "bs_stopped b")
  case True
  then show thesis using that[of p] tr b by (simp add: handle_content_block_stop_def)
next
  case False
  have i: "0 \<le> i" by (rule trackedD(5)[OF tr b])
  let ?p = "p\<lparr>ps_blocks := (ps_blocks p)(json_int i \<mapsto> (bs_block_type b, False))\<rparr>"
  let ?m = "m\<lparr>sm_active_blocks := hm_insert i (b\<lparr>bs_stopped := True\<rparr>) (sm_active_blocks m)\<rparr>"
  have stop: "handle_content_block_stop i m = ([block_stop_event i], ?m)"
    using False b by (simp add: handle_content_block_stop_def)
  have "ps_blocks p (json_int i) = Some (bs_block_type b, True)"
    using trackedD(3)[OF tr i] b False by (simp add: shown_def)
  then have run: "protocol_run strict p (fst (handle_content_block_stop i m)) = Some ?p"
    using step_stop[OF trackedD(1)[OF tr]] by (simp add: stop)
  have "tracked ?m ?p" using tr b i by (auto simp: tracked_def json_int_inj shown_def)
  moreover have "types_kept m ?m" using b by (auto simp: types_kept_def block_type_at_def)
  moreover have "bs_block_type b \<noteq> ''thinking'' \<longrightarrow> thinking_kept m ?m"
    using b by (auto simp: thinking_kept_def is_block_open_of_type_def split: option.splits)
  ultimately show thesis using that[OF run] by (simp add: stop)
qed

lemma accepts_finalize:
  shows "accepts strict (\<lambda>s. (strict \<longrightarrow> sc_thinking_block_index s \<noteq> None \<longrightarrow> thinking_open s) \<and> thinking_view s = v)
    (finalize_open_thinking_block ops) (\<lambda>s. thinking_view s = v)"
proof (rule acceptsI)
  fix s :: "'a stream_context" and p
  assume b: "base s p" and P: "(strict \<longrightarrow> sc_thinking_block_index s \<noteq> None \<longrightarrow> thinking_open s) \<and> thinking_view s = v"
  show "\<exists>p'. protocol_run strict p (fst (finalize_open_thinking_block ops s)) = Some p'
      \<and> base (snd (finalize_open_thinking_block ops s)) p' \<and> thinking_view (snd (finalize_open_thinking_block ops s)) = v"
  proof (cases "sc_thinking_block_index s")
    case None
    then show ?thesis using b P by (simp add: finalize_open_thinking_block_def)
  next
    case (Some i)
    let ?m = "sc_state_manager s"
    have tr: "tracked ?m p" using b by (simp add: base_def)
    obtain blk where blk: "map_of (sm_active_blocks ?m) i = Some blk" "bs_block_type blk = ''thinking''"
      using b Some by (auto simp: base_def block_type_at_def)
    have "ps_blocks p (json_int i) = Some (''thinking'', \<not> bs_stopped blk)"
      using trackedD(3)[OF tr, of i] trackedD(5)[OF tr blk(1)] blk by (simp add: shown_def)
    then have delta: "protocol_run strict p [create_thinking_delta_event i t] = Some p" for t
      using step_delta[OF trackedD(1)[OF tr], of i "''thinking_delta''" "\<not> bs_stopped blk" "thinking_delta_json t" strict]
        P Some blk
      by (auto simp: create_thinking_delta_event_def thinking_open_def is_block_open_of_type_def block_open_def)
    have sig: "protocol_run strict p (handle_content_block_delta i (block_delta_json i (signature_delta_json g)) ?m) = Some p" for g
    proof (cases "block_open blk")
      case True
      then show ?thesis
        using delta_accepted[OF tr, of i "''signature_delta''" "signature_delta_json g" strict] blk
        by (simp add: is_block_open_of_type_def)
    qed (simp add: handle_content_block_delta_def blk)
    obtain p' where p': "protocol_run strict p (fst (handle_content_block_stop i ?m)) = Some p'"
      "tracked (snd (handle_content_block_stop i ?m)) p'" "types_kept ?m (snd (handle_content_block_stop i ?m))"
      by (rule stop_accepted[OF tr blk(1), of strict])
    have "protocol_run strict p (fst (finalize_open_thinking_block ops s)) = Some p'"
      using delta sig p'(1) by (simp add: finalize_open_thinking_block_def Some on_manager_def Let_def split_beta)
    moreover have "base (snd (finalize_open_thinking_block ops s)) p'"
      using b p'(2,3) Some
      by (auto simp: finalize_open_thinking_block_def on_manager_def Let_def split_beta base_def types_kept_def)
    moreover have "thinking_view (snd (finalize_open_thinking_block ops s)) = v"
      using P Some by (simp add: finalize_open_thinking_block_def on_manager_def Let_def split_beta thinking_view_def)
    ultimately show ?thesis by blast
  qed
qed

end
