(* ===== verification/StreamEventsSound.thy ===== *)
theory StreamEventsSound
  imports StreamSoundness
begin

text \<open>
  The automaton accepts what the methods of the translation emit for each upstream event, and
  the final events bring it to its end.
\<close>

section \<open>Conditions\<close>

lemma stable_view: "stable (\<lambda>s. Q (thinking_view s))"
  by (simp add: stable_def)

lemma stable_good: "stable good"
  by (auto simp: stable_def good_def thinking_view_def)

lemma good_view:
  "\<not> sc_in_thinking_block s \<Longrightarrow>
    good s = (case thinking_view s of (e, i, x, index) \<Rightarrow> e \<longrightarrow> x \<longrightarrow> index \<noteq> None)"
  by (auto simp: good_def thinking_view_def)

text \<open>What holds even after a thinking block was finalised with \<open>in_thinking_block\<close> set.\<close>

definition weak :: "'f stream_context \<Rightarrow> bool" where
  "weak s =
     (case thinking_view s of (e, i, x, index) \<Rightarrow> e \<longrightarrow> i \<or> x \<longrightarrow> index \<noteq> None)"

lemma good_weak: "good s \<Longrightarrow> weak s"
  by (auto simp: good_def weak_def thinking_view_def thinking_open_def split: option.splits)

lemma stable_weak: "stable weak"
  unfolding weak_def by (rule stable_view)

lemma good_frame: "same_frame s s' \<Longrightarrow> good s' = good s"
  using same_frame_open[of s s'] by (auto simp: good_def same_frame_def thinking_view_def)

lemma accepts_frame: "(\<And>s. same_frame s (f s)) \<Longrightarrow> stable P \<Longrightarrow> accepts strict P (emit_update f) P"
  by (rule accepts_quiet[OF quiet_update])

lemma accepts_finalize_view:
  "accepts strict (\<lambda>s. (strict \<longrightarrow> sc_thinking_block_index s \<noteq> None \<longrightarrow> thinking_open s) \<and> Q (thinking_view s))
    (finalize_open_thinking_block ops) (\<lambda>s. Q (thinking_view s))"
proof (rule acceptsI)
  fix s :: "'a stream_context" and p
  assume "base s p" "(strict \<longrightarrow> sc_thinking_block_index s \<noteq> None \<longrightarrow> thinking_open s) \<and> Q (thinking_view s)"
  then show "\<exists>p'. protocol_run strict p (fst (finalize_open_thinking_block ops s)) = Some p'
      \<and> base (snd (finalize_open_thinking_block ops s)) p' \<and> Q (thinking_view (snd (finalize_open_thinking_block ops s)))"
    using acceptsE[OF accepts_finalize[of strict "thinking_view s" ops], of s p] by metis
qed

section \<open>Leaving and synthesising the thinking block\<close>

definition left_block :: "bool \<times> bool \<times> bool \<times> int option \<Rightarrow> bool" where
  "left_block v = (case v of (e, i, x, index) \<Rightarrow> \<not> i \<and> x \<and> (e \<longrightarrow> index \<noteq> None))"

lemma left_good: "left_block (thinking_view s) \<Longrightarrow> good s"
  by (auto simp: left_block_def thinking_view_def good_def)

lemma leave_base: "base (leave_thinking_block s) p = base s p"
  by (simp add: base_def leave_thinking_block_def)

lemma leave_view:
  "thinking_view (leave_thinking_block s) = (sc_thinking_enabled s, False, True, sc_thinking_block_index s)"
  "thinking_open (leave_thinking_block s) = thinking_open s"
  "sc_thinking_enabled (leave_thinking_block s) = sc_thinking_enabled s"
  "sc_thinking_block_index (leave_thinking_block s) = sc_thinking_block_index s"
  by (auto simp: thinking_view_def leave_thinking_block_def thinking_open_def split: option.splits)

lemma open_index: "thinking_open s \<Longrightarrow> sc_thinking_block_index s \<noteq> None"
  by (auto simp: thinking_open_def split: option.splits)

lemma accepts_leave_finalize:
  "accepts strict (\<lambda>s. (strict \<longrightarrow> thinking_open s) \<and> (sc_thinking_enabled s \<longrightarrow> sc_thinking_block_index s \<noteq> None))
    (emit_seq [emit_update leave_thinking_block, finalize_open_thinking_block ops]) (\<lambda>s. left_block (thinking_view s))"
proof (rule accepts_seq)
  show "accepts strict (\<lambda>s. (strict \<longrightarrow> thinking_open s) \<and> (sc_thinking_enabled s \<longrightarrow> sc_thinking_block_index s \<noteq> None))
      (emit_update leave_thinking_block)
      (\<lambda>s. (strict \<longrightarrow> sc_thinking_block_index s \<noteq> None \<longrightarrow> thinking_open s) \<and> left_block (thinking_view s))"
    by (rule accepts_update) (auto simp: leave_base leave_view left_block_def)
  show "accepts strict (\<lambda>s. (strict \<longrightarrow> sc_thinking_block_index s \<noteq> None \<longrightarrow> thinking_open s) \<and> left_block (thinking_view s))
      (emit_seq [finalize_open_thinking_block ops]) (\<lambda>s. left_block (thinking_view s))"
    by (rule accepts_seq[OF accepts_finalize_view]) (rule accepts_nil)
qed

lemma accepts_end_thinking:
  "accepts strict (\<lambda>s. good s \<and> sc_in_thinking_block s) (end_thinking_block ops) (\<lambda>s. left_block (thinking_view s))"
  unfolding end_thinking_block_def
proof (rule accepts_seq)
  show "accepts strict (\<lambda>s. good s \<and> sc_in_thinking_block s) (emit_update leave_thinking_block)
      (\<lambda>s. (sc_thinking_enabled s \<longrightarrow> thinking_open s) \<and> left_block (thinking_view s))"
    by (rule accepts_update) (auto simp: leave_base leave_view left_block_def good_def dest: open_index)
  show "accepts strict (\<lambda>s. (sc_thinking_enabled s \<longrightarrow> thinking_open s) \<and> left_block (thinking_view s))
      (emit_seq [emit_when sc_thinking_enabled (finalize_open_thinking_block ops)]) (\<lambda>s. left_block (thinking_view s))"
    by (rule accepts_seq[OF accepts_when accepts_nil], rule accepts_weaken[OF accepts_finalize_view]) auto
qed

lemma accepts_buffer:
  "stable P \<Longrightarrow> accepts strict P (emit_update (\<lambda>s. buffer_thinking_content (t s) s)) P"
  by (rule accepts_frame) (simp_all add: same_frame_def buffer_thinking_content_def thinking_view_def)

lemma accepts_synthesize_core:
  assumes fair: "fair_order (st_block_order ops)"
  shows "accepts strict should_synthesize_thinking_block
    (emit_seq [open_thinking_block ops,
       emit_update (\<lambda>s. buffer_thinking_content (unwrap_or (canonical_identity_thinking s) SYNTHETIC_THINKING_PLACEHOLDER) s),
       emit_update leave_thinking_block, finalize_open_thinking_block ops])
    (\<lambda>s. left_block (thinking_view s))"
proof (rule accepts_seq[where R = thinking_open])
  show "accepts strict should_synthesize_thinking_block (open_thinking_block ops) thinking_open"
    by (rule accepts_weaken[OF accepts_open_thinking[OF fair, of _ True False]])
      (auto simp: should_synthesize_thinking_block_def)
  show "accepts strict thinking_open
      (emit_seq [emit_update (\<lambda>s. buffer_thinking_content (unwrap_or (canonical_identity_thinking s) SYNTHETIC_THINKING_PLACEHOLDER) s),
         emit_update leave_thinking_block, finalize_open_thinking_block ops]) (\<lambda>s. left_block (thinking_view s))"
  proof (rule accepts_seq[OF accepts_buffer])
    show "stable thinking_open" by (simp add: stable_def)
    show "accepts strict thinking_open (emit_seq [emit_update leave_thinking_block, finalize_open_thinking_block ops])
        (\<lambda>s. left_block (thinking_view s))"
      by (rule accepts_weaken[OF accepts_leave_finalize]) (auto dest: open_index)
  qed
qed

lemma synthesize_good:
  assumes fair: "fair_order (st_block_order ops)"
  shows "accepts strict good (synthesize_thinking_block ops) good"
  unfolding synthesize_thinking_block_def
  by (rule accepts_when[OF accepts_weaken[OF accepts_synthesize_core[OF fair]]]) (auto simp: left_good)

lemma synthesize_weak:
  assumes fair: "fair_order (st_block_order ops)"
  shows "accepts strict weak (synthesize_thinking_block ops)
    (\<lambda>s. weak s \<and> (sc_thinking_enabled s \<longrightarrow> sc_thinking_block_index s \<noteq> None))"
proof (rule acceptsI)
  fix s :: "'a stream_context" and p assume b: "base s p" and w: "weak s"
  show "\<exists>p'. protocol_run strict p (fst (synthesize_thinking_block ops s)) = Some p'
      \<and> base (snd (synthesize_thinking_block ops s)) p' \<and> weak (snd (synthesize_thinking_block ops s))
      \<and> (sc_thinking_enabled (snd (synthesize_thinking_block ops s))
          \<longrightarrow> sc_thinking_block_index (snd (synthesize_thinking_block ops s)) \<noteq> None)"
  proof (cases "should_synthesize_thinking_block s")
    case True
    then obtain p' where "protocol_run strict p (fst (synthesize_thinking_block ops s)) = Some p'"
      "base (snd (synthesize_thinking_block ops s)) p'"
      "left_block (thinking_view (snd (synthesize_thinking_block ops s)))"
      using acceptsE[OF accepts_synthesize_core[OF fair, of strict] b]
      by (auto simp: synthesize_thinking_block_def emit_when_def)
    then show ?thesis by (auto simp: left_block_def weak_def thinking_view_def)
  next
    case False
    then have "sc_thinking_enabled s \<longrightarrow> sc_thinking_block_index s \<noteq> None"
      using b w by (auto simp: should_synthesize_thinking_block_def structured_output_mode_def base_def weak_def thinking_view_def)
    then show ?thesis using False b w by (simp add: synthesize_thinking_block_def emit_when_def)
  qed
qed

section \<open>Inline thinking\<close>

lemma enter_good:
  assumes fair: "fair_order (st_block_order ops)"
  shows "accepts strict (\<lambda>s. good s \<and> \<not> sc_in_thinking_block s \<and> \<not> sc_thinking_extracted s)
    (enter_inline_thinking ops start_pos) good"
proof (rule acceptsI)
  let ?P = "\<lambda>s :: 'a stream_context. \<not> sc_in_thinking_block s \<and> \<not> sc_thinking_extracted s"
  let ?enter = "\<lambda>s :: 'a stream_context. s\<lparr>sc_in_thinking_block := True, sc_assistant_inline_thinking_extracted := True,
           sc_strip_thinking_leading_newline := True,
           sc_thinking_buffer := drop (start_pos + length THINKING_START_TAG) (sc_thinking_buffer s)\<rparr>"
  fix s :: "'a stream_context" and p
  assume b: "base s p" and P: "good s \<and> \<not> sc_in_thinking_block s \<and> \<not> sc_thinking_extracted s"
  have "accepts strict ?P (emit_seq
      [emit_when (\<lambda>_. str_trim (take start_pos (sc_thinking_buffer s)) \<noteq> [])
         (create_guarded_text_delta_events ops (take start_pos (sc_thinking_buffer s))),
       emit_update ?enter, emit_when sc_thinking_enabled (open_thinking_block ops)]) good"
  proof (rule accepts_seq[where R = ?P])
    show "accepts strict ?P (emit_when (\<lambda>_. str_trim (take start_pos (sc_thinking_buffer s)) \<noteq> [])
         (create_guarded_text_delta_events ops (take start_pos (sc_thinking_buffer s)))) ?P"
      by (rule accepts_quiet[OF quiet_when[OF quiet_guarded_text[OF fair]]]) (auto simp: stable_def thinking_view_def)
    show "accepts strict ?P (emit_seq [emit_update ?enter, emit_when sc_thinking_enabled (open_thinking_block ops)]) good"
    proof (rule accepts_seq[where R = "\<lambda>s. \<not> sc_thinking_extracted s"])
      show "accepts strict ?P (emit_update ?enter) (\<lambda>s. \<not> sc_thinking_extracted s)"
        by (rule accepts_update) (auto simp: base_def)
      show "accepts strict (\<lambda>s. \<not> sc_thinking_extracted s) (emit_seq [emit_when sc_thinking_enabled (open_thinking_block ops)]) good"
        by (rule accepts_seq[OF accepts_when[OF accepts_weaken[OF accepts_open_thinking[OF fair, of _ True False]]] accepts_nil])
          (auto simp: good_def)
    qed
  qed
  then show "\<exists>p'. protocol_run strict p (fst (enter_inline_thinking ops start_pos s)) = Some p'
      \<and> base (snd (enter_inline_thinking ops start_pos s)) p' \<and> good (snd (enter_inline_thinking ops start_pos s))"
    using b P by (simp add: enter_inline_thinking_def accepts_def Let_def)
qed

lemma frame_buffers:
  "same_frame s (buffer_thinking_content t s)" "same_frame s (buffer_if_enabled t s)"
  "same_frame s (strip_leading_newline s)" "same_frame s (buffer_safe_thinking s)"
  "same_frame s (s\<lparr>sc_thinking_buffer := x\<rparr>)"
  by (simp_all add: same_frame_def buffer_thinking_content_def buffer_if_enabled_def strip_leading_newline_def
      buffer_safe_thinking_def thinking_view_def Let_def)

lemma left_stable: "stable (\<lambda>s. left_block (thinking_view s))"
  by (rule stable_view)

lemma leave_good:
  "accepts strict (\<lambda>s. good s \<and> sc_in_thinking_block s) (leave_inline_thinking ops end_pos) (\<lambda>s. left_block (thinking_view s))"
proof (rule acceptsI)
  let ?P = "\<lambda>s :: 'a stream_context. good s \<and> sc_in_thinking_block s"
  fix s :: "'a stream_context" and p
  assume b: "base s p" and P: "good s \<and> sc_in_thinking_block s"
  have st: "stable ?P" by (auto simp: stable_def good_def thinking_view_def)
  have "accepts strict ?P (emit_seq
      [emit_update (buffer_if_enabled (take end_pos (sc_thinking_buffer s))), end_thinking_block ops,
       emit_update (\<lambda>s. s\<lparr>sc_thinking_buffer := drop (end_pos + length THINKING_END_TAG + 2) (sc_thinking_buffer s)\<rparr>)])
      (\<lambda>s. left_block (thinking_view s))"
    by (rule accepts_seq[OF accepts_frame[OF frame_buffers(2) st]], rule accepts_seq[OF accepts_end_thinking],
        rule accepts_seq[OF accepts_frame[OF frame_buffers(5) left_stable]], rule accepts_nil)
  then show "\<exists>p'. protocol_run strict p (fst (leave_inline_thinking ops end_pos s)) = Some p'
      \<and> base (snd (leave_inline_thinking ops end_pos s)) p' \<and> left_block (thinking_view (snd (leave_inline_thinking ops end_pos s)))"
    using b P by (simp add: leave_inline_thinking_def accepts_def)
qed

lemma emit_safe_text_good:
  assumes fair: "fair_order (st_block_order ops)"
  shows "accepts strict good (emit_safe_text ops) good"
proof (rule acceptsI)
  fix s :: "'a stream_context" and p assume b: "base s p" and P: "good s"
  have syn: "accepts strict good (emit_when sc_thinking_enabled (synthesize_thinking_block ops)) good"
    by (rule accepts_when[OF accepts_weaken[OF synthesize_good[OF fair]]]) auto
  have "accepts strict good (emit_when (\<lambda>_. c) (emit_seq
      [emit_when sc_thinking_enabled (synthesize_thinking_block ops), create_guarded_text_delta_events ops t,
       emit_update (\<lambda>s. s\<lparr>sc_thinking_buffer := drop n (sc_thinking_buffer s)\<rparr>)])) good" for c t n
    by (rule accepts_when, rule accepts_weaken, rule accepts_seq[OF syn],
        rule accepts_seq[OF accepts_quiet[OF quiet_guarded_text[OF fair] stable_good]],
        rule accepts_seq[OF accepts_frame[OF frame_buffers(5) stable_good]], rule accepts_nil) auto
  then show "\<exists>p'. protocol_run strict p (fst (emit_safe_text ops s)) = Some p'
      \<and> base (snd (emit_safe_text ops s)) p' \<and> good (snd (emit_safe_text ops s))"
    using b P by (simp add: emit_safe_text_def accepts_def Let_def)
qed

lemma emit_remaining_good:
  assumes fair: "fair_order (st_block_order ops)"
  shows "quiet strict (emit_remaining_text ops)"
proof (rule quiet_pointwise)
  fix s :: "'a stream_context"
  have "quiet strict (\<lambda>s. create_guarded_text_delta_events ops t (s\<lparr>sc_thinking_buffer := []\<rparr>))" for t
    by (rule quiet_after[OF quiet_guarded_text[OF fair]]) (rule frame_buffers)
  then show "\<exists>m'. quiet strict m' \<and> emit_remaining_text ops s = m' s"
    using quiet_nil[of strict] by (auto simp: emit_remaining_text_def Let_def intro: exI[of _ "emit_seq []"])
qed

lemma content_loop_good:
  assumes fair: "fair_order (st_block_order ops)"
  shows "base s p \<Longrightarrow> good s \<Longrightarrow>
    \<exists>p'. protocol_run strict p (fst (content_loop ops s)) = Some p' \<and> base (snd (content_loop ops s)) p'
      \<and> good (snd (content_loop ops s))"
proof (induction "thinking_phase s" arbitrary: s p rule: less_induct)
  case less
  let ?s = "strip_leading_newline s"
  note then_loop = content_loop.simps[of ops s]
  have frame: "same_frame s ?s" by (rule frame_buffers)
  have b: "base ?s p" "good ?s" using less.prems same_frame_base[OF frame] good_frame[OF frame] by blast+
  have inn: "sc_in_thinking_block ?s = sc_in_thinking_block s" using frame by (simp add: same_frame_def thinking_view_def)
  have continue: "\<exists>p'. protocol_run strict p (fst step @ fst (content_loop ops (snd step))) = Some p'
      \<and> base (snd (content_loop ops (snd step))) p' \<and> good (snd (content_loop ops (snd step)))"
    if "thinking_phase (snd step) < thinking_phase s" "protocol_run strict p (fst step) = Some p1" "base (snd step) p1"
      "good (snd step)" for step p1
    using less.hyps[OF that(1,3,4)] that(2) by auto
  consider (enter) start_pos where "\<not> sc_in_thinking_block s" "\<not> sc_thinking_extracted s"
      "find_real_thinking_start_tag (sc_thinking_buffer s) = Some start_pos"
    | (outside) "\<not> sc_in_thinking_block s" "\<not> sc_thinking_extracted s"
      "find_real_thinking_start_tag (sc_thinking_buffer s) = None"
    | (leave) end_pos where "sc_in_thinking_block s" "find_real_thinking_end_tag (sc_thinking_buffer ?s) = Some end_pos"
    | (inside) "sc_in_thinking_block s" "find_real_thinking_end_tag (sc_thinking_buffer ?s) = None"
    | (behind) "\<not> sc_in_thinking_block s" "sc_thinking_extracted s"
    by blast
  then show ?case
  proof cases
    case enter
    obtain p1 where p1: "protocol_run strict p (fst (enter_inline_thinking ops start_pos s)) = Some p1"
      "base (snd (enter_inline_thinking ops start_pos s)) p1" "good (snd (enter_inline_thinking ops start_pos s))"
      using acceptsE[OF enter_good[OF fair, of strict start_pos] less.prems(1)] less.prems(2) enter(1,2) by blast
    show ?thesis
      using continue[OF phase_decreases(1)[OF enter(1,2)] p1] enter by (simp add: then_loop Let_def)
  next
    case outside
    then show ?thesis
      using acceptsE[OF emit_safe_text_good[OF fair, of strict] less.prems] by (simp add: then_loop) metis
  next
    case leave
    obtain p1 where p1: "protocol_run strict p (fst (leave_inline_thinking ops end_pos ?s)) = Some p1"
      "base (snd (leave_inline_thinking ops end_pos ?s)) p1"
      "left_block (thinking_view (snd (leave_inline_thinking ops end_pos ?s)))"
      using acceptsE[OF leave_good[of strict ops end_pos] b(1)] b(2) inn leave(1) by blast
    show ?thesis
      using continue[OF phase_decreases(2)[OF leave(1)] p1(1,2) left_good[OF p1(3)]] leave by (simp add: then_loop Let_def)
  next
    case inside
    then show ?thesis
      using b same_frame_base[OF frame_buffers(4), of ?s p] good_frame[OF frame_buffers(4), of ?s] by (simp add: then_loop)
  next
    case behind
    then show ?thesis
      using acceptsE[OF accepts_quiet[OF emit_remaining_good[OF fair, of strict] stable_good] less.prems]
      by (simp add: then_loop) metis
  qed
qed

lemma accepts_before:
  assumes "accepts strict P m Q" "\<And>s. same_frame s (f s)" "stable P"
  shows "accepts strict P (\<lambda>s. m (f s)) Q"
proof (rule acceptsI)
  fix s p assume "base s p" "P s"
  then have "base (f s) p" "P (f s)"
    using assms(2,3) same_frame_base[OF assms(2)] same_frame_open[OF assms(2)]
    by (auto simp: stable_def same_frame_def)
  then show "\<exists>p'. protocol_run strict p (fst (m (f s))) = Some p' \<and> base (snd (m (f s))) p' \<and> Q (snd (m (f s)))"
    using assms(1) by (auto simp: accepts_def)
qed

section \<open>Upstream events\<close>

lemma process_content_good:
  assumes fair: "fair_order (st_block_order ops)"
  shows "accepts strict good (process_content_with_thinking ops content) good"
  unfolding process_content_with_thinking_def
proof (rule accepts_before[where m = "content_loop ops"])
  show "accepts strict good (content_loop ops) good"
    by (rule acceptsI) (rule content_loop_good[OF fair])
qed (auto simp: stable_good same_frame_def thinking_view_def)

lemma apply_identity_frame: "same_frame s (apply_identity_response s)"
  by (simp add: same_frame_def apply_identity_response_def thinking_view_def split: option.split)

lemma accepts_pointwise:
  "(\<And>s. P s \<Longrightarrow> \<exists>m'. accepts strict P m' Q \<and> m s = m' s) \<Longrightarrow> accepts strict P m Q"
  unfolding accepts_def by metis

lemma accepts_as: "accepts strict P m Q \<Longrightarrow> r = m s \<Longrightarrow> \<exists>m'. accepts strict P m' Q \<and> r = m' s"
  by blast

lemma assistant_response_good:
  assumes fair: "fair_order (st_block_order ops)"
  shows "accepts strict good (process_assistant_response ops content) good"
proof (rule accepts_pointwise)
  fix s :: "'a stream_context"
  let ?add = "\<lambda>s :: 'a stream_context. s\<lparr>sc_assistant_content := sc_assistant_content s @ content,
                   sc_output_tokens := sc_output_tokens s + estimate_tokens content\<rparr>"
  have frame: "same_frame s (?add s)" "same_frame s (s\<lparr>sc_structured_output_text_buffer := x\<rparr>)" for s :: "'a stream_context" and x
    by (simp_all add: same_frame_def thinking_view_def)
  have reasoning: "accepts strict good (emit_seq
      [emit_when (\<lambda>s. sc_thinking_enabled s \<and> sc_in_thinking_block s) (end_thinking_block ops),
       create_guarded_text_delta_events ops content]) good"
  proof (rule accepts_seq[where R = good])
    show "accepts strict good (emit_when (\<lambda>s. sc_thinking_enabled s \<and> sc_in_thinking_block s) (end_thinking_block ops)) good"
      by (rule accepts_when[OF accepts_weaken[OF accepts_end_thinking]]) (auto simp: left_good)
    show "accepts strict good (emit_seq [create_guarded_text_delta_events ops content]) good"
      by (rule accepts_seq[OF accepts_quiet[OF quiet_guarded_text[OF fair] stable_good] accepts_nil])
  qed
  have content: "accepts strict good (\<lambda>s. process_content_with_thinking ops content (?add s)) good"
    by (rule accepts_before[OF process_content_good[OF fair] frame(1) stable_good])
  have after: "accepts strict good (\<lambda>s. emit_seq
      [emit_when (\<lambda>s. sc_thinking_enabled s \<and> sc_in_thinking_block s) (end_thinking_block ops),
       create_guarded_text_delta_events ops content] (?add s)) good"
    by (rule accepts_before[OF reasoning frame(1) stable_good])
  have plain: "accepts strict good (\<lambda>s. create_guarded_text_delta_events ops content (?add s)) good"
    by (rule accepts_before[OF accepts_quiet[OF quiet_guarded_text[OF fair] stable_good] frame(1) stable_good])
  have buffered: "accepts strict good (emit_update (\<lambda>s :: 'a stream_context. s\<lparr>sc_structured_output_text_buffer := x\<rparr>)) good" for x
    by (rule accepts_frame[OF _ stable_good]) (rule frame)
  have identity: "accepts strict good (emit_update apply_identity_response :: 'a emitter) good"
    by (rule accepts_frame[OF apply_identity_frame stable_good])
  have silent: "accepts strict good (emit_seq [] :: 'a emitter) good" by (rule accepts_nil)
  have "process_assistant_response ops content s = emit_seq [] s
      \<or> process_assistant_response ops content s = process_content_with_thinking ops content (?add s)
      \<or> process_assistant_response ops content s = emit_seq
          [emit_when (\<lambda>s. sc_thinking_enabled s \<and> sc_in_thinking_block s) (end_thinking_block ops),
           create_guarded_text_delta_events ops content] (?add s)
      \<or> process_assistant_response ops content s = create_guarded_text_delta_events ops content (?add s)
      \<or> process_assistant_response ops content s = emit_update apply_identity_response s
      \<or> process_assistant_response ops content s
          = emit_update (\<lambda>s'. s'\<lparr>sc_structured_output_text_buffer := sc_structured_output_text_buffer s @ content\<rparr>) s"
    unfolding process_assistant_response_def Let_def emit_update_def emit_seq.simps(1)
    by (simp only: split: if_split) blast
  then show "\<exists>m'. accepts strict good m' good \<and> process_assistant_response ops content s = m' s"
  proof (elim disjE)
    assume "process_assistant_response ops content s = emit_seq [] s"
    with silent show ?thesis by (rule accepts_as)
  next
    assume "process_assistant_response ops content s = process_content_with_thinking ops content (?add s)"
    with content show ?thesis by (rule accepts_as)
  next
    assume "process_assistant_response ops content s = create_guarded_text_delta_events ops content (?add s)"
    with plain show ?thesis by (rule accepts_as)
  next
    assume "process_assistant_response ops content s = emit_update apply_identity_response s"
    with identity show ?thesis by (rule accepts_as)
  qed (rule accepts_as[OF after] accepts_as[OF buffered], assumption)+
qed

section \<open>Reasoning\<close>

lemma good_openD:
  "good s \<Longrightarrow> sc_thinking_enabled s \<Longrightarrow> sc_in_thinking_block s \<Longrightarrow> thinking_open s"
  "good s \<Longrightarrow> sc_thinking_enabled s \<Longrightarrow> sc_in_thinking_block s \<Longrightarrow> \<exists>i. sc_thinking_block_index s = Some i"
  by (auto simp: good_def thinking_open_def split: option.splits)

lemma open_thinking_good:
  assumes fair: "fair_order (st_block_order ops)"
  shows "accepts strict (\<lambda>s. sc_thinking_enabled s \<and> \<not> sc_thinking_extracted s) (open_thinking_block ops)
    (\<lambda>s. good s \<and> sc_thinking_enabled s \<and> \<not> sc_thinking_extracted s \<and> thinking_open s)"
  by (rule accepts_weaken[OF accepts_open_thinking[OF fair, of _ True False]]) (auto simp: good_def)

lemma identity_reasoning_good:
  assumes fair: "fair_order (st_block_order ops)"
  shows "accepts strict (\<lambda>s. good s \<and> sc_thinking_enabled s) (process_identity_reasoning_content ops signature) good"
proof -
  let ?P = "\<lambda>s :: 'a stream_context. good s \<and> sc_thinking_enabled s"
  have st: "stable ?P" by (auto simp: stable_def good_def thinking_view_def)
  have frame: "same_frame s (case x s of Some thinking \<Rightarrow> buffer_thinking_content thinking
        (s\<lparr>sc_output_tokens := sc_output_tokens s + estimate_tokens thinking\<rparr>) | None \<Rightarrow> s)"
    for s :: "'a stream_context" and x
    by (simp add: same_frame_def buffer_thinking_content_def thinking_view_def split: option.split)
  have opened: "accepts strict (\<lambda>s. ?P s \<and> sc_completed_thinking_content s = None \<and> \<not> sc_thinking_extracted s)
      (emit_seq [emit_when (\<lambda>s. \<not> sc_in_thinking_block s) (open_thinking_block ops),
        emit_update (\<lambda>s. case x s of Some thinking \<Rightarrow> buffer_thinking_content thinking
          (s\<lparr>sc_output_tokens := sc_output_tokens s + estimate_tokens thinking\<rparr>) | None \<Rightarrow> s)]) ?P" for x
    by (rule accepts_seq[OF accepts_when[OF accepts_weaken[OF open_thinking_good[OF fair]]]
          accepts_seq[OF accepts_frame[OF frame st] accepts_nil]]) auto
  have ended: "accepts strict ?P (emit_seq [emit_when (\<lambda>s. filter_nonempty signature \<noteq> None \<and> sc_in_thinking_block s)
      (emit_seq [emit_update leave_thinking_block, finalize_open_thinking_block ops])]) good"
    by (rule accepts_seq[OF accepts_when[OF accepts_weaken[OF accepts_leave_finalize]] accepts_nil])
      (auto intro: left_good dest: good_openD)
  show ?thesis
    unfolding process_identity_reasoning_content_def
    by (rule accepts_seq[OF accepts_frame[OF apply_identity_frame st]],
        rule accepts_seq[OF accepts_when[OF accepts_weaken[OF opened]] ended]) auto
qed

lemma reasoning_good:
  assumes fair: "fair_order (st_block_order ops)"
  shows "accepts strict
    (\<lambda>s. good s \<and> (strict \<and> filter_nonempty signature \<noteq> None \<longrightarrow> \<not> sc_thinking_extracted s))
    (process_reasoning_content ops txt signature) good"
proof -
  let ?signed = "filter_nonempty signature \<noteq> None"
  let ?P = "\<lambda>s :: 'a stream_context. good s \<and> sc_thinking_enabled s \<and> (strict \<and> ?signed \<longrightarrow> \<not> sc_thinking_extracted s)"
  let ?R = "\<lambda>s :: 'a stream_context. good s \<and> sc_thinking_enabled s \<and> (strict \<and> ?signed \<longrightarrow> thinking_open s)
      \<and> sc_thinking_block_index s \<noteq> None"
  have st: "stable ?R" by (auto simp: stable_def good_def thinking_view_def)
  have frame: "same_frame s (buffer_reasoning_text txt s)" "same_frame s (s\<lparr>sc_reasoning_content_events_observed := True\<rparr>)"
    for s :: "'a stream_context"
    by (simp_all add: same_frame_def buffer_reasoning_text_def buffer_thinking_content_def thinking_view_def split: option.split)
  have started: "accepts strict ?P (emit_when (\<lambda>s. \<not> sc_in_thinking_block s \<and> \<not> sc_thinking_extracted s)
      (open_thinking_block ops)) ?R"
    by (rule accepts_when[OF accepts_weaken[OF open_thinking_good[OF fair]]]) (auto simp: good_def dest: open_index)
  have ended: "accepts strict ?R (emit_seq [emit_when (\<lambda>_. ?signed)
      (emit_seq [emit_update leave_thinking_block, finalize_open_thinking_block ops])]) good"
    by (rule accepts_seq[OF accepts_when[OF accepts_weaken[OF accepts_leave_finalize]] accepts_nil]) (auto simp: left_good)
  let ?seq = "emit_seq [emit_when (\<lambda>s. \<not> sc_in_thinking_block s \<and> \<not> sc_thinking_extracted s) (open_thinking_block ops),
      emit_update (buffer_reasoning_text txt),
      emit_when (\<lambda>_. ?signed) (emit_seq [emit_update leave_thinking_block, finalize_open_thinking_block ops])]"
  have whole: "accepts strict ?P ?seq good"
    by (rule accepts_seq[OF started accepts_seq[OF accepts_frame[OF frame(1) st] ended]])
  have observed: "stable ?P" by (auto simp: stable_def good_def thinking_view_def)
  have full: "accepts strict ?P (\<lambda>s. ?seq (s\<lparr>sc_reasoning_content_events_observed := True\<rparr>)) good"
    by (rule accepts_before[OF whole frame(2) observed])
  have identity: "accepts strict ?P
      (\<lambda>s. process_identity_reasoning_content ops signature (s\<lparr>sc_reasoning_content_events_observed := True\<rparr>)) good"
    by (rule accepts_before[OF accepts_weaken[OF identity_reasoning_good[OF fair]] frame(2) observed]) auto
  show ?thesis
  proof (rule acceptsI)
    fix s :: "'a stream_context" and p
    assume b: "base s p" and P: "good s \<and> (strict \<and> ?signed \<longrightarrow> \<not> sc_thinking_extracted s)"
    have noted: "base (s\<lparr>sc_reasoning_content_events_observed := True\<rparr>) p" "good (s\<lparr>sc_reasoning_content_events_observed := True\<rparr>)"
      using b P same_frame_base[OF frame(2)] good_frame[OF frame(2)] by auto
    show "\<exists>p'. protocol_run strict p (fst (process_reasoning_content ops txt signature s)) = Some p'
        \<and> base (snd (process_reasoning_content ops txt signature s)) p' \<and> good (snd (process_reasoning_content ops txt signature s))"
    proof (cases "thinking_parser_enabled s \<and> sc_thinking_enabled s")
      case True
      then show ?thesis
        using full identity b P unfolding accepts_def process_reasoning_content_def Let_def by simp
    next
      case False
      then show ?thesis using b P noted by (auto simp: process_reasoning_content_def Let_def)
    qed
  qed
qed

section \<open>Tool use\<close>

lemma manager_quietI:
  assumes "\<And>(s :: 'a stream_context) p. base s p \<Longrightarrow> \<exists>p'. protocol_run strict p (fst (f (sc_state_manager s))) = Some p'
      \<and> tracked (snd (f (sc_state_manager s))) p' \<and> types_kept (sc_state_manager s) (snd (f (sc_state_manager s)))
      \<and> thinking_kept (sc_state_manager s) (snd (f (sc_state_manager s)))"
  shows "quiet strict (on_manager f :: 'a emitter)"
  unfolding quiet_def
proof (intro allI impI)
  fix s :: "'a stream_context" and p assume b: "base s p"
  obtain p' where p': "protocol_run strict p (fst (f (sc_state_manager s))) = Some p'"
    "tracked (snd (f (sc_state_manager s))) p'" "types_kept (sc_state_manager s) (snd (f (sc_state_manager s)))"
    "thinking_kept (sc_state_manager s) (snd (f (sc_state_manager s)))"
    using assms[OF b] by blast
  then show "\<exists>p'. protocol_run strict p (fst (on_manager f s)) = Some p' \<and> base (snd (on_manager f s)) p'
      \<and> thinking_view (snd (on_manager f s)) = thinking_view s \<and> (thinking_open s \<longrightarrow> thinking_open (snd (on_manager f s)))"
    using b by (auto simp: on_manager_def base_def types_kept_def thinking_kept_def thinking_open_def thinking_view_def
        split_beta Let_def split: option.splits)
qed

lemma quiet_set_tool: "quiet strict (emit_update (\<lambda>s. s\<lparr>sc_state_manager := set_has_tool_use True (sc_state_manager s)\<rparr>))"
proof -
  have "quiet strict (on_manager (\<lambda>m. ([], set_has_tool_use True m)) :: 'a emitter)"
    by (rule manager_quietI) (auto simp: base_def tracked_def set_has_tool_use_def types_kept_def thinking_kept_def
        block_type_at_def is_block_open_of_type_def)
  moreover have "on_manager (\<lambda>m. ([], set_has_tool_use True m))
      = (emit_update (\<lambda>s. s\<lparr>sc_state_manager := set_has_tool_use True (sc_state_manager s)\<rparr>) :: 'a emitter)"
    by (simp add: on_manager_def emit_update_def fun_eq_iff)
  ultimately show ?thesis by simp
qed

text \<open>The start of a tool block: at a new index, or again at the index of the tool.\<close>

definition tool_data :: "tool_use_event \<Rightarrow> string \<Rightarrow> int \<Rightarrow> json" where
  "tool_data tool_use name i = block_start_json i (tool_use_block_json (tue_tool_use_id tool_use) name)"

lemma restart_tool_block:
  assumes tr: "tracked m p" and fair: "fair_order order" and blk: "block_type_at m i = Some ''tool_use''"
  obtains p' where "protocol_run strict p (fst (handle_content_block_start order i ''tool_use'' data m)) = Some p'"
    "tracked (snd (handle_content_block_start order i ''tool_use'' data m)) p'"
    "types_kept m (snd (handle_content_block_start order i ''tool_use'' data m))"
    "thinking_kept m (snd (handle_content_block_start order i ''tool_use'' data m))"
proof -
  let ?P = "\<lambda>b. bs_block_type b = ''text'' \<and> block_open b"
  let ?m = "m\<lparr>sm_has_tool_use := True\<rparr>"
  have tr': "tracked ?m p" using tr by (simp add: tracked_def)
  obtain p' where p': "protocol_run strict p (fst (stop_blocks order ?P ?m)) = Some p'"
    "tracked (snd (stop_blocks order ?P ?m)) p'" "ps_count p' = ps_count p"
    by (rule stop_blocks_tracked[OF tr' fair, of ?P strict]) auto
  have kept: "types_kept m (snd (stop_blocks order ?P ?m))" "thinking_kept m (snd (stop_blocks order ?P ?m))"
    using stop_blocks_kept[where m = ?m and order = order and P = ?P]
    by (auto simp: types_kept_def thinking_kept_def block_type_at_def is_block_open_of_type_def)
  obtain b where "map_of (sm_active_blocks (snd (stop_blocks order ?P ?m))) i = Some b"
    using kept(1) blk by (auto simp: types_kept_def block_type_at_def)
  moreover from this have "bs_started b" by (rule trackedD(4)[OF p'(2)])
  ultimately have "handle_content_block_start order i ''tool_use'' data m = stop_blocks order ?P ?m"
    by (simp add: handle_content_block_start_def split_beta Let_def)
  then show thesis using that p'(1,2) kept by simp
qed

lemma same_frame_refl [simp]: "same_frame s s"
  by (simp add: same_frame_def)

lemma same_frame_trans: "same_frame a b \<Longrightarrow> same_frame b c \<Longrightarrow> same_frame a c"
  by (simp add: same_frame_def)

lemma accumulate_frame: "same_frame s (accumulate_tool_use tool_use name s)"
  by (simp add: same_frame_def accumulate_tool_use_def thinking_view_def Let_def split: option.split)

lemma complete_frame: "same_frame s (complete_tool_use ops tool_use_id s)"
  by (simp add: same_frame_def complete_tool_use_def thinking_view_def Let_def split: option.split)

definition tool_start :: "'f stream_ops \<Rightarrow> tool_use_event \<Rightarrow> string \<Rightarrow> int \<Rightarrow> 'f emitter" where
  "tool_start ops tool_use name i =
     on_manager (handle_content_block_start (st_block_order ops) i ''tool_use'' (tool_data tool_use name i))"

lemma tool_started:
  assumes fair: "fair_order (st_block_order ops)" and b: "base s p"
    and index: "tool_block_index (tue_tool_use_id tool_use) s = (i, s1)"
    and s2: "s2 = accumulate_tool_use tool_use name s1"
  obtains p' where "protocol_run strict p (fst (tool_start ops tool_use name i s2)) = Some p'"
    "base (snd (tool_start ops tool_use name i s2)) p'"
    "block_type_at (sc_state_manager (snd (tool_start ops tool_use name i s2))) i = Some ''tool_use''"
    "thinking_view (snd (tool_start ops tool_use name i s2)) = thinking_view s"
    "thinking_open s \<longrightarrow> thinking_open (snd (tool_start ops tool_use name i s2))"
proof (cases "map_of (sc_tool_block_indices s) (tue_tool_use_id tool_use)")
  case (Some j)
  then have i: "j = i" "s1 = s" using index by (auto simp: tool_block_index_def)
  have frame: "same_frame s s2" using accumulate_frame[of s tool_use name] by (simp add: s2 i)
  have m: "sc_state_manager s2 = sc_state_manager s" using frame by (simp add: same_frame_def)
  have blk: "block_type_at (sc_state_manager s2) i = Some ''tool_use''" using b Some i m by (auto simp: base_def)
  have tr: "tracked (sc_state_manager s2) p" using b m by (simp add: base_def)
  have b2: "base s2 p" using b same_frame_base[OF frame] by simp
  let ?h = "handle_content_block_start (st_block_order ops) i ''tool_use'' (tool_data tool_use name i) (sc_state_manager s2)"
  obtain p' where p': "protocol_run strict p (fst ?h) = Some p'" "tracked (snd ?h) p'"
    "types_kept (sc_state_manager s2) (snd ?h)" "thinking_kept (sc_state_manager s2) (snd ?h)"
    by (rule restart_tool_block[OF tr fair blk, of strict "tool_data tool_use name i"])
  have start: "tool_start ops tool_use name i s2 = (fst ?h, s2\<lparr>sc_state_manager := snd ?h\<rparr>)"
    by (simp add: tool_start_def on_manager_def split_beta Let_def)
  show thesis
  proof (rule that)
    show "protocol_run strict p (fst (tool_start ops tool_use name i s2)) = Some p'" using p'(1) by (simp add: start)
    show "base (snd (tool_start ops tool_use name i s2)) p'"
      using b2 p'(2,3) by (auto simp: start base_def types_kept_def)
    show "block_type_at (sc_state_manager (snd (tool_start ops tool_use name i s2))) i = Some ''tool_use''"
      using blk p'(3) by (simp add: start types_kept_def)
    show "thinking_view (snd (tool_start ops tool_use name i s2)) = thinking_view s"
      using frame by (simp add: start same_frame_def) (simp add: thinking_view_def)
    show "thinking_open s \<longrightarrow> thinking_open (snd (tool_start ops tool_use name i s2))"
      using p'(4) same_frame_open[OF frame] by (auto simp: start thinking_open_def thinking_kept_def split: option.splits)
  qed
next
  case None
  let ?i = "sm_next_block_index (sc_state_manager s)"
  have i: "i = ?i" "s1 = snd (take_block_index s)\<lparr>sc_tool_block_indices := hm_insert (tue_tool_use_id tool_use) ?i (sc_tool_block_indices s)\<rparr>"
    using index None by (auto simp: tool_block_index_def take_block_index_def next_block_index_def)
  obtain p' where p': "protocol_run strict p (fst (start_block (st_block_order ops) ''tool_use'' (tool_data tool_use name) (sc_state_manager s))) = Some p'"
    "base (with_block ops ''tool_use'' (tool_data tool_use name) s) p'"
    "is_block_open_of_type (sc_state_manager (with_block ops ''tool_use'' (tool_data tool_use name) s)) ?i ''tool_use''"
    "thinking_open s \<longrightarrow> thinking_open (with_block ops ''tool_use'' (tool_data tool_use name) s)"
    by (rule base_with_block[OF b fair, of "''tool_use''" "tool_data tool_use name"
          "tool_use_block_json (tue_tool_use_id tool_use) name" strict]) (auto simp: tool_data_def)
  let ?w = "with_block ops ''tool_use'' (tool_data tool_use name) s"
  let ?s = "snd (tool_start ops tool_use name i s2)"
  have frame: "same_frame s1 s2" by (simp add: s2 accumulate_frame)
  have start: "fst (tool_start ops tool_use name i s2) = fst (start_block (st_block_order ops) ''tool_use'' (tool_data tool_use name) (sc_state_manager s))"
    "sc_state_manager ?s = sc_state_manager ?w"
    using frame
    by (simp_all add: tool_start_def on_manager_def split_beta Let_def same_frame_def i take_block_index_def start_block_def
        next_block_index_def with_block_def)
  have fields: "sc_tool_block_indices ?s = hm_insert (tue_tool_use_id tool_use) ?i (sc_tool_block_indices s)"
    "sc_thinking_block_index ?s = sc_thinking_block_index s" "sc_completed_thinking_content ?s = sc_completed_thinking_content s"
    "thinking_view ?s = thinking_view s"
    using frame
    by (simp_all add: tool_start_def on_manager_def split_beta Let_def same_frame_def i take_block_index_def thinking_view_def)
  have type: "block_type_at (sc_state_manager ?w) ?i = Some ''tool_use''"
    using p'(3) by (auto simp: is_block_open_of_type_def block_type_at_def split: option.splits)
  show thesis
  proof (rule that)
    show "protocol_run strict p (fst (tool_start ops tool_use name i s2)) = Some p'" using p'(1) by (simp add: start)
    show "base ?s p'" using p'(2) type by (auto simp: base_def start fields) (auto simp: with_block_def)
    show "block_type_at (sc_state_manager ?s) i = Some ''tool_use''"
      using type by (simp only: start(2)) (simp only: i(1))
    show "thinking_view ?s = thinking_view s" by (rule fields)
    show "thinking_open s \<longrightarrow> thinking_open ?s"
      using p'(4) fields(2) start(2)
      by (cases "sc_thinking_block_index s") (simp_all add: thinking_open_def, simp add: with_block_def)
  qed
qed

lemma quiet_tool_rest:
  fixes ops :: "'a stream_ops"
  assumes stop: "tue_stop tool_use = c"
  shows "accepts strict (\<lambda>s. block_type_at (sc_state_manager s) i = Some ''tool_use'' \<and> thinking_view s = v \<and> (q \<longrightarrow> thinking_open s))
    (emit_seq
      [emit_when (\<lambda>_. tue_input tool_use \<noteq> [])
         (\<lambda>s. (handle_content_block_delta i (block_delta_json i (input_json_delta_json (tue_input tool_use))) (sc_state_manager s),
                 s\<lparr>sc_output_tokens := sc_output_tokens s + x\<rparr>)),
       emit_when (\<lambda>_. c) (emit_seq
         [emit_update (complete_tool_use ops (tue_tool_use_id tool_use)), on_manager (handle_content_block_stop i)])])
    (\<lambda>s. thinking_view s = v \<and> (q \<longrightarrow> thinking_open s))"
proof -
  let ?P = "\<lambda>s :: 'a stream_context. block_type_at (sc_state_manager s) i = Some ''tool_use'' \<and> thinking_view s = v \<and> (q \<longrightarrow> thinking_open s)"
  have keep: "?P s \<Longrightarrow> same_frame s s' \<Longrightarrow> ?P s'" for s s' :: "'a stream_context"
    using same_frame_open[of s s'] by (auto simp: same_frame_def)
  have frame: "same_frame s (s\<lparr>sc_output_tokens := y\<rparr>)" for s :: "'a stream_context" and y
    by (simp add: same_frame_def thinking_view_def)
  have delta: "accepts strict ?P (emit_when (\<lambda>_. tue_input tool_use \<noteq> [])
      (\<lambda>s. (handle_content_block_delta i (block_delta_json i (input_json_delta_json (tue_input tool_use))) (sc_state_manager s),
              s\<lparr>sc_output_tokens := sc_output_tokens s + x\<rparr>))) ?P"
  proof (rule accepts_when[OF acceptsI])
    fix s :: "'a stream_context" and p
    assume b: "base s p" and P: "?P s \<and> tue_input tool_use \<noteq> []"
    have tr: "tracked (sc_state_manager s) p" using b by (simp add: base_def)
    let ?delta = "handle_content_block_delta i (block_delta_json i (input_json_delta_json (tue_input tool_use))) (sc_state_manager s)"
    have "protocol_run strict p ?delta = Some p"
    proof (cases "is_block_open_of_type (sc_state_manager s) i ''tool_use''")
      case True
      then show ?thesis by (intro delta_accepted[OF tr, of i "''input_json_delta''"]) simp_all
    next
      case False
      then show ?thesis
        using P by (auto simp: is_block_open_of_type_def handle_content_block_delta_def block_type_at_def split: option.splits)
    qed
    then show "\<exists>p'. protocol_run strict p (fst (?delta, s\<lparr>sc_output_tokens := sc_output_tokens s + x\<rparr>)) = Some p'
        \<and> base (snd (?delta, s\<lparr>sc_output_tokens := sc_output_tokens s + x\<rparr>)) p'
        \<and> ?P (snd (?delta, s\<lparr>sc_output_tokens := sc_output_tokens s + x\<rparr>))"
      using b P keep[OF _ frame[of s]] same_frame_base[OF frame[of s]] by auto
  qed
  have completed: "accepts strict ?P (emit_update (complete_tool_use ops (tue_tool_use_id tool_use))) ?P"
    using same_frame_base[OF complete_frame] keep[OF _ complete_frame] by (intro accepts_update) auto
  have stopped: "accepts strict ?P (on_manager (handle_content_block_stop i)) (\<lambda>s. thinking_view s = v \<and> (q \<longrightarrow> thinking_open s))"
  proof (rule acceptsI)
    fix s :: "'a stream_context" and p
    assume b: "base s p" and P: "?P s"
    have tr: "tracked (sc_state_manager s) p" using b by (simp add: base_def)
    obtain blk where blk: "map_of (sm_active_blocks (sc_state_manager s)) i = Some blk" "bs_block_type blk = ''tool_use''"
      using P by (auto simp: block_type_at_def)
    obtain p' where "protocol_run strict p (fst (handle_content_block_stop i (sc_state_manager s))) = Some p'"
      "tracked (snd (handle_content_block_stop i (sc_state_manager s))) p'"
      "types_kept (sc_state_manager s) (snd (handle_content_block_stop i (sc_state_manager s)))"
      "bs_block_type blk \<noteq> ''thinking'' \<longrightarrow> thinking_kept (sc_state_manager s) (snd (handle_content_block_stop i (sc_state_manager s)))"
      by (rule stop_accepted[OF tr blk(1)])
    then show "\<exists>p'. protocol_run strict p (fst (on_manager (handle_content_block_stop i) s)) = Some p'
        \<and> base (snd (on_manager (handle_content_block_stop i) s)) p'
        \<and> thinking_view (snd (on_manager (handle_content_block_stop i) s)) = v
        \<and> (q \<longrightarrow> thinking_open (snd (on_manager (handle_content_block_stop i) s)))"
      using b P blk(2)
      by (auto simp: on_manager_def base_def types_kept_def thinking_kept_def thinking_open_def thinking_view_def
          split_beta Let_def split: option.splits)
  qed
  show ?thesis
    by (rule accepts_seq[OF delta], rule accepts_seq[OF accepts_when accepts_nil],
        rule accepts_weaken[OF accepts_seq[OF completed accepts_seq[OF stopped accepts_nil]]]) auto
qed

lemma quiet_tool_block:
  assumes fair: "fair_order (st_block_order ops)"
  shows "quiet strict (emit_tool_block ops tool_use)"
  unfolding quiet_def
proof (intro allI impI)
  fix s :: "'a stream_context" and p assume b: "base s p"
  obtain i s1 where index: "tool_block_index (tue_tool_use_id tool_use) s = (i, s1)" by force
  define name where "name = unwrap_or (map_of (sc_tool_name_map s1) (tue_name tool_use)) (tue_name tool_use)"
  define s2 where "s2 = accumulate_tool_use tool_use name s1"
  obtain p1 where p1: "protocol_run strict p (fst (tool_start ops tool_use name i s2)) = Some p1"
    "base (snd (tool_start ops tool_use name i s2)) p1"
    "block_type_at (sc_state_manager (snd (tool_start ops tool_use name i s2))) i = Some ''tool_use''"
    "thinking_view (snd (tool_start ops tool_use name i s2)) = thinking_view s"
    "thinking_open s \<longrightarrow> thinking_open (snd (tool_start ops tool_use name i s2))"
    by (rule tool_started[OF fair b index s2_def])
  let ?rest = "emit_seq
      [emit_when (\<lambda>_. tue_input tool_use \<noteq> [])
         (\<lambda>s. (handle_content_block_delta i (block_delta_json i (input_json_delta_json (tue_input tool_use))) (sc_state_manager s),
                 s\<lparr>sc_output_tokens := sc_output_tokens s + (int (length (tue_input tool_use)) + 3) div 4\<rparr>)),
       emit_when (\<lambda>_. tue_stop tool_use) (emit_seq
         [emit_update (complete_tool_use ops (tue_tool_use_id tool_use)), on_manager (handle_content_block_stop i)])]"
  have whole: "emit_tool_block ops tool_use s =
        (fst (tool_start ops tool_use name i s2) @ fst (?rest (snd (tool_start ops tool_use name i s2))),
         snd (?rest (snd (tool_start ops tool_use name i s2))))"
    unfolding emit_tool_block_def index
    by (simp add: name_def s2_def tool_start_def tool_data_def split_beta Let_def)
  obtain p2 where "protocol_run strict p1 (fst (?rest (snd (tool_start ops tool_use name i s2)))) = Some p2"
    "base (snd (?rest (snd (tool_start ops tool_use name i s2)))) p2"
    "thinking_view (snd (?rest (snd (tool_start ops tool_use name i s2)))) = thinking_view s
      \<and> (thinking_open s \<longrightarrow> thinking_open (snd (?rest (snd (tool_start ops tool_use name i s2)))))"
    by (rule acceptsE[OF quiet_tool_rest[OF refl, of strict i "thinking_view s" "thinking_open s"] p1(2)]) (use p1(3-5) in auto)
  then show "\<exists>p'. protocol_run strict p (fst (emit_tool_block ops tool_use s)) = Some p'
      \<and> base (snd (emit_tool_block ops tool_use s)) p' \<and> thinking_view (snd (emit_tool_block ops tool_use s)) = thinking_view s
      \<and> (thinking_open s \<longrightarrow> thinking_open (snd (emit_tool_block ops tool_use s)))"
    using whole p1(1) by simp
qed


lemma quiet_structured_output:
  assumes fair: "fair_order (st_block_order ops)"
  shows "quiet strict (process_structured_output ops tool_use)"
proof (rule quiet_pointwise)
  fix s :: "'a stream_context"
  let ?buffers = "\<lambda>b (s :: 'a stream_context). s\<lparr>sc_structured_output_json_buffers := b\<rparr>"
  let ?emitted = "\<lambda>b t (s :: 'a stream_context). s\<lparr>sc_structured_output_text_buffer := t, sc_assistant_content := t,
      sc_output_tokens := estimate_tokens t, sc_structured_output_emitted := True, sc_structured_output_json_buffers := b\<rparr>"
  have "quiet strict (emit_update (?buffers b))" for b
    by (rule quiet_update) (simp add: same_frame_def thinking_view_def)
  moreover have "quiet strict (\<lambda>s. create_text_delta_events ops t (?emitted b t s))" for b t
    by (rule quiet_after[OF quiet_text[OF fair]]) (simp add: same_frame_def thinking_view_def)
  moreover have "(\<exists>b. process_structured_output ops tool_use s = emit_update (?buffers b) s)
      \<or> (\<exists>b t. process_structured_output ops tool_use s = create_text_delta_events ops t (?emitted b t s))"
    by (auto simp: process_structured_output_def emit_update_def Let_def)
  ultimately show "\<exists>m'. quiet strict m' \<and> process_structured_output ops tool_use s = m' s"
    by (elim disjE exE) blast+
qed

lemma closing_good:
  assumes fair: "fair_order (st_block_order ops)"
  shows "accepts strict (\<lambda>s. good s \<and> sc_in_thinking_block s) (close_buffered_thinking ops end_pos) good"
proof (rule accepts_pointwise)
  let ?P = "\<lambda>s :: 'a stream_context. good s \<and> sc_in_thinking_block s"
  fix s :: "'a stream_context"
  have st: "stable ?P" by (auto simp: stable_def good_def thinking_view_def)
  have ended: "accepts strict ?P (end_thinking_block ops) good"
    by (rule accepts_weaken[OF accepts_end_thinking]) (auto simp: left_good)
  have "accepts strict ?P (emit_seq
      [emit_update (buffer_if_enabled t), end_thinking_block ops, emit_update (\<lambda>s. s\<lparr>sc_thinking_buffer := []\<rparr>),
       emit_when (\<lambda>_. r \<noteq> []) (create_guarded_text_delta_events ops r)]) good" for t r
    by (rule accepts_seq[OF accepts_frame[OF frame_buffers(2) st]],
        rule accepts_seq[OF ended], rule accepts_seq[OF accepts_frame[OF frame_buffers(5) stable_good]],
        rule accepts_seq[OF accepts_quiet[OF quiet_when[OF quiet_guarded_text[OF fair]] stable_good]], rule accepts_nil)
  then show "\<exists>m'. accepts strict ?P m' good \<and> close_buffered_thinking ops end_pos s = m' s"
    unfolding close_buffered_thinking_def Let_def by blast
qed

lemma close_inline_good:
  assumes fair: "fair_order (st_block_order ops)"
  shows "accepts strict (\<lambda>s. good s \<and> sc_in_thinking_block s) (close_inline_thinking ops) good"
proof (rule accepts_pointwise)
  fix s :: "'a stream_context"
  have "accepts strict (\<lambda>s. good s \<and> sc_in_thinking_block s) (emit_seq [] :: 'a emitter) good"
    by (rule accepts_nil) simp
  then show "\<exists>m'. accepts strict (\<lambda>s. good s \<and> sc_in_thinking_block s) m' good \<and> close_inline_thinking ops s = m' s"
    using closing_good[OF fair, of strict]
    by (cases "find_real_thinking_end_tag_at_buffer_end (sc_thinking_buffer s)")
      (auto simp: close_inline_thinking_def intro: exI[of _ "emit_seq []"])
qed

lemma quiet_flush_buffer:
  assumes fair: "fair_order (st_block_order ops)"
  shows "quiet strict (flush_thinking_buffer ops)"
proof (rule quiet_pointwise)
  fix s :: "'a stream_context"
  have "quiet strict (\<lambda>s. create_guarded_text_delta_events ops t (s\<lparr>sc_thinking_buffer := []\<rparr>))" for t
    by (rule quiet_after[OF quiet_guarded_text[OF fair]]) (rule frame_buffers)
  then show "\<exists>m'. quiet strict m' \<and> flush_thinking_buffer ops s = m' s"
    unfolding flush_thinking_buffer_def by blast
qed

lemma tool_use_good:
  assumes fair: "fair_order (st_block_order ops)"
  shows "accepts strict good (process_tool_use ops tool_use) good"
proof (rule accepts_pointwise)
  fix s :: "'a stream_context"
  have ended: "accepts strict good (emit_when (\<lambda>s. thinking_parser_enabled s \<and> sc_reasoning_content_events_observed s
      \<and> sc_in_thinking_block s) (end_thinking_block ops)) good"
    by (rule accepts_when[OF accepts_weaken[OF accepts_end_thinking]]) (auto simp: left_good)
  have closed: "accepts strict good (emit_when (\<lambda>s. thinking_parser_enabled s \<and> sc_in_thinking_block s)
      (close_inline_thinking ops)) good"
    by (rule accepts_when[OF accepts_weaken[OF close_inline_good[OF fair]]]) auto
  note quiet_rest = accepts_quiet[OF quiet_when[OF quiet_flush_buffer[OF fair]] stable_good]
    accepts_quiet[OF quiet_tool_block[OF fair] stable_good] accepts_quiet[OF quiet_set_tool stable_good]
  have whole: "accepts strict good (emit_seq
      [emit_update (\<lambda>s. s\<lparr>sc_state_manager := set_has_tool_use True (sc_state_manager s)\<rparr>),
       emit_when (\<lambda>s. thinking_parser_enabled s \<and> sc_reasoning_content_events_observed s \<and> sc_in_thinking_block s)
         (end_thinking_block ops),
       emit_when (\<lambda>s. thinking_parser_enabled s \<and> sc_in_thinking_block s) (close_inline_thinking ops),
       emit_when (\<lambda>s. thinking_parser_enabled s \<and> \<not> sc_in_thinking_block s \<and> \<not> sc_thinking_extracted s
            \<and> sc_thinking_buffer s \<noteq> []) (flush_thinking_buffer ops),
       emit_tool_block ops tool_use]) good"
    by (rule accepts_seq[OF quiet_rest(3)], rule accepts_seq[OF ended], rule accepts_seq[OF closed],
        rule accepts_seq[OF quiet_rest(1)], rule accepts_seq[OF quiet_rest(2) accepts_nil])
  have structured: "accepts strict good (process_structured_output ops tool_use) good"
    by (rule accepts_quiet[OF quiet_structured_output[OF fair] stable_good])
  show "\<exists>m'. accepts strict good m' good \<and> process_tool_use ops tool_use s = m' s"
  proof (cases "structured_output_mode s \<and> sc_structured_output_tool_name s = Some (tue_name tool_use)")
    case True
    then show ?thesis using structured by (auto simp: process_tool_use_def)
  next
    case False
    then have "process_tool_use ops tool_use s = emit_seq
      [emit_update (\<lambda>s. s\<lparr>sc_state_manager := set_has_tool_use True (sc_state_manager s)\<rparr>),
       emit_when (\<lambda>s. thinking_parser_enabled s \<and> sc_reasoning_content_events_observed s \<and> sc_in_thinking_block s)
         (end_thinking_block ops),
       emit_when (\<lambda>s. thinking_parser_enabled s \<and> sc_in_thinking_block s) (close_inline_thinking ops),
       emit_when (\<lambda>s. thinking_parser_enabled s \<and> \<not> sc_in_thinking_block s \<and> \<not> sc_thinking_extracted s
            \<and> sc_thinking_buffer s \<noteq> []) (flush_thinking_buffer ops),
       emit_tool_block ops tool_use] s"
      by (simp only: process_tool_use_def if_False)
    with whole show ?thesis by (rule accepts_as)
  qed
qed

section \<open>Any upstream event\<close>

text \<open>
  A reasoning event that carries a signature closes the thinking block; text and tools do as
  well, when there is one.
\<close>

definition signed_reasoning :: "'f kiro_event \<Rightarrow> bool" where
  "signed_reasoning event =
     (case event of ReasoningContent r \<Rightarrow> filter_nonempty (rce_signature r) \<noteq> None | _ \<Rightarrow> False)"

definition ends_thinking :: "'f kiro_event \<Rightarrow> bool" where
  "ends_thinking event =
     (case event of
        AssistantResponse r \<Rightarrow> are_content r \<noteq> []
      | ToolUse _ \<Rightarrow> True
      | _ \<Rightarrow> signed_reasoning event)"

lemma quiet_stop_reason: "quiet strict (emit_update (\<lambda>s. s\<lparr>sc_state_manager := set_stop_reason r (sc_state_manager s)\<rparr>))"
proof -
  have "quiet strict (on_manager (\<lambda>m. ([], set_stop_reason r m)) :: 'a emitter)"
    by (rule manager_quietI) (auto simp: base_def tracked_def set_stop_reason_def types_kept_def thinking_kept_def
        block_type_at_def is_block_open_of_type_def)
  moreover have "on_manager (\<lambda>m. ([], set_stop_reason r m))
      = (emit_update (\<lambda>s. s\<lparr>sc_state_manager := set_stop_reason r (sc_state_manager s)\<rparr>) :: 'a emitter)"
    by (simp add: on_manager_def emit_update_def fun_eq_iff)
  ultimately show ?thesis by simp
qed

lemma quiet_tokens: "quiet strict (emit_update (\<lambda>s. s\<lparr>sc_context_input_tokens := t\<rparr>))"
  by (rule quiet_update) (simp add: same_frame_def thinking_view_def)

lemma quiet_credit:
  "quiet strict (emit_update (\<lambda>s. s\<lparr>sc_credit_usage := c s, sc_credit_usage_observed := True\<rparr>))"
  by (rule quiet_update) (simp add: same_frame_def thinking_view_def)

lemma other_events_good:
  assumes "\<And>r. event \<noteq> AssistantResponse r" "\<And>r. event \<noteq> ReasoningContent r" "\<And>t. event \<noteq> ToolUse t"
  shows "quiet strict (process_kiro_event ops event)"
proof (rule quiet_pointwise)
  fix s :: "'a stream_context"
  let ?reason = "emit_update (\<lambda>s :: 'a stream_context. s\<lparr>sc_state_manager := set_stop_reason ''model_context_window_exceeded'' (sc_state_manager s)\<rparr>)"
  let ?tokens = "\<lambda>t. emit_update (\<lambda>s :: 'a stream_context. s\<lparr>sc_context_input_tokens := t\<rparr>)"
  let ?credit = "\<lambda>c. emit_update (\<lambda>s :: 'a stream_context. s\<lparr>sc_credit_usage := c s, sc_credit_usage_observed := True\<rparr>)"
  have silent: "\<exists>m'. quiet strict m' \<and> ([], s) = m' s"
    by (rule exI[of _ "emit_seq []"]) (simp add: quiet_nil)
  have reason: "\<exists>m'. quiet strict m' \<and> ?reason s = m' s"
    using quiet_stop_reason by blast
  have tokens: "\<exists>m'. quiet strict m' \<and> ?tokens t s = m' s" for t
    using quiet_tokens by blast
  have both: "\<exists>m'. quiet strict m' \<and> emit_seq [?tokens t, ?reason] s = m' s" for t
    using quiet_seq[OF quiet_tokens quiet_seq[OF quiet_stop_reason quiet_nil]] by blast
  have credit: "\<exists>m'. quiet strict m' \<and> ?credit c s = m' s" for c
    using quiet_credit by blast
  show "\<exists>m'. quiet strict m' \<and> process_kiro_event ops event s = m' s"
  proof (cases event)
    case (ContextUsage u)
    let ?t = "Some (st_context_tokens ops (cue_context_usage_percentage u)
      (get_context_window_size (st_to_lowercase ops) (sc_model s)))"
    have "process_kiro_event ops event s =
        (if st_at_least_100 ops (cue_context_usage_percentage u) then emit_seq [?tokens ?t, ?reason] s else ?tokens ?t s)"
      by (simp add: ContextUsage process_kiro_event_def emit_update_def)
    then show ?thesis using both[of ?t] tokens[of ?t] by (simp split: if_split)
  next
    case (Metering m)
    show ?thesis
    proof (cases "credit_usage m")
      case None
      with silent show ?thesis by (simp add: Metering process_kiro_event_def)
    next
      case (Some u)
      have "process_kiro_event ops event s = ?credit (\<lambda>s. st_f64_add ops (sc_credit_usage s) u) s"
        by (simp add: Metering Some process_kiro_event_def emit_update_def)
      with credit show ?thesis by simp
    qed
  next
    case (ExceptionEvent t m)
    have "process_kiro_event ops event s = (if t = ''ContentLengthExceededException'' then ?reason s else ([], s))"
      by (simp add: ExceptionEvent process_kiro_event_def emit_update_def)
    then show ?thesis using reason silent by (simp split: if_split)
  qed (use assms silent in \<open>simp_all add: process_kiro_event_def\<close>)
qed

lemma event_good:
  assumes fair: "fair_order (st_block_order ops)"
  shows "accepts strict (\<lambda>s. good s \<and> (strict \<and> signed_reasoning event \<longrightarrow> \<not> sc_thinking_extracted s))
    (process_kiro_event ops event) good"
proof -
  have other: "accepts strict good (process_kiro_event ops event) good"
    if "\<And>r. event \<noteq> AssistantResponse r" "\<And>r. event \<noteq> ReasoningContent r" "\<And>t. event \<noteq> ToolUse t"
    by (rule accepts_quiet[OF other_events_good[OF that] stable_good])
  show ?thesis
  proof (cases event)
    case (AssistantResponse r)
    then show ?thesis
      using assistant_response_good[OF fair, of strict "are_content r"]
      by (simp add: process_kiro_event_def accepts_def)
  next
    case (ReasoningContent r)
    then show ?thesis
      using reasoning_good[OF fair, of strict "rce_signature r" "rce_text r"]
      by (simp add: process_kiro_event_def signed_reasoning_def accepts_def)
  next
    case (ToolUse t)
    then show ?thesis
      using tool_use_good[OF fair, of strict t] by (simp add: process_kiro_event_def accepts_def)
  qed (use other in \<open>auto simp: accepts_def\<close>)
qed

end
