(* ===== verification/StreamMode.thy ===== *)
theory StreamMode
  imports StreamDriver
begin

text \<open>
  No method changes \<open>thinking_enabled\<close>: the mode of a context is fixed by its constructor.
\<close>

named_theorems mode_rules \<open>emitters keep the mode\<close>

lemma mode_basic [mode_rules]:
  "sc_thinking_enabled (snd (on_manager f s)) = sc_thinking_enabled s"
  "sc_thinking_enabled (snd (take_block_index s)) = sc_thinking_enabled s"
  "sc_thinking_enabled (replace_leaked_text r s) = sc_thinking_enabled s"
  "sc_thinking_enabled (buffer_thinking_content t s) = sc_thinking_enabled s"
  "sc_thinking_enabled (buffer_if_enabled t s) = sc_thinking_enabled s"
  "sc_thinking_enabled (leave_thinking_block s) = sc_thinking_enabled s"
  "sc_thinking_enabled (strip_leading_newline s) = sc_thinking_enabled s"
  "sc_thinking_enabled (buffer_safe_thinking s) = sc_thinking_enabled s"
  "sc_thinking_enabled (apply_identity_response s) = sc_thinking_enabled s"
  "sc_thinking_enabled (buffer_reasoning_text txt s) = sc_thinking_enabled s"
  "sc_thinking_enabled (accumulate_tool_use tool_use name s) = sc_thinking_enabled s"
  "sc_thinking_enabled (complete_tool_use ops tool_use_id s) = sc_thinking_enabled s"
  "sc_thinking_enabled (snd (tool_block_index tool_use_id s)) = sc_thinking_enabled s"
  by (simp_all add: on_manager_def take_block_index_def replace_leaked_text_def buffer_thinking_content_def
      buffer_if_enabled_def leave_thinking_block_def strip_leading_newline_def buffer_safe_thinking_def
      apply_identity_response_def buffer_reasoning_text_def accumulate_tool_use_def complete_tool_use_def
      tool_block_index_def split_beta Let_def split: option.split)

lemma mode_emitters [mode_rules]:
  "sc_thinking_enabled (snd (emit_when c m s)) = (if c s then sc_thinking_enabled (snd (m s)) else sc_thinking_enabled s)"
  "sc_thinking_enabled (snd (emit_update f s)) = sc_thinking_enabled (f s)"
  by (simp_all add: emit_when_def emit_update_def)

lemma mode_seq [mode_rules]:
  "sc_thinking_enabled (snd (emit_seq [] s)) = sc_thinking_enabled s"
  "sc_thinking_enabled (snd (emit_seq (m # ms) s)) = sc_thinking_enabled (snd (emit_seq ms (snd (m s))))"
  by (simp_all add: split_beta Let_def)

declare emit_seq.simps [simp del]

lemma mode_text [mode_rules]: "sc_thinking_enabled (snd (create_text_delta_events ops t s)) = sc_thinking_enabled s"
  by (auto simp: create_text_delta_events_def split_beta Let_def mode_rules split: option.splits)

lemma mode_guarded [mode_rules]: "sc_thinking_enabled (snd (create_guarded_text_delta_events ops t s)) = sc_thinking_enabled s"
  by (simp add: create_guarded_text_delta_events_def Let_def mode_rules split: option.split)

lemma mode_flush [mode_rules]: "sc_thinking_enabled (snd (flush_guarded_text_delta_events ops s)) = sc_thinking_enabled s"
  by (simp add: flush_guarded_text_delta_events_def Let_def mode_rules split: option.split)

lemma mode_thinking [mode_rules]:
  "sc_thinking_enabled (snd (open_thinking_block ops s)) = sc_thinking_enabled s"
  "sc_thinking_enabled (snd (open_text_block ops s)) = sc_thinking_enabled s"
  "sc_thinking_enabled (snd (finalize_open_thinking_block ops s)) = sc_thinking_enabled s"
  by (simp_all add: open_thinking_block_def open_text_block_def finalize_open_thinking_block_def split_beta Let_def
      mode_rules split: option.split)

lemma mode_end [mode_rules]: "sc_thinking_enabled (snd (end_thinking_block ops s)) = sc_thinking_enabled s"
  by (simp add: end_thinking_block_def mode_rules)

lemma mode_synthesize [mode_rules]: "sc_thinking_enabled (snd (synthesize_thinking_block ops s)) = sc_thinking_enabled s"
  by (simp add: synthesize_thinking_block_def mode_rules)

lemma mode_inline [mode_rules]:
  "sc_thinking_enabled (snd (enter_inline_thinking ops n s)) = sc_thinking_enabled s"
  "sc_thinking_enabled (snd (leave_inline_thinking ops n s)) = sc_thinking_enabled s"
  "sc_thinking_enabled (snd (emit_safe_text ops s)) = sc_thinking_enabled s"
  "sc_thinking_enabled (snd (emit_remaining_text ops s)) = sc_thinking_enabled s"
  by (simp_all add: enter_inline_thinking_def leave_inline_thinking_def emit_safe_text_def emit_remaining_text_def
      Let_def mode_rules)

lemma mode_loop [mode_rules]: "sc_thinking_enabled (snd (content_loop ops s)) = sc_thinking_enabled s"
proof (induction ops s rule: content_loop.induct)
  case (1 ops s)
  then show ?case
    by (subst content_loop.simps) (simp add: Let_def mode_rules split: option.split)
qed

lemma mode_assistant [mode_rules]: "sc_thinking_enabled (snd (process_assistant_response ops content s)) = sc_thinking_enabled s"
  by (simp add: process_assistant_response_def process_content_with_thinking_def Let_def mode_rules)

lemma mode_reasoning [mode_rules]: "sc_thinking_enabled (snd (process_reasoning_content ops txt signature s)) = sc_thinking_enabled s"
  by (simp add: process_reasoning_content_def process_identity_reasoning_content_def Let_def mode_rules
      split: option.split)

lemma mode_tool [mode_rules]: "sc_thinking_enabled (snd (process_tool_use ops tool_use s)) = sc_thinking_enabled s"
  by (simp add: process_tool_use_def process_structured_output_def close_inline_thinking_def close_buffered_thinking_def
      flush_thinking_buffer_def emit_tool_block_def split_beta Let_def mode_rules
      split: option.split)

lemma mode_event [mode_rules]: "sc_thinking_enabled (snd (process_kiro_event ops event s)) = sc_thinking_enabled s"
  by (simp add: process_kiro_event_def Let_def mode_rules split: kiro_event.split option.split)

lemma mode_initial [mode_rules]: "sc_thinking_enabled (snd (generate_initial_events ops s)) = sc_thinking_enabled s"
  by (simp add: generate_initial_events_def mode_rules)

lemma mode_final [mode_rules]:
  "sc_thinking_enabled (snd (flush_structured_output ops s)) = sc_thinking_enabled s"
  "sc_thinking_enabled (snd (finish_buffered_thinking ops s)) = sc_thinking_enabled s"
  "sc_thinking_enabled (snd (finish_buffered_text ops s)) = sc_thinking_enabled s"
  "sc_thinking_enabled (snd (flush_identity_response ops s)) = sc_thinking_enabled s"
  by (simp_all add: flush_structured_output_def finish_buffered_thinking_def finish_buffered_text_def
      flush_identity_response_def Let_def mode_rules
      split: option.split)

declare emit_seq.simps [simp]

end
