(* ===== verification/StreamFinalSound.thy ===== *)
theory StreamFinalSound
  imports StreamEventsSound StreamMode
begin

text \<open>
  The initial and the final events: how the automaton starts, when the thinking block counts as
  ended, and why the automaton finishes with every block stopped.
\<close>

section \<open>Which events end the thinking block\<close>

lemma open_extracted: "sc_thinking_extracted (snd (open_thinking_block ops s)) = sc_thinking_extracted s"
  by (simp add: open_thinking_block_eq with_block_def)

lemma buffer_extracted [simp]: "sc_thinking_extracted (buffer_thinking_content t s) = sc_thinking_extracted s"
  by (simp add: buffer_thinking_content_def)

lemma identity_extracted [simp]: "sc_thinking_extracted (apply_identity_response s) = sc_thinking_extracted s"
  by (simp add: apply_identity_response_def split: option.split)

lemma reasoning_extracted:
  assumes "filter_nonempty signature = None"
  shows "sc_thinking_extracted (snd (process_reasoning_content ops txt signature s)) = sc_thinking_extracted s"
  using assms
  by (simp add: process_reasoning_content_def process_identity_reasoning_content_def buffer_reasoning_text_def
      emit_when_def emit_update_def Let_def split_beta open_extracted split: option.split)

lemma unended_extracted:
  assumes "\<not> ends_thinking event"
  shows "sc_thinking_extracted (snd (process_kiro_event ops event s)) = sc_thinking_extracted s"
proof (cases event)
  case (AssistantResponse r)
  then show ?thesis using assms by (simp add: ends_thinking_def process_kiro_event_def process_assistant_response_def)
next
  case (ReasoningContent r)
  then show ?thesis
    using assms reasoning_extracted by (simp add: ends_thinking_def signed_reasoning_def process_kiro_event_def)
next
  case (ToolUse t)
  then show ?thesis using assms by (simp add: ends_thinking_def)
qed (simp_all add: process_kiro_event_def Let_def split: option.split)

text \<open>
  The upstream sends its reasoning first: no signed reasoning event follows an event that ends the
  thinking block.
\<close>

fun thinking_first :: "bool \<Rightarrow> 'f kiro_event list \<Rightarrow> bool" where
  "thinking_first ended [] = True"
| "thinking_first ended (event # events) =
     (\<not> (ended \<and> signed_reasoning event) \<and> thinking_first (ended \<or> ends_thinking event) events)"

section \<open>The initial events\<close>

lemma open_text_block_eq:
  "open_text_block ops s =
    (fst (start_block (st_block_order ops) ''text'' text_data (sc_state_manager s)),
     with_block ops ''text'' text_data s\<lparr>sc_text_block_index := Some (sm_next_block_index (sc_state_manager s))\<rparr>)"
  by (simp add: open_text_block_def with_block_def text_data_def start_block_def next_block_index_def
      take_block_index_def on_manager_def split_beta Let_def)

lemma quiet_open_text:
  assumes fair: "fair_order (st_block_order ops)"
  shows "quiet strict (open_text_block ops)"
  unfolding quiet_def
proof (intro allI impI)
  fix s :: "'a stream_context" and p assume b: "base s p"
  obtain p' where p': "protocol_run strict p (fst (start_block (st_block_order ops) ''text'' text_data (sc_state_manager s))) = Some p'"
    "base (with_block ops ''text'' text_data s) p'"
    "is_block_open_of_type (sc_state_manager (with_block ops ''text'' text_data s)) (sm_next_block_index (sc_state_manager s)) ''text''"
    "thinking_open s \<longrightarrow> thinking_open (with_block ops ''text'' text_data s)"
    by (rule base_with_block[OF b fair, of "''text''" text_data text_block_json strict]) (auto simp: text_data_def)
  have frame: "same_frame (with_block ops ''text'' text_data s) (snd (open_text_block ops s))"
    by (simp add: open_text_block_eq same_frame_def thinking_view_def)
  have "thinking_view (snd (open_text_block ops s)) = thinking_view s"
    by (simp add: open_text_block_eq thinking_view_def with_block_def)
  then show "\<exists>p'. protocol_run strict p (fst (open_text_block ops s)) = Some p' \<and> base (snd (open_text_block ops s)) p'
      \<and> thinking_view (snd (open_text_block ops s)) = thinking_view s
      \<and> (thinking_open s \<longrightarrow> thinking_open (snd (open_text_block ops s)))"
    using p'(1,2,4) same_frame_base[OF frame] same_frame_open[OF frame] by (simp add: open_text_block_eq)
qed

text \<open>A context that has processed nothing.\<close>

definition untouched :: "'f stream_context \<Rightarrow> bool" where
  "untouched s =
     (sc_state_manager s = sse_state_manager_new \<and> sc_tool_block_indices s = []
      \<and> sc_thinking_block_index s = None \<and> sc_completed_thinking_content s = None
      \<and> \<not> sc_in_thinking_block s \<and> \<not> sc_thinking_extracted s)"

lemma initial_events_good:
  assumes fair: "fair_order (st_block_order ops)" and new: "untouched s"
  obtains p where "protocol_run strict protocol_start (fst (generate_initial_events ops s)) = Some p"
    "base (snd (generate_initial_events ops s)) p" "good (snd (generate_initial_events ops s))"
    "\<not> sc_thinking_extracted (snd (generate_initial_events ops s))"
    "sc_thinking_enabled (snd (generate_initial_events ops s)) = sc_thinking_enabled s"
proof -
  let ?s = "s\<lparr>sc_state_manager := sse_state_manager_new\<lparr>sm_message_started := True\<rparr>\<rparr>"
  let ?p = "protocol_start\<lparr>ps_phase := Streaming\<rparr>"
  let ?rest = "emit_when (\<lambda>s. \<not> (sc_thinking_enabled s \<or> structured_output_mode s \<or> identity_response_enabled s))
      (open_text_block ops)"
  have step: "protocol_step strict protocol_start (sse_event_new ''message_start'' (create_message_start_event s)) = Some ?p"
    by (simp add: protocol_step_def protocol_start_def sse_event_new_def)
  have b: "base ?s ?p"
    using new by (simp add: base_def untouched_def tracked_def protocol_start_def sse_state_manager_new_def)
  have rest: "quiet strict ?rest" by (rule quiet_when[OF quiet_open_text[OF fair]])
  obtain p where p: "protocol_run strict ?p (fst (?rest ?s)) = Some p" "base (snd (?rest ?s)) p"
    "thinking_view (snd (?rest ?s)) = thinking_view ?s"
    using rest b unfolding quiet_def by blast
  have init: "generate_initial_events ops s
      = (sse_event_new ''message_start'' (create_message_start_event s) # fst (?rest ?s), snd (?rest ?s))"
    using new by (simp add: generate_initial_events_def on_manager_def handle_message_start_def untouched_def
        sse_state_manager_new_def split_beta Let_def)
  have v: "sc_in_thinking_block (snd (?rest ?s)) = False" "sc_thinking_extracted (snd (?rest ?s)) = False"
    "sc_thinking_enabled (snd (?rest ?s)) = sc_thinking_enabled s"
    using p(3) new by (auto simp: thinking_view_def untouched_def)
  show thesis
  proof (rule that[of p])
    show "protocol_run strict protocol_start (fst (generate_initial_events ops s)) = Some p"
      using p(1) by (simp only: init fst_conv protocol_run.simps step option.case)
    show "good (snd (generate_initial_events ops s))" using v by (simp add: init good_def del: de_Morgan_disj)
  qed (use p(2) v in \<open>simp_all add: init del: de_Morgan_disj\<close>)
qed

section \<open>The final events\<close>

lemma quiet_flush_structured:
  assumes fair: "fair_order (st_block_order ops)"
  shows "quiet strict (flush_structured_output ops)"
proof (rule quiet_pointwise)
  fix s :: "'a stream_context"
  let ?clear = "\<lambda>s :: 'a stream_context. s\<lparr>sc_structured_output_text_buffer := []\<rparr>"
  let ?set = "\<lambda>t (s :: 'a stream_context). s\<lparr>sc_structured_output_text_buffer := [], sc_assistant_content := t,
      sc_output_tokens := estimate_tokens t\<rparr>"
  have "quiet strict (emit_update ?clear)"
    by (rule quiet_update) (simp add: same_frame_def thinking_view_def)
  moreover have "quiet strict (\<lambda>s. create_text_delta_events ops t (?set t s))" for t
    by (rule quiet_after[OF quiet_text[OF fair]]) (simp add: same_frame_def thinking_view_def)
  moreover have "flush_structured_output ops s = emit_update ?clear s
      \<or> (\<exists>t. flush_structured_output ops s = create_text_delta_events ops t (?set t s))"
    by (auto simp: flush_structured_output_def emit_update_def Let_def)
  ultimately show "\<exists>m'. quiet strict m' \<and> flush_structured_output ops s = m' s"
    by (elim disjE exE) blast+
qed

lemma quiet_flush_identity:
  assumes fair: "fair_order (st_block_order ops)"
  shows "quiet strict (flush_identity_response ops)"
proof -
  have "quiet strict (\<lambda>s :: 'a stream_context. create_text_delta_events ops (sc_assistant_content s) s)"
    by (rule quiet_pointwise) (use quiet_text[OF fair] in blast)
  moreover have "quiet strict (emit_update (\<lambda>s :: 'a stream_context. s\<lparr>sc_response_identity_flushed := True\<rparr>))"
    by (rule quiet_update) (simp add: same_frame_def thinking_view_def)
  ultimately show ?thesis
    unfolding flush_identity_response_def
    by (intro quiet_seq quiet_when quiet_nil) (simp_all add: quiet_update[OF apply_identity_frame])
qed

text \<open>A thinking block that is still entered has been started, although it may be stopped.\<close>

definition entered :: "bool \<times> bool \<times> bool \<times> int option \<Rightarrow> bool" where
  "entered v = (case v of (e, i, x, index) \<Rightarrow> i \<and> (e \<longrightarrow> index \<noteq> None))"

lemma entered_weak: "entered (thinking_view s) \<Longrightarrow> weak s"
  by (auto simp: entered_def weak_def thinking_view_def)

lemma good_entered: "good s \<Longrightarrow> sc_in_thinking_block s \<Longrightarrow> entered (thinking_view s)"
  by (auto simp: entered_def thinking_view_def dest: good_openD(2))

lemma leave_cleared_base: "base (leave_thinking_block (s\<lparr>sc_thinking_buffer := []\<rparr>)) p = base s p"
  by (simp add: base_def leave_thinking_block_def)

lemma leave_entered:
  "entered (thinking_view s) \<Longrightarrow> weak (leave_thinking_block (s\<lparr>sc_thinking_buffer := []\<rparr>))"
  by (auto simp: entered_def weak_def thinking_view_def leave_thinking_block_def)

lemma finish_thinking_weak:
  assumes fair: "fair_order (st_block_order ops)"
  shows "accepts strict (\<lambda>s. good s \<and> sc_in_thinking_block s) (finish_buffered_thinking ops) weak"
proof (rule accepts_pointwise)
  let ?P = "\<lambda>s :: 'a stream_context. good s \<and> sc_in_thinking_block s"
  let ?Q = "\<lambda>s :: 'a stream_context. entered (thinking_view s)"
  fix s :: "'a stream_context"
  have st: "stable ?P" by (auto simp: stable_def good_def thinking_view_def)
  have final: "accepts strict (\<lambda>s :: 'a stream_context. ?P s \<and> sc_thinking_enabled s) (finalize_open_thinking_block ops) ?Q"
    by (rule accepts_weaken[OF accepts_finalize_view[of _ entered]]) (auto dest: good_openD(1) good_entered)
  have finished: "accepts strict ?P (emit_when sc_thinking_enabled (finalize_open_thinking_block ops)) ?Q"
    by (rule accepts_when[OF final]) (auto dest: good_entered)
  have left: "accepts strict ?Q (emit_update (\<lambda>s. leave_thinking_block (s\<lparr>sc_thinking_buffer := []\<rparr>))) weak"
    by (rule accepts_update) (auto simp: leave_cleared_base leave_entered)
  have ended: "accepts strict ?P (emit_seq
      [emit_update (buffer_if_enabled t), emit_when sc_thinking_enabled (finalize_open_thinking_block ops),
       emit_update (\<lambda>s. leave_thinking_block (s\<lparr>sc_thinking_buffer := []\<rparr>)),
       emit_when (\<lambda>_. r \<noteq> []) (create_guarded_text_delta_events ops r)]) weak" for t r
    by (rule accepts_seq[OF accepts_frame[OF frame_buffers(2) st]], rule accepts_seq[OF finished],
        rule accepts_seq[OF left], rule accepts_seq[OF accepts_quiet[OF quiet_when[OF quiet_guarded_text[OF fair]] stable_weak]],
        rule accepts_nil)
  have flush: "accepts strict (\<lambda>s. ?P s \<and> sc_thinking_enabled s)
      (emit_seq [emit_update (buffer_thinking_content t), finalize_open_thinking_block ops]) weak" for t
  proof (rule accepts_seq[OF accepts_frame[OF frame_buffers(1)]])
    show "stable (\<lambda>s. ?P s \<and> sc_thinking_enabled s)" by (auto simp: stable_def good_def thinking_view_def)
    show "accepts strict (\<lambda>s. ?P s \<and> sc_thinking_enabled s) (emit_seq [finalize_open_thinking_block ops]) weak"
      by (rule accepts_seq[OF final]) (rule accepts_nil, rule entered_weak)
  qed
  have open_end: "accepts strict ?P (emit_when sc_thinking_enabled
      (emit_seq [emit_update (buffer_thinking_content t), finalize_open_thinking_block ops])) weak" for t
    by (rule accepts_when[OF flush]) (auto dest: good_weak)
  show "\<exists>m'. accepts strict ?P m' weak \<and> finish_buffered_thinking ops s = m' s"
    unfolding finish_buffered_thinking_def Let_def
    by (cases "find_real_thinking_end_tag_at_buffer_end (sc_thinking_buffer s)")
      (simp_all only: option.case, (rule accepts_as[OF open_end refl] accepts_as[OF ended refl])+)
qed

lemma finish_text_good:
  assumes fair: "fair_order (st_block_order ops)"
  shows "accepts strict good (finish_buffered_text ops) good"
proof (rule accepts_pointwise)
  fix s :: "'a stream_context"
  have syn: "accepts strict good (emit_when sc_thinking_enabled (synthesize_thinking_block ops)) good"
    by (rule accepts_when[OF accepts_weaken[OF synthesize_good[OF fair]]]) auto
  have "accepts strict good (emit_seq [emit_when sc_thinking_enabled (synthesize_thinking_block ops),
      create_guarded_text_delta_events ops t]) good" for t
    by (rule accepts_seq[OF syn], rule accepts_seq[OF accepts_quiet[OF quiet_guarded_text[OF fair] stable_good]], rule accepts_nil)
  then show "\<exists>m'. accepts strict good m' good \<and> finish_buffered_text ops s = m' s"
    unfolding finish_buffered_text_def by blast
qed

lemma buffered_rest_weak:
  assumes fair: "fair_order (st_block_order ops)"
  shows "accepts strict good
    (\<lambda>s. if sc_in_thinking_block s then finish_buffered_thinking ops s else finish_buffered_text ops s) weak"
  using finish_thinking_weak[OF fair, of strict] finish_text_good[OF fair, of strict]
  unfolding accepts_def by (simp split: if_split) (metis good_weak)

section \<open>The last text block\<close>

lemma other_block: "block_type_at m i = Some t \<Longrightarrow> t \<noteq> ''thinking'' \<Longrightarrow> has_non_thinking_blocks m"
  by (auto simp: block_type_at_def has_non_thinking_blocks_def list_ex_iff dest!: map_of_SomeD)

lemma text_gives_other_block:
  assumes fair: "fair_order (st_block_order ops)" and b: "base s p"
  shows "has_non_thinking_blocks (sc_state_manager (snd (create_text_delta_events ops text s)))"
proof (cases rule: text_delta_cases[of s ops "text"])
  case (open_block i)
  then show ?thesis
    by (auto simp: is_block_open_of_type_def block_type_at_def split: option.splits
        intro!: other_block[of _ i "''text''"])
next
  case (new_block i s')
  have "is_block_open_of_type (sc_state_manager s') i ''text''"
    by (rule base_with_block[OF b fair, of "''text''" text_data text_block_json False])
      (auto simp: text_data_def new_block(1,2))
  then show ?thesis
    by (auto simp: new_block(3) is_block_open_of_type_def block_type_at_def split: option.splits
        intro!: other_block[of _ i "''text''"])
qed

text \<open>What holds when the last events of the message are built.\<close>

definition settled :: "'f stream_context \<Rightarrow> bool" where
  "settled s =
     (sc_thinking_enabled s \<longrightarrow> sc_thinking_block_index s \<noteq> None \<and> has_non_thinking_blocks (sc_state_manager s))"

lemma only_thinking_settled:
  assumes fair: "fair_order (st_block_order ops)"
  shows "accepts strict (\<lambda>s. weak s \<and> (sc_thinking_enabled s \<longrightarrow> sc_thinking_block_index s \<noteq> None))
    (emit_when (\<lambda>s. sc_thinking_enabled s \<and> sc_thinking_block_index s \<noteq> None
             \<and> \<not> has_non_thinking_blocks (sc_state_manager s))
          (emit_seq
            [emit_update (\<lambda>s. s\<lparr>sc_state_manager := set_stop_reason ''max_tokens'' (sc_state_manager s)\<rparr>),
             create_text_delta_events ops '' ''])) settled"
proof (rule accepts_when)
  let ?I = "\<lambda>s :: 'a stream_context. sc_thinking_enabled s \<longrightarrow> sc_thinking_block_index s \<noteq> None"
  have text_settled: "accepts strict ?I (create_text_delta_events ops '' '') settled"
  proof (rule acceptsI)
    fix s :: "'a stream_context" and p assume b: "base s p" and I: "?I s"
    obtain p' where p': "protocol_run strict p (fst (create_text_delta_events ops '' '' s)) = Some p'"
      "base (snd (create_text_delta_events ops '' '' s)) p'"
      "thinking_view (snd (create_text_delta_events ops '' '' s)) = thinking_view s"
      using quiet_text[OF fair, of strict] b unfolding quiet_def by metis
    then show "\<exists>p'. protocol_run strict p (fst (create_text_delta_events ops '' '' s)) = Some p'
        \<and> base (snd (create_text_delta_events ops '' '' s)) p' \<and> settled (snd (create_text_delta_events ops '' '' s))"
      using I text_gives_other_block[OF fair b] by (auto simp: settled_def thinking_view_def)
  qed
  have st: "stable ?I" by (auto simp: stable_def thinking_view_def)
  have "accepts strict ?I (emit_seq
      [emit_update (\<lambda>s. s\<lparr>sc_state_manager := set_stop_reason ''max_tokens'' (sc_state_manager s)\<rparr>),
       create_text_delta_events ops '' '']) settled"
    by (rule accepts_seq[OF accepts_quiet[OF quiet_stop_reason st]], rule accepts_seq[OF text_settled], rule accepts_nil)
  then show "accepts strict (\<lambda>s. (weak s \<and> ?I s) \<and> sc_thinking_enabled s \<and> sc_thinking_block_index s \<noteq> None
        \<and> \<not> has_non_thinking_blocks (sc_state_manager s)) (emit_seq
      [emit_update (\<lambda>s. s\<lparr>sc_state_manager := set_stop_reason ''max_tokens'' (sc_state_manager s)\<rparr>),
       create_text_delta_events ops '' '']) settled"
    by (rule accepts_weaken) auto
qed (auto simp: settled_def)

section \<open>The end of the message\<close>

text \<open>Some block of the message has a type with the property \<open>P\<close>.\<close>

definition has_block :: "(string \<Rightarrow> bool) \<Rightarrow> protocol_state \<Rightarrow> bool" where
  "has_block P p =
     list_ex (\<lambda>i. case ps_blocks p (json_int (int i)) of Some (t, _) \<Rightarrow> P t | None \<Rightarrow> False) [0..<ps_count p]"

lemma tracked_has_block:
  assumes tr: "tracked m p" and t: "block_type_at m i = Some t" "P t"
  shows "has_block P p"
proof -
  obtain b where b: "map_of (sm_active_blocks m) i = Some b" "bs_block_type b = t"
    using t(1) by (auto simp: block_type_at_def)
  have i: "0 \<le> i" "i < int (ps_count p)" using trackedD(5,6)[OF tr b(1)] .
  then have "nat i \<in> {0..<ps_count p}" "int (nat i) = i" by auto
  moreover have "ps_blocks p (json_int i) = Some (t, \<not> bs_stopped b)"
    using trackedD(3)[OF tr i(1)] b by (simp add: shown_def)
  ultimately show ?thesis
    using t(2) unfolding has_block_def list_ex_iff by (intro bexI[of _ "nat i"]) simp_all
qed

lemma tracked_all_stopped:
  assumes tr: "tracked m p" and closed: "\<And>i b. map_of (sm_active_blocks m) i = Some b \<Longrightarrow> bs_stopped b"
  shows "all_stopped p"
  unfolding all_stopped_def list_all_iff
proof
  fix i assume "i \<in> set [0..<ps_count p]"
  then have "int i < int (ps_count p)" by simp
  then obtain b where b: "map_of (sm_active_blocks m) (int i) = Some b"
    using tr by (fastforce simp: tracked_def)
  then show "case ps_blocks p (json_int (int i)) of Some (_, is_open) \<Rightarrow> \<not> is_open | None \<Rightarrow> False"
    using trackedD(3)[OF tr, of "int i"] closed[OF b] by (simp add: shown_def)
qed

lemma manager_final_finishes:
  assumes tr: "tracked m p" and fair: "fair_order order"
  obtains p' where "protocol_run strict p (fst (manager_final_events order a b m)) = Some p'"
    "ps_phase p' = Finished" "all_stopped p'"
    "\<And>i t P. block_type_at m i = Some t \<Longrightarrow> P t \<Longrightarrow> has_block P p'"
proof -
  let ?m = "snd (stop_blocks order block_open m)"
  obtain p1 where p1: "protocol_run strict p (fst (stop_blocks order block_open m)) = Some p1" "tracked ?m p1"
    by (rule stop_blocks_tracked[OF tr fair, of block_open strict]) auto
  let ?p = "p1\<lparr>ps_phase := Finished\<rparr>"
  have stopped: "bs_stopped c" if c: "map_of (sm_active_blocks ?m) i = Some c" for i c
  proof -
    obtain d where d: "map_of (sm_active_blocks m) i = Some d" "c = (if block_open d then d\<lparr>bs_stopped := True\<rparr> else d)"
      using c by (auto simp: stopped_lookup)
    then show ?thesis using trackedD(4)[OF tr d(1)] by (auto simp: block_open_def split: if_splits)
  qed
  have all: "all_stopped p1" by (rule tracked_all_stopped[OF p1(2) stopped])
  have delta: "protocol_step strict p1 (message_delta_event r a b) = Some (p1\<lparr>ps_phase := Closing\<rparr>)" for r
    using all trackedD(1)[OF p1(2)] by (simp add: protocol_step_def message_delta_event_def sse_event_new_def)
  have stop: "protocol_step strict (p1\<lparr>ps_phase := Closing\<rparr>)
      (sse_event_new ''message_stop'' (json_obj [(''type'', JString ''message_stop'')])) = Some ?p"
    by (simp add: protocol_step_def sse_event_new_def)
  have flags: "\<not> sm_message_delta_sent ?m" "\<not> sm_message_ended ?m"
    using p1(2) by (simp_all add: tracked_def)
  have final: "fst (manager_final_events order a b m) = fst (stop_blocks order block_open m)
      @ [message_delta_event (get_stop_reason ?m) a b,
         sse_event_new ''message_stop'' (json_obj [(''type'', JString ''message_stop'')])]"
    using flags by (simp add: manager_final_events_def split_beta Let_def)
  show thesis
  proof (rule that[of ?p])
    show "protocol_run strict p (fst (manager_final_events order a b m)) = Some ?p"
      by (simp add: final p1(1) delta stop)
    show "all_stopped ?p" using all by (simp add: all_stopped_def)
    fix i t P assume t: "block_type_at m i = Some t" "P t"
    then have "block_type_at ?m i = Some t"
      using stop_blocks_kept(1)[where m = m and order = order and P = block_open] by (simp add: types_kept_def)
    then have "has_block P p1" by (rule tracked_has_block[OF p1(2)]) (rule t(2))
    then show "has_block P ?p" by (simp add: has_block_def)
  qed simp
qed

lemma non_thinking_type:
  assumes "hm_ok (sm_active_blocks m)" "has_non_thinking_blocks m"
  obtains i t where "block_type_at m i = Some t" "t \<noteq> ''thinking''"
proof -
  obtain i b where "(i, b) \<in> set (sm_active_blocks m)" "bs_block_type b \<noteq> ''thinking''"
    using assms(2) by (auto simp: has_non_thinking_blocks_def list_ex_iff)
  then show thesis
    using that[of i "bs_block_type b"] hm_entry[OF assms(1)] by (simp add: block_type_at_def)
qed

text \<open>
  The finished message: every block is stopped, and with thinking enabled it has a thinking block
  and another one.
\<close>

definition finished_message :: "bool \<Rightarrow> protocol_state \<Rightarrow> bool" where
  "finished_message thinking p =
     (ps_phase p = Finished \<and> all_stopped p
      \<and> (thinking \<longrightarrow> has_block (\<lambda>t. t = ''thinking'') p \<and> has_block (\<lambda>t. t \<noteq> ''thinking'') p))"

lemma settled_finishes:
  assumes b: "base s p" and st: "settled s" and fair: "fair_order order"
  obtains p' where "protocol_run strict p (fst (manager_final_events order i j (sc_state_manager s))) = Some p'"
    "finished_message (sc_thinking_enabled s) p'"
proof -
  let ?m = "sc_state_manager s"
  have tr: "tracked ?m p" using b by (simp add: base_def)
  obtain p' where p': "protocol_run strict p (fst (manager_final_events order i j ?m)) = Some p'"
    "ps_phase p' = Finished" "all_stopped p'" "\<And>k t P. block_type_at ?m k = Some t \<Longrightarrow> P t \<Longrightarrow> has_block P p'"
    by (rule manager_final_finishes[OF tr fair, of strict i j]) auto
  have "has_block (\<lambda>t. t = ''thinking'') p' \<and> has_block (\<lambda>t. t \<noteq> ''thinking'') p'" if "sc_thinking_enabled s"
  proof
    obtain k where "sc_thinking_block_index s = Some k" using st \<open>sc_thinking_enabled s\<close> by (auto simp: settled_def)
    then have "block_type_at ?m k = Some ''thinking''" using b by (simp add: base_def)
    then show "has_block (\<lambda>t. t = ''thinking'') p'" by (rule p'(4)) simp
    have "hm_ok (sm_active_blocks ?m)" using tr by (simp add: tracked_def)
    moreover have "has_non_thinking_blocks ?m" using st \<open>sc_thinking_enabled s\<close> by (simp add: settled_def)
    ultimately obtain l t where "block_type_at ?m l = Some t" "t \<noteq> ''thinking''" by (rule non_thinking_type)
    then show "has_block (\<lambda>t. t \<noteq> ''thinking'') p'" by (rule p'(4))
  qed
  then show thesis using that[OF p'(1)] p'(2,3) by (simp add: finished_message_def)
qed

text \<open>The final events, split before those of the state machine.\<close>

definition settling_events :: "'f stream_ops \<Rightarrow> 'f emitter" where
  "settling_events ops =
     emit_seq
       [emit_when (\<lambda>s. structured_output_mode s \<and> \<not> sc_structured_output_emitted s)
          (flush_structured_output ops),
        emit_when (\<lambda>s. thinking_parser_enabled s \<and> sc_reasoning_content_events_observed s
             \<and> sc_in_thinking_block s)
          (end_thinking_block ops),
        emit_when (\<lambda>s. thinking_parser_enabled s \<and> sc_thinking_buffer s \<noteq> [])
          (emit_seq
            [\<lambda>s. if sc_in_thinking_block s then finish_buffered_thinking ops s else finish_buffered_text ops s,
             emit_update (\<lambda>s. s\<lparr>sc_thinking_buffer := []\<rparr>)]),
        flush_guarded_text_delta_events ops,
        synthesize_thinking_block ops,
        emit_when identity_response_enabled (flush_identity_response ops),
        emit_when (\<lambda>s. sc_thinking_enabled s \<and> sc_thinking_block_index s \<noteq> None
             \<and> \<not> has_non_thinking_blocks (sc_state_manager s))
          (emit_seq
            [emit_update (\<lambda>s. s\<lparr>sc_state_manager := set_stop_reason ''max_tokens'' (sc_state_manager s)\<rparr>),
             create_text_delta_events ops '' ''])]"

lemma final_events_split:
  "fst (generate_final_events ops s) = fst (settling_events ops s)
    @ fst (manager_final_events (st_block_order ops) (fst (final_usage (snd (settling_events ops s))))
        (snd (final_usage (snd (settling_events ops s)))) (sc_state_manager (snd (settling_events ops s))))"
  by (simp add: generate_final_events_def settling_events_def on_manager_def split_beta Let_def)

lemma settling_good:
  assumes fair: "fair_order (st_block_order ops)"
  shows "accepts strict good (settling_events ops) settled"
proof -
  let ?W = "\<lambda>s :: 'a stream_context. weak s \<and> (sc_thinking_enabled s \<longrightarrow> sc_thinking_block_index s \<noteq> None)"
  have st: "stable ?W" by (auto simp: stable_def weak_def thinking_view_def)
  have ended: "accepts strict good (emit_when (\<lambda>s. thinking_parser_enabled s \<and> sc_reasoning_content_events_observed s
             \<and> sc_in_thinking_block s) (end_thinking_block ops)) good"
    by (rule accepts_when[OF accepts_weaken[OF accepts_end_thinking]]) (auto simp: left_good)
  have buffered: "accepts strict good (emit_when (\<lambda>s. thinking_parser_enabled s \<and> sc_thinking_buffer s \<noteq> [])
          (emit_seq
            [\<lambda>s. if sc_in_thinking_block s then finish_buffered_thinking ops s else finish_buffered_text ops s,
             emit_update (\<lambda>s. s\<lparr>sc_thinking_buffer := []\<rparr>)])) weak"
    by (rule accepts_when[OF accepts_weaken[OF accepts_seq[OF buffered_rest_weak[OF fair]
            accepts_seq[OF accepts_frame[OF frame_buffers(5) stable_weak] accepts_nil]]]]) (auto dest: good_weak)
  show ?thesis
    unfolding settling_events_def
    by (rule accepts_seq[OF accepts_quiet[OF quiet_when[OF quiet_flush_structured[OF fair]] stable_good]],
        rule accepts_seq[OF ended], rule accepts_seq[OF buffered],
        rule accepts_seq[OF accepts_quiet[OF quiet_flush_text[OF fair] stable_weak]],
        rule accepts_seq[OF synthesize_weak[OF fair]],
        rule accepts_seq[OF accepts_quiet[OF quiet_when[OF quiet_flush_identity[OF fair]] st]],
        rule accepts_seq[OF only_thinking_settled[OF fair]], rule accepts_nil)
qed

lemma mode_settling: "sc_thinking_enabled (snd (settling_events ops s)) = sc_thinking_enabled s"
  by (simp add: settling_events_def mode_rules del: emit_seq.simps)

lemma final_events_finish:
  assumes fair: "fair_order (st_block_order ops)" and b: "base s p" and g: "good s"
  obtains p' where "protocol_run strict p (fst (generate_final_events ops s)) = Some p'"
    "finished_message (sc_thinking_enabled s) p'"
proof -
  obtain p1 where p1: "protocol_run strict p (fst (settling_events ops s)) = Some p1"
    "base (snd (settling_events ops s)) p1" "settled (snd (settling_events ops s))"
    by (rule acceptsE[OF settling_good[OF fair] b g])
  show thesis
    by (rule settled_finishes[OF p1(2,3) fair, of strict]) (auto intro: that simp: final_events_split p1(1) mode_settling)
qed

end
