(* ===== verification/StreamText.thy ===== *)
theory StreamText
  imports StreamFinalSound
begin

text \<open>
  The text of the stream when nothing rewrites it: no thinking mode, no structured output and no
  prompt safety.  Then the text deltas carry the upstream's text, and the context records the same.
\<close>

section \<open>Text of events\<close>

definition event_text :: "sse_event \<Rightarrow> string" where
  "event_text ev =
     (if sse_event ev = ''content_block_delta''
      then (case json_get (sse_data ev) ''delta'' of
              Some delta \<Rightarrow> (case json_get delta ''text'' of Some (JString t) \<Rightarrow> t | _ \<Rightarrow> [])
            | None \<Rightarrow> [])
      else [])"

definition streamed_text :: "sse_event list \<Rightarrow> string" where
  "streamed_text evs = concat (map event_text evs)"

definition upstream_text :: "'f kiro_event list \<Rightarrow> string" where
  "upstream_text events =
     concat (map (\<lambda>event. case event of AssistantResponse r \<Rightarrow> are_content r | _ \<Rightarrow> []) events)"

lemma streamed_text_simps [simp]:
  "streamed_text [] = []" "streamed_text (e # es) = event_text e @ streamed_text es"
  "streamed_text (xs @ ys) = streamed_text xs @ streamed_text ys"
  by (simp_all add: streamed_text_def)

lemma event_text_simps [simp]:
  "event_text (sse_event_new ''content_block_delta'' (block_delta_json i (text_delta_json t))) = t"
  "event_text (sse_event_new ''content_block_delta'' (block_delta_json i (input_json_delta_json t))) = []"
  "event_text (block_stop_event i) = []"
  "name \<noteq> ''content_block_delta'' \<Longrightarrow> event_text (sse_event_new name data) = []"
  "event_text (message_delta_event r a b) = []"
  by (simp_all add: event_text_def sse_event_new_def block_delta_json_def text_delta_json_def input_json_delta_json_def
      block_stop_event_def message_delta_event_def)

lemma silent_stops: "streamed_text (fst (stop_blocks order P m)) = []"
proof -
  have "streamed_text (map (\<lambda>(i, _). block_stop_event i) bs) = []" for bs :: "(int \<times> block_state) list"
    by (induction bs) auto
  then show ?thesis by (simp add: stop_blocks_def)
qed

lemma silent_start: "streamed_text (fst (handle_content_block_start order i t data m)) = []"
  using silent_stops[of order _ "m\<lparr>sm_has_tool_use := True\<rparr>"]
  by (auto simp: handle_content_block_start_def split_beta Let_def split: option.split)

lemma silent_stop: "streamed_text (fst (handle_content_block_stop i m)) = []"
  by (simp add: handle_content_block_stop_def split: option.split)

lemma silent_final: "streamed_text (fst (manager_final_events order a b m)) = []"
  using silent_stops[of order block_open m] by (simp add: manager_final_events_def split_beta Let_def)

lemma silent_manager: "streamed_text (fst (on_manager f s)) = streamed_text (fst (f (sc_state_manager s)))"
  by (simp add: on_manager_def split_beta Let_def)

section \<open>Text deltas\<close>

lemma delta_text:
  "is_block_open_of_type m i t \<Longrightarrow>
    streamed_text (handle_content_block_delta i (block_delta_json i (text_delta_json txt)) m) = txt"
  by (auto simp: handle_content_block_delta_def is_block_open_of_type_def split: option.splits)

lemma text_delta_text:
  assumes fair: "fair_order (st_block_order ops)" and b: "base s p"
  shows "streamed_text (fst (create_text_delta_events ops txt s)) = txt"
proof (cases rule: text_delta_cases[of s ops "txt"])
  case (open_block i)
  then show ?thesis by (simp add: delta_text)
next
  case (new_block i s')
  have "is_block_open_of_type (sc_state_manager s') i ''text''"
    by (rule base_with_block[OF b fair, of "''text''" text_data text_block_json False])
      (auto simp: text_data_def new_block(1,2))
  then show ?thesis by (simp add: new_block(3) delta_text start_block_def silent_start split_beta Let_def)
qed

lemma text_delta_state:
  obtains m x where "snd (create_text_delta_events ops txt s) = s\<lparr>sc_state_manager := m, sc_text_block_index := x\<rparr>"
proof (cases rule: text_delta_cases[of s ops "txt"])
  case (open_block i)
  then show ?thesis using that[where m = "sc_state_manager s" and x = "sc_text_block_index s"] by simp
next
  case (new_block i s')
  then show ?thesis using that by (simp add: with_block_def)
qed

section \<open>Plain contexts\<close>

definition plain :: "'f stream_context \<Rightarrow> bool" where
  "plain s =
     (\<not> sc_thinking_enabled s \<and> \<not> sc_hidden_thinking_enabled s \<and> sc_structured_output_tool_name s = None
      \<and> \<not> sc_private_prompt_safety_enabled s \<and> \<not> sc_assistant_inline_thinking_extracted s
      \<and> \<not> sc_visible_text_replaced s)"

lemma plain_modes:
  assumes "plain s"
  shows "\<not> thinking_parser_enabled s" "\<not> structured_output_mode s" "\<not> identity_response_enabled s"
    "final_assistant_text s = sc_assistant_content s"
  using assms
  by (simp_all add: plain_def thinking_parser_enabled_def structured_output_mode_def identity_response_enabled_def
      final_assistant_text_def)

text \<open>What an emitter does to the text: the events carry \<open>t\<close> and the record grows by \<open>u\<close>.\<close>

definition relays :: "string \<Rightarrow> string \<Rightarrow> 'f emitter \<Rightarrow> bool" where
  "relays t u m =
     (\<forall>s p. base s p \<longrightarrow> plain s \<longrightarrow>
        streamed_text (fst (m s)) = t \<and> plain (snd (m s)) \<and> sc_assistant_content (snd (m s)) = sc_assistant_content s @ u)"

lemma text_relays:
  assumes "fair_order (st_block_order ops)"
  shows "relays txt [] (create_text_delta_events ops txt)"
  unfolding relays_def
proof (intro allI impI)
  fix s :: "'a stream_context" and p assume b: "base s p" and pl: "plain s"
  obtain m x where "snd (create_text_delta_events ops txt s) = s\<lparr>sc_state_manager := m, sc_text_block_index := x\<rparr>"
    by (rule text_delta_state)
  then show "streamed_text (fst (create_text_delta_events ops txt s)) = txt \<and> plain (snd (create_text_delta_events ops txt s))
      \<and> sc_assistant_content (snd (create_text_delta_events ops txt s)) = sc_assistant_content s @ []"
    using text_delta_text[OF assms b] pl by (simp add: plain_def)
qed

lemma assistant_relays:
  assumes fair: "fair_order (st_block_order ops)"
  shows "relays content content (process_assistant_response ops content)"
  unfolding relays_def
proof (intro allI impI)
  fix s :: "'a stream_context" and p assume b: "base s p" and pl: "plain s"
  let ?s = "s\<lparr>sc_assistant_content := sc_assistant_content s @ content,
              sc_output_tokens := sc_output_tokens s + estimate_tokens content\<rparr>"
  have frame: "same_frame s ?s" by (simp add: same_frame_def thinking_view_def)
  have b': "base ?s p" using b same_frame_base[OF frame] by simp
  have pl': "plain ?s" using pl by (simp add: plain_def)
  have eq: "process_assistant_response ops content s
      = (if content = [] then ([], s) else create_text_delta_events ops content ?s)"
    using pl plain_modes[OF pl] plain_modes[OF pl']
    by (simp add: process_assistant_response_def create_guarded_text_delta_events_def plain_def)
  show "streamed_text (fst (process_assistant_response ops content s)) = content
      \<and> plain (snd (process_assistant_response ops content s))
      \<and> sc_assistant_content (snd (process_assistant_response ops content s)) = sc_assistant_content s @ content"
    using text_relays[OF fair, of content] b' pl' pl unfolding relays_def eq by auto
qed

lemma tool_block_silent: "streamed_text (fst (emit_tool_block ops tool_use s)) = []"
proof -
  have delta: "streamed_text (handle_content_block_delta i (block_delta_json i (input_json_delta_json t)) m) = []" for i t m
    by (simp add: handle_content_block_delta_def split: option.split)
  show ?thesis
    by (simp add: emit_tool_block_def split_beta Let_def silent_manager silent_start silent_stop delta emit_when_def
        emit_update_def)
qed

lemma tool_block_frame:
  "plain (snd (emit_tool_block ops tool_use s)) = plain s"
  "sc_assistant_content (snd (emit_tool_block ops tool_use s)) = sc_assistant_content s"
  by (simp_all add: emit_tool_block_def tool_block_index_def accumulate_tool_use_def complete_tool_use_def on_manager_def
      take_block_index_def emit_when_def emit_update_def plain_def split_beta Let_def split: option.split)

lemma tool_relays: "relays [] [] (process_tool_use ops tool_use)"
  unfolding relays_def
proof (intro allI impI)
  fix s :: "'a stream_context" and p assume pl: "plain s"
  let ?s = "s\<lparr>sc_state_manager := set_has_tool_use True (sc_state_manager s)\<rparr>"
  have pl': "plain ?s" using pl by (simp add: plain_def)
  have "process_tool_use ops tool_use s = emit_tool_block ops tool_use ?s"
    using plain_modes[OF pl] plain_modes[OF pl']
    by (simp add: process_tool_use_def emit_when_def emit_update_def)
  then show "streamed_text (fst (process_tool_use ops tool_use s)) = [] \<and> plain (snd (process_tool_use ops tool_use s))
      \<and> sc_assistant_content (snd (process_tool_use ops tool_use s)) = sc_assistant_content s @ []"
    using pl' by (simp add: tool_block_silent tool_block_frame)
qed

lemma event_relays:
  assumes fair: "fair_order (st_block_order ops)"
  shows "relays (upstream_text [event]) (upstream_text [event]) (process_kiro_event ops event)"
proof (cases event)
  case (AssistantResponse r)
  then show ?thesis
    using assistant_relays[OF fair, of "are_content r"] by (simp add: relays_def upstream_text_def process_kiro_event_def)
next
  case (ReasoningContent r)
  then show ?thesis
    by (simp add: relays_def upstream_text_def process_kiro_event_def process_reasoning_content_def plain_modes(1))
next
  case (ToolUse t)
  then show ?thesis
    using tool_relays[of ops t] by (simp add: relays_def upstream_text_def process_kiro_event_def)
qed (auto simp: relays_def upstream_text_def process_kiro_event_def Let_def plain_def split: option.split)

section \<open>Initial and final events\<close>

lemma initial_relays:
  "streamed_text (fst (generate_initial_events ops s)) = []"
  "plain (snd (generate_initial_events ops s)) = plain s"
  "sc_assistant_content (snd (generate_initial_events ops s)) = sc_assistant_content s"
  by (simp_all add: generate_initial_events_def open_text_block_def take_block_index_def silent_manager silent_start
      emit_when_def handle_message_start_def on_manager_def plain_def split_beta Let_def)

lemma final_relays:
  assumes pl: "plain s"
  shows "streamed_text (fst (generate_final_events ops s)) = []"
    "final_assistant_text (snd (generate_final_events ops s)) = sc_assistant_content s"
proof -
  let ?s = "s\<lparr>sc_visible_text_scan_buffer := []\<rparr>"
  have pl': "plain ?s" using pl by (simp add: plain_def)
  have flush: "flush_guarded_text_delta_events ops s = ([], ?s)"
    using pl by (simp add: flush_guarded_text_delta_events_def plain_def)
  have eq: "generate_final_events ops s
      = on_manager (manager_final_events (st_block_order ops) (fst (final_usage ?s)) (snd (final_usage ?s))) ?s"
    using plain_modes[OF pl] plain_modes[OF pl'] pl pl'
    by (simp add: generate_final_events_def emit_when_def flush synthesize_thinking_block_def
        should_synthesize_thinking_block_def plain_def split_beta Let_def)
  show "streamed_text (fst (generate_final_events ops s)) = []" by (simp add: eq silent_manager silent_final)
  have "plain (snd (generate_final_events ops s))" using pl' by (simp add: eq on_manager_def plain_def split_beta Let_def)
  then show "final_assistant_text (snd (generate_final_events ops s)) = sc_assistant_content s"
    by (simp add: plain_modes(4)) (simp add: eq on_manager_def split_beta Let_def)
qed

end
