(* ===== verification/StreamProperties.thy ===== *)
theory StreamProperties
  imports StreamFinalSound StreamText EventStreamTheorems
begin

text \<open>
  The response stream of \<open>stream_kiro_upstream_response\<close>: whatever the upstream sends, the client
  receives a well-formed message; without rewriting modes the message carries the upstream's text.
\<close>

section \<open>The events of the frames\<close>

fun decoded_events :: "'f payload_codec \<Rightarrow> frame list \<Rightarrow> 'f kiro_event list" where
  "decoded_events codec [] = []"
| "decoded_events codec (f # frames) =
     (case from_frame codec f of Inl _ \<Rightarrow> [] | Inr event \<Rightarrow> event # decoded_events codec frames)"

lemma stream_frames_good:
  assumes fair: "fair_order (st_block_order ops)"
  shows "base s p \<Longrightarrow> good s \<Longrightarrow> (sc_thinking_extracted s \<Longrightarrow> ended)
    \<Longrightarrow> (strict \<Longrightarrow> thinking_first ended (decoded_events codec frames))
    \<Longrightarrow> \<exists>p'. protocol_run strict p (fst (stream_frames codec ops frames s)) = Some p'
        \<and> base (fst (snd (stream_frames codec ops frames s))) p' \<and> good (fst (snd (stream_frames codec ops frames s)))
        \<and> sc_thinking_enabled (fst (snd (stream_frames codec ops frames s))) = sc_thinking_enabled s"
proof (induction frames arbitrary: s p ended)
  case (Cons f frames)
  show ?case
  proof (cases "from_frame codec f")
    case (Inl err)
    then show ?thesis using Cons.prems by simp
  next
    case (Inr event)
    let ?s = "snd (process_kiro_event ops event s)"
    have "strict \<and> signed_reasoning event \<longrightarrow> \<not> sc_thinking_extracted s"
      using Cons.prems(3,4) Inr by auto
    then obtain p1 where p1: "protocol_run strict p (fst (process_kiro_event ops event s)) = Some p1" "base ?s p1" "good ?s"
      using acceptsE[OF event_good[OF fair, of strict event] Cons.prems(1)] Cons.prems(2) by blast
    have ext: "ended \<or> ends_thinking event" if "sc_thinking_extracted ?s"
      using that unended_extracted[of event ops s] Cons.prems(3) by blast
    have first: "thinking_first (ended \<or> ends_thinking event) (decoded_events codec frames)" if strict
      using that Cons.prems(4) Inr by simp
    from Cons.IH[OF p1(2,3) ext first] obtain p2 where "protocol_run strict p1 (fst (stream_frames codec ops frames ?s)) = Some p2"
      "base (fst (snd (stream_frames codec ops frames ?s))) p2" "good (fst (snd (stream_frames codec ops frames ?s)))"
      "sc_thinking_enabled (fst (snd (stream_frames codec ops frames ?s))) = sc_thinking_enabled ?s"
      by auto
    then show ?thesis using p1(1) Inr by (simp add: split_beta Let_def mode_event)
  qed
qed simp

lemma step_message_delta:
  "sse_event ev = ''message_delta'' \<Longrightarrow> protocol_step strict p ev
    = (if ps_phase p = Streaming \<and> all_stopped p then Some (p\<lparr>ps_phase := Closing\<rparr>) else None)"
  by (simp add: protocol_step_def)

lemma step_replace_usage: "protocol_step strict p (replace_usage usage ev) = protocol_step strict p ev"
  by (cases "sse_event ev = ''message_delta''") (simp_all add: replace_usage_def step_message_delta)

lemma run_replace_usage: "protocol_run strict p (map (replace_usage usage) evs) = protocol_run strict p evs"
  by (induction evs arbitrary: p) (simp_all add: step_replace_usage split: option.split)

lemma kiro_stream_untouched:
  "untouched (kiro_stream_context ops uuid model n t h names structured threshold sig safety identity)"
  "sc_thinking_enabled (kiro_stream_context ops uuid model n t h names structured threshold sig safety identity) = t"
  by (simp_all add: untouched_def kiro_stream_context_def with_response_identity_def
      with_private_prompt_safety_enabled_def with_thinking_signature_context_def
      with_context_usage_min_request_tokens_def new_with_thinking_visibility_def new_with_thinking_def)

text \<open>
  C12.  What the client receives for an upstream response is a well-formed message, whatever
  frames arrive: one \<open>message_start\<close>, blocks with consecutive indices that are started once,
  continued by deltas of their own type while they are open and stopped once, and, when the
  response ends normally, one \<open>message_delta\<close> and one \<open>message_stop\<close> after every block was stopped;
  with thinking enabled the message has a thinking block and another one.  If the upstream sends a
  signed reasoning event only before text and tools, deltas reach open blocks only; otherwise the
  thinking delta of a stopped block is the only deviation.
\<close>

theorem sse_stream_is_well_formed:
  assumes fair: "fair_order (st_block_order ops)"
    and out: "stream_kiro_upstream_response crc codec ops usage peeked
        (kiro_stream_context ops uuid model n thinking hidden names structured threshold sig safety identity) = (out, ok)"
    and strict: "strict = thinking_first False (decoded_events codec (fst (relay_kiro_frames (parse_frame crc) peeked)))"
  shows "\<exists>p. protocol_run strict protocol_start out = Some p
    \<and> (if ok then finished_message thinking p else ps_phase p = Streaming)"
proof -
  let ?s0 = "kiro_stream_context ops uuid model n thinking hidden names structured threshold sig safety identity"
  let ?frames = "fst (relay_kiro_frames (parse_frame crc) peeked)"
  let ?s1 = "snd (generate_initial_events ops ?s0)"
  obtain p1 where p1: "protocol_run strict protocol_start (fst (generate_initial_events ops ?s0)) = Some p1"
    "base ?s1 p1" "good ?s1" "\<not> sc_thinking_extracted ?s1" "sc_thinking_enabled ?s1 = thinking"
    by (rule initial_events_good[OF fair kiro_stream_untouched(1)]) (use kiro_stream_untouched(2) in \<open>simp add: kiro_stream_untouched(2)\<close>)
  let ?s2 = "fst (snd (stream_frames codec ops ?frames ?s1))"
  obtain p2 where p2: "protocol_run strict p1 (fst (stream_frames codec ops ?frames ?s1)) = Some p2"
    "base ?s2 p2" "good ?s2" "sc_thinking_enabled ?s2 = thinking"
    using stream_frames_good[OF fair p1(2,3), of False strict codec ?frames] p1(4,5) strict by auto
  obtain p3 where p3: "protocol_run strict p2 (fst (generate_final_events ops ?s2)) = Some p3" "finished_message thinking p3"
    by (rule final_events_finish[OF fair p2(2,3), of strict]) (auto simp: p2(4))
  have "out = fst (generate_initial_events ops ?s0) @ fst (stream_frames codec ops ?frames ?s1)
      @ (if ok then map (replace_usage (usage ?s2)) (fst (generate_final_events ops ?s2)) else [])"
    using out by (auto simp: stream_kiro_upstream_response_def split_beta Let_def split: if_split_asm)
  moreover have "ps_phase p2 = Streaming" using p2(2) trackedD(1) by (auto simp: base_def)
  ultimately show ?thesis
    using p3(2) by (cases ok) (simp_all add: p1(1) p2(1) p3(1) run_replace_usage)
qed

section \<open>Text\<close>

lemma event_text_replaced: "event_text (replace_usage usage ev) = event_text ev"
  by (simp add: event_text_def replace_usage_def)

lemma streamed_text_replaced: "streamed_text (map (replace_usage usage) evs) = streamed_text evs"
  by (induction evs) (simp_all add: event_text_replaced)

lemma kiro_stream_plain:
  "plain (kiro_stream_context ops uuid model n False False names None threshold sig False identity)"
  "sc_assistant_content (kiro_stream_context ops uuid model n t h names structured threshold sig safety identity) = []"
  by (simp_all add: plain_def kiro_stream_context_def with_response_identity_def
      with_private_prompt_safety_enabled_def with_thinking_signature_context_def
      with_context_usage_min_request_tokens_def new_with_thinking_visibility_def new_with_thinking_def)

lemma frames_relay:
  assumes fair: "fair_order (st_block_order ops)"
  shows "base s p \<Longrightarrow> good s \<Longrightarrow> plain s \<Longrightarrow> map (from_frame codec) frames = map Inr events \<Longrightarrow>
    streamed_text (fst (stream_frames codec ops frames s)) = upstream_text events
    \<and> plain (fst (snd (stream_frames codec ops frames s)))
    \<and> sc_assistant_content (fst (snd (stream_frames codec ops frames s))) = sc_assistant_content s @ upstream_text events
    \<and> snd (snd (stream_frames codec ops frames s)) = None"
proof (induction frames arbitrary: s p events)
  case Nil
  then show ?case by (simp add: upstream_text_def)
next
  case (Cons f frames)
  obtain event rest where events: "events = event # rest" "from_frame codec f = Inr event"
    "map (from_frame codec) frames = map Inr rest"
    using Cons.prems(4) by (cases events) auto
  let ?s = "snd (process_kiro_event ops event s)"
  have ev: "streamed_text (fst (process_kiro_event ops event s)) = upstream_text [event]" "plain ?s"
    "sc_assistant_content ?s = sc_assistant_content s @ upstream_text [event]"
    using event_relays[OF fair, of event] Cons.prems(1,3) unfolding relays_def by blast+
  have "accepts False good (process_kiro_event ops event) good"
    using event_good[OF fair, of False event] by simp
  from acceptsE[OF this Cons.prems(1,2)] obtain p' where "base ?s p'" "good ?s" by blast
  note rest = Cons.IH[OF this ev(2) events(3)]
  have split: "upstream_text events = upstream_text [event] @ upstream_text rest"
    by (simp add: events(1) upstream_text_def)
  show ?case
    using rest ev(1,3) by (simp add: events(2) split split_beta Let_def)
qed

text \<open>
  C13.  Without a mode that rewrites text (thinking, hidden thinking, structured output, prompt
  safety) no text is lost, added or reordered: the text deltas that the client receives, put
  together, are the texts of the upstream's assistant events, put together, and the assistant
  message that is recorded for the conversation has the same text.
\<close>

theorem plain_text_is_relayed:
  assumes fair: "fair_order (st_block_order ops)"
    and frames: "relay_kiro_frames (parse_frame crc) peeked = (frames, RelayDone)"
    and decoded: "map (from_frame codec) frames = map Inr events"
    and ctx: "ctx = kiro_stream_context ops uuid model n False False names None threshold sig False identity"
  shows "streamed_text (fst (stream_kiro_upstream_response crc codec ops usage peeked ctx)) = upstream_text events
    \<and> snd (stream_kiro_upstream_response crc codec ops usage peeked ctx)
    \<and> am_content (final_assistant_message (snd (generate_final_events ops
          (fst (snd (stream_frames codec ops frames (snd (generate_initial_events ops ctx)))))))) = upstream_text events"
proof -
  let ?s1 = "snd (generate_initial_events ops ctx)"
  have new: "untouched ctx" "plain ctx" "sc_assistant_content ctx = []"
    by (simp_all add: ctx kiro_stream_untouched kiro_stream_plain)
  obtain p where p: "base ?s1 p" "good ?s1"
    by (rule initial_events_good[OF fair new(1), of False]) auto
  note run = frames_relay[OF fair p, of codec frames events]
  let ?s2 = "fst (snd (stream_frames codec ops frames ?s1))"
  have s2: "streamed_text (fst (stream_frames codec ops frames ?s1)) = upstream_text events" "plain ?s2"
    "sc_assistant_content ?s2 = upstream_text events" "snd (snd (stream_frames codec ops frames ?s1)) = None"
    using run decoded new by (simp_all add: initial_relays)
  have "stream_kiro_upstream_response crc codec ops usage peeked ctx
      = (fst (generate_initial_events ops ctx) @ fst (stream_frames codec ops frames ?s1)
          @ map (replace_usage (usage ?s2)) (fst (generate_final_events ops ?s2)), True)"
    using s2(4) by (simp add: stream_kiro_upstream_response_def frames split_beta Let_def)
  then show ?thesis
    using s2(1) final_relays[OF s2(2)] s2(3)
    by (simp add: initial_relays streamed_text_replaced final_assistant_message_def Let_def)
qed

section \<open>A concrete upstream\<close>

text \<open>
  An instance of the library code for the examples: a payload is its own text, a signature is
  its own bytes, and the only \<open>f64\<close> is an integer.
\<close>

definition sample_ops :: "int stream_ops" where
  "sample_ops =
     \<lparr>st_block_order = id, st_parse_json = (\<lambda>_. None), st_render_json = (\<lambda>_. []), st_to_lowercase = id,
      st_signature = \<lparr>sg_sha512 = (\<lambda>_. replicate 64 0), sg_base64 = bytes_str\<rparr>,
      st_context_tokens = (\<lambda>_ _. 0), st_at_least_100 = (\<lambda>_. False), st_f64_zero = 0,
      st_f64_add = (+), st_f64_max = max\<rparr>"

definition sample_codec :: "int payload_codec" where
  "sample_codec =
     \<lparr>decode_assistant_response = (\<lambda>bs. Inr \<lparr>are_content = bytes_str bs\<rparr>),
      decode_reasoning_content = (\<lambda>bs. Inr \<lparr>rce_text = Some (bytes_str bs), rce_signature = Some ''s''\<rparr>),
      decode_tool_use = (\<lambda>_. Inl []), decode_metering = (\<lambda>_. Inl []), decode_context_usage = (\<lambda>_. Inl [])\<rparr>"

definition sample_crc :: "byte list \<Rightarrow> u32" where
  "sample_crc bs = word_of_nat (length bs)"

definition sample_frames :: "((string \<times> header_value) list \<times> byte list) list" where
  "sample_frames =
     [([('':event-type'', HString ''reasoningContentEvent'')], str_bytes ''Hm''),
      ([('':event-type'', HString ''assistantResponseEvent'')], str_bytes ''Hi''),
      ([('':event-type'', HString ''assistantResponseEvent'')], str_bytes ''!'')]"

lemma sample_fair: "fair_order (st_block_order sample_ops)"
  by (simp add: fair_order_def sample_ops_def)

lemma sample_decoded:
  "map (from_frame sample_codec) (map frame_of sample_frames)
    = map Inr [ReasoningContent \<lparr>rce_text = Some ''Hm'', rce_signature = Some ''s''\<rparr>,
        AssistantResponse \<lparr>are_content = ''Hi''\<rparr>, AssistantResponse \<lparr>are_content = ''!''\<rparr>]"
  by (simp add: sample_frames_def sample_codec_def from_frame_def frame_of_def frame_message_type_def
      frame_event_type_def headers_message_type_def headers_event_type_def headers_get_string_def headers_get_def
      headers_of_def parse_event_def from_wire_name_def payload_as_json_def Let_def)

lemma sample_wf: "list_all wf_frame sample_frames"
  by (simp add: sample_frames_def wf_frame_def wf_header_def encode_headers_def encode_header_def utf8_valid_str)

lemma sample_lengths:
  "length (concat (map (encode_frame sample_crc) sample_frames)) \<le> 300"
  "f \<in> set (sample_frames @ [([], [])]) \<Longrightarrow> length (encode_frame sample_crc f) \<le> 100"
  by (auto simp: sample_frames_def length_encode_frame encode_headers_def encode_header_def)

lemma sample_relayed:
  obtains peeked where
    "peek_kiro_stream (parse_frame sample_crc)
        [Inr (concat (map (encode_frame sample_crc) sample_frames)) :: string + byte list] = Inr peeked"
    "relay_kiro_frames (parse_frame sample_crc) peeked = (map frame_of sample_frames, RelayDone)"
proof -
  define all where "all = concat (map (encode_frame sample_crc) sample_frames)"
  have last: "wf_frame ([], [])" by (simp add: wf_frame_def encode_headers_def)
  have fits: "\<forall>c \<in> set [all]. \<forall>f \<in> set (sample_frames @ [([], [])]).
      length c + length (encode_frame sample_crc f) \<le> Suc DEFAULT_MAX_BUFFER_SIZE"
  proof (intro ballI)
    fix c f assume "c \<in> set [all]" "f \<in> set (sample_frames @ [([], [])])"
    then have "length c \<le> 300" "length (encode_frame sample_crc f) \<le> 100"
      using sample_lengths by (simp_all add: all_def)
    then show "length c + length (encode_frame sample_crc f) \<le> Suc DEFAULT_MAX_BUFFER_SIZE"
      by (simp add: DEFAULT_MAX_BUFFER_SIZE_def)
  qed
  have some: "sample_frames \<noteq> []" by (simp add: sample_frames_def)
  have room: "0 < length (encode_frame sample_crc ([], []))" by (simp add: length_encode_frame)
  have cut: "concat [all] = concat (map (encode_frame sample_crc) sample_frames) @ take 0 (encode_frame sample_crc ([], []))"
    by (simp add: all_def)
  from kiro_frames.peeked_relay_frames[OF sample_wf some last room cut fits, where ?'e = string]
  show thesis using that by (auto simp: all_def)
qed

lemma decoded_all:
  "map (from_frame codec) frames = map Inr events
    \<Longrightarrow> decoded_events codec frames = events \<and> snd (snd (stream_frames codec ops frames s)) = None"
proof (induction frames arbitrary: events s)
  case (Cons f frames)
  then show ?case by (cases events) (auto simp: split_beta Let_def)
qed simp

lemma streamed_to_the_end:
  assumes "relay_kiro_frames (parse_frame crc) peeked = (frames, RelayDone)"
    and "map (from_frame codec) frames = map Inr events"
  shows "snd (stream_kiro_upstream_response crc codec ops usage peeked ctx)"
  using assms(1) decoded_all[OF assms(2), of ops] by (simp add: stream_kiro_upstream_response_def split_beta Let_def)

lemma sse_stream_is_well_formed_witness:
  "\<exists>peeked p. peek_kiro_stream (parse_frame sample_crc)
        [Inr (concat (map (encode_frame sample_crc) sample_frames)) :: string + byte list] = Inr peeked
    \<and> protocol_run True protocol_start (fst (stream_kiro_upstream_response sample_crc sample_codec sample_ops (\<lambda>_. JNull) peeked
        (kiro_stream_context sample_ops ''u'' ''m'' 7 True False [] None 0 None False None))) = Some p
    \<and> finished_message True p"
proof -
  obtain peeked where peeked: "peek_kiro_stream (parse_frame sample_crc)
        [Inr (concat (map (encode_frame sample_crc) sample_frames)) :: string + byte list] = Inr peeked"
    "relay_kiro_frames (parse_frame sample_crc) peeked = (map frame_of sample_frames, RelayDone)"
    by (rule sample_relayed)
  let ?ctx = "kiro_stream_context sample_ops ''u'' ''m'' 7 True False [] None 0 None False None"
  let ?out = "stream_kiro_upstream_response sample_crc sample_codec sample_ops (\<lambda>_. JNull) peeked ?ctx"
  have ok: "?out = (fst ?out, True)"
    using streamed_to_the_end[OF peeked(2) sample_decoded] by (simp add: prod_eq_iff)
  have "thinking_first False (decoded_events sample_codec (fst (relay_kiro_frames (parse_frame sample_crc) peeked)))"
    using decoded_all[OF sample_decoded] by (simp add: peeked(2) signed_reasoning_def filter_nonempty_def ends_thinking_def)
  then show ?thesis
    using sse_stream_is_well_formed[OF sample_fair ok refl] peeked(1) by auto
qed

lemma plain_text_is_relayed_witness:
  "\<exists>peeked. peek_kiro_stream (parse_frame sample_crc)
        [Inr (concat (map (encode_frame sample_crc) sample_frames)) :: string + byte list] = Inr peeked
    \<and> streamed_text (fst (stream_kiro_upstream_response sample_crc sample_codec sample_ops (\<lambda>_. JNull) peeked
        (kiro_stream_context sample_ops ''u'' ''m'' 7 False False [] None 0 None False None))) = ''Hi!''"
proof -
  obtain peeked where peeked: "peek_kiro_stream (parse_frame sample_crc)
        [Inr (concat (map (encode_frame sample_crc) sample_frames)) :: string + byte list] = Inr peeked"
    "relay_kiro_frames (parse_frame sample_crc) peeked = (map frame_of sample_frames, RelayDone)"
    by (rule sample_relayed)
  show ?thesis
    using plain_text_is_relayed[OF sample_fair peeked(2) sample_decoded refl] peeked(1)
    by (auto simp: upstream_text_def)
qed

end
