(* ===== verification/ThinkingSignatureProperties.thy ===== *)
theory ThinkingSignatureProperties
  imports ThinkingSignature
begin

text \<open>
  What a thinking signature binds.  The envelope can be read back field by field, so equal
  signatures have equal fields; verification accepts the two signatures the service itself
  would give to a text and nothing else.
\<close>

section \<open>Fields are prefix free\<close>

lemma byte_of_nat_eq: "v < 256 \<Longrightarrow> w < 256 \<Longrightarrow> (word_of_nat v :: byte) = word_of_nat w \<longleftrightarrow> v = w"
  by (simp add: word_of_nat_eq_iff take_bit_eq_mod)

lemma varint_prefix_free [simp]:
  "encode_proto_varint a @ xs = encode_proto_varint b @ ys \<longleftrightarrow> a = b \<and> xs = ys"
proof (induction a arbitrary: b rule: encode_proto_varint.induct)
  case (1 a)
  have split: "b = c \<longleftrightarrow> b mod 128 = c mod 128 \<and> b div 128 = c div 128" for b c :: nat
    by (metis div_mult_mod_eq)
  have digit: "v mod 128 + 128 < 256" for v :: nat by (simp add: add_less_mono1[of "v mod 128" 128 128, simplified])
  show ?case
  proof (cases "a < 128"; cases "b < 128")
    assume "a < 128" "b < 128"
    then show ?thesis by (subst (1 2) encode_proto_varint.simps) (simp add: byte_of_nat_eq)
  next
    assume "a < 128" "\<not> b < 128"
    then show ?thesis using digit[of b]
      by (subst (1 2) encode_proto_varint.simps) (auto simp: byte_of_nat_eq simp del: of_nat_add)
  next
    assume "\<not> a < 128" "b < 128"
    then show ?thesis using digit[of a]
      by (subst (1 2) encode_proto_varint.simps) (auto simp: byte_of_nat_eq simp del: of_nat_add)
  next
    assume big: "\<not> a < 128" "\<not> b < 128"
    have "encode_proto_varint a @ xs = encode_proto_varint b @ ys
      \<longleftrightarrow> a mod 128 = b mod 128 \<and> encode_proto_varint (a div 128) @ xs = encode_proto_varint (b div 128) @ ys"
      using big digit[of a] digit[of b]
      by (subst (1 2) encode_proto_varint.simps) (simp add: byte_of_nat_eq del: of_nat_add)
    then show ?thesis using 1[OF big(1), of "b div 128"] split[of a b] by auto
  qed
qed

lemma length_varint [simp]: "length (encode_proto_varint v) = proto_varint_len v"
  by (induction v rule: proto_varint_len.induct)
    (subst encode_proto_varint.simps, subst proto_varint_len.simps, auto)

lemma varint_field_prefix_free [simp]:
  "encode_proto_varint_field n a @ xs = encode_proto_varint_field n b @ ys \<longleftrightarrow> a = b \<and> xs = ys"
  by (simp add: encode_proto_varint_field_def encode_proto_key_def)

lemma bytes_field_prefix_free [simp]:
  "encode_proto_bytes_field n a @ xs = encode_proto_bytes_field n b @ ys \<longleftrightarrow> a = b \<and> xs = ys"
  by (auto simp: encode_proto_bytes_field_def encode_proto_key_def)

lemma bytes_field_inj [simp]: "encode_proto_bytes_field n a = encode_proto_bytes_field n b \<longleftrightarrow> a = b"
  using bytes_field_prefix_free[of n a "[]" b "[]"] by simp

lemma length_bytes_field [simp]:
  "length (encode_proto_bytes_field n v) = proto_bytes_field_encoded_len n (length v)"
  by (simp add: encode_proto_bytes_field_def encode_proto_key_def proto_bytes_field_encoded_len_def)

lemma payload_length: "length (signature_payload shape model thinking derive) = fixed_payload_len shape model thinking derive"
  by (simp add: signature_payload_def fixed_payload_len_def)

section \<open>Derived bytes\<close>

definition signature_contract :: "signature_ops \<Rightarrow> bool" where
  "signature_contract ops = ((\<forall>bs. length (sg_sha512 ops bs) = SHA512_OUTPUT_LEN) \<and> inj (sg_base64 ops))"

lemma length_hmac: "signature_contract ops \<Longrightarrow> length (hmac_sha512 ops secret chunks) = SHA512_OUTPUT_LEN"
  by (simp add: hmac_sha512_def signature_contract_def Let_def)

lemma derive_loop_enough:
  assumes "\<And>c. length (digest c) = SHA512_OUTPUT_LEN"
  shows "len \<le> length out + fuel \<Longrightarrow> len \<le> length (derive_loop digest fuel len counter out)"
proof (induction fuel arbitrary: counter out)
  case (Suc fuel)
  have "len \<le> length (out @ digest counter) + fuel"
    using Suc.prems assms by (simp add: SHA512_OUTPUT_LEN_def)
  from Suc.IH[OF this] show ?case by simp
qed simp

lemma derive_one_digest:
  assumes "\<And>c. length (digest c) = SHA512_OUTPUT_LEN"
  shows "take SHA512_OUTPUT_LEN (derive_loop digest SHA512_OUTPUT_LEN SHA512_OUTPUT_LEN 0 []) = digest 0"
proof -
  have "derive_loop digest fuel SHA512_OUTPUT_LEN c out = out" if "length out = SHA512_OUTPUT_LEN" for fuel c out
    using that by (cases fuel) simp_all
  moreover have "SHA512_OUTPUT_LEN = Suc 63" by (simp add: SHA512_OUTPUT_LEN_def)
  ultimately have "derive_loop digest SHA512_OUTPUT_LEN SHA512_OUTPUT_LEN 0 [] = digest 0"
    using assms by (metis append_Nil derive_loop.simps(2) list.size(3) zero_less_Suc)
  then show ?thesis using assms by simp
qed

lemma length_derived:
  "signature_contract ops \<Longrightarrow> length (derive_protected_signature_bytes ops model thinking key_id secret label len) = len"
  using derive_loop_enough[of "\<lambda>c. hmac_sha512 ops (str_bytes secret) (protected_chunks model thinking key_id label c)" len "[]" len 0]
  by (simp add: derive_protected_signature_bytes_def length_hmac)

lemma header_body_is_digest:
  assumes "signature_contract ops"
  shows "derive_protected_signature_bytes ops model thinking key_id secret label THINKING_SIGNATURE_HEADER_BODY_LEN
    = hmac_sha512 ops (str_bytes secret) (protected_chunks model thinking key_id label 0)"
proof -
  have "THINKING_SIGNATURE_HEADER_BODY_LEN = SHA512_OUTPUT_LEN"
    by (simp add: THINKING_SIGNATURE_HEADER_BODY_LEN_def SHA512_OUTPUT_LEN_def)
  then show ?thesis
    using derive_one_digest length_hmac[OF assms] by (simp only: derive_protected_signature_bytes_def)
qed

section \<open>Equal envelopes\<close>

lemma str_bytes_inj [simp]: "str_bytes a = str_bytes b \<longleftrightarrow> a = b"
  by (metis bytes_str_bytes)

lemma equal_envelopes:
  assumes "signature_contract ops"
    and "build_signature_envelope_with_shape ops shape model thinking derive
      = build_signature_envelope_with_shape ops shape' model' thinking' derive'"
  shows "ses_header_kind shape = ses_header_kind shape'" "model = model'"
    and "derive (str_bytes ''header-body'') THINKING_SIGNATURE_HEADER_BODY_LEN
      = derive' (str_bytes ''header-body'') THINKING_SIGNATURE_HEADER_BODY_LEN"
proof -
  have "inj (sg_base64 ops)" using assms(1) by (simp add: signature_contract_def)
  then have "signature_payload shape model thinking derive = signature_payload shape' model' thinking' derive'"
    using assms(2) by (simp add: build_signature_envelope_with_shape_def inj_eq)
  then have "signature_header shape model thinking derive = signature_header shape' model' thinking' derive'"
    by (simp add: signature_payload_def)
  then show "ses_header_kind shape = ses_header_kind shape'" "model = model'"
    "derive (str_bytes ''header-body'') THINKING_SIGNATURE_HEADER_BODY_LEN
      = derive' (str_bytes ''header-body'') THINKING_SIGNATURE_HEADER_BODY_LEN"
    by (simp_all add: signature_header_def)
qed

section \<open>Verification\<close>

lemma diff_fold:
  "foldl (\<lambda>diff (a, b). diff OR (a XOR b)) d (zip xs ys) = (0 :: byte)
    \<longleftrightarrow> d = 0 \<and> (\<forall>(a, b) \<in> set (zip xs ys). a = b)"
proof (induction xs arbitrary: d ys)
  case (Cons x xs)
  have "a OR b = 0 \<longleftrightarrow> a = 0 \<and> b = 0" for a b :: byte
    by (metis or.left_neutral or.right_neutral word_log_esimps(3) or_eq_0_iff)
  moreover have "a XOR b = 0 \<longleftrightarrow> a = b" for a b :: byte
    by (metis xor.assoc xor.right_neutral xor_self_eq)
  ultimately show ?case using Cons.IH by (cases ys) auto
qed simp

lemma constant_time_eq_exact [simp]: "constant_time_eq a b \<longleftrightarrow> a = b"
proof (cases "length a = length b")
  case True
  then have "(\<forall>(x, y) \<in> set (zip a b). x = y) \<longleftrightarrow> a = b"
    by (induction a b rule: list_induct2) auto
  then show ?thesis using True by (simp add: constant_time_eq_def diff_fold)
qed (auto simp: constant_time_eq_def)

lemma verify_exact:
  "verify_protected_thinking_signature ops model thinking key_id secret signature
    \<longleftrightarrow> signature \<in> {protected_thinking_signature ops model thinking key_id secret,
                    legacy_protected_thinking_signature ops model thinking key_id secret}"
  by (auto simp: verify_protected_thinking_signature_def Let_def)

text \<open>What the digest of the header body is taken of.\<close>

definition bound_message :: "string \<Rightarrow> string \<Rightarrow> string \<Rightarrow> byte list list" where
  "bound_message model thinking key_id = protected_chunks model thinking key_id (str_bytes ''header-body'') 0"

lemma separated:
  "z \<notin> set a \<Longrightarrow> z \<notin> set b \<Longrightarrow> a @ z # xs = b @ z # ys \<Longrightarrow> a = b \<and> xs = ys"
proof (induction a arbitrary: b)
  case Nil
  then show ?case by (cases b) auto
next
  case (Cons c a)
  then show ?case by (cases b) auto
qed

lemma bound_message_inj:
  assumes "0 \<notin> set (str_bytes key_id)" "0 \<notin> set (str_bytes key_id')"
    and "concat (bound_message model thinking key_id) = concat (bound_message model thinking' key_id')"
  shows "key_id = key_id' \<and> thinking = thinking'"
proof -
  have "str_bytes key_id @ 0 # (str_bytes model @ 0 # str_bytes thinking @ counter_bytes 0)
      = str_bytes key_id' @ 0 # (str_bytes model @ 0 # str_bytes thinking' @ counter_bytes 0)"
    using assms(3) by (simp add: bound_message_def protected_chunks_def)
  then have "str_bytes key_id = str_bytes key_id'
      \<and> str_bytes model @ 0 # str_bytes thinking @ counter_bytes 0
        = str_bytes model @ 0 # str_bytes thinking' @ counter_bytes 0"
    by (rule separated[OF assms(1,2)])
  then show ?thesis by simp
qed

lemma verified_binds:
  assumes contract: "signature_contract ops"
    and ok: "verify_protected_thinking_signature ops model' thinking' key_id' secret'
      (protected_thinking_signature ops model thinking key_id secret)"
  shows "model' = model"
    and "hmac_sha512 ops (str_bytes secret') (bound_message model' thinking' key_id')
      = hmac_sha512 ops (str_bytes secret) (bound_message model thinking key_id)"
proof -
  let ?derive = "derive_protected_signature_bytes ops model thinking key_id secret"
  let ?derive' = "derive_protected_signature_bytes ops model' thinking' key_id' secret'"
  have "\<exists>shape. build_signature_envelope_with_shape ops CURRENT_SIGNATURE_ENVELOPE_SHAPE model thinking ?derive
      = build_signature_envelope_with_shape ops shape model' thinking' ?derive'"
    using ok by (auto simp: verify_exact protected_thinking_signature_def legacy_protected_thinking_signature_def
        build_signature_envelope_def)
  then obtain shape where eq: "build_signature_envelope_with_shape ops CURRENT_SIGNATURE_ENVELOPE_SHAPE model thinking ?derive
      = build_signature_envelope_with_shape ops shape model' thinking' ?derive'" by blast
  show "model' = model" using equal_envelopes(2)[OF contract eq] by simp
  show "hmac_sha512 ops (str_bytes secret') (bound_message model' thinking' key_id')
      = hmac_sha512 ops (str_bytes secret) (bound_message model thinking key_id)"
    using equal_envelopes(3)[OF contract eq] by (simp add: header_body_is_digest[OF contract] bound_message_def)
qed

text \<open>
  C32.  The signature of a thinking block is bound to what it was made for.  The current and the
  legacy signature of a text verify.  A current signature that verifies for other arguments was
  made for the same model, and the HMACs of both messages agree: unless the HMAC collides, it was
  made for the same key id and the same text, where key ids have no NUL byte.  The envelope has
  the length that the code computes beforehand.
\<close>

theorem thinking_signature_is_bound:
  assumes contract: "signature_contract ops"
    and keys: "0 \<notin> set (str_bytes key_id)" "0 \<notin> set (str_bytes key_id')"
  shows "verify_protected_thinking_signature ops model thinking key_id secret
        (protected_thinking_signature ops model thinking key_id secret)
    \<and> verify_protected_thinking_signature ops model thinking key_id secret
        (legacy_protected_thinking_signature ops model thinking key_id secret)
    \<and> (verify_protected_thinking_signature ops model' thinking' key_id' secret'
          (protected_thinking_signature ops model thinking key_id secret)
        \<longrightarrow> model' = model
          \<and> hmac_sha512 ops (str_bytes secret') (bound_message model thinking' key_id')
            = hmac_sha512 ops (str_bytes secret) (bound_message model thinking key_id)
          \<and> (concat (bound_message model thinking' key_id') = concat (bound_message model thinking key_id)
              \<longrightarrow> key_id' = key_id \<and> thinking' = thinking))
    \<and> length (signature_payload shape model thinking derive) = fixed_payload_len shape model thinking derive"
proof (intro conjI impI)
  assume ok: "verify_protected_thinking_signature ops model' thinking' key_id' secret'
      (protected_thinking_signature ops model thinking key_id secret)"
  show model: "model' = model" by (rule verified_binds(1)[OF contract ok])
  show "hmac_sha512 ops (str_bytes secret') (bound_message model thinking' key_id')
      = hmac_sha512 ops (str_bytes secret) (bound_message model thinking key_id)"
    using verified_binds(2)[OF contract ok] by (simp only: model)
  assume "concat (bound_message model thinking' key_id') = concat (bound_message model thinking key_id)"
  from bound_message_inj[OF keys(2,1) this] show "key_id' = key_id" "thinking' = thinking" by simp_all
qed (simp_all add: verify_exact payload_length)

lemma thinking_signature_is_bound_witness:
  "\<exists>ops. signature_contract ops
    \<and> verify_protected_thinking_signature ops ''m'' ''t'' ''k'' ''s'' (protected_thinking_signature ops ''m'' ''t'' ''k'' ''s'')
    \<and> \<not> verify_protected_thinking_signature ops ''n'' ''t'' ''k'' ''s''
        (protected_thinking_signature ops ''m'' ''t'' ''k'' ''s'')"
proof -
  let ?ops = "\<lparr>sg_sha512 = \<lambda>_. replicate 64 0, sg_base64 = bytes_str\<rparr>"
  have "inj bytes_str" by (metis injI str_bytes_str)
  then have "signature_contract ?ops" by (simp add: signature_contract_def SHA512_OUTPUT_LEN_def)
  moreover have "0 \<notin> set (str_bytes ''k'')" by (simp add: str_bytes_def byte_of_char_def)
  ultimately show ?thesis
    using thinking_signature_is_bound[of ?ops "''k''" "''k''" "''m''" "''t''" "''s''" "''n''" "''t''" "''s''"]
    by (intro exI[of _ ?ops]) auto
qed

end
