(* ===== verification/Spec2Isabelle.thy ===== *)
theory Spec2Isabelle
  imports EventStreamProperties SimulatorProperties LimitsProperties AnthropicPoolProperties
    ActivityProperties SessionAffinityProperties JournalProperties UsagePipelineProperties
    StreamProperties ThinkingSignatureProperties
begin

text \<open>
  The LLM access service of the repository (\<open>crates/llm-access*\<close>) relays requests for
  Anthropic's Messages API to Kiro accounts.  This development models the parts of it that
  carry their own logic: how the upstream's binary stream is cut into events and translated to the
  server-sent events of the client, how the service
  simulates the prompt cache that it reports to its clients and carries it across restarts and
  between nodes, how it limits and schedules requests on the accounts, and how the usage of every
  request gets through the journal (\<open>crates/llm-usage-journal\<close>) into the analytics store.

  \<^bold>\<open>How the parts interact.\<close>  A request is projected to segments and token pages
  (\<open>Projection\<close>); the simulator (\<open>Simulator\<close>) looks up its pages in the radix trie
  (\<open>PrefixTree\<close>) and the anchor of its conversation in the anchor index (\<open>AnchorIndex\<close>); the
  key's limits are checked (\<open>Limits\<close>), the account that served the session last is preferred
  (\<open>SessionAffinity\<close>) and the scheduler (\<open>Scheduler\<close>) grants a lease on an account; direct
  Anthropic upstreams are picked by the channel pool (\<open>AnthropicPool\<close>).  The response is
  decoded by the event stream decoder (\<open>EventStreamDecoder\<close>), peeked at first and then
  relayed: each frame becomes an event of Kiro (\<open>KiroEvents\<close>), which the stream context
  (\<open>StreamDriver\<close>) turns into events of a message; when it succeeds the simulator records the turn.  From time to time the simulator
  is written to a snapshot (\<open>SnapshotWire\<close>, \<open>PrefixTreeCodec\<close>), and a starting node unites the
  snapshots of all nodes (\<open>AnchorUnion\<close>).

  When a request ends its usage event is given to the sink (\<open>UsageSink\<close>), which batches events
  into blocks of a journal file (\<open>JournalFile\<close>) in the directory \<open>active\<close>; full files are moved
  to \<open>sealed\<close> (\<open>JournalRoot\<close>), and what a crash leaves in \<open>active\<close> is recovered at the next start
  (\<open>JournalRecovery\<close>).  A worker (\<open>UsageWorker\<close>) claims the oldest sealed file, reads its blocks
  (\<open>JournalReader\<close>), appends their events to the analytics store (\<open>AnalyticsStore\<close>) and deletes
  the file.

  \<^bold>\<open>Theories and sources\<close> (paths under \<open>src/crates/\<close>).

  \<^item> \<open>Prelude\<close>, \<open>Utf8\<close>, \<open>HashMapModel\<close>: machine integers as words or as bounded naturals with
    their saturating operations, byte strings, the lossy UTF-8 conversion of the standard
    library, and \<open>HashMap\<close> as a list of entries with distinct keys.
  \<^item> \<open>EventStreamParser\<close>, \<open>EventStreamDecoder\<close>: \<open>llm-access-kiro/src/parser/\<close> with
    \<open>peek_kiro_stream\<close> (\<open>llm-access/src/provider/kiro_dispatch.rs\<close>) and the receive loop of
    \<open>stream_guards.rs\<close>.  A parse is a sum of an error or an optional frame, the decoder a record
    with its buffer, state and counters.  \<open>EventStreamCodec\<close> is the wire format as an encoder;
    \<open>EventStreamTheorems\<close> has the invariant and the completeness lemmas in the locales
    \<open>frame_source\<close> and \<open>framing\<close>, which \<open>parse_frame\<close> instantiates; \<open>EventStreamProperties\<close> has
    C1 to C6.
  \<^item> \<open>KiroEvents\<close>, \<open>KiroModels\<close>, \<open>InlineThinking\<close>, \<open>PromptSafety\<close>, \<open>SseEvents\<close>, \<open>StreamContext\<close>,
    \<open>StreamTranslation\<close>, \<open>StreamDriver\<close>: the response events of \<open>wire.rs\<close>, the model names of
    \<open>anthropic/converter/model.rs\<close> and the response identity of \<open>converter/mod.rs\<close>, and
    \<open>anthropic/stream/\<close> of \<open>llm-access-kiro/src\<close>; the body of
    \<open>stream_kiro_upstream_response\<close> (\<open>stream_guards.rs\<close>).  A method that returns events is an
    \<open>emitter\<close>: from a context to its events and the new context.  \<open>StreamProtocol\<close> is the
    specification, an automaton over the events the client sees; \<open>StreamInvariant\<close> relates the
    block states to it (\<open>tracked\<close>), \<open>StreamSoundness\<close> has rules for emitters in the manner of a
    Hoare logic (\<open>accepts\<close>, \<open>quiet\<close>), \<open>StreamEventsSound\<close> applies them to each upstream event,
    \<open>StreamFinalSound\<close> to the first and last events, \<open>StreamMode\<close> and \<open>StreamText\<close> follow the mode
    and the text; \<open>StreamProperties\<close> has C12 and C13.
  \<^item> \<open>ThinkingSignature\<close>: \<open>anthropic/stream/signature.rs\<close>; \<open>ThinkingSignatureProperties\<close> shows that
    its fields can be read back and what a signature determines (C32).
  \<^item> \<open>CachePages\<close>, \<open>PrefixTree\<close>: \<open>cache_sim/prefix_tree.rs\<close> of \<open>llm-access-kiro/src\<close>.  Its
    abstraction is the map \<open>last_touch\<close> from stored sequences of page keys to instants
    (\<open>PrefixTreeSpec\<close>); \<open>PrefixTreeTheorems\<close>, \<open>PrefixTreeInsert\<close> and \<open>PrefixTreeEviction\<close> show
    that matching, insertion, expiry and eviction refine operations on that map;
    \<open>PrefixCacheInterface\<close> is the contract of a prefix cache as the locale \<open>prefix_cache\<close>, which
    \<open>PrefixTreeProperties\<close> interprets (C7 to C11).
  \<^item> \<open>SnapshotWire\<close>, \<open>PrefixTreeCodec\<close>: \<open>cache_sim/snapshot.rs\<close> and the codec half of
    \<open>prefix_tree.rs\<close>; \<open>PrefixTreeCodecTheorems\<close> and \<open>PrefixTreeCap\<close> prove the sections' round
    trip and its capped form, \<open>SnapshotProperties\<close> C14 and C15.
  \<^item> \<open>AnchorUnion\<close>, \<open>AnchorIndex\<close>: \<open>AnchorUnion\<close> of \<open>snapshot.rs\<close> and \<open>cache_sim/anchor_index.rs\<close>;
    \<open>AnchorIndexTheorems\<close> relates the index to the list of its rows, \<open>AnchorSnapshot\<close> the
    section to the rows it restores, \<open>AnchorProperties\<close> has C16 to C18.
  \<^item> \<open>JsonValue\<close>, \<open>Projection\<close>: \<open>cache_sim/projection.rs\<close> over the conversation types of
    \<open>wire.rs\<close>; \<open>ProjectionProperties\<close> has C19 to C23.
  \<^item> \<open>Simulator\<close>: \<open>cache_sim/simulator.rs\<close>, each method as the sequence of its locked sections;
    \<open>SimulatorProperties\<close> has C24 to C26, which span all the parts of the simulation.
  \<^item> \<open>Scheduler\<close>: \<open>llm-access-kiro/src/scheduler.rs\<close> and, as the step relation \<open>system_step\<close>, its
    clients with their leases and the waiting of \<open>wait_for_available\<close>; \<open>SchedulerProperties\<close> has
    C27 to C30, the last of which is the run in which a wake-up is lost.
  \<^item> \<open>IpAddress\<close>, \<open>AnthropicPool\<close>: \<open>llm-access-anthropic-pool/src/lib.rs\<close>, its smooth weighted round
    robin, the usage of a response and the check of a base URL, with the address parser of the
    standard library; \<open>AnthropicPoolProperties\<close> has C31 and C33.
  \<^item> \<open>Limits\<close>: \<open>llm-access/src/provider/limiter.rs\<close> with the types of \<open>provider.rs\<close>;
    \<open>LimitsProperties\<close> has C34, over all runs of acquisitions and drops of permits.
  \<^item> \<open>Activity\<close>: \<open>llm-access/src/activity.rs\<close>; \<open>ActivityProperties\<close> has C35, which compares the
    ring of buckets with the list of all requests recorded.
  \<^item> \<open>LruCache\<close>, \<open>SessionAffinity\<close>: \<open>llm-access/src/provider/kiro_session_affinity.rs\<close>;
    \<open>SessionAffinityProperties\<close> has C36.
  \<^item> \<open>JournalWire\<close>, \<open>JournalFile\<close>, \<open>JournalReader\<close>: \<open>wire.rs\<close>, \<open>writer.rs\<close> and \<open>reader.rs\<close> of
    \<open>llm-usage-journal/src\<close>.  A file is the list of its bytes; the writer is shared by the
    journals of events and of rollups through the argument \<open>payload\<close>, as the two copies in the
    code differ in nothing else.  \<open>JournalFileTheorems\<close> and \<open>JournalWriterTheorems\<close> have the
    contract of the codecs and the invariant \<open>writer_inv\<close>, \<open>JournalInstance\<close> a concrete codec that
    satisfies the contract.
  \<^item> \<open>JournalRoot\<close>, \<open>JournalRecovery\<close>: \<open>writer_state.rs\<close>, \<open>retention.rs\<close>, \<open>inspect.rs\<close>, \<open>state.rs\<close>
    and \<open>recovery.rs\<close>, the directories as lists of entries with their bytes; \<open>JournalCrash\<close> cuts
    a file at any byte and follows the recovery.
  \<^item> \<open>RollupJournal\<close>: \<open>rollup.rs\<close>; \<open>RollupCrash\<close> follows its reader and its recovery, which
    truncates in place.  \<open>JournalProperties\<close> has C37 to C39.
  \<^item> \<open>UsageSink\<close>, \<open>UsageWorker\<close>, \<open>AnalyticsStore\<close>: \<open>llm-access/src/usage_journal.rs\<close>,
    \<open>usage_worker.rs\<close> and the appending path of \<open>llm-access-store/src/duckdb\<close>.
    \<open>UsageWorkerTheorems\<close> states what the worker needs of the store as the locale \<open>event_store\<close>,
    which the tiered repository instantiates; \<open>UsagePipeline\<close> is the step relation of producer,
    crashes and worker in any interleaving; \<open>UsagePipelineProperties\<close> has C40.

  \<^bold>\<open>Library code.\<close>  What is not in the repository is an argument of the definitions: the
  checksum (\<open>crc32\<close>), gzip (\<open>gzip_contract\<close>: what was compressed is restored, cut to the limit
  of the reader), the LRU cache (\<open>lru_contract\<close>, with \<open>list_lru\<close> as an instance), the
  hexadecimal and hash functions (\<open>hex_ops\<close>, \<open>canon_ops\<close>), the URL parser (\<open>url_ops\<close>), the
  JSON parser and printer, the Unicode tables, the operations on \<open>f64\<close> and the iteration order of a
  hash map (\<open>stream_ops\<close>, with \<open>fair_order\<close>: an order is a permutation), the decoding of event
  payloads (\<open>payload_codec\<close>), SHA-512 and Base64 (\<open>signature_contract\<close>: digests have 64 bytes and
  different bytes have different encodings), the
  serialisation, compression and checksums of the journal (\<open>journal_codec\<close>, with
  \<open>container_contract\<close> and \<open>payload_contract\<close>: values in the range of their types are decoded to
  themselves).  Hypotheses on them state documented
  behaviour, and the witnesses instantiate them.

  \<^bold>\<open>Bounds and fuel.\<close>  \<open>usize\<close> and \<open>u64\<close> counters are naturals with the saturation or wrap-around of
  the source written out, the \<open>i32\<close> block indices and token counts of a stream integers (a stream
  has fewer than \<open>2 ^ 31\<close> of either); keys and token counts of pages are words.  An \<open>Instant\<close> is a number of
  nanoseconds; where a clock is read is an argument.  Loops are structural or have a measure;
  \<open>decode_iter\<close> has the fuel \<open>length buffer + 2\<close> (each round consumes a byte or ends the
  iteration) and the loops of the anchor index the number of cached rows, and the theorems on
  them show that this is enough.

  \<^bold>\<open>Not modelled.\<close>  The administration and submission handlers, the stores (SQL) apart from the
  appending of events, the refresh and status workers, the translation of requests to Kiro's
  format and of both directions for Codex, the non-streaming response, the cache policy and the token
  heuristics (floating point), the blog backend, the content store, the media service, the
  command lines and the frontend.  Of the usage worker, the upload of a file to the primary is
  modelled with the HTTP request as an argument, its progress figures (floating point) are left out, and so
  are the attribution to proxies, the retention of segments and the queries of the analytics
  store.  Logging, allocation hints and the poisoning of locks are left out everywhere; a disk
  that fails or loses what was synced is not considered.
\<close>

end
